(* ===== verification/Prelude.thy ===== *)
theory Prelude
  imports
    Main
    "HOL-Library.Word"
    "HOL-Library.AList"
    "HOL-Library.Multiset"
    "HOL-Library.Sublist"
    "HOL-Library.List_Lexorder"
    "HOL-Library.Char_ord"
begin

text \<open>
  Shared vocabulary of the development.

  \<^item> Go strings and byte slices are \<open>string\<close> (a list of bytes); Go's \<open><\<close> on strings is the
    byte-wise lexicographic order, which is the order \<open>List_Lexorder\<close> and \<open>Char_ord\<close> give.
  \<^item> A Go map is an association list: \<open>mget\<close>, \<open>mput\<close>, \<open>mdel\<close> read, write and delete a key.
    The list order stands for the order in which the runtime happens to iterate, so a lemma that
    holds for every list holds for every iteration order.
  \<^item> An operation that can fail returns \<open>error + state\<close>; \<open>rbind\<close> is the early return of
    \<open>if err != nil\<close>, and \<open>rfold\<close> a loop over a slice with such a return in its body.
  \<^item> A validator returns \<open>error option\<close>, with \<open>None\<close> for a nil error; \<open>first_err\<close> is the loop
    that returns the first error.
\<close>

type_synonym bytes = string
type_synonym u64 = "64 word"
type_synonym u32 = "32 word"
type_synonym ('k, 'v) gomap = "('k \<times> 'v) list"

named_theorems result_simps \<open>unfolding of the result combinators\<close>

section \<open>Go maps as association lists\<close>

abbreviation mget :: "('k, 'v) gomap \<Rightarrow> 'k \<Rightarrow> 'v option" where
  "mget m k \<equiv> map_of m k"

abbreviation mput :: "'k \<Rightarrow> 'v \<Rightarrow> ('k, 'v) gomap \<Rightarrow> ('k, 'v) gomap" where
  "mput k v m \<equiv> AList.update k v m"

abbreviation mdel :: "'k \<Rightarrow> ('k, 'v) gomap \<Rightarrow> ('k, 'v) gomap" where
  "mdel k m \<equiv> AList.delete k m"

abbreviation mkeys :: "('k, 'v) gomap \<Rightarrow> 'k list" where
  "mkeys m \<equiv> map fst m"

definition gm_wf :: "('k, 'v) gomap \<Rightarrow> bool" where
  "gm_wf m \<longleftrightarrow> distinct (mkeys m)"

lemma gm_wf_put [simp, intro]: "gm_wf m \<Longrightarrow> gm_wf (mput k v m)"
  by (simp add: gm_wf_def distinct_update)

lemma gm_wf_del [simp, intro]: "gm_wf m \<Longrightarrow> gm_wf (mdel k m)"
  by (simp add: gm_wf_def distinct_delete)

lemma gm_wf_Nil [simp]: "gm_wf []"
  by (simp add: gm_wf_def)

lemma mget_put [simp]: "mget (mput k v m) k' = (if k' = k then Some v else mget m k')"
  by (simp add: update_conv')

lemma mget_del [simp]: "mget (mdel k m) k' = (if k' = k then None else mget m k')"
  by (simp add: delete_conv')

lemma gm_in_set_iff: "gm_wf m \<Longrightarrow> (k, v) \<in> set m \<longleftrightarrow> mget m k = Some v"
  by (simp add: gm_wf_def)

section \<open>Results and loops with early return\<close>

definition rbind :: "'e + 'a \<Rightarrow> ('a \<Rightarrow> 'e + 'b) \<Rightarrow> 'e + 'b" where
  "rbind r f = (case r of Inl e \<Rightarrow> Inl e | Inr a \<Rightarrow> f a)"

lemma rbind_Inl [simp]: "rbind (Inl e) f = Inl e"
  by (simp add: rbind_def)

lemma rbind_Inr [simp]: "rbind (Inr a) f = f a"
  by (simp add: rbind_def)

lemma rbind_assoc: "rbind (rbind r f) g = rbind r (\<lambda>a. rbind (f a) g)"
  by (cases r) simp_all

lemma rbind_eq_Inr [result_simps]: "rbind r f = Inr b \<longleftrightarrow> (\<exists>a. r = Inr a \<and> f a = Inr b)"
  by (cases r) auto

lemma rbind_InrE [elim]:
  assumes "rbind r f = Inr b"
  obtains a where "r = Inr a" and "f a = Inr b"
  using assms by (cases r) auto

text \<open>\<open>guard_err v r\<close>: return the validator's error, otherwise continue.\<close>

definition guard_err :: "'e option \<Rightarrow> 'e + 'a \<Rightarrow> 'e + 'a" where
  "guard_err v r = (case v of Some e \<Rightarrow> Inl e | None \<Rightarrow> r)"

lemma guard_err_simps [simp]:
  "guard_err None r = r"
  "guard_err (Some e) r = Inl e"
  by (simp_all add: guard_err_def)

lemma guard_err_Inr [result_simps]: "guard_err v r = Inr a \<longleftrightarrow> v = None \<and> r = Inr a"
  by (cases v) auto

definition of_opt :: "'e \<Rightarrow> 'a option \<Rightarrow> 'e + 'a" where
  "of_opt e x = (case x of None \<Rightarrow> Inl e | Some a \<Rightarrow> Inr a)"

lemma of_opt_simps [simp]:
  "of_opt e None = Inl e"
  "of_opt e (Some a) = Inr a"
  by (simp_all add: of_opt_def)

lemma of_opt_Inr [result_simps]: "of_opt e x = Inr a \<longleftrightarrow> x = Some a"
  by (cases x) auto

text \<open>The error of a result, as a validator returns it.\<close>

definition err_of :: "'e + 'a \<Rightarrow> 'e option" where
  "err_of r = (case r of Inl e \<Rightarrow> Some e | Inr _ \<Rightarrow> None)"

lemma err_of_simps [simp]:
  "err_of (Inl e) = Some e"
  "err_of (Inr a) = None"
  by (simp_all add: err_of_def)

lemma err_of_None: "err_of r = None \<longleftrightarrow> (\<exists>a. r = Inr a)"
  by (cases r) auto

fun first_err :: "('a \<Rightarrow> 'e option) \<Rightarrow> 'a list \<Rightarrow> 'e option" where
  "first_err f [] = None"
| "first_err f (x # xs) = (case f x of Some e \<Rightarrow> Some e | None \<Rightarrow> first_err f xs)"

lemma first_err_None [simp]: "first_err f xs = None \<longleftrightarrow> (\<forall>x \<in> set xs. f x = None)"
  by (induction xs) (auto split: option.splits)

fun rfold :: "('a \<Rightarrow> 's \<Rightarrow> 'e + 's) \<Rightarrow> 'a list \<Rightarrow> 's \<Rightarrow> 'e + 's" where
  "rfold f [] s = Inr s"
| "rfold f (x # xs) s = rbind (f x s) (rfold f xs)"

lemma rfold_append: "rfold f (xs @ ys) s = rbind (rfold f xs s) (rfold f ys)"
proof (induction xs arbitrary: s)
  case (Cons x xs)
  then show ?case by (cases "f x s") simp_all
qed simp

fun rmap :: "('a \<Rightarrow> 'e + 'b) \<Rightarrow> 'a list \<Rightarrow> 'e + 'b list" where
  "rmap f [] = Inr []"
| "rmap f (x # xs) = rbind (f x) (\<lambda>y. rbind (rmap f xs) (\<lambda>ys. Inr (y # ys)))"

lemma rmap_Inr_length: "rmap f xs = Inr ys \<Longrightarrow> length ys = length xs"
  by (induction xs arbitrary: ys) (auto simp: result_simps)

lemma rmap_Inr_iff: "rmap f xs = Inr ys \<longleftrightarrow> map f xs = map Inr ys"
proof (induction xs arbitrary: ys)
  case (Cons x xs)
  then show ?case
    by (cases ys) (auto simp: result_simps)
qed auto

lemma rmap_Inr_nth:
  assumes "rmap f xs = Inr ys" and "j < length xs"
  shows "f (xs ! j) = Inr (ys ! j)"
proof -
  have "map f xs ! j = map Inr ys ! j"
    using assms(1) by (simp add: rmap_Inr_iff)
  then show ?thesis
    using assms rmap_Inr_length[OF assms(1)] by simp
qed

text \<open>
  Code whose loops may run forever returns \<open>(error + 'a) option\<close>: \<open>None\<close> is a run that does not
  end. \<open>pbind\<close> sequences such runs, \<open>pret\<close> and \<open>pthrow\<close> end them.
\<close>

type_synonym ('e, 'a) run = "('e + 'a) option"

definition pbind :: "('e, 'a) run \<Rightarrow> ('a \<Rightarrow> ('e, 'b) run) \<Rightarrow> ('e, 'b) run" where
  "pbind r f = (case r of None \<Rightarrow> None | Some (Inl e) \<Rightarrow> Some (Inl e) | Some (Inr a) \<Rightarrow> f a)"

abbreviation pret :: "'a \<Rightarrow> ('e, 'a) run" where
  "pret a \<equiv> Some (Inr a)"

abbreviation pthrow :: "'e \<Rightarrow> ('e, 'a) run" where
  "pthrow e \<equiv> Some (Inl e)"

lemma pbind_simps [simp]:
  "pbind None f = None"
  "pbind (Some (Inl e)) f = Some (Inl e)"
  "pbind (Some (Inr a)) f = f a"
  by (simp_all add: pbind_def)

lemma pbind_eq_pret [result_simps]: "pbind r f = pret b \<longleftrightarrow> (\<exists>a. r = pret a \<and> f a = pret b)"
  by (cases r; cases "the r") (auto simp: pbind_def split: sum.splits)

text \<open>Comparing sorted copies compares the elements with their multiplicities.\<close>

lemma sort_eq_iff_mset: "sort xs = sort ys \<longleftrightarrow> mset xs = mset (ys :: 'a :: linorder list)"
  by (metis mset_sort properties_for_sort sorted_sort)

text \<open>\<open>n\<close> bytes of a number, the least significant first; higher ones are cut off.\<close>

fun leBytes :: "nat \<Rightarrow> nat \<Rightarrow> bytes" where
  "leBytes 0 v = []"
| "leBytes (Suc n) v = char_of (v mod 256) # leBytes n (v div 256)"

fun leValue :: "bytes \<Rightarrow> nat" where
  "leValue [] = 0"
| "leValue (b # bs) = of_char b + 256 * leValue bs"

lemma length_leBytes [simp]: "length (leBytes n v) = n"
  by (induction n arbitrary: v) simp_all

lemma leValue_leBytes: "leValue (leBytes n v) = v mod 256 ^ n"
proof (induction n arbitrary: v)
  case (Suc n)
  have "v mod 256 ^ Suc n = v mod 256 + 256 * (v div 256 mod 256 ^ n)"
    using mod_mult2_eq[of v 256 "256 ^ n"] by simp
  then show ?case
    by (simp add: Suc)
qed simp

text \<open>
  A loop whose body keeps an invariant keeps it as a whole. The contract is a locale, so that
  each component states the body's lemma once and takes the loop's from the interpretation.
\<close>

locale guarded_steps =
  fixes step :: "'a \<Rightarrow> 's \<Rightarrow> 'e + 's"
    and inv :: "'s \<Rightarrow> bool"
    and ok :: "'a \<Rightarrow> bool"
  assumes step_inv: "inv s \<Longrightarrow> ok x \<Longrightarrow> step x s = Inr s' \<Longrightarrow> inv s'"
begin

lemma run_inv: "inv s \<Longrightarrow> list_all ok xs \<Longrightarrow> rfold step xs s = Inr s' \<Longrightarrow> inv s'"
proof (induction xs arbitrary: s)
  case (Cons x xs)
  from Cons.prems obtain s1 where "step x s = Inr s1" and "rfold step xs s1 = Inr s'"
    by (auto simp: result_simps)
  moreover from this Cons.prems have "inv s1"
    by (auto intro: step_inv)
  ultimately show ?case
    using Cons.prems by (auto intro: Cons.IH)
qed simp

end

end
