(* ===== verification/AclModels.thy ===== *)
theory AclModels
  imports Prelude
begin

text \<open>
  Data model of the access control list: \<open>commonspace/object/acl/list/models.go\<close>, the types at
  the head of \<open>aclstate.go\<close> and the protobuf messages of an ACL record.

  A public key is the byte string \<open>Storage()\<close> returns, which is also what \<open>Equals\<close> compares and
  what \<open>mapKeyFromPubKey\<close> uses as a map key. Protobuf enums are open, so each enum has a
  constructor for the values outside its named ones. A byte field the code compares with nil is
  an option. The cryptographic primitives are fields of the record \<open>crypto\<close>.
\<close>

type_synonym pubkey = bytes
type_synonym privkey = bytes
type_synonym symkey = bytes

section \<open>Permissions (models.go)\<close>

datatype AclPermissions =
    AclPermissionsNone
  | AclPermissionsOwner
  | AclPermissionsAdmin
  | AclPermissionsWriter
  | AclPermissionsReader
  | AclPermissionsGuest
  | AclPermissionsOther int

definition NoPermissions :: "AclPermissions \<Rightarrow> bool" where
  "NoPermissions p \<longleftrightarrow> p = AclPermissionsNone"

definition IsOwner :: "AclPermissions \<Rightarrow> bool" where
  "IsOwner p \<longleftrightarrow> p = AclPermissionsOwner"

definition IsGuest :: "AclPermissions \<Rightarrow> bool" where
  "IsGuest p \<longleftrightarrow> p = AclPermissionsGuest"

definition IsAdmin :: "AclPermissions \<Rightarrow> bool" where
  "IsAdmin p \<longleftrightarrow> p = AclPermissionsAdmin"

fun CanWrite :: "AclPermissions \<Rightarrow> bool" where
  "CanWrite AclPermissionsAdmin = True"
| "CanWrite AclPermissionsWriter = True"
| "CanWrite AclPermissionsOwner = True"
| "CanWrite _ = False"

fun CanManageAccounts :: "AclPermissions \<Rightarrow> bool" where
  "CanManageAccounts AclPermissionsAdmin = True"
| "CanManageAccounts AclPermissionsOwner = True"
| "CanManageAccounts _ = False"

fun CanRequestRemove :: "AclPermissions \<Rightarrow> bool" where
  "CanRequestRemove AclPermissionsGuest = False"
| "CanRequestRemove _ = True"

fun IsLessOrEqual :: "AclPermissions \<Rightarrow> AclPermissions \<Rightarrow> bool" where
  "IsLessOrEqual AclPermissionsNone q = True"
| "IsLessOrEqual AclPermissionsReader q = (q \<noteq> AclPermissionsNone)"
| "IsLessOrEqual AclPermissionsWriter q = (q = AclPermissionsWriter \<or> q = AclPermissionsAdmin)"
| "IsLessOrEqual AclPermissionsAdmin q = (AclPermissionsAdmin = q)"
| "IsLessOrEqual _ q = False"

lemmas perm_defs = NoPermissions_def IsOwner_def IsGuest_def IsAdmin_def

section \<open>Statuses, requests, accounts\<close>

datatype AclStatus =
    StatusNone | StatusJoining | StatusActive | StatusRemoved | StatusDeclined
  | StatusRemoving | StatusCanceled

datatype RequestType = RequestTypeRemove | RequestTypeJoin

record RequestRecord =
  RequestIdentity :: pubkey
  rr_RequestMetadata :: bytes
  rr_KeyRecordId :: string
  rr_RecordId :: string
  rr_Type :: RequestType

record PermissionChange =
  pc_RecordId :: string
  pc_Permission :: AclPermissions

record AccountState =
  as_PubKey :: "pubkey option"
  as_Permissions :: AclPermissions
  as_Status :: AclStatus
  as_RequestMetadata :: bytes
  as_KeyRecordId :: string
  as_PermissionChanges :: "PermissionChange list"

text \<open>The zero value a map read of an absent key gives.\<close>

definition zeroAccountState :: AccountState where
  "zeroAccountState = \<lparr>as_PubKey = None, as_Permissions = AclPermissionsNone,
     as_Status = StatusNone, as_RequestMetadata = [], as_KeyRecordId = [],
     as_PermissionChanges = []\<rparr>"

record AclKeys =
  ReadKey :: "symkey option"
  MetadataPrivKey :: "privkey option"
  MetadataPubKey :: "pubkey option"
  encryptedPreviousReadKey :: "bytes option"
  encryptedMetadataKey :: "bytes option"

definition zeroAclKeys :: AclKeys where
  "zeroAclKeys = \<lparr>ReadKey = None, MetadataPrivKey = None, MetadataPubKey = None,
     encryptedPreviousReadKey = None, encryptedMetadataKey = None\<rparr>"

datatype AclInviteType = RequestToJoin | AnyoneCanJoin | InviteTypeOther int

record Invite =
  inv_Key :: pubkey
  inv_Type :: AclInviteType
  inv_Permissions :: AclPermissions
  inv_Id :: string
  inv_encryptedReadKey :: "bytes option"

record AclSpaceOptions =
  deleteRestricted :: bool

record OptionChange =
  oc_RecordId :: string
  oc_Options :: "AclSpaceOptions option"

section \<open>Protobuf messages of a record\<close>

record AclAccountInvite =
  ai_inviteKey :: bytes
  ai_inviteType :: AclInviteType
  ai_permissions :: AclPermissions
  ai_encryptedReadKey :: "bytes option"

record AclAccountInviteChange =
  ic_inviteRecordId :: string
  ic_permissions :: AclPermissions

record AclOwnershipChange =
  ow_newOwnerIdentity :: bytes
  ow_oldOwnerPermissions :: AclPermissions

record AclAccountRequestJoin =
  rj_inviteIdentity :: bytes
  rj_inviteRecordId :: string
  rj_inviteIdentitySignature :: bytes
  rj_metadata :: bytes

record AclAccountInviteJoin =
  ij_identity :: bytes
  ij_inviteRecordId :: string
  ij_inviteIdentitySignature :: bytes
  ij_metadata :: bytes
  ij_encryptedReadKey :: "bytes option"
  ij_permissions :: AclPermissions

record AclAccountRequestAccept =
  ra_identity :: bytes
  ra_requestRecordId :: string
  ra_encryptedReadKey :: "bytes option"
  ra_permissions :: AclPermissions

record AclEncryptedReadKey =
  ek_identity :: bytes
  ek_encryptedReadKey :: "bytes option"

record AclAccountAdd =
  aa_identity :: bytes
  aa_permissions :: AclPermissions
  aa_metadata :: bytes
  aa_encryptedReadKey :: "bytes option"

record AclAccountPermissionChange =
  pm_identity :: bytes
  pm_permissions :: AclPermissions

record AclReadKeyChange =
  rk_accountKeys :: "AclEncryptedReadKey list"
  rk_metadataPubKey :: bytes
  rk_encryptedMetadataPrivKey :: "bytes option"
  rk_encryptedOldReadKey :: "bytes option"
  rk_inviteKeys :: "AclEncryptedReadKey list"

text \<open>The submessage of an account removal is a pointer, nil when the field is absent.\<close>

record AclAccountRemove =
  ar_identities :: "bytes list"
  ar_readKeyChange :: "AclReadKeyChange option"

record AclOneToOneInfo =
  oi_owner :: "bytes option"
  oi_writers :: "bytes list"

record AclRoot =
  ro_encryptedReadKey :: "bytes option"
  ro_metadataPubKey :: bytes
  ro_encryptedMetadataPrivKey :: "bytes option"
  ro_encryptedOwnerMetadata :: bytes
  ro_oneToOneInfo :: "AclOneToOneInfo option"
  ro_options :: "AclSpaceOptions option"

datatype AclContentValue =
    ContentInvite AclAccountInvite
  | InviteRevoke string
  | RequestJoin AclAccountRequestJoin
  | RequestAccept AclAccountRequestAccept
  | ContentPermissionChange AclAccountPermissionChange
  | AccountRemove AclAccountRemove
  | ReadKeyChange AclReadKeyChange
  | RequestDecline string
  | AccountRequestRemove
  | PermissionChanges "AclAccountPermissionChange list"
  | AccountsAdd "AclAccountAdd list"
  | RequestCancel string
  | InviteJoin AclAccountInviteJoin
  | InviteChange AclAccountInviteChange
  | OwnershipChange AclOwnershipChange
  | SpaceOptionsChange "AclSpaceOptions option"
  | UnexpectedContent

datatype AclModel = AclData "AclContentValue list" | AclRootModel AclRoot

record AclRecord =
  rec_Id :: string
  rec_PrevId :: string
  rec_Data :: bytes
  rec_Identity :: pubkey
  rec_Model :: "AclModel option"

section \<open>Errors\<close>

text \<open>
  The sentinel errors of \<open>aclstate.go\<close> and \<open>list.go\<close>; \<open>ErrKey\<close> is an error of the key storage,
  \<open>ErrUnmarshal\<close> one of the protobuf decoder, \<open>ErrOneToOne\<close> the formatted errors of
  \<open>onetoone.go\<close>. The last three are panics of the Go code.
\<close>

datatype acl_error =
    ErrNoSuchAccount | ErrPendingRequest | ErrUnexpectedContentType | ErrIncorrectIdentity
  | ErrIncorrectInviteKey | ErrFailedToDecrypt | ErrNoMetadataKey | ErrNoSuchRecord
  | ErrNoSuchRequest | ErrNoSuchInvite | ErrInsufficientPermissions | ErrDuplicateInvites
  | ErrIsOwner | ErrIncorrectNumberOfAccounts | ErrDuplicateAccounts | ErrNoReadKey
  | ErrIncorrectReadKey | ErrInvalidSignature | ErrIncorrectRoot | ErrIncorrectRecordSequence
  | ErrMetadataTooLarge | ErrOwnerNotFound | ErrAddRecordOneToOne | ErrEmptyAclRecordData
  | ErrNoAclContent | ErrEmptyRecordId | ErrRecordAlreadyExists | ErrIncorrectCID
  | ErrReadKeyChangeNotAlone
  | ErrKey | ErrUnmarshal | ErrOneToOne | ErrStorage
  | PanicNilDereference | PanicIndexOutOfRange | PanicTypeAssertion

definition MaxMetadataLen :: nat where
  "MaxMetadataLen = 1024"

section \<open>Cryptographic primitives and generated decoders\<close>

record crypto =
  pubKeyFromProto :: "bytes \<Rightarrow> pubkey option"
  verify :: "pubkey \<Rightarrow> bytes \<Rightarrow> bytes \<Rightarrow> bool"
  decryptPriv :: "privkey \<Rightarrow> bytes \<Rightarrow> bytes option"
  decryptSym :: "symkey \<Rightarrow> bytes \<Rightarrow> bytes option"
  unmarshallAESKeyProto :: "bytes \<Rightarrow> symkey option"
  unmarshalEd25519PrivateKeyProto :: "bytes \<Rightarrow> privkey option"
  getPublic :: "privkey \<Rightarrow> pubkey"
  marshallPub :: "pubkey \<Rightarrow> bytes"
  generateSharedKey :: "privkey \<Rightarrow> pubkey \<Rightarrow> string \<Rightarrow> privkey option"
  encryptSym :: "symkey \<Rightarrow> bytes \<Rightarrow> bytes option"
  deriveSymmetricKey :: "bytes \<Rightarrow> bytes \<Rightarrow> symkey option"
  unmarshalAclData :: "bytes \<Rightarrow> AclContentValue list option"
  rangeRank :: "pubkey \<Rightarrow> (string, Invite) gomap \<Rightarrow> string \<Rightarrow> nat"

text \<open>
  A \<open>range\<close> over a map visits its entries in an order that Go leaves open. \<open>rangeInvites\<close> is the order
  in which the search for the invite with key \<open>k\<close> visits the invites: by a rank that is part of the
  environment, on which nothing is assumed, so that every order is the order of some rank.
\<close>

definition rangeInvites :: "crypto \<Rightarrow> pubkey \<Rightarrow> (string, Invite) gomap \<Rightarrow> (string, Invite) gomap" where
  "rangeInvites C k m = sort_key (\<lambda>(key, _). rangeRank C k m key) m"

lemma set_rangeInvites [simp]: "set (rangeInvites C k m) = set m"
  by (simp add: rangeInvites_def)

section \<open>The state (aclstate.go)\<close>

record contentValidator =
  shouldValidate :: bool
  admission :: bool

record AclState =
  st_id :: string
  st_keys :: "(string, AclKeys) gomap"
  accountStates :: "(string, AccountState) gomap"
  invites :: "(string, Invite) gomap"
  requestRecords :: "(string, RequestRecord) gomap"
  pendingRequests :: "(string, string) gomap"
  readKeyChanges :: "string list"
  st_key :: "privkey option"
  lastRecordId :: string
  st_contentValidator :: contentValidator
  optionChanges :: "OptionChange list"
  isOneToOne :: bool

definition mapKeyFromPubKey :: "pubkey \<Rightarrow> string" where
  [simp]: "mapKeyFromPubKey pk = pk"

definition Permissions :: "AclState \<Rightarrow> pubkey \<Rightarrow> AclPermissions" where
  "Permissions st identity =
     (case mget (accountStates st) (mapKeyFromPubKey identity) of
        None \<Rightarrow> AclPermissionsNone
      | Some state \<Rightarrow> as_Permissions state)"

text \<open>\<open>mapKeyFromPubKey\<close> of a nil interface panics.\<close>

definition mapKeyFromNilable :: "pubkey option \<Rightarrow> acl_error + string" where
  "mapKeyFromNilable k = of_opt PanicNilDereference (map_option mapKeyFromPubKey k)"

abbreviation bytes_of :: "bytes option \<Rightarrow> bytes" where
  "bytes_of b \<equiv> (case b of None \<Rightarrow> [] | Some x \<Rightarrow> x)"

section \<open>Lemmas on permissions\<close>

lemma IsLessOrEqual_owner [simp]: "\<not> IsLessOrEqual AclPermissionsOwner q"
  by simp

lemma CanManageAccounts_iff: "CanManageAccounts p \<longleftrightarrow> IsOwner p \<or> IsAdmin p"
  by (cases p) (simp_all add: perm_defs)

lemma CanManageAccounts_CanWrite: "CanManageAccounts p \<Longrightarrow> CanWrite p"
  by (cases p) simp_all

lemma IsLessOrEqual_trans:
  "IsLessOrEqual p q \<Longrightarrow> IsLessOrEqual q r \<Longrightarrow> IsLessOrEqual p r"
  by (cases p; cases q; cases r) auto

end
