(* ===== verification/AclValidator.thy ===== *)
theory AclValidator
  imports AclModels
begin

text \<open>
  The content validator, \<open>commonspace/object/acl/list/validator.go\<close>: one definition per
  \<open>Validate\<close> method, with the checks in the order the code makes them. The validator holds a
  pointer to the state it validates against, so every definition takes the state; its own two
  fields (\<open>verifier.ShouldValidate()\<close> and \<open>admission\<close>) are the state's
  \<open>st_contentValidator\<close>. The result is the returned error, \<open>None\<close> for nil.
\<close>

section \<open>Definitions\<close>

definition ShouldValidate :: "AclState \<Rightarrow> bool" where
  "ShouldValidate st = shouldValidate (st_contentValidator st)"

definition getAccount :: "AclState \<Rightarrow> string \<Rightarrow> AccountState" where
  "getAccount st k =
     (case mget (accountStates st) k of None \<Rightarrow> zeroAccountState | Some s \<Rightarrow> s)"

definition ValidateOwnershipChange ::
    "crypto \<Rightarrow> AclState \<Rightarrow> AclOwnershipChange \<Rightarrow> pubkey \<Rightarrow> acl_error option" where
  "ValidateOwnershipChange C st ch authorIdentity =
     (if \<not> ShouldValidate st then None
      else if \<not> IsOwner (Permissions st authorIdentity) then Some ErrInsufficientPermissions
      else (case pubKeyFromProto C (ow_newOwnerIdentity ch) of
          None \<Rightarrow> Some ErrKey
        | Some identity \<Rightarrow>
            (let oldOwnerPerms = ow_oldOwnerPermissions ch;
                 newOwnerPerms = Permissions st identity
             in if NoPermissions newOwnerPerms then Some ErrNoSuchAccount
                else (let newOwnerStatus = getAccount st (mapKeyFromPubKey identity)
                  in if as_Status newOwnerStatus \<noteq> StatusActive
                        \<or> IsOwner newOwnerPerms
                        \<or> IsOwner oldOwnerPerms
                        \<or> NoPermissions oldOwnerPerms
                     then Some ErrInsufficientPermissions
                     else None))))"

definition validateAccountAdd ::
    "crypto \<Rightarrow> AclState \<Rightarrow> AclPermissions \<Rightarrow> AclAccountAdd \<Rightarrow> acl_error option" where
  "validateAccountAdd C st authorPerms ch =
     (case pubKeyFromProto C (aa_identity ch) of
        None \<Rightarrow> Some ErrKey
      | Some identity \<Rightarrow>
          if \<not> NoPermissions (Permissions st identity) then Some ErrDuplicateAccounts
          else if IsOwner (aa_permissions ch) then Some ErrIsOwner
          else if NoPermissions (aa_permissions ch) then Some ErrInsufficientPermissions
          else if IsAdmin (aa_permissions ch) \<and> \<not> IsOwner authorPerms
            then Some ErrInsufficientPermissions
          else None)"

definition ValidateAccountsAdd ::
    "crypto \<Rightarrow> AclState \<Rightarrow> AclAccountAdd list \<Rightarrow> pubkey \<Rightarrow> acl_error option" where
  "ValidateAccountsAdd C st additions authorIdentity =
     (if \<not> ShouldValidate st then None
      else (let authorPerms = Permissions st authorIdentity
        in if \<not> CanManageAccounts authorPerms then Some ErrInsufficientPermissions
           else first_err (validateAccountAdd C st authorPerms) additions))"

definition ValidateInviteJoin ::
    "crypto \<Rightarrow> AclState \<Rightarrow> AclAccountInviteJoin \<Rightarrow> pubkey \<Rightarrow> acl_error option" where
  "ValidateInviteJoin C st ch authorIdentity =
     (if \<not> ShouldValidate st then None
      else if \<not> NoPermissions (Permissions st authorIdentity) then Some ErrInsufficientPermissions
      else (case mget (invites st) (ij_inviteRecordId ch) of
          None \<Rightarrow> Some ErrNoSuchInvite
        | Some invite \<Rightarrow>
            if inv_Type invite \<noteq> AnyoneCanJoin then Some ErrNoSuchInvite
            else if \<not> IsLessOrEqual (ij_permissions ch) (inv_Permissions invite)
              then Some ErrInsufficientPermissions
            else if \<not> NoPermissions (Permissions st authorIdentity)
              then Some ErrInsufficientPermissions
            else (case pubKeyFromProto C (ij_identity ch) of
                None \<Rightarrow> Some ErrKey
              | Some inviteIdentity \<Rightarrow>
                  if authorIdentity \<noteq> inviteIdentity then Some ErrIncorrectIdentity
                  else if \<not> verify C (inv_Key invite) inviteIdentity (ij_inviteIdentitySignature ch)
                    then Some ErrInvalidSignature
                  else if length (ij_metadata ch) > MaxMetadataLen then Some ErrMetadataTooLarge
                  else if ij_encryptedReadKey ch = None then Some ErrIncorrectReadKey
                  else None)))"

definition ValidatePermissionChange ::
    "crypto \<Rightarrow> AclState \<Rightarrow> AclAccountPermissionChange \<Rightarrow> pubkey \<Rightarrow> acl_error option" where
  "ValidatePermissionChange C st ch authorIdentity =
     (if \<not> ShouldValidate st then None
      else (let authorPerms = Permissions st authorIdentity
        in if \<not> CanManageAccounts authorPerms then Some ErrInsufficientPermissions
           else (case pubKeyFromProto C (pm_identity ch) of
               None \<Rightarrow> Some ErrKey
             | Some chIdentity \<Rightarrow>
                 (case mget (accountStates st) (mapKeyFromPubKey chIdentity) of
                    None \<Rightarrow> Some ErrNoSuchAccount
                  | Some currentState \<Rightarrow>
                      if as_Permissions currentState = AclPermissionsGuest
                        then Some ErrInsufficientPermissions
                      else if as_Permissions currentState = AclPermissionsOwner
                        then Some ErrInsufficientPermissions
                      else if IsAdmin (as_Permissions currentState) \<and> \<not> IsOwner authorPerms
                        then Some ErrInsufficientPermissions
                      else if pm_permissions ch = AclPermissionsOwner
                        then Some ErrInsufficientPermissions
                      else if pm_permissions ch = AclPermissionsAdmin \<and> \<not> IsOwner authorPerms
                        then Some ErrInsufficientPermissions
                      else if pm_permissions ch = AclPermissionsGuest
                          \<and> as_Permissions currentState \<noteq> AclPermissionsReader
                        then Some ErrInsufficientPermissions
                      else None))))"

definition ValidatePermissionChanges ::
    "crypto \<Rightarrow> AclState \<Rightarrow> AclAccountPermissionChange list \<Rightarrow> pubkey \<Rightarrow> acl_error option" where
  "ValidatePermissionChanges C st changes authorIdentity =
     (if \<not> ShouldValidate st then None
      else first_err (\<lambda>ch. ValidatePermissionChange C st ch authorIdentity) changes)"

definition ValidateInvite ::
    "crypto \<Rightarrow> AclState \<Rightarrow> AclAccountInvite \<Rightarrow> pubkey \<Rightarrow> acl_error option" where
  "ValidateInvite C st ch authorIdentity =
     (if \<not> ShouldValidate st then None
      else (let authorPerms = Permissions st authorIdentity; permissions = ai_permissions ch;
                keyErr = (case pubKeyFromProto C (ai_inviteKey ch) of
                            None \<Rightarrow> Some ErrKey | Some _ \<Rightarrow> None)
        in if \<not> CanManageAccounts authorPerms then Some ErrInsufficientPermissions
           else if ai_inviteType ch = AnyoneCanJoin then
             (if IsOwner permissions \<or> NoPermissions permissions \<or> IsGuest permissions
                then Some ErrInsufficientPermissions
              else if IsAdmin permissions \<and> \<not> IsOwner authorPerms
                then Some ErrInsufficientPermissions
              else if ai_encryptedReadKey ch = None then Some ErrIncorrectReadKey
              else keyErr)
           else keyErr))"

definition ValidateInviteChange ::
    "AclState \<Rightarrow> AclAccountInviteChange \<Rightarrow> pubkey \<Rightarrow> acl_error option" where
  "ValidateInviteChange st ch authorIdentity =
     (if \<not> ShouldValidate st then None
      else (let authorPerms = Permissions st authorIdentity
        in if \<not> CanManageAccounts authorPerms then Some ErrInsufficientPermissions
           else (case mget (invites st) (ic_inviteRecordId ch) of
               None \<Rightarrow> Some ErrNoSuchInvite
             | Some invite \<Rightarrow>
                 (let permissions = ic_permissions ch
                  in if inv_Type invite \<noteq> AnyoneCanJoin then Some ErrNoSuchInvite
                     else if inv_Permissions invite = permissions
                       then Some ErrInsufficientPermissions
                     else if IsOwner permissions \<or> NoPermissions permissions \<or> IsGuest permissions
                       then Some ErrInsufficientPermissions
                     else if IsAdmin permissions \<and> \<not> IsOwner authorPerms
                       then Some ErrInsufficientPermissions
                     else None))))"

definition ValidateInviteRevoke ::
    "AclState \<Rightarrow> string \<Rightarrow> pubkey \<Rightarrow> acl_error option" where
  "ValidateInviteRevoke st inviteRecordId authorIdentity =
     (if \<not> ShouldValidate st then None
      else if \<not> CanManageAccounts (Permissions st authorIdentity)
        then Some ErrInsufficientPermissions
      else if mget (invites st) inviteRecordId = None then Some ErrNoSuchInvite
      else None)"

definition ValidateRequestJoin ::
    "crypto \<Rightarrow> AclState \<Rightarrow> AclAccountRequestJoin \<Rightarrow> pubkey \<Rightarrow> acl_error option" where
  "ValidateRequestJoin C st ch authorIdentity =
     (if \<not> ShouldValidate st then None
      else (case mget (invites st) (rj_inviteRecordId ch) of
          None \<Rightarrow> Some ErrNoSuchInvite
        | Some invite \<Rightarrow>
            if \<not> NoPermissions (Permissions st authorIdentity) then Some ErrInsufficientPermissions
            else if inv_Type invite \<noteq> RequestToJoin then Some ErrNoSuchInvite
            else (case pubKeyFromProto C (rj_inviteIdentity ch) of
                None \<Rightarrow> Some ErrKey
              | Some inviteIdentity \<Rightarrow>
                  if mget (pendingRequests st) (mapKeyFromPubKey inviteIdentity) \<noteq> None
                    then Some ErrPendingRequest
                  else if authorIdentity \<noteq> inviteIdentity then Some ErrIncorrectIdentity
                  else if \<not> verify C (inv_Key invite) inviteIdentity (rj_inviteIdentitySignature ch)
                    then Some ErrInvalidSignature
                  else if length (rj_metadata ch) > MaxMetadataLen then Some ErrMetadataTooLarge
                  else None)))"

definition ValidateRequestAccept ::
    "crypto \<Rightarrow> AclState \<Rightarrow> AclAccountRequestAccept \<Rightarrow> pubkey \<Rightarrow> acl_error option" where
  "ValidateRequestAccept C st ch authorIdentity =
     (if \<not> ShouldValidate st then None
      else (let authorPerms = Permissions st authorIdentity
        in if \<not> CanManageAccounts authorPerms then Some ErrInsufficientPermissions
           else (case mget (requestRecords st) (ra_requestRecordId ch) of
               None \<Rightarrow> Some ErrNoSuchRequest
             | Some record' \<Rightarrow>
                 (case pubKeyFromProto C (ra_identity ch) of
                    None \<Rightarrow> Some ErrKey
                  | Some acceptIdentity \<Rightarrow>
                      if acceptIdentity \<noteq> RequestIdentity record' then Some ErrIncorrectIdentity
                      else if ra_permissions ch = AclPermissionsOwner
                        then Some ErrInsufficientPermissions
                      else if ra_permissions ch = AclPermissionsAdmin \<and> \<not> IsOwner authorPerms
                        then Some ErrInsufficientPermissions
                      else None))))"

definition ValidateRequestDecline ::
    "AclState \<Rightarrow> string \<Rightarrow> pubkey \<Rightarrow> acl_error option" where
  "ValidateRequestDecline st requestRecordId authorIdentity =
     (if \<not> ShouldValidate st then None
      else if \<not> CanManageAccounts (Permissions st authorIdentity)
        then Some ErrInsufficientPermissions
      else (case mget (requestRecords st) requestRecordId of
          None \<Rightarrow> Some ErrNoSuchRequest
        | Some rec \<Rightarrow> if rr_Type rec \<noteq> RequestTypeJoin then Some ErrNoSuchRequest else None))"

definition ValidateRequestCancel ::
    "AclState \<Rightarrow> string \<Rightarrow> pubkey \<Rightarrow> acl_error option" where
  "ValidateRequestCancel st recordId authorIdentity =
     (if \<not> ShouldValidate st then None
      else (case mget (requestRecords st) recordId of
          None \<Rightarrow> Some ErrNoSuchRequest
        | Some rec \<Rightarrow>
            if RequestIdentity rec \<noteq> authorIdentity then Some ErrInsufficientPermissions else None))"

text \<open>
  The accounts that keep their access: those with permissions that are not among the removed.
\<close>

fun activeUsers ::
    "string list \<Rightarrow> (string, AccountState) gomap \<Rightarrow> acl_error + string list" where
  "activeUsers removedUsers [] = Inr []"
| "activeUsers removedUsers ((_, accState) # rest) =
     (if NoPermissions (as_Permissions accState) then activeUsers removedUsers rest
      else rbind (mapKeyFromNilable (as_PubKey accState)) (\<lambda>pubKey.
        if pubKey \<in> set removedUsers then activeUsers removedUsers rest
        else rbind (activeUsers removedUsers rest) (\<lambda>us. Inr (pubKey # us))))"

definition activeInvites :: "(string, Invite) gomap \<Rightarrow> string list" where
  "activeInvites invs =
     map (\<lambda>i. mapKeyFromPubKey (inv_Key i)) (filter (\<lambda>i. inv_Type i = AnyoneCanJoin) (map snd invs))"

definition keyIdentities :: "crypto \<Rightarrow> AclEncryptedReadKey list \<Rightarrow> acl_error + string list" where
  "keyIdentities C keys =
     rmap (\<lambda>k. rbind (of_opt ErrKey (pubKeyFromProto C (ek_identity k)))
                 (\<lambda>identity. Inr (mapKeyFromPubKey identity))) keys"

definition validateReadKeyChange ::
    "crypto \<Rightarrow> AclState \<Rightarrow> AclReadKeyChange option \<Rightarrow> string list \<Rightarrow> acl_error option" where
  "validateReadKeyChange C st chp removedUsers =
     (if \<not> ShouldValidate st then None
      else (case chp of
          None \<Rightarrow> Some PanicNilDereference
        | Some ch \<Rightarrow>
            if pubKeyFromProto C (rk_metadataPubKey ch) = None then Some ErrNoMetadataKey
            else if rk_encryptedMetadataPrivKey ch = None \<or> rk_encryptedOldReadKey ch = None
              then Some ErrIncorrectReadKey
            else err_of
              (rbind (activeUsers removedUsers (accountStates st)) (\<lambda>active.
               rbind (keyIdentities C (rk_accountKeys ch)) (\<lambda>updated.
               rbind (keyIdentities C (rk_inviteKeys ch)) (\<lambda>updatedInv.
                 let activeInv = activeInvites (invites st)
                 in if length active \<noteq> length updated then Inl ErrIncorrectNumberOfAccounts
                    else if length activeInv \<noteq> length updatedInv
                      then Inl ErrIncorrectNumberOfAccounts
                    else if sort active \<noteq> sort updated \<or> sort activeInv \<noteq> sort updatedInv
                      then Inl ErrIncorrectNumberOfAccounts
                    else Inr ()))))))"

fun validateRemovals ::
    "crypto \<Rightarrow> AclState \<Rightarrow> pubkey \<Rightarrow> bytes list \<Rightarrow> string list \<Rightarrow> acl_error + string list" where
  "validateRemovals C st authorIdentity [] seenIdentities = Inr seenIdentities"
| "validateRemovals C st authorIdentity (rawIdentity # rest) seenIdentities =
     (case pubKeyFromProto C rawIdentity of
        None \<Rightarrow> Inl ErrKey
      | Some identity \<Rightarrow>
          if identity = authorIdentity then Inl ErrInsufficientPermissions
          else (let permissions = Permissions st identity
            in if NoPermissions permissions then Inl ErrNoSuchAccount
               else if IsOwner permissions then Inl ErrInsufficientPermissions
               else if IsAdmin permissions \<and> \<not> IsOwner (Permissions st authorIdentity)
                 then Inl ErrInsufficientPermissions
               else if mapKeyFromPubKey identity \<in> set seenIdentities then Inl ErrDuplicateAccounts
               else validateRemovals C st authorIdentity rest
                      (mapKeyFromPubKey identity # seenIdentities)))"

definition ValidateAccountRemove ::
    "crypto \<Rightarrow> AclState \<Rightarrow> AclAccountRemove \<Rightarrow> pubkey \<Rightarrow> acl_error option" where
  "ValidateAccountRemove C st ch authorIdentity =
     (if \<not> ShouldValidate st then None
      else if \<not> CanManageAccounts (Permissions st authorIdentity)
        then Some ErrInsufficientPermissions
      else (case validateRemovals C st authorIdentity (ar_identities ch) [] of
          Inl e \<Rightarrow> Some e
        | Inr seenIdentities \<Rightarrow>
            validateReadKeyChange C st (ar_readKeyChange ch) seenIdentities))"

definition ValidateRequestRemove :: "AclState \<Rightarrow> pubkey \<Rightarrow> acl_error option" where
  "ValidateRequestRemove st authorIdentity =
     (if \<not> ShouldValidate st then None
      else if NoPermissions (Permissions st authorIdentity) then Some ErrInsufficientPermissions
      else if IsOwner (Permissions st authorIdentity) then Some ErrIsOwner
      else if mget (pendingRequests st) (mapKeyFromPubKey authorIdentity) \<noteq> None
        then Some ErrPendingRequest
      else None)"

definition ValidateReadKeyChange ::
    "crypto \<Rightarrow> AclState \<Rightarrow> AclReadKeyChange \<Rightarrow> pubkey \<Rightarrow> acl_error option" where
  "ValidateReadKeyChange C st ch authorIdentity =
     (if \<not> ShouldValidate st then None
      else if \<not> CanManageAccounts (Permissions st authorIdentity)
        then Some ErrInsufficientPermissions
      else validateReadKeyChange C st (Some ch) [])"

definition ValidateSpaceOptionsChange :: "AclState \<Rightarrow> pubkey \<Rightarrow> acl_error option" where
  "ValidateSpaceOptionsChange st authorIdentity =
     (if \<not> ShouldValidate st then None
      else if \<not> IsOwner (Permissions st authorIdentity) then Some ErrInsufficientPermissions
      else None)"

text \<open>Only the admission validator rejects a record without applicable content.\<close>

definition ValidateAclData :: "AclState \<Rightarrow> AclContentValue list \<Rightarrow> acl_error option" where
  "ValidateAclData st contents =
     (if \<not> admission (st_contentValidator st) then None
      else if contents = [] then Some ErrNoAclContent
      else first_err (\<lambda>c. case c of
          PermissionChanges changes \<Rightarrow> if changes = [] then Some ErrNoAclContent else None
        | _ \<Rightarrow> None) contents)"

definition ValidateUnexpectedContent :: "AclState \<Rightarrow> acl_error option" where
  "ValidateUnexpectedContent st =
     (if \<not> admission (st_contentValidator st) then None else Some ErrUnexpectedContentType)"

definition validateAclRecordContent ::
    "crypto \<Rightarrow> AclState \<Rightarrow> AclContentValue \<Rightarrow> pubkey \<Rightarrow> acl_error option" where
  "validateAclRecordContent C st content authorIdentity =
     (case content of
        ContentPermissionChange ch \<Rightarrow> ValidatePermissionChange C st ch authorIdentity
      | ContentInvite ch \<Rightarrow> ValidateInvite C st ch authorIdentity
      | InviteRevoke i \<Rightarrow> ValidateInviteRevoke st i authorIdentity
      | RequestJoin ch \<Rightarrow> ValidateRequestJoin C st ch authorIdentity
      | InviteJoin ch \<Rightarrow> ValidateInviteJoin C st ch authorIdentity
      | RequestAccept ch \<Rightarrow> ValidateRequestAccept C st ch authorIdentity
      | RequestDecline i \<Rightarrow> ValidateRequestDecline st i authorIdentity
      | AccountRemove ch \<Rightarrow> ValidateAccountRemove C st ch authorIdentity
      | AccountRequestRemove \<Rightarrow> ValidateRequestRemove st authorIdentity
      | ReadKeyChange ch \<Rightarrow> ValidateReadKeyChange C st ch authorIdentity
      | PermissionChanges chs \<Rightarrow> ValidatePermissionChanges C st chs authorIdentity
      | AccountsAdd as \<Rightarrow> ValidateAccountsAdd C st as authorIdentity
      | SpaceOptionsChange _ \<Rightarrow> ValidateSpaceOptionsChange st authorIdentity
      | _ \<Rightarrow> Some ErrUnexpectedContentType)"

definition ValidateAclRecordContents ::
    "crypto \<Rightarrow> AclState \<Rightarrow> AclRecord \<Rightarrow> acl_error option" where
  "ValidateAclRecordContents C st ch =
     (if \<not> ShouldValidate st then None
      else if rec_PrevId ch \<noteq> lastRecordId st then Some ErrIncorrectRecordSequence
      else (case rec_Model ch of
          Some (AclData contents) \<Rightarrow>
            first_err (\<lambda>c. validateAclRecordContent C st c (rec_Identity ch)) contents
        | _ \<Rightarrow> Some PanicTypeAssertion))"

lemmas validator_defs =
  ValidateOwnershipChange_def ValidateAccountsAdd_def ValidateInviteJoin_def
  ValidatePermissionChange_def ValidateInvite_def ValidateInviteChange_def
  ValidateInviteRevoke_def ValidateRequestJoin_def ValidateRequestAccept_def
  ValidateRequestDecline_def ValidateRequestCancel_def ValidateAccountRemove_def
  ValidateRequestRemove_def ValidateReadKeyChange_def ValidateSpaceOptionsChange_def

end
