(* ===== verification/AclApply.thy ===== *)
theory AclApply
  imports AclValidator
begin

text \<open>
  The operations of \<open>AclState\<close> that change it (\<open>aclstate.go\<close>, \<open>onetoone.go\<close>): building a state
  from a root record, applying each kind of content, applying a record and copying a state.

  An operation takes the state and returns the state after it, or the error. The Go methods
  mutate the receiver in place and may leave it half updated when they return an error; every
  caller (\<open>AddRawRecord\<close>, \<open>ValidateRawRecord\<close>, \<open>aclStateBuilder.Build\<close>) applies to a copy or drops
  the state on error, so that the half-updated state is never read. \<open>pubKey\<close> is \<open>GetPublic\<close> of
  \<open>key\<close>, nil exactly when \<open>key\<close> is.
\<close>

section \<open>Keys\<close>

definition unmarshallDecryptReadKey ::
    "crypto \<Rightarrow> bytes option \<Rightarrow> (bytes \<Rightarrow> bytes option) \<Rightarrow> acl_error + symkey" where
  "unmarshallDecryptReadKey C msg decryptor =
     (case decryptor (bytes_of msg) of
        None \<Rightarrow> Inl ErrFailedToDecrypt
      | Some decrypted \<Rightarrow> of_opt ErrFailedToDecrypt (unmarshallAESKeyProto C decrypted))"

definition unmarshallDecryptPrivKey ::
    "crypto \<Rightarrow> bytes option \<Rightarrow> (bytes \<Rightarrow> bytes option) \<Rightarrow> acl_error + privkey" where
  "unmarshallDecryptPrivKey C msg decryptor =
     (case decryptor (bytes_of msg) of
        None \<Rightarrow> Inl ErrFailedToDecrypt
      | Some decrypted \<Rightarrow> of_opt ErrFailedToDecrypt (unmarshalEd25519PrivateKeyProto C decrypted))"

definition CurrentReadKeyId :: "AclState \<Rightarrow> acl_error + string" where
  "CurrentReadKeyId st =
     (if readKeyChanges st = [] then Inl PanicIndexOutOfRange else Inr (last (readKeyChanges st)))"

definition getKeys :: "(string, AclKeys) gomap \<Rightarrow> string \<Rightarrow> AclKeys" where
  "getKeys m k = (case mget m k of None \<Rightarrow> zeroAclKeys | Some v \<Rightarrow> v)"

text \<open>\<open>st.pubKey.Equals(identity)\<close>; a nil \<open>pubKey\<close> is a nil interface.\<close>

definition pubKeyEquals :: "crypto \<Rightarrow> AclState \<Rightarrow> pubkey \<Rightarrow> acl_error + bool" where
  "pubKeyEquals C st identity =
     (case st_key st of
        None \<Rightarrow> Inl PanicNilDereference
      | Some key \<Rightarrow> Inr (getPublic C key = identity))"

definition AnysyncSpacePath :: string where
  "AnysyncSpacePath = ''m/SLIP-0021/anysync/space''"

definition AnysyncOneToOneSpacePath :: string where
  "AnysyncOneToOneSpacePath = ''m/SLIP-0021/anysync/onetoone/0''"

definition AnysyncReadOneToOneSpacePath :: string where
  "AnysyncReadOneToOneSpacePath = ''m/SLIP-0021/anysync/onetooneread''"

definition AnysyncMetadataOneToOnePath :: string where
  "AnysyncMetadataOneToOnePath = ''m/SLIP-0021/anysync/onetoonemeta''"

definition deriveKey :: "crypto \<Rightarrow> privkey \<Rightarrow> acl_error + symkey" where
  "deriveKey C key = of_opt ErrKey (deriveSymmetricKey C key AnysyncSpacePath)"

text \<open>
  The loop of \<open>unpackAllKeys\<close> over the read key changes from the newest to the oldest: the record
  ids left to visit come newest first, and the last one (index 0) has no previous key.
\<close>

fun unpackKeys ::
    "crypto \<Rightarrow> symkey \<Rightarrow> string list \<Rightarrow> (string, AclKeys) gomap
      \<Rightarrow> acl_error + (string, AclKeys) gomap" where
  "unpackKeys C iterReadKey [] ks = Inr ks"
| "unpackKeys C iterReadKey (recId # older) ks =
     (let keys = getKeys ks recId
      in rbind (unmarshallDecryptPrivKey C (encryptedMetadataKey keys) (decryptSym C iterReadKey))
           (\<lambda>metadataKey.
             let ks' = mput recId (keys\<lparr>ReadKey := Some iterReadKey,
                                        MetadataPrivKey := Some metadataKey\<rparr>) ks
             in if older = [] then Inr ks'
                else if encryptedPreviousReadKey keys = None then Inl ErrIncorrectReadKey
                else rbind (unmarshallDecryptReadKey C (encryptedPreviousReadKey keys)
                              (decryptSym C iterReadKey))
                       (\<lambda>oldReadKey. unpackKeys C oldReadKey older ks')))"

definition unpackAllKeys :: "crypto \<Rightarrow> bytes option \<Rightarrow> AclState \<Rightarrow> acl_error + AclState" where
  "unpackAllKeys C encryptedReadKey st =
     (case st_key st of
        None \<Rightarrow> Inl PanicNilDereference
      | Some key \<Rightarrow>
          rbind (unmarshallDecryptReadKey C encryptedReadKey (decryptPriv C key)) (\<lambda>iterReadKey.
          rbind (unpackKeys C iterReadKey (rev (readKeyChanges st)) (st_keys st)) (\<lambda>ks.
            Inr (st\<lparr>st_keys := ks\<rparr>))))"

text \<open>
  The closing step of the three operations that can let this account in: when the account that
  comes in is the state's own, unpack the keys with the read key encrypted for it.
\<close>

definition unpackIfMe ::
    "crypto \<Rightarrow> pubkey \<Rightarrow> bytes option \<Rightarrow> AclState \<Rightarrow> acl_error + AclState" where
  "unpackIfMe C identity encryptedReadKey st =
     rbind (pubKeyEquals C st identity) (\<lambda>me.
       if me then unpackAllKeys C encryptedReadKey st else Inr st)"

section \<open>The root record\<close>

definition saveKeysFromRoot ::
    "crypto \<Rightarrow> string \<Rightarrow> AclRoot \<Rightarrow> privkey \<Rightarrow> AclState \<Rightarrow> acl_error + AclState" where
  "saveKeysFromRoot C i root key st =
     (let aclKeys = getKeys (st_keys st) i
      in case ro_encryptedReadKey root of
           None \<Rightarrow>
             rbind (deriveKey C key) (\<lambda>readKey.
               Inr (st\<lparr>st_keys := mput i (aclKeys\<lparr>ReadKey := Some readKey\<rparr>) (st_keys st)\<rparr>))
         | Some encReadKey \<Rightarrow>
             rbind (unmarshallDecryptReadKey C (Some encReadKey) (decryptPriv C key)) (\<lambda>readKey.
             rbind (unmarshallDecryptPrivKey C (ro_encryptedMetadataPrivKey root)
                      (decryptSym C readKey)) (\<lambda>metadataKey.
               Inr (st\<lparr>st_keys := mput i (aclKeys\<lparr>ReadKey := Some readKey,
                                     MetadataPrivKey := Some metadataKey\<rparr>) (st_keys st)\<rparr>))))"

definition findMeAndValidateOneToOne ::
    "crypto \<Rightarrow> AclOneToOneInfo \<Rightarrow> AclState \<Rightarrow> acl_error + bool" where
  "findMeAndValidateOneToOne C info st =
     (if length (oi_writers info) \<noteq> 2 then Inl ErrOneToOne
      else if oi_owner info = None then Inl ErrOneToOne
      else (case st_key st of
          None \<Rightarrow> Inl PanicNilDereference
        | Some key \<Rightarrow> Inr (marshallPub C (getPublic C key) \<in> set (oi_writers info))))"

definition deriveOneToOneKeys ::
    "crypto \<Rightarrow> string \<Rightarrow> AclOneToOneInfo \<Rightarrow> AclState \<Rightarrow> acl_error + AclState" where
  "deriveOneToOneKeys C rootId info st =
     (case st_key st of
        None \<Rightarrow> Inl PanicNilDereference
      | Some key \<Rightarrow>
          (let my = marshallPub C (getPublic C key);
               bobPubKeyBytes = (if my \<noteq> oi_writers info ! 0 then oi_writers info ! 0
                                 else oi_writers info ! 1)
           in rbind (of_opt ErrOneToOne (pubKeyFromProto C bobPubKeyBytes)) (\<lambda>bobPubKey.
              rbind (of_opt ErrOneToOne
                       (generateSharedKey C key bobPubKey AnysyncOneToOneSpacePath)) (\<lambda>sharedKey.
              if bytes_of (oi_owner info) \<noteq> marshallPub C (getPublic C sharedKey)
                then Inl ErrOneToOne
              else
              rbind (of_opt ErrOneToOne
                       (deriveSymmetricKey C sharedKey AnysyncReadOneToOneSpacePath)) (\<lambda>readKey.
              rbind (of_opt ErrOneToOne
                       (generateSharedKey C key bobPubKey AnysyncMetadataOneToOnePath)) (\<lambda>metadataKey.
              rbind (of_opt ErrOneToOne (encryptSym C readKey metadataKey)) (\<lambda>encMetadataKey.
                Inr (st\<lparr>st_keys := mput rootId
                       \<lparr>ReadKey = Some readKey, MetadataPrivKey = Some metadataKey,
                        MetadataPubKey = Some (getPublic C metadataKey),
                        encryptedPreviousReadKey = None,
                        encryptedMetadataKey = Some encMetadataKey\<rparr> (st_keys st)\<rparr>))))))))"

definition rootAccount :: "string \<Rightarrow> AclPermissions \<Rightarrow> bytes \<Rightarrow> pubkey \<Rightarrow> AccountState" where
  "rootAccount rootId perm metadata pk =
     \<lparr>as_PubKey = Some pk, as_Permissions = perm, as_Status = StatusActive,
      as_RequestMetadata = metadata, as_KeyRecordId = rootId,
      as_PermissionChanges = [\<lparr>pc_RecordId = rootId, pc_Permission = perm\<rparr>]\<rparr>"

definition setOneToOneWriter ::
    "crypto \<Rightarrow> string \<Rightarrow> bytes \<Rightarrow> AclState \<Rightarrow> acl_error + AclState" where
  "setOneToOneWriter C rootId writer st =
     rbind (of_opt ErrKey (pubKeyFromProto C writer)) (\<lambda>writerPk.
       Inr (st\<lparr>accountStates :=
         mput writerPk (rootAccount rootId AclPermissionsWriter [] writerPk) (accountStates st)\<rparr>))"

definition setOneToOneAcl ::
    "crypto \<Rightarrow> string \<Rightarrow> AclOneToOneInfo \<Rightarrow> AclState \<Rightarrow> acl_error + AclState" where
  "setOneToOneAcl C rootId info st =
     rbind (findMeAndValidateOneToOne C info st) (\<lambda>foundMe.
     rbind (if foundMe then deriveOneToOneKeys C rootId info st else Inr st) (\<lambda>st.
     rbind (of_opt ErrKey (pubKeyFromProto C (bytes_of (oi_owner info)))) (\<lambda>sharedPk.
     rbind (rfold (setOneToOneWriter C rootId) (oi_writers info)
              (st\<lparr>accountStates := mput sharedPk
                   (rootAccount rootId AclPermissionsOwner [] sharedPk) (accountStates st)\<rparr>)) (\<lambda>st.
       Inr (st\<lparr>readKeyChanges := [rootId], lastRecordId := rootId, isOneToOne := True\<rparr>)))))"

definition applyRoot :: "crypto \<Rightarrow> AclRecord \<Rightarrow> AclState \<Rightarrow> acl_error + AclState" where
  "applyRoot C record' st =
     (case rec_Model record' of
        Some (AclRootModel root) \<Rightarrow>
          (case ro_oneToOneInfo root of
             Some info \<Rightarrow> setOneToOneAcl C (rec_Id record') info st
           | None \<Rightarrow>
               rbind (case ro_encryptedReadKey root of
                    Some _ \<Rightarrow> rbind (of_opt ErrKey (pubKeyFromProto C (ro_metadataPubKey root)))
                      (\<lambda>mkPubKey. Inr (zeroAclKeys\<lparr>MetadataPubKey := Some mkPubKey,
                         encryptedMetadataKey := ro_encryptedMetadataPrivKey root\<rparr>))
                  | None \<Rightarrow> Inr zeroAclKeys) (\<lambda>aclKeys.
               let st1 = st\<lparr>st_keys := mput (rec_Id record') aclKeys (st_keys st)\<rparr>
               in rbind (case st_key st of
                    Some key \<Rightarrow>
                      if getPublic C key = rec_Identity record'
                      then saveKeysFromRoot C (rec_Id record') root key st1 else Inr st1
                  | None \<Rightarrow> Inr st1) (\<lambda>st.
                 Inr (st\<lparr>readKeyChanges := [rec_Id record'],
                         accountStates := mput (mapKeyFromPubKey (rec_Identity record'))
                           (rootAccount (rec_Id record') AclPermissionsOwner
                             (ro_encryptedOwnerMetadata root) (rec_Identity record'))
                           (accountStates st),
                         lastRecordId := rec_Id record',
                         optionChanges := (case ro_options root of
                             None \<Rightarrow> optionChanges st
                           | Some opts \<Rightarrow>
                               [\<lparr>oc_RecordId = rec_Id record', oc_Options = Some opts\<rparr>])\<rparr>))))
      | _ \<Rightarrow> Inl ErrIncorrectRoot)"

definition emptyAclState :: "string \<Rightarrow> privkey option \<Rightarrow> bool \<Rightarrow> AclState" where
  "emptyAclState i key sv =
     \<lparr>st_id = i, st_keys = [], accountStates = [], invites = [], requestRecords = [],
      pendingRequests = [], readKeyChanges = [], st_key = key, lastRecordId = [],
      st_contentValidator = \<lparr>shouldValidate = sv, admission = False\<rparr>,
      optionChanges = [], isOneToOne = False\<rparr>"

text \<open>\<open>newAclStateWithKeys\<close> and, with no key, \<open>newAclState\<close>; \<open>sv\<close> is the verifier's \<open>ShouldValidate()\<close>.\<close>

definition newAclStateWithKeys ::
    "crypto \<Rightarrow> AclRecord \<Rightarrow> privkey \<Rightarrow> bool \<Rightarrow> acl_error + AclState" where
  "newAclStateWithKeys C rootRecord key sv =
     applyRoot C rootRecord (emptyAclState (rec_Id rootRecord) (Some key) sv)"

definition newAclState :: "crypto \<Rightarrow> AclRecord \<Rightarrow> bool \<Rightarrow> acl_error + AclState" where
  "newAclState C rootRecord sv = applyRoot C rootRecord (emptyAclState (rec_Id rootRecord) None sv)"

section \<open>Applying content\<close>

definition updatePermissions ::
    "string \<Rightarrow> AclPermissions \<Rightarrow> AclRecord \<Rightarrow> AclState \<Rightarrow> AclState" where
  "updatePermissions identityKey permissions record' st =
     (let state = getAccount st identityKey
      in st\<lparr>accountStates := mput identityKey
           (state\<lparr>as_Permissions := permissions,
                  as_PermissionChanges := as_PermissionChanges state @
                    [\<lparr>pc_RecordId = rec_Id record', pc_Permission = permissions\<rparr>]\<rparr>)
           (accountStates st)\<rparr>)"

definition applyOwnershipChange ::
    "crypto \<Rightarrow> AclOwnershipChange \<Rightarrow> AclRecord \<Rightarrow> AclState \<Rightarrow> acl_error + AclState" where
  "applyOwnershipChange C ch record' st =
     guard_err (ValidateOwnershipChange C st ch (rec_Identity record'))
     (rbind (of_opt ErrKey (pubKeyFromProto C (ow_newOwnerIdentity ch))) (\<lambda>newOwnerIdentity.
       let oldOwnerKey = mapKeyFromPubKey (rec_Identity record');
           newOwnerKey = mapKeyFromPubKey newOwnerIdentity
       in Inr (updatePermissions newOwnerKey AclPermissionsOwner record'
                (updatePermissions oldOwnerKey (ow_oldOwnerPermissions ch) record' st))))"

definition applyInviteChange ::
    "AclAccountInviteChange \<Rightarrow> AclRecord \<Rightarrow> AclState \<Rightarrow> acl_error + AclState" where
  "applyInviteChange ch record' st =
     guard_err (ValidateInviteChange st ch (rec_Identity record'))
     (case mget (invites st) (ic_inviteRecordId ch) of
        None \<Rightarrow> Inr st
      | Some invite \<Rightarrow>
          Inr (st\<lparr>invites := mput (ic_inviteRecordId ch)
                 (invite\<lparr>inv_Permissions := ic_permissions ch\<rparr>) (invites st)\<rparr>))"

definition applyPermissionChange ::
    "crypto \<Rightarrow> AclRecord \<Rightarrow> AclAccountPermissionChange \<Rightarrow> AclState \<Rightarrow> acl_error + AclState" where
  "applyPermissionChange C record' ch st =
     rbind (of_opt ErrKey (pubKeyFromProto C (pm_identity ch))) (\<lambda>chIdentity.
       guard_err (ValidatePermissionChange C st ch (rec_Identity record'))
       (Inr (updatePermissions (mapKeyFromPubKey chIdentity) (pm_permissions ch) record' st)))"

definition applyPermissionChanges ::
    "crypto \<Rightarrow> AclAccountPermissionChange list \<Rightarrow> AclRecord \<Rightarrow> AclState \<Rightarrow> acl_error + AclState" where
  "applyPermissionChanges C chs record' st = rfold (applyPermissionChange C record') chs st"

definition applyInvite ::
    "crypto \<Rightarrow> AclAccountInvite \<Rightarrow> AclRecord \<Rightarrow> AclState \<Rightarrow> acl_error + AclState" where
  "applyInvite C ch record' st =
     rbind (of_opt ErrKey (pubKeyFromProto C (ai_inviteKey ch))) (\<lambda>inviteKey.
       guard_err (ValidateInvite C st ch (rec_Identity record'))
       (Inr (st\<lparr>invites := mput (rec_Id record')
          \<lparr>inv_Key = inviteKey, inv_Type = ai_inviteType ch, inv_Permissions = ai_permissions ch,
           inv_Id = rec_Id record', inv_encryptedReadKey = ai_encryptedReadKey ch\<rparr>
          (invites st)\<rparr>)))"

definition applyInviteRevoke ::
    "string \<Rightarrow> AclRecord \<Rightarrow> AclState \<Rightarrow> acl_error + AclState" where
  "applyInviteRevoke inviteRecordId record' st =
     guard_err (ValidateInviteRevoke st inviteRecordId (rec_Identity record'))
     (Inr (st\<lparr>invites := mdel inviteRecordId (invites st)\<rparr>))"

definition applyRequestJoin ::
    "crypto \<Rightarrow> AclAccountRequestJoin \<Rightarrow> AclRecord \<Rightarrow> AclState \<Rightarrow> acl_error + AclState" where
  "applyRequestJoin C ch record' st =
     guard_err (ValidateRequestJoin C st ch (rec_Identity record'))
     (rbind (CurrentReadKeyId st) (\<lambda>keyId.
       let pKeyString = mapKeyFromPubKey (rec_Identity record')
       in Inr (st\<lparr>pendingRequests := mput pKeyString (rec_Id record') (pendingRequests st),
                  requestRecords := mput (rec_Id record')
                    \<lparr>RequestIdentity = rec_Identity record', rr_RequestMetadata = rj_metadata ch,
                     rr_KeyRecordId = keyId, rr_RecordId = rec_Id record',
                     rr_Type = RequestTypeJoin\<rparr> (requestRecords st),
                  accountStates := mput pKeyString
                    \<lparr>as_PubKey = Some (rec_Identity record'), as_Permissions = AclPermissionsNone,
                     as_Status = StatusJoining, as_RequestMetadata = rj_metadata ch,
                     as_KeyRecordId = keyId,
                     as_PermissionChanges = (case mget (accountStates st) pKeyString of
                         None \<Rightarrow> []
                       | Some state \<Rightarrow> as_PermissionChanges state)\<rparr> (accountStates st)\<rparr>)))"

definition addAccount ::
    "crypto \<Rightarrow> AclRecord \<Rightarrow> AclAccountAdd \<Rightarrow> AclState \<Rightarrow> acl_error + AclState" where
  "addAccount C record' acc st =
     rbind (of_opt ErrKey (pubKeyFromProto C (aa_identity acc))) (\<lambda>identity.
     rbind (CurrentReadKeyId st) (\<lambda>keyId.
       let st' = st\<lparr>accountStates := mput (mapKeyFromPubKey identity)
             \<lparr>as_PubKey = Some identity, as_Permissions = aa_permissions acc,
              as_Status = StatusActive, as_RequestMetadata = aa_metadata acc,
              as_KeyRecordId = keyId,
              as_PermissionChanges =
                [\<lparr>pc_RecordId = rec_Id record', pc_Permission = aa_permissions acc\<rparr>]\<rparr>
             (accountStates st)\<rparr>
       in unpackIfMe C identity (aa_encryptedReadKey acc) st'))"

definition applyAccountsAdd ::
    "crypto \<Rightarrow> AclAccountAdd list \<Rightarrow> AclRecord \<Rightarrow> AclState \<Rightarrow> acl_error + AclState" where
  "applyAccountsAdd C additions record' st =
     guard_err (ValidateAccountsAdd C st additions (rec_Identity record'))
     (rfold (addAccount C record') additions st)"

text \<open>The history an account gets when it is accepted or joins: its own, if it has one, extended.\<close>

definition extendedHistory ::
    "AclState \<Rightarrow> string \<Rightarrow> AclPermissions \<Rightarrow> AclRecord \<Rightarrow> PermissionChange list" where
  "extendedHistory st pKeyString permissions record' =
     (let change = \<lparr>pc_RecordId = rec_Id record', pc_Permission = permissions\<rparr>
      in case mget (accountStates st) pKeyString of
           None \<Rightarrow> [change]
         | Some state \<Rightarrow> as_PermissionChanges state @ [change])"

definition applyRequestAccept ::
    "crypto \<Rightarrow> AclAccountRequestAccept \<Rightarrow> AclRecord \<Rightarrow> AclState \<Rightarrow> acl_error + AclState" where
  "applyRequestAccept C ch record' st =
     guard_err (ValidateRequestAccept C st ch (rec_Identity record'))
     (rbind (of_opt ErrKey (pubKeyFromProto C (ra_identity ch))) (\<lambda>acceptIdentity.
       case mget (requestRecords st) (ra_requestRecordId ch) of
         None \<Rightarrow> Inr st
       | Some requestRecord \<Rightarrow>
           (let pKeyString = mapKeyFromPubKey acceptIdentity;
                permissions = ra_permissions ch;
                st' = st\<lparr>accountStates := mput pKeyString
                    \<lparr>as_PubKey = Some acceptIdentity, as_Permissions = permissions,
                     as_Status = StatusActive,
                     as_RequestMetadata = rr_RequestMetadata requestRecord,
                     as_KeyRecordId = rr_KeyRecordId requestRecord,
                     as_PermissionChanges = extendedHistory st pKeyString permissions record'\<rparr>
                    (accountStates st),
                  pendingRequests :=
                    mdel (mapKeyFromPubKey (RequestIdentity requestRecord)) (pendingRequests st),
                  requestRecords := mdel (ra_requestRecordId ch) (requestRecords st)\<rparr>
            in unpackIfMe C acceptIdentity (ra_encryptedReadKey ch) st')))"

text \<open>The first request of the account found while ranging over the requests is dropped.\<close>

definition dropRequestOf :: "pubkey \<Rightarrow> AclState \<Rightarrow> AclState" where
  "dropRequestOf identity st =
     (case find (\<lambda>rec. RequestIdentity rec = identity) (map snd (requestRecords st)) of
        None \<Rightarrow> st
      | Some rec \<Rightarrow>
          st\<lparr>pendingRequests := mdel (mapKeyFromPubKey (RequestIdentity rec)) (pendingRequests st),
             requestRecords := mdel (rr_RecordId rec) (requestRecords st)\<rparr>)"

definition applyInviteJoinWithoutApprove ::
    "crypto \<Rightarrow> AclAccountInviteJoin \<Rightarrow> AclRecord \<Rightarrow> AclState \<Rightarrow> acl_error + AclState" where
  "applyInviteJoinWithoutApprove C ch record' st =
     guard_err (ValidateInviteJoin C st ch (rec_Identity record'))
     (rbind (of_opt ErrKey (pubKeyFromProto C (ij_identity ch))) (\<lambda>identity.
       case mget (invites st) (ij_inviteRecordId ch) of
         None \<Rightarrow> Inr st
       | Some inviteRecord \<Rightarrow>
           rbind (CurrentReadKeyId st) (\<lambda>keyId.
             let permissions = (if NoPermissions (ij_permissions ch)
                                then inv_Permissions inviteRecord else ij_permissions ch);
                 pKeyString = mapKeyFromPubKey identity;
                 st' = st\<lparr>accountStates := mput pKeyString
                     \<lparr>as_PubKey = Some identity, as_Permissions = permissions,
                      as_Status = StatusActive, as_RequestMetadata = ij_metadata ch,
                      as_KeyRecordId = keyId,
                      as_PermissionChanges = extendedHistory st pKeyString permissions record'\<rparr>
                     (accountStates st)\<rparr>
             in unpackIfMe C identity (ij_encryptedReadKey ch) (dropRequestOf identity st'))))"

definition applyRequestDecline ::
    "string \<Rightarrow> AclRecord \<Rightarrow> AclState \<Rightarrow> acl_error + AclState" where
  "applyRequestDecline requestRecordId record' st =
     guard_err (ValidateRequestDecline st requestRecordId (rec_Identity record'))
     (case mget (requestRecords st) requestRecordId of
        None \<Rightarrow> Inr st
      | Some requestRecord \<Rightarrow>
          (let pk = mapKeyFromPubKey (RequestIdentity requestRecord)
           in case mget (accountStates st) pk of
                None \<Rightarrow> Inl ErrNoSuchAccount
              | Some accSt \<Rightarrow>
                  Inr (st\<lparr>accountStates := mput pk (accSt\<lparr>as_Status := StatusDeclined\<rparr>)
                            (accountStates st),
                          pendingRequests := mdel pk (pendingRequests st),
                          requestRecords := mdel requestRecordId (requestRecords st)\<rparr>)))"

definition applyRequestCancel ::
    "string \<Rightarrow> AclRecord \<Rightarrow> AclState \<Rightarrow> acl_error + AclState" where
  "applyRequestCancel recordId record' st =
     guard_err (ValidateRequestCancel st recordId (rec_Identity record'))
     (case mget (requestRecords st) recordId of
        None \<Rightarrow> Inr st
      | Some rec \<Rightarrow>
          (let pk = mapKeyFromPubKey (RequestIdentity rec)
           in case mget (accountStates st) pk of
                None \<Rightarrow> Inl ErrNoSuchAccount
              | Some accSt \<Rightarrow>
                  Inr (st\<lparr>accountStates := mput pk (accSt\<lparr>as_Status :=
                              (if rr_Type rec = RequestTypeJoin then StatusCanceled
                               else StatusActive)\<rparr>) (accountStates st),
                          pendingRequests := mdel pk (pendingRequests st),
                          requestRecords := mdel recordId (requestRecords st)\<rparr>)))"

definition applyRequestRemove :: "AclRecord \<Rightarrow> AclState \<Rightarrow> acl_error + AclState" where
  "applyRequestRemove record' st =
     guard_err (ValidateRequestRemove st (rec_Identity record'))
     (let pk = mapKeyFromPubKey (rec_Identity record');
          st1 = st\<lparr>requestRecords := mput (rec_Id record')
                \<lparr>RequestIdentity = rec_Identity record', rr_RequestMetadata = [],
                 rr_KeyRecordId = [], rr_RecordId = rec_Id record',
                 rr_Type = RequestTypeRemove\<rparr> (requestRecords st),
              pendingRequests := mput pk (rec_Id record') (pendingRequests st)\<rparr>
      in if \<not> CanRequestRemove (as_Permissions (getAccount st1 pk))
           then Inl ErrInsufficientPermissions
         else (case mget (accountStates st1) pk of
             None \<Rightarrow> Inl ErrNoSuchAccount
           | Some accSt \<Rightarrow>
               Inr (st1\<lparr>accountStates := mput pk (accSt\<lparr>as_Status := StatusRemoving\<rparr>)
                         (accountStates st1)\<rparr>)))"

definition removeAccount ::
    "crypto \<Rightarrow> AclRecord \<Rightarrow> bytes \<Rightarrow> AclState \<Rightarrow> acl_error + AclState" where
  "removeAccount C record' rawIdentity st =
     rbind (of_opt ErrKey (pubKeyFromProto C rawIdentity)) (\<lambda>identity.
       let idKey = mapKeyFromPubKey identity
       in case mget (accountStates st) idKey of
            None \<Rightarrow> Inl ErrNoSuchAccount
          | Some accSt \<Rightarrow>
              (let st1 = st\<lparr>accountStates := mput idKey
                      (accSt\<lparr>as_Status := StatusRemoved, as_Permissions := AclPermissionsNone,
                             as_PermissionChanges := as_PermissionChanges accSt @
                               [\<lparr>pc_RecordId = rec_Id record',
                                 pc_Permission = AclPermissionsNone\<rparr>]\<rparr>) (accountStates st)\<rparr>
               in case mget (pendingRequests st1) idKey of
                    None \<Rightarrow> Inr st1
                  | Some recId \<Rightarrow>
                      Inr (st1\<lparr>pendingRequests := mdel idKey (pendingRequests st1),
                               requestRecords := mdel recId (requestRecords st1)\<rparr>)))"

text \<open>
  The first loop of \<open>applyReadKeyChange\<close>. The decoding error is ignored there, and \<open>Equals\<close> of the
  nil key that comes with it dereferences nil.
\<close>

fun ourReadKey ::
    "crypto \<Rightarrow> AclState \<Rightarrow> AclEncryptedReadKey list \<Rightarrow> symkey option
      \<Rightarrow> acl_error + symkey option" where
  "ourReadKey C st [] found = Inr found"
| "ourReadKey C st (accKey # rest) found =
     (case st_key st of
        None \<Rightarrow> Inl PanicNilDereference
      | Some key \<Rightarrow>
          (case pubKeyFromProto C (ek_identity accKey) of
             None \<Rightarrow> Inl PanicNilDereference
           | Some identity \<Rightarrow>
               if getPublic C key = identity
               then rbind (unmarshallDecryptReadKey C (ek_encryptedReadKey accKey) (decryptPriv C key))
                      (\<lambda>res. ourReadKey C st rest (Some res))
               else ourReadKey C st rest found))"

text \<open>
  The second loop: the first invite with the key that the range over the map meets gets the new
  encrypted read key.
\<close>

definition updateInviteKey ::
    "crypto \<Rightarrow> AclEncryptedReadKey \<Rightarrow> AclState \<Rightarrow> acl_error + AclState" where
  "updateInviteKey C encKey st =
     rbind (of_opt ErrKey (pubKeyFromProto C (ek_identity encKey))) (\<lambda>invKey.
       case find (\<lambda>(key, invite). inv_Key invite = invKey) (rangeInvites C invKey (invites st)) of
         None \<Rightarrow> Inr st
       | Some (key, invite) \<Rightarrow>
           Inr (st\<lparr>invites := mput key
                 (invite\<lparr>inv_encryptedReadKey := ek_encryptedReadKey encKey\<rparr>) (invites st)\<rparr>))"

definition applyReadKeyChange ::
    "crypto \<Rightarrow> AclReadKeyChange option \<Rightarrow> AclRecord \<Rightarrow> bool \<Rightarrow> AclState
      \<Rightarrow> acl_error + AclState" where
  "applyReadKeyChange C chp record' validate st =
     (case chp of
        None \<Rightarrow> Inl PanicNilDereference
      | Some ch \<Rightarrow>
          guard_err (if validate then ValidateReadKeyChange C st ch (rec_Identity record') else None)
          (rbind (of_opt ErrKey (pubKeyFromProto C (rk_metadataPubKey ch))) (\<lambda>mkPubKey.
           rbind (ourReadKey C st (rk_accountKeys ch) None) (\<lambda>readKey.
           rbind (rfold (updateInviteKey C) (rk_inviteKeys ch)
                    (st\<lparr>readKeyChanges := readKeyChanges st @ [rec_Id record']\<rparr>)) (\<lambda>st1.
           rbind (case readKey of
                None \<Rightarrow> Inr None
              | Some k \<Rightarrow> rbind (unmarshallDecryptPrivKey C (rk_encryptedMetadataPrivKey ch)
                                    (decryptSym C k)) (\<lambda>m. Inr (Some m))) (\<lambda>metadataKey.
             Inr (st1\<lparr>st_keys := mput (rec_Id record')
                    \<lparr>ReadKey = readKey, MetadataPrivKey = metadataKey,
                     MetadataPubKey = Some mkPubKey,
                     encryptedPreviousReadKey = rk_encryptedOldReadKey ch,
                     encryptedMetadataKey = rk_encryptedMetadataPrivKey ch\<rparr>
                    (st_keys st1)\<rparr>)))))))"

definition applyAccountRemove ::
    "crypto \<Rightarrow> AclAccountRemove \<Rightarrow> AclRecord \<Rightarrow> AclState \<Rightarrow> acl_error + AclState" where
  "applyAccountRemove C ch record' st =
     guard_err (ValidateAccountRemove C st ch (rec_Identity record'))
     (rbind (rfold (removeAccount C record') (ar_identities ch) st)
        (applyReadKeyChange C (ar_readKeyChange ch) record' False))"

definition applySpaceOptionsChange ::
    "AclSpaceOptions option \<Rightarrow> AclRecord \<Rightarrow> AclState \<Rightarrow> acl_error + AclState" where
  "applySpaceOptionsChange opts record' st =
     guard_err (ValidateSpaceOptionsChange st (rec_Identity record'))
     (Inr (st\<lparr>optionChanges := optionChanges st @
               [\<lparr>oc_RecordId = rec_Id record', oc_Options = opts\<rparr>]\<rparr>))"

definition applyChangeContent ::
    "crypto \<Rightarrow> AclRecord \<Rightarrow> AclContentValue \<Rightarrow> AclState \<Rightarrow> acl_error + AclState" where
  "applyChangeContent C record' content st =
     (case content of
        OwnershipChange ch \<Rightarrow> applyOwnershipChange C ch record' st
      | InviteChange ch \<Rightarrow> applyInviteChange ch record' st
      | InviteJoin ch \<Rightarrow> applyInviteJoinWithoutApprove C ch record' st
      | ContentPermissionChange ch \<Rightarrow> applyPermissionChange C record' ch st
      | ContentInvite ch \<Rightarrow> applyInvite C ch record' st
      | InviteRevoke i \<Rightarrow> applyInviteRevoke i record' st
      | RequestJoin ch \<Rightarrow> applyRequestJoin C ch record' st
      | RequestAccept ch \<Rightarrow> applyRequestAccept C ch record' st
      | RequestDecline i \<Rightarrow> applyRequestDecline i record' st
      | RequestCancel i \<Rightarrow> applyRequestCancel i record' st
      | AccountRemove ch \<Rightarrow> applyAccountRemove C ch record' st
      | ReadKeyChange ch \<Rightarrow> applyReadKeyChange C (Some ch) record' True st
      | AccountRequestRemove \<Rightarrow> applyRequestRemove record' st
      | AccountsAdd additions \<Rightarrow> applyAccountsAdd C additions record' st
      | PermissionChanges chs \<Rightarrow> applyPermissionChanges C chs record' st
      | SpaceOptionsChange opts \<Rightarrow> applySpaceOptionsChange opts record' st
      | UnexpectedContent \<Rightarrow> guard_err (ValidateUnexpectedContent st) (Inr st))"

definition applyChangeData ::
    "crypto \<Rightarrow> AclRecord \<Rightarrow> AclModel \<Rightarrow> AclState \<Rightarrow> acl_error + AclState" where
  "applyChangeData C record' model st =
     (case model of
        AclRootModel _ \<Rightarrow> Inl PanicTypeAssertion
      | AclData contents \<Rightarrow>
          guard_err (ValidateAclData st contents)
            (rfold (applyChangeContent C record') contents st))"

definition ApplyRecord :: "crypto \<Rightarrow> AclRecord \<Rightarrow> AclState \<Rightarrow> acl_error + AclState" where
  "ApplyRecord C record' st =
     (if isOneToOne st then Inl ErrAddRecordOneToOne
      else if lastRecordId st \<noteq> rec_PrevId record' then Inl ErrIncorrectRecordSequence
      else if rec_Id record' = [] then Inl ErrEmptyRecordId
      else
        rbind (case rec_Model record' of
             Some model \<Rightarrow> Inr model
           | None \<Rightarrow>
               if rec_Data record' = [] then Inl ErrEmptyAclRecordData
               else rbind (of_opt ErrUnmarshal (unmarshalAclData C (rec_Data record')))
                      (\<lambda>contents. Inr (AclData contents))) (\<lambda>model.
        rbind (applyChangeData C record' model st) (\<lambda>st.
          Inr (st\<lparr>lastRecordId := rec_Id record'\<rparr>))))"

text \<open>
  \<open>Copy\<close> copies every map and history and takes a fresh validator over the list's verifier, whose
  \<open>ShouldValidate()\<close> is \<open>sv\<close>.
\<close>

definition Copy :: "bool \<Rightarrow> AclState \<Rightarrow> acl_error + AclState" where
  "Copy sv st =
     (case st_key st of
        None \<Rightarrow> Inl PanicNilDereference
      | Some _ \<Rightarrow>
          Inr (st\<lparr>st_contentValidator := \<lparr>shouldValidate = sv, admission = False\<rparr>\<rparr>))"

lemmas apply_defs =
  applyOwnershipChange_def applyInviteChange_def applyInviteJoinWithoutApprove_def
  applyPermissionChange_def applyInvite_def applyInviteRevoke_def applyRequestJoin_def
  applyRequestAccept_def applyRequestDecline_def applyRequestCancel_def applyAccountRemove_def
  applyReadKeyChange_def applyRequestRemove_def applyAccountsAdd_def applyPermissionChanges_def
  applySpaceOptionsChange_def

end
