(* ===== verification/AclInvariants.thy ===== *)
theory AclInvariants
  imports AclApply
begin

text \<open>
  The invariant of an ACL state and its preservation by every operation of a validating state:
  the maps have one entry per key, an account is stored under its own key and its history ends
  with its current permissions, there is at most one owner, an open invite grants a permission an
  invite may grant, requests and pending requests are inverse to each other and belong to known
  accounts, and the current read key exists.
\<close>

section \<open>The invariant\<close>

definition currentOfHistory :: "PermissionChange list \<Rightarrow> AclPermissions" where
  "currentOfHistory h = (if h = [] then AclPermissionsNone else pc_Permission (last h))"

definition account_ok :: "string \<Rightarrow> AccountState \<Rightarrow> bool" where
  "account_ok k a \<longleftrightarrow>
     as_PubKey a = Some k \<and> as_Permissions a = currentOfHistory (as_PermissionChanges a)"

definition accounts_ok :: "(string, AccountState) gomap \<Rightarrow> bool" where
  "accounts_ok m \<longleftrightarrow> gm_wf m \<and> (\<forall>k a. mget m k = Some a \<longrightarrow> account_ok k a)"

definition one_owner :: "(string, AccountState) gomap \<Rightarrow> bool" where
  "one_owner m \<longleftrightarrow>
     (\<forall>k a k' a'. mget m k = Some a \<longrightarrow> mget m k' = Some a' \<longrightarrow>
        IsOwner (as_Permissions a) \<longrightarrow> IsOwner (as_Permissions a') \<longrightarrow> k = k')"

definition invite_ok :: "string \<Rightarrow> Invite \<Rightarrow> bool" where
  "invite_ok k i \<longleftrightarrow> inv_Id i = k \<and>
     (inv_Type i = AnyoneCanJoin \<longrightarrow>
        \<not> IsOwner (inv_Permissions i) \<and> \<not> NoPermissions (inv_Permissions i)
        \<and> \<not> IsGuest (inv_Permissions i))"

definition invites_ok :: "(string, Invite) gomap \<Rightarrow> bool" where
  "invites_ok m \<longleftrightarrow> gm_wf m \<and> (\<forall>k i. mget m k = Some i \<longrightarrow> invite_ok k i)"

definition requests_ok ::
    "(string, string) gomap \<Rightarrow> (string, RequestRecord) gomap \<Rightarrow> string set \<Rightarrow> bool" where
  "requests_ok pending reqs accounts \<longleftrightarrow> gm_wf pending \<and> gm_wf reqs
     \<and> (\<forall>k r. mget pending k = Some r \<longrightarrow> (\<exists>rr. mget reqs r = Some rr \<and> RequestIdentity rr = k))
     \<and> (\<forall>r rr. mget reqs r = Some rr \<longrightarrow> rr_RecordId rr = r
          \<and> mget pending (RequestIdentity rr) = Some r \<and> RequestIdentity rr \<in> accounts)"

definition keys_ok :: "AclState \<Rightarrow> bool" where
  "keys_ok st \<longleftrightarrow> readKeyChanges st \<noteq> []
     \<and> (\<not> isOneToOne st \<longrightarrow> set (readKeyChanges st) \<subseteq> dom (mget (st_keys st)))"

definition acl_inv :: "AclState \<Rightarrow> bool" where
  "acl_inv st \<longleftrightarrow> accounts_ok (accountStates st) \<and> one_owner (accountStates st)
     \<and> invites_ok (invites st)
     \<and> requests_ok (pendingRequests st) (requestRecords st) (dom (mget (accountStates st)))
     \<and> keys_ok st"

text \<open>A request stored under the id of a record was made by the record's author.\<close>

definition own_request :: "AclRecord \<Rightarrow> AclState \<Rightarrow> bool" where
  "own_request record' st \<longleftrightarrow>
     (\<forall>rr. mget (requestRecords st) (rec_Id record') = Some rr \<longrightarrow>
        RequestIdentity rr = rec_Identity record')"

section \<open>The pieces under map updates\<close>

lemma currentOfHistory_snoc [simp]: "currentOfHistory (h @ [c]) = pc_Permission c"
  by (simp add: currentOfHistory_def)

lemma currentOfHistory_Nil [simp]: "currentOfHistory [] = AclPermissionsNone"
  by (simp add: currentOfHistory_def)

lemma currentOfHistory_single [simp]: "currentOfHistory [c] = pc_Permission c"
  by (simp add: currentOfHistory_def)

lemma currentOfHistory_extended [simp]:
  "currentOfHistory (extendedHistory st k p record') = p"
  by (simp add: extendedHistory_def Let_def split: option.split)

lemma accounts_ok_put: "accounts_ok m \<Longrightarrow> account_ok k a \<Longrightarrow> accounts_ok (mput k a m)"
  by (simp add: accounts_ok_def)

lemma accounts_ok_get: "accounts_ok m \<Longrightarrow> mget m k = Some a \<Longrightarrow> account_ok k a"
  by (simp add: accounts_ok_def)

lemma one_owner_put:
  "one_owner m \<Longrightarrow> \<not> IsOwner (as_Permissions a) \<Longrightarrow> one_owner (mput k a m)"
  by (auto simp: one_owner_def)

lemma one_owner_same:
  "one_owner m \<Longrightarrow> mget m k = Some b \<Longrightarrow> as_Permissions a = as_Permissions b \<Longrightarrow>
   one_owner (mput k a m)"
  unfolding one_owner_def by (auto split: if_splits)

lemma invites_ok_put: "invites_ok m \<Longrightarrow> invite_ok k i \<Longrightarrow> invites_ok (mput k i m)"
  by (simp add: invites_ok_def)

lemma invites_ok_del: "invites_ok m \<Longrightarrow> invites_ok (mdel k m)"
  by (simp add: invites_ok_def)

lemma requests_ok_mono: "requests_ok P R A \<Longrightarrow> A \<subseteq> B \<Longrightarrow> requests_ok P R B"
  by (auto simp: requests_ok_def)

lemma requests_ok_del:
  assumes ok: "requests_ok P R A" and r: "mget R r = Some rr"
  shows "requests_ok (mdel (RequestIdentity rr) P) (mdel r R) A"
proof -
  have P: "mget P (RequestIdentity rr) = Some r"
    and fw: "\<And>k r'. mget P k = Some r' \<Longrightarrow> \<exists>rr'. mget R r' = Some rr' \<and> RequestIdentity rr' = k"
    and bw: "\<And>r' rr'. mget R r' = Some rr' \<Longrightarrow> rr_RecordId rr' = r'
               \<and> mget P (RequestIdentity rr') = Some r' \<and> RequestIdentity rr' \<in> A"
    using ok r by (auto simp: requests_ok_def)
  have "r' \<noteq> r" if "mget P k = Some r'" "k \<noteq> RequestIdentity rr" for k r'
    using fw[OF that(1)] r that(2) by auto
  moreover have "RequestIdentity rr' \<noteq> RequestIdentity rr" if "mget R r' = Some rr'" "r' \<noteq> r" for r' rr'
    using bw[OF that(1)] P that(2) by auto
  ultimately show ?thesis
    using ok fw bw by (simp add: requests_ok_def)
qed

lemma requests_ok_add:
  assumes ok: "requests_ok P R A" and P: "mget P k = None"
    and own: "\<And>rr'. mget R r = Some rr' \<Longrightarrow> RequestIdentity rr' = k"
    and rr: "RequestIdentity rr = k" "rr_RecordId rr = r" and B: "k \<in> B" "A \<subseteq> B"
  shows "requests_ok (mput k r P) (mput r rr R) B"
proof -
  have fw: "\<And>k r'. mget P k = Some r' \<Longrightarrow> \<exists>rr'. mget R r' = Some rr' \<and> RequestIdentity rr' = k"
    and bw: "\<And>r' rr'. mget R r' = Some rr' \<Longrightarrow> rr_RecordId rr' = r'
               \<and> mget P (RequestIdentity rr') = Some r' \<and> RequestIdentity rr' \<in> A"
    using ok by (auto simp: requests_ok_def)
  have none: "mget R r = None"
    using own bw P by (cases "mget R r") auto
  have "r' \<noteq> r" if "mget P k' = Some r'" for k' r'
    using fw[OF that] none by auto
  moreover have "RequestIdentity rr' \<noteq> k" if "mget R r' = Some rr'" for r' rr'
    using bw[OF that] P by auto
  ultimately show ?thesis
    using ok fw bw rr B by (auto simp: requests_ok_def)
qed

lemma requests_ok_pending:
  "requests_ok P R A \<Longrightarrow> mget P k = Some r \<Longrightarrow>
   \<exists>rr. mget R r = Some rr \<and> RequestIdentity rr = k"
  by (auto simp: requests_ok_def)

lemma requests_ok_get:
  "requests_ok P R A \<Longrightarrow> mget R r = Some rr \<Longrightarrow>
   rr_RecordId rr = r \<and> mget P (RequestIdentity rr) = Some r \<and> RequestIdentity rr \<in> A"
  by (auto simp: requests_ok_def)

lemmas inv_pieces = accounts_ok_put one_owner_put one_owner_same invites_ok_put invites_ok_del

lemma dom_if_Some [simp]: "dom (\<lambda>k'. if k' = k then Some v else m k') = insert k (dom m)"
  by (auto simp: dom_def)

section \<open>Frames of the key operations\<close>

lemma unpackKeys_dom:
  "unpackKeys C k ids ks = Inr ks' \<Longrightarrow> dom (mget ks) \<subseteq> dom (mget ks')"
proof (induction ids arbitrary: k ks)
  case (Cons recId older)
  from Cons.prems consider v where "ks' = mput recId v ks"
    | v k' where "unpackKeys C k' older (mput recId v ks) = Inr ks'"
    by (auto simp: Let_def result_simps split: if_splits)
  then show ?case
  proof cases
    case 2
    from Cons.IH[OF this] show ?thesis by simp
  qed auto
qed simp

lemma unpackAllKeys_frame:
  assumes "unpackAllKeys C e st = Inr st'"
  obtains ks where "st' = st\<lparr>st_keys := ks\<rparr>" and "dom (mget (st_keys st)) \<subseteq> dom (mget ks)"
proof -
  from assms obtain k ks where "unpackKeys C k (rev (readKeyChanges st)) (st_keys st) = Inr ks"
    and "st' = st\<lparr>st_keys := ks\<rparr>"
    by (auto simp: unpackAllKeys_def result_simps split: option.splits)
  then show thesis
    by (intro that) (auto dest: unpackKeys_dom)
qed

lemma unpackIfMe_frame:
  assumes "unpackIfMe C i e st = Inr st'"
  obtains ks where "st' = st\<lparr>st_keys := ks\<rparr>" and "dom (mget (st_keys st)) \<subseteq> dom (mget ks)"
proof -
  from assms obtain me where "(if me then unpackAllKeys C e st else Inr st) = Inr st'"
    by (auto simp: unpackIfMe_def result_simps)
  then show thesis
    using that[of "st_keys st"] by (auto split: if_splits elim!: unpackAllKeys_frame intro: that)
qed

lemma acl_inv_keys:
  "acl_inv st \<Longrightarrow> dom (mget (st_keys st)) \<subseteq> dom (mget ks) \<Longrightarrow> acl_inv (st\<lparr>st_keys := ks\<rparr>)"
  by (fastforce simp: acl_inv_def keys_ok_def)

lemma acl_inv_account:
  assumes "acl_inv st" and "account_ok k a" and "one_owner (mput k a (accountStates st))"
  shows "acl_inv (st\<lparr>accountStates := mput k a (accountStates st)\<rparr>)"
  using assms requests_ok_mono[of _ _ "dom (mget (accountStates st))"
    "insert k (dom (mget (accountStates st)))"]
  by (simp add: acl_inv_def keys_ok_def accounts_ok_put subset_insertI)

lemma acl_inv_request_done:
  assumes "acl_inv st" and "mget (requestRecords st) r = Some rr"
  shows "acl_inv (st\<lparr>pendingRequests := mdel (RequestIdentity rr) (pendingRequests st),
                     requestRecords := mdel r (requestRecords st)\<rparr>)"
  using assms by (auto simp: acl_inv_def keys_ok_def intro: requests_ok_del)

lemma acl_inv_one_owner: "acl_inv st \<Longrightarrow> one_owner (accountStates st)"
  by (simp add: acl_inv_def)

lemma acl_inv_account_get:
  "acl_inv st \<Longrightarrow> mget (accountStates st) k = Some a \<Longrightarrow> account_ok k a"
  by (auto simp: acl_inv_def dest: accounts_ok_get)

lemma Permissions_owner_get:
  "\<not> NoPermissions (Permissions st k) \<Longrightarrow>
   \<exists>a. mget (accountStates st) k = Some a \<and> as_Permissions a = Permissions st k"
  by (auto simp: Permissions_def NoPermissions_def split: option.splits)

section \<open>Preservation, operation by operation\<close>

lemma updatePermissions_eq:
  "mget (accountStates st) k = Some a \<Longrightarrow>
   updatePermissions k p record' st = st\<lparr>accountStates := mput k
     (a\<lparr>as_Permissions := p, as_PermissionChanges := as_PermissionChanges a @
         [\<lparr>pc_RecordId = rec_Id record', pc_Permission = p\<rparr>]\<rparr>) (accountStates st)\<rparr>"
  by (simp add: updatePermissions_def getAccount_def)

lemma updatePermissions_inv:
  assumes "acl_inv st" and "mget (accountStates st) k = Some a"
    and "one_owner (accountStates (updatePermissions k p record' st))"
  shows "acl_inv (updatePermissions k p record' st)"
proof -
  have "account_ok k (a\<lparr>as_Permissions := p, as_PermissionChanges := as_PermissionChanges a @
         [\<lparr>pc_RecordId = rec_Id record', pc_Permission = p\<rparr>]\<rparr>)"
    using acl_inv_account_get[OF assms(1,2)] by (simp add: account_ok_def)
  then show ?thesis
    using assms by (simp add: updatePermissions_eq acl_inv_account)
qed

lemma updatePermissions_inv_nonowner:
  assumes "acl_inv st" and "mget (accountStates st) k = Some a" and "\<not> IsOwner p"
  shows "acl_inv (updatePermissions k p record' st)"
  using assms(1,2)
proof (rule updatePermissions_inv)
  show "one_owner (accountStates (updatePermissions k p record' st))"
    using assms by (simp add: updatePermissions_eq one_owner_put acl_inv_one_owner)
qed

lemma applyPermissionChange_inv:
  assumes "acl_inv st" and "ShouldValidate st" and "applyPermissionChange C record' ch st = Inr st'"
  shows "acl_inv st'"
proof -
  from assms(2,3) obtain k a where "mget (accountStates st) k = Some a"
    and "\<not> IsOwner (pm_permissions ch)"
    and "st' = updatePermissions k (pm_permissions ch) record' st"
    by (auto simp: applyPermissionChange_def ValidatePermissionChange_def result_simps Let_def
        perm_defs split: option.splits if_splits)
  with assms(1) show ?thesis
    by (simp add: updatePermissions_inv_nonowner)
qed

lemma applyOwnershipChange_inv:
  assumes inv: "acl_inv st" and "ShouldValidate st"
    and "applyOwnershipChange C ch record' st = Inr st'"
  shows "acl_inv st'"
proof -
  let ?o = "rec_Identity record'" and ?p = "ow_oldOwnerPermissions ch"
  from assms(2,3) obtain n where own: "IsOwner (Permissions st ?o)"
    and n: "\<not> NoPermissions (Permissions st n)" "\<not> IsOwner (Permissions st n)"
    and p: "\<not> IsOwner ?p"
    and st': "st' = updatePermissions n AclPermissionsOwner record'
                (updatePermissions ?o ?p record' st)"
    by (auto simp: applyOwnershipChange_def ValidateOwnershipChange_def result_simps Let_def
        split: option.splits if_splits)
  from own Permissions_owner_get[of st ?o] obtain a
    where a: "mget (accountStates st) ?o = Some a" "IsOwner (as_Permissions a)"
    by (auto simp: perm_defs)
  from n Permissions_owner_get[of st n] obtain b where b: "mget (accountStates st) n = Some b"
    by auto
  have ne: "n \<noteq> ?o"
    using own n by auto
  let ?st1 = "updatePermissions ?o ?p record' st"
  have inv1: "acl_inv ?st1"
    using inv a(1) p by (rule updatePermissions_inv_nonowner)
  have no_owner: "\<not> IsOwner (as_Permissions c)" if "mget (accountStates ?st1) k = Some c" for k c
    using that acl_inv_one_owner[OF inv] a p
    by (auto simp: updatePermissions_eq one_owner_def split: if_splits)
  have own': "one_owner (accountStates st')"
    using no_owner b ne a unfolding st' one_owner_def
    by (subst (1 2) updatePermissions_eq[of _ _ b]) (auto simp: updatePermissions_eq split: if_splits)
  have "mget (accountStates ?st1) n = Some b"
    using a b ne by (simp add: updatePermissions_eq)
  with inv1 show ?thesis
    using own' unfolding st' by (rule updatePermissions_inv)
qed

lemma applyInvite_inv:
  assumes "acl_inv st" and "ShouldValidate st" and "applyInvite C ch record' st = Inr st'"
  shows "acl_inv st'"
proof -
  from assms(2,3) obtain key where
    st': "st' = st\<lparr>invites := mput (rec_Id record')
      \<lparr>inv_Key = key, inv_Type = ai_inviteType ch, inv_Permissions = ai_permissions ch,
       inv_Id = rec_Id record', inv_encryptedReadKey = ai_encryptedReadKey ch\<rparr> (invites st)\<rparr>"
    and "ai_inviteType ch = AnyoneCanJoin \<longrightarrow> \<not> IsOwner (ai_permissions ch)
       \<and> \<not> NoPermissions (ai_permissions ch) \<and> \<not> IsGuest (ai_permissions ch)"
    by (auto simp: applyInvite_def ValidateInvite_def result_simps Let_def
        split: option.splits if_splits)
  with assms(1) show ?thesis
    by (simp add: acl_inv_def keys_ok_def invites_ok_put invite_ok_def)
qed

lemma applyInviteRevoke_inv:
  assumes "acl_inv st" and "applyInviteRevoke i record' st = Inr st'"
  shows "acl_inv st'"
  using assms
  by (auto simp: applyInviteRevoke_def result_simps acl_inv_def keys_ok_def invites_ok_del)

lemma applyInviteChange_inv:
  assumes "acl_inv st" and "ShouldValidate st" and "applyInviteChange ch record' st = Inr st'"
  shows "acl_inv st'"
proof -
  from assms(2,3) obtain i where i: "mget (invites st) (ic_inviteRecordId ch) = Some i"
    and p: "\<not> IsOwner (ic_permissions ch)" "\<not> NoPermissions (ic_permissions ch)"
           "\<not> IsGuest (ic_permissions ch)"
    and "st' = st\<lparr>invites := mput (ic_inviteRecordId ch)
                 (i\<lparr>inv_Permissions := ic_permissions ch\<rparr>) (invites st)\<rparr>"
    by (auto simp: applyInviteChange_def ValidateInviteChange_def result_simps Let_def
        split: option.splits if_splits)
  moreover have "invite_ok (ic_inviteRecordId ch) (i\<lparr>inv_Permissions := ic_permissions ch\<rparr>)"
    using assms(1) i p by (auto simp: acl_inv_def invites_ok_def invite_ok_def)
  ultimately show ?thesis
    using assms(1) by (simp add: acl_inv_def keys_ok_def invites_ok_put)
qed

lemma request_added_inv:
  assumes inv: "acl_inv st" and "own_request record' st"
    and "mget (pendingRequests st) (rec_Identity record') = None"
    and rr: "RequestIdentity rr = rec_Identity record'" "rr_RecordId rr = rec_Id record'"
    and a: "account_ok (rec_Identity record') a"
      "one_owner (mput (rec_Identity record') a (accountStates st))"
    and st': "st' = st\<lparr>pendingRequests :=
           mput (rec_Identity record') (rec_Id record') (pendingRequests st),
         requestRecords := mput (rec_Id record') rr (requestRecords st),
         accountStates := mput (rec_Identity record') a (accountStates st)\<rparr>"
  shows "acl_inv st'"
proof -
  have "requests_ok (mput (rec_Identity record') (rec_Id record') (pendingRequests st))
      (mput (rec_Id record') rr (requestRecords st))
      (insert (rec_Identity record') (dom (mget (accountStates st))))"
    using assms(1-5)
    by (intro requests_ok_add[where A = "dom (mget (accountStates st))"])
      (auto simp: acl_inv_def own_request_def)
  then show ?thesis
    using inv a by (simp add: st' acl_inv_def keys_ok_def accounts_ok_put)
qed

lemma applyRequestJoin_inv:
  assumes inv: "acl_inv st" and "ShouldValidate st" and "own_request record' st"
    and "applyRequestJoin C ch record' st = Inr st'"
  shows "acl_inv st'"
proof -
  let ?k = "rec_Identity record'"
  let ?h = "as_PermissionChanges (getAccount st ?k)"
  let ?rr = "\<lambda>keyId. \<lparr>RequestIdentity = ?k, rr_RequestMetadata = rj_metadata ch,
    rr_KeyRecordId = keyId, rr_RecordId = rec_Id record', rr_Type = RequestTypeJoin\<rparr>"
  let ?a = "\<lambda>keyId. \<lparr>as_PubKey = Some ?k, as_Permissions = AclPermissionsNone,
    as_Status = StatusJoining, as_RequestMetadata = rj_metadata ch, as_KeyRecordId = keyId,
    as_PermissionChanges = ?h\<rparr>"
  have h: "?h = (case mget (accountStates st) ?k of None \<Rightarrow> [] | Some a \<Rightarrow> as_PermissionChanges a)"
    by (simp add: getAccount_def zeroAccountState_def split: option.split)
  from assms(2,4) obtain keyId where none: "NoPermissions (Permissions st ?k)"
    and pend: "mget (pendingRequests st) ?k = None"
    and st': "st' = st\<lparr>pendingRequests := mput ?k (rec_Id record') (pendingRequests st),
         requestRecords := mput (rec_Id record') (?rr keyId) (requestRecords st),
         accountStates := mput ?k (?a keyId) (accountStates st)\<rparr>"
    by (auto simp: h applyRequestJoin_def ValidateRequestJoin_def result_simps Let_def
        split: option.splits if_splits)
  have ok: "account_ok ?k (?a keyId)"
    using none acl_inv_account_get[OF inv, of ?k]
    by (auto simp: account_ok_def h Permissions_def NoPermissions_def split: option.splits)
  have one: "one_owner (mput ?k (?a keyId) (accountStates st))"
    using inv by (simp add: one_owner_put acl_inv_one_owner IsOwner_def)
  show ?thesis
    by (rule request_added_inv[OF inv assms(3) pend _ _ ok one st']) simp_all
qed

lemma applyRequestRemove_inv:
  assumes inv: "acl_inv st" and "ShouldValidate st" and "own_request record' st"
    and "applyRequestRemove record' st = Inr st'"
  shows "acl_inv st'"
proof -
  let ?k = "rec_Identity record'"
  let ?rr = "\<lparr>RequestIdentity = ?k, rr_RequestMetadata = [],
    rr_KeyRecordId = [], rr_RecordId = rec_Id record', rr_Type = RequestTypeRemove\<rparr>"
  from assms(2,4) obtain a where pend: "mget (pendingRequests st) ?k = None"
    and a: "mget (accountStates st) ?k = Some a"
    and st': "st' = st\<lparr>requestRecords := mput (rec_Id record') ?rr (requestRecords st),
         pendingRequests := mput ?k (rec_Id record') (pendingRequests st),
         accountStates := mput ?k (a\<lparr>as_Status := StatusRemoving\<rparr>) (accountStates st)\<rparr>"
    by (auto simp: applyRequestRemove_def ValidateRequestRemove_def result_simps Let_def
        split: option.splits if_splits)
  have ok: "account_ok ?k (a\<lparr>as_Status := StatusRemoving\<rparr>)"
    using acl_inv_account_get[OF inv a] by (simp add: account_ok_def)
  have one: "one_owner (mput ?k (a\<lparr>as_Status := StatusRemoving\<rparr>) (accountStates st))"
    using acl_inv_one_owner[OF inv] a by (rule one_owner_same) simp
  have st'': "st' = st\<lparr>pendingRequests := mput ?k (rec_Id record') (pendingRequests st),
         requestRecords := mput (rec_Id record') ?rr (requestRecords st),
         accountStates := mput ?k (a\<lparr>as_Status := StatusRemoving\<rparr>) (accountStates st)\<rparr>"
    unfolding st' by (rule AclState.equality) simp_all
  show ?thesis
    by (rule request_added_inv[OF inv assms(3) pend _ _ ok one st'']) simp_all
qed

lemma account_replaced_inv:
  assumes "acl_inv st" and "as_PubKey a = Some k"
    and "as_Permissions a = currentOfHistory (as_PermissionChanges a)"
    and "\<not> IsOwner (as_Permissions a)"
  shows "acl_inv (st\<lparr>accountStates := mput k a (accountStates st)\<rparr>)"
  using assms by (intro acl_inv_account) (simp_all add: account_ok_def one_owner_put acl_inv_one_owner)

lemma applyRequestAccept_inv:
  assumes inv: "acl_inv st" and "ShouldValidate st"
    and "applyRequestAccept C ch record' st = Inr st'"
  shows "acl_inv st'"
proof -
  from assms(2) obtain k rr st1 where p: "\<not> IsOwner (ra_permissions ch)"
    and rr: "mget (requestRecords st) (ra_requestRecordId ch) = Some rr"
    and st1: "st1 = st\<lparr>accountStates := mput k
                    \<lparr>as_PubKey = Some k, as_Permissions = ra_permissions ch,
                     as_Status = StatusActive, as_RequestMetadata = rr_RequestMetadata rr,
                     as_KeyRecordId = rr_KeyRecordId rr,
                     as_PermissionChanges = extendedHistory st k (ra_permissions ch) record'\<rparr>
                    (accountStates st),
                  pendingRequests := mdel (RequestIdentity rr) (pendingRequests st),
                  requestRecords := mdel (ra_requestRecordId ch) (requestRecords st)\<rparr>"
    and run: "unpackIfMe C k (ra_encryptedReadKey ch) st1 = Inr st'"
    using assms(3)
    by (simp add: applyRequestAccept_def ValidateRequestAccept_def guard_err_Inr rbind_eq_Inr[of "of_opt _ _"]
        of_opt_Inr Let_def IsOwner_def split: option.splits if_splits)
  have "acl_inv (st\<lparr>accountStates := mput k
                    \<lparr>as_PubKey = Some k, as_Permissions = ra_permissions ch,
                     as_Status = StatusActive, as_RequestMetadata = rr_RequestMetadata rr,
                     as_KeyRecordId = rr_KeyRecordId rr,
                     as_PermissionChanges = extendedHistory st k (ra_permissions ch) record'\<rparr>
                    (accountStates st)\<rparr>)" (is "acl_inv ?st0")
    using inv p by (intro account_replaced_inv) simp_all
  from acl_inv_request_done[OF this, of "ra_requestRecordId ch" rr] have "acl_inv st1"
    using rr by (simp add: st1)
  with run show ?thesis
    by (auto elim!: unpackIfMe_frame intro: acl_inv_keys)
qed

lemma IsLessOrEqual_not_owner: "IsLessOrEqual p q \<Longrightarrow> \<not> IsOwner p"
  by (cases p) (auto simp: IsOwner_def)

lemma find_request:
  assumes "acl_inv st"
    and "find (\<lambda>rec. RequestIdentity rec = k) (map snd (requestRecords st)) = Some rr"
  shows "mget (requestRecords st) (rr_RecordId rr) = Some rr \<and> RequestIdentity rr = k"
proof -
  from assms(2) obtain r where "(r, rr) \<in> set (requestRecords st)" and k: "RequestIdentity rr = k"
    by (auto simp: find_Some_iff) (metis nth_mem prod.collapse)
  moreover have "gm_wf (requestRecords st)"
    using assms(1) by (simp add: acl_inv_def requests_ok_def)
  ultimately have r: "mget (requestRecords st) r = Some rr"
    by (simp add: gm_in_set_iff)
  with assms(1) have "rr_RecordId rr = r"
    by (auto simp: acl_inv_def dest: requests_ok_get)
  with r k show ?thesis by simp
qed

lemma dropRequestOf_inv:
  assumes "acl_inv st"
  shows "acl_inv (dropRequestOf k st)"
proof (cases "find (\<lambda>rec. RequestIdentity rec = k) (map snd (requestRecords st))")
  case (Some rr)
  with find_request[OF assms this] acl_inv_request_done[OF assms, of "rr_RecordId rr" rr]
  show ?thesis by (simp add: dropRequestOf_def)
qed (use assms in \<open>simp add: dropRequestOf_def\<close>)

lemma applyInviteJoinWithoutApprove_inv:
  assumes inv: "acl_inv st" and sv: "ShouldValidate st"
    and run: "applyInviteJoinWithoutApprove C ch record' st = Inr st'"
  shows "acl_inv st'"
proof -
  let ?p = "\<lambda>i. if NoPermissions (ij_permissions ch) then inv_Permissions i else ij_permissions ch"
  from run have v: "ValidateInviteJoin C st ch (rec_Identity record') = None"
    by (simp add: applyInviteJoinWithoutApprove_def guard_err_Inr)
  with sv obtain i where i: "mget (invites st) (ij_inviteRecordId ch) = Some i"
      "inv_Type i = AnyoneCanJoin" "IsLessOrEqual (ij_permissions ch) (inv_Permissions i)"
    by (auto simp: ValidateInviteJoin_def split: option.splits if_splits)
  from run v i(1) obtain k keyId where
    unpack: "unpackIfMe C k (ij_encryptedReadKey ch) (dropRequestOf k
       (st\<lparr>accountStates := mput k \<lparr>as_PubKey = Some k, as_Permissions = ?p i,
          as_Status = StatusActive, as_RequestMetadata = ij_metadata ch, as_KeyRecordId = keyId,
          as_PermissionChanges = extendedHistory st k (?p i) record'\<rparr> (accountStates st)\<rparr>)) = Inr st'"
    by (simp only: applyInviteJoinWithoutApprove_def guard_err_simps rbind_eq_Inr of_opt_Inr Let_def
        option.case mapKeyFromPubKey_def) blast
  have "\<not> IsOwner (?p i)"
    using i inv IsLessOrEqual_not_owner
    by (auto simp: acl_inv_def invites_ok_def invite_ok_def)
  with inv have "acl_inv (dropRequestOf k
       (st\<lparr>accountStates := mput k \<lparr>as_PubKey = Some k, as_Permissions = ?p i,
          as_Status = StatusActive, as_RequestMetadata = ij_metadata ch, as_KeyRecordId = keyId,
          as_PermissionChanges = extendedHistory st k (?p i) record'\<rparr> (accountStates st)\<rparr>))"
    by (intro dropRequestOf_inv account_replaced_inv) simp_all
  with unpack show ?thesis
    by (auto elim!: unpackIfMe_frame intro: acl_inv_keys)
qed

lemma request_closed_inv:
  assumes "acl_inv st" and "mget (requestRecords st) r = Some rr"
    and a: "mget (accountStates st) (RequestIdentity rr) = Some a"
  shows "acl_inv (st\<lparr>accountStates := mput (RequestIdentity rr) (a\<lparr>as_Status := s\<rparr>) (accountStates st),
                     pendingRequests := mdel (RequestIdentity rr) (pendingRequests st),
                     requestRecords := mdel r (requestRecords st)\<rparr>)"
proof -
  have "acl_inv (st\<lparr>accountStates :=
      mput (RequestIdentity rr) (a\<lparr>as_Status := s\<rparr>) (accountStates st)\<rparr>)" (is "acl_inv ?st1")
    using assms acl_inv_account_get[OF assms(1) a]
    by (intro acl_inv_account one_owner_same[OF acl_inv_one_owner a]) (simp_all add: account_ok_def)
  from acl_inv_request_done[OF this, of r rr] assms(2) show ?thesis by simp
qed

lemma applyRequestDecline_inv:
  assumes "acl_inv st" and "applyRequestDecline r record' st = Inr st'"
  shows "acl_inv st'"
  using assms request_closed_inv[OF assms(1)]
  by (auto simp: applyRequestDecline_def guard_err_Inr Let_def split: option.splits)

lemma applyRequestCancel_inv:
  assumes "acl_inv st" and "applyRequestCancel r record' st = Inr st'"
  shows "acl_inv st'"
  using assms request_closed_inv[OF assms(1)]
  by (auto simp: applyRequestCancel_def guard_err_Inr Let_def split: option.splits)

lemma addAccount_inv:
  assumes inv: "acl_inv st" and p: "\<not> IsOwner (aa_permissions acc)"
    and "addAccount C record' acc st = Inr st'"
  shows "acl_inv st'"
proof -
  let ?st1 = "\<lambda>k keyId. st\<lparr>accountStates := mput k
     \<lparr>as_PubKey = Some k, as_Permissions = aa_permissions acc, as_Status = StatusActive,
      as_RequestMetadata = aa_metadata acc, as_KeyRecordId = keyId,
      as_PermissionChanges = [\<lparr>pc_RecordId = rec_Id record', pc_Permission = aa_permissions acc\<rparr>]\<rparr>
     (accountStates st)\<rparr>"
  from assms(3) obtain k keyId where
    "unpackIfMe C k (aa_encryptedReadKey acc) (?st1 k keyId) = Inr st'"
    by (auto simp: addAccount_def result_simps Let_def)
  moreover have "acl_inv (?st1 k keyId)"
    using inv p by (intro account_replaced_inv) simp_all
  ultimately show ?thesis
    by (auto elim!: unpackIfMe_frame intro: acl_inv_keys)
qed

interpretation addAccounts: guarded_steps "addAccount C record'" acl_inv
  "\<lambda>acc. \<not> IsOwner (aa_permissions acc)" for C record'
  by unfold_locales (rule addAccount_inv)

lemma applyAccountsAdd_inv:
  assumes "acl_inv st" and "ShouldValidate st" and "applyAccountsAdd C as record' st = Inr st'"
  shows "acl_inv st'"
proof -
  from assms(2,3) have "list_all (\<lambda>acc. \<not> IsOwner (aa_permissions acc)) as"
    and "rfold (addAccount C record') as st = Inr st'"
    by (auto simp: applyAccountsAdd_def ValidateAccountsAdd_def validateAccountAdd_def guard_err_Inr
        Let_def list_all_iff split: option.splits if_splits)
  with assms(1) show ?thesis by (blast intro: addAccounts.run_inv)
qed

definition removedAccount :: "AclRecord \<Rightarrow> AccountState \<Rightarrow> AccountState" where
  "removedAccount record' a = a\<lparr>as_Status := StatusRemoved, as_Permissions := AclPermissionsNone,
      as_PermissionChanges := as_PermissionChanges a @
        [\<lparr>pc_RecordId = rec_Id record', pc_Permission = AclPermissionsNone\<rparr>]\<rparr>"

lemma removeAccount_frame:
  assumes "removeAccount C record' raw st = Inr st'"
  obtains k a where "pubKeyFromProto C raw = Some k" and "mget (accountStates st) k = Some a"
    and "st' = (case mget (pendingRequests st) k of
        None \<Rightarrow> st\<lparr>accountStates := mput k (removedAccount record' a) (accountStates st)\<rparr>
      | Some r \<Rightarrow> st\<lparr>accountStates := mput k (removedAccount record' a) (accountStates st),
          pendingRequests := mdel k (pendingRequests st),
          requestRecords := mdel r (requestRecords st)\<rparr>)"
  using assms unfolding removedAccount_def
  by (auto simp: removeAccount_def rbind_eq_Inr of_opt_Inr Let_def split: option.splits)

lemma removeAccount_inv:
  assumes inv: "acl_inv st" and "removeAccount C record' raw st = Inr st'"
  shows "acl_inv st'"
  using assms(2)
proof (rule removeAccount_frame)
  let ?a = "removedAccount record'"
  fix k a
  assume a: "mget (accountStates st) k = Some a"
    and st': "st' = (case mget (pendingRequests st) k of
        None \<Rightarrow> st\<lparr>accountStates := mput k (?a a) (accountStates st)\<rparr>
      | Some r \<Rightarrow> st\<lparr>accountStates := mput k (?a a) (accountStates st),
          pendingRequests := mdel k (pendingRequests st),
          requestRecords := mdel r (requestRecords st)\<rparr>)"
  have inv1: "acl_inv (st\<lparr>accountStates := mput k (?a a) (accountStates st)\<rparr>)"
    using inv acl_inv_account_get[OF inv a]
    by (intro account_replaced_inv) (simp_all add: account_ok_def IsOwner_def removedAccount_def)
  show ?thesis
  proof (cases "mget (pendingRequests st) k")
    case (Some r)
    with inv obtain rr where "mget (requestRecords st) r = Some rr" "RequestIdentity rr = k"
      by (auto simp: acl_inv_def dest: requests_ok_pending)
    with acl_inv_request_done[OF inv1, of r rr] Some show ?thesis
      by (simp add: st')
  qed (use inv1 in \<open>simp add: st'\<close>)
qed

interpretation removeAccounts: guarded_steps "removeAccount C record'" acl_inv "\<lambda>_. True"
  for C record'
  by unfold_locales (rule removeAccount_inv)

lemma updateInviteKey_frame:
  assumes "updateInviteKey C e st = Inr st'"
  shows "\<exists>m. st' = st\<lparr>invites := m\<rparr> \<and> (invites_ok (invites st) \<longrightarrow> invites_ok m)"
proof -
  from assms obtain invKey where r: "(case find (\<lambda>(key, invite). inv_Key invite = invKey) (rangeInvites C invKey (invites st)) of
         None \<Rightarrow> Inr st
       | Some (key, invite) \<Rightarrow>
           Inr (st\<lparr>invites := mput key
                 (invite\<lparr>inv_encryptedReadKey := ek_encryptedReadKey e\<rparr>) (invites st)\<rparr>)) = (Inr st' :: acl_error + AclState)"
    by (simp only: updateInviteKey_def rbind_eq_Inr) blast
  show ?thesis
  proof (cases "find (\<lambda>(key, invite). inv_Key invite = invKey) (rangeInvites C invKey (invites st))")
    case None
    with r have "st' = st\<lparr>invites := invites st\<rparr>" by simp
    then show ?thesis by blast
  next
    case (Some ki)
    obtain key invite where ki: "ki = (key, invite)" by (cases ki)
    from Some have "(key, invite) \<in> set (invites st)"
      by (metis ki find_Some_iff nth_mem set_rangeInvites)
    then have "invites_ok (invites st) \<longrightarrow>
        invites_ok (mput key (invite\<lparr>inv_encryptedReadKey := ek_encryptedReadKey e\<rparr>) (invites st))"
      by (auto simp: invites_ok_def invite_ok_def gm_in_set_iff)
    with r Some ki show ?thesis by auto
  qed
qed

lemma updateInviteKeys_frame:
  "rfold (updateInviteKey C) es st = Inr st' \<Longrightarrow>
   \<exists>m. st' = st\<lparr>invites := m\<rparr> \<and> (invites_ok (invites st) \<longrightarrow> invites_ok m)"
proof (induction es arbitrary: st)
  case Nil
  then have "st' = st\<lparr>invites := invites st\<rparr>" by simp
  then show ?case by blast
next
  case (Cons e es)
  from Cons.prems obtain st1 where "updateInviteKey C e st = Inr st1"
    and "rfold (updateInviteKey C) es st1 = Inr st'"
    by (auto simp: result_simps)
  with Cons.IH[of st1] updateInviteKey_frame[of C e st st1] show ?case
    by auto
qed

text \<open>What a read key change leaves: the new key id, the key's entry and updated invites.\<close>

lemma applyReadKeyChange_frame:
  assumes "applyReadKeyChange C chp record' v st = Inr st'"
  obtains m ks where "st' = st\<lparr>readKeyChanges := readKeyChanges st @ [rec_Id record'],
      invites := m, st_keys := mput (rec_Id record') ks (st_keys st)\<rparr>"
    and "invites_ok (invites st) \<longrightarrow> invites_ok m"
proof -
  from assms obtain ch where "chp = Some ch"
    by (cases chp) (simp_all add: applyReadKeyChange_def)
  with assms obtain ks st1 where st1: "rfold (updateInviteKey C) (rk_inviteKeys ch)
       (st\<lparr>readKeyChanges := readKeyChanges st @ [rec_Id record']\<rparr>) = Inr st1"
    and st': "st' = st1\<lparr>st_keys := mput (rec_Id record') ks (st_keys st1)\<rparr>"
    by (simp only: applyReadKeyChange_def option.case guard_err_Inr rbind_eq_Inr sum.inject) blast
  from updateInviteKeys_frame[OF st1] obtain m where
    "st1 = st\<lparr>readKeyChanges := readKeyChanges st @ [rec_Id record'], invites := m\<rparr>"
    and "invites_ok (invites st) \<longrightarrow> invites_ok m"
    by auto
  then show thesis
    by (intro that) (simp_all add: st')
qed

lemma applyReadKeyChange_inv:
  assumes "acl_inv st" and "applyReadKeyChange C chp record' v st = Inr st'"
  shows "acl_inv st'"
  using assms(2)
proof (rule applyReadKeyChange_frame)
  fix m ks
  assume "st' = st\<lparr>readKeyChanges := readKeyChanges st @ [rec_Id record'],
      invites := m, st_keys := mput (rec_Id record') ks (st_keys st)\<rparr>"
    and "invites_ok (invites st) \<longrightarrow> invites_ok m"
  with assms(1) show ?thesis
    by (auto simp: acl_inv_def keys_ok_def)
qed

lemma applyAccountRemove_inv:
  assumes "acl_inv st" and "applyAccountRemove C ch record' st = Inr st'"
  shows "acl_inv st'"
proof -
  from assms(2) obtain st1 where "rfold (removeAccount C record') (ar_identities ch) st = Inr st1"
    and "applyReadKeyChange C (ar_readKeyChange ch) record' False st1 = Inr st'"
    by (auto simp: applyAccountRemove_def result_simps)
  with assms(1) removeAccounts.run_inv applyReadKeyChange_inv show ?thesis
    by (metis list_all_iff)
qed

lemma applySpaceOptionsChange_inv:
  "acl_inv st \<Longrightarrow> applySpaceOptionsChange opts record' st = Inr st' \<Longrightarrow> acl_inv st'"
  by (auto simp: applySpaceOptionsChange_def result_simps acl_inv_def keys_ok_def)

section \<open>What content does not touch\<close>

text \<open>
  The fields no content changes: the identity of the list, the account's key, the validator, the
  one-to-one flag and the id of the last record.
\<close>

definition fixedFields ::
    "AclState \<Rightarrow> string \<times> privkey option \<times> contentValidator \<times> bool \<times> string" where
  "fixedFields st = (st_id st, st_key st, st_contentValidator st, isOneToOne st, lastRecordId st)"

lemma fixedFields_updates [simp]:
  "fixedFields (st\<lparr>st_keys := ks\<rparr>) = fixedFields st"
  "fixedFields (st\<lparr>accountStates := as\<rparr>) = fixedFields st"
  "fixedFields (st\<lparr>invites := is\<rparr>) = fixedFields st"
  "fixedFields (st\<lparr>requestRecords := rs\<rparr>) = fixedFields st"
  "fixedFields (st\<lparr>pendingRequests := ps\<rparr>) = fixedFields st"
  "fixedFields (st\<lparr>readKeyChanges := rks\<rparr>) = fixedFields st"
  "fixedFields (st\<lparr>optionChanges := os\<rparr>) = fixedFields st"
  by (simp_all add: fixedFields_def)

lemma updatePermissions_fixed [simp]: "fixedFields (updatePermissions k p r st) = fixedFields st"
  by (simp add: updatePermissions_def Let_def)

lemma dropRequestOf_fixed [simp]: "fixedFields (dropRequestOf k st) = fixedFields st"
  by (simp add: dropRequestOf_def split: option.split)

lemma unpackIfMe_fixed: "unpackIfMe C i e st = Inr st' \<Longrightarrow> fixedFields st' = fixedFields st"
  by (auto elim: unpackIfMe_frame)

lemma rfold_fixed:
  assumes "\<And>x s s'. f x s = Inr s' \<Longrightarrow> fixedFields s' = fixedFields s"
  shows "rfold f xs st = Inr st' \<Longrightarrow> fixedFields st' = fixedFields st"
  by (induction xs arbitrary: st) (auto simp: result_simps dest: assms)

lemma addAccount_fixed: "addAccount C r acc st = Inr st' \<Longrightarrow> fixedFields st' = fixedFields st"
  by (auto simp: addAccount_def result_simps Let_def dest!: unpackIfMe_fixed)

lemma removeAccount_fixed: "removeAccount C r raw st = Inr st' \<Longrightarrow> fixedFields st' = fixedFields st"
  by (erule removeAccount_frame) (simp split: option.splits)

lemma applyPermissionChange_fixed:
  "applyPermissionChange C r ch st = Inr st' \<Longrightarrow> fixedFields st' = fixedFields st"
  by (auto simp: applyPermissionChange_def result_simps)

lemma applyReadKeyChange_fixed:
  "applyReadKeyChange C chp r v st = Inr st' \<Longrightarrow> fixedFields st' = fixedFields st"
  by (auto elim: applyReadKeyChange_frame)

lemma applyRequestAccept_fixed:
  "applyRequestAccept C ch r st = Inr st' \<Longrightarrow> fixedFields st' = fixedFields st"
  by (auto simp: applyRequestAccept_def result_simps Let_def dest!: unpackIfMe_fixed
      split: option.splits)

lemma applyInviteJoinWithoutApprove_fixed:
  "applyInviteJoinWithoutApprove C ch r st = Inr st' \<Longrightarrow> fixedFields st' = fixedFields st"
  by (auto simp: applyInviteJoinWithoutApprove_def result_simps Let_def dest!: unpackIfMe_fixed
      split: option.splits)

lemma applyRequestDecline_fixed:
  "applyRequestDecline i r st = Inr st' \<Longrightarrow> fixedFields st' = fixedFields st"
  by (auto simp: applyRequestDecline_def result_simps Let_def split: option.splits)

lemma applyRequestCancel_fixed:
  "applyRequestCancel i r st = Inr st' \<Longrightarrow> fixedFields st' = fixedFields st"
  by (auto simp: applyRequestCancel_def result_simps Let_def split: option.splits)

lemma applyRequestRemove_fixed:
  "applyRequestRemove r st = Inr st' \<Longrightarrow> fixedFields st' = fixedFields st"
  by (auto simp: applyRequestRemove_def result_simps Let_def split: option.splits if_splits)

lemma applyInviteChange_fixed:
  "applyInviteChange ch r st = Inr st' \<Longrightarrow> fixedFields st' = fixedFields st"
  by (auto simp: applyInviteChange_def result_simps split: option.splits)

lemmas content_fixed = applyPermissionChange_fixed applyReadKeyChange_fixed
  applyRequestAccept_fixed applyInviteJoinWithoutApprove_fixed applyRequestDecline_fixed
  applyRequestCancel_fixed applyRequestRemove_fixed applyInviteChange_fixed

lemma applyAccountRemove_fixed:
  assumes "applyAccountRemove C ch r st = Inr st'"
  shows "fixedFields st' = fixedFields st"
proof -
  from assms obtain st1 where "rfold (removeAccount C r) (ar_identities ch) st = Inr st1"
    and "applyReadKeyChange C (ar_readKeyChange ch) r False st1 = Inr st'"
    by (auto simp: applyAccountRemove_def result_simps)
  then show ?thesis
    by (metis rfold_fixed removeAccount_fixed applyReadKeyChange_fixed)
qed

lemma applyAccountsAdd_fixed:
  "applyAccountsAdd C as r st = Inr st' \<Longrightarrow> fixedFields st' = fixedFields st"
  unfolding applyAccountsAdd_def guard_err_Inr by (metis rfold_fixed addAccount_fixed)

lemma applyPermissionChanges_fixed:
  "applyPermissionChanges C chs r st = Inr st' \<Longrightarrow> fixedFields st' = fixedFields st"
  unfolding applyPermissionChanges_def by (metis rfold_fixed applyPermissionChange_fixed)

lemma applyChangeContent_fixed:
  assumes "applyChangeContent C r c st = Inr st'"
  shows "fixedFields st' = fixedFields st"
  using assms
  by (cases c) (auto simp: applyChangeContent_def applyOwnershipChange_def applyInvite_def
    applyInviteRevoke_def applyRequestJoin_def applySpaceOptionsChange_def result_simps Let_def
    dest: content_fixed applyAccountRemove_fixed applyAccountsAdd_fixed applyPermissionChanges_fixed)

section \<open>Whole contents and records\<close>

lemma ShouldValidate_fixed: "fixedFields st' = fixedFields st \<Longrightarrow> ShouldValidate st' = ShouldValidate st"
  by (simp add: fixedFields_def ShouldValidate_def)

definition validating_inv :: "AclState \<Rightarrow> bool" where
  "validating_inv st \<longleftrightarrow> ShouldValidate st \<and> acl_inv st"

interpretation permissionChanges: guarded_steps "applyPermissionChange C record'" validating_inv
  "\<lambda>_. True" for C record'
  by unfold_locales (auto simp: validating_inv_def dest: applyPermissionChange_inv
      ShouldValidate_fixed[OF applyPermissionChange_fixed])

lemma applyPermissionChanges_inv:
  assumes "acl_inv st" and "ShouldValidate st" and "applyPermissionChanges C chs record' st = Inr st'"
  shows "acl_inv st'"
  using permissionChanges.run_inv[of st chs C record' st'] assms
  by (simp add: validating_inv_def applyPermissionChanges_def list_all_iff)

text \<open>The requests after an operation: those of before, and those of the record's author.\<close>

definition requestsFrom :: "AclRecord \<Rightarrow> AclState \<Rightarrow> AclState \<Rightarrow> bool" where
  "requestsFrom record' st st' \<longleftrightarrow>
     (\<forall>r rr. mget (requestRecords st') r = Some rr \<longrightarrow> mget (requestRecords st) r = Some rr
        \<or> (r = rec_Id record' \<and> RequestIdentity rr = rec_Identity record'))"

lemma requestsFrom_same [simp]:
  "requestRecords st' = requestRecords st \<Longrightarrow> requestsFrom record' st st'"
  by (simp add: requestsFrom_def)

lemma requestsFrom_del [simp]:
  "requestRecords st' = mdel r (requestRecords st) \<Longrightarrow> requestsFrom record' st st'"
  by (simp add: requestsFrom_def)

lemma requestsFrom_trans:
  "requestsFrom record' st st1 \<Longrightarrow> requestsFrom record' st1 st2 \<Longrightarrow> requestsFrom record' st st2"
  by (fastforce simp: requestsFrom_def)

lemma updatePermissions_requests [simp]:
  "requestRecords (updatePermissions k p r st) = requestRecords st"
  by (simp add: updatePermissions_def Let_def)

lemma dropRequestOf_requests: "requestsFrom record' st (dropRequestOf k st)"
  by (simp add: dropRequestOf_def split: option.split)

lemma rfold_requestsFrom:
  assumes "\<And>x s s'. f x s = Inr s' \<Longrightarrow> requestsFrom record' s s'"
  shows "rfold f xs st = Inr st' \<Longrightarrow> requestsFrom record' st st'"
  by (induction xs arbitrary: st) (auto simp: result_simps dest!: assms intro: requestsFrom_trans)

lemma addAccount_requests:
  "addAccount C r acc st = Inr st' \<Longrightarrow> requestRecords st' = requestRecords st"
  by (auto simp: addAccount_def result_simps Let_def elim!: unpackIfMe_frame)

lemma removeAccount_requests: "removeAccount C record' raw st = Inr st' \<Longrightarrow> requestsFrom r st st'"
  by (erule removeAccount_frame) (simp split: option.splits)

lemma applyPermissionChange_requests:
  "applyPermissionChange C r ch st = Inr st' \<Longrightarrow> requestRecords st' = requestRecords st"
  by (auto simp: applyPermissionChange_def result_simps)

lemma applyReadKeyChange_requests:
  "applyReadKeyChange C chp r v st = Inr st' \<Longrightarrow> requestRecords st' = requestRecords st"
  by (auto elim: applyReadKeyChange_frame)

lemma applyRequestAccept_requests:
  assumes "applyRequestAccept C ch r st = Inr st'"
  shows "requestsFrom record' st st'"
  using assms
  by (auto simp: applyRequestAccept_def result_simps Let_def elim!: unpackIfMe_frame
      split: option.splits)

lemma applyInviteJoinWithoutApprove_requests:
  assumes "applyInviteJoinWithoutApprove C ch r st = Inr st'"
  shows "requestsFrom record' st st'"
proof (cases "mget (invites st) (ij_inviteRecordId ch)")
  case None
  with assms show ?thesis
    by (auto simp: applyInviteJoinWithoutApprove_def result_simps)
next
  case (Some i)
  with assms obtain k st1 where "unpackIfMe C k (ij_encryptedReadKey ch) (dropRequestOf k st1) = Inr st'"
    and "requestRecords st1 = requestRecords st"
    by (simp only: applyInviteJoinWithoutApprove_def guard_err_Inr rbind_eq_Inr Let_def option.case)
      force
  moreover from this(1) obtain ks where "st' = (dropRequestOf k st1)\<lparr>st_keys := ks\<rparr>"
    by (rule unpackIfMe_frame)
  ultimately show ?thesis
    using dropRequestOf_requests[of record' st1 k] by (simp add: requestsFrom_def)
qed

lemma applyAccountRemove_requests:
  assumes "applyAccountRemove C ch r st = Inr st'"
  shows "requestsFrom record' st st'"
proof -
  from assms obtain st1 where "rfold (removeAccount C r) (ar_identities ch) st = Inr st1"
    and "applyReadKeyChange C (ar_readKeyChange ch) r False st1 = Inr st'"
    by (auto simp: applyAccountRemove_def result_simps)
  then show ?thesis
    by (metis rfold_requestsFrom removeAccount_requests applyReadKeyChange_requests
        requestsFrom_same requestsFrom_trans)
qed

lemma applyAccountsAdd_requests:
  "applyAccountsAdd C as r st = Inr st' \<Longrightarrow> requestsFrom record' st st'"
  unfolding applyAccountsAdd_def guard_err_Inr
  by (metis rfold_requestsFrom addAccount_requests requestsFrom_same)

lemma applyPermissionChanges_requests:
  "applyPermissionChanges C chs r st = Inr st' \<Longrightarrow> requestsFrom record' st st'"
  unfolding applyPermissionChanges_def
  by (metis rfold_requestsFrom applyPermissionChange_requests requestsFrom_same)

lemma applyRequestDecline_requests:
  "applyRequestDecline i r st = Inr st' \<Longrightarrow> requestsFrom record' st st'"
  by (auto simp: applyRequestDecline_def result_simps Let_def split: option.splits)

lemma applyRequestCancel_requests:
  "applyRequestCancel i r st = Inr st' \<Longrightarrow> requestsFrom record' st st'"
  by (auto simp: applyRequestCancel_def result_simps Let_def split: option.splits)

lemma applyRequestJoin_requests:
  "applyRequestJoin C ch record' st = Inr st' \<Longrightarrow> requestsFrom record' st st'"
  by (auto simp: applyRequestJoin_def result_simps Let_def requestsFrom_def split: if_splits)

lemma applyRequestRemove_requests:
  "applyRequestRemove record' st = Inr st' \<Longrightarrow> requestsFrom record' st st'"
  by (auto simp: applyRequestRemove_def result_simps Let_def requestsFrom_def
      split: option.splits if_splits)

lemma applyInviteChange_requests:
  "applyInviteChange ch r st = Inr st' \<Longrightarrow> requestRecords st' = requestRecords st"
  by (auto simp: applyInviteChange_def result_simps split: option.splits)

lemmas content_requests = applyRequestAccept_requests applyInviteJoinWithoutApprove_requests
  applyAccountRemove_requests applyAccountsAdd_requests applyPermissionChanges_requests
  applyRequestDecline_requests applyRequestCancel_requests applyRequestJoin_requests
  applyRequestRemove_requests
  requestsFrom_same[OF applyReadKeyChange_requests] requestsFrom_same[OF applyInviteChange_requests]
  requestsFrom_same[OF applyPermissionChange_requests]

lemma applyChangeContent_requests:
  assumes "applyChangeContent C record' c st = Inr st'"
  shows "requestsFrom record' st st'"
  using assms
  by (cases c) (auto simp: applyChangeContent_def applyOwnershipChange_def applyInvite_def
    applyInviteRevoke_def applySpaceOptionsChange_def result_simps Let_def
    intro: content_requests)

lemma own_request_from:
  "requestsFrom record' st st' \<Longrightarrow> own_request record' st \<Longrightarrow> own_request record' st'"
  by (auto simp: requestsFrom_def own_request_def)

lemma applyChangeContent_inv:
  assumes "acl_inv st" and "ShouldValidate st" and "own_request record' st"
    and "applyChangeContent C record' c st = Inr st'"
  shows "acl_inv st'"
  using assms
  by (cases c) (auto simp: applyChangeContent_def guard_err_Inr
    dest: applyOwnershipChange_inv applyInviteChange_inv applyInviteJoinWithoutApprove_inv
      applyPermissionChange_inv applyInvite_inv applyInviteRevoke_inv applyRequestJoin_inv
      applyRequestAccept_inv applyRequestDecline_inv applyRequestCancel_inv applyAccountRemove_inv
      applyReadKeyChange_inv applyRequestRemove_inv applyAccountsAdd_inv applyPermissionChanges_inv
      applySpaceOptionsChange_inv)

definition content_inv :: "AclRecord \<Rightarrow> AclState \<Rightarrow> bool" where
  "content_inv record' st \<longleftrightarrow> ShouldValidate st \<and> own_request record' st \<and> acl_inv st"

interpretation contents: guarded_steps "applyChangeContent C record'" "content_inv record'"
  "\<lambda>_. True" for C record'
  by unfold_locales (auto simp: content_inv_def dest: applyChangeContent_inv
      ShouldValidate_fixed[OF applyChangeContent_fixed]
      own_request_from[OF applyChangeContent_requests])

lemma applyContents_inv:
  assumes "acl_inv st" and "ShouldValidate st" and "own_request record' st"
    and "rfold (applyChangeContent C record') cs st = Inr st'"
  shows "acl_inv st'"
  using contents.run_inv[of record' st cs C st'] assms by (simp add: content_inv_def list_all_iff)

lemma applyContents_fixed:
  "rfold (applyChangeContent C record') cs st = Inr st' \<Longrightarrow> fixedFields st' = fixedFields st"
  by (rule rfold_fixed[OF applyChangeContent_fixed])

lemma applyContents_requests:
  "rfold (applyChangeContent C record') cs st = Inr st' \<Longrightarrow> requestsFrom record' st st'"
  by (rule rfold_requestsFrom[OF applyChangeContent_requests])

text \<open>What a successful \<open>ApplyRecord\<close> has checked and done.\<close>

definition recordContents :: "crypto \<Rightarrow> AclRecord \<Rightarrow> AclContentValue list option" where
  "recordContents C record' =
     (case rec_Model record' of
        Some (AclData contents) \<Rightarrow> Some contents
      | Some (AclRootModel _) \<Rightarrow> None
      | None \<Rightarrow> if rec_Data record' = [] then None else unmarshalAclData C (rec_Data record'))"

lemma ApplyRecord_Inr:
  "ApplyRecord C record' st = Inr st' \<longleftrightarrow>
     \<not> isOneToOne st \<and> lastRecordId st = rec_PrevId record' \<and> rec_Id record' \<noteq> []
     \<and> (\<exists>contents st1. recordContents C record' = Some contents
          \<and> ValidateAclData st contents = None
          \<and> rfold (applyChangeContent C record') contents st = Inr st1
          \<and> st' = st1\<lparr>lastRecordId := rec_Id record'\<rparr>)"
  by (cases "rec_Model record'"; cases "rec_Data record' = []") (auto simp: ApplyRecord_def applyChangeData_def
      recordContents_def rbind_assoc result_simps split: AclModel.splits)

lemma acl_inv_lastRecordId [simp]: "acl_inv (st\<lparr>lastRecordId := r\<rparr>) = acl_inv st"
  by (simp add: acl_inv_def keys_ok_def)

lemma ApplyRecord_inv:
  assumes "acl_inv st" and "ShouldValidate st" and "own_request record' st"
    and "ApplyRecord C record' st = Inr st'"
  shows "acl_inv st'"
  using assms by (auto simp: ApplyRecord_Inr dest: applyContents_inv)

lemma ApplyRecord_fixed:
  assumes "ApplyRecord C record' st = Inr st'"
  shows "st_id st' = st_id st \<and> st_key st' = st_key st
    \<and> st_contentValidator st' = st_contentValidator st \<and> isOneToOne st' = isOneToOne st
    \<and> lastRecordId st' = rec_Id record'"
  using assms by (auto simp: ApplyRecord_Inr fixedFields_def dest!: applyContents_fixed)

lemma ApplyRecord_requests:
  "ApplyRecord C record' st = Inr st' \<Longrightarrow> requestsFrom record' st st'"
  using applyContents_requests[of C record' _ st] by (fastforce simp: ApplyRecord_Inr requestsFrom_def)

section \<open>States built from a root record\<close>

lemma saveKeysFromRoot_frame:
  assumes "saveKeysFromRoot C i root key st = Inr st'"
  obtains v where "st' = st\<lparr>st_keys := mput i v (st_keys st)\<rparr>"
  using assms by (auto simp: saveKeysFromRoot_def result_simps Let_def split: option.splits)

lemma rootAccount_perm [simp]: "as_Permissions (rootAccount i p m k) = p"
  by (simp add: rootAccount_def)

lemma rootAccount_ok: "account_ok k (rootAccount i p m k)"
  by (simp add: account_ok_def rootAccount_def)

lemma setOneToOneWriters_ok:
  "rfold (setOneToOneWriter C i) ws st = Inr st' \<Longrightarrow>
   accounts_ok (accountStates st) \<Longrightarrow> one_owner (accountStates st) \<Longrightarrow>
   \<exists>m. st' = st\<lparr>accountStates := m\<rparr> \<and> accounts_ok m \<and> one_owner m"
proof (induction ws arbitrary: st)
  case Nil
  then have "st' = st\<lparr>accountStates := accountStates st\<rparr>" by simp
  with Nil show ?case by blast
next
  case (Cons w ws)
  from Cons.prems(1) obtain k where
    "rfold (setOneToOneWriter C i) ws
       (st\<lparr>accountStates := mput k (rootAccount i AclPermissionsWriter [] k) (accountStates st)\<rparr>) = Inr st'"
    by (auto simp: setOneToOneWriter_def[of _ _ w] result_simps)
  from Cons.IH[OF this] Cons.prems(2,3) show ?case
    by (simp add: accounts_ok_put rootAccount_ok one_owner_put IsOwner_def)
qed

lemma accounts_single_ok: "accounts_ok [(k, rootAccount i p m k)]"
  by (simp add: rootAccount_ok accounts_ok_def gm_wf_def)

lemma one_owner_single: "one_owner [(k, a)]"
  by (simp add: one_owner_def)

lemma deriveOneToOneKeys_frame:
  assumes "deriveOneToOneKeys C i info st = Inr st'"
  obtains v where "st' = st\<lparr>st_keys := mput i v (st_keys st)\<rparr>"
  using assms by (auto simp: deriveOneToOneKeys_def result_simps Let_def split: option.splits if_splits)

lemma setOneToOneAcl_frame:
  assumes "setOneToOneAcl C i info (emptyAclState i' key sv) = Inr st"
  obtains ks m where "st = (emptyAclState i' key sv)\<lparr>st_keys := ks, accountStates := m,
      readKeyChanges := [i], lastRecordId := i, isOneToOne := True\<rparr>"
    and "accounts_ok m" and "one_owner m"
proof -
  let ?st0 = "emptyAclState i' key sv"
  from assms obtain b st1 pk st2 where
    st1: "(if b then deriveOneToOneKeys C i info ?st0 else Inr ?st0) = Inr st1"
    and st2: "rfold (setOneToOneWriter C i) (oi_writers info)
        (st1\<lparr>accountStates := mput pk (rootAccount i AclPermissionsOwner [] pk) (accountStates st1)\<rparr>) = Inr st2"
    and st: "st = st2\<lparr>readKeyChanges := [i], lastRecordId := i, isOneToOne := True\<rparr>"
    by (auto simp: setOneToOneAcl_def result_simps)
  from st1 obtain ks where "st1 = ?st0\<lparr>st_keys := ks\<rparr>"
    by (cases b) (auto elim!: deriveOneToOneKeys_frame simp: emptyAclState_def)
  moreover from this setOneToOneWriters_ok[OF st2] obtain m where
    "st2 = st1\<lparr>accountStates := m\<rparr>" "accounts_ok m" "one_owner m"
    by (auto simp: emptyAclState_def accounts_single_ok one_owner_single)
  ultimately show thesis
    by (intro that) (simp_all add: st)
qed

lemma applyRoot_plain_frame:
  assumes "applyRoot C record' st = Inr st'" and "rec_Model record' = Some (AclRootModel root)"
    and "ro_oneToOneInfo root = None"
  obtains ks os where "st' = st\<lparr>st_keys := ks, readKeyChanges := [rec_Id record'],
      accountStates := mput (rec_Identity record') (rootAccount (rec_Id record') AclPermissionsOwner
         (ro_encryptedOwnerMetadata root) (rec_Identity record')) (accountStates st),
      lastRecordId := rec_Id record', optionChanges := os\<rparr>"
    and "rec_Id record' \<in> dom (mget ks)"
proof -
  from assms obtain ak st1 where
    st1: "(case st_key st of
        Some key \<Rightarrow> if getPublic C key = rec_Identity record'
          then saveKeysFromRoot C (rec_Id record') root key
                 (st\<lparr>st_keys := mput (rec_Id record') ak (st_keys st)\<rparr>)
          else Inr (st\<lparr>st_keys := mput (rec_Id record') ak (st_keys st)\<rparr>)
      | None \<Rightarrow> Inr (st\<lparr>st_keys := mput (rec_Id record') ak (st_keys st)\<rparr>)) = (Inr st1 :: acl_error + AclState)"
    and st': "st' = st1\<lparr>readKeyChanges := [rec_Id record'],
        accountStates := mput (rec_Identity record') (rootAccount (rec_Id record') AclPermissionsOwner
           (ro_encryptedOwnerMetadata root) (rec_Identity record')) (accountStates st1),
        lastRecordId := rec_Id record',
        optionChanges := (case ro_options root of None \<Rightarrow> optionChanges st1
          | Some opts \<Rightarrow> [\<lparr>oc_RecordId = rec_Id record', oc_Options = Some opts\<rparr>])\<rparr>"
    by (simp only: applyRoot_def option.case AclModel.case rbind_eq_Inr Let_def sum.inject
        mapKeyFromPubKey_def) blast
  from st1 obtain ks where "st1 = st\<lparr>st_keys := ks\<rparr>" and "rec_Id record' \<in> dom (mget ks)"
    by (auto split: option.splits if_splits elim!: saveKeysFromRoot_frame)
  with st' show thesis
    by (intro that) simp_all
qed

lemma applyRoot_inv:
  assumes "applyRoot C record' (emptyAclState i key sv) = Inr st"
  shows "acl_inv st \<and> requestRecords st = [] \<and> lastRecordId st = rec_Id record'
    \<and> st_contentValidator st = \<lparr>shouldValidate = sv, admission = False\<rparr> \<and> st_key st = key"
proof -
  from assms obtain root where root: "rec_Model record' = Some (AclRootModel root)"
    by (auto simp: applyRoot_def split: option.splits AclModel.splits)
  show ?thesis
  proof (cases "ro_oneToOneInfo root")
    case None
    with assms root show ?thesis
      by (rule_tac applyRoot_plain_frame)
        (auto simp: acl_inv_def keys_ok_def invites_ok_def requests_ok_def emptyAclState_def
          accounts_single_ok one_owner_single)
  next
    case (Some info)
    with assms root have "setOneToOneAcl C (rec_Id record') info (emptyAclState i key sv) = Inr st"
      by (simp add: applyRoot_def)
    then show ?thesis
      by (rule setOneToOneAcl_frame)
        (simp add: acl_inv_def keys_ok_def invites_ok_def requests_ok_def emptyAclState_def)
  qed
qed

end
