(* ===== verification/AclAuthority.thy ===== *)
theory AclAuthority
  imports AclInvariants
begin

text \<open>
  Who may change whose permissions. The effect of every content on the permissions of every
  account, and from it: apart from an ownership transfer, joining through an open invite and
  accepting a request, a validated content changes permissions only on behalf of an account
  manager, never makes or unmakes an owner, and touches the admin role only for the owner.
\<close>

section \<open>Effects on permissions\<close>

lemma Permissions_accounts:
  "accountStates st' = accountStates st \<Longrightarrow> Permissions st' = Permissions st"
  by (simp add: Permissions_def fun_eq_iff)

lemma Permissions_updates [simp]:
  "Permissions (st\<lparr>invites := is\<rparr>) = Permissions st"
  "Permissions (st\<lparr>optionChanges := os\<rparr>) = Permissions st"
  "Permissions (st\<lparr>st_keys := ks\<rparr>) = Permissions st"
  "Permissions (st\<lparr>accountStates := mput k a (accountStates st)\<rparr>) =
     (Permissions st)(k := as_Permissions a)"
  by (auto simp: Permissions_def fun_eq_iff)

lemma Permissions_put:
  "accountStates st' = mput k a (accountStates st) \<Longrightarrow>
   Permissions st' = (Permissions st)(k := as_Permissions a)"
  by (auto simp: Permissions_def fun_eq_iff)

lemma Permissions_put_same:
  assumes "accountStates st' = mput k a (accountStates st)" and "as_Permissions a = Permissions st k"
  shows "Permissions st' = Permissions st"
  using Permissions_put[OF assms(1)] assms(2) by simp

lemma updatePermissions_perm:
  "Permissions (updatePermissions k p r st) = (Permissions st)(k := p)"
  by (rule ext) (simp add: updatePermissions_def Let_def Permissions_def)

lemma unpackIfMe_perm: "unpackIfMe C i e st = Inr st' \<Longrightarrow> Permissions st' = Permissions st"
  by (erule unpackIfMe_frame, rule Permissions_accounts) simp

lemma dropRequestOf_perm: "Permissions (dropRequestOf k st) = Permissions st"
  by (rule Permissions_accounts) (simp add: dropRequestOf_def split: option.split)

lemma applyReadKeyChange_perm:
  "applyReadKeyChange C chp r v st = Inr st' \<Longrightarrow> Permissions st' = Permissions st"
  by (erule applyReadKeyChange_frame, rule Permissions_accounts) simp

lemma applyRequestJoin_perm:
  assumes "ShouldValidate st" and "applyRequestJoin C ch record' st = Inr st'"
  shows "Permissions st' = Permissions st"
proof -
  from assms have "Permissions st (rec_Identity record') = AclPermissionsNone"
    by (auto simp: applyRequestJoin_def ValidateRequestJoin_def result_simps NoPermissions_def
        split: option.splits if_splits)
  with assms(2) show ?thesis
    by (auto simp: applyRequestJoin_def result_simps Let_def intro!: Permissions_put_same)
qed

lemma status_only_perm:
  assumes "mget (accountStates st) k = Some a"
    and "accountStates st' = mput k (a\<lparr>as_Status := s\<rparr>) (accountStates st)"
  shows "Permissions st' = Permissions st"
  using assms(2) by (rule Permissions_put_same) (simp add: Permissions_def assms(1))

lemma applyRequestDecline_perm:
  "applyRequestDecline i r st = Inr st' \<Longrightarrow> Permissions st' = Permissions st"
  by (auto simp: applyRequestDecline_def result_simps Let_def split: option.splits
      intro!: status_only_perm)

lemma applyRequestCancel_perm:
  "applyRequestCancel i r st = Inr st' \<Longrightarrow> Permissions st' = Permissions st"
  by (auto simp: applyRequestCancel_def result_simps Let_def split: option.splits
      intro!: status_only_perm)

lemma applyRequestRemove_perm:
  "applyRequestRemove r st = Inr st' \<Longrightarrow> Permissions st' = Permissions st"
  by (auto simp: applyRequestRemove_def result_simps Let_def split: option.splits if_splits
      intro!: status_only_perm)

lemma addAccount_perm:
  assumes "addAccount C record' acc st = Inr st'"
  shows "\<exists>k. pubKeyFromProto C (aa_identity acc) = Some k
    \<and> Permissions st' = (Permissions st)(k := aa_permissions acc)"
proof -
  from assms obtain k a where "pubKeyFromProto C (aa_identity acc) = Some k"
    and "as_Permissions a = aa_permissions acc"
    and "unpackIfMe C k (aa_encryptedReadKey acc)
       (st\<lparr>accountStates := mput k a (accountStates st)\<rparr>) = Inr st'"
    by (auto simp: addAccount_def result_simps Let_def)
      (metis AccountState.select_convs(2))
  then show ?thesis
    by (auto dest!: unpackIfMe_perm)
qed

lemma addAccounts_perm:
  "rfold (addAccount C record') as st = Inr st' \<Longrightarrow>
   Permissions st' k = Permissions st k
   \<or> (\<exists>acc \<in> set as. pubKeyFromProto C (aa_identity acc) = Some k
        \<and> Permissions st' k = aa_permissions acc)"
proof (induction as arbitrary: st)
  case (Cons acc as)
  from Cons.prems obtain st1 where st1: "addAccount C record' acc st = Inr st1"
    and "rfold (addAccount C record') as st1 = Inr st'"
    by (auto simp: result_simps)
  from Cons.IH[OF this(2)] addAccount_perm[OF st1] show ?case
    by (auto split: if_splits)
qed simp

lemma removeAccount_perm:
  assumes "removeAccount C record' raw st = Inr st'"
  shows "\<exists>k. pubKeyFromProto C raw = Some k
    \<and> Permissions st' = (Permissions st)(k := AclPermissionsNone)"
  using assms
proof (rule removeAccount_frame)
  fix k a
  assume "pubKeyFromProto C raw = Some k"
    and "st' = (case mget (pendingRequests st) k of
        None \<Rightarrow> st\<lparr>accountStates := mput k (removedAccount record' a) (accountStates st)\<rparr>
      | Some r \<Rightarrow> st\<lparr>accountStates := mput k (removedAccount record' a) (accountStates st),
          pendingRequests := mdel k (pendingRequests st),
          requestRecords := mdel r (requestRecords st)\<rparr>)"
  moreover from this(2) have "accountStates st' = mput k (removedAccount record' a) (accountStates st)"
    by (simp split: option.splits)
  ultimately show ?thesis
    using Permissions_put[of st' k "removedAccount record' a" st] by (simp add: removedAccount_def)
qed

lemma removeAccounts_perm:
  "rfold (removeAccount C record') raws st = Inr st' \<Longrightarrow>
   Permissions st' k = (if \<exists>raw \<in> set raws. pubKeyFromProto C raw = Some k
                        then AclPermissionsNone else Permissions st k)"
proof (induction raws arbitrary: st)
  case (Cons raw raws)
  from Cons.prems obtain st1 where st1: "removeAccount C record' raw st = Inr st1"
    and "rfold (removeAccount C record') raws st1 = Inr st'"
    by (auto simp: result_simps)
  from Cons.IH[OF this(2)] removeAccount_perm[OF st1] show ?case
    by auto
qed simp

lemma applyAccountRemove_perm:
  assumes "applyAccountRemove C ch record' st = Inr st'"
  shows "Permissions st' k = (if \<exists>raw \<in> set (ar_identities ch). pubKeyFromProto C raw = Some k
                        then AclPermissionsNone else Permissions st k)"
proof -
  from assms obtain st1 where "rfold (removeAccount C record') (ar_identities ch) st = Inr st1"
    and "applyReadKeyChange C (ar_readKeyChange ch) record' False st1 = Inr st'"
    by (auto simp: applyAccountRemove_def result_simps)
  then show ?thesis
    using removeAccounts_perm by (simp add: applyReadKeyChange_perm)
qed

lemma validateRemovals_ok:
  "validateRemovals C st author ids seen = Inr seen' \<Longrightarrow> raw \<in> set ids \<Longrightarrow>
   pubKeyFromProto C raw = Some k \<Longrightarrow>
   k \<noteq> author \<and> \<not> NoPermissions (Permissions st k) \<and> \<not> IsOwner (Permissions st k)
   \<and> (IsAdmin (Permissions st k) \<longrightarrow> IsOwner (Permissions st author)) \<and> k \<in> set seen'"
proof (induction ids arbitrary: seen)
  case (Cons i ids)
  have mono: "validateRemovals C st author is s = Inr s' \<Longrightarrow> set s \<subseteq> set s'" for "is" s s'
    by (induction "is" arbitrary: s) (force simp: Let_def split: option.splits if_splits)+
  from Cons.prems obtain j where "pubKeyFromProto C i = Some j"
    and "j \<noteq> author" "\<not> NoPermissions (Permissions st j)" "\<not> IsOwner (Permissions st j)"
      "IsAdmin (Permissions st j) \<longrightarrow> IsOwner (Permissions st author)"
    and run: "validateRemovals C st author ids (j # seen) = Inr seen'"
    by (auto simp: Let_def split: option.splits if_splits)
  with Cons.IH[OF run] Cons.prems(2,3) mono[OF run] show ?case
    by auto
qed simp

section \<open>Authorised changes\<close>

definition authorized :: "pubkey \<Rightarrow> AclState \<Rightarrow> AclState \<Rightarrow> bool" where
  "authorized author st st' \<longleftrightarrow> (\<forall>k. Permissions st' k \<noteq> Permissions st k \<longrightarrow>
     CanManageAccounts (Permissions st author)
     \<and> \<not> IsOwner (Permissions st k) \<and> \<not> IsOwner (Permissions st' k)
     \<and> (IsAdmin (Permissions st k) \<or> IsAdmin (Permissions st' k) \<longrightarrow>
          IsOwner (Permissions st author)))"

lemma authorized_refl [simp]: "Permissions st' = Permissions st \<Longrightarrow> authorized author st st'"
  by (simp add: authorized_def)

lemma authorizedD:
  "authorized author st st' \<Longrightarrow> Permissions st' k \<noteq> Permissions st k \<Longrightarrow>
     CanManageAccounts (Permissions st author)
     \<and> \<not> IsOwner (Permissions st k) \<and> \<not> IsOwner (Permissions st' k)
     \<and> (IsAdmin (Permissions st k) \<or> IsAdmin (Permissions st' k) \<longrightarrow>
          IsOwner (Permissions st author))"
  by (simp add: authorized_def)

lemma authorized_author:
  "authorized author st st' \<Longrightarrow> Permissions st' author = Permissions st author"
  by (auto simp: authorized_def CanManageAccounts_iff IsAdmin_def IsOwner_def)

lemma authorized_trans:
  assumes "authorized author st st1" and "authorized author st1 st2"
  shows "authorized author st st2"
  unfolding authorized_def
proof (intro allI impI)
  fix k
  assume "Permissions st2 k \<noteq> Permissions st k"
  then show "CanManageAccounts (Permissions st author)
     \<and> \<not> IsOwner (Permissions st k) \<and> \<not> IsOwner (Permissions st2 k)
     \<and> (IsAdmin (Permissions st k) \<or> IsAdmin (Permissions st2 k) \<longrightarrow> IsOwner (Permissions st author))"
    using authorizedD[OF assms(1), of k] authorizedD[OF assms(2), of k] authorized_author[OF assms(1)]
    by (cases "Permissions st1 k = Permissions st k"; cases "Permissions st2 k = Permissions st1 k") auto
qed

lemma applyPermissionChange_authorized:
  assumes "ShouldValidate st" and "applyPermissionChange C record' ch st = Inr st'"
  shows "authorized (rec_Identity record') st st'"
proof -
  let ?p = "pm_permissions ch" and ?A = "Permissions st (rec_Identity record')"
  from assms obtain k a where a: "mget (accountStates st) k = Some a"
    and m: "CanManageAccounts ?A"
    and "\<not> IsOwner (as_Permissions a)" "IsAdmin (as_Permissions a) \<longrightarrow> IsOwner ?A"
      "\<not> IsOwner ?p" "IsAdmin ?p \<longrightarrow> IsOwner ?A"
    and st': "st' = updatePermissions k ?p record' st"
    by (auto simp: applyPermissionChange_def ValidatePermissionChange_def result_simps Let_def
        perm_defs split: option.splits if_splits)
  moreover have "Permissions st k = as_Permissions a"
    by (simp add: Permissions_def a)
  ultimately show ?thesis
    by (auto simp: authorized_def updatePermissions_perm)
qed

lemma applyPermissionChanges_authorized:
  "ShouldValidate st \<Longrightarrow> rfold (applyPermissionChange C record') chs st = Inr st' \<Longrightarrow>
   authorized (rec_Identity record') st st'"
proof (induction chs arbitrary: st)
  case (Cons ch chs)
  from Cons.prems obtain st1 where st1: "applyPermissionChange C record' ch st = Inr st1"
    and rest: "rfold (applyPermissionChange C record') chs st1 = Inr st'"
    by (auto simp: result_simps)
  have "ShouldValidate st1"
    using Cons.prems(1) ShouldValidate_fixed[OF applyPermissionChange_fixed[OF st1]] by simp
  from Cons.IH[OF this rest] applyPermissionChange_authorized[OF Cons.prems(1) st1]
  show ?case by (blast intro: authorized_trans)
qed simp

lemma applyAccountsAdd_authorized:
  assumes "ShouldValidate st" and "applyAccountsAdd C as record' st = Inr st'"
  shows "authorized (rec_Identity record') st st'"
  unfolding authorized_def
proof (intro allI impI)
  let ?A = "Permissions st (rec_Identity record')"
  fix k
  assume "Permissions st' k \<noteq> Permissions st k"
  from assms have m: "CanManageAccounts ?A"
    and v: "\<forall>acc \<in> set as. validateAccountAdd C st ?A acc = None"
    and run: "rfold (addAccount C record') as st = Inr st'"
    by (auto simp: applyAccountsAdd_def ValidateAccountsAdd_def guard_err_Inr Let_def
        split: if_splits)
  from addAccounts_perm[OF run, of k] \<open>Permissions st' k \<noteq> Permissions st k\<close> obtain acc
    where "acc \<in> set as" "pubKeyFromProto C (aa_identity acc) = Some k"
      "Permissions st' k = aa_permissions acc"
    by auto
  moreover from this(1) v have "validateAccountAdd C st ?A acc = None"
    by blast
  ultimately show "CanManageAccounts ?A \<and> \<not> IsOwner (Permissions st k) \<and> \<not> IsOwner (Permissions st' k)
     \<and> (IsAdmin (Permissions st k) \<or> IsAdmin (Permissions st' k) \<longrightarrow> IsOwner ?A)"
    using m by (simp add: validateAccountAdd_def perm_defs split: if_splits)
qed

lemma applyAccountRemove_authorized:
  assumes "ShouldValidate st" and run: "applyAccountRemove C ch record' st = Inr st'"
  shows "authorized (rec_Identity record') st st'"
proof -
  from assms obtain seen where "CanManageAccounts (Permissions st (rec_Identity record'))"
    and "validateRemovals C st (rec_Identity record') (ar_identities ch) [] = Inr seen"
    by (auto simp: applyAccountRemove_def ValidateAccountRemove_def guard_err_Inr
        split: if_splits sum.splits)
  with validateRemovals_ok[OF this(2)] show ?thesis
    by (auto simp: authorized_def applyAccountRemove_perm[OF run] perm_defs)
qed

definition grantsDirectly :: "AclContentValue \<Rightarrow> bool" where
  "grantsDirectly c = (case c of OwnershipChange _ \<Rightarrow> True | InviteJoin _ \<Rightarrow> True
     | RequestAccept _ \<Rightarrow> True | _ \<Rightarrow> False)"

lemma content_authorized:
  assumes "ShouldValidate st" and "applyChangeContent C record' c st = Inr st'"
    and "\<not> grantsDirectly c"
  shows "authorized (rec_Identity record') st st'"
  using assms
  by (cases c) (auto simp: applyChangeContent_def grantsDirectly_def applyInvite_def
      applyInviteRevoke_def applyInviteChange_def applySpaceOptionsChange_def
      applyPermissionChanges_def result_simps
      intro: authorized_refl Permissions_accounts applyPermissionChange_authorized applyPermissionChanges_authorized
        applyAccountsAdd_authorized applyAccountRemove_authorized
      dest: applyRequestJoin_perm applyRequestDecline_perm applyRequestCancel_perm
        applyRequestRemove_perm applyReadKeyChange_perm split: option.splits)

end
