(* ===== verification/AclModes.thy ===== *)
theory AclModes
  imports AclInvariants
begin

text \<open>
  The three modes of the content validator compared: without validation (build and ingest behind a
  network verifier), full validation (replay by a validating node) and admission (a new record,
  before it enters the log). A record that a stricter mode applies is applied by every weaker mode
  too, with the same effect on the state.
\<close>

section \<open>Changing the mode of a state\<close>

definition setV :: "contentValidator \<Rightarrow> AclState \<Rightarrow> AclState" where
  "setV v st = st\<lparr>st_contentValidator := v\<rparr>"

definition weaker :: "contentValidator \<Rightarrow> contentValidator \<Rightarrow> bool" where
  "weaker v v' \<longleftrightarrow> (shouldValidate v' \<longrightarrow> shouldValidate v) \<and> (admission v' \<longrightarrow> admission v)"

lemma setV_select [simp]:
  "st_id (setV v st) = st_id st" "st_keys (setV v st) = st_keys st"
  "accountStates (setV v st) = accountStates st" "invites (setV v st) = invites st"
  "requestRecords (setV v st) = requestRecords st" "pendingRequests (setV v st) = pendingRequests st"
  "readKeyChanges (setV v st) = readKeyChanges st" "st_key (setV v st) = st_key st"
  "lastRecordId (setV v st) = lastRecordId st" "st_contentValidator (setV v st) = v"
  "optionChanges (setV v st) = optionChanges st" "isOneToOne (setV v st) = isOneToOne st"
  by (simp_all add: setV_def)

lemma setV_update [simp]:
  "setV v (st\<lparr>st_keys := x1\<rparr>) = (setV v st)\<lparr>st_keys := x1\<rparr>"
  "setV v (st\<lparr>accountStates := x2\<rparr>) = (setV v st)\<lparr>accountStates := x2\<rparr>"
  "setV v (st\<lparr>invites := x3\<rparr>) = (setV v st)\<lparr>invites := x3\<rparr>"
  "setV v (st\<lparr>requestRecords := x4\<rparr>) = (setV v st)\<lparr>requestRecords := x4\<rparr>"
  "setV v (st\<lparr>pendingRequests := x5\<rparr>) = (setV v st)\<lparr>pendingRequests := x5\<rparr>"
  "setV v (st\<lparr>readKeyChanges := x6\<rparr>) = (setV v st)\<lparr>readKeyChanges := x6\<rparr>"
  "setV v (st\<lparr>optionChanges := x7\<rparr>) = (setV v st)\<lparr>optionChanges := x7\<rparr>"
  "setV v (st\<lparr>lastRecordId := x8\<rparr>) = (setV v st)\<lparr>lastRecordId := x8\<rparr>"
  by (simp_all add: setV_def)

lemma setV_setV [simp]: "setV v (setV v' st) = setV v st"
  by (simp add: setV_def)

lemma setV_self [simp]: "setV (st_contentValidator st) st = st"
  by (simp add: setV_def)

lemma setV_queries [simp]:
  "ShouldValidate (setV v st) = shouldValidate v"
  "Permissions (setV v st) = Permissions st"
  "getAccount (setV v st) = getAccount st"
  "CurrentReadKeyId (setV v st) = CurrentReadKeyId st"
  "pubKeyEquals C (setV v st) = pubKeyEquals C st"
  by (simp_all add: ShouldValidate_def Permissions_def getAccount_def CurrentReadKeyId_def
      pubKeyEquals_def fun_eq_iff)

lemma setV_updatePermissions [simp]:
  "setV v (updatePermissions k p r st) = updatePermissions k p r (setV v st)"
  by (simp add: updatePermissions_def Let_def)

lemma setV_dropRequestOf [simp]: "setV v (dropRequestOf k st) = dropRequestOf k (setV v st)"
  by (simp add: dropRequestOf_def split: option.split)

section \<open>Validators\<close>

text \<open>A validator answers nil without validation and otherwise does not look at the mode.\<close>

lemma validateRemovals_mode [simp]:
  "validateRemovals C (setV v st) a ids seen = validateRemovals C st a ids seen"
  by (induction ids arbitrary: seen) (simp_all add: Let_def split: option.split)

lemma validateAccountAdd_mode [simp]:
  "validateAccountAdd C (setV v st) = validateAccountAdd C st"
  unfolding validateAccountAdd_def setV_queries ..

lemma guard_weaker:
  "(b' \<longrightarrow> b) \<Longrightarrow> (if \<not> b then None else x) = None \<Longrightarrow> (if \<not> b' then None else x) = None"
  by auto

lemma validateReadKeyChange_weaker:
  "weaker v v' \<Longrightarrow> validateReadKeyChange C (setV v st) chp rem = None \<Longrightarrow>
   validateReadKeyChange C (setV v' st) chp rem = None"
  unfolding validateReadKeyChange_def setV_select setV_queries weaker_def
  by (erule conjE, rule guard_weaker)

lemma weakerD:
  "weaker v v' \<Longrightarrow> shouldValidate v' \<longrightarrow> shouldValidate v"
  "weaker v v' \<Longrightarrow> admission v' \<longrightarrow> admission v"
  by (simp_all add: weaker_def)

lemma validators_mode:
  assumes w: "weaker v v'"
  shows "ValidateOwnershipChange C (setV v st) c1 a = None \<Longrightarrow> ValidateOwnershipChange C (setV v' st) c1 a = None"
    and "ValidateAccountsAdd C (setV v st) c2 a = None \<Longrightarrow> ValidateAccountsAdd C (setV v' st) c2 a = None"
    and "ValidateInviteJoin C (setV v st) c3 a = None \<Longrightarrow> ValidateInviteJoin C (setV v' st) c3 a = None"
    and "ValidatePermissionChange C (setV v st) c4 a = None \<Longrightarrow> ValidatePermissionChange C (setV v' st) c4 a = None"
    and "ValidateInvite C (setV v st) c5 a = None \<Longrightarrow> ValidateInvite C (setV v' st) c5 a = None"
    and "ValidateInviteChange (setV v st) c6 a = None \<Longrightarrow> ValidateInviteChange (setV v' st) c6 a = None"
    and "ValidateInviteRevoke (setV v st) i a = None \<Longrightarrow> ValidateInviteRevoke (setV v' st) i a = None"
    and "ValidateRequestJoin C (setV v st) c7 a = None \<Longrightarrow> ValidateRequestJoin C (setV v' st) c7 a = None"
    and "ValidateRequestAccept C (setV v st) c8 a = None \<Longrightarrow> ValidateRequestAccept C (setV v' st) c8 a = None"
    and "ValidateRequestDecline (setV v st) i a = None \<Longrightarrow> ValidateRequestDecline (setV v' st) i a = None"
    and "ValidateRequestCancel (setV v st) i a = None \<Longrightarrow> ValidateRequestCancel (setV v' st) i a = None"
    and "ValidateRequestRemove (setV v st) a = None \<Longrightarrow> ValidateRequestRemove (setV v' st) a = None"
    and "ValidateSpaceOptionsChange (setV v st) a = None \<Longrightarrow> ValidateSpaceOptionsChange (setV v' st) a = None"
    and "ValidateAclData (setV v st) cs = None \<Longrightarrow> ValidateAclData (setV v' st) cs = None"
    and "ValidateUnexpectedContent (setV v st) = None \<Longrightarrow> ValidateUnexpectedContent (setV v' st) = None"
  unfolding ValidateAclData_def ValidateUnexpectedContent_def validator_defs
    setV_queries setV_select validateAccountAdd_mode
  by (rule guard_weaker[OF weakerD(1)[OF w]] guard_weaker[OF weakerD(2)[OF w]], assumption)+

lemma ValidateReadKeyChange_mode:
  "weaker v v' \<Longrightarrow> ValidateReadKeyChange C (setV v st) ch a = None \<Longrightarrow>
   ValidateReadKeyChange C (setV v' st) ch a = None"
  using validateReadKeyChange_weaker[of v v' C st "Some ch" "[]"]
  unfolding ValidateReadKeyChange_def setV_queries weaker_def by (auto split: if_split_asm)

lemma ValidateAccountRemove_mode:
  "weaker v v' \<Longrightarrow> ValidateAccountRemove C (setV v st) ch a = None \<Longrightarrow>
   ValidateAccountRemove C (setV v' st) ch a = None"
  using validateReadKeyChange_weaker[of v v' C st]
  unfolding ValidateAccountRemove_def setV_queries weaker_def validateRemovals_mode
  by (auto split: if_split_asm sum.splits)

lemmas all_validators_mode = validators_mode ValidateReadKeyChange_mode ValidateAccountRemove_mode

section \<open>Operations\<close>

definition modeStep :: "(AclState \<Rightarrow> acl_error + AclState) \<Rightarrow> bool" where
  "modeStep f \<longleftrightarrow> (\<forall>v v' st st'. weaker v v' \<longrightarrow> f (setV v st) = Inr st' \<longrightarrow>
     f (setV v' st) = Inr (setV v' st'))"

lemma modeStepD: "modeStep f \<Longrightarrow> weaker v v' \<Longrightarrow> f (setV v st) = Inr st' \<Longrightarrow> f (setV v' st) = Inr (setV v' st')"
  by (simp add: modeStep_def)

lemma modeStep_rfold:
  assumes "\<And>x. modeStep (f x)"
  shows "modeStep (rfold f xs)"
  unfolding modeStep_def
proof (intro allI impI)
  fix v v' st st'
  assume w: "weaker v v'"
  show "rfold f xs (setV v st) = Inr st' \<Longrightarrow> rfold f xs (setV v' st) = Inr (setV v' st')"
  proof (induction xs arbitrary: st)
    case (Cons x xs)
    then obtain st1 where "f x (setV v st) = Inr st1" and run: "rfold f xs st1 = Inr st'"
      by (auto simp: result_simps)
    then have f: "f x (setV v' st) = Inr (setV v' st1)" "f x (setV v st) = Inr (setV v st1)"
      using modeStepD[OF assms w, of x st st1] modeStepD[OF assms, of v v x st st1]
      by (simp_all add: weaker_def)
    with \<open>f x (setV v st) = Inr st1\<close> have "st1 = setV v st1"
      by simp
    with Cons.IH[of st1] run f(1) show ?case
      by simp
  qed auto
qed

lemma unpackAllKeys_mode: "modeStep (unpackAllKeys C e)"
  by (auto simp: modeStep_def unpackAllKeys_def result_simps split: option.splits)

lemma unpackIfMe_mode: "modeStep (unpackIfMe C i e)"
  using unpackAllKeys_mode by (auto simp: modeStep_def unpackIfMe_def result_simps)

lemma addAccount_mode: "modeStep (addAccount C r acc)"
  unfolding modeStep_def
  by (auto simp: addAccount_def result_simps Let_def simp flip: setV_update dest: modeStepD[OF unpackIfMe_mode])

lemma applyPermissionChange_mode: "modeStep (applyPermissionChange C r ch)"
  by (auto simp: modeStep_def applyPermissionChange_def result_simps dest: all_validators_mode)

lemma applyOwnershipChange_mode: "modeStep (applyOwnershipChange C ch r)"
  by (auto simp: modeStep_def applyOwnershipChange_def result_simps Let_def dest: all_validators_mode)

lemma applyInviteChange_mode: "modeStep (applyInviteChange ch r)"
  by (auto simp: modeStep_def applyInviteChange_def result_simps dest: all_validators_mode
      split: option.splits)

lemma applyInvite_mode: "modeStep (applyInvite C ch r)"
  by (auto simp: modeStep_def applyInvite_def result_simps dest: all_validators_mode)

lemma applyInviteRevoke_mode: "modeStep (applyInviteRevoke i r)"
  by (auto simp: modeStep_def applyInviteRevoke_def result_simps dest: all_validators_mode)

lemma applyRequestJoin_mode: "modeStep (applyRequestJoin C ch r)"
  by (auto simp: modeStep_def applyRequestJoin_def result_simps Let_def dest: all_validators_mode)

lemma applyAccountsAdd_mode: "modeStep (applyAccountsAdd C as r)"
  using modeStepD[OF modeStep_rfold[OF addAccount_mode]]
  by (auto simp: modeStep_def applyAccountsAdd_def result_simps dest: all_validators_mode)

lemma applyPermissionChanges_mode: "modeStep (applyPermissionChanges C chs r)"
  using modeStep_rfold[OF applyPermissionChange_mode] by (simp add: applyPermissionChanges_def[abs_def])

lemma extendedHistory_setV [simp]: "extendedHistory (setV v st) k p r = extendedHistory st k p r"
  by (simp add: extendedHistory_def)

lemma modeStepI:
  "(\<And>v v' st st'. weaker v v' \<Longrightarrow> f (setV v st) = Inr st' \<Longrightarrow> f (setV v' st) = Inr (setV v' st')) \<Longrightarrow>
   modeStep f"
  by (simp add: modeStep_def)

lemma applyRequestAccept_mode: "modeStep (applyRequestAccept C ch r)"
proof (rule modeStepI)
  fix v v' st st'
  assume "weaker v v'" and "applyRequestAccept C ch r (setV v st) = Inr st'"
  then show "applyRequestAccept C ch r (setV v' st) = Inr (setV v' st')"
    by (cases "mget (requestRecords st) (ra_requestRecordId ch)")
      (auto simp: applyRequestAccept_def result_simps Let_def
        simp flip: setV_update dest: modeStepD[OF unpackIfMe_mode] all_validators_mode)
qed

lemma applyInviteJoinWithoutApprove_mode: "modeStep (applyInviteJoinWithoutApprove C ch r)"
proof (rule modeStepI)
  fix v v' st st'
  assume "weaker v v'" and "applyInviteJoinWithoutApprove C ch r (setV v st) = Inr st'"
  then show "applyInviteJoinWithoutApprove C ch r (setV v' st) = Inr (setV v' st')"
    by (cases "mget (invites st) (ij_inviteRecordId ch)")
      (auto simp: applyInviteJoinWithoutApprove_def result_simps Let_def
        simp flip: setV_update setV_dropRequestOf
        dest: modeStepD[OF unpackIfMe_mode] all_validators_mode)
qed

lemma applyRequestDecline_mode: "modeStep (applyRequestDecline i r)"
  by (auto simp: modeStep_def applyRequestDecline_def result_simps Let_def
      dest: all_validators_mode split: option.splits)

lemma applyRequestCancel_mode: "modeStep (applyRequestCancel i r)"
  by (auto simp: modeStep_def applyRequestCancel_def result_simps Let_def
      dest: all_validators_mode split: option.splits)

lemma applySpaceOptionsChange_mode: "modeStep (applySpaceOptionsChange opts r)"
  by (auto simp: modeStep_def applySpaceOptionsChange_def result_simps dest: all_validators_mode)

lemma applyRequestRemove_mode: "modeStep (applyRequestRemove r)"
proof (rule modeStepI)
  fix v v' st st'
  assume "weaker v v'" and "applyRequestRemove r (setV v st) = Inr st'"
  then show "applyRequestRemove r (setV v' st) = Inr (setV v' st')"
    by (cases "mget (accountStates st) (rec_Identity r)")
      (auto simp: applyRequestRemove_def getAccount_def result_simps Let_def
        dest: all_validators_mode split: if_split_asm)
qed

lemma modeStep_commute:
  assumes "\<And>v st. f (setV v st) = rbind (f st) (\<lambda>s. Inr (setV v s))"
  shows "modeStep f"
  by (rule modeStepI) (auto simp: assms result_simps)

lemma removeAccount_mode: "modeStep (removeAccount C r raw)"
proof (rule modeStep_commute)
  fix v st
  show "removeAccount C r raw (setV v st) = rbind (removeAccount C r raw st) (\<lambda>s. Inr (setV v s))"
    by (cases "pubKeyFromProto C raw")
      (simp_all add: removeAccount_def Let_def split: option.split)
qed

lemma ourReadKey_mode [simp]: "ourReadKey C (setV v st) ks found = ourReadKey C st ks found"
  by (induction ks arbitrary: found) (simp_all split: option.split)

lemma updateInviteKey_mode: "modeStep (updateInviteKey C e)"
proof (rule modeStep_commute)
  fix v st
  show "updateInviteKey C e (setV v st) = rbind (updateInviteKey C e st) (\<lambda>s. Inr (setV v s))"
    by (cases "pubKeyFromProto C (ek_identity e)")
      (simp_all add: updateInviteKey_def split: option.split)
qed

lemma applyReadKeyChange_mode: "modeStep (applyReadKeyChange C chp r validate)"
proof (rule modeStepI)
  fix v v' st st'
  let ?start = "\<lambda>v. (setV v st)\<lparr>readKeyChanges := readKeyChanges st @ [rec_Id r]\<rparr>"
  assume w: "weaker v v'" and run: "applyReadKeyChange C chp r validate (setV v st) = Inr st'"
  from run obtain ch where chp: "chp = Some ch"
    by (cases chp) (simp_all add: applyReadKeyChange_def)
  let ?meta = "\<lambda>k. case k of None \<Rightarrow> Inr None
     | Some k \<Rightarrow> rbind (unmarshallDecryptPrivKey C (rk_encryptedMetadataPrivKey ch) (decryptSym C k))
                  (\<lambda>m. Inr (Some m))"
  let ?keys = "\<lambda>pk rk mk. \<lparr>ReadKey = rk, MetadataPrivKey = mk, MetadataPubKey = Some pk,
     encryptedPreviousReadKey = rk_encryptedOldReadKey ch,
     encryptedMetadataKey = rk_encryptedMetadataPrivKey ch\<rparr>"
  from run obtain pk rk st1 mk where
    v: "(if validate then ValidateReadKeyChange C (setV v st) ch (rec_Identity r) else None) = None"
    and pk: "pubKeyFromProto C (rk_metadataPubKey ch) = Some pk"
    and rk: "ourReadKey C st (rk_accountKeys ch) None = Inr rk"
    and st1: "rfold (updateInviteKey C) (rk_inviteKeys ch) (?start v) = Inr st1"
    and mk: "?meta rk = Inr mk"
    and st': "st' = st1\<lparr>st_keys := mput (rec_Id r) (?keys pk rk mk) (st_keys st1)\<rparr>"
    unfolding chp applyReadKeyChange_def option.case(2) guard_err_Inr rbind_eq_Inr of_opt_Inr
      ourReadKey_mode setV_select sum.inject by blast
  have "rfold (updateInviteKey C) (rk_inviteKeys ch) (?start v') = Inr (setV v' st1)"
    using modeStepD[OF modeStep_rfold[where f = "updateInviteKey C", OF updateInviteKey_mode] w,
        where st = "st\<lparr>readKeyChanges := readKeyChanges st @ [rec_Id r]\<rparr>"] st1
    by simp
  moreover have "(if validate then ValidateReadKeyChange C (setV v' st) ch (rec_Identity r) else None) = None"
    using v w by (auto dest: ValidateReadKeyChange_mode split: if_split_asm)
  ultimately show "applyReadKeyChange C chp r validate (setV v' st) = Inr (setV v' st')"
    using pk rk mk by (simp add: chp applyReadKeyChange_def st')
qed

lemma applyAccountRemove_mode: "modeStep (applyAccountRemove C ch r)"
proof (rule modeStepI)
  fix v v' st st'
  assume w: "weaker v v'" and "applyAccountRemove C ch r (setV v st) = Inr st'"
  then obtain st1 where val: "ValidateAccountRemove C (setV v st) ch (rec_Identity r) = None"
    and st1: "rfold (removeAccount C r) (ar_identities ch) (setV v st) = Inr st1"
    and run: "applyReadKeyChange C (ar_readKeyChange ch) r False st1 = Inr st'"
    by (auto simp: applyAccountRemove_def result_simps)
  have self: "weaker v v"
    by (simp add: weaker_def)
  note fold = modeStepD[OF modeStep_rfold[where f = "removeAccount C r", OF removeAccount_mode]]
  have "setV v st1 = st1"
    using fold[OF self st1] st1 by simp
  with run have "applyReadKeyChange C (ar_readKeyChange ch) r False (setV v st1) = Inr st'"
    by simp
  from modeStepD[OF applyReadKeyChange_mode w this] fold[OF w st1] ValidateAccountRemove_mode[OF w val]
  show "applyAccountRemove C ch r (setV v' st) = Inr (setV v' st')"
    by (simp add: applyAccountRemove_def)
qed

lemma applyUnexpected_mode: "modeStep (\<lambda>st. guard_err (ValidateUnexpectedContent st) (Inr st))"
  by (rule modeStepI) (auto simp: guard_err_Inr dest: all_validators_mode)

lemma applyChangeContent_mode: "modeStep (applyChangeContent C r c)"
  unfolding applyChangeContent_def
  by (cases c) (simp_all add: applyOwnershipChange_mode applyInviteChange_mode
      applyInviteJoinWithoutApprove_mode applyPermissionChange_mode applyInvite_mode
      applyInviteRevoke_mode applyRequestJoin_mode applyRequestAccept_mode applyRequestDecline_mode
      applyRequestCancel_mode applyAccountRemove_mode applyReadKeyChange_mode applyRequestRemove_mode
      applyAccountsAdd_mode applyPermissionChanges_mode applySpaceOptionsChange_mode
      applyUnexpected_mode)

lemma ApplyRecord_mode: "modeStep (ApplyRecord C r)"
proof (rule modeStepI)
  fix v v' st st'
  assume w: "weaker v v'" and "ApplyRecord C r (setV v st) = Inr st'"
  then show "ApplyRecord C r (setV v' st) = Inr (setV v' st')"
    using modeStepD[OF modeStep_rfold[where f = "applyChangeContent C r", OF applyChangeContent_mode] w]
    by (auto simp: ApplyRecord_Inr dest: all_validators_mode)
qed

end
