(* ===== verification/AclList.thy ===== *)
theory AclList
  imports AclInvariants
begin

text \<open>
  The ACL list: record verification and decoding (\<open>recordverifier\<close>, the unmarshalling half of
  \<open>aclrecordbuilder.go\<close>, \<open>cidutil\<close>), building a state from records (\<open>aclstatebuilder.go\<close>),
  storage (\<open>inmemorystorage.go\<close>) and the list itself (\<open>list.go\<close>).

  \<open>Storage\<close> is an interface with two implementations, so the list takes its operations as a
  record \<open>StorageOps\<close>; \<open>GetAfterOrder\<close> and \<open>GetBeforeOrder\<close> give the records in the order the
  iterator sees them. Generated protobuf decoders and the multihash are fields of \<open>codec\<close>.
\<close>

section \<open>Raw records\<close>

record RawRecordWithId =
  rw_Payload :: bytes
  rw_Id :: string

record RawRecord =
  raw_Payload :: bytes
  raw_Signature :: bytes
  raw_AcceptorIdentity :: bytes
  raw_AcceptorSignature :: bytes

record ConsensusRecord =
  cr_PrevId :: string
  cr_Identity :: bytes
  cr_Data :: bytes

record codec =
  unmarshalRawRecord :: "bytes \<Rightarrow> RawRecord option"
  unmarshalRecord :: "bytes \<Rightarrow> ConsensusRecord option"
  unmarshalAclRoot :: "bytes \<Rightarrow> (bytes \<times> AclRoot) option"
  unmarshalEd25519PublicKey :: "bytes \<Rightarrow> pubkey option"
  keepIdentityFast :: "bytes \<Rightarrow> (bytes \<Rightarrow> bool) \<Rightarrow> AclContentValue list option"
  cidOfBytes :: "bytes \<Rightarrow> string option"

definition NewCidFromBytes :: "codec \<Rightarrow> bytes \<Rightarrow> acl_error + string" where
  "NewCidFromBytes K data = of_opt ErrIncorrectCID (cidOfBytes K data)"

definition VerifyCid :: "codec \<Rightarrow> bytes \<Rightarrow> string \<Rightarrow> bool" where
  "VerifyCid K data i = (case cidOfBytes K data of None \<Rightarrow> False | Some c \<Rightarrow> c = i)"

section \<open>Acceptor verification (recordverifier)\<close>

datatype AcceptorVerifier = ValidateFull | NetworkVerifier "pubkey option"

fun verifierShouldValidate :: "AcceptorVerifier \<Rightarrow> bool" where
  "verifierShouldValidate ValidateFull = True"
| "verifierShouldValidate (NetworkVerifier _) = False"

fun VerifyAcceptor ::
    "crypto \<Rightarrow> codec \<Rightarrow> AcceptorVerifier \<Rightarrow> RawRecord \<Rightarrow> acl_error option" where
  "VerifyAcceptor C K ValidateFull rec = None"
| "VerifyAcceptor C K (NetworkVerifier networkKey) rec =
     (let identity = (case pubKeyFromProto C (raw_AcceptorIdentity rec) of
            Some pk \<Rightarrow> Some pk
          | None \<Rightarrow> unmarshalEd25519PublicKey K (raw_AcceptorIdentity rec))
      in case identity of
           None \<Rightarrow> Some ErrKey
         | Some pk \<Rightarrow>
             if networkKey = None \<or> pk \<noteq> the networkKey then Some ErrIncorrectIdentity
             else if \<not> verify C pk (raw_Payload rec) (raw_AcceptorSignature rec)
               then Some ErrInvalidSignature
             else None)"

section \<open>Decoding records (aclrecordbuilder.go, keepidentity.go)\<close>

text \<open>The record builder: the list id, the account's signing key (nil without keys), the verifier.\<close>

record aclRecordBuilder =
  rb_id :: string
  rb_signKey :: "privkey option"
  rb_verifier :: AcceptorVerifier

definition ourIdentity :: "crypto \<Rightarrow> aclRecordBuilder \<Rightarrow> bytes option" where
  "ourIdentity C b = map_option (\<lambda>k. marshallPub C (getPublic C k)) (rb_signKey b)"

definition isOurIdentity :: "crypto \<Rightarrow> aclRecordBuilder \<Rightarrow> bytes \<Rightarrow> bool" where
  "isOurIdentity C b identity =
     (if identity = bytes_of (ourIdentity C b) then True
      else (case (pubKeyFromProto C identity, rb_signKey b) of
          (Some pk, Some key) \<Rightarrow> getPublic C key = pk
        | _ \<Rightarrow> False))"

definition filterAccountKeys ::
    "AclEncryptedReadKey list \<Rightarrow> (bytes \<Rightarrow> bool) \<Rightarrow> AclEncryptedReadKey list" where
  "filterAccountKeys keys isOurs = filter (\<lambda>k. isOurs (ek_identity k)) keys"

definition filterReadKeyChange :: "(bytes \<Rightarrow> bool) \<Rightarrow> AclReadKeyChange \<Rightarrow> AclReadKeyChange" where
  "filterReadKeyChange isOurs rkc =
     rkc\<lparr>rk_accountKeys := filterAccountKeys (rk_accountKeys rkc) isOurs\<rparr>"

definition filterContent :: "(bytes \<Rightarrow> bool) \<Rightarrow> AclContentValue \<Rightarrow> AclContentValue" where
  "filterContent isOurs c =
     (case c of
        ReadKeyChange rkc \<Rightarrow> ReadKeyChange (filterReadKeyChange isOurs rkc)
      | AccountRemove ar \<Rightarrow>
          AccountRemove (ar\<lparr>ar_readKeyChange :=
            map_option (filterReadKeyChange isOurs) (ar_readKeyChange ar)\<rparr>)
      | _ \<Rightarrow> c)"

definition fullDecodeFilter ::
    "crypto \<Rightarrow> bytes \<Rightarrow> (bytes \<Rightarrow> bool) \<Rightarrow> acl_error + AclContentValue list" where
  "fullDecodeFilter C dAtA isOurs =
     rbind (of_opt ErrUnmarshal (unmarshalAclData C dAtA)) (\<lambda>contents.
       Inr (map (filterContent isOurs) contents))"

definition unmarshalAclDataKeepIdentity ::
    "crypto \<Rightarrow> codec \<Rightarrow> bytes \<Rightarrow> (bytes \<Rightarrow> bool) \<Rightarrow> acl_error + AclContentValue list" where
  "unmarshalAclDataKeepIdentity C K dAtA isOurs =
     (case keepIdentityFast K dAtA isOurs of
        Some out \<Rightarrow> Inr out
      | None \<Rightarrow> fullDecodeFilter C dAtA isOurs)"

definition decodeAclData ::
    "crypto \<Rightarrow> codec \<Rightarrow> aclRecordBuilder \<Rightarrow> bytes \<Rightarrow> acl_error + AclContentValue list" where
  "decodeAclData C K b data =
     (if ourIdentity C b \<noteq> None \<and> \<not> verifierShouldValidate (rb_verifier b)
      then unmarshalAclDataKeepIdentity C K data (isOurIdentity C b)
      else of_opt ErrUnmarshal (unmarshalAclData C data))"

definition verifyRaw ::
    "crypto \<Rightarrow> codec \<Rightarrow> pubkey \<Rightarrow> RawRecord \<Rightarrow> RawRecordWithId \<Rightarrow> acl_error option" where
  "verifyRaw C K pubKey rawRec recWithId =
     (if \<not> verify C pubKey (raw_Payload rawRec) (raw_Signature rawRec) then Some ErrInvalidSignature
      else if \<not> VerifyCid K (rw_Payload recWithId) (rw_Id recWithId) then Some ErrIncorrectCID
      else None)"

definition Unmarshall ::
    "crypto \<Rightarrow> codec \<Rightarrow> RawRecord \<Rightarrow> acl_error + AclRecord" where
  "Unmarshall C K rawRecord =
     rbind (of_opt ErrUnmarshal (unmarshalRecord K (raw_Payload rawRecord))) (\<lambda>aclRecord.
     rbind (of_opt ErrKey (pubKeyFromProto C (cr_Identity aclRecord))) (\<lambda>pubKey.
     rbind (of_opt ErrUnmarshal (unmarshalAclData C (cr_Data aclRecord))) (\<lambda>aclData.
     if \<not> verify C pubKey (raw_Payload rawRecord) (raw_Signature rawRecord)
       then Inl ErrInvalidSignature
     else rbind (NewCidFromBytes K (raw_Payload rawRecord)) (\<lambda>i.
       Inr \<lparr>rec_Id = i, rec_PrevId = cr_PrevId aclRecord, rec_Data = cr_Data aclRecord,
            rec_Identity = pubKey, rec_Model = Some (AclData aclData)\<rparr>))))"

definition UnmarshallWithId ::
    "crypto \<Rightarrow> codec \<Rightarrow> aclRecordBuilder \<Rightarrow> RawRecordWithId \<Rightarrow> acl_error + AclRecord" where
  "UnmarshallWithId C K b rawIdRecord =
     rbind (of_opt ErrUnmarshal (unmarshalRawRecord K (rw_Payload rawIdRecord))) (\<lambda>rawRec.
     rbind (if rw_Id rawIdRecord = rb_id b then
          rbind (of_opt ErrUnmarshal (unmarshalAclRoot K (raw_Payload rawRec))) (\<lambda>(identity, aclRoot).
          rbind (of_opt ErrKey (pubKeyFromProto C identity)) (\<lambda>pubKey.
            Inr \<lparr>rec_Id = rw_Id rawIdRecord, rec_PrevId = [], rec_Data = [],
                 rec_Identity = pubKey, rec_Model = Some (AclRootModel aclRoot)\<rparr>))
        else
          guard_err (VerifyAcceptor C K (rb_verifier b) rawRec)
          (rbind (of_opt ErrUnmarshal (unmarshalRecord K (raw_Payload rawRec))) (\<lambda>aclRecord.
           rbind (of_opt ErrKey (pubKeyFromProto C (cr_Identity aclRecord))) (\<lambda>pubKey.
           rbind (decodeAclData C K b (cr_Data aclRecord)) (\<lambda>aclData.
             Inr \<lparr>rec_Id = rw_Id rawIdRecord, rec_PrevId = cr_PrevId aclRecord,
                  rec_Data = cr_Data aclRecord, rec_Identity = pubKey,
                  rec_Model = Some (AclData aclData)\<rparr>))))) (\<lambda>rec.
       guard_err (verifyRaw C K (rec_Identity rec) rawRec rawIdRecord) (Inr rec)))"

definition unmarshalForState ::
    "crypto \<Rightarrow> codec \<Rightarrow> aclRecordBuilder \<Rightarrow> RawRecordWithId \<Rightarrow> acl_error + AclRecord" where
  "unmarshalForState C K b raw =
     rbind (UnmarshallWithId C K b raw) (\<lambda>record'. Inr (record'\<lparr>rec_Data := []\<rparr>))"

section \<open>Building states (aclstatebuilder.go)\<close>

definition Append ::
    "crypto \<Rightarrow> AclState \<Rightarrow> AclRecord list \<Rightarrow> acl_error + AclState" where
  "Append C state records = rfold (ApplyRecord C) records state"

definition Build ::
    "crypto \<Rightarrow> privkey option \<Rightarrow> bool \<Rightarrow> AclRecord list \<Rightarrow> acl_error + AclState" where
  "Build C privKey sv records =
     (case records of
        [] \<Rightarrow> Inl ErrIncorrectRecordSequence
      | root # rest \<Rightarrow>
          rbind (case privKey of
               Some key \<Rightarrow> newAclStateWithKeys C root key sv
             | None \<Rightarrow> newAclState C root sv) (rfold (ApplyRecord C) rest))"

section \<open>Storage (storage.go, inmemorystorage.go)\<close>

record StorageRecord =
  sr_RawRecord :: bytes
  sr_PrevId :: string
  sr_Id :: string
  sr_Order :: nat
  sr_ChangeSize :: nat

definition srRawRecordWithId :: "StorageRecord \<Rightarrow> RawRecordWithId" where
  "srRawRecordWithId c = \<lparr>rw_Payload = sr_RawRecord c, rw_Id = sr_Id c\<rparr>"

record 's StorageOps =
  so_Id :: "'s \<Rightarrow> string"
  so_Root :: "'s \<Rightarrow> acl_error + StorageRecord"
  so_Head :: "'s \<Rightarrow> acl_error + string"
  so_Get :: "'s \<Rightarrow> string \<Rightarrow> acl_error + StorageRecord"
  so_GetAfterOrder :: "'s \<Rightarrow> nat \<Rightarrow> acl_error + StorageRecord list"
  so_GetBeforeOrder :: "'s \<Rightarrow> nat \<Rightarrow> acl_error + StorageRecord list"
  so_AddAll :: "StorageRecord list \<Rightarrow> 's \<Rightarrow> acl_error + 's"

record inMemoryStorage =
  ms_id :: string
  ms_root :: StorageRecord
  ms_head :: string
  ms_recordsToIndex :: "(string, nat) gomap"
  ms_records :: "StorageRecord list"

fun storageRecords :: "string \<Rightarrow> nat \<Rightarrow> RawRecordWithId list \<Rightarrow> StorageRecord list" where
  "storageRecords prevId order [] = []"
| "storageRecords prevId order (rec # rest) =
     \<lparr>sr_RawRecord = rw_Payload rec, sr_PrevId = prevId, sr_Id = rw_Id rec, sr_Order = order,
      sr_ChangeSize = length (rw_Payload rec)\<rparr> # storageRecords (rw_Id rec) (order + 1) rest"

fun indexFrom :: "nat \<Rightarrow> string list \<Rightarrow> (string, nat) gomap \<Rightarrow> (string, nat) gomap" where
  "indexFrom n [] m = m"
| "indexFrom n (i # is) m = indexFrom (n + 1) is (mput i n m)"

definition NewInMemoryStorage :: "RawRecordWithId list \<Rightarrow> acl_error + inMemoryStorage" where
  "NewInMemoryStorage records =
     (if records = [] then Inl ErrStorage
      else (let srs = storageRecords [] 1 records
        in Inr \<lparr>ms_id = sr_Id (hd srs), ms_root = hd srs, ms_head = rw_Id (last records),
                ms_recordsToIndex = indexFrom 0 (map rw_Id records) [], ms_records = srs\<rparr>))"

definition msGet :: "inMemoryStorage \<Rightarrow> string \<Rightarrow> acl_error + StorageRecord" where
  "msGet t i =
     (case mget (ms_recordsToIndex t) i of
        Some idx \<Rightarrow> Inr (ms_records t ! idx)
      | None \<Rightarrow> Inl ErrNoSuchRecord)"

definition msGetAfterOrder :: "inMemoryStorage \<Rightarrow> nat \<Rightarrow> acl_error + StorageRecord list" where
  "msGetAfterOrder t order =
     (if order > length (ms_records t) \<or> order < 1 then Inr []
      else Inr (drop (order - 1) (ms_records t)))"

definition msGetBeforeOrder :: "inMemoryStorage \<Rightarrow> nat \<Rightarrow> acl_error + StorageRecord list" where
  "msGetBeforeOrder t order =
     (if order > length (ms_records t) \<or> order < 1 then Inr []
      else Inr (take order (ms_records t)))"

definition msAddAll ::
    "StorageRecord list \<Rightarrow> inMemoryStorage \<Rightarrow> acl_error + inMemoryStorage" where
  "msAddAll recs t =
     (if recs = [] then Inl PanicIndexOutOfRange
      else Inr (t\<lparr>ms_records := ms_records t @ recs,
                  ms_recordsToIndex := indexFrom (length (ms_records t)) (map sr_Id recs)
                    (ms_recordsToIndex t),
                  ms_head := sr_Id (last recs)\<rparr>))"

definition memOps :: "inMemoryStorage StorageOps" where
  "memOps = \<lparr>so_Id = ms_id, so_Root = \<lambda>t. Inr (ms_root t), so_Head = \<lambda>t. Inr (ms_head t),
     so_Get = msGet, so_GetAfterOrder = msGetAfterOrder, so_GetBeforeOrder = msGetBeforeOrder,
     so_AddAll = msAddAll\<rparr>"

section \<open>Loading (list.go)\<close>

definition loadRecordsByScan ::
    "crypto \<Rightarrow> codec \<Rightarrow> aclRecordBuilder \<Rightarrow> 's StorageOps \<Rightarrow> 's \<Rightarrow> acl_error + AclRecord list" where
  "loadRecordsByScan C K b S s =
     rbind (so_GetAfterOrder S s 1) (rmap (\<lambda>sr. unmarshalForState C K b (srRawRecordWithId sr)))"

text \<open>
  The walk from the head to the root; \<open>acc\<close> is the reversed list of the records read so far. The
  loop ends only at a record without a previous id, so it is partial: \<open>None\<close> is a walk that does
  not end.
\<close>

partial_function (option) walkPrevIds ::
    "crypto \<Rightarrow> codec \<Rightarrow> aclRecordBuilder \<Rightarrow> 's StorageOps \<Rightarrow> 's \<Rightarrow> string \<Rightarrow> AclRecord list
      \<Rightarrow> (acl_error + AclRecord list) option" where
  "walkPrevIds C K b S s i acc =
     (case rbind (so_Get S s i) (\<lambda>sr. unmarshalForState C K b (srRawRecordWithId sr)) of
        Inl e \<Rightarrow> Some (Inl e)
      | Inr record' \<Rightarrow>
          if rec_PrevId record' = [] then Some (Inr (record' # acc))
          else walkPrevIds C K b S s (rec_PrevId record') (record' # acc))"

definition loadRecordsByPrevId ::
    "crypto \<Rightarrow> codec \<Rightarrow> aclRecordBuilder \<Rightarrow> 's StorageOps \<Rightarrow> 's \<Rightarrow> string
      \<Rightarrow> (acl_error + AclRecord list) option" where
  "loadRecordsByPrevId C K b S s head = walkPrevIds C K b S s head []"

fun prevIdsMatch :: "AclRecord list \<Rightarrow> bool" where
  "prevIdsMatch (r1 # r2 # rest) = (rec_PrevId r2 = rec_Id r1 \<and> prevIdsMatch (r2 # rest))"
| "prevIdsMatch _ = True"

definition isContiguousChain :: "AclRecord list \<Rightarrow> string \<Rightarrow> string \<Rightarrow> bool" where
  "isContiguousChain records rootId head =
     (if records = [] \<or> rec_Id (hd records) \<noteq> rootId \<or> rec_Id (last records) \<noteq> head then False
      else prevIdsMatch records)"

definition loadRecords ::
    "crypto \<Rightarrow> codec \<Rightarrow> aclRecordBuilder \<Rightarrow> 's StorageOps \<Rightarrow> 's \<Rightarrow> string \<Rightarrow> string
      \<Rightarrow> (acl_error + AclRecord list) option" where
  "loadRecords C K b S s rootId head =
     (case loadRecordsByScan C K b S s of
        Inr records \<Rightarrow>
          if isContiguousChain records rootId head then Some (Inr records)
          else loadRecordsByPrevId C K b S s head
      | Inl _ \<Rightarrow> loadRecordsByPrevId C K b S s head)"

section \<open>The list (list.go)\<close>

record 's aclList =
  al_root :: RawRecordWithId
  al_records :: "AclRecord list"
  al_indexes :: "(string, nat) gomap"
  al_id :: string
  al_builder :: aclRecordBuilder
  al_state :: AclState
  al_storage :: 's

definition BuildAclListWithIdentity ::
    "crypto \<Rightarrow> codec \<Rightarrow> 's StorageOps \<Rightarrow> privkey \<Rightarrow> 's \<Rightarrow> AcceptorVerifier
      \<Rightarrow> (acl_error + 's aclList) option" where
  "BuildAclListWithIdentity C K S key s verifier =
     (let i = so_Id S s; b = \<lparr>rb_id = i, rb_signKey = Some key, rb_verifier = verifier\<rparr>
      in case so_Head S s of
           Inl e \<Rightarrow> Some (Inl e)
         | Inr head \<Rightarrow>
             map_option (\<lambda>loaded.
               rbind loaded (\<lambda>records.
               rbind (so_Root S s) (\<lambda>rootWithId.
               rbind (Build C (Some key) (verifierShouldValidate verifier) records) (\<lambda>state.
                 Inr \<lparr>al_root = srRawRecordWithId rootWithId, al_records = records,
                      al_indexes = indexFrom 0 (map rec_Id records) [], al_id = i,
                      al_builder = b, al_state = state, al_storage = s\<rparr>))))
             (loadRecords C K b S s i head))"

definition ValidateRawRecord ::
    "crypto \<Rightarrow> codec \<Rightarrow> 's aclList \<Rightarrow> RawRecord \<Rightarrow> (AclState \<Rightarrow> acl_error option) option
      \<Rightarrow> acl_error option" where
  "ValidateRawRecord C K a rawRec afterValid =
     err_of (rbind (Unmarshall C K rawRec) (\<lambda>record'.
       rbind (Copy (verifierShouldValidate (rb_verifier (al_builder a))) (al_state a)) (\<lambda>stateCopy.
       rbind (ApplyRecord C record'
                (stateCopy\<lparr>st_contentValidator := \<lparr>shouldValidate = True, admission = True\<rparr>\<rparr>)) (\<lambda>st.
         case afterValid of
           None \<Rightarrow> Inr ()
         | Some f \<Rightarrow> guard_err (f st) (Inr ())))))"

definition AddRawRecord ::
    "crypto \<Rightarrow> codec \<Rightarrow> 's StorageOps \<Rightarrow> RawRecordWithId \<Rightarrow> 's aclList \<Rightarrow> acl_error + 's aclList" where
  "AddRawRecord C K S rawRec a =
     (if mget (al_indexes a) (rw_Id rawRec) \<noteq> None then Inl ErrRecordAlreadyExists
      else
        rbind (unmarshalForState C K (al_builder a) rawRec) (\<lambda>record'.
        rbind (Copy (verifierShouldValidate (rb_verifier (al_builder a))) (al_state a)) (\<lambda>copyState.
        rbind (ApplyRecord C record' copyState) (\<lambda>st.
        rbind (so_AddAll S [\<lparr>sr_RawRecord = rw_Payload rawRec, sr_PrevId = rec_PrevId record',
                 sr_Id = rec_Id record', sr_Order = length (al_records a) + 1,
                 sr_ChangeSize = length (rw_Payload rawRec)\<rparr>] (al_storage a)) (\<lambda>s.
          Inr (a\<lparr>al_state := st, al_records := al_records a @ [record'],
                 al_indexes := mput (rec_Id record') (length (al_records a)) (al_indexes a),
                 al_storage := s\<rparr>))))))"

text \<open>
  \<open>AddRawRecords\<close> keeps what it added before an error, so it returns the list together with the
  error.
\<close>

fun AddRawRecords ::
    "crypto \<Rightarrow> codec \<Rightarrow> 's StorageOps \<Rightarrow> RawRecordWithId list \<Rightarrow> 's aclList
      \<Rightarrow> 's aclList \<times> acl_error option" where
  "AddRawRecords C K S [] a = (a, None)"
| "AddRawRecords C K S (rec # rest) a =
     (case AddRawRecord C K S rec a of
        Inr a' \<Rightarrow> AddRawRecords C K S rest a'
      | Inl e \<Rightarrow>
          if e \<noteq> ErrRecordAlreadyExists then (a, Some e) else AddRawRecords C K S rest a)"

section \<open>Reading the list and its state\<close>

definition IsAfter :: "'s aclList \<Rightarrow> string \<Rightarrow> string \<Rightarrow> acl_error + bool" where
  "IsAfter a first second =
     (case (mget (al_indexes a) first, mget (al_indexes a) second) of
        (Some f, Some s) \<Rightarrow> Inr (f \<ge> s)
      | _ \<Rightarrow> Inl ErrNoSuchRecord)"

definition indexOf :: "'s aclList \<Rightarrow> string \<Rightarrow> nat" where
  "indexOf a i = (case mget (al_indexes a) i of None \<Rightarrow> 0 | Some n \<Rightarrow> n)"

definition isAfterNoCheck :: "'s aclList \<Rightarrow> string \<Rightarrow> string \<Rightarrow> bool" where
  "isAfterNoCheck a first second = (indexOf a first \<ge> indexOf a second)"

definition HasHead :: "'s aclList \<Rightarrow> string \<Rightarrow> bool" where
  "HasHead a head = (mget (al_indexes a) head \<noteq> None)"

definition Head :: "'s aclList \<Rightarrow> acl_error + AclRecord" where
  "Head a = (if al_records a = [] then Inl PanicIndexOutOfRange else Inr (last (al_records a)))"

definition nthRecord :: "'s aclList \<Rightarrow> nat \<Rightarrow> acl_error + AclRecord" where
  "nthRecord a n = (if n < length (al_records a) then Inr (al_records a ! n)
                    else Inl PanicIndexOutOfRange)"

definition Get :: "'s aclList \<Rightarrow> string \<Rightarrow> acl_error + AclRecord" where
  "Get a i =
     (case mget (al_indexes a) i of None \<Rightarrow> Inl ErrNoSuchRecord | Some n \<Rightarrow> nthRecord a n)"

definition GetIndex :: "'s aclList \<Rightarrow> int \<Rightarrow> acl_error + AclRecord" where
  "GetIndex a idx =
     (if idx < 0 \<or> idx \<ge> int (length (al_records a)) then Inl ErrNoSuchRecord
      else Inr (al_records a ! nat idx))"

definition GetRecordIndex :: "'s aclList \<Rightarrow> string \<Rightarrow> int" where
  "GetRecordIndex a i = (case mget (al_indexes a) i of None \<Rightarrow> -1 | Some n \<Rightarrow> int n)"

text \<open>The records the callback of \<open>Iterate\<close> and \<open>IterateFrom\<close> sees, the one that stops it included.\<close>

fun visited :: "('a \<Rightarrow> bool) \<Rightarrow> 'a list \<Rightarrow> 'a list" where
  "visited f [] = []"
| "visited f (x # xs) = (if f x then x # visited f xs else [x])"

definition Iterate :: "'s aclList \<Rightarrow> (AclRecord \<Rightarrow> bool) \<Rightarrow> AclRecord list" where
  "Iterate a f = visited f (al_records a)"

definition IterateFrom :: "'s aclList \<Rightarrow> string \<Rightarrow> (AclRecord \<Rightarrow> bool) \<Rightarrow> AclRecord list" where
  "IterateFrom a startId f =
     (case mget (al_indexes a) startId of None \<Rightarrow> [] | Some n \<Rightarrow> visited f (drop n (al_records a)))"

definition RecordsAfter ::
    "'s StorageOps \<Rightarrow> 's aclList \<Rightarrow> string \<Rightarrow> acl_error + RawRecordWithId list" where
  "RecordsAfter S a i =
     rbind (if i = [] then Inr 1 else of_opt ErrNoSuchRecord (mget (al_indexes a) i)) (\<lambda>recIdx.
     rbind (so_GetAfterOrder S (al_storage a) recIdx) (\<lambda>srs. Inr (map srRawRecordWithId srs)))"

definition RecordsBefore ::
    "'s StorageOps \<Rightarrow> 's aclList \<Rightarrow> string \<Rightarrow> acl_error + RawRecordWithId list" where
  "RecordsBefore S a headId =
     rbind (if headId = [] then rbind (Head a) (\<lambda>r. Inr (rec_Id r)) else Inr headId) (\<lambda>headId.
     rbind (of_opt ErrNoSuchRecord (mget (al_indexes a) headId)) (\<lambda>recIdx.
     rbind (so_GetBeforeOrder S (al_storage a) recIdx) (\<lambda>srs. Inr (map srRawRecordWithId srs))))"

end
