(* ===== verification/AclQueries.thy ===== *)
theory AclQueries
  imports AclList
begin

text \<open>
  The read operations of \<open>AclState\<close> (\<open>aclstate.go\<close>). Those that compare positions of records go
  through \<open>st.list\<close>, so they take the list; the others take the state.
\<close>

section \<open>Keys\<close>

definition CurrentReadKey :: "AclState \<Rightarrow> acl_error + symkey option" where
  "CurrentReadKey st =
     rbind (CurrentReadKeyId st) (\<lambda>i.
       rbind (of_opt ErrNoReadKey (mget (st_keys st) i)) (\<lambda>curKeys. Inr (ReadKey curKeys)))"

definition CurrentMetadataKey :: "AclState \<Rightarrow> acl_error + pubkey option" where
  "CurrentMetadataKey st =
     rbind (CurrentReadKeyId st) (\<lambda>i.
       rbind (of_opt ErrNoMetadataKey (mget (st_keys st) i)) (\<lambda>curKeys.
         Inr (MetadataPubKey curKeys)))"

definition FirstMetadataKey :: "AclState \<Rightarrow> acl_error + privkey" where
  "FirstMetadataKey st =
     (case mget (st_keys st) (st_id st) of
        None \<Rightarrow> Inl ErrNoMetadataKey
      | Some firstKey \<Rightarrow> of_opt ErrNoMetadataKey (MetadataPrivKey firstKey))"

fun readKeyAt :: "(string \<Rightarrow> nat) \<Rightarrow> nat \<Rightarrow> string list \<Rightarrow> string option" where
  "readKeyAt idx n [] = None"
| "readKeyAt idx n (recId # older) = (if n \<ge> idx recId then Some recId else readKeyAt idx n older)"

definition ReadKeyForAclId :: "'s aclList \<Rightarrow> AclState \<Rightarrow> string \<Rightarrow> acl_error + string" where
  "ReadKeyForAclId a st i =
     (case mget (al_indexes a) i of
        None \<Rightarrow> Inl ErrNoSuchRecord
      | Some recIdx \<Rightarrow>
          of_opt ErrNoSuchRecord (readKeyAt (indexOf a) recIdx (rev (readKeyChanges st))))"

definition decryptReadKeyFromInviteWithoutApprove ::
    "crypto \<Rightarrow> AclState \<Rightarrow> privkey option \<Rightarrow> acl_error + symkey" where
  "decryptReadKeyFromInviteWithoutApprove C st invitePk =
     (case invitePk of
        None \<Rightarrow> Inl ErrNoReadKey
      | Some pk \<Rightarrow>
          (case find (\<lambda>(_, invite). inv_Key invite = getPublic C pk) (rangeInvites C (getPublic C pk) (invites st)) of
             None \<Rightarrow> Inl ErrNoSuchInvite
           | Some (_, invite) \<Rightarrow>
               unmarshallDecryptReadKey C (inv_encryptedReadKey invite) (decryptPriv C pk)))"

section \<open>Permissions, options and their history\<close>

fun closestChange ::
    "(string \<Rightarrow> string \<Rightarrow> bool) \<Rightarrow> string \<Rightarrow> PermissionChange list \<Rightarrow> AclPermissions" where
  "closestChange isAfter recordId [] = AclPermissionsNone"
| "closestChange isAfter recordId (c # older) =
     (if isAfter recordId (pc_RecordId c) then pc_Permission c
      else closestChange isAfter recordId older)"

definition closestPermissions ::
    "AccountState \<Rightarrow> string \<Rightarrow> (string \<Rightarrow> string \<Rightarrow> bool) \<Rightarrow> AclPermissions" where
  "closestPermissions accountState recordId isAfter =
     closestChange isAfter recordId (rev (as_PermissionChanges accountState))"

definition PermissionsAtRecord ::
    "'s aclList \<Rightarrow> AclState \<Rightarrow> string \<Rightarrow> pubkey \<Rightarrow> acl_error + AclPermissions" where
  "PermissionsAtRecord a st i pubKey =
     (if \<not> HasHead a i then Inl ErrNoSuchRecord
      else (case mget (accountStates st) (mapKeyFromPubKey pubKey) of
          None \<Rightarrow> Inl ErrNoSuchAccount
        | Some accountState \<Rightarrow> Inr (closestPermissions accountState i (isAfterNoCheck a))))"

definition HadReadPermissions :: "AclState \<Rightarrow> pubkey \<Rightarrow> bool" where
  "HadReadPermissions st identity =
     (case mget (accountStates st) (mapKeyFromPubKey identity) of
        None \<Rightarrow> False
      | Some state \<Rightarrow> list_ex (\<lambda>perm. \<not> NoPermissions (pc_Permission perm)) (as_PermissionChanges state))"

fun closestOptions ::
    "(string \<Rightarrow> string \<Rightarrow> bool) \<Rightarrow> string \<Rightarrow> OptionChange list \<Rightarrow> AclSpaceOptions option" where
  "closestOptions isAfter recordId [] = None"
| "closestOptions isAfter recordId (c # older) =
     (if isAfter recordId (oc_RecordId c) then oc_Options c
      else closestOptions isAfter recordId older)"

definition OptionsAtRecord :: "'s aclList \<Rightarrow> AclState \<Rightarrow> string \<Rightarrow> AclSpaceOptions option" where
  "OptionsAtRecord a st recordId =
     closestOptions (isAfterNoCheck a) recordId (rev (optionChanges st))"

definition CurrentOptions :: "AclState \<Rightarrow> AclSpaceOptions option" where
  "CurrentOptions st =
     (if optionChanges st = [] then None else oc_Options (last (optionChanges st)))"

section \<open>Accounts\<close>

definition CurrentAccounts :: "AclState \<Rightarrow> AccountState list" where
  "CurrentAccounts st = map snd (accountStates st)"

definition InvitesOfType :: "AclState \<Rightarrow> AclInviteType list \<Rightarrow> Invite list" where
  "InvitesOfType st types =
     filter (\<lambda>inv. \<not> (length types > 0 \<and> inv_Type inv \<notin> set types)) (map snd (invites st))"

definition InviteIds :: "AclState \<Rightarrow> string list" where
  "InviteIds st = mkeys (invites st)"

definition RequestIds :: "AclState \<Rightarrow> string list" where
  "RequestIds st = mkeys (requestRecords st)"

definition IsEmpty :: "AclState \<Rightarrow> bool" where
  "IsEmpty st =
     (let users = length (filter (\<lambda>acc. \<not> NoPermissions (as_Permissions acc)) (CurrentAccounts st))
      in users = 1 \<and> length (InvitesOfType st []) = 0 \<and> length (pendingRequests st) = 0)"

definition GetInviteIdByPrivKey :: "crypto \<Rightarrow> AclState \<Rightarrow> privkey \<Rightarrow> acl_error + string" where
  "GetInviteIdByPrivKey C st inviteKey =
     (case find (\<lambda>(_, inv). inv_Key inv = getPublic C inviteKey) (rangeInvites C (getPublic C inviteKey) (invites st)) of
        None \<Rightarrow> Inl ErrNoSuchRecord
      | Some (i, _) \<Rightarrow> Inr i)"

definition GetMetadata :: "crypto \<Rightarrow> AclState \<Rightarrow> pubkey \<Rightarrow> bool \<Rightarrow> acl_error + bytes" where
  "GetMetadata C st identity decrypt =
     (case mget (accountStates st) (mapKeyFromPubKey identity) of
        None \<Rightarrow> Inl ErrNoSuchAccount
      | Some state \<Rightarrow>
          if \<not> decrypt then Inr (as_RequestMetadata state)
          else (case MetadataPrivKey (getKeys (st_keys st) (as_KeyRecordId state)) of
              None \<Rightarrow> Inl ErrFailedToDecrypt
            | Some key \<Rightarrow> of_opt ErrFailedToDecrypt (decryptPriv C key (as_RequestMetadata state))))"

fun ownerRecordId :: "PermissionChange list \<Rightarrow> string \<Rightarrow> string" where
  "ownerRecordId [] recordId = recordId"
| "ownerRecordId (permChange # rest) recordId =
     ownerRecordId rest (if IsOwner (pc_Permission permChange) then pc_RecordId permChange else recordId)"

definition OwnerPubKeyWithRecordId :: "AclState \<Rightarrow> acl_error + (pubkey option \<times> string)" where
  "OwnerPubKeyWithRecordId st =
     (case find (\<lambda>aState. IsOwner (as_Permissions aState)) (map snd (accountStates st)) of
        None \<Rightarrow> Inl ErrOwnerNotFound
      | Some aState \<Rightarrow>
          (let recordId = ownerRecordId (as_PermissionChanges aState) []
           in Inr (as_PubKey aState, if recordId = [] then as_KeyRecordId aState else recordId)))"

definition OwnerPubKey :: "AclState \<Rightarrow> acl_error + pubkey option" where
  "OwnerPubKey st = rbind (OwnerPubKeyWithRecordId st) (\<lambda>(ownerIdentity, _). Inr ownerIdentity)"

section \<open>Requests\<close>

definition zeroRequestRecord :: RequestRecord where
  "zeroRequestRecord = \<lparr>RequestIdentity = [], rr_RequestMetadata = [], rr_KeyRecordId = [],
     rr_RecordId = [], rr_Type = RequestTypeRemove\<rparr>"

definition getRequest :: "AclState \<Rightarrow> string \<Rightarrow> RequestRecord" where
  "getRequest st r = (case mget (requestRecords st) r of None \<Rightarrow> zeroRequestRecord | Some rr \<Rightarrow> rr)"

definition decryptRequest ::
    "crypto \<Rightarrow> AclState \<Rightarrow> bool \<Rightarrow> RequestRecord \<Rightarrow> acl_error + RequestRecord" where
  "decryptRequest C st decrypt rec =
     (if \<not> decrypt then Inr rec
      else (case MetadataPrivKey (getKeys (st_keys st) (rr_KeyRecordId rec)) of
          None \<Rightarrow> Inl ErrFailedToDecrypt
        | Some key \<Rightarrow>
            rbind (of_opt ErrFailedToDecrypt (decryptPriv C key (rr_RequestMetadata rec))) (\<lambda>res.
              Inr (rec\<lparr>rr_RequestMetadata := res\<rparr>))))"

definition JoinRecords :: "crypto \<Rightarrow> AclState \<Rightarrow> bool \<Rightarrow> acl_error + RequestRecord list" where
  "JoinRecords C st decrypt =
     rmap (decryptRequest C st decrypt)
       (filter (\<lambda>rec. rr_Type rec = RequestTypeJoin)
         (map (\<lambda>(_, recId). getRequest st recId) (pendingRequests st)))"

definition Record :: "AclState \<Rightarrow> pubkey \<Rightarrow> acl_error + RequestRecord" where
  "Record st identity =
     (case mget (pendingRequests st) (mapKeyFromPubKey identity) of
        None \<Rightarrow> Inl ErrNoSuchRecord
      | Some recId \<Rightarrow> Inr (getRequest st recId))"

definition JoinRecord :: "crypto \<Rightarrow> AclState \<Rightarrow> pubkey \<Rightarrow> bool \<Rightarrow> acl_error + RequestRecord" where
  "JoinRecord C st identity decrypt =
     (case mget (pendingRequests st) (mapKeyFromPubKey identity) of
        None \<Rightarrow> Inl ErrNoSuchRecord
      | Some recId \<Rightarrow> decryptRequest C st decrypt (getRequest st recId))"

definition RemoveRecords :: "AclState \<Rightarrow> RequestRecord list" where
  "RemoveRecords st =
     filter (\<lambda>rec. rr_Type rec = RequestTypeRemove)
       (map (\<lambda>(_, recId). getRequest st recId) (pendingRequests st))"

end
