(* ===== verification/AclExamples.thy ===== *)
theory AclExamples
  imports AclQueries
begin

text \<open>
  Concrete data for the witnesses: a transparent instance of the cryptographic parameters, in which
  encrypting prefixes the key, a signature is the key followed by the message, the public key of a
  private key drops its first byte and the encoding of a key puts a \<open>K\<close> in front; and records of a
  small space with an owner \<open>o\<close> and two more accounts \<open>b\<close> and \<open>c\<close>.
\<close>

section \<open>A transparent instance of the cryptographic parameters\<close>

definition stripPrefix :: "bytes \<Rightarrow> bytes \<Rightarrow> bytes option" where
  "stripPrefix p m = (if take (length p) m = p then Some (drop (length p) m) else None)"

definition exampleCrypto :: crypto where
  "exampleCrypto = \<lparr>pubKeyFromProto = stripPrefix ''K'',
     verify = \<lambda>pk data sig. sig = pk @ data,
     decryptPriv = \<lambda>k. stripPrefix (tl k),
     decryptSym = stripPrefix,
     unmarshallAESKeyProto = Some,
     unmarshalEd25519PrivateKeyProto = Some,
     getPublic = tl,
     marshallPub = \<lambda>pk. ''K'' @ pk,
     generateSharedKey = \<lambda>a b p. Some (''s'' @ p),
     encryptSym = \<lambda>k m. Some (k @ m),
     deriveSymmetricKey = \<lambda>b p. Some (b @ p),
     unmarshalAclData = \<lambda>_. None,
     rangeRank = \<lambda>_ _ _. 0\<rparr>"

definition dataRecord :: "string \<Rightarrow> string \<Rightarrow> pubkey \<Rightarrow> AclContentValue list \<Rightarrow> AclRecord" where
  "dataRecord i prev author contents =
     \<lparr>rec_Id = i, rec_PrevId = prev, rec_Data = [], rec_Identity = author,
      rec_Model = Some (AclData contents)\<rparr>"

text \<open>The root of a space of owner \<open>o\<close>, with read key \<open>r1\<close> and metadata key \<open>sm1\<close>.\<close>

definition exampleRoot :: AclRecord where
  "exampleRoot = \<lparr>rec_Id = ''0'', rec_PrevId = [], rec_Data = [], rec_Identity = ''o'',
     rec_Model = Some (AclRootModel \<lparr>ro_encryptedReadKey = Some ''or1'', ro_metadataPubKey = ''Km1'',
       ro_encryptedMetadataPrivKey = Some ''r1sm1'', ro_encryptedOwnerMetadata = [],
       ro_oneToOneInfo = None, ro_options = None\<rparr>)\<rparr>"

definition inviteRecord :: AclRecord where
  "inviteRecord = dataRecord ''1'' ''0'' ''o'' [ContentInvite \<lparr>ai_inviteKey = ''Ki'',
     ai_inviteType = RequestToJoin, ai_permissions = AclPermissionsNone, ai_encryptedReadKey = None\<rparr>]"

definition joinRequestRecord :: AclRecord where
  "joinRequestRecord = dataRecord ''2'' ''1'' ''b'' [RequestJoin \<lparr>rj_inviteIdentity = ''Kb'',
     rj_inviteRecordId = ''1'', rj_inviteIdentitySignature = ''ib'', rj_metadata = []\<rparr>]"

definition addRecord :: AclRecord where
  "addRecord = dataRecord ''3'' ''2'' ''o'' [AccountsAdd [\<lparr>aa_identity = ''Kb'',
     aa_permissions = AclPermissionsWriter, aa_metadata = [], aa_encryptedReadKey = Some ''br1''\<rparr>]]"

definition transferRecord :: AclRecord where
  "transferRecord = dataRecord ''4'' ''3'' ''o'' [OwnershipChange \<lparr>ow_newOwnerIdentity = ''Kb'',
     ow_oldOwnerPermissions = AclPermissionsAdmin\<rparr>]"

definition acceptRecord :: AclRecord where
  "acceptRecord = dataRecord ''5'' ''4'' ''o'' [RequestAccept \<lparr>ra_identity = ''Kb'',
     ra_requestRecordId = ''2'', ra_encryptedReadKey = Some ''br1'',
     ra_permissions = AclPermissionsReader\<rparr>]"

definition stateAfter :: "AclRecord list \<Rightarrow> acl_error + AclState" where
  "stateAfter records = Build exampleCrypto (Some ''so'') True records"

definition okState :: "acl_error + AclState \<Rightarrow> AclState" where
  "okState r = (case r of Inr st \<Rightarrow> st | Inl _ \<Rightarrow> emptyAclState [] None True)"

end
