(* ===== verification/AclProperties.thy ===== *)
theory AclProperties
  imports AclAuthority AclModes AclExamples
begin

text \<open>
  The properties of ACL states and of the content operations, each with a witness on the example
  space where it has hypotheses.
\<close>

section \<open>The invariant along a log\<close>

definition exampleLog :: "AclRecord list" where
  "exampleLog = [exampleRoot, inviteRecord, joinRequestRecord, addRecord, transferRecord]"

definition requestIdsIn :: "AclState \<Rightarrow> string set \<Rightarrow> bool" where
  "requestIdsIn st ids \<longleftrightarrow> dom (mget (requestRecords st)) \<subseteq> ids"

lemma requestIdsIn_from:
  "requestsFrom record' st st' \<Longrightarrow> requestIdsIn st ids \<Longrightarrow> requestIdsIn st' (insert (rec_Id record') ids)"
  by (force simp: requestsFrom_def requestIdsIn_def)

lemma fresh_own_request:
  "requestIdsIn st ids \<Longrightarrow> rec_Id record' \<notin> ids \<Longrightarrow> own_request record' st"
  by (auto simp: requestIdsIn_def own_request_def)

lemma ApplyRecords_inv:
  "acl_inv st \<Longrightarrow> ShouldValidate st \<Longrightarrow> requestIdsIn st ids \<Longrightarrow>
   distinct (map rec_Id records) \<Longrightarrow> ids \<inter> set (map rec_Id records) = {} \<Longrightarrow>
   rfold (ApplyRecord C) records st = Inr st' \<Longrightarrow>
   acl_inv st' \<and> requestIdsIn st' (ids \<union> set (map rec_Id records))"
proof (induction records arbitrary: st ids)
  case (Cons r rs)
  from Cons.prems obtain st1 where st1: "ApplyRecord C r st = Inr st1"
    and run: "rfold (ApplyRecord C) rs st1 = Inr st'"
    by (auto simp: result_simps)
  have "own_request r st"
    using Cons.prems by (intro fresh_own_request) auto
  with Cons.prems st1 have inv1: "acl_inv st1"
    by (blast intro: ApplyRecord_inv)
  have sv1: "ShouldValidate st1"
    using Cons.prems ApplyRecord_fixed[OF st1] by (simp add: ShouldValidate_def)
  have "requestIdsIn st1 (insert (rec_Id r) ids)"
    using Cons.prems ApplyRecord_requests[OF st1] by (blast intro: requestIdsIn_from)
  with Cons.IH[OF inv1 sv1 this _ _ run] Cons.prems show ?case
    by (auto simp: requestIdsIn_def)
qed (simp add: requestIdsIn_def)

lemma Build_Inr:
  assumes "Build C key sv records = Inr st"
  obtains root rest st0 where "records = root # rest"
    and "applyRoot C root (emptyAclState (rec_Id root) key sv) = Inr st0"
    and "rfold (ApplyRecord C) rest st0 = Inr st"
  using assms
  by (auto simp: Build_def newAclState_def newAclStateWithKeys_def result_simps
      split: list.splits option.splits)

lemma Build_inv:
  assumes "Build C key True records = Inr st" and "distinct (map rec_Id records)"
  shows "acl_inv st"
  using assms(1)
proof (rule Build_Inr)
  fix root rest st0
  assume r: "records = root # rest"
    and st0: "applyRoot C root (emptyAclState (rec_Id root) key True) = Inr st0"
    and run: "rfold (ApplyRecord C) rest st0 = Inr st"
  from applyRoot_inv[OF st0] have "acl_inv st0" "ShouldValidate st0" "requestIdsIn st0 {}"
    by (simp_all add: ShouldValidate_def requestIdsIn_def)
  from ApplyRecords_inv[OF this _ _ run] assms(2) r show ?thesis
    by simp
qed

lemma exampleLog_built:
  "Build exampleCrypto (Some ''so'') True exampleLog = Inr (okState (stateAfter exampleLog))"
  by code_simp

lemma exampleLog_distinct: "distinct (map rec_Id exampleLog)"
  by code_simp

lemmas exampleLog_inv = Build_inv[OF exampleLog_built exampleLog_distinct]

text \<open>
  C1. The state built from a log with validation satisfies the ACL invariant, provided the ids of
  the records are distinct: every account is stored under its own key and its history ends with its
  current permissions, at most one account is an owner, every open invite grants a permission an
  invite may grant, requests and pending requests are inverse to each other and belong to known
  accounts, and the current read key id exists. This holds whatever the records contain and whoever
  wrote them.
\<close>

theorem built_state_invariant:
  assumes "Build C key True records = Inr st" and "distinct (map rec_Id records)"
  shows "acl_inv st"
  using assms by (rule Build_inv)

theorem built_state_invariant_witness:
  "acl_inv (okState (stateAfter exampleLog))"
  using exampleLog_built exampleLog_distinct by (rule built_state_invariant)

text \<open>
  C18. \<open>OwnerPubKey\<close> returns exactly the account with owner permissions: in every state that satisfies
  the invariant, it returns a key iff that key has owner permissions, and it fails with
  \<open>ErrOwnerNotFound\<close> iff no account has. So the answer does not depend on the order in which the
  account map is iterated.
\<close>

theorem owner_lookup:
  assumes inv: "acl_inv st"
  shows "(OwnerPubKey st = Inr (Some k) \<longleftrightarrow> IsOwner (Permissions st k))
    \<and> (OwnerPubKey st = Inl ErrOwnerNotFound \<longleftrightarrow> (\<forall>k. \<not> IsOwner (Permissions st k)))"
proof (cases "find (\<lambda>a. IsOwner (as_Permissions a)) (map snd (accountStates st))")
  case None
  then have "\<not> IsOwner (as_Permissions a)" if "mget (accountStates st) k = Some a" for k a
    using map_of_SomeD[OF that] by (force simp: find_None_iff)
  then have "\<not> IsOwner (Permissions st k)" for k
    by (auto simp: Permissions_def IsOwner_def split: option.splits)
  with None show ?thesis
    by (simp add: OwnerPubKey_def OwnerPubKeyWithRecordId_def)
next
  case (Some a)
  then obtain k0 where "(k0, a) \<in> set (accountStates st)" and own: "IsOwner (as_Permissions a)"
    by (auto simp: find_Some_iff) (metis nth_mem prod.collapse)
  with inv have k0: "mget (accountStates st) k0 = Some a"
    by (simp add: acl_inv_def accounts_ok_def gm_in_set_iff)
  have pk: "as_PubKey a = Some k0"
    using acl_inv_account_get[OF inv k0] by (simp add: account_ok_def)
  have "k = k0" if "IsOwner (Permissions st k)" for k
    using that k0 own acl_inv_one_owner[OF inv]
    by (auto simp: one_owner_def Permissions_def IsOwner_def split: option.splits)
  moreover have "IsOwner (Permissions st k0)"
    using k0 own by (simp add: Permissions_def)
  ultimately have iff: "IsOwner (Permissions st k) \<longleftrightarrow> k = k0" for k
    by blast
  have "OwnerPubKey st = Inr (Some k0)"
    using Some pk by (simp add: OwnerPubKey_def OwnerPubKeyWithRecordId_def Let_def)
  then show ?thesis
    unfolding iff by auto
qed

theorem owner_lookup_witness:
  "OwnerPubKey (okState (stateAfter exampleLog)) = Inr (Some ''b'')
   \<and> IsOwner (Permissions (okState (stateAfter exampleLog)) ''b'')"
proof -
  have "IsOwner (Permissions (okState (stateAfter exampleLog)) ''b'')"
    by code_simp
  with owner_lookup[OF exampleLog_inv, of "''b''"] show ?thesis
    by simp
qed

section \<open>Who may change permissions\<close>

text \<open>
  C3. A validated content other than an ownership transfer, a join through an open invite and an
  accepted request changes the permissions of an account only if its author may manage accounts; it
  never makes and never unmakes an owner, and it gives or takes the admin role only if its author
  is the owner.
\<close>

theorem permissions_authority:
  assumes "ShouldValidate st" and "applyChangeContent C record' c st = Inr st'"
    and "\<not> grantsDirectly c" and "Permissions st' k \<noteq> Permissions st k"
  shows "CanManageAccounts (Permissions st (rec_Identity record'))
     \<and> \<not> IsOwner (Permissions st k) \<and> \<not> IsOwner (Permissions st' k)
     \<and> (IsAdmin (Permissions st k) \<or> IsAdmin (Permissions st' k) \<longrightarrow>
          IsOwner (Permissions st (rec_Identity record')))"
  using content_authorized[OF assms(1-3)] assms(4) by (rule authorizedD)

definition stateBefore4 :: AclState where
  "stateBefore4 = okState (stateAfter [exampleRoot, inviteRecord, joinRequestRecord, addRecord])"

definition promoteContent :: AclContentValue where
  "promoteContent =
     ContentPermissionChange \<lparr>pm_identity = ''Kb'', pm_permissions = AclPermissionsAdmin\<rparr>"

theorem permissions_authority_witness:
  "IsOwner (Permissions stateBefore4 ''o'')
   \<and> (\<exists>st'. applyChangeContent exampleCrypto (dataRecord ''4'' ''3'' ''o'' []) promoteContent
          stateBefore4 = Inr st' \<and> IsAdmin (Permissions st' ''b''))"
proof -
  let ?r = "dataRecord ''4'' ''3'' ''o'' []"
  let ?st' = "okState (applyChangeContent exampleCrypto ?r promoteContent stateBefore4)"
  have "ShouldValidate stateBefore4" "\<not> grantsDirectly promoteContent"
    and run: "applyChangeContent exampleCrypto ?r promoteContent stateBefore4 = Inr ?st'"
    and "Permissions ?st' ''b'' \<noteq> Permissions stateBefore4 ''b''"
    and adm: "IsAdmin (Permissions ?st' ''b'')"
    by code_simp+
  from permissions_authority[OF this(1,3,2,4)] adm have "IsOwner (Permissions stateBefore4 ''o'')"
    by (simp add: dataRecord_def)
  with run adm show ?thesis by blast
qed

text \<open>
  C16. A validated ownership transfer is made by the owner, to another account that is active and has
  permissions, and changes exactly two accounts: the new owner becomes owner and the old one gets the
  permissions the transfer names, which are neither owner nor none.
\<close>

theorem ownership_transfer:
  assumes "ShouldValidate st" and "applyChangeContent C record' (OwnershipChange ch) st = Inr st'"
  shows "\<exists>new. pubKeyFromProto C (ow_newOwnerIdentity ch) = Some new \<and> new \<noteq> rec_Identity record'
     \<and> IsOwner (Permissions st (rec_Identity record'))
     \<and> as_Status (getAccount st new) = StatusActive \<and> \<not> NoPermissions (Permissions st new)
     \<and> Permissions st' = (Permissions st)(rec_Identity record' := ow_oldOwnerPermissions ch,
                                           new := AclPermissionsOwner)
     \<and> \<not> IsOwner (ow_oldOwnerPermissions ch) \<and> \<not> NoPermissions (ow_oldOwnerPermissions ch)"
  using assms
  by (auto simp: applyChangeContent_def applyOwnershipChange_def ValidateOwnershipChange_def
      result_simps Let_def updatePermissions_perm split: option.splits if_splits)

theorem ownership_transfer_witness:
  "\<exists>st'. applyChangeContent exampleCrypto transferRecord (OwnershipChange
       \<lparr>ow_newOwnerIdentity = ''Kb'', ow_oldOwnerPermissions = AclPermissionsAdmin\<rparr>) stateBefore4 = Inr st'
     \<and> Permissions st' ''b'' = AclPermissionsOwner \<and> Permissions st' ''o'' = AclPermissionsAdmin"
proof -
  let ?c = "OwnershipChange \<lparr>ow_newOwnerIdentity = ''Kb'', ow_oldOwnerPermissions = AclPermissionsAdmin\<rparr>"
  let ?st' = "okState (applyChangeContent exampleCrypto transferRecord ?c stateBefore4)"
  have run: "applyChangeContent exampleCrypto transferRecord ?c stateBefore4 = Inr ?st'"
    and sv: "ShouldValidate stateBefore4"
    and k: "pubKeyFromProto exampleCrypto ''Kb'' = Some ''b''" "rec_Identity transferRecord = ''o''"
    by code_simp+
  from ownership_transfer[OF sv run] run k show ?thesis
    by auto
qed

lemma ValidateInviteJoin_ok:
  assumes "ShouldValidate st" and "ValidateInviteJoin C st ch author = None"
  shows "\<exists>i. mget (invites st) (ij_inviteRecordId ch) = Some i
     \<and> inv_Type i = AnyoneCanJoin \<and> IsLessOrEqual (ij_permissions ch) (inv_Permissions i)
     \<and> verify C (inv_Key i) author (ij_inviteIdentitySignature ch)
     \<and> NoPermissions (Permissions st author) \<and> pubKeyFromProto C (ij_identity ch) = Some author"
  using assms
  by (cases "mget (invites st) (ij_inviteRecordId ch)"; cases "pubKeyFromProto C (ij_identity ch)")
    (simp_all add: ValidateInviteJoin_def split: if_split_asm)

text \<open>
  C17. Joining through an invite needs no approval, and cannot be used to gain more than the invite
  grants: in a state that satisfies the invariant a validated join is made by the joining account
  itself, which had no permissions, through an existing open invite whose key signed the account's
  identity; the account ends up with the permissions it asked for, which are at most the invite's, or
  with the invite's when it asked for none; these are never owner, guest or none, and no other
  account changes.
\<close>

theorem invite_join_bounded:
  assumes "acl_inv st" and "ShouldValidate st"
    and "applyChangeContent C record' (InviteJoin ch) st = Inr st'"
  shows "\<exists>i p. mget (invites st) (ij_inviteRecordId ch) = Some i \<and> inv_Type i = AnyoneCanJoin
     \<and> verify C (inv_Key i) (rec_Identity record') (ij_inviteIdentitySignature ch)
     \<and> NoPermissions (Permissions st (rec_Identity record'))
     \<and> Permissions st' = (Permissions st)(rec_Identity record' := p)
     \<and> p = (if NoPermissions (ij_permissions ch) then inv_Permissions i else ij_permissions ch)
     \<and> (p = inv_Permissions i \<or> IsLessOrEqual p (inv_Permissions i))
     \<and> \<not> IsOwner p \<and> \<not> IsGuest p \<and> \<not> NoPermissions p"
proof -
  let ?a = "rec_Identity record'"
  let ?p = "\<lambda>i. if NoPermissions (ij_permissions ch) then inv_Permissions i else ij_permissions ch"
  from assms(3) have run: "applyInviteJoinWithoutApprove C ch record' st = Inr st'"
    by (simp add: applyChangeContent_def)
  then have v: "ValidateInviteJoin C st ch ?a = None"
    by (simp add: applyInviteJoinWithoutApprove_def guard_err_Inr)
  from assms(2) v obtain i where i: "mget (invites st) (ij_inviteRecordId ch) = Some i"
      "inv_Type i = AnyoneCanJoin" "IsLessOrEqual (ij_permissions ch) (inv_Permissions i)"
      "verify C (inv_Key i) ?a (ij_inviteIdentitySignature ch)" "NoPermissions (Permissions st ?a)"
      "pubKeyFromProto C (ij_identity ch) = Some ?a"
    using ValidateInviteJoin_ok by blast
  have inv: "\<not> IsOwner (inv_Permissions i) \<and> \<not> NoPermissions (inv_Permissions i) \<and> \<not> IsGuest (inv_Permissions i)"
    using assms(1) i(1,2) by (simp add: acl_inv_def invites_ok_def invite_ok_def)
  have "Permissions st' = (Permissions st)(?a := ?p i)"
    using run v i(1,6)
    by (auto simp: applyInviteJoinWithoutApprove_def result_simps Let_def dropRequestOf_perm
        dest!: unpackIfMe_perm)
  moreover have "\<not> IsOwner (?p i)" "\<not> IsGuest (?p i)" "\<not> NoPermissions (?p i)"
    using inv i(3) by (cases "ij_permissions ch"; simp add: perm_defs)+
  ultimately show ?thesis
    using i by auto
qed

definition openInvite :: AclContentValue where
  "openInvite = ContentInvite \<lparr>ai_inviteKey = ''Ki'', ai_inviteType = AnyoneCanJoin,
     ai_permissions = AclPermissionsWriter, ai_encryptedReadKey = Some ''ir1''\<rparr>"

definition stateWithOpenInvite :: AclState where
  "stateWithOpenInvite = okState (stateAfter [exampleRoot, dataRecord ''1'' ''0'' ''o'' [openInvite]])"

lemma stateWithOpenInvite_inv: "acl_inv stateWithOpenInvite"
proof (rule Build_inv)
  show "Build exampleCrypto (Some ''so'') True [exampleRoot, dataRecord ''1'' ''0'' ''o'' [openInvite]]
      = Inr stateWithOpenInvite"
    by code_simp
qed code_simp

theorem invite_join_bounded_witness:
  "\<exists>st'. applyChangeContent exampleCrypto (dataRecord ''2'' ''1'' ''c'' []) (InviteJoin
      \<lparr>ij_identity = ''Kc'', ij_inviteRecordId = ''1'', ij_inviteIdentitySignature = ''ic'',
       ij_metadata = [], ij_encryptedReadKey = Some ''cr1'', ij_permissions = AclPermissionsReader\<rparr>)
      stateWithOpenInvite = Inr st'
     \<and> Permissions st' ''c'' = AclPermissionsReader"
proof -
  let ?ch = "\<lparr>ij_identity = ''Kc'', ij_inviteRecordId = ''1'', ij_inviteIdentitySignature = ''ic'',
       ij_metadata = [], ij_encryptedReadKey = Some ''cr1'', ij_permissions = AclPermissionsReader\<rparr>"
  let ?r = "dataRecord ''2'' ''1'' ''c'' []"
  let ?st' = "okState (applyChangeContent exampleCrypto ?r (InviteJoin ?ch) stateWithOpenInvite)"
  have run: "applyChangeContent exampleCrypto ?r (InviteJoin ?ch) stateWithOpenInvite = Inr ?st'"
    and sv: "ShouldValidate stateWithOpenInvite"
    by code_simp+
  from invite_join_bounded[OF stateWithOpenInvite_inv sv run] run show ?thesis
    by (auto simp: dataRecord_def NoPermissions_def)
qed

text \<open>
  C20. A space can lose its owner through accepted records: \<open>RequestAccept\<close> checks neither the current
  permissions of the account nor the kind of the request. With every record validated, account
  \<open>b\<close> asks to join, is added directly while its request stays open, becomes the owner by a transfer,
  and is then demoted to reader by the former owner, now an admin, who accepts the stale request.
\<close>

theorem stale_request_demotes_owner:
  "\<exists>st st'. stateAfter exampleLog = Inr st \<and> OwnerPubKey st = Inr (Some ''b'')
     \<and> ApplyRecord exampleCrypto acceptRecord st = Inr st'
     \<and> IsAdmin (Permissions st (rec_Identity acceptRecord))
     \<and> Permissions st' ''b'' = AclPermissionsReader
     \<and> OwnerPubKey st' = Inl ErrOwnerNotFound"
proof (intro exI conjI)
  let ?st = "okState (stateAfter exampleLog)"
  let ?st' = "okState (ApplyRecord exampleCrypto acceptRecord ?st)"
  show "stateAfter exampleLog = Inr ?st" by code_simp
  show "OwnerPubKey ?st = Inr (Some ''b'')" by code_simp
  show "ApplyRecord exampleCrypto acceptRecord ?st = Inr ?st'" by code_simp
  show "IsAdmin (Permissions ?st (rec_Identity acceptRecord))" by code_simp
  show "Permissions ?st' ''b'' = AclPermissionsReader" by code_simp
  show "OwnerPubKey ?st' = Inl ErrOwnerNotFound" by code_simp
qed

section \<open>Read key changes and removals\<close>

lemma keyIdentities_Inr:
  "keyIdentities C keys = Inr us \<longleftrightarrow> map (\<lambda>k. pubKeyFromProto C (ek_identity k)) keys = map Some us"
proof (induction keys arbitrary: us)
  case (Cons k keys)
  then show ?case
    by (cases us) (auto simp: keyIdentities_def rmap_Inr_iff result_simps)
qed (auto simp: keyIdentities_def)

lemma activeUsers_eq:
  "\<forall>(k, a) \<in> set m. as_PubKey a = Some k \<Longrightarrow>
   activeUsers removed m = Inr (map fst
     (filter (\<lambda>(k, a). \<not> NoPermissions (as_Permissions a) \<and> k \<notin> set removed) m))"
proof (induction m)
  case (Cons x m)
  then show ?case
    by (cases x) (simp add: mapKeyFromNilable_def)
qed simp

lemma activeUsers_inv:
  assumes "acl_inv st"
  obtains us where "activeUsers removed (accountStates st) = Inr us" and "distinct us"
    and "set us = {k. \<not> NoPermissions (Permissions st k)} - set removed"
proof -
  let ?m = "accountStates st"
  let ?us = "map fst (filter (\<lambda>(k, a). \<not> NoPermissions (as_Permissions a) \<and> k \<notin> set removed) ?m)"
  have wf: "gm_wf ?m" and ok: "\<And>k a. mget ?m k = Some a \<Longrightarrow> account_ok k a"
    using assms by (simp_all add: acl_inv_def accounts_ok_def)
  then have "\<forall>(k, a) \<in> set ?m. as_PubKey a = Some k"
    by (auto simp: gm_in_set_iff account_ok_def)
  then have "activeUsers removed ?m = Inr ?us"
    by (rule activeUsers_eq)
  moreover have "distinct ?us"
    using wf by (simp add: gm_wf_def distinct_map_filter)
  moreover have "set ?us = {k. \<not> NoPermissions (Permissions st k)} - set removed"
    using wf by (force simp: gm_in_set_iff Permissions_def NoPermissions_def split: option.splits)
  ultimately show thesis by (rule that)
qed

lemma mset_eq_distinct:
  "distinct xs \<Longrightarrow> mset xs = mset ys \<longleftrightarrow> distinct ys \<and> set ys = set xs"
  by (metis mset_eq_imp_distinct_iff mset_eq_setD set_eq_iff_mset_eq_distinct)

lemma keys_match:
  "err_of (rbind r1 (\<lambda>us. rbind r2 (\<lambda>is.
      if length active \<noteq> length us then Inl e
      else if length activeInv \<noteq> length is then Inl e
      else if sort active \<noteq> sort us \<or> sort activeInv \<noteq> sort is then Inl e
      else Inr ()))) = None \<longleftrightarrow>
   (\<exists>us is. r1 = Inr us \<and> r2 = Inr is \<and> mset active = mset us \<and> mset activeInv = mset (is :: string list))"
  for active :: "string list"
  by (cases r1; cases r2) (auto simp: sort_eq_iff_mset dest: mset_eq_length)

lemma validateReadKeyChange_iff:
  assumes inv: "acl_inv st" and "ShouldValidate st"
  shows "validateReadKeyChange C st (Some ch) removed = None \<longleftrightarrow>
     pubKeyFromProto C (rk_metadataPubKey ch) \<noteq> None
     \<and> rk_encryptedMetadataPrivKey ch \<noteq> None \<and> rk_encryptedOldReadKey ch \<noteq> None
     \<and> (\<exists>us is. map (\<lambda>k. pubKeyFromProto C (ek_identity k)) (rk_accountKeys ch) = map Some us
          \<and> map (\<lambda>k. pubKeyFromProto C (ek_identity k)) (rk_inviteKeys ch) = map Some is
          \<and> distinct us \<and> set us = {k. \<not> NoPermissions (Permissions st k)} - set removed
          \<and> mset is = {#inv_Key i. i \<in># filter_mset (\<lambda>i. inv_Type i = AnyoneCanJoin)
                                      (mset (map snd (invites st)))#})"
proof -
  obtain active where a: "activeUsers removed (accountStates st) = Inr active" "distinct active"
    "set active = {k. \<not> NoPermissions (Permissions st k)} - set removed"
    using activeUsers_inv[OF inv] .
  have i: "mset (activeInvites (invites st)) = {#inv_Key i. i \<in># filter_mset
      (\<lambda>i. inv_Type i = AnyoneCanJoin) (mset (map snd (invites st)))#}"
    by (simp only: activeInvites_def mset_map mset_filter mapKeyFromPubKey_def)
  have "validateReadKeyChange C st (Some ch) removed = None \<longleftrightarrow>
     pubKeyFromProto C (rk_metadataPubKey ch) \<noteq> None
     \<and> rk_encryptedMetadataPrivKey ch \<noteq> None \<and> rk_encryptedOldReadKey ch \<noteq> None
     \<and> (\<exists>us is. keyIdentities C (rk_accountKeys ch) = Inr us \<and> keyIdentities C (rk_inviteKeys ch) = Inr is
          \<and> mset active = mset us \<and> mset (activeInvites (invites st)) = mset is)"
    using assms(2) keys_match[of "keyIdentities C (rk_accountKeys ch)"
        "keyIdentities C (rk_inviteKeys ch)" active ErrIncorrectNumberOfAccounts
        "activeInvites (invites st)"]
    by (simp add: validateReadKeyChange_def a(1) Let_def)
  then show ?thesis
    unfolding keyIdentities_Inr i mset_eq_distinct[OF a(2)] a(3) by metis
qed

text \<open>
  C11. A read key change is accepted exactly when it re-encrypts the key for everyone who keeps
  access and for nobody else: in a state that satisfies the invariant, the check succeeds iff the
  metadata key decodes, both encrypted keys are present, the account keys name each account with
  permissions that is not being removed exactly once and no other account, and the invite keys
  name the keys of the open invites with their multiplicities.
\<close>

theorem read_key_change_covers_members:
  assumes inv: "acl_inv st" and "ShouldValidate st"
  shows "validateReadKeyChange C st (Some ch) removed = None \<longleftrightarrow>
     pubKeyFromProto C (rk_metadataPubKey ch) \<noteq> None
     \<and> rk_encryptedMetadataPrivKey ch \<noteq> None \<and> rk_encryptedOldReadKey ch \<noteq> None
     \<and> (\<exists>us is. map (\<lambda>k. pubKeyFromProto C (ek_identity k)) (rk_accountKeys ch) = map Some us
          \<and> map (\<lambda>k. pubKeyFromProto C (ek_identity k)) (rk_inviteKeys ch) = map Some is
          \<and> distinct us \<and> set us = {k. \<not> NoPermissions (Permissions st k)} - set removed
          \<and> mset is = {#inv_Key i. i \<in># filter_mset (\<lambda>i. inv_Type i = AnyoneCanJoin)
                                      (mset (map snd (invites st)))#})"
  using assms by (rule validateReadKeyChange_iff)

definition rotation :: AclReadKeyChange where
  "rotation = \<lparr>rk_accountKeys = [\<lparr>ek_identity = ''Kb'', ek_encryptedReadKey = Some ''br2''\<rparr>,
       \<lparr>ek_identity = ''Ko'', ek_encryptedReadKey = Some ''or2''\<rparr>],
     rk_metadataPubKey = ''Km2'', rk_encryptedMetadataPrivKey = Some ''r2sm2'',
     rk_encryptedOldReadKey = Some ''r2r1'', rk_inviteKeys = []\<rparr>"

lemma stateBefore4_inv: "acl_inv stateBefore4"
proof (rule Build_inv)
  show "Build exampleCrypto (Some ''so'') True [exampleRoot, inviteRecord, joinRequestRecord, addRecord]
      = Inr stateBefore4"
    by code_simp
qed code_simp

theorem read_key_change_covers_members_witness:
  "validateReadKeyChange exampleCrypto stateBefore4 (Some rotation) [] = None
   \<and> {k. \<not> NoPermissions (Permissions stateBefore4 k)} = {''o'', ''b''}"
proof -
  have v: "validateReadKeyChange exampleCrypto stateBefore4 (Some rotation) [] = None"
    and sv: "ShouldValidate stateBefore4"
    and ids: "map (\<lambda>k. pubKeyFromProto exampleCrypto (ek_identity k)) (rk_accountKeys rotation)
      = map Some [''b'', ''o'']"
    by code_simp+
  from read_key_change_covers_members[OF stateBefore4_inv sv, THEN iffD1, OF v] obtain us where
    us: "map Some us = map Some [''b'', ''o'']"
      "set us = {k. \<not> NoPermissions (Permissions stateBefore4 k)} - set []"
    unfolding ids by metis
  from us(1) have "us = [''b'', ''o'']"
    by (simp only: inj_map_eq_map[OF inj_Some])
  with us(2) v show ?thesis by auto
qed

lemma validateRemovals_set:
  "validateRemovals C st author ids seen = Inr seen' \<Longrightarrow>
   set seen' = set seen \<union> {k. \<exists>raw \<in> set ids. pubKeyFromProto C raw = Some k}"
  by (induction ids arbitrary: seen) (auto simp: Let_def split: option.splits if_split_asm)

text \<open>
  C10. Removing accounts rotates the read key away from them: a validated removal takes all
  permissions from exactly the accounts it names, which do not include its author or an owner, and
  carries a new read key that becomes the current one and is encrypted for exactly the accounts that
  have permissions afterwards, each once.
\<close>

theorem account_removal_rotates_key:
  assumes inv: "acl_inv st" and sv: "ShouldValidate st"
    and run: "applyChangeContent C record' (AccountRemove ch) st = Inr st'"
  shows "Permissions st' k = (if \<exists>raw \<in> set (ar_identities ch). pubKeyFromProto C raw = Some k
                              then AclPermissionsNone else Permissions st k)
    \<and> ((\<exists>raw \<in> set (ar_identities ch). pubKeyFromProto C raw = Some k) \<longrightarrow>
         k \<noteq> rec_Identity record' \<and> \<not> IsOwner (Permissions st k))
    \<and> CurrentReadKeyId st' = Inr (rec_Id record')
    \<and> (\<exists>rkc us. ar_readKeyChange ch = Some rkc
          \<and> map (\<lambda>e. pubKeyFromProto C (ek_identity e)) (rk_accountKeys rkc) = map Some us
          \<and> distinct us \<and> set us = {j. \<not> NoPermissions (Permissions st' j)})"
proof -
  let ?removed = "\<lambda>k. \<exists>raw \<in> set (ar_identities ch). pubKeyFromProto C raw = Some k"
  from run have run': "applyAccountRemove C ch record' st = Inr st'"
    by (simp add: applyChangeContent_def)
  then obtain st1 where "applyReadKeyChange C (ar_readKeyChange ch) record' False st1 = Inr st'"
    by (auto simp: applyAccountRemove_def result_simps)
  then have cur: "CurrentReadKeyId st' = Inr (rec_Id record')"
    by (rule applyReadKeyChange_frame) (simp add: CurrentReadKeyId_def)
  have perm: "Permissions st' j = (if ?removed j then AclPermissionsNone else Permissions st j)" for j
    using run' by (rule applyAccountRemove_perm)
  from run' sv obtain seen where seen:
      "validateRemovals C st (rec_Identity record') (ar_identities ch) [] = Inr seen"
    and v: "validateReadKeyChange C st (ar_readKeyChange ch) seen = None"
    by (auto simp: applyAccountRemove_def ValidateAccountRemove_def guard_err_Inr
        split: if_splits sum.splits)
  from v sv obtain rkc where rkc: "ar_readKeyChange ch = Some rkc"
    by (cases "ar_readKeyChange ch") (simp_all add: validateReadKeyChange_def)
  from v[unfolded rkc validateReadKeyChange_iff[OF inv sv]] obtain us where
    us: "map (\<lambda>e. pubKeyFromProto C (ek_identity e)) (rk_accountKeys rkc) = map Some us" "distinct us"
      "set us = {j. \<not> NoPermissions (Permissions st j)} - set seen"
    by auto
  have "set us = {j. \<not> NoPermissions (Permissions st' j)}"
    using us(3) validateRemovals_set[OF seen] by (auto simp: perm NoPermissions_def)
  moreover have "k \<noteq> rec_Identity record' \<and> \<not> IsOwner (Permissions st k)" if "?removed k"
    using that validateRemovals_ok[OF seen] by blast
  ultimately show ?thesis
    using perm cur rkc us(1,2) by blast
qed

definition removeB :: AclAccountRemove where
  "removeB = \<lparr>ar_identities = [''Kb''], ar_readKeyChange = Some (rotation\<lparr>rk_accountKeys :=
     [\<lparr>ek_identity = ''Ko'', ek_encryptedReadKey = Some ''or2''\<rparr>]\<rparr>)\<rparr>"

theorem account_removal_rotates_key_witness:
  "\<exists>st'. applyChangeContent exampleCrypto (dataRecord ''4'' ''3'' ''o'' []) (AccountRemove removeB)
      stateBefore4 = Inr st'
    \<and> NoPermissions (Permissions st' ''b'') \<and> CurrentReadKeyId st' = Inr ''4''"
proof -
  let ?r = "dataRecord ''4'' ''3'' ''o'' []"
  let ?st' = "okState (applyChangeContent exampleCrypto ?r (AccountRemove removeB) stateBefore4)"
  have run: "applyChangeContent exampleCrypto ?r (AccountRemove removeB) stateBefore4 = Inr ?st'"
    and sv: "ShouldValidate stateBefore4"
    and "\<exists>raw \<in> set (ar_identities removeB). pubKeyFromProto exampleCrypto raw = Some ''b''"
    by code_simp+
  with account_removal_rotates_key[OF stateBefore4_inv sv run, of "''b''"] show ?thesis
    by (auto simp: dataRecord_def NoPermissions_def)
qed

section \<open>Modes and decoding\<close>

text \<open>
  C12. Nothing that is admitted can fail on replay: when admission accepts a record (the strictest
  mode, used before a record enters the log), applying the same record to the same state succeeds
  with full validation and without validation too, and all three give the same state but for the
  mode itself.
\<close>

theorem admitted_record_replays:
  assumes "ApplyRecord C r (st\<lparr>st_contentValidator := \<lparr>shouldValidate = True, admission = True\<rparr>\<rparr>) = Inr st'"
  shows "ApplyRecord C r (st\<lparr>st_contentValidator := \<lparr>shouldValidate = b, admission = False\<rparr>\<rparr>)
    = Inr (st'\<lparr>st_contentValidator := \<lparr>shouldValidate = b, admission = False\<rparr>\<rparr>)"
  using modeStepD[OF ApplyRecord_mode, of "\<lparr>shouldValidate = True, admission = True\<rparr>"
      "\<lparr>shouldValidate = b, admission = False\<rparr>" C r st st'] assms
  by (simp add: setV_def weaker_def)

theorem admitted_record_replays_witness:
  "\<exists>st'. ApplyRecord exampleCrypto transferRecord
       (stateBefore4\<lparr>st_contentValidator := \<lparr>shouldValidate = False, admission = False\<rparr>\<rparr>) = Inr st'
     \<and> Permissions st' ''b'' = AclPermissionsOwner"
proof -
  let ?st' = "okState (ApplyRecord exampleCrypto transferRecord
       (stateBefore4\<lparr>st_contentValidator := \<lparr>shouldValidate = True, admission = True\<rparr>\<rparr>))"
  have "ApplyRecord exampleCrypto transferRecord
       (stateBefore4\<lparr>st_contentValidator := \<lparr>shouldValidate = True, admission = True\<rparr>\<rparr>) = Inr ?st'"
    by code_simp
  from admitted_record_replays[OF this, of False] show ?thesis
  proof (intro exI conjI)
    show "Permissions (?st'\<lparr>st_contentValidator := \<lparr>shouldValidate = False, admission = False\<rparr>\<rparr>) ''b''
        = AclPermissionsOwner"
      by code_simp
  qed
qed

lemma isOurIdentity_iff:
  assumes "rb_signKey b = Some key"
    and "pubKeyFromProto C (marshallPub C (getPublic C key)) = Some (getPublic C key)"
    and "pubKeyFromProto C raw = Some k"
  shows "isOurIdentity C b raw \<longleftrightarrow> k = getPublic C key"
  using assms by (auto simp: isOurIdentity_def ourIdentity_def)

lemma ourReadKey_filter:
  assumes b: "rb_signKey b = Some key" "st_key st = Some key"
    and law: "pubKeyFromProto C (marshallPub C (getPublic C key)) = Some (getPublic C key)"
  shows "ourReadKey C st ks found = Inr r \<Longrightarrow>
    ourReadKey C st (filterAccountKeys ks (isOurIdentity C b)) found = Inr r"
proof (induction ks arbitrary: found)
  case (Cons e ks)
  then obtain k where k: "pubKeyFromProto C (ek_identity e) = Some k"
    by (auto simp: b split: option.splits)
  with Cons isOurIdentity_iff[OF b(1) law k] show ?case
    by (auto simp: b filterAccountKeys_def result_simps split: if_splits)
qed (simp add: filterAccountKeys_def)

lemma applyReadKeyChange_filter:
  assumes "rb_signKey b = Some key" "st_key st = Some key"
    and "pubKeyFromProto C (marshallPub C (getPublic C key)) = Some (getPublic C key)"
    and "\<not> ShouldValidate st" and "applyReadKeyChange C chp r v st = Inr st'"
  shows "applyReadKeyChange C (map_option (filterReadKeyChange (isOurIdentity C b)) chp) r v st = Inr st'"
proof (cases chp)
  case (Some ch)
  with assms(4,5) obtain rk where "ourReadKey C st (rk_accountKeys ch) None = Inr rk"
    by (auto simp: applyReadKeyChange_def result_simps)
  with ourReadKey_filter[OF assms(1-3) this] have same:
    "ourReadKey C st (filterAccountKeys (rk_accountKeys ch) (isOurIdentity C b)) None
      = ourReadKey C st (rk_accountKeys ch) None"
    by simp
  have sel: "rk_accountKeys (ch\<lparr>rk_accountKeys := x\<rparr>) = x"
    "rk_metadataPubKey (ch\<lparr>rk_accountKeys := x\<rparr>) = rk_metadataPubKey ch"
    "rk_inviteKeys (ch\<lparr>rk_accountKeys := x\<rparr>) = rk_inviteKeys ch"
    "rk_encryptedMetadataPrivKey (ch\<lparr>rk_accountKeys := x\<rparr>) = rk_encryptedMetadataPrivKey ch"
    "rk_encryptedOldReadKey (ch\<lparr>rk_accountKeys := x\<rparr>) = rk_encryptedOldReadKey ch" for x
    by simp_all
  have "(if v then ValidateReadKeyChange C st ch' a else None) = None" for ch' a
    using assms(4) by (simp add: ValidateReadKeyChange_def)
  then show ?thesis
    using assms(5)
    unfolding Some option.map applyReadKeyChange_def option.case(2) filterReadKeyChange_def sel same
    by simp
qed (use assms in \<open>simp add: applyReadKeyChange_def\<close>)

lemma applyChangeContent_filter:
  assumes b: "rb_signKey b = Some key" "st_key st = Some key"
    and law: "pubKeyFromProto C (marshallPub C (getPublic C key)) = Some (getPublic C key)"
    and nv: "\<not> ShouldValidate st" and run: "applyChangeContent C r c st = Inr st'"
  shows "applyChangeContent C r (filterContent (isOurIdentity C b) c) st = Inr st'"
proof (cases c)
  case (ReadKeyChange ch)
  with run applyReadKeyChange_filter[OF b law nv, of "Some ch" r True st'] show ?thesis
    by (simp add: applyChangeContent_def filterContent_def)
next
  case (AccountRemove ch)
  with run obtain st1 where st1: "rfold (removeAccount C r) (ar_identities ch) st = Inr st1"
    and "applyReadKeyChange C (ar_readKeyChange ch) r False st1 = Inr st'"
    by (auto simp: applyChangeContent_def applyAccountRemove_def result_simps)
  moreover have "fixedFields st1 = fixedFields st"
    using rfold_fixed[OF removeAccount_fixed st1] .
  ultimately have "applyReadKeyChange C (map_option (filterReadKeyChange (isOurIdentity C b))
      (ar_readKeyChange ch)) r False st1 = Inr st'"
    using b law nv by (intro applyReadKeyChange_filter) (auto simp: fixedFields_def ShouldValidate_def)
  with AccountRemove st1 nv show ?thesis
    by (simp add: applyChangeContent_def filterContent_def applyAccountRemove_def
        ValidateAccountRemove_def)
qed (use run in \<open>simp_all add: filterContent_def\<close>)

lemma applyContents_filter:
  assumes b: "rb_signKey b = Some key"
    and law: "pubKeyFromProto C (marshallPub C (getPublic C key)) = Some (getPublic C key)"
  shows "st_key st = Some key \<Longrightarrow> \<not> ShouldValidate st \<Longrightarrow>
    rfold (applyChangeContent C r) cs st = Inr st' \<Longrightarrow>
    rfold (applyChangeContent C r) (map (filterContent (isOurIdentity C b)) cs) st = Inr st'"
proof (induction cs arbitrary: st)
  case (Cons c cs)
  then obtain st1 where st1: "applyChangeContent C r c st = Inr st1"
    and "rfold (applyChangeContent C r) cs st1 = Inr st'"
    by (auto simp: result_simps)
  with Cons applyChangeContent_fixed[OF st1] applyChangeContent_filter[OF b _ law _ st1] show ?case
    by (simp add: fixedFields_def ShouldValidate_def)
qed simp

text \<open>Operations read only the id and the author of a record.\<close>

lemma record_model_irrelevant: "applyChangeContent C (r\<lparr>rec_Model := m\<rparr>) = applyChangeContent C r"
proof -
  have sel: "rec_Id (r\<lparr>rec_Model := m\<rparr>) = rec_Id r" "rec_Identity (r\<lparr>rec_Model := m\<rparr>) = rec_Identity r"
    by simp_all
  have loops: "removeAccount C (r\<lparr>rec_Model := m\<rparr>) = removeAccount C r"
    "addAccount C (r\<lparr>rec_Model := m\<rparr>) = addAccount C r"
    "applyPermissionChange C (r\<lparr>rec_Model := m\<rparr>) = applyPermissionChange C r"
    unfolding removeAccount_def[abs_def] addAccount_def[abs_def] applyPermissionChange_def[abs_def]
      updatePermissions_def sel by (rule refl)+
  show ?thesis
    unfolding applyChangeContent_def apply_defs updatePermissions_def extendedHistory_def sel loops ..
qed

text \<open>
  C15. Keeping only one's own read keys is invisible to a state that does not validate: if the full
  content of a record applies to a non-validating state of an account, then the content filtered to
  the entries of that account applies as well and gives the same state. The hypothesis on the
  account's key is that the encoding of a public key decodes to the key.
\<close>

theorem keep_identity_same_state:
  assumes "rb_signKey b = Some key" and "st_key st = Some key"
    and "pubKeyFromProto C (marshallPub C (getPublic C key)) = Some (getPublic C key)"
    and "st_contentValidator st = \<lparr>shouldValidate = False, admission = False\<rparr>"
    and "rec_Model r = Some (AclData cs)" and "ApplyRecord C r st = Inr st'"
  shows "ApplyRecord C (r\<lparr>rec_Model := Some (AclData (map (filterContent (isOurIdentity C b)) cs))\<rparr>) st
    = Inr st'"
proof -
  from assms(4) have "\<not> ShouldValidate st"
    and "ValidateAclData st cs' = None" for cs'
    by (simp_all add: ShouldValidate_def ValidateAclData_def)
  with assms applyContents_filter[OF assms(1,3,2)] show ?thesis
    by (auto simp: ApplyRecord_Inr recordContents_def record_model_irrelevant)
qed

definition nonValidatingState :: AclState where
  "nonValidatingState = okState (Build exampleCrypto (Some ''so'') False
     [exampleRoot, inviteRecord, joinRequestRecord, addRecord])"

theorem keep_identity_same_state_witness:
  "ApplyRecord exampleCrypto (dataRecord ''4'' ''3'' ''o'' [ReadKeyChange (rotation\<lparr>rk_accountKeys :=
      [\<lparr>ek_identity = ''Ko'', ek_encryptedReadKey = Some ''or2''\<rparr>]\<rparr>)]) nonValidatingState
   = ApplyRecord exampleCrypto (dataRecord ''4'' ''3'' ''o'' [ReadKeyChange rotation]) nonValidatingState"
proof -
  let ?b = "\<lparr>rb_id = ''0'', rb_signKey = Some ''so'', rb_verifier = NetworkVerifier None\<rparr>"
  let ?r = "dataRecord ''4'' ''3'' ''o'' [ReadKeyChange rotation]"
  let ?st' = "okState (ApplyRecord exampleCrypto ?r nonValidatingState)"
  have run: "ApplyRecord exampleCrypto ?r nonValidatingState = Inr ?st'"
    and "st_key nonValidatingState = Some ''so''"
    and "pubKeyFromProto exampleCrypto (marshallPub exampleCrypto (getPublic exampleCrypto ''so''))
      = Some (getPublic exampleCrypto ''so'')"
    and "st_contentValidator nonValidatingState = \<lparr>shouldValidate = False, admission = False\<rparr>"
    and "rec_Model ?r = Some (AclData [ReadKeyChange rotation])" "rb_signKey ?b = Some ''so''"
    by code_simp+
  from keep_identity_same_state[OF this(6,2-5,1)]
  have "ApplyRecord exampleCrypto (?r\<lparr>rec_Model := Some (AclData
      (map (filterContent (isOurIdentity exampleCrypto ?b)) [ReadKeyChange rotation]))\<rparr>) nonValidatingState
    = Inr ?st'" .
  moreover have "?r\<lparr>rec_Model := Some (AclData
      (map (filterContent (isOurIdentity exampleCrypto ?b)) [ReadKeyChange rotation]))\<rparr>
    = dataRecord ''4'' ''3'' ''o'' [ReadKeyChange (rotation\<lparr>rk_accountKeys :=
      [\<lparr>ek_identity = ''Ko'', ek_encryptedReadKey = Some ''or2''\<rparr>]\<rparr>)]"
    by code_simp
  ultimately show ?thesis
    using run by simp
qed

end
