(* ===== verification/AclInvites.thy ===== *)
theory AclInvites
  imports AclList
begin

text \<open>
  Invites and their keys. Contents other than new invites make no invites and keep their keys, so that
  in a log in which no two invites carry the same key no two invites of the state do. In such a log the
  order in which the code ranges over the map of invites makes no difference: every order gives the
  same state.
\<close>

section \<open>Invites under the other contents\<close>

text \<open>What follows keeps invites and the order of read keys.\<close>

definition inviteFields :: "AclState \<Rightarrow> (string, Invite) gomap \<times> string list" where
  "inviteFields st = (invites st, readKeyChanges st)"

lemma unpackIfMe_invites: "unpackIfMe C i e st = Inr st' \<Longrightarrow> inviteFields st' = inviteFields st"
  by (auto simp: inviteFields_def elim: unpackIfMe_frame)

lemma rfold_invites:
  assumes "\<And>x s s'. f x s = Inr s' \<Longrightarrow> inviteFields s' = inviteFields s"
  shows "rfold f xs st = Inr st' \<Longrightarrow> inviteFields st' = inviteFields st"
  by (induction xs arbitrary: st) (auto simp: result_simps dest: assms)

lemma updatePermissions_invites [simp]: "inviteFields (updatePermissions k p r st) = inviteFields st"
  by (simp add: inviteFields_def updatePermissions_def Let_def)

lemma dropRequestOf_invites [simp]: "inviteFields (dropRequestOf k st) = inviteFields st"
  by (simp add: inviteFields_def dropRequestOf_def split: option.split)

lemma addAccount_invites: "addAccount C r acc st = Inr st' \<Longrightarrow> inviteFields st' = inviteFields st"
  by (auto simp: addAccount_def result_simps Let_def dest!: unpackIfMe_invites) (simp add: inviteFields_def)

lemma removeAccount_invites: "removeAccount C r raw st = Inr st' \<Longrightarrow> inviteFields st' = inviteFields st"
  by (erule removeAccount_frame) (simp add: inviteFields_def split: option.splits)

lemma applyPermissionChange_invites: "applyPermissionChange C r ch st = Inr st' \<Longrightarrow> inviteFields st' = inviteFields st"
  by (auto simp: applyPermissionChange_def result_simps)

lemma applyRequestAccept_invites: "applyRequestAccept C ch r st = Inr st' \<Longrightarrow> inviteFields st' = inviteFields st"
  by (auto simp: applyRequestAccept_def result_simps Let_def dest!: unpackIfMe_invites split: option.splits)
    (simp add: inviteFields_def)

lemma applyInviteJoinWithoutApprove_invites:
  assumes "applyInviteJoinWithoutApprove C ch r st = Inr st'"
  shows "inviteFields st' = inviteFields st"
proof (cases "mget (invites st) (ij_inviteRecordId ch)")
  case None
  with assms show ?thesis
    by (auto simp: applyInviteJoinWithoutApprove_def result_simps)
next
  case (Some i)
  with assms obtain k as where "unpackIfMe C k (ij_encryptedReadKey ch) (dropRequestOf k (st\<lparr>accountStates := as\<rparr>)) = Inr st'"
    by (simp only: applyInviteJoinWithoutApprove_def guard_err_Inr rbind_eq_Inr Let_def option.case) force
  then show ?thesis
    by (auto dest!: unpackIfMe_invites) (simp add: inviteFields_def)
qed

lemma applyAccountsAdd_invites: "applyAccountsAdd C as r st = Inr st' \<Longrightarrow> inviteFields st' = inviteFields st"
  unfolding applyAccountsAdd_def guard_err_Inr by (metis rfold_invites addAccount_invites)

lemma applyPermissionChanges_invites: "applyPermissionChanges C chs r st = Inr st' \<Longrightarrow> inviteFields st' = inviteFields st"
  unfolding applyPermissionChanges_def by (metis rfold_invites applyPermissionChange_invites)

lemma applyRequests_invites:
  "applyRequestDecline i r st = Inr st' \<Longrightarrow> inviteFields st' = inviteFields st"
  "applyRequestCancel i r st = Inr st' \<Longrightarrow> inviteFields st' = inviteFields st"
  "applyRequestJoin C ch r st = Inr st' \<Longrightarrow> inviteFields st' = inviteFields st"
  "applyRequestRemove r st = Inr st' \<Longrightarrow> inviteFields st' = inviteFields st"
  by (auto simp: applyRequestDecline_def applyRequestCancel_def applyRequestJoin_def applyRequestRemove_def inviteFields_def
      result_simps Let_def split: option.splits if_splits)

lemmas same_invites = applyRequestAccept_invites applyInviteJoinWithoutApprove_invites applyAccountsAdd_invites
  applyPermissionChanges_invites applyRequests_invites applyPermissionChange_invites

text \<open>The keys of invites after the other contents are those of before; read keys are added under the record's id.\<close>

definition keptInvites :: "(string, Invite) gomap \<Rightarrow> (string, Invite) gomap \<Rightarrow> bool" where
  "keptInvites m m' \<longleftrightarrow> gm_wf m' \<and> (\<forall>i inv'. mget m' i = Some inv' \<longrightarrow> (\<exists>inv. mget m i = Some inv \<and> inv_Key inv' = inv_Key inv))"

definition invitesKept :: "AclRecord \<Rightarrow> AclState \<Rightarrow> AclState \<Rightarrow> bool" where
  "invitesKept r st st' \<longleftrightarrow> keptInvites (invites st) (invites st')
     \<and> (\<exists>n. readKeyChanges st' = readKeyChanges st @ replicate n (rec_Id r))"

lemma keptInvites_refl: "gm_wf m \<Longrightarrow> keptInvites m m"
  by (simp add: keptInvites_def)

lemma keptInvites_trans: "keptInvites m m1 \<Longrightarrow> keptInvites m1 m2 \<Longrightarrow> keptInvites m m2"
  unfolding keptInvites_def by metis

lemma invitesKept_same: "gm_wf (invites st) \<Longrightarrow> inviteFields st' = inviteFields st \<Longrightarrow> invitesKept r st st'"
  by (auto simp: invitesKept_def inviteFields_def intro: keptInvites_refl exI[of _ 0])

lemma invitesKept_trans: "invitesKept r st st1 \<Longrightarrow> invitesKept r st1 st2 \<Longrightarrow> invitesKept r st st2"
  unfolding invitesKept_def by (auto intro: keptInvites_trans) (metis replicate_add)

lemma updateInviteKey_kept:
  assumes "gm_wf (invites st)" and "updateInviteKey C e st = Inr st'"
  shows "keptInvites (invites st) (invites st')"
proof -
  obtain k where k: "pubKeyFromProto C (ek_identity e) = Some k"
    using assms(2) by (auto simp: updateInviteKey_def result_simps)
  show ?thesis
  proof (cases "find (\<lambda>(key, invite). inv_Key invite = k) (rangeInvites C k (invites st))")
    case None
    then show ?thesis
      using assms k by (auto simp: updateInviteKey_def intro: keptInvites_refl)
  next
    case (Some p)
    obtain i inv where p: "p = (i, inv)"
      by (cases p)
    have "(i, inv) \<in> set (invites st)"
      using Some by (metis p find_Some_iff nth_mem set_rangeInvites)
    then have "mget (invites st) i = Some inv"
      using assms(1) by (simp add: gm_in_set_iff)
    then show ?thesis
      using assms k Some by (auto simp: updateInviteKey_def p keptInvites_def split: if_splits)
  qed
qed

lemma updateInviteKeys_kept:
  "gm_wf (invites st) \<Longrightarrow> rfold (updateInviteKey C) es st = Inr st' \<Longrightarrow> keptInvites (invites st) (invites st')"
proof (induction es arbitrary: st)
  case (Cons e es)
  then obtain st1 where st1: "updateInviteKey C e st = Inr st1" "rfold (updateInviteKey C) es st1 = Inr st'"
    by (auto simp: result_simps)
  have "keptInvites (invites st) (invites st1)"
    using updateInviteKey_kept[OF Cons.prems(1) st1(1)] .
  moreover from this have "keptInvites (invites st1) (invites st')"
    using Cons.IH[OF _ st1(2)] by (simp add: keptInvites_def)
  ultimately show ?case
    by (rule keptInvites_trans)
qed (simp add: keptInvites_refl)

lemma applyReadKeyChange_kept:
  assumes "gm_wf (invites st)" and "applyReadKeyChange C chp r v st = Inr st'"
  shows "keptInvites (invites st) (invites st') \<and> readKeyChanges st' = readKeyChanges st @ [rec_Id r]"
proof -
  let ?st = "st\<lparr>readKeyChanges := readKeyChanges st @ [rec_Id r]\<rparr>"
  obtain es st1 where run: "rfold (updateInviteKey C) es ?st = Inr st1" and "invites st' = invites st1"
    "readKeyChanges st' = readKeyChanges st1"
    using assms(2) by (cases chp) (auto simp: applyReadKeyChange_def result_simps)
  moreover obtain m where "st1 = ?st\<lparr>invites := m\<rparr>"
    using updateInviteKeys_frame[OF run] by blast
  ultimately show ?thesis
    using updateInviteKeys_kept[OF _ run] assms(1) by simp
qed

lemma applyAccountRemove_kept:
  assumes "gm_wf (invites st)" and "applyAccountRemove C ch r st = Inr st'"
  shows "keptInvites (invites st) (invites st') \<and> readKeyChanges st' = readKeyChanges st @ [rec_Id r]"
proof -
  obtain st1 where st1: "rfold (removeAccount C r) (ar_identities ch) st = Inr st1"
    and rk: "applyReadKeyChange C (ar_readKeyChange ch) r False st1 = Inr st'"
    using assms(2) by (auto simp: applyAccountRemove_def result_simps)
  have "inviteFields st1 = inviteFields st"
    using rfold_invites[of "removeAccount C r", OF removeAccount_invites st1] .
  then show ?thesis
    using applyReadKeyChange_kept[OF _ rk] assms(1) by (simp add: inviteFields_def)
qed

lemma applyContent_kept:
  assumes wf: "gm_wf (invites st)" and run: "applyChangeContent C r c st = Inr st'" and no: "\<forall>ch. c \<noteq> ContentInvite ch"
  shows "invitesKept r st st'"
proof -
  have one: "\<exists>n. xs @ [x] = xs @ replicate n x" for xs and x :: string
    by (rule exI[of _ 1]) simp
  show ?thesis
  proof (cases c)
    case (InviteChange ch)
    then show ?thesis
      using run wf by (auto simp: applyChangeContent_def applyInviteChange_def result_simps invitesKept_def keptInvites_def
          intro: exI[of _ 0] split: option.splits if_splits)
  next
    case (InviteRevoke i)
    then show ?thesis
      using run wf by (auto simp: applyChangeContent_def applyInviteRevoke_def result_simps invitesKept_def keptInvites_def
          intro: exI[of _ 0] split: if_splits)
  next
    case (AccountRemove ch)
    then show ?thesis
      using applyAccountRemove_kept[OF wf] run one by (simp add: applyChangeContent_def invitesKept_def)
  next
    case (ReadKeyChange ch)
    then show ?thesis
      using applyReadKeyChange_kept[OF wf] run one by (simp add: applyChangeContent_def invitesKept_def)
  next
    case (ContentInvite ch)
    then show ?thesis
      using no by simp
  next
    case (OwnershipChange ch)
    then show ?thesis
      using run by (auto simp: applyChangeContent_def applyOwnershipChange_def result_simps Let_def intro: invitesKept_same[OF wf])
  next
    case (SpaceOptionsChange o)
    then show ?thesis
      using run by (auto simp: applyChangeContent_def applySpaceOptionsChange_def result_simps inviteFields_def
          intro: invitesKept_same[OF wf])
  next
    case UnexpectedContent
    then have "st' = st"
      using run by (simp add: applyChangeContent_def guard_err_Inr)
    then show ?thesis
      using wf by (simp add: invitesKept_same)
  qed (use run in \<open>auto simp: applyChangeContent_def guard_err_Inr intro: invitesKept_same[OF wf] dest: same_invites\<close>)
qed

lemma applyContents_kept:
  assumes "gm_wf (invites st)" and "rfold (applyChangeContent C r) cs st = Inr st'" and "\<forall>c \<in> set cs. \<forall>ch. c \<noteq> ContentInvite ch"
  shows "invitesKept r st st'"
  using assms
proof (induction cs arbitrary: st)
  case Nil
  then show ?case
    by (simp add: invitesKept_same)
next
  case (Cons c cs)
  then obtain st1 where st1: "applyChangeContent C r c st = Inr st1" "rfold (applyChangeContent C r) cs st1 = Inr st'"
    by (auto simp: result_simps)
  have k: "invitesKept r st st1"
    using applyContent_kept[OF Cons.prems(1) st1(1)] Cons.prems(3) by simp
  then have "gm_wf (invites st1)"
    by (simp add: invitesKept_def keptInvites_def)
  from Cons.IH[OF this st1(2)] k show ?case
    using Cons.prems(3) invitesKept_trans by auto
qed

section \<open>What does not depend on the order of the range\<close>

text \<open>What an operation does with the environment apart from the order of ranges.\<close>

named_theorems rank_free

lemma rank_select [rank_free]:
  "pubKeyFromProto (C\<lparr>rangeRank := p\<rparr>) = pubKeyFromProto C"
  "verify (C\<lparr>rangeRank := p\<rparr>) = verify C"
  "decryptPriv (C\<lparr>rangeRank := p\<rparr>) = decryptPriv C"
  "decryptSym (C\<lparr>rangeRank := p\<rparr>) = decryptSym C"
  "unmarshallAESKeyProto (C\<lparr>rangeRank := p\<rparr>) = unmarshallAESKeyProto C"
  "unmarshalEd25519PrivateKeyProto (C\<lparr>rangeRank := p\<rparr>) = unmarshalEd25519PrivateKeyProto C"
  "getPublic (C\<lparr>rangeRank := p\<rparr>) = getPublic C"
  "marshallPub (C\<lparr>rangeRank := p\<rparr>) = marshallPub C"
  "generateSharedKey (C\<lparr>rangeRank := p\<rparr>) = generateSharedKey C"
  "encryptSym (C\<lparr>rangeRank := p\<rparr>) = encryptSym C"
  "deriveSymmetricKey (C\<lparr>rangeRank := p\<rparr>) = deriveSymmetricKey C"
  "unmarshalAclData (C\<lparr>rangeRank := p\<rparr>) = unmarshalAclData C"
  by simp_all

lemma validate_rank [simp, rank_free]:
  "ValidateOwnershipChange (C\<lparr>rangeRank := p\<rparr>) = ValidateOwnershipChange C"
  "validateAccountAdd (C\<lparr>rangeRank := p\<rparr>) = validateAccountAdd C"
  "ValidateInviteJoin (C\<lparr>rangeRank := p\<rparr>) = ValidateInviteJoin C"
  "ValidatePermissionChange (C\<lparr>rangeRank := p\<rparr>) = ValidatePermissionChange C"
  "ValidateInvite (C\<lparr>rangeRank := p\<rparr>) = ValidateInvite C"
  "ValidateRequestJoin (C\<lparr>rangeRank := p\<rparr>) = ValidateRequestJoin C"
  "ValidateRequestAccept (C\<lparr>rangeRank := p\<rparr>) = ValidateRequestAccept C"
  "keyIdentities (C\<lparr>rangeRank := p\<rparr>) = keyIdentities C"
  unfolding ValidateOwnershipChange_def validateAccountAdd_def ValidateInviteJoin_def
      ValidatePermissionChange_def ValidateInvite_def ValidateRequestJoin_def ValidateRequestAccept_def
      keyIdentities_def rank_free by (rule refl)+

lemma validateRemovals_rank [simp, rank_free]:
  "validateRemovals (C\<lparr>rangeRank := p\<rparr>) st author ids = validateRemovals C st author ids"
proof (induction ids)
  case (Cons i ids)
  show ?case
    by (intro ext) (unfold validateRemovals.simps rank_free Cons.IH, rule refl)
qed (simp add: fun_eq_iff)

lemma validateReadKeyChange_rank [simp, rank_free]:
  "validateReadKeyChange (C\<lparr>rangeRank := p\<rparr>) = validateReadKeyChange C"
  unfolding validateReadKeyChange_def rank_free by (rule refl)+

lemma validateLists_rank [simp, rank_free]:
  "ValidateAccountsAdd (C\<lparr>rangeRank := p\<rparr>) = ValidateAccountsAdd C"
  "ValidatePermissionChanges (C\<lparr>rangeRank := p\<rparr>) = ValidatePermissionChanges C"
  "ValidateAccountRemove (C\<lparr>rangeRank := p\<rparr>) = ValidateAccountRemove C"
  "ValidateReadKeyChange (C\<lparr>rangeRank := p\<rparr>) = ValidateReadKeyChange C"
  unfolding ValidateAccountsAdd_def ValidatePermissionChanges_def ValidateAccountRemove_def
      ValidateReadKeyChange_def rank_free by (rule refl)+

lemma unmarshall_rank [simp, rank_free]:
  "unmarshallDecryptReadKey (C\<lparr>rangeRank := p\<rparr>) = unmarshallDecryptReadKey C"
  "unmarshallDecryptPrivKey (C\<lparr>rangeRank := p\<rparr>) = unmarshallDecryptPrivKey C"
  "pubKeyEquals (C\<lparr>rangeRank := p\<rparr>) = pubKeyEquals C"
  "deriveKey (C\<lparr>rangeRank := p\<rparr>) = deriveKey C"
  unfolding unmarshallDecryptReadKey_def unmarshallDecryptPrivKey_def pubKeyEquals_def
      deriveKey_def rank_free by (rule refl)+

lemma unpackKeys_rank [simp, rank_free]: "unpackKeys (C\<lparr>rangeRank := p\<rparr>) k ids = unpackKeys C k ids"
proof (induction ids arbitrary: k)
  case (Cons i ids)
  show ?case
    by (intro ext) (unfold unpackKeys.simps rank_free Cons.IH, rule refl)
qed (simp add: fun_eq_iff)

lemma unpack_rank [simp, rank_free]:
  "unpackAllKeys (C\<lparr>rangeRank := p\<rparr>) = unpackAllKeys C"
  "findMeAndValidateOneToOne (C\<lparr>rangeRank := p\<rparr>) = findMeAndValidateOneToOne C"
  "deriveOneToOneKeys (C\<lparr>rangeRank := p\<rparr>) = deriveOneToOneKeys C"
  "setOneToOneWriter (C\<lparr>rangeRank := p\<rparr>) = setOneToOneWriter C"
  "saveKeysFromRoot (C\<lparr>rangeRank := p\<rparr>) = saveKeysFromRoot C"
  unfolding unpackAllKeys_def findMeAndValidateOneToOne_def deriveOneToOneKeys_def
      setOneToOneWriter_def saveKeysFromRoot_def rank_free by (rule refl)+

lemma root_rank [simp, rank_free]:
  "unpackIfMe (C\<lparr>rangeRank := p\<rparr>) = unpackIfMe C"
  "setOneToOneAcl (C\<lparr>rangeRank := p\<rparr>) = setOneToOneAcl C"
  unfolding unpackIfMe_def setOneToOneAcl_def rank_free by (rule refl)+

lemma newState_rank [simp, rank_free]:
  "applyRoot (C\<lparr>rangeRank := p\<rparr>) = applyRoot C"
  unfolding applyRoot_def rank_free by (rule refl)+

lemma newStates_rank [simp, rank_free]:
  "newAclStateWithKeys (C\<lparr>rangeRank := p\<rparr>) = newAclStateWithKeys C"
  "newAclState (C\<lparr>rangeRank := p\<rparr>) = newAclState C"
  unfolding newAclStateWithKeys_def newAclState_def rank_free by (rule refl)+

lemma apply_rank [simp, rank_free]:
  "applyOwnershipChange (C\<lparr>rangeRank := p\<rparr>) = applyOwnershipChange C"
  "applyPermissionChange (C\<lparr>rangeRank := p\<rparr>) = applyPermissionChange C"
  "applyInvite (C\<lparr>rangeRank := p\<rparr>) = applyInvite C"
  "applyRequestJoin (C\<lparr>rangeRank := p\<rparr>) = applyRequestJoin C"
  "addAccount (C\<lparr>rangeRank := p\<rparr>) = addAccount C"
  "applyRequestAccept (C\<lparr>rangeRank := p\<rparr>) = applyRequestAccept C"
  "applyInviteJoinWithoutApprove (C\<lparr>rangeRank := p\<rparr>) = applyInviteJoinWithoutApprove C"
  "removeAccount (C\<lparr>rangeRank := p\<rparr>) = removeAccount C"
  unfolding applyOwnershipChange_def applyPermissionChange_def applyInvite_def applyRequestJoin_def
      addAccount_def applyRequestAccept_def applyInviteJoinWithoutApprove_def removeAccount_def rank_free by (rule refl)+

lemma applyLists_rank [simp, rank_free]:
  "applyPermissionChanges (C\<lparr>rangeRank := p\<rparr>) = applyPermissionChanges C"
  "applyAccountsAdd (C\<lparr>rangeRank := p\<rparr>) = applyAccountsAdd C"
  unfolding applyPermissionChanges_def applyAccountsAdd_def rank_free by (rule refl)+

lemma ourReadKey_rank [simp, rank_free]: "ourReadKey (C\<lparr>rangeRank := p\<rparr>) st ks found = ourReadKey C st ks found"
  by (induction ks arbitrary: found) (simp_all split: option.split)

lemma recordContents_rank [simp, rank_free]: "recordContents (C\<lparr>rangeRank := p\<rparr>) r = recordContents C r"
  unfolding recordContents_def rank_free by (rule refl)

section \<open>Invites with distinct keys\<close>

text \<open>The keys of the invites that a content, a record and a log make.\<close>

definition contentKeys :: "crypto \<Rightarrow> AclContentValue \<Rightarrow> pubkey list" where
  "contentKeys C c =
     (case c of
        ContentInvite ch \<Rightarrow> (case pubKeyFromProto C (ai_inviteKey ch) of None \<Rightarrow> [] | Some k \<Rightarrow> [k])
      | _ \<Rightarrow> [])"

definition recordKeys :: "crypto \<Rightarrow> AclRecord \<Rightarrow> pubkey list" where
  "recordKeys C r = (case recordContents C r of None \<Rightarrow> [] | Some cs \<Rightarrow> concat (map (contentKeys C) cs))"

definition inviteKeys :: "crypto \<Rightarrow> AclRecord list \<Rightarrow> pubkey list" where
  "inviteKeys C records = concat (map (recordKeys C) records)"

text \<open>A map of invites whose keys are among \<open>ks\<close>, no two of them equal.\<close>

definition keyedBy :: "pubkey list \<Rightarrow> (string, Invite) gomap \<Rightarrow> bool" where
  "keyedBy ks m \<longleftrightarrow> gm_wf m \<and> (\<forall>i inv. mget m i = Some inv \<longrightarrow> inv_Key inv \<in> set ks)
     \<and> (\<forall>i j inv inv'. mget m i = Some inv \<longrightarrow> mget m j = Some inv' \<longrightarrow> inv_Key inv = inv_Key inv' \<longrightarrow> i = j)"

lemma keyedBy_kept:
  assumes "keyedBy ks m" and "keptInvites m m'"
  shows "keyedBy ks m'"
  using assms unfolding keyedBy_def keptInvites_def by metis

lemma keyedBy_mput:
  assumes "keyedBy ks m" and "inv_Key v \<notin> set ks"
  shows "keyedBy (ks @ [inv_Key v]) (mput i v m)"
  unfolding keyedBy_def
proof (intro conjI allI impI)
  note m = assms(1)[unfolded keyedBy_def]
  show "gm_wf (mput i v m)"
    using m by simp
  show "inv_Key x \<in> set (ks @ [inv_Key v])" if "mget (mput i v m) j = Some x" for j x
    using m that by (auto split: if_splits)
  have old: "inv_Key x \<noteq> inv_Key v" if "mget m j = Some x" for j x
    using m assms(2) that by metis
  show "j = j'" if "mget (mput i v m) j = Some x" "mget (mput i v m) j' = Some y" "inv_Key x = inv_Key y" for j j' x y
    using m that old[of j x] old[of j' y] by (cases "j = i"; cases "j' = i") auto
qed

lemma find_same:
  assumes "set xs = set ys" and "\<forall>x \<in> set xs. \<forall>y \<in> set xs. P x \<longrightarrow> P y \<longrightarrow> x = y"
  shows "find P xs = find P ys"
proof (cases "find P xs")
  case None
  then show ?thesis
    using assms(1) by (metis find_None_iff)
next
  case (Some x)
  then have x: "x \<in> set xs" "P x"
    by (auto simp: find_Some_iff)
  then obtain y where y: "find P ys = Some y"
    using assms(1) by (metis find_None_iff not_Some_eq)
  then have "y \<in> set ys" "P y"
    by (auto simp: find_Some_iff)
  then show ?thesis
    using assms x y Some by simp
qed

lemma updateInviteKey_rank:
  assumes "keyedBy ks (invites st)"
  shows "updateInviteKey (C\<lparr>rangeRank := p\<rparr>) e st = updateInviteKey C e st"
proof -
  have same: "x = y" if "x \<in> set (invites st)" "y \<in> set (invites st)" "inv_Key (snd x) = inv_Key (snd y)" for x y
  proof -
    have "mget (invites st) (fst x) = Some (snd x)" "mget (invites st) (fst y) = Some (snd y)"
      using assms that by (simp_all add: keyedBy_def flip: gm_in_set_iff)
    with that(3) have "fst x = fst y" and "snd x = snd y"
      using assms unfolding keyedBy_def by (metis, metis option.inject)
    then show ?thesis
      by (simp add: prod_eq_iff)
  qed
  have "find (\<lambda>(key, invite). inv_Key invite = k) (rangeInvites (C\<lparr>rangeRank := p\<rparr>) k (invites st))
      = find (\<lambda>(key, invite). inv_Key invite = k) (rangeInvites C k (invites st))" for k
    by (rule find_same) (auto dest: same)
  then show ?thesis
    by (simp add: updateInviteKey_def)
qed

lemma updateInviteKeys_rank:
  "keyedBy ks (invites st) \<Longrightarrow>
   rfold (updateInviteKey (C\<lparr>rangeRank := p\<rparr>)) es st = rfold (updateInviteKey C) es st"
proof (induction es arbitrary: st)
  case (Cons e es)
  show ?case
  proof (cases "updateInviteKey C e st")
    case (Inr st1)
    then have "keyedBy ks (invites st1)"
      using keyedBy_kept[OF Cons.prems updateInviteKey_kept] Cons.prems by (simp add: keyedBy_def)
    then show ?thesis
      using Cons updateInviteKey_rank[OF Cons.prems] Inr by simp
  qed (use updateInviteKey_rank[OF Cons.prems] in simp)
qed simp

lemma applyReadKeyChange_rank:
  assumes "keyedBy ks (invites st)"
  shows "applyReadKeyChange (C\<lparr>rangeRank := p\<rparr>) chp r v st = applyReadKeyChange C chp r v st"
proof -
  have "rfold (updateInviteKey (C\<lparr>rangeRank := p\<rparr>)) es (st\<lparr>readKeyChanges := x\<rparr>)
      = rfold (updateInviteKey C) es (st\<lparr>readKeyChanges := x\<rparr>)" for es x
    using assms by (intro updateInviteKeys_rank[where ks = ks]) simp
  then show ?thesis
    unfolding applyReadKeyChange_def rank_free by (simp only:)
qed

lemma applyAccountRemove_rank:
  assumes "keyedBy ks (invites st)"
  shows "applyAccountRemove (C\<lparr>rangeRank := p\<rparr>) ch r st = applyAccountRemove C ch r st"
proof (cases "rfold (removeAccount C r) (ar_identities ch) st")
  case (Inr st1)
  have "inviteFields st1 = inviteFields st"
    using rfold_invites[of "removeAccount C r", OF removeAccount_invites Inr] .
  then show ?thesis
    using applyReadKeyChange_rank[of ks st1] assms Inr by (simp add: applyAccountRemove_def inviteFields_def)
qed (simp add: applyAccountRemove_def)

lemma applyChangeContent_rank:
  assumes "keyedBy ks (invites st)"
  shows "applyChangeContent (C\<lparr>rangeRank := p\<rparr>) r c st = applyChangeContent C r c st"
  using applyReadKeyChange_rank[OF assms] applyAccountRemove_rank[OF assms]
  by (simp add: applyChangeContent_def split: AclContentValue.split)

lemma applyChangeContent_keyed:
  assumes ks: "keyedBy ks (invites st)" and run: "applyChangeContent C r c st = Inr st'"
    and "distinct (ks @ contentKeys C c)"
  shows "keyedBy (ks @ contentKeys C c) (invites st')"
proof (cases "\<exists>ch. c = ContentInvite ch")
  case True
  then obtain ch where c: "c = ContentInvite ch" by blast
  then have inv: "applyInvite C ch r st = Inr st'"
    using run by (simp add: applyChangeContent_def)
  then obtain k where "pubKeyFromProto C (ai_inviteKey ch) = Some k" "invites st' = mput (rec_Id r)
      \<lparr>inv_Key = k, inv_Type = ai_inviteType ch, inv_Permissions = ai_permissions ch,
        inv_Id = rec_Id r, inv_encryptedReadKey = ai_encryptedReadKey ch\<rparr> (invites st)"
    by (auto simp: applyInvite_def result_simps)
  then show ?thesis
    using keyedBy_mput[OF ks, of "\<lparr>inv_Key = k, inv_Type = ai_inviteType ch, inv_Permissions = ai_permissions ch,
        inv_Id = rec_Id r, inv_encryptedReadKey = ai_encryptedReadKey ch\<rparr>" "rec_Id r"] assms(3)
    by (simp add: c contentKeys_def)
next
  case False
  then have "keptInvites (invites st) (invites st')"
    using applyContent_kept[OF _ run] ks by (simp add: keyedBy_def invitesKept_def)
  moreover have "contentKeys C c = []"
    using False by (cases c) (simp_all add: contentKeys_def)
  ultimately show ?thesis
    using keyedBy_kept[OF ks] by simp
qed

lemma applyContents_rank:
  assumes "keyedBy ks (invites st)" and "rfold (applyChangeContent C r) cs st = Inr st'"
    and "distinct (ks @ concat (map (contentKeys C) cs))"
  shows "rfold (applyChangeContent (C\<lparr>rangeRank := p\<rparr>) r) cs st = Inr st'
    \<and> keyedBy (ks @ concat (map (contentKeys C) cs)) (invites st')"
  using assms
proof (induction cs arbitrary: ks st)
  case (Cons c cs)
  then obtain st1 where st1: "applyChangeContent C r c st = Inr st1" "rfold (applyChangeContent C r) cs st1 = Inr st'"
    by (auto simp: result_simps)
  have "keyedBy (ks @ contentKeys C c) (invites st1)"
    using applyChangeContent_keyed[OF Cons.prems(1) st1(1)] Cons.prems(3) by auto
  from Cons.IH[OF this st1(2)] Cons.prems(3) applyChangeContent_rank[OF Cons.prems(1), where C = C and p = p and r = r and c = c] st1(1) show ?case
    by simp
qed simp

lemma ApplyRecord_rank:
  assumes "keyedBy ks (invites st)" and "ApplyRecord C r st = Inr st'" and "distinct (ks @ recordKeys C r)"
  shows "ApplyRecord (C\<lparr>rangeRank := p\<rparr>) r st = Inr st' \<and> keyedBy (ks @ recordKeys C r) (invites st')"
proof -
  obtain cs st1 where cs: "recordContents C r = Some cs" "rfold (applyChangeContent C r) cs st = Inr st1"
    "st' = st1\<lparr>lastRecordId := rec_Id r\<rparr>"
    using assms(2) by (auto simp: ApplyRecord_Inr)
  from applyContents_rank[OF assms(1) cs(2), of p] assms(3) cs
  have "rfold (applyChangeContent (C\<lparr>rangeRank := p\<rparr>) r) cs st = Inr st1" "keyedBy (ks @ recordKeys C r) (invites st')"
    by (simp_all add: recordKeys_def)
  then show ?thesis
    using assms(2) cs by (auto simp: ApplyRecord_Inr)
qed

lemma applyRoot_invites:
  assumes "applyRoot C r (emptyAclState i key sv) = Inr st"
  shows "invites st = []"
proof -
  from assms obtain root where root: "rec_Model r = Some (AclRootModel root)"
    by (auto simp: applyRoot_def split: option.splits AclModel.splits)
  show ?thesis
  proof (cases "ro_oneToOneInfo root")
    case None
    with assms root show ?thesis
      by (rule_tac applyRoot_plain_frame) (auto simp: emptyAclState_def)
  next
    case (Some info)
    with assms root have "setOneToOneAcl C (rec_Id r) info (emptyAclState i key sv) = Inr st"
      by (simp add: applyRoot_def)
    then show ?thesis
      by (rule setOneToOneAcl_frame) (simp add: emptyAclState_def)
  qed
qed

text \<open>A log without two invites of one key is built into the same state whatever the order of the ranges.\<close>

lemma rest_rank:
  assumes "keyedBy ks (invites st)" and "rfold (ApplyRecord C) records st = Inr st'"
    and "distinct (ks @ inviteKeys C records)"
  shows "rfold (ApplyRecord (C\<lparr>rangeRank := p\<rparr>)) records st = Inr st'"
  using assms
proof (induction records arbitrary: ks st)
  case (Cons r records)
  then obtain st1 where st1: "ApplyRecord C r st = Inr st1" "rfold (ApplyRecord C) records st1 = Inr st'"
    by (auto simp: result_simps)
  have "ApplyRecord (C\<lparr>rangeRank := p\<rparr>) r st = Inr st1" "keyedBy (ks @ recordKeys C r) (invites st1)"
    using ApplyRecord_rank[OF Cons.prems(1) st1(1), of p] Cons.prems(3) by (auto simp: inviteKeys_def)
  moreover from Cons.IH[OF this(2) st1(2)] Cons.prems(3)
  have "rfold (ApplyRecord (C\<lparr>rangeRank := p\<rparr>)) records st1 = Inr st'"
    by (simp add: inviteKeys_def)
  ultimately show ?case
    by simp
qed simp

lemma Build_rank:
  assumes "Build C key sv records = Inr st" and "distinct (inviteKeys C records)"
  shows "Build (C\<lparr>rangeRank := p\<rparr>) key sv records = Inr st"
proof -
  obtain root rest where records: "records = root # rest"
    using assms(1) by (cases records) (simp_all add: Build_def)
  let ?new = "case key of Some key \<Rightarrow> newAclStateWithKeys C root key sv | None \<Rightarrow> newAclState C root sv"
  obtain st0 where st0: "?new = Inr st0" "rfold (ApplyRecord C) rest st0 = Inr st"
    using assms(1) by (auto simp: Build_def records result_simps)
  have "invites st0 = []"
    using st0(1) applyRoot_invites
    by (auto simp: newAclStateWithKeys_def newAclState_def split: option.splits)
  then have "keyedBy [] (invites st0)"
    by (simp add: keyedBy_def gm_wf_def)
  moreover have "distinct ([] @ inviteKeys C rest)"
    using assms(2) by (simp add: records inviteKeys_def)
  ultimately have "rfold (ApplyRecord (C\<lparr>rangeRank := p\<rparr>)) rest st0 = Inr st"
    using st0(2) by (intro rest_rank)
  then show ?thesis
    using st0(1) unfolding Build_def records list.case rank_free by simp
qed

end
