(* ===== verification/AclStorage.thy ===== *)
theory AclStorage
  imports AclProperties AclInvites
begin

text \<open>
  The contract between the ACL list and its storage, the in-memory storage as its provider, and
  what the list gets from it: loading by scan gives what the walk along the previous ids gives, and
  a list rebuilt from its storage is the list as it was.
\<close>

section \<open>Positions\<close>

lemma indexFrom_append: "indexFrom n (xs @ ys) m = indexFrom (n + length xs) ys (indexFrom n xs m)"
  by (induction xs arbitrary: n m) simp_all

lemma indexFrom_notin: "i \<notin> set xs \<Longrightarrow> mget (indexFrom n xs m) i = mget m i"
  by (induction xs arbitrary: n m) simp_all

lemma indexFrom_nth:
  "distinct xs \<Longrightarrow> j < length xs \<Longrightarrow> mget (indexFrom n xs m) (xs ! j) = Some (n + j)"
proof (induction xs arbitrary: n m j)
  case (Cons x xs)
  then show ?case
    by (cases j) (simp_all add: indexFrom_notin)
qed simp

lemma indexFrom_Some:
  assumes "distinct xs" and "mget (indexFrom n xs []) i = Some p"
  shows "n \<le> p \<and> p < n + length xs \<and> xs ! (p - n) = i"
proof (cases "i \<in> set xs")
  case True
  then obtain j where "j < length xs" "i = xs ! j"
    by (auto simp: in_set_conv_nth)
  with assms indexFrom_nth[OF assms(1), of j n "[]"] show ?thesis
    by auto
qed (use assms in \<open>simp add: indexFrom_notin\<close>)

lemma indexFrom_None: "mget (indexFrom n xs []) i = None \<Longrightarrow> i \<notin> set xs"
proof (induction xs arbitrary: n rule: rev_induct)
  case (snoc x xs)
  then show ?case
    by (auto simp: indexFrom_append split: if_splits)
qed simp

section \<open>Facts about decoding and building\<close>

lemma unmarshalForState_id: "unmarshalForState C K b raw = Inr r \<Longrightarrow> rec_Id r = rw_Id raw"
  by (auto simp: unmarshalForState_def UnmarshallWithId_def result_simps split: if_splits)

lemma unmarshalForState_root:
  "unmarshalForState C K b raw = Inr r \<Longrightarrow> rw_Id raw = rb_id b \<Longrightarrow> rec_PrevId r = []"
  by (auto simp: unmarshalForState_def UnmarshallWithId_def result_simps)

lemma decoded_ids:
  assumes "rmap (\<lambda>sr. unmarshalForState C K b (srRawRecordWithId sr)) srs = Inr records"
  shows "map rec_Id records = map sr_Id srs"
proof (rule nth_equalityI)
  show "length (map rec_Id records) = length (map sr_Id srs)"
    using rmap_Inr_length[OF assms] by simp
next
  fix j
  assume "j < length (map rec_Id records)"
  then have j: "j < length srs" "j < length records"
    using rmap_Inr_length[OF assms] by simp_all
  from unmarshalForState_id[OF rmap_Inr_nth[OF assms j(1)]] j
  show "map rec_Id records ! j = map sr_Id srs ! j"
    by (simp add: srRawRecordWithId_def)
qed

lemma prevIdsMatch_nth:
  "prevIdsMatch records \<longleftrightarrow> (\<forall>j. Suc j < length records \<longrightarrow> rec_PrevId (records ! Suc j) = rec_Id (records ! j))"
proof (induction records rule: prevIdsMatch.induct)
  case (1 r1 r2 rest)
  then show ?case
    by (auto simp: nth_Cons split: nat.splits)
qed auto

lemma prevIdsMatch_snoc:
  "records \<noteq> [] \<Longrightarrow>
   prevIdsMatch (records @ [r]) \<longleftrightarrow> prevIdsMatch records \<and> rec_PrevId r = rec_Id (last records)"
  by (induction records rule: prevIdsMatch.induct) auto

lemma Build_snoc:
  "records \<noteq> [] \<Longrightarrow> Build C key sv (records @ [r]) = rbind (Build C key sv records) (ApplyRecord C r)"
  by (cases records) (auto simp: Build_def rfold_append rbind_assoc rbind_def split: sum.splits)

lemma Build_fixed:
  assumes "Build C key sv records = Inr st"
  shows "st_key st = key \<and> st_contentValidator st = \<lparr>shouldValidate = sv, admission = False\<rparr>
    \<and> lastRecordId st = rec_Id (last records)"
  using assms
proof (induction records arbitrary: st rule: rev_induct)
  case (snoc r records)
  show ?case
  proof (cases "records = []")
    case True
    with snoc.prems show ?thesis
      by (auto simp: Build_def newAclState_def newAclStateWithKeys_def result_simps
          split: option.splits dest: applyRoot_inv)
  next
    case False
    with snoc.prems obtain st0 where "Build C key sv records = Inr st0" "ApplyRecord C r st0 = Inr st"
      by (auto simp: Build_snoc result_simps)
    with snoc.IH ApplyRecord_fixed show ?thesis
      by fastforce
  qed
qed (simp add: Build_def)

lemma built_Copy:
  assumes "Build C (Some key) sv records = Inr st"
  shows "Copy sv st = Inr st"
  using Build_fixed[OF assms] by (cases st) (simp add: Copy_def)

lemma Build_chain:
  "Build C key sv records = Inr st \<Longrightarrow> prevIdsMatch records"
proof (induction records arbitrary: st rule: rev_induct)
  case (snoc r records)
  show ?case
  proof (cases "records = []")
    case False
    with snoc.prems obtain st0 where st0: "Build C key sv records = Inr st0" "ApplyRecord C r st0 = Inr st"
      by (auto simp: Build_snoc result_simps)
    with Build_fixed[OF st0(1)] snoc.IH[OF st0(1)] False show ?thesis
      by (auto simp: prevIdsMatch_snoc ApplyRecord_Inr)
  qed simp
qed simp

text \<open>
  A list that agrees with its storage: its records are the stored ones decoded, its index numbers
  them, its state is the one built from them.
\<close>

definition list_ok ::
    "crypto \<Rightarrow> codec \<Rightarrow> 's StorageOps \<Rightarrow> ('s \<Rightarrow> StorageRecord list) \<Rightarrow> privkey \<Rightarrow> AcceptorVerifier
      \<Rightarrow> 's aclList \<Rightarrow> bool" where
  "list_ok C K S view key verifier a \<longleftrightarrow>
     rmap (\<lambda>sr. unmarshalForState C K (al_builder a) (srRawRecordWithId sr)) (view (al_storage a))
       = Inr (al_records a)
     \<and> al_indexes a = indexFrom 0 (map rec_Id (al_records a)) []
     \<and> Build C (Some key) (verifierShouldValidate verifier) (al_records a) = Inr (al_state a)
     \<and> al_id a = so_Id S (al_storage a)
     \<and> al_builder a = \<lparr>rb_id = al_id a, rb_signKey = Some key, rb_verifier = verifier\<rparr>
     \<and> al_root a = srRawRecordWithId (hd (view (al_storage a)))"

lemma AddRawRecord_Inr:
  assumes "AddRawRecord C K S raw a = Inr a'"
  obtains r :: AclRecord and st0 st s where "mget (al_indexes a) (rw_Id raw) = None"
    and "unmarshalForState C K (al_builder a) raw = Inr r"
    and "Copy (verifierShouldValidate (rb_verifier (al_builder a))) (al_state a) = Inr st0"
    and "ApplyRecord C r st0 = Inr st"
    and "so_AddAll S [\<lparr>sr_RawRecord = rw_Payload raw, sr_PrevId = rec_PrevId r,
           sr_Id = rec_Id r, sr_Order = length (al_records a) + 1,
           sr_ChangeSize = length (rw_Payload raw)\<rparr>] (al_storage a) = Inr s"
    and "a' = a\<lparr>al_state := st, al_records := al_records a @ [r],
           al_indexes := mput (rec_Id r) (length (al_records a)) (al_indexes a), al_storage := s\<rparr>"
proof -
  from assms have new: "mget (al_indexes a) (rw_Id raw) = None"
    by (simp add: AddRawRecord_def split: if_split_asm)
  show thesis
    using assms that[OF new] by (simp only: AddRawRecord_def new rbind_eq_Inr simp_thms if_False sum.inject) blast
qed

lemma rmap_snoc: "rmap f (xs @ [x]) = rbind (rmap f xs) (\<lambda>ys. rbind (f x) (\<lambda>y. Inr (ys @ [y])))"
  by (induction xs) (auto simp: rbind_assoc rbind_def split: sum.splits)

section \<open>The storage contract\<close>

locale acl_storage =
  fixes S :: "'s StorageOps"
    and view :: "'s \<Rightarrow> StorageRecord list"
    and inv :: "'s \<Rightarrow> bool"
  assumes nonempty: "inv s \<Longrightarrow> view s \<noteq> []"
    and ids_distinct: "inv s \<Longrightarrow> distinct (map sr_Id (view s))"
    and id_root: "inv s \<Longrightarrow> so_Id S s = sr_Id (hd (view s))"
    and root_hd: "inv s \<Longrightarrow> so_Root S s = Inr (hd (view s))"
    and head_last: "inv s \<Longrightarrow> so_Head S s = Inr (sr_Id (last (view s)))"
    and get_nth: "inv s \<Longrightarrow> j < length (view s) \<Longrightarrow> so_Get S s (sr_Id (view s ! j)) = Inr (view s ! j)"
    and scan_all: "inv s \<Longrightarrow> so_GetAfterOrder S s 1 = Inr (view s)"
    and add_snoc: "inv s \<Longrightarrow> sr_Id r \<notin> set (map sr_Id (view s)) \<Longrightarrow> so_AddAll S [r] s = Inr s' \<Longrightarrow>
      inv s' \<and> view s' = view s @ [r]"
begin

text \<open>The records of the log, decoded in storage order.\<close>

lemma scan_eq:
  "inv s \<Longrightarrow> loadRecordsByScan C K b S s = rmap (\<lambda>sr. unmarshalForState C K b (srRawRecordWithId sr)) (view s)"
  by (simp only: loadRecordsByScan_def scan_all rbind_Inr)

lemma read_nth:
  assumes "inv s"
    and recs: "rmap (\<lambda>sr. unmarshalForState C K b (srRawRecordWithId sr)) (view s) = Inr records"
    and ids: "map rec_Id records = map sr_Id (view s)" and j: "j < length records"
  shows "rbind (so_Get S s (rec_Id (records ! j)))
      (\<lambda>sr. unmarshalForState C K b (srRawRecordWithId sr)) = Inr (records ! j)"
proof -
  have len: "length records = length (view s)"
    using recs by (rule rmap_Inr_length)
  have "rec_Id (records ! j) = sr_Id (view s ! j)"
    using arg_cong[OF ids, of "\<lambda>l. l ! j"] j len by simp
  then show ?thesis
    using get_nth[OF assms(1), of j] rmap_Inr_nth[OF recs, of j] j len by simp
qed

lemma walk_from:
  assumes root: "rec_PrevId (hd records) = []" and ne: "\<And>j. j < length records \<Longrightarrow> rec_Id (records ! j) \<noteq> []"
    and chain: "\<And>j. Suc j < length records \<Longrightarrow> rec_PrevId (records ! Suc j) = rec_Id (records ! j)"
    and read: "\<And>j. j < length records \<Longrightarrow> rbind (so_Get S s (rec_Id (records ! j)))
      (\<lambda>sr. unmarshalForState C K b (srRawRecordWithId sr)) = Inr (records ! j)"
  shows "j < length records \<Longrightarrow>
    walkPrevIds C K b S s (rec_Id (records ! j)) acc = Some (Inr (take (Suc j) records @ acc))"
proof (induction j arbitrary: acc)
  case 0
  have "rec_PrevId (records ! 0) = []" and "take (Suc 0) records = [records ! 0]"
    using root 0 by (simp_all add: hd_conv_nth take_Suc_conv_app_nth)
  then show ?case
    using read[OF 0] by (subst walkPrevIds.simps) simp
next
  case (Suc j)
  have "rec_PrevId (records ! Suc j) = rec_Id (records ! j)" and "rec_Id (records ! j) \<noteq> []"
    using chain ne Suc.prems by simp_all
  then show ?case
    using read[OF Suc.prems] Suc.IH[of "records ! Suc j # acc"] Suc.prems
    by (subst walkPrevIds.simps) (simp add: take_Suc_conv_app_nth)
qed

text \<open>A scan that passes the chain check gives what the walk from the head gives.\<close>

lemma scan_eq_walk:
  assumes "inv s" and scan: "loadRecordsByScan C K b S s = Inr records"
    and chain: "isContiguousChain records (so_Id S s) hd_id" and b: "rb_id b = so_Id S s"
    and ne: "\<And>j. j < length records \<Longrightarrow> rec_Id (records ! j) \<noteq> []"
  shows "loadRecordsByPrevId C K b S s hd_id = Some (Inr records)"
proof -
  have recs: "rmap (\<lambda>sr. unmarshalForState C K b (srRawRecordWithId sr)) (view s) = Inr records"
    using scan by (simp only: scan_eq[OF assms(1)])
  note ids = decoded_ids[OF recs]
  have nz: "records \<noteq> []" "rec_Id (last records) = hd_id" "prevIdsMatch records"
    using chain by (auto simp: isContiguousChain_def split: if_splits)
  have len: "length records = length (view s)"
    using recs by (rule rmap_Inr_length)
  have "unmarshalForState C K b (srRawRecordWithId (view s ! 0)) = Inr (records ! 0)"
    using rmap_Inr_nth[OF recs, of 0] nonempty[OF assms(1)] by simp
  moreover have "rw_Id (srRawRecordWithId (view s ! 0)) = rb_id b"
    using b id_root[OF assms(1)] nonempty[OF assms(1)] by (simp add: srRawRecordWithId_def hd_conv_nth)
  ultimately have root: "rec_PrevId (hd records) = []"
    using unmarshalForState_root nz(1) by (simp add: hd_conv_nth)
  have "walkPrevIds C K b S s (rec_Id (records ! (length records - 1))) []
      = Some (Inr (take (Suc (length records - 1)) records @ []))"
  proof (rule walk_from[OF root ne])
    show "rec_PrevId (records ! Suc j) = rec_Id (records ! j)" if "Suc j < length records" for j
      using nz(3) that by (simp add: prevIdsMatch_nth)
    show "rbind (so_Get S s (rec_Id (records ! j))) (\<lambda>sr. unmarshalForState C K b (srRawRecordWithId sr))
        = Inr (records ! j)" if "j < length records" for j
      using assms(1) recs ids that by (rule read_nth)
  qed (use nz in simp_all)
  then show ?thesis
    using nz by (simp add: loadRecordsByPrevId_def last_conv_nth)
qed

lemma list_ok_rebuild:
  assumes inv: "inv (al_storage a)" and ok: "list_ok C K S view key verifier a"
  shows "BuildAclListWithIdentity C K S key (al_storage a) verifier = Some (Inr a)"
proof -
  note o = ok[unfolded list_ok_def]
  have recs: "rmap (\<lambda>sr. unmarshalForState C K (al_builder a) (srRawRecordWithId sr)) (view (al_storage a))
      = Inr (al_records a)"
    using o by blast
  note ids = decoded_ids[OF recs]
  have ne: "al_records a \<noteq> []"
    using rmap_Inr_length[OF recs] nonempty[OF inv] by auto
  have "rec_Id (hd (al_records a)) = so_Id S (al_storage a)"
    using arg_cong[OF ids, of hd] ne nonempty[OF inv] id_root[OF inv] by (simp add: hd_map)
  moreover have last: "rec_Id (last (al_records a)) = sr_Id (last (view (al_storage a)))"
    using arg_cong[OF ids, of last] ne nonempty[OF inv] by (simp add: last_map)
  ultimately have "isContiguousChain (al_records a) (so_Id S (al_storage a)) (sr_Id (last (view (al_storage a))))"
    using ne o by (auto simp: isContiguousChain_def intro: Build_chain)
  then have "loadRecords C K (al_builder a) S (al_storage a) (so_Id S (al_storage a))
      (sr_Id (last (view (al_storage a)))) = Some (Inr (al_records a))"
    using recs by (simp add: loadRecords_def scan_eq[OF inv])
  moreover have "al_builder a = \<lparr>rb_id = so_Id S (al_storage a), rb_signKey = Some key, rb_verifier = verifier\<rparr>"
    using o by simp
  ultimately show ?thesis
    using o by (simp add: BuildAclListWithIdentity_def Let_def head_last[OF inv] root_hd[OF inv])
qed

lemma AddRawRecord_ok:
  assumes inv: "inv (al_storage a)" and ok: "list_ok C K S view key verifier a"
    and add: "AddRawRecord C K S raw a = Inr a'"
  shows "inv (al_storage a') \<and> list_ok C K S view key verifier a'"
  using add
proof (rule AddRawRecord_Inr)
  fix r :: AclRecord and st0 st s
  let ?sr = "\<lparr>sr_RawRecord = rw_Payload raw, sr_PrevId = rec_PrevId r, sr_Id = rec_Id r,
    sr_Order = length (al_records a) + 1, sr_ChangeSize = length (rw_Payload raw)\<rparr>"
  assume new: "mget (al_indexes a) (rw_Id raw) = None"
    and r: "unmarshalForState C K (al_builder a) raw = Inr r"
    and cp: "Copy (verifierShouldValidate (rb_verifier (al_builder a))) (al_state a) = Inr st0"
    and st: "ApplyRecord C r st0 = Inr st" and s: "so_AddAll S [?sr] (al_storage a) = Inr s"
    and a': "a' = a\<lparr>al_state := st, al_records := al_records a @ [r],
      al_indexes := mput (rec_Id r) (length (al_records a)) (al_indexes a), al_storage := s\<rparr>"
  note o = ok[unfolded list_ok_def]
  have recs: "rmap (\<lambda>sr. unmarshalForState C K (al_builder a) (srRawRecordWithId sr)) (view (al_storage a))
      = Inr (al_records a)"
    and built: "Build C (Some key) (verifierShouldValidate verifier) (al_records a) = Inr (al_state a)"
    using o by blast+
  have rid: "rec_Id r = rw_Id raw"
    using r by (rule unmarshalForState_id)
  have "rw_Id raw \<notin> set (map rec_Id (al_records a))"
    using new o indexFrom_None by metis
  with add_snoc[OF inv _ s] have s': "inv s" "view s = view (al_storage a) @ [?sr]"
    by (simp_all add: decoded_ids[OF recs] rid)
  have ne: "al_records a \<noteq> []"
    using rmap_Inr_length[OF recs] nonempty[OF inv] by auto
  have "st0 = al_state a"
    using cp o built_Copy[OF built] by simp
  with st built ne have "Build C (Some key) (verifierShouldValidate verifier) (al_records a @ [r]) = Inr st"
    by (simp add: Build_snoc)
  moreover have "so_Id S s = so_Id S (al_storage a)" and "hd (view s) = hd (view (al_storage a))"
    using id_root[OF inv] id_root[OF s'(1)] s'(2) nonempty[OF inv] by simp_all
  moreover have "srRawRecordWithId ?sr = raw"
    by (simp add: srRawRecordWithId_def rid)
  ultimately show ?thesis
    using o r s' recs by (simp add: a' list_ok_def rmap_snoc indexFrom_append)
qed

lemma AddRawRecords_ok:
  "inv (al_storage a) \<Longrightarrow> list_ok C K S view key verifier a \<Longrightarrow> AddRawRecords C K S raws a = (a', e) \<Longrightarrow>
   inv (al_storage a') \<and> list_ok C K S view key verifier a'"
proof (induction raws arbitrary: a)
  case (Cons raw raws)
  show ?case
  proof (cases "AddRawRecord C K S raw a")
    case (Inl err)
    with Cons show ?thesis
      by (simp split: if_split_asm)
  next
    case (Inr a1)
    with Cons.prems(3) have "AddRawRecords C K S raws a1 = (a', e)"
      by simp
    with AddRawRecord_ok[OF Cons.prems(1,2) Inr] Cons.IH show ?thesis
      by blast
  qed
qed simp

text \<open>A list built over a storage that holds the root alone agrees with it.\<close>

lemma built_from_root_ok:
  assumes inv: "inv s" and one: "view s = [root]"
    and built: "BuildAclListWithIdentity C K S key s verifier = Some (Inr a)"
  shows "al_storage a = s \<and> list_ok C K S view key verifier a"
proof -
  let ?b = "\<lparr>rb_id = so_Id S s, rb_signKey = Some key, rb_verifier = verifier\<rparr>"
  have idr: "so_Id S s = sr_Id root" and hd: "so_Head S s = Inr (sr_Id root)" and rt: "so_Root S s = Inr root"
    using id_root[OF inv] head_last[OF inv] root_hd[OF inv] one by simp_all
  show ?thesis
  proof (cases "unmarshalForState C K ?b (srRawRecordWithId root)")
    case (Inr r)
    then have "rec_Id r = sr_Id root"
      using unmarshalForState_id by (fastforce simp: srRawRecordWithId_def)
    then have "loadRecords C K ?b S s (so_Id S s) (sr_Id root) = Some (Inr [r])"
      using Inr by (simp add: loadRecords_def scan_eq[OF inv] one isContiguousChain_def idr)
    with built Inr show ?thesis
      by (auto simp: BuildAclListWithIdentity_def Let_def hd rt one list_ok_def rbind_eq_Inr)
  next
    case (Inl e)
    then have "loadRecords C K ?b S s (so_Id S s) (sr_Id root) = Some (Inl e)"
      using get_nth[OF inv, of 0]
      by (simp add: loadRecords_def scan_eq[OF inv] one loadRecordsByPrevId_def walkPrevIds.simps)
    with built show ?thesis
      by (simp add: BuildAclListWithIdentity_def Let_def hd)
  qed
qed

end

section \<open>The in-memory storage keeps the contract\<close>

definition mem_inv :: "inMemoryStorage \<Rightarrow> bool" where
  "mem_inv t \<longleftrightarrow> ms_records t \<noteq> [] \<and> distinct (map sr_Id (ms_records t))
     \<and> ms_id t = sr_Id (hd (ms_records t)) \<and> ms_root t = hd (ms_records t)
     \<and> ms_head t = sr_Id (last (ms_records t))
     \<and> ms_recordsToIndex t = indexFrom 0 (map sr_Id (ms_records t)) []"

lemma msGet_nth:
  assumes "mem_inv t" and j: "j < length (ms_records t)"
  shows "msGet t (sr_Id (ms_records t ! j)) = Inr (ms_records t ! j)"
  using assms indexFrom_nth[of "map sr_Id (ms_records t)" j 0 "[]"]
  by (simp add: mem_inv_def msGet_def)

lemma msAddAll_snoc:
  "mem_inv t \<Longrightarrow> sr_Id r \<notin> set (map sr_Id (ms_records t)) \<Longrightarrow> msAddAll [r] t = Inr t' \<Longrightarrow>
   mem_inv t' \<and> ms_records t' = ms_records t @ [r]"
  by (auto simp: mem_inv_def msAddAll_def indexFrom_append)

interpretation mem: acl_storage memOps ms_records mem_inv
proof unfold_locales
  show "so_Get memOps s (sr_Id (ms_records s ! j)) = Inr (ms_records s ! j)"
    if "mem_inv s" "j < length (ms_records s)" for s j
    using that by (simp add: memOps_def msGet_nth)
  show "mem_inv s' \<and> ms_records s' = ms_records s @ [r]"
    if "mem_inv s" "sr_Id r \<notin> set (map sr_Id (ms_records s))" "so_AddAll memOps [r] s = Inr s'" for s r s'
    using that by (intro msAddAll_snoc) (simp_all add: memOps_def)
qed (auto simp: mem_inv_def memOps_def msGetAfterOrder_def Suc_le_eq)

lemma storageRecords_length [simp]: "length (storageRecords prev n raws) = length raws"
  by (induction raws arbitrary: prev n) simp_all

lemma storageRecords_raw [simp]: "map srRawRecordWithId (storageRecords prev n raws) = raws"
  by (induction raws arbitrary: prev n) (simp_all add: srRawRecordWithId_def)

lemma storageRecords_ids [simp]: "map sr_Id (storageRecords prev n raws) = map rw_Id raws"
  by (induction raws arbitrary: prev n) simp_all

lemma storageRecords_Nil [simp]: "storageRecords prev n raws = [] \<longleftrightarrow> raws = []"
  by (cases raws) simp_all

lemma NewInMemoryStorage_inv:
  assumes "NewInMemoryStorage raws = Inr s" and "distinct (map rw_Id raws)"
  shows "mem_inv s" and "map srRawRecordWithId (ms_records s) = raws"
proof -
  from assms(1) have "raws \<noteq> []"
    by (auto simp: NewInMemoryStorage_def)
  moreover from this have "sr_Id (last (storageRecords [] 1 raws)) = rw_Id (last raws)"
    by (metis last_map storageRecords_ids storageRecords_Nil)
  ultimately show "mem_inv s" and "map srRawRecordWithId (ms_records s) = raws"
    using assms by (auto simp: NewInMemoryStorage_def Let_def mem_inv_def simp del: storageRecords.simps)
qed

section \<open>Properties\<close>

text \<open>Raw records of the example space: the payload of record \<open>i\<close> is the byte string \<open>i\<close>.\<close>

definition recordTable :: "AclRecord list \<Rightarrow> (bytes \<times> AclRecord) list" where
  "recordTable records = map (\<lambda>r. (rec_Id r, r)) records"

definition exampleRaw :: "AclRecord \<Rightarrow> RawRecordWithId" where
  "exampleRaw r = \<lparr>rw_Payload = rec_Id r, rw_Id = rec_Id r\<rparr>"

definition exampleContents :: "AclRecord \<Rightarrow> AclContentValue list" where
  "exampleContents r = (case rec_Model r of Some (AclData cs) \<Rightarrow> cs | _ \<Rightarrow> [])"

definition exampleRootModel :: "AclRecord \<Rightarrow> (bytes \<times> AclRoot) option" where
  "exampleRootModel r =
     (case rec_Model r of Some (AclRootModel ro) \<Rightarrow> Some (''K'' @ rec_Identity r, ro) | _ \<Rightarrow> None)"

definition codecOf :: "AclRecord list \<Rightarrow> codec" where
  "codecOf records = \<lparr>
     unmarshalRawRecord = \<lambda>p. map_option (\<lambda>r. \<lparr>raw_Payload = p, raw_Signature = rec_Identity r @ p,
       raw_AcceptorIdentity = [], raw_AcceptorSignature = []\<rparr>) (map_of (recordTable records) p),
     unmarshalRecord = \<lambda>p. map_option (\<lambda>r. \<lparr>cr_PrevId = rec_PrevId r, cr_Identity = ''K'' @ rec_Identity r,
       cr_Data = p\<rparr>) (map_of (recordTable records) p),
     unmarshalAclRoot = \<lambda>p. Option.bind (map_of (recordTable records) p) exampleRootModel,
     unmarshalEd25519PublicKey = \<lambda>_. None,
     keepIdentityFast = \<lambda>_ _. None,
     cidOfBytes = \<lambda>d. if d = [] then None else Some d\<rparr>"

definition cryptoOf :: "AclRecord list \<Rightarrow> crypto" where
  "cryptoOf records = exampleCrypto\<lparr>unmarshalAclData := \<lambda>p. map_option exampleContents (map_of (recordTable records) p)\<rparr>"

text \<open>The storage, the list over the root alone, and the list after the rest of the log was added.\<close>

definition exampleStore :: "AclRecord list \<Rightarrow> inMemoryStorage" where
  "exampleStore rs = projr (NewInMemoryStorage (map exampleRaw rs))"

definition exampleList :: "inMemoryStorage aclList" where
  "exampleList = projr (the (BuildAclListWithIdentity (cryptoOf exampleLog) (codecOf exampleLog) memOps ''so''
     (exampleStore [exampleRoot]) ValidateFull))"

definition exampleListAfter :: "inMemoryStorage aclList" where
  "exampleListAfter =
     fst (AddRawRecords (cryptoOf exampleLog) (codecOf exampleLog) memOps (map exampleRaw (tl exampleLog)) exampleList)"

definition exampleBuilder :: aclRecordBuilder where
  "exampleBuilder = \<lparr>rb_id = ''0'', rb_signKey = Some ''so'', rb_verifier = ValidateFull\<rparr>"

lemma exampleStore_root: "NewInMemoryStorage [exampleRaw exampleRoot] = Inr (exampleStore [exampleRoot])"
  by code_simp

lemma exampleList_built:
  "BuildAclListWithIdentity (cryptoOf exampleLog) (codecOf exampleLog) memOps ''so'' (exampleStore [exampleRoot]) ValidateFull
   = Some (Inr exampleList)"
  by code_simp

lemma exampleList_added:
  "AddRawRecords (cryptoOf exampleLog) (codecOf exampleLog) memOps (map exampleRaw (tl exampleLog)) exampleList
   = (exampleListAfter, None)"
  by code_simp

lemma reached_list_ok:
  assumes "NewInMemoryStorage [root] = Inr s"
    and "BuildAclListWithIdentity C K memOps key s verifier = Some (Inr a)"
    and "AddRawRecords C K memOps raws a = (a', e)"
  shows "mem_inv (al_storage a') \<and> list_ok C K memOps ms_records key verifier a'"
proof -
  have inv: "mem_inv s" and raw: "map srRawRecordWithId (ms_records s) = [root]"
    using NewInMemoryStorage_inv[OF assms(1)] by simp_all
  from raw obtain r where "ms_records s = [r]"
    by auto
  from mem.built_from_root_ok[OF inv this assms(2)] inv
  have "mem_inv (al_storage a)" "list_ok C K memOps ms_records key verifier a"
    by simp_all
  from mem.AddRawRecords_ok[OF this assms(3)] show ?thesis .
qed

lemma cids_nonempty:
  assumes "unmarshalForState C K b raw = Inr r" and "\<And>d. cidOfBytes K d \<noteq> Some []"
  shows "rec_Id r \<noteq> []"
  using assms
  by (fastforce simp: unmarshalForState_def UnmarshallWithId_def result_simps verifyRaw_def VerifyCid_def
      split: if_split_asm option.split_asm)

lemma VerifyAcceptor_rank [simp, rank_free]:
  "VerifyAcceptor (C\<lparr>rangeRank := p\<rparr>) K v raw = VerifyAcceptor C K v raw"
  by (cases v; hypsubst; unfold VerifyAcceptor.simps rank_free; rule refl)

lemma decoded_rank [simp, rank_free]:
  "ourIdentity (C\<lparr>rangeRank := p\<rparr>) = ourIdentity C"
  "fullDecodeFilter (C\<lparr>rangeRank := p\<rparr>) = fullDecodeFilter C"
  unfolding ourIdentity_def fullDecodeFilter_def rank_free by (rule refl)+

lemma decodeData_rank [simp, rank_free]:
  "isOurIdentity (C\<lparr>rangeRank := p\<rparr>) = isOurIdentity C"
  "unmarshalAclDataKeepIdentity (C\<lparr>rangeRank := p\<rparr>) = unmarshalAclDataKeepIdentity C"
  "verifyRaw (C\<lparr>rangeRank := p\<rparr>) = verifyRaw C"
  unfolding isOurIdentity_def unmarshalAclDataKeepIdentity_def verifyRaw_def rank_free by (rule refl)+

lemma unmarshalForState_rank [simp, rank_free]:
  "unmarshalForState (C\<lparr>rangeRank := p\<rparr>) = unmarshalForState C"
  unfolding unmarshalForState_def UnmarshallWithId_def decodeAclData_def rank_free by (rule refl)

lemma list_ok_rank:
  assumes "list_ok C K S view key verifier a" and "distinct (inviteKeys C (al_records a))"
  shows "list_ok (C\<lparr>rangeRank := p\<rparr>) K S view key verifier a"
proof -
  have "Build (C\<lparr>rangeRank := p\<rparr>) (Some key) (verifierShouldValidate verifier) (al_records a) = Inr (al_state a)"
    using assms by (intro Build_rank) (simp_all add: list_ok_def)
  then show ?thesis
    using assms(1) unfolding list_ok_def rank_free by blast
qed

text \<open>
  A space with two open invites and a rotation of the read key that re-encrypts the key for both; and
  the same log with one key for both invites.
\<close>

definition openInviteRecord :: "string \<Rightarrow> string \<Rightarrow> pubkey \<Rightarrow> AclRecord" where
  "openInviteRecord i prev k = dataRecord i prev ''o'' [ContentInvite \<lparr>ai_inviteKey = ''K'' @ k,
     ai_inviteType = AnyoneCanJoin, ai_permissions = AclPermissionsReader, ai_encryptedReadKey = Some (k @ ''r1'')\<rparr>]"

definition openRotationRecord :: "pubkey \<Rightarrow> pubkey \<Rightarrow> AclRecord" where
  "openRotationRecord k1 k2 = dataRecord ''3'' ''2'' ''o'' [ReadKeyChange
     \<lparr>rk_accountKeys = [\<lparr>ek_identity = ''Ko'', ek_encryptedReadKey = Some ''or2''\<rparr>],
      rk_metadataPubKey = ''Km2'', rk_encryptedMetadataPrivKey = Some ''r2sm2'',
      rk_encryptedOldReadKey = Some ''r2r1'',
      rk_inviteKeys = [\<lparr>ek_identity = ''K'' @ k1, ek_encryptedReadKey = Some (k1 @ ''r2'')\<rparr>,
        \<lparr>ek_identity = ''K'' @ k2, ek_encryptedReadKey = Some (k2 @ ''r2'')\<rparr>]\<rparr>]"

definition openLog :: "pubkey \<Rightarrow> pubkey \<Rightarrow> AclRecord list" where
  "openLog k1 k2 = [exampleRoot, openInviteRecord ''1'' ''0'' k1, openInviteRecord ''2'' ''1'' k2, openRotationRecord k1 k2]"

definition listOf :: "AclRecord list \<Rightarrow> inMemoryStorage aclList" where
  "listOf records = projr (the (BuildAclListWithIdentity (cryptoOf records) (codecOf records) memOps ''so''
     (exampleStore [exampleRoot]) ValidateFull))"

definition listAfter :: "AclRecord list \<Rightarrow> inMemoryStorage aclList" where
  "listAfter records = fst (AddRawRecords (cryptoOf records) (codecOf records) memOps (map exampleRaw (tl records)) (listOf records))"

text \<open>The invites visited from the last one on.\<close>

definition lastFirst :: "pubkey \<Rightarrow> (string, Invite) gomap \<Rightarrow> string \<Rightarrow> nat" where
  "lastFirst k m i = (if i = ''2'' then 0 else 1)"



text \<open>
  With one key for both invites the condition fails, and so does the conclusion: the two orders leave the
  new read key with different invites, and the other invite with the read key from before the rotation.
\<close>

lemma shared_invite_key_order:
  "map (\<lambda>(i, x). inv_encryptedReadKey x) (invites (al_state (listAfter (openLog ''i'' ''i''))))
     = [Some ''ir2'', Some ''ir1'']
   \<and> map (\<lambda>(i, x). inv_encryptedReadKey x) (invites (al_state (projr (the (BuildAclListWithIdentity
       ((cryptoOf (openLog ''i'' ''i''))\<lparr>rangeRank := lastFirst\<rparr>) (codecOf (openLog ''i'' ''i'')) memOps ''so''
       (al_storage (listAfter (openLog ''i'' ''i''))) ValidateFull)))))
     = [Some ''ir1'', Some ''ir2'']"
  by code_simp

text \<open>
  C14. The fast loading path is right: when the records scanned in storage order pass
  \<open>isContiguousChain\<close> against the root and the head, the walk from the head along the previous ids,
  which the code falls back to, ends and returns the same records in the same order. The content
  hash is a parameter; it is assumed only never to be the empty string.
\<close>

theorem load_scan_eq_walk:
  assumes "NewInMemoryStorage raws = Inr s" and "distinct (map rw_Id raws)"
    and "rb_id b = ms_id s"
    and "loadRecordsByScan C K b memOps s = Inr records"
    and "isContiguousChain records (ms_id s) head"
    and "\<forall>d. cidOfBytes K d \<noteq> Some []"
  shows "loadRecordsByPrevId C K b memOps s head = Some (Inr records)"
proof (rule mem.scan_eq_walk)
  show inv: "mem_inv s"
    using assms(1,2) by (rule NewInMemoryStorage_inv)
  fix j
  assume j: "j < length records"
  have recs: "rmap (\<lambda>sr. unmarshalForState C K b (srRawRecordWithId sr)) (ms_records s) = Inr records"
    using assms(4) by (simp only: mem.scan_eq[OF inv])
  show "rec_Id (records ! j) \<noteq> []"
    using cids_nonempty[OF rmap_Inr_nth[OF recs]] j rmap_Inr_length[OF recs] assms(6) by simp
qed (use assms in \<open>simp_all add: memOps_def\<close>)

theorem load_scan_eq_walk_witness:
  "loadRecordsByPrevId (cryptoOf exampleLog) (codecOf exampleLog) exampleBuilder memOps (exampleStore exampleLog) ''4''
   = Some (Inr exampleLog)"
proof (rule load_scan_eq_walk)
  show "NewInMemoryStorage (map exampleRaw exampleLog) = Inr (exampleStore exampleLog)"
    by code_simp
  show "distinct (map rw_Id (map exampleRaw exampleLog))"
    by code_simp
  show "loadRecordsByScan (cryptoOf exampleLog) (codecOf exampleLog) exampleBuilder memOps (exampleStore exampleLog)
      = Inr exampleLog"
    by code_simp
  show "isContiguousChain exampleLog (ms_id (exampleStore exampleLog)) ''4''"
    by code_simp
  show "\<forall>d. cidOfBytes (codecOf exampleLog) d \<noteq> Some []"
    by (simp add: codecOf_def)
  show "rb_id exampleBuilder = ms_id (exampleStore exampleLog)"
    by code_simp
qed

end
