(* ===== verification/AclHistory.thy ===== *)
theory AclHistory
  imports AclStorage
begin

text \<open>
  Permission histories: which changes a record can make to them, what \<open>PermissionsAtRecord\<close> says
  at the head, and that what it says of an older record stays the same when records are added.
\<close>

section \<open>Histories across operations\<close>

definition hist :: "AclState \<Rightarrow> string \<Rightarrow> PermissionChange list" where
  "hist st k = (case mget (accountStates st) k of None \<Rightarrow> [] | Some a \<Rightarrow> as_PermissionChanges a)"

definition extendsBy :: "string \<Rightarrow> PermissionChange list \<Rightarrow> PermissionChange list \<Rightarrow> bool" where
  "extendsBy i h h' \<longleftrightarrow> (\<exists>ext. h' = h @ ext \<and> (\<forall>c \<in> set ext. pc_RecordId c = i))"

text \<open>Every history is kept and extended only by entries of the record; no account disappears.\<close>

definition histFrom :: "string \<Rightarrow> AclState \<Rightarrow> AclState \<Rightarrow> bool" where
  "histFrom i st st' \<longleftrightarrow> (\<forall>k. extendsBy i (hist st k) (hist st' k)
     \<and> (mget (accountStates st) k \<noteq> None \<longrightarrow> mget (accountStates st') k \<noteq> None))"

text \<open>The weaker relation that every content keeps: entries come from before or from the record.\<close>

definition histIds :: "string \<Rightarrow> AclState \<Rightarrow> AclState \<Rightarrow> bool" where
  "histIds i st st' \<longleftrightarrow>
     (\<forall>k c. c \<in> set (hist st' k) \<longrightarrow> pc_RecordId c = i \<or> c \<in> set (hist st k))"

lemma extendsBy_refl [simp]: "extendsBy i h h"
  by (simp add: extendsBy_def)

lemma extendsBy_snoc [simp]: "extendsBy (rec_Id r) h (h @ [\<lparr>pc_RecordId = rec_Id r, pc_Permission = p\<rparr>])"
  by (simp add: extendsBy_def)

lemma extendsBy_trans: "extendsBy i h h1 \<Longrightarrow> extendsBy i h1 h2 \<Longrightarrow> extendsBy i h h2"
  by (fastforce simp: extendsBy_def)

lemma histFrom_same: "accountStates st' = accountStates st \<Longrightarrow> histFrom i st st'"
  by (simp add: histFrom_def hist_def)

lemma histFrom_put:
  "accountStates st' = mput k a (accountStates st) \<Longrightarrow> extendsBy i (hist st k) (as_PermissionChanges a) \<Longrightarrow>
   histFrom i st st'"
  by (simp add: histFrom_def hist_def)

lemma histFrom_trans: "histFrom i st st1 \<Longrightarrow> histFrom i st1 st2 \<Longrightarrow> histFrom i st st2"
  by (meson histFrom_def extendsBy_trans)

lemma extendsBy_mem: "extendsBy i h h' \<Longrightarrow> c \<in> set h' \<Longrightarrow> pc_RecordId c = i \<or> c \<in> set h"
  by (auto simp: extendsBy_def)

lemma histFrom_ids: "histFrom i st st' \<Longrightarrow> histIds i st st'"
  unfolding histFrom_def histIds_def by (meson extendsBy_mem)

lemma histIds_trans: "histIds i st st1 \<Longrightarrow> histIds i st1 st2 \<Longrightarrow> histIds i st st2"
  by (meson histIds_def)

lemma extendedHistory_hist:
  "extendedHistory st k p r = hist st k @ [\<lparr>pc_RecordId = rec_Id r, pc_Permission = p\<rparr>]"
  by (simp add: extendedHistory_def hist_def Let_def split: option.split)

lemma rfold_rel:
  assumes "\<And>s. R s s" and "\<And>s s1 s2. R s s1 \<Longrightarrow> R s1 s2 \<Longrightarrow> R s s2"
    and "\<And>x s s'. x \<in> set xs \<Longrightarrow> f x s = Inr s' \<Longrightarrow> R s s'"
  shows "rfold f xs st = Inr st' \<Longrightarrow> R st st'"
  using assms(3)
proof (induction xs arbitrary: st)
  case (Cons x xs)
  from Cons.prems(1) obtain s1 where "f x st = Inr s1" "rfold f xs s1 = Inr st'"
    by (auto simp: result_simps)
  then show ?case
    using Cons.IH Cons.prems(2) assms(2) by (metis list.set_intros)
qed (use assms(1) in simp)

lemma histFrom_refl [simp]: "histFrom i st st"
  by (rule histFrom_same) simp

lemma histIds_refl [simp]: "histIds i st st"
  by (simp add: histIds_def)

lemma rfold_histFrom:
  "rfold f xs st = Inr st' \<Longrightarrow> (\<And>x s s'. x \<in> set xs \<Longrightarrow> f x s = Inr s' \<Longrightarrow> histFrom i s s') \<Longrightarrow>
   histFrom i st st'"
  by (rule rfold_rel[of "histFrom i" xs f st st']) (auto intro: histFrom_trans)

lemma rfold_histIds:
  "rfold f xs st = Inr st' \<Longrightarrow> (\<And>x s s'. x \<in> set xs \<Longrightarrow> f x s = Inr s' \<Longrightarrow> histIds i s s') \<Longrightarrow>
   histIds i st st'"
  by (rule rfold_rel[of "histIds i" xs f st st']) (auto intro: histIds_trans)

lemma unpackIfMe_accounts: "unpackIfMe C k e st = Inr st' \<Longrightarrow> accountStates st' = accountStates st"
  by (erule unpackIfMe_frame) simp

lemma dropRequestOf_accounts [simp]: "accountStates (dropRequestOf k st) = accountStates st"
  by (simp add: dropRequestOf_def split: option.split)

lemma updatePermissions_hist: "histFrom (rec_Id r) st (updatePermissions k p r st)"
  by (rule histFrom_put[of _ k]) (auto simp: updatePermissions_def Let_def getAccount_def hist_def
      zeroAccountState_def extendsBy_def split: option.split)

lemma applyPermissionChange_hist:
  "applyPermissionChange C r ch st = Inr st' \<Longrightarrow> histFrom (rec_Id r) st st'"
  by (auto simp: applyPermissionChange_def result_simps updatePermissions_hist)

lemma applyRequestJoin_hist: "applyRequestJoin C ch r st = Inr st' \<Longrightarrow> histFrom i st st'"
  by (auto simp: applyRequestJoin_def result_simps Let_def hist_def intro!: histFrom_put split: option.split)

lemma status_only_hist:
  assumes "mget (accountStates st) k = Some a"
    and "accountStates st' = mput k (a\<lparr>as_Status := s\<rparr>) (accountStates st)"
  shows "histFrom i st st'"
  using assms(2) by (rule histFrom_put) (simp add: hist_def assms(1))

lemma applyRequestDecline_hist: "applyRequestDecline q r st = Inr st' \<Longrightarrow> histFrom i st st'"
  by (auto simp: applyRequestDecline_def result_simps Let_def split: option.splits intro!: status_only_hist)

lemma applyRequestCancel_hist: "applyRequestCancel q r st = Inr st' \<Longrightarrow> histFrom i st st'"
  by (auto simp: applyRequestCancel_def result_simps Let_def split: option.splits intro!: status_only_hist)

lemma applyRequestRemove_hist: "applyRequestRemove r st = Inr st' \<Longrightarrow> histFrom i st st'"
  by (auto simp: applyRequestRemove_def result_simps Let_def split: option.splits if_splits
      intro!: status_only_hist)

lemma applyRequestAccept_hist:
  assumes "applyRequestAccept C ch r st = Inr st'"
  shows "histFrom (rec_Id r) st st'"
proof (cases "mget (requestRecords st) (ra_requestRecordId ch)")
  case (Some q)
  with assms obtain k a where "accountStates st' = mput k a (accountStates st)"
    and "as_PermissionChanges a = extendedHistory st k (ra_permissions ch) r"
    by (auto simp: applyRequestAccept_def result_simps Let_def dest!: unpackIfMe_accounts)
  then show ?thesis
    by (simp add: histFrom_put extendedHistory_hist)
qed (use assms in \<open>auto simp: applyRequestAccept_def result_simps\<close>)

lemma applyInviteJoin_hist:
  assumes "applyInviteJoinWithoutApprove C ch r st = Inr st'"
  shows "histFrom (rec_Id r) st st'"
proof (cases "mget (invites st) (ij_inviteRecordId ch)")
  case (Some q)
  with assms obtain k a p where "accountStates st' = mput k a (accountStates st)"
    and "as_PermissionChanges a = extendedHistory st k p r"
    by (auto simp: applyInviteJoinWithoutApprove_def result_simps Let_def dest!: unpackIfMe_accounts)
  then show ?thesis
    by (simp add: histFrom_put extendedHistory_hist)
qed (use assms in \<open>auto simp: applyInviteJoinWithoutApprove_def result_simps\<close>)

lemma removeAccount_hist: "removeAccount C r raw st = Inr st' \<Longrightarrow> histFrom (rec_Id r) st st'"
  by (erule removeAccount_frame, rule histFrom_put)
    (auto simp: removedAccount_def hist_def split: option.split)

lemma applyReadKeyChange_hist: "applyReadKeyChange C chp r v st = Inr st' \<Longrightarrow> histFrom i st st'"
  by (erule applyReadKeyChange_frame, rule histFrom_same) simp

lemma applyAccountRemove_hist:
  assumes "applyAccountRemove C ch r st = Inr st'"
  shows "histFrom (rec_Id r) st st'"
proof -
  from assms obtain st1 where "rfold (removeAccount C r) (ar_identities ch) st = Inr st1"
    and rk: "applyReadKeyChange C (ar_readKeyChange ch) r False st1 = Inr st'"
    by (auto simp: applyAccountRemove_def result_simps)
  then have "histFrom (rec_Id r) st st1"
    by (blast intro: rfold_histFrom removeAccount_hist)
  with applyReadKeyChange_hist[OF rk] show ?thesis
    by (blast intro: histFrom_trans)
qed

lemma applyPermissionChanges_hist:
  "applyPermissionChanges C chs r st = Inr st' \<Longrightarrow> histFrom (rec_Id r) st st'"
  unfolding applyPermissionChanges_def
  by (blast intro: rfold_histFrom applyPermissionChange_hist)

lemma addAccount_ids: "addAccount C r acc st = Inr st' \<Longrightarrow> histIds (rec_Id r) st st'"
  by (auto simp: addAccount_def result_simps Let_def histIds_def hist_def
      dest!: unpackIfMe_accounts split: if_split_asm option.split)

lemma applyAccountsAdd_ids:
  "applyAccountsAdd C accs r st = Inr st' \<Longrightarrow> histIds (rec_Id r) st st'"
  unfolding applyAccountsAdd_def guard_err_Inr
  by (blast intro: rfold_histIds addAccount_ids)

lemmas content_history = applyPermissionChange_hist applyRequestJoin_hist applyRequestDecline_hist
  applyRequestCancel_hist applyRequestRemove_hist applyRequestAccept_hist applyInviteJoin_hist
  applyReadKeyChange_hist applyAccountRemove_hist applyPermissionChanges_hist

definition isAccountsAdd :: "AclContentValue \<Rightarrow> bool" where
  "isAccountsAdd c = (case c of AccountsAdd _ \<Rightarrow> True | _ \<Rightarrow> False)"

lemma applyChangeContent_hist:
  assumes "applyChangeContent C r c st = Inr st'" and "\<not> isAccountsAdd c"
  shows "histFrom (rec_Id r) st st'"
  using assms
  by (cases c) (auto simp: applyChangeContent_def isAccountsAdd_def applyOwnershipChange_def
    applyInvite_def applyInviteRevoke_def applyInviteChange_def applySpaceOptionsChange_def
    result_simps Let_def split: option.split_asm
    intro: content_history histFrom_same histFrom_trans[OF updatePermissions_hist updatePermissions_hist])

lemma applyChangeContent_ids:
  assumes "applyChangeContent C r c st = Inr st'"
  shows "histIds (rec_Id r) st st'"
proof (cases "isAccountsAdd c")
  case True
  then show ?thesis
    using assms by (auto simp: isAccountsAdd_def applyChangeContent_def intro: applyAccountsAdd_ids
        split: AclContentValue.split_asm)
next
  case False
  then show ?thesis
    using assms by (blast intro: histFrom_ids applyChangeContent_hist)
qed

lemma ApplyRecord_hist:
  assumes "ApplyRecord C r st = Inr st'"
  shows "histIds (rec_Id r) st st'"
    and "recordContents C r = Some cs \<Longrightarrow> \<not> list_ex isAccountsAdd cs \<Longrightarrow> histFrom (rec_Id r) st st'"
proof -
  from assms obtain cs0 st1 where cs0: "recordContents C r = Some cs0"
    and run: "rfold (applyChangeContent C r) cs0 st = Inr st1"
    and st': "st' = st1\<lparr>lastRecordId := rec_Id r\<rparr>"
    by (auto simp: ApplyRecord_Inr)
  have h: "hist st' = hist st1" "mget (accountStates st') = mget (accountStates st1)"
    by (simp_all add: st' hist_def fun_eq_iff)
  have "histIds (rec_Id r) st st1"
    using run by (blast intro: rfold_histIds applyChangeContent_ids)
  then show "histIds (rec_Id r) st st'"
    by (simp add: histIds_def h)
  assume "recordContents C r = Some cs" and "\<not> list_ex isAccountsAdd cs"
  with cs0 have "\<And>c s s'. c \<in> set cs0 \<Longrightarrow> applyChangeContent C r c s = Inr s' \<Longrightarrow> histFrom (rec_Id r) s s'"
    by (auto simp: list_ex_iff intro: applyChangeContent_hist)
  from rfold_histFrom[OF run this]
  show "histFrom (rec_Id r) st st'"
    by (simp add: histFrom_def h)
qed

section \<open>Histories that \<open>AccountsAdd\<close> starts afresh\<close>

text \<open>The account is known, and its history holds entries of one record only.\<close>

definition startedBy :: "string \<Rightarrow> string \<Rightarrow> AclState \<Rightarrow> bool" where
  "startedBy i k st \<longleftrightarrow> mget (accountStates st) k \<noteq> None \<and> (\<forall>c \<in> set (hist st k). pc_RecordId c = i)"

lemma addAccount_accounts:
  assumes "addAccount C r acc st = Inr st'"
  obtains k a where "pubKeyFromProto C (aa_identity acc) = Some k" "accountStates st' = mput k a (accountStates st)"
    "as_PermissionChanges a = [\<lparr>pc_RecordId = rec_Id r, pc_Permission = aa_permissions acc\<rparr>]"
  using assms by (auto simp: addAccount_def result_simps Let_def dest!: unpackIfMe_accounts)

lemma addAccount_starts:
  assumes "addAccount C r acc st = Inr st'" and "pubKeyFromProto C (aa_identity acc) = Some k"
  shows "startedBy (rec_Id r) k st'"
  using assms by (auto elim!: addAccount_accounts simp: startedBy_def hist_def)

lemma addAccount_keeps_started:
  assumes "addAccount C r acc st = Inr st'" and "startedBy (rec_Id r) k st"
  shows "startedBy (rec_Id r) k st'"
  using assms by (auto elim!: addAccount_accounts simp: startedBy_def hist_def split: option.splits if_splits)

lemma rfold_keeps:
  assumes "\<And>x s s'. f x s = Inr s' \<Longrightarrow> P s \<Longrightarrow> P s'"
  shows "rfold f xs st = Inr st' \<Longrightarrow> P st \<Longrightarrow> P st'"
  using assms by (induction xs arbitrary: st) (auto simp: result_simps)

lemma rfold_starts:
  assumes "\<And>x s s'. f x s = Inr s' \<Longrightarrow> P s \<Longrightarrow> P s'" and "\<And>s s'. f x s = Inr s' \<Longrightarrow> P s'"
  shows "rfold f xs st = Inr st' \<Longrightarrow> x \<in> set xs \<Longrightarrow> P st'"
proof (induction xs arbitrary: st)
  case (Cons y ys)
  then obtain s1 where s1: "f y st = Inr s1" "rfold f ys s1 = Inr st'"
    by (auto simp: result_simps)
  show ?case
  proof (cases "y = x")
    case True
    then show ?thesis
      using rfold_keeps[of f P, OF assms(1) s1(2)] assms(2)[of st s1] s1(1) by simp
  qed (use Cons s1 in auto)
qed simp

lemma applyChangeContent_keeps_started:
  assumes "applyChangeContent C r c st = Inr st'" and "startedBy (rec_Id r) k st"
  shows "startedBy (rec_Id r) k st'"
proof (cases "isAccountsAdd c")
  case True
  then obtain accs where "rfold (addAccount C r) accs st = Inr st'"
    using assms(1) by (auto simp: isAccountsAdd_def applyChangeContent_def applyAccountsAdd_def guard_err_Inr
        split: AclContentValue.split_asm)
  then show ?thesis
    using assms(2) addAccount_keeps_started
    by (rule_tac rfold_keeps[where f = "addAccount C r" and P = "startedBy (rec_Id r) k"])
next
  case False
  have "histFrom (rec_Id r) st st'"
    using applyChangeContent_hist[OF assms(1) False] .
  then show ?thesis
    using assms(2) by (auto simp: startedBy_def histFrom_def dest: extendsBy_mem)
qed

lemma ApplyRecord_starts:
  assumes "ApplyRecord C r st = Inr st'" and "recordContents C r = Some cs" and "AccountsAdd accs \<in> set cs"
    and "acc \<in> set accs" and "pubKeyFromProto C (aa_identity acc) = Some k"
  shows "startedBy (rec_Id r) k st'"
proof -
  from assms(1,2) obtain st1 where run: "rfold (applyChangeContent C r) cs st = Inr st1"
    and st': "st' = st1\<lparr>lastRecordId := rec_Id r\<rparr>"
    by (auto simp: ApplyRecord_Inr)
  have add: "startedBy (rec_Id r) k s'" if "applyChangeContent C r (AccountsAdd accs) s = Inr s'" for s s'
  proof -
    have "rfold (addAccount C r) accs s = Inr s'"
      using that by (simp add: applyChangeContent_def applyAccountsAdd_def guard_err_Inr)
    then show ?thesis
      using assms(4) addAccount_keeps_started addAccount_starts[OF _ assms(5)]
      by (rule_tac rfold_starts[where f = "addAccount C r" and P = "startedBy (rec_Id r) k" and x = acc])
  qed
  have "startedBy (rec_Id r) k st1"
    using run assms(3) applyChangeContent_keeps_started add
    by (rule_tac rfold_starts[where f = "applyChangeContent C r" and P = "startedBy (rec_Id r) k"
          and x = "AccountsAdd accs"])
  then show ?thesis
    by (simp add: st' startedBy_def hist_def)
qed

section \<open>Histories of a built state\<close>

lemma setOneToOneWriter_ids: "setOneToOneWriter C i w st = Inr st' \<Longrightarrow> histIds i st st'"
  by (auto simp: setOneToOneWriter_def result_simps histIds_def hist_def rootAccount_def
      split: if_split_asm option.split)

lemma setOneToOneAcl_ids:
  assumes "setOneToOneAcl C i info (emptyAclState i' key sv) = Inr st"
  shows "histIds i (emptyAclState i' key sv) st"
proof -
  let ?st0 = "emptyAclState i' key sv"
  from assms obtain b st1 pk st2 where
    st1: "(if b then deriveOneToOneKeys C i info ?st0 else Inr ?st0) = Inr st1"
    and st2: "rfold (setOneToOneWriter C i) (oi_writers info)
        (st1\<lparr>accountStates := mput pk (rootAccount i AclPermissionsOwner [] pk) (accountStates st1)\<rparr>) = Inr st2"
    and st: "st = st2\<lparr>readKeyChanges := [i], lastRecordId := i, isOneToOne := True\<rparr>"
    by (auto simp: setOneToOneAcl_def result_simps)
  have "accountStates st1 = []"
    using st1 by (auto split: if_split_asm elim!: deriveOneToOneKeys_frame simp: emptyAclState_def)
  then have "histIds i ?st0
      (st1\<lparr>accountStates := mput pk (rootAccount i AclPermissionsOwner [] pk) (accountStates st1)\<rparr>)"
    by (auto simp: histIds_def hist_def rootAccount_def split: if_split_asm)
  moreover from st2 have "histIds i
      (st1\<lparr>accountStates := mput pk (rootAccount i AclPermissionsOwner [] pk) (accountStates st1)\<rparr>) st2"
    by (rule rfold_histIds) (rule setOneToOneWriter_ids)
  ultimately have "histIds i ?st0 st2"
    by (blast intro: histIds_trans)
  then show ?thesis
    by (simp add: st histIds_def hist_def)
qed

lemma applyRoot_ids:
  assumes "applyRoot C record' (emptyAclState i key sv) = Inr st"
  shows "histIds (rec_Id record') (emptyAclState i key sv) st"
proof -
  from assms obtain root where root: "rec_Model record' = Some (AclRootModel root)"
    by (auto simp: applyRoot_def split: option.splits AclModel.splits)
  show ?thesis
  proof (cases "ro_oneToOneInfo root")
    case None
    with assms root show ?thesis
      by (rule_tac applyRoot_plain_frame)
        (auto simp: histIds_def hist_def rootAccount_def emptyAclState_def split: if_split_asm)
  next
    case (Some info)
    with assms root show ?thesis
      by (simp add: applyRoot_def setOneToOneAcl_ids)
  qed
qed

lemma Build_ids:
  "Build C key sv records = Inr st \<Longrightarrow> c \<in> set (hist st k) \<Longrightarrow> pc_RecordId c \<in> set (map rec_Id records)"
proof (induction records arbitrary: st rule: rev_induct)
  case (snoc r records)
  show ?case
  proof (cases "records = []")
    case True
    with snoc.prems(1) have "\<exists>i. histIds (rec_Id r) (emptyAclState i key sv) st"
      by (auto simp: Build_def newAclState_def newAclStateWithKeys_def result_simps
          split: option.splits dest: applyRoot_ids)
    with snoc.prems(2) True show ?thesis
      by (auto simp: histIds_def hist_def emptyAclState_def)
  next
    case False
    with snoc.prems(1) obtain st0 where st0: "Build C key sv records = Inr st0" "ApplyRecord C r st0 = Inr st"
      by (auto simp: Build_snoc result_simps)
    from ApplyRecord_hist(1)[OF st0(2)] snoc.prems(2) have "pc_RecordId c = rec_Id r \<or> c \<in> set (hist st0 k)"
      by (simp add: histIds_def)
    with snoc.IH[OF st0(1)] show ?thesis
      by auto
  qed
qed (simp add: Build_def)

section \<open>Positions in the list\<close>

lemma indexOf_bound:
  assumes "al_indexes a = indexFrom 0 (map rec_Id (al_records a)) []" and "al_records a \<noteq> []"
    and "distinct (map rec_Id (al_records a))"
  shows "indexOf a i < length (al_records a)"
proof (cases "mget (al_indexes a) i")
  case (Some n)
  with indexFrom_Some[OF assms(3), of 0 i n] assms(1) show ?thesis
    by (simp add: indexOf_def)
qed (use assms(2) in \<open>simp add: indexOf_def\<close>)

lemma indexOf_last:
  assumes "al_indexes a = indexFrom 0 (map rec_Id (al_records a)) []" and "al_records a \<noteq> []"
    and "distinct (map rec_Id (al_records a))"
  shows "mget (al_indexes a) (rec_Id (last (al_records a))) = Some (length (al_records a) - 1)"
  using indexFrom_nth[OF assms(3), of "length (al_records a) - 1" 0 "[]"] assms(1,2)
  by (simp add: last_conv_nth)

lemma closestChange_skip:
  "(\<And>c. c \<in> set ext \<Longrightarrow> \<not> isAfter i (pc_RecordId c)) \<Longrightarrow>
   closestChange isAfter i (ext @ older) = closestChange isAfter i older"
  by (induction ext) simp_all

lemma closestChange_cong:
  "(\<And>c. c \<in> set h \<Longrightarrow> isAfter i (pc_RecordId c) = isAfter' i (pc_RecordId c)) \<Longrightarrow>
   closestChange isAfter i h = closestChange isAfter' i h"
  by (induction h) simp_all

lemma reached_list_facts:
  assumes "NewInMemoryStorage [root] = Inr s"
    and "BuildAclListWithIdentity C K memOps key s verifier = Some (Inr a0)"
    and "AddRawRecords C K memOps raws a0 = (a, e)"
  shows "al_indexes a = indexFrom 0 (map rec_Id (al_records a)) []" and "al_records a \<noteq> []"
    and "distinct (map rec_Id (al_records a))"
    and "Build C (Some key) (verifierShouldValidate verifier) (al_records a) = Inr (al_state a)"
    and "rb_verifier (al_builder a) = verifier"
proof -
  from reached_list_ok[OF assms] have inv: "mem_inv (al_storage a)"
    and ok: "list_ok C K memOps ms_records key verifier a"
    by simp_all
  then show "al_indexes a = indexFrom 0 (map rec_Id (al_records a)) []"
    and "Build C (Some key) (verifierShouldValidate verifier) (al_records a) = Inr (al_state a)"
    and "rb_verifier (al_builder a) = verifier"
    by (simp_all add: list_ok_def)
  have "map rec_Id (al_records a) = map sr_Id (ms_records (al_storage a))"
    using ok by (auto simp: list_ok_def intro: decoded_ids)
  with mem.ids_distinct[OF inv] mem.nonempty[OF inv]
  show "distinct (map rec_Id (al_records a))" and "al_records a \<noteq> []"
    by auto
qed

section \<open>Properties\<close>

text \<open>
  C19. Asking for the permissions at the head of the list gives the current ones: for a list reached
  by adding records and an account it knows, \<open>PermissionsAtRecord\<close> at the id of the last record
  answers what \<open>Permissions\<close> answers. The full verifier is in use and record ids are distinct, as
  the list guarantees.
\<close>

theorem permissions_at_head:
  assumes "NewInMemoryStorage [root] = Inr s"
    and "BuildAclListWithIdentity C K memOps key s ValidateFull = Some (Inr a0)"
    and "AddRawRecords C K memOps raws a0 = (a, e)"
    and "mget (accountStates (al_state a)) pk \<noteq> None"
  shows "PermissionsAtRecord a (al_state a) (rec_Id (last (al_records a))) pk
    = Inr (Permissions (al_state a) pk)"
proof -
  note facts = reached_list_facts[OF assms(1-3)]
  let ?i = "rec_Id (last (al_records a))"
  from assms(4) obtain acc where acc: "mget (accountStates (al_state a)) pk = Some acc"
    by blast
  have "acl_inv (al_state a)"
    using facts by (intro Build_inv) simp_all
  with acc have ok: "as_Permissions acc = currentOfHistory (as_PermissionChanges acc)"
    by (auto simp: acl_inv_def account_ok_def dest: accounts_ok_get)
  note hd = indexOf_last[OF facts(1-3)]
  then have "isAfterNoCheck a ?i j" for j
    using indexOf_bound[OF facts(1-3), of j] by (simp add: isAfterNoCheck_def indexOf_def[of a ?i])
  then have "closestChange (isAfterNoCheck a) ?i (rev h) = currentOfHistory h" for h
    by (cases h rule: rev_cases) simp_all
  with hd acc ok show ?thesis
    by (simp add: PermissionsAtRecord_def HasHead_def closestPermissions_def Permissions_def)
qed

theorem permissions_at_head_witness:
  "PermissionsAtRecord exampleListAfter (al_state exampleListAfter)
     (rec_Id (last (al_records exampleListAfter))) ''b''
   = Inr (Permissions (al_state exampleListAfter) ''b'')"
proof (rule permissions_at_head)
  show "mget (accountStates (al_state exampleListAfter)) ''b'' \<noteq> None"
    by code_simp
qed (fact exampleStore_root exampleList_built exampleList_added)+

text \<open>
  C13. The past does not change: adding a record, unless it carries \<open>AccountsAdd\<close>, leaves what
  \<open>PermissionsAtRecord\<close> says of every record already in the list and every account already known.
  The permission checks of object tree changes are made at the ACL head of the change, so they give
  the same answer whenever they are repeated.
\<close>

theorem past_permissions_stable:
  assumes "NewInMemoryStorage [root] = Inr s"
    and "BuildAclListWithIdentity C K memOps key s verifier = Some (Inr a0)"
    and "AddRawRecords C K memOps raws a0 = (a, e)"
    and add: "AddRawRecord C K memOps raw a = Inr a'"
    and contents: "recordContents C (last (al_records a')) = Some cs" "\<not> list_ex isAccountsAdd cs"
    and known: "HasHead a i" "mget (accountStates (al_state a)) pk \<noteq> None"
  shows "PermissionsAtRecord a' (al_state a') i pk = PermissionsAtRecord a (al_state a) i pk"
  using add
proof (rule AddRawRecord_Inr)
  fix r :: AclRecord and st0 st s'
  assume new: "mget (al_indexes a) (rw_Id raw) = None"
    and r: "unmarshalForState C K (al_builder a) raw = Inr r"
    and cp: "Copy (verifierShouldValidate (rb_verifier (al_builder a))) (al_state a) = Inr st0"
    and st: "ApplyRecord C r st0 = Inr st"
    and a': "a' = a\<lparr>al_state := st, al_records := al_records a @ [r],
      al_indexes := mput (rec_Id r) (length (al_records a)) (al_indexes a), al_storage := s'\<rparr>"
  note facts = reached_list_facts[OF assms(1-3)]
  have rid: "mget (al_indexes a) (rec_Id r) = None"
    using new unmarshalForState_id[OF r] by simp
  have "st0 = al_state a"
    using cp built_Copy[OF facts(4)] facts(5) by simp
  with ApplyRecord_hist(2)[OF st _ contents(2)] contents(1)
  have hf: "histFrom (rec_Id r) (al_state a) st"
    by (simp add: a')
  then obtain ext where ext: "hist st pk = hist (al_state a) pk @ ext" "\<And>c. c \<in> set ext \<Longrightarrow> pc_RecordId c = rec_Id r"
    unfolding histFrom_def extendsBy_def by blast
  have i: "i \<noteq> rec_Id r" "indexOf a' i = indexOf a i"
    using known(1) rid by (auto simp: HasHead_def a' indexOf_def)
  have "indexOf a' (rec_Id r) = length (al_records a)"
    by (simp add: a' indexOf_def)
  with i indexOf_bound[OF facts(1-3), of i]
  have "\<not> isAfterNoCheck a' i (pc_RecordId c)" if "c \<in> set ext" for c
    using ext(2)[OF that] by (simp add: isAfterNoCheck_def)
  then have "closestChange (isAfterNoCheck a') i (rev (hist st pk))
      = closestChange (isAfterNoCheck a') i (rev (hist (al_state a) pk))"
    unfolding ext(1) rev_append by (intro closestChange_skip) simp
  also have "\<dots> = closestChange (isAfterNoCheck a) i (rev (hist (al_state a) pk))"
  proof (rule closestChange_cong)
    fix c
    assume "c \<in> set (rev (hist (al_state a) pk))"
    with Build_ids[OF facts(4), of c pk] have "pc_RecordId c \<in> set (map rec_Id (al_records a))"
      by simp
    with rid indexFrom_None[of 0 "map rec_Id (al_records a)" "rec_Id r"] facts(1)
    have "pc_RecordId c \<noteq> rec_Id r"
      by auto
    with i show "isAfterNoCheck a' i (pc_RecordId c) = isAfterNoCheck a i (pc_RecordId c)"
      by (simp add: isAfterNoCheck_def indexOf_def a')
  qed
  finally have "closestChange (isAfterNoCheck a') i (rev (hist st pk))
      = closestChange (isAfterNoCheck a) i (rev (hist (al_state a) pk))" .
  moreover have "HasHead a' i" and "mget (accountStates st) pk \<noteq> None"
    using known hf by (auto simp: HasHead_def a' histFrom_def)
  ultimately show ?thesis
    using known a' by (auto simp: PermissionsAtRecord_def closestPermissions_def hist_def)
qed

definition exampleListBefore :: "inMemoryStorage aclList" where
  "exampleListBefore = fst (AddRawRecords (cryptoOf exampleLog) (codecOf exampleLog) memOps
     (map exampleRaw [inviteRecord, joinRequestRecord, addRecord]) exampleList)"

theorem past_permissions_stable_witness:
  "PermissionsAtRecord exampleListAfter (al_state exampleListAfter) ''3'' ''b''
   = PermissionsAtRecord exampleListBefore (al_state exampleListBefore) ''3'' ''b''
   \<and> PermissionsAtRecord exampleListBefore (al_state exampleListBefore) ''3'' ''b'' = Inr AclPermissionsWriter
   \<and> Permissions (al_state exampleListAfter) ''b'' = AclPermissionsOwner"
proof (intro conjI)
  have "AddRawRecords (cryptoOf exampleLog) (codecOf exampleLog) memOps
      (map exampleRaw [inviteRecord, joinRequestRecord, addRecord]) exampleList = (exampleListBefore, None)"
    by code_simp
  moreover have "AddRawRecord (cryptoOf exampleLog) (codecOf exampleLog) memOps (exampleRaw transferRecord)
      exampleListBefore = Inr exampleListAfter"
    by code_simp
  moreover have "recordContents (cryptoOf exampleLog) (last (al_records exampleListAfter))
      = Some (exampleContents transferRecord)" "\<not> list_ex isAccountsAdd (exampleContents transferRecord)"
    "HasHead exampleListBefore ''3''" "mget (accountStates (al_state exampleListBefore)) ''b'' \<noteq> None"
    by code_simp+
  ultimately show "PermissionsAtRecord exampleListAfter (al_state exampleListAfter) ''3'' ''b''
   = PermissionsAtRecord exampleListBefore (al_state exampleListBefore) ''3'' ''b''"
    by (rule past_permissions_stable[OF exampleStore_root exampleList_built])
qed code_simp+

text \<open>A log in which \<open>b\<close> is added as a writer, removed with a new read key, and added again.\<close>

definition readdB :: "bytes \<Rightarrow> AclAccountAdd" where
  "readdB readKey = \<lparr>aa_identity = ''Kb'', aa_permissions = AclPermissionsWriter, aa_metadata = [],
     aa_encryptedReadKey = Some readKey\<rparr>"

definition readdLog :: "AclRecord list" where
  "readdLog = [exampleRoot,
     dataRecord ''1'' ''0'' ''o'' [AccountsAdd [readdB ''br1'']],
     dataRecord ''2'' ''1'' ''o'' [AccountRemove \<lparr>ar_identities = [''Kb''], ar_readKeyChange = Some
       \<lparr>rk_accountKeys = [\<lparr>ek_identity = ''Ko'', ek_encryptedReadKey = Some ''or2''\<rparr>],
        rk_metadataPubKey = ''Km2'', rk_encryptedMetadataPrivKey = Some ''r2sm2'',
        rk_encryptedOldReadKey = Some ''r2r1'', rk_inviteKeys = []\<rparr>\<rparr>],
     dataRecord ''3'' ''2'' ''o'' [AccountsAdd [readdB ''br2'']]]"

definition readdList :: "nat \<Rightarrow> inMemoryStorage aclList" where
  "readdList n = fst (AddRawRecords (cryptoOf readdLog) (codecOf readdLog) memOps
     (map exampleRaw (take n (tl readdLog)))
     (projr (the (BuildAclListWithIdentity (cryptoOf readdLog) (codecOf readdLog) memOps ''so''
        (exampleStore [exampleRoot]) ValidateFull))))"

text \<open>
  C21. \<open>AccountsAdd\<close> rewrites the past. Take any list reached by adding records and any record with an
  \<open>AccountsAdd\<close> that the list accepts: for every account it adds and every older record \<open>i\<close> of the
  list, \<open>PermissionsAtRecord\<close> answers afterwards that the account had no permissions at \<open>i\<close>, whatever it
  answered before, because the history of the account is replaced by an entry of the new record. In the
  witness \<open>b\<close> is a writer from record 1 on, is removed by record 2 and added again by record 3, all
  under the full validation: before record 3 the list says that \<open>b\<close> could write at record 1, after it
  that \<open>b\<close> had no permissions there. Changes that \<open>b\<close> made under record 1 pass the permission check
  before the third record and fail it afterwards.
\<close>

theorem accounts_add_erases_history:
  assumes "NewInMemoryStorage [root] = Inr s"
    and "BuildAclListWithIdentity C K memOps key s verifier = Some (Inr a0)"
    and "AddRawRecords C K memOps raws a0 = (a, e)"
    and add: "AddRawRecord C K memOps raw a = Inr a'"
    and contents: "recordContents C (last (al_records a')) = Some cs" "AccountsAdd accs \<in> set cs"
    and acc: "acc \<in> set accs" "pubKeyFromProto C (aa_identity acc) = Some pk"
    and known: "HasHead a i"
  shows "PermissionsAtRecord a' (al_state a') i pk = Inr AclPermissionsNone"
  using add
proof (rule AddRawRecord_Inr)
  fix r :: AclRecord and st0 st s'
  assume new: "mget (al_indexes a) (rw_Id raw) = None"
    and r: "unmarshalForState C K (al_builder a) raw = Inr r" and st: "ApplyRecord C r st0 = Inr st"
    and a': "a' = a\<lparr>al_state := st, al_records := al_records a @ [r],
      al_indexes := mput (rec_Id r) (length (al_records a)) (al_indexes a), al_storage := s'\<rparr>"
  note facts = reached_list_facts[OF assms(1-3)]
  have rid: "mget (al_indexes a) (rec_Id r) = None"
    using new unmarshalForState_id[OF r] by simp
  have "recordContents C r = Some cs"
    using contents(1) by (simp add: a')
  then have started: "startedBy (rec_Id r) pk st"
    using ApplyRecord_starts[OF st _ contents(2) acc] by simp
  have "i \<noteq> rec_Id r" "indexOf a' i = indexOf a i" "indexOf a' (rec_Id r) = length (al_records a)"
    using known rid by (auto simp: HasHead_def a' indexOf_def)
  then have "\<not> isAfterNoCheck a' i (rec_Id r)"
    using indexOf_bound[OF facts(1-3), of i] by (simp add: isAfterNoCheck_def)
  then have "closestChange (isAfterNoCheck a') i (rev (hist st pk) @ []) = AclPermissionsNone"
    using started by (subst closestChange_skip) (auto simp: startedBy_def)
  moreover have "HasHead a' i"
    using known by (auto simp: HasHead_def a')
  ultimately show ?thesis
    using started a' by (auto simp: PermissionsAtRecord_def closestPermissions_def hist_def startedBy_def)
qed

theorem accounts_add_erases_history_witness:
  "PermissionsAtRecord (readdList 2) (al_state (readdList 2)) ''1'' ''b'' = Inr AclPermissionsWriter
   \<and> PermissionsAtRecord (readdList 3) (al_state (readdList 3)) ''1'' ''b'' = Inr AclPermissionsNone"
proof (rule conjI)
  show "PermissionsAtRecord (readdList 2) (al_state (readdList 2)) ''1'' ''b'' = Inr AclPermissionsWriter"
    by code_simp
  have "BuildAclListWithIdentity (cryptoOf readdLog) (codecOf readdLog) memOps ''so'' (exampleStore [exampleRoot])
      ValidateFull = Some (Inr (readdList 0))"
    by code_simp
  moreover have "AddRawRecords (cryptoOf readdLog) (codecOf readdLog) memOps (map exampleRaw (take 2 (tl readdLog)))
      (readdList 0) = (readdList 2, None)"
    by code_simp
  moreover have "AddRawRecord (cryptoOf readdLog) (codecOf readdLog) memOps (exampleRaw (last readdLog)) (readdList 2)
      = Inr (readdList 3)"
    by code_simp
  moreover have "recordContents (cryptoOf readdLog) (last (al_records (readdList 3)))
      = Some [AccountsAdd [readdB ''br2'']]"
    by code_simp
  moreover have "AccountsAdd [readdB ''br2''] \<in> set [AccountsAdd [readdB ''br2'']]" "readdB ''br2'' \<in> set [readdB ''br2'']"
    by simp_all
  moreover have "pubKeyFromProto (cryptoOf readdLog) (aa_identity (readdB ''br2'')) = Some ''b''" "HasHead (readdList 2) ''1''"
    by code_simp+
  ultimately show "PermissionsAtRecord (readdList 3) (al_state (readdList 3)) ''1'' ''b'' = Inr AclPermissionsNone"
    by (rule accounts_add_erases_history[OF exampleStore_root])
qed

end
