(* ===== verification/AclBuilder.thy ===== *)
theory AclBuilder
  imports AclProperties
begin

text \<open>
  The building half of \<open>aclrecordbuilder.go\<close>: the records that an account makes for its own changes.

  The operations that make bytes (encryption for a public key, signatures, encoders) are fields of \<open>builderOps\<close>;
  new random keys are arguments, \<open>None\<close> when the generator fails. A key that may be a nil interface is an option.
  Errors of keys are \<open>ErrKey\<close>, those of the generated encoders \<open>ErrUnmarshal\<close>.
\<close>

section \<open>Payloads\<close>

record ReadKeyChangePayload =
  rp_MetadataKey :: "privkey option"
  rp_ReadKey :: "symkey option"

record RootContent =
  rc_PrivKey :: privkey
  rc_MasterKey :: privkey
  rc_SpaceId :: string
  rc_Change :: ReadKeyChangePayload
  rc_Metadata :: bytes
  rc_Options :: "AclSpaceOptions option"

record AccountAdd =
  ad_Identity :: pubkey
  ad_Permissions :: AclPermissions
  ad_Metadata :: bytes

record PermissionChangePayload =
  pp_Identity :: pubkey
  pp_Permissions :: AclPermissions

record RequestAcceptPayload =
  ap_RequestRecordId :: string
  ap_Permissions :: AclPermissions

record InviteChangePayload =
  ip_IniviteRecordId :: string
  ip_Permissions :: AclPermissions

record AccountRemovePayload =
  rm_Identities :: "pubkey list"
  rm_Change :: ReadKeyChangePayload

record BatchRequestPayload =
  bp_Additions :: "AccountAdd list"
  bp_Changes :: "PermissionChangePayload list"
  bp_Removals :: AccountRemovePayload
  bp_Approvals :: "RequestAcceptPayload list"
  bp_Declines :: "string list"
  bp_InviteRevokes :: "string list"
  bp_InviteChanges :: "InviteChangePayload list"
  bp_NewInvites :: "AclPermissions list"
  bp_ReadKeyChange :: "ReadKeyChangePayload option"

text \<open>The fields of the root message that the state does not read.\<close>

record AclRootMessage = AclRoot +
  ro_identity :: bytes
  ro_spaceId :: string
  ro_masterKey :: bytes
  ro_identitySignature :: bytes
  ro_timestamp :: int

record builderOps =
  encryptPub :: "pubkey \<Rightarrow> bytes \<Rightarrow> bytes option"
  signWith :: "privkey \<Rightarrow> bytes \<Rightarrow> bytes option"
  rawPub :: "pubkey \<Rightarrow> bytes option"
  marshalSym :: "symkey \<Rightarrow> bytes option"
  marshalPriv :: "privkey \<Rightarrow> bytes option"
  marshalAclData :: "AclContentValue list \<Rightarrow> bytes option"
  marshalRecord :: "int \<Rightarrow> ConsensusRecord \<Rightarrow> bytes option"
  marshalRoot :: "AclRootMessage \<Rightarrow> bytes option"
  marshalRaw :: "RawRecord \<Rightarrow> bytes option"

section \<open>Records from content\<close>

abbreviation keyOp :: "bytes option \<Rightarrow> acl_error + bytes" where
  "keyOp r \<equiv> of_opt ErrKey r"

abbreviation nonNil :: "'a option \<Rightarrow> acl_error + 'a" where
  "nonNil r \<equiv> of_opt PanicNilDereference r"

text \<open>\<open>a.state.pubKey\<close>; the permissions of a nil key panic.\<close>

definition statePubKey :: "crypto \<Rightarrow> AclState \<Rightarrow> acl_error + pubkey" where
  "statePubKey C st = nonNil (map_option (getPublic C) (st_key st))"

definition preflightCheck :: "crypto \<Rightarrow> codec \<Rightarrow> aclRecordBuilder \<Rightarrow> AclState \<Rightarrow> RawRecord \<Rightarrow> acl_error option" where
  "preflightCheck C K b st rawRecord =
     err_of (rbind (Unmarshall C K rawRecord) (\<lambda>aclRec.
       rbind (Copy (verifierShouldValidate (rb_verifier b)) st) (\<lambda>cp.
         ApplyRecord C aclRec (cp\<lparr>st_contentValidator := \<lparr>shouldValidate = True, admission = True\<rparr>\<rparr>))))"

definition buildRecords :: "builderOps \<Rightarrow> crypto \<Rightarrow> codec \<Rightarrow> aclRecordBuilder \<Rightarrow> int \<Rightarrow> AclState \<Rightarrow> AclContentValue list
    \<Rightarrow> acl_error + RawRecord" where
  "buildRecords B C K b now st aclContent =
     rbind (of_opt ErrUnmarshal (marshalAclData B aclContent)) (\<lambda>marshalledData.
     rbind (nonNil (rb_signKey b)) (\<lambda>key.
     rbind (of_opt ErrUnmarshal (marshalRecord B now
       \<lparr>cr_PrevId = lastRecordId st, cr_Identity = marshallPub C (getPublic C key), cr_Data = marshalledData\<rparr>)) (\<lambda>marshalledRec.
     rbind (keyOp (signWith B key marshalledRec)) (\<lambda>signature.
       let rawRec = \<lparr>raw_Payload = marshalledRec, raw_Signature = signature, raw_AcceptorIdentity = [], raw_AcceptorSignature = []\<rparr>
       in guard_err (preflightCheck C K b st rawRec) (Inr rawRec)))))"

definition buildRecord :: "builderOps \<Rightarrow> crypto \<Rightarrow> codec \<Rightarrow> aclRecordBuilder \<Rightarrow> int \<Rightarrow> AclState \<Rightarrow> AclContentValue
    \<Rightarrow> acl_error + RawRecord" where
  "buildRecord B C K b now st aclContent = buildRecords B C K b now st [aclContent]"

section \<open>Content\<close>

text \<open>\<open>a.state.Permissions(a.state.pubKey).CanManageAccounts()\<close>, with the error that follows when it is false.\<close>

definition needManager :: "crypto \<Rightarrow> AclState \<Rightarrow> acl_error + unit" where
  "needManager C st =
     rbind (statePubKey C st) (\<lambda>pk.
       if CanManageAccounts (Permissions st pk) then Inr () else Inl ErrInsufficientPermissions)"

definition buildOwnershipChange :: "crypto \<Rightarrow> pubkey \<Rightarrow> AclPermissions \<Rightarrow> AclContentValue" where
  "buildOwnershipChange C newOwner oldOwnerPermissions =
     OwnershipChange \<lparr>ow_newOwnerIdentity = marshallPub C newOwner, ow_oldOwnerPermissions = oldOwnerPermissions\<rparr>"

definition buildPermissionChanges :: "crypto \<Rightarrow> AclState \<Rightarrow> PermissionChangePayload list \<Rightarrow> acl_error + AclContentValue" where
  "buildPermissionChanges C st changes =
     rbind (needManager C st) (\<lambda>_.
     rbind (statePubKey C st) (\<lambda>pk.
     rbind (rmap (\<lambda>perm.
         if pp_Identity perm = pk then Inl ErrInsufficientPermissions
         else if IsOwner (pp_Permissions perm) then Inl ErrIsOwner
         else Inr \<lparr>pm_identity = marshallPub C (pp_Identity perm), pm_permissions = pp_Permissions perm\<rparr>) changes)
       (\<lambda>chs. Inr (PermissionChanges chs))))"

text \<open>The loop of \<open>buildAccountsAdd\<close>: the keys are fetched from the state when the caller gave none.\<close>

fun accountAdds :: "builderOps \<Rightarrow> crypto \<Rightarrow> AclState \<Rightarrow> pubkey option \<Rightarrow> symkey option \<Rightarrow> AccountAdd list
    \<Rightarrow> acl_error + AclAccountAdd list" where
  "accountAdds B C st mkKey readKey [] = Inr []"
| "accountAdds B C st mkKey readKey (acc # accs) =
     (if \<not> NoPermissions (Permissions st (ad_Identity acc)) then Inl ErrDuplicateAccounts
      else if IsOwner (ad_Permissions acc) then Inl ErrIsOwner
      else
        rbind (case mkKey of Some k \<Rightarrow> Inr (Some k) | None \<Rightarrow> CurrentMetadataKey st) (\<lambda>mkKey.
        rbind (nonNil mkKey) (\<lambda>mk.
        rbind (keyOp (encryptPub B mk (ad_Metadata acc))) (\<lambda>encMeta.
        if length encMeta > MaxMetadataLen then Inl ErrMetadataTooLarge
        else
          rbind (case readKey of
              Some k \<Rightarrow> Inr (Some k)
            | None \<Rightarrow> (case CurrentReadKey st of Inl _ \<Rightarrow> Inl ErrNoReadKey | Inr k \<Rightarrow> Inr k)) (\<lambda>readKey.
          rbind (nonNil readKey) (\<lambda>rk.
          rbind (keyOp (marshalSym B rk)) (\<lambda>protoKey.
          rbind (keyOp (encryptPub B (ad_Identity acc) protoKey)) (\<lambda>enc.
          rbind (accountAdds B C st mkKey readKey accs) (\<lambda>rest.
            Inr (\<lparr>aa_identity = marshallPub C (ad_Identity acc), aa_permissions = ad_Permissions acc, aa_metadata = encMeta,
                  aa_encryptedReadKey = Some enc\<rparr> # rest))))))))))"

definition buildAccountsAdd :: "builderOps \<Rightarrow> crypto \<Rightarrow> AclState \<Rightarrow> AccountAdd list \<Rightarrow> pubkey option \<Rightarrow> symkey option
    \<Rightarrow> acl_error + AclContentValue" where
  "buildAccountsAdd B C st additions mkKey readKey =
     rbind (accountAdds B C st mkKey readKey additions) (\<lambda>accs. Inr (AccountsAdd accs))"

definition buildInvite :: "crypto \<Rightarrow> AclState \<Rightarrow> privkey option \<Rightarrow> acl_error + (privkey \<times> AclContentValue)" where
  "buildInvite C st newKey =
     rbind (needManager C st) (\<lambda>_.
     rbind (of_opt ErrKey newKey) (\<lambda>privKey.
       Inr (privKey, ContentInvite \<lparr>ai_inviteKey = marshallPub C (getPublic C privKey), ai_inviteType = RequestToJoin,
         ai_permissions = AclPermissionsNone, ai_encryptedReadKey = None\<rparr>)))"

definition buildInviteChange :: "crypto \<Rightarrow> AclState \<Rightarrow> InviteChangePayload \<Rightarrow> acl_error + AclContentValue" where
  "buildInviteChange C st inviteChange =
     rbind (needManager C st) (\<lambda>_.
       Inr (InviteChange \<lparr>ic_inviteRecordId = ip_IniviteRecordId inviteChange, ic_permissions = ip_Permissions inviteChange\<rparr>))"

definition buildInviteAnyone :: "builderOps \<Rightarrow> crypto \<Rightarrow> AclState \<Rightarrow> AclPermissions \<Rightarrow> privkey option
    \<Rightarrow> acl_error + (privkey \<times> AclContentValue)" where
  "buildInviteAnyone B C st permissions newKey =
     rbind (needManager C st) (\<lambda>_.
     rbind (of_opt ErrKey newKey) (\<lambda>privKey.
     rbind (CurrentReadKey st) (\<lambda>cur.
     rbind (nonNil cur) (\<lambda>curReadKey.
     rbind (keyOp (marshalSym B curReadKey)) (\<lambda>raw.
     rbind (keyOp (encryptPub B (getPublic C privKey) raw)) (\<lambda>encReadKey.
       Inr (privKey, ContentInvite \<lparr>ai_inviteKey = marshallPub C (getPublic C privKey), ai_inviteType = AnyoneCanJoin,
         ai_permissions = permissions, ai_encryptedReadKey = Some encReadKey\<rparr>)))))))"

definition buildInviteRevoke :: "crypto \<Rightarrow> AclState \<Rightarrow> string \<Rightarrow> acl_error + AclContentValue" where
  "buildInviteRevoke C st inviteRecordId =
     rbind (needManager C st) (\<lambda>_.
       if mget (invites st) inviteRecordId = None then Inl ErrNoSuchInvite else Inr (InviteRevoke inviteRecordId))"

definition buildRequestAccept :: "builderOps \<Rightarrow> crypto \<Rightarrow> AclState \<Rightarrow> RequestAcceptPayload \<Rightarrow> symkey option
    \<Rightarrow> acl_error + AclContentValue" where
  "buildRequestAccept B C st payload readKey =
     rbind (needManager C st) (\<lambda>_.
     rbind (of_opt ErrNoSuchRequest (mget (requestRecords st) (ap_RequestRecordId payload))) (\<lambda>request.
     rbind (case readKey of
         Some k \<Rightarrow> Inr (Some k)
       | None \<Rightarrow> (case CurrentReadKey st of Inl _ \<Rightarrow> Inl ErrNoReadKey | Inr k \<Rightarrow> Inr k)) (\<lambda>readKey.
     rbind (nonNil readKey) (\<lambda>rk.
     rbind (keyOp (marshalSym B rk)) (\<lambda>protoKey.
     rbind (keyOp (encryptPub B (RequestIdentity request) protoKey)) (\<lambda>enc.
       Inr (RequestAccept \<lparr>ra_identity = marshallPub C (RequestIdentity request), ra_requestRecordId = ap_RequestRecordId payload,
         ra_encryptedReadKey = Some enc, ra_permissions = ap_Permissions payload\<rparr>)))))))"

definition buildRequestDecline :: "crypto \<Rightarrow> AclState \<Rightarrow> string \<Rightarrow> acl_error + AclContentValue" where
  "buildRequestDecline C st requestRecordId =
     rbind (needManager C st) (\<lambda>_.
       case mget (requestRecords st) requestRecordId of
         None \<Rightarrow> Inl ErrNoSuchRequest
       | Some rec \<Rightarrow> if rr_Type rec \<noteq> RequestTypeJoin then Inl ErrNoSuchRequest else Inr (RequestDecline requestRecordId))"

text \<open>One entry of a read key change: the encoded key and the new read key encrypted for it.\<close>

definition encryptFor :: "builderOps \<Rightarrow> crypto \<Rightarrow> bytes \<Rightarrow> pubkey \<Rightarrow> acl_error + AclEncryptedReadKey" where
  "encryptFor B C protoKey pk =
     rbind (keyOp (encryptPub B pk protoKey)) (\<lambda>enc.
       Inr \<lparr>ek_identity = marshallPub C pk, ek_encryptedReadKey = Some enc\<rparr>)"

definition keyedAccounts :: "string list \<Rightarrow> AclState \<Rightarrow> AccountState list" where
  "keyedAccounts removedIdentities st =
     map snd (filter (\<lambda>(identity, a). identity \<notin> set removedIdentities \<and> \<not> NoPermissions (as_Permissions a)) (accountStates st))"

definition keyedInvites :: "string list \<Rightarrow> AclState \<Rightarrow> Invite list" where
  "keyedInvites revokedInvites st =
     map snd (filter (\<lambda>(inviteRecordId, invite). inv_Type invite = AnyoneCanJoin \<and> inviteRecordId \<notin> set revokedInvites) (invites st))"

definition buildReadKeyChange :: "builderOps \<Rightarrow> crypto \<Rightarrow> AclState \<Rightarrow> ReadKeyChangePayload \<Rightarrow> string list \<Rightarrow> string list
    \<Rightarrow> acl_error + AclReadKeyChange" where
  "buildReadKeyChange B C st payload removedIdentities revokedInvites =
     rbind (nonNil (rp_ReadKey payload)) (\<lambda>readKey.
     rbind (keyOp (marshalSym B readKey)) (\<lambda>protoKey.
     rbind (rmap (\<lambda>a. rbind (nonNil (as_PubKey a)) (encryptFor B C protoKey)) (keyedAccounts removedIdentities st)) (\<lambda>aclReadKeys.
     rbind (rmap (\<lambda>invite. encryptFor B C protoKey (inv_Key invite)) (keyedInvites revokedInvites st)) (\<lambda>invs.
     rbind (nonNil (rp_MetadataKey payload)) (\<lambda>metadataKey.
     rbind (keyOp (marshalPriv B metadataKey)) (\<lambda>mkPrivKeyProto.
     rbind (keyOp (encryptSym C readKey mkPrivKeyProto)) (\<lambda>encPrivKey.
     rbind (CurrentReadKey st) (\<lambda>cur.
     rbind (nonNil cur) (\<lambda>curKey.
     rbind (keyOp (marshalSym B curKey)) (\<lambda>curKeyProto.
     rbind (keyOp (encryptSym C readKey curKeyProto)) (\<lambda>encOldKey.
       Inr \<lparr>rk_accountKeys = aclReadKeys, rk_metadataPubKey = marshallPub C (getPublic C metadataKey),
         rk_encryptedMetadataPrivKey = Some encPrivKey, rk_encryptedOldReadKey = Some encOldKey, rk_inviteKeys = invs\<rparr>)))))))))))"

definition buildAccountRemove :: "builderOps \<Rightarrow> crypto \<Rightarrow> AclState \<Rightarrow> AccountRemovePayload \<Rightarrow> acl_error + AclContentValue" where
  "buildAccountRemove B C st payload =
     guard_err (first_err (\<lambda>key.
         if IsOwner (Permissions st key) then Some ErrInsufficientPermissions
         else if NoPermissions (Permissions st key) then Some ErrNoSuchAccount else None) (rm_Identities payload))
     (rbind (needManager C st) (\<lambda>_.
      rbind (buildReadKeyChange B C st (rm_Change payload) (map mapKeyFromPubKey (rm_Identities payload)) []) (\<lambda>rkChange.
        Inr (AccountRemove \<lparr>ar_identities = map (marshallPub C) (rm_Identities payload), ar_readKeyChange = Some rkChange\<rparr>))))"

section \<open>Operations\<close>

type_synonym builderEnv = "builderOps \<times> crypto \<times> codec \<times> aclRecordBuilder \<times> int"

text \<open>A content that may be an error, made into a record.\<close>

definition buildFrom :: "builderEnv \<Rightarrow> AclState \<Rightarrow> acl_error + AclContentValue \<Rightarrow> acl_error + RawRecord" where
  "buildFrom = (\<lambda>(B, C, K, b, now) st content. rbind content (buildRecord B C K b now st))"

definition BuildOwnershipChange :: "builderEnv \<Rightarrow> AclState \<Rightarrow> pubkey \<Rightarrow> AclPermissions \<Rightarrow> acl_error + RawRecord" where
  "BuildOwnershipChange = (\<lambda>(B, C, K, b, now) st newOwner perms.
     buildRecord B C K b now st (buildOwnershipChange C newOwner perms))"

definition BuildPermissionChanges :: "builderEnv \<Rightarrow> AclState \<Rightarrow> PermissionChangePayload list \<Rightarrow> acl_error + RawRecord" where
  "BuildPermissionChanges = (\<lambda>(B, C, K, b, now) st changes. buildFrom (B, C, K, b, now) st (buildPermissionChanges C st changes))"

definition BuildAccountsAdd :: "builderEnv \<Rightarrow> AclState \<Rightarrow> AccountAdd list \<Rightarrow> acl_error + RawRecord" where
  "BuildAccountsAdd = (\<lambda>(B, C, K, b, now) st additions. buildFrom (B, C, K, b, now) st (buildAccountsAdd B C st additions None None))"

definition BuildInvite :: "builderEnv \<Rightarrow> AclState \<Rightarrow> privkey option \<Rightarrow> acl_error + (RawRecord \<times> privkey)" where
  "BuildInvite = (\<lambda>(B, C, K, b, now) st newKey.
     rbind (buildInvite C st newKey) (\<lambda>(privKey, content).
     rbind (buildRecord B C K b now st content) (\<lambda>rawRec. Inr (rawRec, privKey))))"

definition BuildInviteAnyone :: "builderEnv \<Rightarrow> AclState \<Rightarrow> AclPermissions \<Rightarrow> privkey option \<Rightarrow> acl_error + (RawRecord \<times> privkey)" where
  "BuildInviteAnyone = (\<lambda>(B, C, K, b, now) st permissions newKey.
     rbind (buildInviteAnyone B C st permissions newKey) (\<lambda>(privKey, content).
     rbind (buildRecord B C K b now st content) (\<lambda>rawRec. Inr (rawRec, privKey))))"

definition BuildInviteChange :: "builderEnv \<Rightarrow> AclState \<Rightarrow> InviteChangePayload \<Rightarrow> acl_error + RawRecord" where
  "BuildInviteChange = (\<lambda>(B, C, K, b, now) st change. buildFrom (B, C, K, b, now) st (buildInviteChange C st change))"

definition BuildInviteRevoke :: "builderEnv \<Rightarrow> AclState \<Rightarrow> string \<Rightarrow> acl_error + RawRecord" where
  "BuildInviteRevoke = (\<lambda>(B, C, K, b, now) st i. buildFrom (B, C, K, b, now) st (buildInviteRevoke C st i))"

text \<open>The loop over the invites keeps the last one that matches; without one the id is empty.\<close>

definition lastInvite :: "(Invite \<Rightarrow> bool) \<Rightarrow> AclState \<Rightarrow> string" where
  "lastInvite P st = fold (\<lambda>(i, inv) inviteId. if P inv then i else inviteId) (invites st) []"

text \<open>The part that both ways of joining share: the invite, the encrypted metadata and the signature of the invite key.\<close>

definition joinData :: "builderOps \<Rightarrow> crypto \<Rightarrow> aclRecordBuilder \<Rightarrow> AclState \<Rightarrow> (Invite \<Rightarrow> bool) \<Rightarrow> privkey \<Rightarrow> bytes
    \<Rightarrow> acl_error + (string \<times> bytes \<times> bytes)" where
  "joinData B C b st P inviteKey metadata =
     (let inviteId = lastInvite P st
      in rbind (of_opt ErrNoSuchInvite (mget (invites st) inviteId)) (\<lambda>invite.
         if getPublic C inviteKey \<noteq> inv_Key invite then Inl ErrIncorrectInviteKey
         else
           rbind (nonNil (rb_signKey b)) (\<lambda>key.
           if \<not> NoPermissions (Permissions st (getPublic C key)) then Inl ErrInsufficientPermissions
           else
             rbind (CurrentMetadataKey st) (\<lambda>mk.
             rbind (nonNil mk) (\<lambda>mkKey.
             rbind (keyOp (encryptPub B mkKey metadata)) (\<lambda>encMeta.
             if length encMeta > MaxMetadataLen then Inl ErrMetadataTooLarge
             else
               rbind (keyOp (rawPub B (getPublic C key))) (\<lambda>rawIdentity.
               rbind (keyOp (signWith B inviteKey rawIdentity)) (\<lambda>signature.
                 Inr (inviteId, encMeta, signature)))))))))"

definition BuildRequestJoin :: "builderEnv \<Rightarrow> AclState \<Rightarrow> privkey \<Rightarrow> bytes \<Rightarrow> acl_error + RawRecord" where
  "BuildRequestJoin = (\<lambda>(B, C, K, b, now) st inviteKey metadata.
     rbind (joinData B C b st (\<lambda>inv. inv_Key inv = getPublic C inviteKey) inviteKey metadata) (\<lambda>(inviteId, encMeta, signature).
     rbind (nonNil (rb_signKey b)) (\<lambda>key.
       buildRecord B C K b now st (RequestJoin \<lparr>rj_inviteIdentity = marshallPub C (getPublic C key), rj_inviteRecordId = inviteId,
         rj_inviteIdentitySignature = signature, rj_metadata = encMeta\<rparr>))))"

definition BuildInviteJoinWithoutApprove :: "builderEnv \<Rightarrow> AclState \<Rightarrow> privkey \<Rightarrow> AclPermissions \<Rightarrow> bytes \<Rightarrow> acl_error + RawRecord" where
  "BuildInviteJoinWithoutApprove = (\<lambda>(B, C, K, b, now) st inviteKey permissions metadata.
     rbind (joinData B C b st (\<lambda>inv. inv_Key inv = getPublic C inviteKey \<and> inv_Type inv = AnyoneCanJoin) inviteKey metadata)
       (\<lambda>(inviteId, encMeta, signature).
     rbind (decryptReadKeyFromInviteWithoutApprove C st (Some inviteKey)) (\<lambda>key'.
     rbind (keyOp (marshalSym B key')) (\<lambda>readKey.
     rbind (nonNil (rb_signKey b)) (\<lambda>key.
     rbind (keyOp (encryptPub B (getPublic C key) readKey)) (\<lambda>encReadKey.
       buildRecord B C K b now st (InviteJoin \<lparr>ij_identity = marshallPub C (getPublic C key), ij_inviteRecordId = inviteId,
         ij_inviteIdentitySignature = signature, ij_metadata = encMeta, ij_encryptedReadKey = Some encReadKey,
         ij_permissions = permissions\<rparr>)))))))"

definition BuildRequestAccept :: "builderEnv \<Rightarrow> AclState \<Rightarrow> RequestAcceptPayload \<Rightarrow> acl_error + RawRecord" where
  "BuildRequestAccept = (\<lambda>(B, C, K, b, now) st payload. buildFrom (B, C, K, b, now) st (buildRequestAccept B C st payload None))"

definition BuildRequestDecline :: "builderEnv \<Rightarrow> AclState \<Rightarrow> string \<Rightarrow> acl_error + RawRecord" where
  "BuildRequestDecline = (\<lambda>(B, C, K, b, now) st i. buildFrom (B, C, K, b, now) st (buildRequestDecline C st i))"

definition BuildRequestCancel :: "builderEnv \<Rightarrow> AclState \<Rightarrow> string \<Rightarrow> acl_error + RawRecord" where
  "BuildRequestCancel = (\<lambda>(B, C, K, b, now) st i.
     rbind (of_opt ErrNoSuchRequest (mget (requestRecords st) i)) (\<lambda>rec.
     rbind (statePubKey C st) (\<lambda>pk.
       if RequestIdentity rec \<noteq> pk then Inl ErrInsufficientPermissions
       else buildRecord B C K b now st (RequestCancel i))))"

definition BuildPermissionChange :: "builderEnv \<Rightarrow> AclState \<Rightarrow> PermissionChangePayload \<Rightarrow> acl_error + RawRecord" where
  "BuildPermissionChange = (\<lambda>(B, C, K, b, now) st payload.
     rbind (statePubKey C st) (\<lambda>pk.
       if \<not> CanManageAccounts (Permissions st pk) \<or> pp_Identity payload = pk then Inl ErrInsufficientPermissions
       else if IsOwner (pp_Permissions payload) then Inl ErrIsOwner
       else buildRecord B C K b now st (ContentPermissionChange
         \<lparr>pm_identity = marshallPub C (pp_Identity payload), pm_permissions = pp_Permissions payload\<rparr>)))"

definition BuildReadKeyChange :: "builderEnv \<Rightarrow> AclState \<Rightarrow> ReadKeyChangePayload \<Rightarrow> acl_error + RawRecord" where
  "BuildReadKeyChange = (\<lambda>(B, C, K, b, now) st payload.
     rbind (needManager C st) (\<lambda>_.
     rbind (buildReadKeyChange B C st payload [] []) (\<lambda>rkChange.
       buildRecord B C K b now st (ReadKeyChange rkChange))))"

definition BuildAccountRemove :: "builderEnv \<Rightarrow> AclState \<Rightarrow> AccountRemovePayload \<Rightarrow> acl_error + RawRecord" where
  "BuildAccountRemove = (\<lambda>(B, C, K, b, now) st payload. buildFrom (B, C, K, b, now) st (buildAccountRemove B C st payload))"

definition BuildRequestRemove :: "builderEnv \<Rightarrow> AclState \<Rightarrow> acl_error + RawRecord" where
  "BuildRequestRemove = (\<lambda>(B, C, K, b, now) st.
     rbind (statePubKey C st) (\<lambda>pk.
       if NoPermissions (Permissions st pk) then Inl ErrNoSuchAccount
       else if IsOwner (Permissions st pk) then Inl ErrIsOwner
       else if Record st pk \<noteq> Inl ErrNoSuchRecord then Inl ErrPendingRequest
       else buildRecord B C K b now st AccountRequestRemove))"

definition BuildSpaceOptionsChange :: "builderEnv \<Rightarrow> AclState \<Rightarrow> AclSpaceOptions option \<Rightarrow> acl_error + RawRecord" where
  "BuildSpaceOptionsChange = (\<lambda>(B, C, K, b, now) st options.
     rbind (statePubKey C st) (\<lambda>pk.
       if \<not> IsOwner (Permissions st pk) then Inl ErrInsufficientPermissions
       else buildRecord B C K b now st (SpaceOptionsChange options)))"

section \<open>Batches\<close>

text \<open>The loop over the new invites, with one new key each.\<close>

fun newInviteContents :: "builderOps \<Rightarrow> crypto \<Rightarrow> AclState \<Rightarrow> AclPermissions list \<Rightarrow> privkey option list
    \<Rightarrow> acl_error + (privkey list \<times> AclContentValue list)" where
  "newInviteContents B C st [] newKeys = Inr ([], [])"
| "newInviteContents B C st (perms # rest) newKeys =
     (let newKey = (case newKeys of [] \<Rightarrow> None | k # _ \<Rightarrow> k)
      in rbind (if NoPermissions perms then buildInvite C st newKey else buildInviteAnyone B C st perms newKey) (\<lambda>(privKey, content).
         rbind (newInviteContents B C st rest (tl newKeys)) (\<lambda>(keys, contents).
           Inr (privKey # keys, content # contents))))"

definition batchContents :: "builderOps \<Rightarrow> crypto \<Rightarrow> AclState \<Rightarrow> BatchRequestPayload \<Rightarrow> privkey option list
    \<Rightarrow> acl_error + (privkey list \<times> AclContentValue list)" where
  "batchContents B C st p newKeys =
     (let change = rm_Change (bp_Removals p); ids = rm_Identities (bp_Removals p)
      in if bp_ReadKeyChange p \<noteq> None \<and> (bp_Additions p \<noteq> [] \<or> ids \<noteq> [] \<or> bp_Approvals p \<noteq> []
           \<or> bp_Changes p \<noteq> [] \<or> bp_InviteChanges p \<noteq> [] \<or> bp_NewInvites p \<noteq> []) then Inl ErrReadKeyChangeNotAlone
      else
        rbind (if ids = [] then Inr [] else rbind (buildAccountRemove B C st (bp_Removals p)) (\<lambda>c. Inr [c])) (\<lambda>removals.
        rbind (if bp_Additions p = [] then Inr []
               else rbind (nonNil (rp_MetadataKey change)) (\<lambda>mk.
                 rbind (buildAccountsAdd B C st (bp_Additions p) (Some (getPublic C mk)) (rp_ReadKey change)) (\<lambda>c. Inr [c]))) (\<lambda>additions.
        rbind (if bp_Changes p = [] then Inr [] else rbind (buildPermissionChanges C st (bp_Changes p)) (\<lambda>c. Inr [c])) (\<lambda>changes.
        rbind (rmap (\<lambda>acc. buildRequestAccept B C st acc (rp_ReadKey change)) (bp_Approvals p)) (\<lambda>approvals.
        rbind (rmap (buildRequestDecline C st) (bp_Declines p)) (\<lambda>declines.
        rbind (rmap (buildInviteRevoke C st) (bp_InviteRevokes p)) (\<lambda>revokes.
        rbind (case bp_ReadKeyChange p of
            None \<Rightarrow> Inr []
          | Some rk \<Rightarrow> rbind (buildReadKeyChange B C st rk [] (bp_InviteRevokes p)) (\<lambda>ch. Inr [ReadKeyChange ch])) (\<lambda>rotation.
        rbind (rmap (buildInviteChange C st) (bp_InviteChanges p)) (\<lambda>inviteChanges.
        rbind (newInviteContents B C st (bp_NewInvites p) newKeys) (\<lambda>(keys, newInvites).
          Inr (keys, removals @ additions @ changes @ approvals @ declines @ revokes @ rotation @ inviteChanges @ newInvites)))))))))))"

definition BuildBatchRequest :: "builderEnv \<Rightarrow> AclState \<Rightarrow> BatchRequestPayload \<Rightarrow> privkey option list
    \<Rightarrow> acl_error + (RawRecord \<times> privkey list)" where
  "BuildBatchRequest = (\<lambda>(B, C, K, b, now) st payload newKeys.
     rbind (batchContents B C st payload newKeys) (\<lambda>(keys, contentList).
     rbind (buildRecords B C K b now st contentList) (\<lambda>rec. Inr (rec, keys))))"

section \<open>Roots\<close>

definition marshalAclRoot :: "builderOps \<Rightarrow> codec \<Rightarrow> AclRootMessage \<Rightarrow> privkey \<Rightarrow> acl_error + RawRecordWithId" where
  "marshalAclRoot B K aclRoot key =
     rbind (of_opt ErrUnmarshal (marshalRoot B aclRoot)) (\<lambda>marshalledRoot.
     rbind (keyOp (signWith B key marshalledRoot)) (\<lambda>signature.
     rbind (of_opt ErrUnmarshal (marshalRaw B \<lparr>raw_Payload = marshalledRoot, raw_Signature = signature, raw_AcceptorIdentity = [],
       raw_AcceptorSignature = []\<rparr>)) (\<lambda>marshalledRaw.
     rbind (NewCidFromBytes K marshalledRaw) (\<lambda>aclHeadId.
       Inr \<lparr>rw_Payload = marshalledRaw, rw_Id = aclHeadId\<rparr>))))"

definition emptyRoot :: "bytes \<Rightarrow> string \<Rightarrow> bytes \<Rightarrow> bytes \<Rightarrow> AclRootMessage" where
  "emptyRoot identity spaceId masterKey identitySignature =
     \<lparr>ro_encryptedReadKey = None, ro_metadataPubKey = [], ro_encryptedMetadataPrivKey = None, ro_encryptedOwnerMetadata = [],
      ro_oneToOneInfo = None, ro_options = None, ro_identity = identity, ro_spaceId = spaceId, ro_masterKey = masterKey,
      ro_identitySignature = identitySignature, ro_timestamp = 0\<rparr>"

definition BuildRoot :: "builderOps \<Rightarrow> crypto \<Rightarrow> codec \<Rightarrow> int \<Rightarrow> RootContent \<Rightarrow> acl_error + RawRecordWithId" where
  "BuildRoot B C K now content =
     (let pub = getPublic C (rc_PrivKey content)
      in rbind (keyOp (rawPub B pub)) (\<lambda>rawIdentity.
         rbind (keyOp (signWith B (rc_MasterKey content) rawIdentity)) (\<lambda>identitySignature.
         let aclRoot = emptyRoot (marshallPub C pub) (rc_SpaceId content) (marshallPub C (getPublic C (rc_MasterKey content))) identitySignature
         in rbind (case rp_ReadKey (rc_Change content) of
              None \<Rightarrow> Inr aclRoot
            | Some readKey \<Rightarrow>
                rbind (nonNil (rp_MetadataKey (rc_Change content))) (\<lambda>metadataKey.
                rbind (keyOp (marshalPriv B metadataKey)) (\<lambda>metadataPrivProto.
                rbind (keyOp (encryptSym C readKey metadataPrivProto)) (\<lambda>encPriv.
                rbind (keyOp (marshalSym B readKey)) (\<lambda>rkProto.
                rbind (keyOp (encryptPub B pub rkProto)) (\<lambda>encRead.
                rbind (keyOp (encryptPub B (getPublic C metadataKey) (rc_Metadata content))) (\<lambda>enc.
                  Inr (aclRoot\<lparr>ro_timestamp := now, ro_encryptedMetadataPrivKey := Some encPriv,
                    ro_metadataPubKey := marshallPub C (getPublic C metadataKey), ro_encryptedReadKey := Some encRead,
                    ro_encryptedOwnerMetadata := enc\<rparr>)))))))) (\<lambda>aclRoot.
            marshalAclRoot B K (aclRoot\<lparr>ro_options := rc_Options content\<rparr>) (rc_PrivKey content)))))"

definition BuildOneToOneRoot :: "builderOps \<Rightarrow> crypto \<Rightarrow> codec \<Rightarrow> RootContent \<Rightarrow> AclOneToOneInfo option \<Rightarrow> acl_error + RawRecordWithId" where
  "BuildOneToOneRoot B C K content oneToOneInfo =
     (let pub = getPublic C (rc_PrivKey content)
      in rbind (keyOp (rawPub B pub)) (\<lambda>rawIdentity.
         rbind (keyOp (signWith B (rc_MasterKey content) rawIdentity)) (\<lambda>identitySignature.
           marshalAclRoot B K ((emptyRoot (marshallPub C pub) [] (marshallPub C (getPublic C (rc_MasterKey content))) identitySignature)
             \<lparr>ro_oneToOneInfo := oneToOneInfo\<rparr>) (rc_PrivKey content))))"

end
