(* ===== verification/AclBuilt.thy ===== *)
theory AclBuilt
  imports AclBuilder
begin

text \<open>
  What the record builder makes is accepted: the rotation of the read key reaches everyone who has access and no one
  else.
\<close>

section \<open>What is relied on\<close>

text \<open>
  Keys are encoded and decoded, encryption is undone by the other half of the key, signatures verify, and the encoders
  of messages are undone by the decoders. An optional byte field is lost on the wire when it is empty, so the last law
  asks for fields that are not.
\<close>

definition keyLaws :: "builderOps \<Rightarrow> crypto \<Rightarrow> bool" where
  "keyLaws B C \<longleftrightarrow> (\<forall>pk. pubKeyFromProto C (marshallPub C pk) = Some pk)
     \<and> (\<forall>pk m. \<exists>c. encryptPub B pk m = Some c \<and> c \<noteq> [])
     \<and> (\<forall>k m c. encryptPub B (getPublic C k) m = Some c \<longrightarrow> decryptPriv C k c = Some m)
     \<and> (\<forall>k m. \<exists>c. encryptSym C k m = Some c \<and> c \<noteq> [] \<and> decryptSym C k c = Some m)
     \<and> (\<forall>k. \<exists>d. marshalSym B k = Some d \<and> unmarshallAESKeyProto C d = Some k)
     \<and> (\<forall>k. \<exists>d. marshalPriv B k = Some d \<and> unmarshalEd25519PrivateKeyProto C d = Some k)
     \<and> (\<forall>k m. \<exists>sig. signWith B k m = Some sig \<and> verify C (getPublic C k) m sig)"

definition wirePresent :: "AclReadKeyChange \<Rightarrow> bool" where
  "wirePresent ch \<longleftrightarrow> rk_encryptedMetadataPrivKey ch \<notin> {None, Some []} \<and> rk_encryptedOldReadKey ch \<notin> {None, Some []}
     \<and> (\<forall>e \<in> set (rk_accountKeys ch @ rk_inviteKeys ch). ek_encryptedReadKey e \<notin> {None, Some []})"

definition wireLaws :: "builderOps \<Rightarrow> crypto \<Rightarrow> codec \<Rightarrow> bool" where
  "wireLaws B C K \<longleftrightarrow> (\<forall>now r. \<exists>d. marshalRecord B now r = Some d \<and> unmarshalRecord K d = Some r)
     \<and> (\<forall>ch. wirePresent ch \<longrightarrow> (\<exists>d. marshalAclData B [ReadKeyChange ch] = Some d \<and> unmarshalAclData C d = Some [ReadKeyChange ch]))
     \<and> (\<forall>d. \<exists>i. cidOfBytes K d = Some i \<and> i \<noteq> [])"

lemma keyLawsD:
  assumes "keyLaws B C"
  shows "pubKeyFromProto C (marshallPub C pk) = Some pk"
    and "\<exists>c. encryptPub B pk m = Some c \<and> c \<noteq> []"
    and "encryptPub B (getPublic C k) m = Some c \<Longrightarrow> decryptPriv C k c = Some m"
    and "\<exists>c. encryptSym C k m = Some c \<and> c \<noteq> [] \<and> decryptSym C k c = Some m"
    and "\<exists>d. marshalSym B k = Some d \<and> unmarshallAESKeyProto C d = Some k"
    and "\<exists>d. marshalPriv B k = Some d \<and> unmarshalEd25519PrivateKeyProto C d = Some k"
    and "\<exists>sig. signWith B k m = Some sig \<and> verify C (getPublic C k) m sig"
  using assms unfolding keyLaws_def by blast+

section \<open>The read key change\<close>

lemma rmap_total:
  assumes "\<And>x. x \<in> set xs \<Longrightarrow> \<exists>y. f x = Inr y \<and> P x y"
  shows "\<exists>ys. rmap f xs = Inr ys \<and> list_all2 P xs ys"
  using assms
proof (induction xs)
  case (Cons x xs)
  obtain ys where "rmap f xs = Inr ys" "list_all2 P xs ys"
    using Cons.IH Cons.prems by auto
  moreover obtain y where "f x = Inr y" "P x y"
    using Cons.prems[of x] by auto
  ultimately show ?case
    by auto
qed simp

definition keyEntry :: "builderOps \<Rightarrow> crypto \<Rightarrow> bytes \<Rightarrow> pubkey \<Rightarrow> AclEncryptedReadKey \<Rightarrow> bool" where
  "keyEntry B C protoKey pk e \<longleftrightarrow> ek_identity e = marshallPub C pk
     \<and> (\<exists>enc. ek_encryptedReadKey e = Some enc \<and> enc \<noteq> [] \<and> encryptPub B pk protoKey = Some enc)"

lemma encryptFor_entry: "keyLaws B C \<Longrightarrow> \<exists>e. encryptFor B C protoKey pk = Inr e \<and> keyEntry B C protoKey pk e"
  using keyLawsD(2)[of B C pk protoKey] by (auto simp: encryptFor_def keyEntry_def)

lemma keyEntries_present:
  "list_all2 (keyEntry B C protoKey) ks es \<Longrightarrow> e \<in> set es \<Longrightarrow> ek_encryptedReadKey e \<notin> {None, Some []}"
  by (induction rule: list_all2_induct) (auto simp: keyEntry_def)

definition keyedIds :: "string list \<Rightarrow> AclState \<Rightarrow> pubkey list" where
  "keyedIds removed st = map fst (filter (\<lambda>(k, a). k \<notin> set removed \<and> \<not> NoPermissions (as_Permissions a)) (accountStates st))"

lemma keyedAccounts_ids:
  assumes "accounts_ok (accountStates st)"
  shows "map as_PubKey (keyedAccounts removed st) = map Some (keyedIds removed st)"
    and "distinct (keyedIds removed st)"
    and "set (keyedIds removed st) = {k. \<not> NoPermissions (Permissions st k)} - set removed"
proof -
  have wf: "gm_wf (accountStates st)" and ok: "\<And>k a. (k, a) \<in> set (accountStates st) \<Longrightarrow> as_PubKey a = Some k"
    using assms by (auto simp: accounts_ok_def account_ok_def gm_in_set_iff)
  show "map as_PubKey (keyedAccounts removed st) = map Some (keyedIds removed st)"
    using ok by (auto simp: keyedAccounts_def keyedIds_def)
  show "distinct (keyedIds removed st)"
    using wf by (simp add: keyedIds_def gm_wf_def distinct_map_filter)
  have "k \<in> set (keyedIds removed st) \<longleftrightarrow> (\<exists>a. mget (accountStates st) k = Some a \<and> k \<notin> set removed \<and> \<not> NoPermissions (as_Permissions a))" for k
    using gm_in_set_iff[OF wf] by (force simp: keyedIds_def)
  then show "set (keyedIds removed st) = {k. \<not> NoPermissions (Permissions st k)} - set removed"
    by (auto simp: Permissions_def perm_defs split: option.splits)
qed

text \<open>With the laws of keys \<open>buildReadKeyChange\<close> succeeds, and what it makes is known.\<close>

lemma buildReadKeyChange_total:
  assumes laws: "keyLaws B C" and acc: "accounts_ok (accountStates st)"
    and cur: "CurrentReadKey st = Inr (Some cur)" and p: "rp_ReadKey payload = Some rk" "rp_MetadataKey payload = Some mk"
  shows "\<exists>ch protoKey. buildReadKeyChange B C st payload removed revoked = Inr ch \<and> marshalSym B rk = Some protoKey
    \<and> unmarshallAESKeyProto C protoKey = Some rk
    \<and> list_all2 (keyEntry B C protoKey) (keyedIds removed st) (rk_accountKeys ch)
    \<and> list_all2 (keyEntry B C protoKey) (map inv_Key (keyedInvites revoked st)) (rk_inviteKeys ch)
    \<and> rk_metadataPubKey ch = marshallPub C (getPublic C mk)
    \<and> unmarshallDecryptPrivKey C (rk_encryptedMetadataPrivKey ch) (decryptSym C rk) = Inr mk
    \<and> unmarshallDecryptReadKey C (rk_encryptedOldReadKey ch) (decryptSym C rk) = Inr cur \<and> wirePresent ch"
proof -
  obtain protoKey where pk: "marshalSym B rk = Some protoKey" "unmarshallAESKeyProto C protoKey = Some rk"
    using keyLawsD(5)[OF laws] by blast
  obtain curD where cd: "marshalSym B cur = Some curD" "unmarshallAESKeyProto C curD = Some cur"
    using keyLawsD(5)[OF laws] by blast
  obtain mkD where md: "marshalPriv B mk = Some mkD" "unmarshalEd25519PrivateKeyProto C mkD = Some mk"
    using keyLawsD(6)[OF laws] by blast
  obtain encMk where em: "encryptSym C rk mkD = Some encMk" "encMk \<noteq> []" "decryptSym C rk encMk = Some mkD"
    using keyLawsD(4)[OF laws] by blast
  obtain encOld where eo: "encryptSym C rk curD = Some encOld" "encOld \<noteq> []" "decryptSym C rk encOld = Some curD"
    using keyLawsD(4)[OF laws] by blast
  have ent: "\<exists>e. rbind (nonNil (as_PubKey a)) (encryptFor B C protoKey) = Inr e \<and> keyEntry B C protoKey (the (as_PubKey a)) e"
    if "a \<in> set (keyedAccounts removed st)" for a
  proof -
    have "as_PubKey a \<in> set (map as_PubKey (keyedAccounts removed st))"
      using that by simp
    then obtain k where "as_PubKey a = Some k"
      unfolding keyedAccounts_ids(1)[OF acc] by auto
    then show ?thesis
      using encryptFor_entry[OF laws] by simp
  qed
  obtain as where as: "rmap (\<lambda>a. rbind (nonNil (as_PubKey a)) (encryptFor B C protoKey)) (keyedAccounts removed st) = Inr as"
    "list_all2 (\<lambda>a. keyEntry B C protoKey (the (as_PubKey a))) (keyedAccounts removed st) as"
    using rmap_total[of "keyedAccounts removed st" "\<lambda>a. rbind (nonNil (as_PubKey a)) (encryptFor B C protoKey)"
      "\<lambda>a. keyEntry B C protoKey (the (as_PubKey a))", OF ent] by blast
  have "map (the \<circ> as_PubKey) (keyedAccounts removed st) = keyedIds removed st"
    using arg_cong[OF keyedAccounts_ids(1)[OF acc, of removed], of "map the"] by (simp add: o_def)
  then have as': "list_all2 (keyEntry B C protoKey) (keyedIds removed st) as"
    using as(2) list_all2_map1[of "keyEntry B C protoKey" "the \<circ> as_PubKey" "keyedAccounts removed st" as] by (simp add: o_def)
  obtain ivs where i: "rmap (\<lambda>invite. encryptFor B C protoKey (inv_Key invite)) (keyedInvites revoked st) = Inr ivs"
    "list_all2 (\<lambda>invite. keyEntry B C protoKey (inv_Key invite)) (keyedInvites revoked st) ivs"
    using rmap_total[of "keyedInvites revoked st" "\<lambda>invite. encryptFor B C protoKey (inv_Key invite)"
      "\<lambda>invite. keyEntry B C protoKey (inv_Key invite)"] encryptFor_entry[OF laws] by blast
  then have i': "list_all2 (keyEntry B C protoKey) (map inv_Key (keyedInvites revoked st)) ivs"
    by (simp add: list_all2_map1)
  define ch where "ch = \<lparr>rk_accountKeys = as, rk_metadataPubKey = marshallPub C (getPublic C mk),
    rk_encryptedMetadataPrivKey = Some encMk, rk_encryptedOldReadKey = Some encOld, rk_inviteKeys = ivs\<rparr>"
  have "buildReadKeyChange B C st payload removed revoked = Inr ch"
    unfolding buildReadKeyChange_def p cur by (simp add: pk cd md em eo as(1) i(1) ch_def)
  moreover have "wirePresent ch"
    using keyEntries_present[OF as'] keyEntries_present[OF i'] em(2) eo(2) by (simp add: wirePresent_def ch_def ball_Un)
  ultimately show ?thesis
    using pk as' i' em eo md cd
    by (auto simp: ch_def unmarshallDecryptPrivKey_def unmarshallDecryptReadKey_def)
qed

section \<open>It is accepted\<close>

lemma entries_identities:
  assumes "keyLaws B C" and "list_all2 (keyEntry B C protoKey) ks es"
  shows "map (\<lambda>e. pubKeyFromProto C (ek_identity e)) es = map Some ks"
  using assms(2) by (induction rule: list_all2_induct) (simp_all add: keyEntry_def keyLawsD(1)[OF assms(1)])

lemma entry_decrypts:
  assumes "keyLaws B C" and "unmarshallAESKeyProto C protoKey = Some rk" and "keyEntry B C protoKey (getPublic C key) e"
  shows "unmarshallDecryptReadKey C (ek_encryptedReadKey e) (decryptPriv C key) = Inr rk"
  using assms keyLawsD(3)[OF assms(1)] by (auto simp: keyEntry_def unmarshallDecryptReadKey_def)

lemma ourReadKey_entries:
  assumes "keyLaws B C" and "unmarshallAESKeyProto C protoKey = Some rk" and "st_key st = Some key"
    and "list_all2 (keyEntry B C protoKey) ks es"
  shows "ourReadKey C st es found = Inr (if getPublic C key \<in> set ks then Some rk else found)"
  using assms(4)
proof (induction arbitrary: found rule: list_all2_induct)
  case (Cons k ks e es)
  have "pubKeyFromProto C (ek_identity e) = Some k"
    using Cons(1) keyLawsD(1)[OF assms(1)] by (simp add: keyEntry_def)
  moreover have "unmarshallDecryptReadKey C (ek_encryptedReadKey e) (decryptPriv C key) = Inr rk" if "getPublic C key = k"
    using entry_decrypts[OF assms(1,2)] Cons(1) that by simp
  ultimately show ?case
    using Cons.IH by (simp add: assms(3))
qed simp

lemma updateInviteKeys_total:
  assumes "keyLaws B C" and "list_all2 (keyEntry B C protoKey) ks es"
  shows "\<exists>m. rfold (updateInviteKey C) es st = Inr (st\<lparr>invites := m\<rparr>)"
  using assms(2)
proof (induction arbitrary: st rule: list_all2_induct)
  case Nil
  have "st = st\<lparr>invites := invites st\<rparr>" by simp
  then show ?case by (metis rfold.simps(1))
next
  case (Cons k ks e es)
  have "pubKeyFromProto C (ek_identity e) = Some k"
    using Cons(1) keyLawsD(1)[OF assms(1)] by (simp add: keyEntry_def)
  then obtain m where m: "updateInviteKey C e st = Inr (st\<lparr>invites := m\<rparr>)"
    by (cases "find (\<lambda>(key, invite). inv_Key invite = k) (rangeInvites C k (invites st))")
      (auto simp: updateInviteKey_def intro: that[of "invites st"] that)
  show ?case
    using Cons.IH[of "st\<lparr>invites := m\<rparr>"] by (simp add: m)
qed

lemma keyedInvites_all: "keyedInvites [] st = filter (\<lambda>i. inv_Type i = AnyoneCanJoin) (map snd (invites st))"
  by (simp add: keyedInvites_def filter_map o_def case_prod_unfold)

text \<open>The state that a manager's own rotation leads to, whichever validator is used.\<close>

lemma built_change_applies:
  assumes laws: "keyLaws B C" and inv: "acl_inv st" and key: "st_key st = Some key"
    and mgr: "CanManageAccounts (Permissions st (getPublic C key))" and who: "rec_Identity r = getPublic C key"
    and rk: "unmarshallAESKeyProto C protoKey = Some rk"
    and as: "list_all2 (keyEntry B C protoKey) (keyedIds [] st) (rk_accountKeys ch)"
    and iv: "list_all2 (keyEntry B C protoKey) (map inv_Key (keyedInvites [] st)) (rk_inviteKeys ch)"
    and mp: "rk_metadataPubKey ch = marshallPub C (getPublic C mk)"
    and mk: "unmarshallDecryptPrivKey C (rk_encryptedMetadataPrivKey ch) (decryptSym C rk) = Inr mk"
    and w: "wirePresent ch"
  shows "\<exists>m. applyReadKeyChange C (Some ch) r True st = Inr (st\<lparr>readKeyChanges := readKeyChanges st @ [rec_Id r], invites := m,
    st_keys := mput (rec_Id r) \<lparr>ReadKey = Some rk, MetadataPrivKey = Some mk, MetadataPubKey = Some (getPublic C mk),
      encryptedPreviousReadKey = rk_encryptedOldReadKey ch, encryptedMetadataKey = rk_encryptedMetadataPrivKey ch\<rparr> (st_keys st)\<rparr>)"
proof -
  have acc: "accounts_ok (accountStates st)"
    using inv by (simp add: acl_inv_def)
  have "validateReadKeyChange C st (Some ch) [] = None" if "ShouldValidate st"
    unfolding validateReadKeyChange_iff[OF inv that]
  proof (intro conjI exI)
    show "map (\<lambda>k. pubKeyFromProto C (ek_identity k)) (rk_accountKeys ch) = map Some (keyedIds [] st)"
      using entries_identities[OF laws as] .
    show "map (\<lambda>k. pubKeyFromProto C (ek_identity k)) (rk_inviteKeys ch) = map Some (map inv_Key (keyedInvites [] st))"
      using entries_identities[OF laws iv] .
    show "mset (map inv_Key (keyedInvites [] st)) =
        {#inv_Key i. i \<in># filter_mset (\<lambda>i. inv_Type i = AnyoneCanJoin) (mset (map snd (invites st)))#}"
      unfolding keyedInvites_all by simp
  qed (use w keyedAccounts_ids(2,3)[OF acc] in \<open>auto simp: mp wirePresent_def keyLawsD(1)[OF laws]\<close>)
  then have v: "ValidateReadKeyChange C st ch (rec_Identity r) = None"
    using mgr who by (simp add: ValidateReadKeyChange_def)
  have "getPublic C key \<in> set (keyedIds [] st)"
    using mgr by (auto simp: keyedAccounts_ids(3)[OF acc] perm_defs)
  then have "ourReadKey C st (rk_accountKeys ch) None = Inr (Some rk)"
    using ourReadKey_entries[OF laws rk key as] by simp
  then show ?thesis
    using updateInviteKeys_total[OF laws iv, of "st\<lparr>readKeyChanges := readKeyChanges st @ [rec_Id r]\<rparr>"] v
    by (auto simp: applyReadKeyChange_def mp mk keyLawsD(1)[OF laws])
qed

text \<open>A content that the state accepts under every validator becomes a record that is read back as that content.\<close>

lemma buildRecord_accepted:
  assumes laws: "keyLaws B C" "wireLaws B C K" and w: "wirePresent ch" and key: "st_key st = Some key" "rb_signKey b = Some key"
    and o: "\<not> isOneToOne st"
    and app: "\<And>v r. rec_Identity r = getPublic C key \<Longrightarrow> \<exists>st1. applyReadKeyChange C (Some ch) r True (setV v st) = Inr st1"
  shows "\<exists>raw r st1. buildRecord B C K b now st (ReadKeyChange ch) = Inr raw \<and> Unmarshall C K raw = Inr r
    \<and> rec_Identity r = getPublic C key \<and> rec_Id r \<noteq> [] \<and> rec_Model r = Some (AclData [ReadKeyChange ch])
    \<and> applyReadKeyChange C (Some ch) r True st = Inr st1 \<and> ApplyRecord C r st = Inr (st1\<lparr>lastRecordId := rec_Id r\<rparr>)"
proof -
  obtain d where d: "marshalAclData B [ReadKeyChange ch] = Some d" "unmarshalAclData C d = Some [ReadKeyChange ch]"
    using laws(2) w unfolding wireLaws_def by blast
  define cr where "cr = \<lparr>cr_PrevId = lastRecordId st, cr_Identity = marshallPub C (getPublic C key), cr_Data = d\<rparr>"
  obtain p where p: "marshalRecord B now cr = Some p" "unmarshalRecord K p = Some cr"
    using laws(2) unfolding wireLaws_def by blast
  obtain sig where sig: "signWith B key p = Some sig" "verify C (getPublic C key) p sig"
    using keyLawsD(7)[OF laws(1)] by blast
  obtain i where i: "cidOfBytes K p = Some i" "i \<noteq> []"
    using laws(2) unfolding wireLaws_def by blast
  define raw where "raw = \<lparr>raw_Payload = p, raw_Signature = sig, raw_AcceptorIdentity = [], raw_AcceptorSignature = []\<rparr>"
  define r where "r = \<lparr>rec_Id = i, rec_PrevId = lastRecordId st, rec_Data = d, rec_Identity = getPublic C key,
    rec_Model = Some (AclData [ReadKeyChange ch])\<rparr>"
  have un: "Unmarshall C K raw = Inr r"
    by (simp add: Unmarshall_def raw_def r_def p cr_def keyLawsD(1)[OF laws(1)] d sig NewCidFromBytes_def i)
  have same: "setV (st_contentValidator st) st = st"
    by (simp add: setV_def)
  have step: "ApplyRecord C r (setV v st) = Inr (st1\<lparr>lastRecordId := rec_Id r\<rparr>)"
    if "applyReadKeyChange C (Some ch) r True (setV v st) = Inr st1" for v st1
    using that o i by (simp add: ApplyRecord_def r_def applyChangeData_def ValidateAclData_def applyChangeContent_def)
  have who: "rec_Identity r = getPublic C key"
    by (simp add: r_def)
  have "preflightCheck C K b st raw = None"
    using app[OF who, of "\<lparr>shouldValidate = True, admission = True\<rparr>"] step
    by (auto simp: preflightCheck_def un Copy_def key setV_def)
  then have "buildRecord B C K b now st (ReadKeyChange ch) = Inr raw"
    using p sig d by (simp add: buildRecord_def buildRecords_def key cr_def raw_def)
  moreover obtain st1 where "applyReadKeyChange C (Some ch) r True st = Inr st1"
    using app[OF who, of "st_contentValidator st"] same by auto
  ultimately show ?thesis
    using un i who step[of "st_contentValidator st" st1] same by (auto simp: r_def)
qed

lemma entries_members:
  assumes "keyLaws B C" and "unmarshallAESKeyProto C protoKey = Some rk" and "list_all2 (keyEntry B C protoKey) ks es"
  shows "getPublic C member \<in> set ks \<longleftrightarrow> (\<exists>e \<in> set es. ek_identity e = marshallPub C (getPublic C member)
    \<and> unmarshallDecryptReadKey C (ek_encryptedReadKey e) (decryptPriv C member) = Inr rk)"
  using assms(3)
proof (induction rule: list_all2_induct)
  case (Cons k ks e es)
  have "inj (marshallPub C)"
    using keyLawsD(1)[OF assms(1)] by (metis injI option.inject)
  then have "ek_identity e = marshallPub C (getPublic C member) \<longleftrightarrow> getPublic C member = k"
    using Cons(1) by (auto simp: keyEntry_def inj_eq)
  moreover have "unmarshallDecryptReadKey C (ek_encryptedReadKey e) (decryptPriv C member) = Inr rk" if "getPublic C member = k"
    using entry_decrypts[OF assms(1,2), of member e] Cons(1) that by simp
  ultimately show ?case
    using Cons.IH by (cases "getPublic C member = k") simp_all
qed simp

text \<open>
  C39. A manager can rotate the read key. The record that \<open>BuildReadKeyChange\<close> makes is read back and applied, the new keys
  are then the current ones, exactly the accounts with permissions decrypt the new read key from it with their own private
  key (one entry each), and the new key gives the old one.\<close>

theorem rotation_reaches_members:
  assumes "keyLaws B C" and "wireLaws B C K" and "acl_inv st" and "\<not> isOneToOne st"
    and "st_key st = Some key" and "rb_signKey b = Some key"
    and "CanManageAccounts (Permissions st (getPublic C key))" and "CurrentReadKey st = Inr (Some cur)"
  shows "\<exists>raw r ch st'. BuildReadKeyChange (B, C, K, b, now) st \<lparr>rp_MetadataKey = Some mk, rp_ReadKey = Some rk\<rparr> = Inr raw
    \<and> Unmarshall C K raw = Inr r \<and> rec_Model r = Some (AclData [ReadKeyChange ch]) \<and> ApplyRecord C r st = Inr st'
    \<and> CurrentReadKey st' = Inr (Some rk) \<and> CurrentMetadataKey st' = Inr (Some (getPublic C mk))
    \<and> Permissions st' = Permissions st
    \<and> length (rk_accountKeys ch) = card {k. \<not> NoPermissions (Permissions st k)}
    \<and> (\<forall>member. \<not> NoPermissions (Permissions st (getPublic C member)) \<longleftrightarrow>
         (\<exists>e \<in> set (rk_accountKeys ch). ek_identity e = marshallPub C (getPublic C member)
            \<and> unmarshallDecryptReadKey C (ek_encryptedReadKey e) (decryptPriv C member) = Inr rk))
    \<and> unmarshallDecryptReadKey C (rk_encryptedOldReadKey ch) (decryptSym C rk) = Inr cur"
proof -
  note laws = assms(1,2) and inv = assms(3) and key = assms(5,6) and mgr = assms(7)
  have acc: "accounts_ok (accountStates st)"
    using inv by (simp add: acl_inv_def)
  obtain ch protoKey where ch: "buildReadKeyChange B C st \<lparr>rp_MetadataKey = Some mk, rp_ReadKey = Some rk\<rparr> [] [] = Inr ch"
    and pk: "unmarshallAESKeyProto C protoKey = Some rk" and as: "list_all2 (keyEntry B C protoKey) (keyedIds [] st) (rk_accountKeys ch)"
    and iv: "list_all2 (keyEntry B C protoKey) (map inv_Key (keyedInvites [] st)) (rk_inviteKeys ch)"
    and mp: "rk_metadataPubKey ch = marshallPub C (getPublic C mk)"
    and mk: "unmarshallDecryptPrivKey C (rk_encryptedMetadataPrivKey ch) (decryptSym C rk) = Inr mk"
    and old: "unmarshallDecryptReadKey C (rk_encryptedOldReadKey ch) (decryptSym C rk) = Inr cur" and w: "wirePresent ch"
    using buildReadKeyChange_total[OF laws(1) acc assms(8), of "\<lparr>rp_MetadataKey = Some mk, rp_ReadKey = Some rk\<rparr>" rk mk "[]" "[]"] by auto
  have app: "\<exists>st1. applyReadKeyChange C (Some ch) r True (setV v st) = Inr st1" if "rec_Identity r = getPublic C key" for r v
    using built_change_applies[OF laws(1), of "setV v st" key r protoKey rk ch mk] inv key mgr that pk as iv mp mk w
    by (auto simp: keyedIds_def keyedInvites_def acl_inv_def keys_ok_def)
  obtain raw r st1 where r: "buildRecord B C K b now st (ReadKeyChange ch) = Inr raw" "Unmarshall C K raw = Inr r"
    "rec_Identity r = getPublic C key" "rec_Model r = Some (AclData [ReadKeyChange ch])"
    and st1: "applyReadKeyChange C (Some ch) r True st = Inr st1" "ApplyRecord C r st = Inr (st1\<lparr>lastRecordId := rec_Id r\<rparr>)"
    using buildRecord_accepted[OF laws w key assms(4) app, of now] by blast
  obtain m where m: "st1 = st\<lparr>readKeyChanges := readKeyChanges st @ [rec_Id r], invites := m,
    st_keys := mput (rec_Id r) \<lparr>ReadKey = Some rk, MetadataPrivKey = Some mk, MetadataPubKey = Some (getPublic C mk),
      encryptedPreviousReadKey = rk_encryptedOldReadKey ch, encryptedMetadataKey = rk_encryptedMetadataPrivKey ch\<rparr> (st_keys st)\<rparr>"
    using built_change_applies[OF laws(1) inv key(1) mgr r(3) pk as iv mp mk w] st1(1) by auto
  have "BuildReadKeyChange (B, C, K, b, now) st \<lparr>rp_MetadataKey = Some mk, rp_ReadKey = Some rk\<rparr> = Inr raw"
    using mgr by (simp add: BuildReadKeyChange_def needManager_def statePubKey_def key ch r(1))
  moreover have "length (rk_accountKeys ch) = card {k. \<not> NoPermissions (Permissions st k)}"
    using list_all2_lengthD[OF as] distinct_card[OF keyedAccounts_ids(2)[OF acc, of "[]"]] keyedAccounts_ids(3)[OF acc, of "[]"] by simp
  moreover have "CurrentReadKey (st1\<lparr>lastRecordId := rec_Id r\<rparr>) = Inr (Some rk)"
    "CurrentMetadataKey (st1\<lparr>lastRecordId := rec_Id r\<rparr>) = Inr (Some (getPublic C mk))"
    "Permissions (st1\<lparr>lastRecordId := rec_Id r\<rparr>) = Permissions st"
    by (simp_all add: m CurrentReadKey_def CurrentMetadataKey_def CurrentReadKeyId_def Permissions_def fun_eq_iff)
  ultimately show ?thesis
    using r st1 old entries_members[OF laws(1) pk as] keyedAccounts_ids(3)[OF acc, of "[]"]
    by (intro exI[of _ raw] exI[of _ r] exI[of _ ch] exI[of _ "st1\<lparr>lastRecordId := rec_Id r\<rparr>"]) simp
qed

section \<open>An instance of what is relied on\<close>

text \<open>Strings are packed with a mark before each character and a dot at the end.\<close>

definition packOne :: "string \<Rightarrow> string" where
  "packOne s = concat (map (\<lambda>c. [CHR ''+'', c]) s) @ ''.''"

fun unpackFrom :: "string \<Rightarrow> string \<Rightarrow> string list" where
  "unpackFrom acc [] = []"
| "unpackFrom acc [m] = (if m = CHR ''.'' then [rev acc] else [])"
| "unpackFrom acc (m # c # rest) = (if m = CHR ''.'' then rev acc # unpackFrom [] (c # rest) else unpackFrom (c # acc) rest)"

definition packAll :: "string list \<Rightarrow> string" where
  "packAll ss = concat (map packOne ss)"

lemma unpackFrom_dot: "unpackFrom acc (CHR ''.'' # rest) = rev acc # unpackFrom [] rest"
  by (cases rest) simp_all

lemma unpackFrom_one: "unpackFrom acc (packOne s @ rest) = (rev acc @ s) # unpackFrom [] rest"
  by (induction s arbitrary: acc) (simp_all add: packOne_def unpackFrom_dot)

lemma unpackFrom_all [simp]: "unpackFrom [] (packAll ss) = ss"
  by (induction ss) (simp_all add: packAll_def unpackFrom_one)

definition packKeys :: "AclEncryptedReadKey list \<Rightarrow> string" where
  "packKeys es = packAll (map (\<lambda>e. packAll [ek_identity e, bytes_of (ek_encryptedReadKey e)]) es)"

definition unpackKeyList :: "string \<Rightarrow> AclEncryptedReadKey list" where
  "unpackKeyList s = map (\<lambda>e. case unpackFrom [] e of i # k # _ \<Rightarrow> \<lparr>ek_identity = i, ek_encryptedReadKey = Some k\<rparr>
     | _ \<Rightarrow> \<lparr>ek_identity = [], ek_encryptedReadKey = None\<rparr>) (unpackFrom [] s)"

definition packContents :: "AclContentValue list \<Rightarrow> bytes option" where
  "packContents cs = (case cs of
       [ReadKeyChange ch] \<Rightarrow> Some (packAll [packKeys (rk_accountKeys ch), rk_metadataPubKey ch,
         bytes_of (rk_encryptedMetadataPrivKey ch), bytes_of (rk_encryptedOldReadKey ch), packKeys (rk_inviteKeys ch)])
     | _ \<Rightarrow> None)"

definition unpackContents :: "bytes \<Rightarrow> AclContentValue list option" where
  "unpackContents d = (case unpackFrom [] d of
       [accs, mp, mk, old, invs] \<Rightarrow> Some [ReadKeyChange \<lparr>rk_accountKeys = unpackKeyList accs, rk_metadataPubKey = mp,
         rk_encryptedMetadataPrivKey = Some mk, rk_encryptedOldReadKey = Some old, rk_inviteKeys = unpackKeyList invs\<rparr>]
     | _ \<Rightarrow> None)"

lemma unpackKeyList_packKeys: "\<forall>e \<in> set es. ek_encryptedReadKey e \<notin> {None, Some []} \<Longrightarrow> unpackKeyList (packKeys es) = es"
  by (auto simp: unpackKeyList_def packKeys_def intro!: map_idI split: option.splits)

definition wireCrypto :: crypto where
  "wireCrypto = exampleCrypto\<lparr>decryptPriv := \<lambda>k. stripPrefix (''E'' @ tl k), decryptSym := \<lambda>k. stripPrefix (''S'' @ k),
     encryptSym := \<lambda>k m. Some (''S'' @ k @ m), unmarshalAclData := unpackContents\<rparr>"

definition wireOps :: builderOps where
  "wireOps = \<lparr>encryptPub = \<lambda>pk m. Some (''E'' @ pk @ m), signWith = \<lambda>k m. Some (tl k @ m), rawPub = Some,
     marshalSym = Some, marshalPriv = Some, marshalAclData = packContents,
     marshalRecord = \<lambda>now r. Some (packAll [cr_PrevId r, cr_Identity r, cr_Data r]),
     marshalRoot = \<lambda>_. None, marshalRaw = \<lambda>_. None\<rparr>"

definition wireCodec :: codec where
  "wireCodec = \<lparr>unmarshalRawRecord = \<lambda>_. None,
     unmarshalRecord = \<lambda>d. (case unpackFrom [] d of
       [prev, i, c] \<Rightarrow> Some \<lparr>cr_PrevId = prev, cr_Identity = i, cr_Data = c\<rparr> | _ \<Rightarrow> None),
     unmarshalAclRoot = \<lambda>_. None, unmarshalEd25519PublicKey = \<lambda>_. None, keepIdentityFast = \<lambda>_ _. None,
     cidOfBytes = \<lambda>d. Some (''c'' @ d)\<rparr>"

lemma wire_keyLaws: "keyLaws wireOps wireCrypto"
  by (simp add: keyLaws_def wireOps_def wireCrypto_def exampleCrypto_def stripPrefix_def)

lemma wire_wireLaws: "wireLaws wireOps wireCrypto wireCodec"
  unfolding wireLaws_def
proof (intro conjI allI impI)
  fix ch :: AclReadKeyChange
  assume w: "wirePresent ch"
  obtain mk old where "rk_encryptedMetadataPrivKey ch = Some mk" "rk_encryptedOldReadKey ch = Some old"
    using w by (auto simp: wirePresent_def)
  moreover have "unpackKeyList (packKeys (rk_accountKeys ch)) = rk_accountKeys ch" "unpackKeyList (packKeys (rk_inviteKeys ch)) = rk_inviteKeys ch"
    using w by (simp_all add: wirePresent_def ball_Un unpackKeyList_packKeys)
  ultimately show "\<exists>d. marshalAclData wireOps [ReadKeyChange ch] = Some d \<and> unmarshalAclData wireCrypto d = Some [ReadKeyChange ch]"
    by (simp add: wireOps_def wireCrypto_def packContents_def unpackContents_def)
qed (simp_all add: wireOps_def wireCodec_def)

text \<open>The space of \<open>o\<close> and \<open>b\<close>, with the keys encrypted this way, as \<open>o\<close> sees it.\<close>

definition wireLog :: "AclRecord list" where
  "wireLog = [exampleRoot\<lparr>rec_Model := Some (AclRootModel \<lparr>ro_encryptedReadKey = Some ''Eor1'', ro_metadataPubKey = ''Km1'',
       ro_encryptedMetadataPrivKey = Some ''Sr1sm1'', ro_encryptedOwnerMetadata = [], ro_oneToOneInfo = None, ro_options = None\<rparr>)\<rparr>,
     inviteRecord, joinRequestRecord, dataRecord ''3'' ''2'' ''o'' [AccountsAdd [\<lparr>aa_identity = ''Kb'',
       aa_permissions = AclPermissionsWriter, aa_metadata = [], aa_encryptedReadKey = Some ''Ebr1''\<rparr>]]]"

definition wireState :: AclState where
  "wireState = okState (Build wireCrypto (Some ''so'') True wireLog)"

definition wireBuilder :: aclRecordBuilder where
  "wireBuilder = \<lparr>rb_id = ''0'', rb_signKey = Some ''so'', rb_verifier = ValidateFull\<rparr>"

lemma wireState_inv: "acl_inv wireState"
proof (rule Build_inv)
  show "Build wireCrypto (Some ''so'') True wireLog = Inr wireState"
    by code_simp
qed code_simp

theorem rotation_reaches_members_witness:
  "\<exists>raw r ch st'. BuildReadKeyChange (wireOps, wireCrypto, wireCodec, wireBuilder, 7) wireState
      \<lparr>rp_MetadataKey = Some ''sm2'', rp_ReadKey = Some ''r2''\<rparr> = Inr raw
    \<and> Unmarshall wireCrypto wireCodec raw = Inr r \<and> rec_Model r = Some (AclData [ReadKeyChange ch])
    \<and> ApplyRecord wireCrypto r wireState = Inr st' \<and> CurrentReadKey st' = Inr (Some ''r2'')
    \<and> length (rk_accountKeys ch) = card {k. \<not> NoPermissions (Permissions wireState k)}
    \<and> unmarshallDecryptReadKey wireCrypto (rk_encryptedOldReadKey ch) (decryptSym wireCrypto ''r2'') = Inr ''r1''"
proof -
  have o: "\<not> isOneToOne wireState" and k: "st_key wireState = Some ''so''" and b: "rb_signKey wireBuilder = Some ''so''"
    and m: "CanManageAccounts (Permissions wireState (getPublic wireCrypto ''so''))"
    and c: "CurrentReadKey wireState = Inr (Some ''r1'')"
    by code_simp+
  show ?thesis
    using rotation_reaches_members[OF wire_keyLaws wire_wireLaws wireState_inv o k b m c, of 7 "''sm2''" "''r2''"] by blast
qed

end
