(* ===== verification/AclBatch.thy ===== *)
theory AclBatch
  imports AclBuilt AclInvites
begin

text \<open>
  What a batch does to invites: contents other than new invites make none, new invites are stored under the id of their
  record, and so of the invites that one batch makes only the last is left.
\<close>

section \<open>New invites\<close>

lemma applyInvites_last:
  assumes "rfold (applyChangeContent C r) (map ContentInvite chs) st = Inr st'" and "chs \<noteq> []"
  shows "(\<exists>k. pubKeyFromProto C (ai_inviteKey (last chs)) = Some k \<and> mget (invites st') (rec_Id r) =
      Some \<lparr>inv_Key = k, inv_Type = ai_inviteType (last chs), inv_Permissions = ai_permissions (last chs),
        inv_Id = rec_Id r, inv_encryptedReadKey = ai_encryptedReadKey (last chs)\<rparr>)
    \<and> readKeyChanges st' = readKeyChanges st \<and> (\<forall>i. i \<noteq> rec_Id r \<longrightarrow> mget (invites st') i = mget (invites st) i)"
  using assms
proof (induction chs arbitrary: st)
  case (Cons ch chs)
  have "applyChangeContent C r (ContentInvite ch) st = applyInvite C ch r st"
    by (simp add: applyChangeContent_def)
  then obtain st1 where st1: "applyInvite C ch r st = Inr st1" "rfold (applyChangeContent C r) (map ContentInvite chs) st1 = Inr st'"
    using Cons.prems(1) by (auto simp: result_simps)
  from st1(1) obtain k where k: "pubKeyFromProto C (ai_inviteKey ch) = Some k" "st1 = st\<lparr>invites := mput (rec_Id r)
      \<lparr>inv_Key = k, inv_Type = ai_inviteType ch, inv_Permissions = ai_permissions ch,
        inv_Id = rec_Id r, inv_encryptedReadKey = ai_encryptedReadKey ch\<rparr> (invites st)\<rparr>"
    by (auto simp: applyInvite_def result_simps)
  show ?case
  proof (cases "chs = []")
    case True
    then show ?thesis
      using st1(2) k by auto
  next
    case False
    then show ?thesis
      using Cons.IH[OF st1(2) False] k(2) by simp
  qed
qed simp

text \<open>An invite that was made for a new key: the key, and for open invites the read key that is current at the time.\<close>

definition freshInvite :: "builderOps \<Rightarrow> crypto \<Rightarrow> AclState \<Rightarrow> AclPermissions \<Rightarrow> privkey \<Rightarrow> AclAccountInvite \<Rightarrow> bool" where
  "freshInvite B C st perms k ch \<longleftrightarrow> ai_inviteKey ch = marshallPub C (getPublic C k)
     \<and> (\<not> NoPermissions perms \<longrightarrow> (\<exists>cur d. CurrentReadKey st = Inr (Some cur) \<and> marshalSym B cur = Some d
          \<and> ai_encryptedReadKey ch = encryptPub B (getPublic C k) d))"

lemma newInviteContents_fresh:
  assumes "newInviteContents B C st perms newKeys = Inr (keys, contents)"
  shows "\<exists>chs. contents = map ContentInvite chs \<and> length keys = length perms \<and> length chs = length perms
    \<and> (perms \<noteq> [] \<longrightarrow> freshInvite B C st (last perms) (last keys) (last chs))"
  using assms
proof (induction perms arbitrary: newKeys keys contents)
  case (Cons p perms)
  define nk where "nk = (case newKeys of [] \<Rightarrow> None | k # _ \<Rightarrow> k)"
  from Cons.prems obtain k c keys1 cs1
    where c: "(if NoPermissions p then buildInvite C st nk else buildInviteAnyone B C st p nk) = Inr (k, c)"
      and rest: "newInviteContents B C st perms (tl newKeys) = Inr (keys1, cs1)" and eq: "keys = k # keys1" "contents = c # cs1"
    unfolding newInviteContents.simps Let_def nk_def[symmetric] by (auto simp: result_simps)
  from c obtain ch where ch: "c = ContentInvite ch" "freshInvite B C st p k ch"
    by (auto simp: buildInvite_def buildInviteAnyone_def result_simps freshInvite_def split: if_splits)
  obtain chs where chs: "cs1 = map ContentInvite chs" "length keys1 = length perms" "length chs = length perms"
    "perms \<noteq> [] \<longrightarrow> freshInvite B C st (last perms) (last keys1) (last chs)"
    using Cons.IH[OF rest] by blast
  show ?case
    using chs ch eq by (intro exI[of _ "ch # chs"]) auto
qed simp

text \<open>The contents of a batch are those of the other parts, with a removal in front when there is one, and then new invites.\<close>

definition noInvite :: "AclContentValue \<Rightarrow> bool" where
  "noInvite c \<longleftrightarrow> (\<forall>ch. c \<noteq> ContentInvite ch)"

lemma builders_noInvite:
  "buildAccountRemove B C st rm = Inr c \<Longrightarrow> noInvite c"
  "buildAccountsAdd B C st adds mk rk = Inr c \<Longrightarrow> noInvite c"
  "buildPermissionChanges C st chs = Inr c \<Longrightarrow> noInvite c"
  "buildRequestAccept B C st acc rk = Inr c \<Longrightarrow> noInvite c"
  "buildRequestDecline C st i = Inr c \<Longrightarrow> noInvite c"
  "buildInviteRevoke C st i = Inr c \<Longrightarrow> noInvite c"
  "buildInviteChange C st ic = Inr c \<Longrightarrow> noInvite c"
  by (auto simp: buildAccountRemove_def buildAccountsAdd_def buildPermissionChanges_def buildRequestAccept_def
      buildRequestDecline_def buildInviteRevoke_def buildInviteChange_def noInvite_def result_simps split: option.splits if_splits)

lemma rmap_noInvite:
  assumes "\<And>x c. f x = Inr c \<Longrightarrow> noInvite c" and "rmap f xs = Inr cs"
  shows "list_all noInvite cs"
  using assms(2) by (induction xs arbitrary: cs) (auto simp: result_simps dest: assms(1))

lemma if_Inl_Inr: "(if P then Inl e else x) = Inr y \<Longrightarrow> x = Inr y"
  by (simp split: if_splits)

lemma batchContents_split:
  assumes "batchContents B C st p newKeys = Inr (keys, contents)"
  shows "\<exists>pre new. contents = pre @ new \<and> list_all noInvite pre
    \<and> newInviteContents B C st (bp_NewInvites p) newKeys = Inr (keys, new)
    \<and> (rm_Identities (bp_Removals p) \<noteq> [] \<longrightarrow> (\<exists>ch pre'. pre = AccountRemove ch # pre'))"
proof -
  from assms obtain rs as cs acc ds rvs rot ics kn where
    rs: "(if rm_Identities (bp_Removals p) = [] then Inr [] else rbind (buildAccountRemove B C st (bp_Removals p)) (\<lambda>c. Inr [c])) = Inr rs"
    and as: "(if bp_Additions p = [] then Inr [] else rbind (nonNil (rp_MetadataKey (rm_Change (bp_Removals p)))) (\<lambda>mk.
        rbind (buildAccountsAdd B C st (bp_Additions p) (Some (getPublic C mk)) (rp_ReadKey (rm_Change (bp_Removals p)))) (\<lambda>c. Inr [c]))) = Inr as"
    and cs: "(if bp_Changes p = [] then Inr [] else rbind (buildPermissionChanges C st (bp_Changes p)) (\<lambda>c. Inr [c])) = Inr cs"
    and acc: "rmap (\<lambda>acc. buildRequestAccept B C st acc (rp_ReadKey (rm_Change (bp_Removals p)))) (bp_Approvals p) = Inr acc"
    and ds: "rmap (buildRequestDecline C st) (bp_Declines p) = Inr ds" and rvs: "rmap (buildInviteRevoke C st) (bp_InviteRevokes p) = Inr rvs"
    and rot: "(case bp_ReadKeyChange p of None \<Rightarrow> Inr []
        | Some rk \<Rightarrow> rbind (buildReadKeyChange B C st rk [] (bp_InviteRevokes p)) (\<lambda>ch. Inr [ReadKeyChange ch])) = Inr rot"
    and ics: "rmap (buildInviteChange C st) (bp_InviteChanges p) = Inr ics"
    and new: "newInviteContents B C st (bp_NewInvites p) newKeys = Inr kn"
    and eq: "Inr (fst kn, rs @ as @ cs @ acc @ ds @ rvs @ rot @ ics @ snd kn) = (Inr (keys, contents) :: acl_error + _)"
    using if_Inl_Inr[OF assms[unfolded batchContents_def Let_def]] unfolding rbind_eq_Inr case_prod_beta
    by (elim exE conjE) (rule that, assumption+)
  have "list_all noInvite rs" "list_all noInvite as" "list_all noInvite cs"
    using rs as cs by (auto simp: result_simps dest: builders_noInvite split: if_splits)
  moreover have "list_all noInvite rot"
    using rot by (auto simp: result_simps noInvite_def split: option.splits)
  moreover have "list_all noInvite acc" "list_all noInvite ds" "list_all noInvite rvs" "list_all noInvite ics"
    by (rule rmap_noInvite[OF _ acc] rmap_noInvite[OF _ ds] rmap_noInvite[OF _ rvs] rmap_noInvite[OF _ ics], erule builders_noInvite)+
  moreover have "\<exists>ch. rs = [AccountRemove ch]" if "rm_Identities (bp_Removals p) \<noteq> []"
    using rs that by (auto simp: result_simps buildAccountRemove_def)
  ultimately show ?thesis
    using new by (intro exI[of _ "rs @ as @ cs @ acc @ ds @ rvs @ rot @ ics"] exI[of _ "snd kn"]) (use eq in \<open>auto\<close>)
qed

lemma removal_rotates:
  assumes "gm_wf (invites st)" and "rfold (applyChangeContent C r) (AccountRemove ch # cs) st = Inr st'" and "list_all noInvite cs"
  shows "readKeyChanges st' \<noteq> [] \<and> last (readKeyChanges st') = rec_Id r"
proof -
  obtain st1 where st1: "applyChangeContent C r (AccountRemove ch) st = Inr st1" "rfold (applyChangeContent C r) cs st1 = Inr st'"
    using assms(2) by (auto simp: result_simps)
  have k: "keptInvites (invites st) (invites st1)" "readKeyChanges st1 = readKeyChanges st @ [rec_Id r]"
    using applyAccountRemove_kept[OF assms(1)] st1(1) by (auto simp: applyChangeContent_def)
  then have "gm_wf (invites st1)"
    by (simp add: keptInvites_def)
  from applyContents_kept[OF this st1(2)] have "invitesKept r st1 st'"
    using assms(3) by (simp add: noInvite_def list_all_iff)
  then show ?thesis
    using k(2) by (auto simp: invitesKept_def last_append)
qed

text \<open>
  C40. However many invites a batch makes, its record leaves one: under the record's id, for the last of the keys that
  \<open>BuildBatchRequest\<close> returns, and no invite for any of the other keys is added. If the batch also removes accounts, the
  record rotates the read key, but an open invite carries the read key from before.\<close>

theorem batch_keeps_last_invite:
  assumes keys: "\<And>k. pubKeyFromProto C (marshallPub C k) = Some k" and wf: "gm_wf (invites st)"
    and built: "BuildBatchRequest (B, C, K, b, now) st p newKeys = Inr (raw, keys)" and some: "bp_NewInvites p \<noteq> []"
    and wire: "\<And>cs d. marshalAclData B cs = Some d \<Longrightarrow> batchContents B C st p newKeys = Inr (keys, cs) \<Longrightarrow> unmarshalAclData C d = Some cs"
      "\<forall>now cr d. marshalRecord B now cr = Some d \<longrightarrow> unmarshalRecord K d = Some cr"
    and read: "Unmarshall C K raw = Inr r" and run: "ApplyRecord C r st = Inr st'"
  shows "length keys = length (bp_NewInvites p)
    \<and> (\<forall>i inv'. mget (invites st') i = Some inv' \<longrightarrow> i \<noteq> rec_Id r \<longrightarrow> (\<exists>inv. mget (invites st) i = Some inv \<and> inv_Key inv' = inv_Key inv))
    \<and> (\<exists>inv. mget (invites st') (rec_Id r) = Some inv \<and> inv_Key inv = getPublic C (last keys)
         \<and> (\<not> NoPermissions (last (bp_NewInvites p)) \<longrightarrow> (\<exists>cur d. CurrentReadKey st = Inr (Some cur) \<and> marshalSym B cur = Some d
               \<and> inv_encryptedReadKey inv = encryptPub B (getPublic C (last keys)) d)))
    \<and> (rm_Identities (bp_Removals p) \<noteq> [] \<longrightarrow> CurrentReadKeyId st' = Inr (rec_Id r))"
proof -
  obtain cs where cs: "batchContents B C st p newKeys = Inr (keys, cs)" and raw: "buildRecords B C K b now st cs = Inr raw"
    using built by (auto simp: BuildBatchRequest_def result_simps)
  obtain d cr where d: "marshalAclData B cs = Some d" "marshalRecord B now cr = Some (raw_Payload raw)" "cr_Data cr = d"
    using raw by (auto simp: buildRecords_def result_simps Let_def)
  have "recordContents C r = Some cs"
    using read wire(1)[OF d(1) cs] wire(2)[rule_format, OF d(2)] d(3) by (auto simp: Unmarshall_def recordContents_def result_simps split: if_splits)
  then obtain st1 where st1: "rfold (applyChangeContent C r) cs st = Inr st1" "st' = st1\<lparr>lastRecordId := rec_Id r\<rparr>"
    using run by (auto simp: ApplyRecord_Inr)
  obtain pre new where new: "cs = pre @ new" "list_all noInvite pre" "newInviteContents B C st (bp_NewInvites p) newKeys = Inr (keys, new)"
    and rm: "rm_Identities (bp_Removals p) \<noteq> [] \<longrightarrow> (\<exists>ch pre'. pre = AccountRemove ch # pre')"
    using batchContents_split[OF cs] by blast
  obtain chs where chs: "new = map ContentInvite chs" "length keys = length (bp_NewInvites p)" "length chs = length (bp_NewInvites p)"
    and fresh: "freshInvite B C st (last (bp_NewInvites p)) (last keys) (last chs)"
    using newInviteContents_fresh[OF new(3)] some by blast
  obtain st0 where st0: "rfold (applyChangeContent C r) pre st = Inr st0" "rfold (applyChangeContent C r) (map ContentInvite chs) st0 = Inr st1"
    using st1(1) by (auto simp: new(1) chs(1) rfold_append result_simps)
  have kept: "invitesKept r st st0"
    using applyContents_kept[OF wf st0(1)] new(2) by (simp add: noInvite_def list_all_iff)
  have "chs \<noteq> []"
    using chs(3) some by auto
  note lst = applyInvites_last[OF st0(2) this]
  have "CurrentReadKeyId st' = Inr (rec_Id r)" if "rm_Identities (bp_Removals p) \<noteq> []"
    using removal_rotates[OF wf] rm that st0(1) new(2) lst by (auto simp: st1(2) CurrentReadKeyId_def)
  then show ?thesis
    using kept lst fresh chs(2) keys by (auto simp: st1(2) freshInvite_def invitesKept_def keptInvites_def)
qed

section \<open>An example\<close>

text \<open>The owner removes \<open>b\<close> and makes two open invites at once; the one message of this example is a constant.\<close>

definition batchPayload :: BatchRequestPayload where
  "batchPayload = \<lparr>bp_Additions = [], bp_Changes = [],
     bp_Removals = \<lparr>rm_Identities = [''b''], rm_Change = \<lparr>rp_MetadataKey = Some ''sm2'', rp_ReadKey = Some ''r2''\<rparr>\<rparr>,
     bp_Approvals = [], bp_Declines = [], bp_InviteRevokes = [], bp_InviteChanges = [],
     bp_NewInvites = [AclPermissionsReader, AclPermissionsWriter], bp_ReadKeyChange = None\<rparr>"

definition batchKeys :: "privkey option list" where
  "batchKeys = [Some ''si1'', Some ''si2'']"

definition batchContent :: "AclContentValue list" where
  "batchContent = (case batchContents wireOps wireCrypto wireState batchPayload batchKeys of Inr (_, cs) \<Rightarrow> cs | Inl _ \<Rightarrow> [])"

definition batchCrypto :: crypto where
  "batchCrypto = wireCrypto\<lparr>unmarshalAclData := \<lambda>_. Some batchContent\<rparr>"

definition batchOps :: builderOps where
  "batchOps = wireOps\<lparr>marshalAclData := \<lambda>_. Some ''d''\<rparr>"

definition batchRaw :: "RawRecord \<times> privkey list" where
  "batchRaw = projr (BuildBatchRequest (batchOps, batchCrypto, wireCodec, wireBuilder, 7) wireState batchPayload batchKeys)"

definition batchRecord :: AclRecord where
  "batchRecord = projr (Unmarshall batchCrypto wireCodec (fst batchRaw))"

definition batchState :: AclState where
  "batchState = projr (ApplyRecord batchCrypto batchRecord wireState)"

theorem batch_keeps_last_invite_witness:
  "BuildBatchRequest (batchOps, batchCrypto, wireCodec, wireBuilder, 7) wireState batchPayload batchKeys = Inr (fst batchRaw, [''si1'', ''si2''])
   \<and> (\<exists>inv. mget (invites batchState) (rec_Id batchRecord) = Some inv \<and> inv_Key inv = ''i2'')
   \<and> CurrentReadKeyId batchState = Inr (rec_Id batchRecord)"
proof -
  have b: "BuildBatchRequest (batchOps, batchCrypto, wireCodec, wireBuilder, 7) wireState batchPayload batchKeys = Inr (fst batchRaw, [''si1'', ''si2''])"
    by code_simp
  have c: "batchContents batchOps batchCrypto wireState batchPayload batchKeys = Inr ([''si1'', ''si2''], batchContent)"
    by code_simp
  have r: "Unmarshall batchCrypto wireCodec (fst batchRaw) = Inr batchRecord" "ApplyRecord batchCrypto batchRecord wireState = Inr batchState"
    by code_simp+
  have wf: "gm_wf (invites wireState)" and ne: "bp_NewInvites batchPayload \<noteq> []"
    by code_simp+
  have k: "pubKeyFromProto batchCrypto (marshallPub batchCrypto k) = Some k" for k
    by (simp add: batchCrypto_def wireCrypto_def exampleCrypto_def stripPrefix_def)
  have d: "unmarshalAclData batchCrypto d = Some cs"
    if "batchContents batchOps batchCrypto wireState batchPayload batchKeys = Inr ([''si1'', ''si2''], cs)" for d cs
    using that c by (simp add: batchCrypto_def)
  have w: "\<forall>now cr d. marshalRecord batchOps now cr = Some d \<longrightarrow> unmarshalRecord wireCodec d = Some cr"
    by (auto simp: batchOps_def wireOps_def wireCodec_def)
  have "getPublic batchCrypto (last [''si1'', ''si2'']) = ''i2''" "rm_Identities (bp_Removals batchPayload) \<noteq> []"
    by code_simp+
  then show ?thesis
    using batch_keeps_last_invite[OF k wf b ne d w r] b by auto
qed

end
