(* ===== verification/Slices.thy ===== *)
theory Slices
  imports Prelude
begin

text \<open>
  The slice helpers of \<open>util/slice\<close>. The routines that rewrite their argument in place are modelled
  on the array they rewrite: a read sees the writes made before it, and the result is the prefix up
  to the write index. \<open>sort.Strings\<close> and \<open>slices.Sort\<close> are \<open>sort\<close>.
\<close>

section \<open>Operations\<close>

definition DifferenceRemovedAdded :: "string list \<Rightarrow> string list \<Rightarrow> string list \<times> string list" where
  "DifferenceRemovedAdded a b =
     (filter (\<lambda>item. item \<notin> set b) a, filter (\<lambda>item. item \<notin> set a) b)"

fun findPosFrom :: "int \<Rightarrow> string list \<Rightarrow> string \<Rightarrow> int" where
  "findPosFrom i [] v = -1"
| "findPosFrom i (sv # s) v = (if sv = v then i else findPosFrom (i + 1) s v)"

definition FindPos :: "string list \<Rightarrow> string \<Rightarrow> int" where
  "FindPos s v = findPosFrom 0 s v"

definition Difference :: "string list \<Rightarrow> string list \<Rightarrow> string list" where
  "Difference a b = filter (\<lambda>a1. FindPos b a1 = -1) a"

definition Insert :: "string list \<Rightarrow> nat \<Rightarrow> string list \<Rightarrow> string list" where
  "Insert s pos v =
     (if length s \<le> pos then s @ v
      else if pos = 0 then v @ drop pos s
      else take pos s @ (v @ drop pos s))"

definition Filter :: "string list \<Rightarrow> (string \<Rightarrow> bool) \<Rightarrow> string list" where
  "Filter vals cond = filter cond vals"

text \<open>\<open>DiscardFromSlice\<close>: \<open>cur\<close> reads, \<open>fin\<close> writes; \<open>Remove\<close> is the same loop without the test.\<close>

function discardLoop :: "('a \<Rightarrow> bool) \<Rightarrow> nat \<Rightarrow> nat \<Rightarrow> 'a list \<Rightarrow> 'a list" where
  "discardLoop isDiscarded cur fin elements =
     (if cur < length elements
      then if \<not> isDiscarded (elements ! cur)
        then discardLoop isDiscarded (cur + 1) (fin + 1)
               (if fin \<noteq> cur then elements[fin := elements ! cur] else elements)
        else discardLoop isDiscarded (cur + 1) fin elements
      else take fin elements)"
  by pat_completeness auto
termination
  by (relation "measure (\<lambda>(_, cur, _, elements). length elements - cur)") auto

definition DiscardFromSlice :: "'a list \<Rightarrow> ('a \<Rightarrow> bool) \<Rightarrow> 'a list" where
  "DiscardFromSlice elements isDiscarded = discardLoop isDiscarded 0 0 elements"

function removeLoop :: "string \<Rightarrow> nat \<Rightarrow> nat \<Rightarrow> string list \<Rightarrow> string list" where
  "removeLoop v i n s =
     (if i < length s
      then if s ! i \<noteq> v then removeLoop v (i + 1) (n + 1) (s[n := s ! i])
        else removeLoop v (i + 1) n s
      else take n s)"
  by pat_completeness auto
termination
  by (relation "measure (\<lambda>(_, i, _, s). length s - i)") auto

definition Remove :: "string list \<Rightarrow> string \<Rightarrow> string list" where
  "Remove s v = removeLoop v 0 0 s"

fun equalFrom :: "string list \<Rightarrow> string list \<Rightarrow> bool" where
  "equalFrom (x # xs) (y # ys) = (if x \<noteq> y then False else equalFrom xs ys)"
| "equalFrom _ _ = True"

definition SortedEquals :: "string list \<Rightarrow> string list \<Rightarrow> bool" where
  "SortedEquals s1 s2 = (if length s1 \<noteq> length s2 then False else equalFrom s1 s2)"

definition UnsortedEquals :: "string list \<Rightarrow> string list \<Rightarrow> bool" where
  "UnsortedEquals s1 s2 =
     (if length s1 \<noteq> length s2 then False else SortedEquals (sort s1) (sort s2))"

text \<open>The two-pointer loop of \<open>ContainsSorted\<close>: what is left of the sequence and of the subsequence.\<close>

fun containsLoop :: "'a :: linorder list \<Rightarrow> 'a list \<Rightarrow> bool" where
  "containsLoop (s # seq) (t # subs) =
     (if s = t then containsLoop seq subs
      else if s < t then containsLoop seq (t # subs)
      else False)"
| "containsLoop seq subs = (subs = [])"

definition ContainsSorted :: "'a :: linorder list \<Rightarrow> 'a list \<Rightarrow> bool" where
  "ContainsSorted seq subs =
     (if length seq < length subs then False else containsLoop (sort seq) (sort subs))"

function dedupLoop :: "('a \<Rightarrow> 'a \<Rightarrow> bool) \<Rightarrow> nat \<Rightarrow> nat \<Rightarrow> 'a list \<Rightarrow> 'a list" where
  "dedupLoop eq i cnt s =
     (if i < length s
      then if \<not> eq (s ! i) (s ! (i - 1)) then dedupLoop eq (i + 1) (cnt + 1) (s[cnt := s ! i])
        else dedupLoop eq (i + 1) cnt s
      else take cnt s)"
  by pat_completeness auto
termination
  by (relation "measure (\<lambda>(_, i, _, s). length s - i)") auto

definition DiscardDuplicatesSortedFunc :: "'a list \<Rightarrow> ('a \<Rightarrow> 'a \<Rightarrow> bool) \<Rightarrow> 'a list" where
  "DiscardDuplicatesSortedFunc s equal = (if length s \<le> 1 then s else dedupLoop equal 1 1 s)"

definition DiscardDuplicatesSorted :: "'a list \<Rightarrow> 'a list" where
  "DiscardDuplicatesSorted s = (if length s \<le> 1 then s else dedupLoop (=) 1 1 s)"

text \<open>
  The inner loop of the two run-based routines: from position \<open>i\<close>, step to the last element of the
  run and count its elements.
\<close>

function runEnd :: "'a list \<Rightarrow> nat \<Rightarrow> nat \<Rightarrow> nat \<times> nat" where
  "runEnd nums i cnt =
     (if i + 1 < length nums \<and> nums ! i = nums ! (i + 1) then runEnd nums (i + 1) (cnt + 1)
      else (i, cnt))"
  by pat_completeness auto
termination
  by (relation "measure (\<lambda>(nums, i, _). length nums - i)") auto

lemma runEnd_ge [termination_simp]: "runEnd nums i cnt = (i', c') \<Longrightarrow> i \<le> i'"
  by (induction nums i cnt rule: runEnd.induct) (subst (asm) (2) runEnd.simps, auto split: if_splits)

declare runEnd.simps [simp del]

function repeatedLoop :: "nat \<Rightarrow> nat \<Rightarrow> 'a list \<Rightarrow> 'a list" where
  "repeatedLoop i writeIndex nums =
     (if i < length nums
      then case runEnd nums i 1 of (i', cnt) \<Rightarrow>
        if cnt = 1 then repeatedLoop (i' + 1) (writeIndex + 1) (nums[writeIndex := nums ! i'])
        else repeatedLoop (i' + 1) writeIndex nums
      else take writeIndex nums)"
  by pat_completeness auto
termination
  by (relation "measure (\<lambda>(i, _, nums). length nums - i)")
    (auto dest!: runEnd_ge[OF sym])

definition RemoveRepeatedSorted :: "'a list \<Rightarrow> 'a list" where
  "RemoveRepeatedSorted nums = (if nums = [] then nums else repeatedLoop 0 0 nums)"

text \<open>The write loop of \<open>RemoveUniqueElementsSorted\<close>: \<open>count\<close> copies of the element at \<open>i\<close>.\<close>

fun writeCopies :: "nat \<Rightarrow> nat \<Rightarrow> nat \<Rightarrow> 'a list \<Rightarrow> nat \<times> 'a list" where
  "writeCopies 0 i writeIndex nums = (writeIndex, nums)"
| "writeCopies (Suc cnt) i writeIndex nums =
     writeCopies cnt i (writeIndex + 1) (nums[writeIndex := nums ! i])"

lemma writeCopies_length: "writeCopies c i w nums = (w', nums') \<Longrightarrow> length nums' = length nums"
  by (induction c arbitrary: w nums) auto

function uniqueLoop :: "nat \<Rightarrow> nat \<Rightarrow> 'a list \<Rightarrow> 'a list" where
  "uniqueLoop i writeIndex nums =
     (if i < length nums
      then case runEnd nums i 1 of (i', cnt) \<Rightarrow>
        if cnt > 1
        then case writeCopies cnt i' writeIndex nums of (w, nums') \<Rightarrow> uniqueLoop (i' + 1) w nums'
        else uniqueLoop (i' + 1) writeIndex nums
      else take writeIndex nums)"
  by pat_completeness auto
termination
  by (relation "measure (\<lambda>(i, _, nums). length nums - i)")
    (auto dest!: runEnd_ge[OF sym] split: prod.split dest: writeCopies_length)

definition RemoveUniqueElementsSorted :: "'a list \<Rightarrow> 'a list" where
  "RemoveUniqueElementsSorted nums = (if nums = [] then nums else uniqueLoop 0 0 nums)"

definition CompareMaps ::
    "('a, unit) gomap \<Rightarrow> ('a, unit) gomap \<Rightarrow> 'a list \<times> 'a list \<times> 'a list" where
  "CompareMaps m1 m2 =
     (filter (\<lambda>k. mget m2 k \<noteq> None) (mkeys m1), filter (\<lambda>k. mget m2 k = None) (mkeys m1),
      filter (\<lambda>k. mget m1 k = None) (mkeys m2))"

declare discardLoop.simps [simp del] removeLoop.simps [simp del] dedupLoop.simps [simp del]
  repeatedLoop.simps [simp del] uniqueLoop.simps [simp del]

section \<open>Correctness\<close>

lemma FindPos_absent [simp]: "FindPos s v = -1 \<longleftrightarrow> v \<notin> set s"
proof -
  have "0 \<le> i \<Longrightarrow> findPosFrom i s v = -1 \<longleftrightarrow> v \<notin> set s" for i
    by (induction s arbitrary: i) auto
  then show ?thesis
    by (simp add: FindPos_def)
qed

lemma take_write: "w < length s \<Longrightarrow> take (Suc w) (s[w := x]) = take w s @ [x]"
  by (simp add: take_Suc_conv_app_nth)

lemma discardLoop_eq:
  "fin \<le> cur \<Longrightarrow> discardLoop d cur fin els = take fin els @ filter (\<lambda>x. \<not> d x) (drop cur els)"
proof (induction d cur fin els rule: discardLoop.induct)
  case (1 d cur fin els)
  show ?case
  proof (cases "cur < length els")
    case True
    then have "drop cur els = els ! cur # drop (Suc cur) els"
      by (simp add: Cons_nth_drop_Suc)
    with True 1 show ?thesis
      by (subst discardLoop.simps) (auto simp: take_write take_Suc_conv_app_nth)
  qed (simp add: discardLoop.simps)
qed

lemma DiscardFromSlice_eq: "DiscardFromSlice els d = filter (\<lambda>x. \<not> d x) els"
  by (simp add: DiscardFromSlice_def discardLoop_eq)

lemma removeLoop_eq: "n \<le> i \<Longrightarrow> removeLoop v i n s = take n s @ filter (\<lambda>x. x \<noteq> v) (drop i s)"
proof (induction v i n s rule: removeLoop.induct)
  case (1 v i n s)
  show ?case
  proof (cases "i < length s")
    case True
    then have "drop i s = s ! i # drop (Suc i) s"
      by (simp add: Cons_nth_drop_Suc)
    with True 1 show ?thesis
      by (subst removeLoop.simps) (auto simp: take_write)
  qed (simp add: removeLoop.simps)
qed

lemma Remove_eq: "Remove s v = filter (\<lambda>x. x \<noteq> v) s"
  by (simp add: Remove_def removeLoop_eq)

lemma dedupLoop_eq:
  "0 < i \<Longrightarrow> cnt \<le> i \<Longrightarrow> i \<le> length s \<Longrightarrow>
   dedupLoop (=) i cnt s = take cnt s @ tl (remdups_adj (drop (i - 1) s))"
proof (induction "(=) :: 'a \<Rightarrow> 'a \<Rightarrow> bool" i cnt s rule: dedupLoop.induct)
  case (1 i cnt s)
  show ?case
  proof (cases "i < length s")
    case True
    with 1 have "drop (i - 1) s = s ! (i - 1) # s ! i # drop (Suc i) s"
      by (metis Cons_nth_drop_Suc Suc_diff_1 less_imp_diff_less)
    moreover from True have "drop i s = s ! i # drop (Suc i) s"
      by (simp add: Cons_nth_drop_Suc)
    moreover from True 1 have "drop i (s[cnt := s ! i]) = drop i s"
      by (cases "cnt = i") (auto simp: drop_update_cancel)
    ultimately show ?thesis
      using True 1 by (subst dedupLoop.simps) (auto simp: take_write)
  next
    case False
    with 1 have "i = length s"
      by simp
    with 1 show ?thesis
      by (cases s rule: rev_cases) (simp_all add: dedupLoop.simps)
  qed
qed

lemma DiscardDuplicatesSorted_eq: "DiscardDuplicatesSorted s = remdups_adj s"
proof (cases "length s \<le> 1")
  case True
  then show ?thesis
    by (cases s) (auto simp: DiscardDuplicatesSorted_def)
next
  case False
  then obtain x y xs where "s = x # y # xs"
    by (cases s rule: remdups_adj.cases) auto
  then show ?thesis
    using dedupLoop_eq[of 1 1 s] by (simp add: DiscardDuplicatesSorted_def)
qed

lemma equalFrom_iff: "length s1 = length s2 \<Longrightarrow> equalFrom s1 s2 \<longleftrightarrow> s1 = s2"
  by (induction s1 s2 rule: equalFrom.induct) auto

lemma UnsortedEquals_iff: "UnsortedEquals s1 s2 \<longleftrightarrow> mset s1 = mset s2"
  by (auto simp: UnsortedEquals_def SortedEquals_def equalFrom_iff sort_eq_iff_mset dest: mset_eq_length)

lemma subset_add_notin: "s \<notin># A \<Longrightarrow> A \<subseteq># add_mset s B \<longleftrightarrow> A \<subseteq># B"
  unfolding subseteq_mset_def by (intro iff_allI) (auto simp: not_in_iff)

lemma containsLoop_iff:
  "sorted xs \<Longrightarrow> sorted ys \<Longrightarrow> containsLoop xs ys \<longleftrightarrow> mset ys \<subseteq># mset xs"
proof (induction xs ys rule: containsLoop.induct)
  case (1 s xs t ys)
  show ?case
  proof (cases rule: linorder_cases[of s t])
    case less
    with 1 have "s \<notin># mset (t # ys)"
      by auto
    then have "mset (t # ys) \<subseteq># mset (s # xs) \<longleftrightarrow> mset (t # ys) \<subseteq># mset xs"
      by (simp add: subset_add_notin)
    with less less_imp_neq[OF less] 1 show ?thesis
      by simp
  next
    case greater
    with 1 have "t \<notin># mset (s # xs)"
      by auto
    then have "\<not> mset (t # ys) \<subseteq># mset (s # xs)"
      by (metis list.set_intros(1) mset_subset_eqD set_mset_mset)
    with greater show ?thesis
      by auto
  qed (use 1 in simp)
qed auto

text \<open>The runs of a sorted slice.\<close>

lemma runEnd_step:
  "i + 1 < length nums \<and> nums ! i = nums ! (i + 1) \<Longrightarrow> runEnd nums i cnt = runEnd nums (i + 1) (cnt + 1)"
  by (subst runEnd.simps) simp

lemma runEnd_stop:
  "\<not> (i + 1 < length nums \<and> nums ! i = nums ! (i + 1)) \<Longrightarrow> runEnd nums i cnt = (i, cnt)"
  by (subst runEnd.simps) (simp only: if_False)

lemma runEnd_spec:
  assumes "runEnd nums i cnt = (i', cnt')" and "i < length nums"
  shows "i \<le> i' \<and> i' < length nums \<and> cnt' = cnt + (i' - i)
    \<and> (\<forall>j. i \<le> j \<and> j \<le> i' \<longrightarrow> nums ! j = nums ! i')
    \<and> (i' + 1 < length nums \<longrightarrow> nums ! i' \<noteq> nums ! (i' + 1))"
  using assms
proof (induction nums i cnt rule: runEnd.induct)
  case (1 nums i cnt)
  show ?case
  proof (cases "i + 1 < length nums \<and> nums ! i = nums ! (i + 1)")
    case True
    have "runEnd nums (i + 1) (cnt + 1) = (i', cnt')"
      by (rule trans[OF runEnd_step[OF True, symmetric] 1(2)])
    note ih = 1(1)[OF True this conjunct1[OF True]]
    have eq: "nums ! j = nums ! i'" if "i \<le> j" "j \<le> i'" for j
    proof (cases "j = i")
      case j: True
      have "nums ! (i + 1) = nums ! i'"
        using ih by blast
      with True j show ?thesis
        by argo
    next
      case False
      with that have "i + 1 \<le> j"
        by simp
      with ih that show ?thesis
        by blast
    qed
    have le: "i + 1 \<le> i'" "cnt' = cnt + 1 + (i' - (i + 1))"
      using ih by blast+
    from le have "i \<le> i'" "cnt' = cnt + (i' - i)"
      by simp_all
    with ih eq show ?thesis
      by blast
  next
    case False
    then have "i' = i" "cnt' = cnt"
      using trans[OF runEnd_stop[OF False, symmetric] 1(2)] by simp_all
    with False 1(3) show ?thesis
      by auto
  qed
qed

lemma run_split:
  assumes "runEnd nums i 1 = (i', c)" and "i < length nums" and "sorted (drop i nums)"
  shows "drop i nums = replicate c (nums ! i') @ drop (Suc i') nums"
    and "nums ! i' \<notin> set (drop (Suc i') nums)" and "i + c = Suc i'" and "i' < length nums" and "0 < c"
proof -
  have le: "i \<le> i'" "i' < length nums" "c = 1 + (i' - i)"
    and ne: "i' + 1 < length nums \<Longrightarrow> nums ! i' \<noteq> nums ! (i' + 1)"
    using runEnd_spec[OF assms(1,2)] by blast+
  have eq: "nums ! j = nums ! i'" if "i \<le> j" "j \<le> i'" for j
    using runEnd_spec[OF assms(1,2)] that by blast
  from le show ic: "i + c = Suc i'" and "i' < length nums" and "0 < c"
    by simp_all
  have "take c (drop i nums) = replicate c (nums ! i')"
  proof (rule nth_equalityI)
    fix j
    assume "j < length (take c (drop i nums))"
    with ic have j: "j < c" "i + j \<le> i'"
      by simp_all
    with eq[of "i + j"] show "take c (drop i nums) ! j = replicate c (nums ! i') ! j"
      using assms(2) by simp
  qed (use ic le in simp)
  moreover have "drop c (drop i nums) = drop (Suc i') nums"
    using ic by (simp add: add.commute)
  ultimately show split: "drop i nums = replicate c (nums ! i') @ drop (Suc i') nums"
    by (metis append_take_drop_id)
  show "nums ! i' \<notin> set (drop (Suc i') nums)"
  proof
    assume mem: "nums ! i' \<in> set (drop (Suc i') nums)"
    then have nx: "Suc i' < length nums"
      by (metis drop_all empty_iff empty_set not_less)
    then have d: "drop (Suc i') nums = nums ! Suc i' # drop (Suc (Suc i')) nums"
      by (simp add: Cons_nth_drop_Suc)
    have "sorted (replicate c (nums ! i') @ drop (Suc i') nums)"
      using assms(3) split by simp
    then have "nums ! i' \<le> nums ! Suc i'" "\<forall>x \<in> set (drop (Suc i') nums). nums ! Suc i' \<le> x"
      using \<open>0 < c\<close> by (auto simp: sorted_append d)
    with mem have "nums ! i' = nums ! Suc i'"
      by (auto intro: antisym)
    with ne nx show False
      by simp
  qed
qed

text \<open>
  The elements of a slice that occur once in it, and those that occur more often; a run of equal
  elements at the front contributes as a whole.
\<close>

definition once :: "'a list \<Rightarrow> 'a list" where
  "once xs = filter (\<lambda>x. count (mset xs) x = 1) xs"

definition repeated :: "'a list \<Rightarrow> 'a list" where
  "repeated xs = filter (\<lambda>x. 1 < count (mset xs) x) xs"

lemma count_run:
  "x \<notin> set ys \<Longrightarrow> count (mset (replicate c x @ ys)) z = (if z = x then c else count (mset ys) z)"
  by (auto simp: not_in_iff)

lemma once_run:
  assumes "x \<notin> set ys"
  shows "once (replicate c x @ ys) = (if c = 1 then [x] else []) @ once ys"
proof -
  have "filter (\<lambda>z. count (mset (replicate c x @ ys)) z = 1) ys = once ys"
    unfolding once_def count_run[OF assms] using assms by (intro filter_cong) auto
  then show ?thesis
    unfolding once_def filter_append count_run[OF assms]
    by (cases "c = 1") (auto simp: filter_empty_conv)
qed

lemma repeated_run:
  assumes "x \<notin> set ys"
  shows "repeated (replicate c x @ ys) = (if 1 < c then replicate c x else []) @ repeated ys"
proof -
  have "filter (\<lambda>z. 1 < count (mset (replicate c x @ ys)) z) ys = repeated ys"
    unfolding repeated_def count_run[OF assms] using assms by (intro filter_cong) auto
  then show ?thesis
    unfolding repeated_def filter_append count_run[OF assms]
    by (auto simp: filter_empty_conv)
qed

lemma repeatedLoop_eq:
  "w \<le> i \<Longrightarrow> sorted (drop i nums) \<Longrightarrow> repeatedLoop i w nums = take w nums @ once (drop i nums)"
proof (induction i w nums rule: repeatedLoop.induct)
  case (1 i w nums)
  show ?case
  proof (cases "i < length nums")
    case True
    obtain i' c where r: "runEnd nums i 1 = (i', c)"
      by force
    note run = run_split[OF r True 1(4)]
    have st: "sorted (drop (Suc i') nums)"
      using 1(4) run(1) by (simp add: sorted_append)
    have w: "w < length nums" "w \<le> i'"
      using 1(3) True run(3,5) by simp_all
    show ?thesis
    proof (cases "c = 1")
      case c: True
      have "repeatedLoop i w nums = repeatedLoop (i' + 1) (w + 1) (nums[w := nums ! i'])"
        using True r c by (subst repeatedLoop.simps) simp
      also have "\<dots> = take (w + 1) (nums[w := nums ! i']) @ once (drop (i' + 1) (nums[w := nums ! i']))"
        using st w by (intro 1(1)[OF True r[symmetric] c]) simp_all
      finally show ?thesis
        using run(1,2) w c by (simp add: take_write once_run del: replicate.simps)
    next
      case c: False
      have "repeatedLoop i w nums = repeatedLoop (i' + 1) w nums"
        using True r c by (subst repeatedLoop.simps) simp
      also have "\<dots> = take w nums @ once (drop (i' + 1) nums)"
        using st w by (intro 1(2)[OF True r[symmetric] c]) simp_all
      finally show ?thesis
        using run(1,2) c by (simp add: once_run)
    qed
  qed (simp add: repeatedLoop.simps once_def)
qed

lemma writeCopies_eq:
  "w + c \<le> Suc i \<Longrightarrow> i < length nums \<Longrightarrow> writeCopies c i w nums = (w', nums') \<Longrightarrow>
   w' = w + c \<and> take w' nums' = take w nums @ replicate c (nums ! i) \<and> drop (Suc i) nums' = drop (Suc i) nums"
proof (induction c arbitrary: w nums)
  case (Suc c)
  let ?n = "nums[w := nums ! i]"
  have "w' = w + 1 + c \<and> take w' nums' = take (w + 1) ?n @ replicate c (?n ! i) \<and> drop (Suc i) nums' = drop (Suc i) ?n"
    using Suc.prems by (intro Suc.IH) simp_all
  moreover have "?n ! i = nums ! i"
    by (cases "w = i") simp_all
  ultimately show ?case
    using Suc.prems by (auto simp: take_write)
qed simp

lemma uniqueLoop_eq:
  "w \<le> i \<Longrightarrow> sorted (drop i nums) \<Longrightarrow> uniqueLoop i w nums = take w nums @ repeated (drop i nums)"
proof (induction i w nums rule: uniqueLoop.induct)
  case (1 i w nums)
  show ?case
  proof (cases "i < length nums")
    case True
    obtain i' c where r: "runEnd nums i 1 = (i', c)"
      by force
    note run = run_split[OF r True 1(4)]
    have st: "sorted (drop (Suc i') nums)"
      using 1(4) run(1) by (simp add: sorted_append)
    have w: "w \<le> i'" "w + c \<le> Suc i'"
      using 1(3) True run(3,5) by simp_all
    show ?thesis
    proof (cases "1 < c")
      case c: True
      obtain w' nums' where wc: "writeCopies c i' w nums = (w', nums')"
        by force
      note wr = writeCopies_eq[OF w(2) run(4) wc]
      have "uniqueLoop i w nums = uniqueLoop (i' + 1) w' nums'"
        using True r c wc by (subst uniqueLoop.simps) simp
      also have "\<dots> = take w' nums' @ repeated (drop (i' + 1) nums')"
        using st w wr by (intro 1(1)[OF True r[symmetric] c wc[symmetric]]) simp_all
      finally show ?thesis
        using run(1,2) wr c by (auto simp: repeated_run)
    next
      case c: False
      have "uniqueLoop i w nums = uniqueLoop (i' + 1) w nums"
        using True r c by (subst uniqueLoop.simps) simp
      also have "\<dots> = take w nums @ repeated (drop (i' + 1) nums)"
        using st w by (intro 1(2)[OF True r[symmetric] c]) simp_all
      finally show ?thesis
        using run(1,2) c by (simp add: repeated_run)
    qed
  qed (simp add: uniqueLoop.simps repeated_def)
qed

lemma distinct_remdups_adj: "sorted (xs :: 'a :: linorder list) \<Longrightarrow> distinct (remdups_adj xs)"
  by (induction xs rule: remdups_adj.induct) auto

section \<open>Properties\<close>

text \<open>
  C25. \<open>ContainsSorted\<close> decides containment with multiplicities: it sorts both slices and walks them
  with two indices, and it answers true exactly when every element occurs in the first slice at
  least as often as in the second.
\<close>

theorem ContainsSorted_iff:
  "ContainsSorted seq sub \<longleftrightarrow> mset sub \<subseteq># mset seq"
  using size_mset_mono[of "mset sub" "mset seq"]
  by (auto simp: ContainsSorted_def containsLoop_iff)

text \<open>
  C26. The in-place routines keep what they should: on a sorted slice \<open>RemoveRepeatedSorted\<close> keeps
  exactly the elements that occur once, \<open>RemoveUniqueElementsSorted\<close> exactly those that occur more
  than once with all their copies, and \<open>DiscardDuplicatesSorted\<close> one copy of each, all in order,
  although the loops overwrite the array they read.
\<close>

theorem sorted_slices_in_place:
  assumes "sorted nums"
  shows "RemoveRepeatedSorted nums = filter (\<lambda>x. count (mset nums) x = 1) nums
    \<and> RemoveUniqueElementsSorted nums = filter (\<lambda>x. 1 < count (mset nums) x) nums
    \<and> DiscardDuplicatesSorted nums = sorted_list_of_set (set nums)"
proof (intro conjI)
  show "RemoveRepeatedSorted nums = filter (\<lambda>x. count (mset nums) x = 1) nums"
    using repeatedLoop_eq[of 0 0 nums] assms by (simp add: RemoveRepeatedSorted_def once_def)
  show "RemoveUniqueElementsSorted nums = filter (\<lambda>x. 1 < count (mset nums) x) nums"
    using uniqueLoop_eq[of 0 0 nums] assms by (simp add: RemoveUniqueElementsSorted_def repeated_def)
  have "sorted (remdups_adj nums)" "distinct (remdups_adj nums)"
    using assms by (simp_all add: distinct_remdups_adj)
  then show "DiscardDuplicatesSorted nums = sorted_list_of_set (set nums)"
    by (metis DiscardDuplicatesSorted_eq remdups_adj_set sorted_list_of_set.idem_if_sorted_distinct
        strict_sorted_iff)
qed

theorem sorted_slices_in_place_witness:
  "RemoveRepeatedSorted [1, 1, 2, 3, 3, 4 :: nat] = [2, 4]
   \<and> RemoveUniqueElementsSorted [1, 1, 2, 3, 3, 4 :: nat] = [1, 1, 3, 3]"
  using sorted_slices_in_place[of "[1, 1, 2, 3, 3, 4 :: nat]"] by simp

end
