(* ===== verification/HashRange.thy ===== *)
theory HashRange
  imports Prelude
begin

text \<open>
  The range tree of the list diff (\<open>app/ldiff/hashrange.go\<close>). The 64-bit space of element hashes is
  divided into \<open>divideFactor\<close> ranges, and a range with more than \<open>compareThreshold\<close> elements is
  divided again.

  The ranges are objects with parent pointers, reached through a map from their bounds, and marked
  dirty by pointer. Deleting a range from the map does not delete it from memory, so the model has an
  explicit heap: a \<open>ref\<close> is a pointer to a \<open>hashRange\<close>. Arithmetic on bounds is on 64-bit words.

  The skip list, \<open>xxhash\<close> and \<open>blake3\<close> are library code and come as the record \<open>ldiffEnv\<close>:
  \<open>slFindNext\<close> is \<open>Find\<close> followed by \<open>Next\<close> to the end, \<open>slFrontNext\<close> the same from \<open>Front\<close>.
  A nil hash is the empty string, as for \<open>bytes.Equal\<close> and \<open>Write\<close>.
\<close>

datatype ldiff_error = ErrElementNotFound | ErrMismatched | ErrRemote | ErrCtxDone
  | LdPanicNilDereference | LdPanicDivideByZero

section \<open>Data\<close>

record Element =
  e_Id :: string
  e_Head :: string

record element =
  el_Element :: Element
  el_hash :: u64

record 's ldiffEnv =
  slNew :: 's
  slSetKey :: "element \<Rightarrow> 's \<Rightarrow> 's"
  slRemoveKey :: "element \<Rightarrow> 's \<Rightarrow> 's \<times> bool"
  slFindNext :: "'s \<Rightarrow> element \<Rightarrow> element list"
  slGetKey :: "'s \<Rightarrow> element \<Rightarrow> element option"
  slFrontNext :: "'s \<Rightarrow> element list"
  slLen :: "'s \<Rightarrow> nat"
  xxhash :: "string \<Rightarrow> u64"
  blake3 :: "bytes \<Rightarrow> bytes"

type_synonym ref = nat
type_synonym rangeTuple = "u64 \<times> u64"

record hashRange =
  hr_from :: u64
  hr_to :: u64
  hr_parent :: "ref option"
  hr_isDivided :: bool
  hr_elements :: int
  hr_level :: int
  hr_hash :: bytes

record hashRanges =
  h_heap :: "(ref, hashRange) gomap"
  h_next :: ref
  h_ranges :: "(rangeTuple, ref) gomap"
  h_topRange :: ref
  h_dirty :: "(ref, unit) gomap"
  h_divideFactor :: nat
  h_compareThreshold :: int

text \<open>Reading and writing through a pointer; a pointer that is not in the heap is not dereferenced.\<close>

definition deref :: "hashRanges \<Rightarrow> ref \<Rightarrow> hashRange" where
  "deref h r = (case mget (h_heap h) r of
       Some rng \<Rightarrow> rng
     | None \<Rightarrow> \<lparr>hr_from = 0, hr_to = 0, hr_parent = None, hr_isDivided = False, hr_elements = 0,
                hr_level = 0, hr_hash = []\<rparr>)"

definition updRange :: "ref \<Rightarrow> (hashRange \<Rightarrow> hashRange) \<Rightarrow> hashRanges \<Rightarrow> hashRanges" where
  "updRange r f h = h\<lparr>h_heap := mput r (f (deref h r)) (h_heap h)\<rparr>"

definition addDirty :: "ref \<Rightarrow> hashRanges \<Rightarrow> hashRanges" where
  "addDirty r h = h\<lparr>h_dirty := mput r () (h_dirty h)\<rparr>"

definition delDirty :: "ref \<Rightarrow> hashRanges \<Rightarrow> hashRanges" where
  "delDirty r h = h\<lparr>h_dirty := mdel r (h_dirty h)\<rparr>"

section \<open>Dividing ranges\<close>

text \<open>The loop of \<open>genTupleRanges\<close>; the last of the remaining ranges takes the rest.\<close>

fun tupleLoop :: "nat \<Rightarrow> u64 \<Rightarrow> u64 \<Rightarrow> u64 \<Rightarrow> rangeTuple list" where
  "tupleLoop 0 align perRange j = []"
| "tupleLoop (Suc n) align perRange j =
     (let per = (if n = 0 then perRange + align else perRange)
      in (j, j + per - 1) # tupleLoop n align per (j + per))"

definition alignOf :: "u64 \<Rightarrow> u64 \<Rightarrow> nat \<Rightarrow> u64" where
  "alignOf from to divideFactor =
     (let df = of_nat divideFactor in ((to - from) mod df + 1) mod df)"

definition perRangeOf :: "u64 \<Rightarrow> u64 \<Rightarrow> nat \<Rightarrow> u64" where
  "perRangeOf from to divideFactor =
     (let perRange = (to - from) div of_nat divideFactor
      in if alignOf from to divideFactor = 0 then perRange + 1 else perRange)"

definition genTupleRanges :: "u64 \<Rightarrow> u64 \<Rightarrow> nat \<Rightarrow> rangeTuple list" where
  "genTupleRanges from to divideFactor =
     tupleLoop divideFactor (alignOf from to divideFactor) (perRangeOf from to divideFactor) from"

text \<open>The range a hash falls into; \<open>None\<close> is the nil pointer a missing tuple gives.\<close>

definition getBottomRange :: "hashRanges \<Rightarrow> ref \<Rightarrow> u64 \<Rightarrow> ldiff_error + ref option" where
  "getBottomRange h r elHash =
     (let rng = deref h r; df = of_nat (h_divideFactor h);
          perRange = perRangeOf (hr_from rng) (hr_to rng) (h_divideFactor h);
          align = alignOf (hr_from rng) (hr_to rng) (h_divideFactor h)
      in if perRange = 0 then Inl LdPanicDivideByZero
         else
           (let bucket = (elHash - hr_from rng) div perRange;
                tuple_from = hr_from rng + bucket * perRange;
                tuple_to = hr_from rng - 1 + (bucket + 1) * perRange
            in Inr (mget (h_ranges h)
                 (tuple_from, if bucket = df - 1 then tuple_to + align else tuple_to))))"

definition getRange_hr :: "hashRanges \<Rightarrow> u64 \<Rightarrow> u64 \<Rightarrow> ref option" where
  "getRange_hr h from to = mget (h_ranges h) (from, to)"

section \<open>Hashes\<close>

text \<open>The elements the scan of a range sees: from the first one found up to the first hash above \<open>to\<close>.\<close>

definition elementsIn :: "'s ldiffEnv \<Rightarrow> 's \<Rightarrow> u64 \<Rightarrow> u64 \<Rightarrow> Element list" where
  "elementsIn E sl from to =
     map el_Element (takeWhile (\<lambda>el. el_hash el \<le> to)
       (slFindNext E sl \<lparr>el_Element = \<lparr>e_Id = [], e_Head = []\<rparr>, el_hash = from\<rparr>))"

definition calcElementsHash :: "'s ldiffEnv \<Rightarrow> 's \<Rightarrow> u64 \<Rightarrow> u64 \<Rightarrow> bytes \<times> int" where
  "calcElementsHash E sl from to =
     (let els = elementsIn E sl from to
      in (if els \<noteq> [] then blake3 E (concat (map (\<lambda>elem. e_Id elem @ e_Head elem) els)) else [],
          int (length els)))"

definition childHash :: "hashRanges \<Rightarrow> rangeTuple \<Rightarrow> ldiff_error + bytes" where
  "childHash h tuple =
     (case mget (h_ranges h) tuple of
        None \<Rightarrow> Inl LdPanicNilDereference
      | Some child \<Rightarrow> Inr (hr_hash (deref h child)))"

definition calcDividedHash :: "'s ldiffEnv \<Rightarrow> hashRanges \<Rightarrow> ref \<Rightarrow> ldiff_error + bytes" where
  "calcDividedHash E h r =
     rbind (rmap (childHash h)
       (genTupleRanges (hr_from (deref h r)) (hr_to (deref h r)) (h_divideFactor h)))
       (\<lambda>hashes. Inr (blake3 E (concat hashes)))"

section \<open>Growing and shrinking the tree\<close>

text \<open>\<open>makeRange\<close> allocates; the new pointer is returned with the heap.\<close>

definition makeRange :: "'s ldiffEnv \<Rightarrow> 's \<Rightarrow> rangeTuple \<Rightarrow> ref \<Rightarrow> hashRanges \<Rightarrow> ref \<times> hashRanges" where
  "makeRange E sl tuple parent h =
     (case calcElementsHash E sl (fst tuple) (snd tuple) of (hash, els) \<Rightarrow>
       (h_next h, h\<lparr>h_heap := mput (h_next h)
            \<lparr>hr_from = fst tuple, hr_to = snd tuple, hr_parent = Some parent, hr_isDivided = False,
             hr_elements = els, hr_level = hr_level (deref h parent) + 1, hr_hash = hash\<rparr> (h_heap h),
          h_next := h_next h + 1\<rparr>))"

text \<open>
  \<open>makeBottomRanges\<close> calls itself for each new range that is too big before it goes on with the next
  one. The model keeps the ranges still to make as a stack of bounds with their parent. The recursion
  of the code has no bound, so \<open>None\<close> stands for a call that does not return.
\<close>

partial_function (option) makeBottoms ::
    "'s ldiffEnv \<Rightarrow> 's \<Rightarrow> (rangeTuple \<times> ref) list \<Rightarrow> hashRanges \<Rightarrow> hashRanges option" where
  "makeBottoms E sl stack h =
     (case stack of
        [] \<Rightarrow> Some h
      | (tuple, rng) # rest \<Rightarrow>
          (case makeRange E sl tuple rng h of (newRange, h1) \<Rightarrow>
            let h2 = h1\<lparr>h_ranges := mput tuple newRange (h_ranges h1)\<rparr>
            in if hr_elements (deref h2 newRange) > h_compareThreshold h2
               then makeBottoms E sl
                 (map (\<lambda>t. (t, newRange)) (genTupleRanges (fst tuple) (snd tuple) (h_divideFactor h2)) @ rest)
                 (updRange newRange (\<lambda>r. r\<lparr>hr_isDivided := True\<rparr>) (addDirty newRange (delDirty rng h2)))
               else makeBottoms E sl rest h2))"

definition makeBottomRanges :: "'s ldiffEnv \<Rightarrow> 's \<Rightarrow> ref \<Rightarrow> hashRanges \<Rightarrow> hashRanges option" where
  "makeBottomRanges E sl r h =
     makeBottoms E sl (map (\<lambda>t. (t, r))
       (genTupleRanges (hr_from (deref h r)) (hr_to (deref h r)) (h_divideFactor h))) h"

definition newHashRanges :: "'s ldiffEnv \<Rightarrow> nat \<Rightarrow> int \<Rightarrow> 's \<Rightarrow> hashRanges option" where
  "newHashRanges E divideFactor compareThreshold sl =
     makeBottomRanges E sl 0
       \<lparr>h_heap = [(0, \<lparr>hr_from = 0, hr_to = - 1, hr_parent = None, hr_isDivided = True,
                       hr_elements = 0, hr_level = 0, hr_hash = []\<rparr>)],
        h_next = 1, h_ranges = [((0, - 1), 0)], h_topRange = 0, h_dirty = [],
        h_divideFactor = divideFactor, h_compareThreshold = compareThreshold\<rparr>"

text \<open>
  The descent of \<open>addElement\<close> and \<open>removeElement\<close>: from the top to the range that is not divided,
  adding \<open>d\<close> to the counter of each range entered.
\<close>

partial_function (option) descend ::
    "int \<Rightarrow> u64 \<Rightarrow> ref \<Rightarrow> hashRanges \<Rightarrow> (ldiff_error, ref \<times> hashRanges) run" where
  "descend d elHash r h =
     (if hr_isDivided (deref h r)
      then (case getBottomRange h r elHash of
          Inl e \<Rightarrow> pthrow e
        | Inr None \<Rightarrow> pthrow LdPanicNilDereference
        | Inr (Some r') \<Rightarrow>
            descend d elHash r' (updRange r' (\<lambda>rng. rng\<lparr>hr_elements := hr_elements rng + d\<rparr>) h))
      else pret (r, h))"

definition enterTop :: "int \<Rightarrow> hashRanges \<Rightarrow> hashRanges" where
  "enterTop d h = updRange (h_topRange h) (\<lambda>rng. rng\<lparr>hr_elements := hr_elements rng + d\<rparr>) h"

definition addElement :: "'s ldiffEnv \<Rightarrow> 's \<Rightarrow> u64 \<Rightarrow> hashRanges \<Rightarrow> (ldiff_error, hashRanges) run" where
  "addElement E sl elHash h =
     pbind (descend 1 elHash (h_topRange h) (enterTop 1 h)) (\<lambda>(r, h).
       let h = addDirty r h
       in case (if hr_elements (deref h r) > h_compareThreshold h
                then makeBottomRanges E sl r (updRange r (\<lambda>rng. rng\<lparr>hr_isDivided := True\<rparr>) h)
                else Some h) of
            None \<Rightarrow> None
          | Some h \<Rightarrow>
              pret (case hr_parent (deref h r) of None \<Rightarrow> h | Some parent \<Rightarrow> delDirty parent h))"

definition mergeChild :: "rangeTuple \<Rightarrow> hashRanges \<Rightarrow> hashRanges" where
  "mergeChild tuple h =
     (let child = mget (h_ranges h) tuple; h = h\<lparr>h_ranges := mdel tuple (h_ranges h)\<rparr>
      in case child of None \<Rightarrow> h | Some c \<Rightarrow> delDirty c h)"

definition removeElement :: "u64 \<Rightarrow> hashRanges \<Rightarrow> (ldiff_error, hashRanges) run" where
  "removeElement elHash h =
     pbind (descend (-1) elHash (h_topRange h) (enterTop (-1) h)) (\<lambda>(r, h).
       case hr_parent (deref h r) of
         None \<Rightarrow> pthrow LdPanicNilDereference
       | Some parent \<Rightarrow>
           if hr_elements (deref h parent) \<le> h_compareThreshold h \<and> parent \<noteq> h_topRange h
           then pret (addDirty parent (updRange parent (\<lambda>rng. rng\<lparr>hr_isDivided := False\<rparr>)
                  (fold mergeChild (genTupleRanges (hr_from (deref h parent)) (hr_to (deref h parent))
                     (h_divideFactor h)) h)))
           else pret (addDirty r h))"

section \<open>Recalculating hashes\<close>

definition recalcOne :: "'s ldiffEnv \<Rightarrow> 's \<Rightarrow> ref \<Rightarrow> hashRanges \<Rightarrow> ldiff_error + hashRanges" where
  "recalcOne E sl r h =
     rbind (if hr_isDivided (deref h r)
            then rbind (calcDividedHash E h r) (\<lambda>hash. Inr (updRange r (\<lambda>rng. rng\<lparr>hr_hash := hash\<rparr>) h))
            else (case calcElementsHash E sl (hr_from (deref h r)) (hr_to (deref h r)) of (hash, els) \<Rightarrow>
              Inr (updRange r (\<lambda>rng. rng\<lparr>hr_hash := hash, hr_elements := els\<rparr>) h))) (\<lambda>h.
       Inr (case hr_parent (deref h r) of
           None \<Rightarrow> delDirty r h
         | Some parent \<Rightarrow> addDirty parent (delDirty r h)))"

definition recalcRound :: "'s ldiffEnv \<Rightarrow> 's \<Rightarrow> hashRanges \<Rightarrow> ldiff_error + hashRanges" where
  "recalcRound E sl h =
     rfold (recalcOne E sl) (sort_key (\<lambda>r. hr_level (deref h r)) (mkeys (h_dirty h))) h"

partial_function (option) recalculateHashes ::
    "'s ldiffEnv \<Rightarrow> 's \<Rightarrow> hashRanges \<Rightarrow> (ldiff_error, hashRanges) run" where
  "recalculateHashes E sl h =
     (if h_dirty h = [] then pret h
      else (case recalcRound E sl h of
          Inl e \<Rightarrow> pthrow e
        | Inr h' \<Rightarrow> recalculateHashes E sl h'))"

declare makeBottoms.simps [code] descend.simps [code] recalculateHashes.simps [code]

end
