(* ===== verification/Ldiff.thy ===== *)
theory Ldiff
  imports HashRange
begin

text \<open>
  The list diff (\<open>app/ldiff/diff.go\<close>): a container of elements with an id and a head, and the
  protocol that finds the difference with a remote container by comparing hashes of ranges.
\<close>

section \<open>Data\<close>

record Range =
  rg_From :: u64
  rg_To :: u64
  rg_Elements :: bool
  rg_Limit :: int

record RangeResult =
  rr_Hash :: bytes
  rr_Elements :: "Element list"
  rr_Count :: int

record 's diff =
  d_sl :: 's
  d_divideFactor :: nat
  d_compareThreshold :: int
  d_ranges :: hashRanges

record diffCtx =
  newIds :: "string list"
  changedIds :: "string list"
  theirChangedIds :: "string list"
  removedIds :: "string list"
  toSend :: "Range list"
  prepare :: "Range list"

section \<open>The container\<close>

text \<open>The order of the skip list: by hash, then by id; equal ids are equal keys.\<close>

definition Compare :: "element \<Rightarrow> element \<Rightarrow> int" where
  "Compare lhe rhe =
     (if e_Id (el_Element lhe) = e_Id (el_Element rhe) then 0
      else if el_hash lhe > el_hash rhe then 1
      else if el_hash lhe < el_hash rhe then -1
      else if e_Id (el_Element lhe) > e_Id (el_Element rhe) then 1
      else -1)"

definition newDiff :: "'s ldiffEnv \<Rightarrow> int \<Rightarrow> int \<Rightarrow> (ldiff_error, 's diff) run" where
  "newDiff E divideFactor compareThreshold =
     (let df = nat (if divideFactor < 2 then 2 else divideFactor);
          ct = (if compareThreshold < 1 then 1 else compareThreshold)
      in case newHashRanges E df ct (slNew E) of
           None \<Rightarrow> None
         | Some h \<Rightarrow>
             pbind (recalculateHashes E (slNew E) (addDirty (h_topRange h) h)) (\<lambda>h.
               pret \<lparr>d_sl = slNew E, d_divideFactor = df, d_compareThreshold = ct, d_ranges = h\<rparr>))"

definition keyOf :: "'s ldiffEnv \<Rightarrow> Element \<Rightarrow> element" where
  "keyOf E e = \<lparr>el_Element = e, el_hash = xxhash E (e_Id e)\<rparr>"

definition setOne :: "'s ldiffEnv \<Rightarrow> Element \<Rightarrow> 's diff \<Rightarrow> (ldiff_error, 's diff) run" where
  "setOne E e d =
     (let el = keyOf E e;
          sl = slSetKey E el (fst (slRemoveKey E el (d_sl d)))
      in pbind (addElement E sl (el_hash el) (d_ranges d)) (\<lambda>h.
           pret (d\<lparr>d_sl := sl, d_ranges := h\<rparr>)))"

fun setAll :: "'s ldiffEnv \<Rightarrow> Element list \<Rightarrow> 's diff \<Rightarrow> (ldiff_error, 's diff) run" where
  "setAll E [] d = pret d"
| "setAll E (e # elements) d = pbind (setOne E e d) (setAll E elements)"

definition SetElements :: "'s ldiffEnv \<Rightarrow> Element list \<Rightarrow> 's diff \<Rightarrow> (ldiff_error, 's diff) run" where
  "SetElements E elements d =
     pbind (setAll E elements d) (\<lambda>d.
     pbind (recalculateHashes E (d_sl d) (d_ranges d)) (\<lambda>h. pret (d\<lparr>d_ranges := h\<rparr>)))"

definition RemoveId :: "'s ldiffEnv \<Rightarrow> string \<Rightarrow> 's diff \<Rightarrow> (ldiff_error, 's diff) run" where
  "RemoveId E i d =
     (let hash = xxhash E i;
          el = \<lparr>el_Element = \<lparr>e_Id = i, e_Head = []\<rparr>, el_hash = hash\<rparr>
      in case slRemoveKey E el (d_sl d) of (sl, found) \<Rightarrow>
           if \<not> found then pthrow ErrElementNotFound
           else
             pbind (removeElement hash (d_ranges d)) (\<lambda>h.
             pbind (recalculateHashes E sl h) (\<lambda>h. pret (d\<lparr>d_sl := sl, d_ranges := h\<rparr>))))"

definition Elements :: "'s ldiffEnv \<Rightarrow> 's diff \<Rightarrow> Element list" where
  "Elements E d = map el_Element (slFrontNext E (d_sl d))"

definition Ids :: "'s ldiffEnv \<Rightarrow> 's diff \<Rightarrow> string list" where
  "Ids E d = map (\<lambda>el. e_Id (el_Element el)) (slFrontNext E (d_sl d))"

definition Len :: "'s ldiffEnv \<Rightarrow> 's diff \<Rightarrow> nat" where
  "Len E d = slLen E (d_sl d)"

definition ElementOf :: "'s ldiffEnv \<Rightarrow> 's diff \<Rightarrow> string \<Rightarrow> ldiff_error + Element" where
  "ElementOf E d i =
     (case slGetKey E (d_sl d) \<lparr>el_Element = \<lparr>e_Id = i, e_Head = []\<rparr>, el_hash = xxhash E i\<rparr> of
        None \<Rightarrow> Inl ErrElementNotFound
      | Some el \<Rightarrow> Inr (el_Element el))"

text \<open>\<open>Hash\<close> without the hexadecimal encoding.\<close>

definition rawHash :: "'s diff \<Rightarrow> bytes" where
  "rawHash d = hr_hash (deref (d_ranges d) (h_topRange (d_ranges d)))"

section \<open>Answering range requests\<close>

definition fullResult :: "'s ldiffEnv \<Rightarrow> 's \<Rightarrow> Range \<Rightarrow> bytes \<Rightarrow> RangeResult" where
  "fullResult E sl r hash =
     (let els = elementsIn E sl (rg_From r) (rg_To r)
      in \<lparr>rr_Hash = hash, rr_Elements = els, rr_Count = int (length els)\<rparr>)"

definition getRange :: "'s ldiffEnv \<Rightarrow> 's diff \<Rightarrow> Range \<Rightarrow> RangeResult" where
  "getRange E d r =
     (case getRange_hr (d_ranges d) (rg_From r) (rg_To r) of
        Some rng \<Rightarrow>
          if \<not> rg_Elements r
          then \<lparr>rr_Hash = hr_hash (deref (d_ranges d) rng), rr_Elements = [],
                rr_Count = hr_elements (deref (d_ranges d) rng)\<rparr>
          else fullResult E (d_sl d) r (hr_hash (deref (d_ranges d) rng))
      | None \<Rightarrow> fullResult E (d_sl d) r [])"

definition Ranges :: "'s ldiffEnv \<Rightarrow> 's diff \<Rightarrow> Range list \<Rightarrow> ldiff_error + RangeResult list" where
  "Ranges E d ranges = Inr (map (getRange E d) ranges)"

section \<open>Comparing elements\<close>

definition toMap :: "Element list \<Rightarrow> (string, string) gomap" where
  "toMap els = fold (\<lambda>el. mput (e_Id el) (e_Head el)) els []"

definition compareElementsEqual :: "diffCtx \<Rightarrow> Element list \<Rightarrow> Element list \<Rightarrow> diffCtx" where
  "compareElementsEqual dctx my other =
     (let otherMap = toMap other; myMap = toMap my
      in dctx\<lparr>removedIds := removedIds dctx @
                map e_Id (filter (\<lambda>el. mget otherMap (e_Id el) = None) my),
              changedIds := changedIds dctx @
                map e_Id (filter (\<lambda>el. mget otherMap (e_Id el) \<noteq> None
                  \<and> mget otherMap (e_Id el) \<noteq> Some (e_Head el)) my),
              newIds := newIds dctx @
                map e_Id (filter (\<lambda>el. mget myMap (e_Id el) = None) other)\<rparr>)"

text \<open>\<open>find\<close> of the greater comparison: the first element with the id, its head against the target's.\<close>

definition findGreater :: "Element list \<Rightarrow> Element \<Rightarrow> bool \<times> bool \<times> bool" where
  "findGreater els target =
     (case find (\<lambda>el. e_Id el = e_Id target) els of
        None \<Rightarrow> (False, False, False)
      | Some el \<Rightarrow>
          if e_Head el = e_Head target then (True, True, False)
          else (True, False, e_Head el > e_Head target))"

definition compareElementsGreater :: "diffCtx \<Rightarrow> Element list \<Rightarrow> Element list \<Rightarrow> diffCtx" where
  "compareElementsGreater dctx my other =
     dctx\<lparr>removedIds := removedIds dctx @
            map e_Id (filter (\<lambda>el. \<not> fst (findGreater other el)) my),
          theirChangedIds := theirChangedIds dctx @
            map e_Id (filter (\<lambda>el. findGreater other el = (True, False, True)) my),
          changedIds := changedIds dctx @
            map e_Id (filter (\<lambda>el. findGreater other el = (True, False, False)) my),
          newIds := newIds dctx @
            map e_Id (filter (\<lambda>el. \<not> fst (findGreater my el)) other)\<rparr>"

section \<open>The protocol\<close>

type_synonym compareFunc = "diffCtx \<Rightarrow> Element list \<Rightarrow> Element list \<Rightarrow> diffCtx"

definition compareResults ::
    "'s ldiffEnv \<Rightarrow> compareFunc \<Rightarrow> 's diff \<Rightarrow> Range \<Rightarrow> RangeResult \<Rightarrow> RangeResult \<Rightarrow> diffCtx \<Rightarrow> diffCtx" where
  "compareResults E cmp d r myRes otherRes dctx =
     (if rr_Hash myRes = rr_Hash otherRes then dctx
      else if int (length (rr_Elements otherRes)) = rr_Count otherRes
        then if int (length (rr_Elements myRes)) = rr_Count myRes
          then cmp dctx (rr_Elements myRes) (rr_Elements otherRes)
          else cmp dctx (rr_Elements (getRange E d (r\<lparr>rg_Elements := True\<rparr>))) (rr_Elements otherRes)
      else if rr_Count otherRes \<le> d_compareThreshold d \<and> length (rr_Elements otherRes) = 0
           \<or> int (length (rr_Elements myRes)) = rr_Count myRes
        then dctx\<lparr>prepare := prepare dctx @ [r\<lparr>rg_Elements := True\<rparr>]\<rparr>
      else dctx\<lparr>prepare := prepare dctx @
             map (\<lambda>tuple. \<lparr>rg_From = fst tuple, rg_To = snd tuple, rg_Elements = False, rg_Limit = 0\<rparr>)
               (genTupleRanges (rg_From r) (rg_To r) (d_divideFactor d))\<rparr>)"

fun compareAll ::
    "'s ldiffEnv \<Rightarrow> compareFunc \<Rightarrow> 's diff \<Rightarrow> Range list \<Rightarrow> RangeResult list \<Rightarrow> RangeResult list
      \<Rightarrow> diffCtx \<Rightarrow> diffCtx" where
  "compareAll E cmp d (r # rs) (m # ms) (w # ws) dctx =
     compareAll E cmp d rs ms ws (compareResults E cmp d r m w dctx)"
| "compareAll E cmp d _ _ _ dctx = dctx"

text \<open>
  The loop shared by \<open>Diff\<close> and \<open>CompareDiff\<close>. \<open>remote\<close> is the \<open>Ranges\<close> method of the \<open>Remote\<close>
  interface; \<open>ctxErr n\<close> is the state of the context before round \<open>n\<close>.
\<close>

type_synonym Remote = "Range list \<Rightarrow> ldiff_error + RangeResult list"

definition diffRound ::
    "'s ldiffEnv \<Rightarrow> compareFunc \<Rightarrow> Remote \<Rightarrow> 's diff \<Rightarrow> diffCtx \<Rightarrow> ldiff_error + diffCtx" where
  "diffRound E cmp remote d dctx =
     rbind (remote (toSend dctx)) (\<lambda>otherRes.
     rbind (Ranges E d (toSend dctx)) (\<lambda>myRes.
       if length otherRes \<noteq> length (toSend dctx) \<or> length myRes \<noteq> length (toSend dctx)
       then Inl ErrMismatched
       else (let dctx' = compareAll E cmp d (toSend dctx) myRes otherRes dctx
             in Inr (dctx'\<lparr>toSend := prepare dctx', prepare := []\<rparr>))))"

partial_function (option) diffLoop ::
    "'s ldiffEnv \<Rightarrow> compareFunc \<Rightarrow> Remote \<Rightarrow> (nat \<Rightarrow> ldiff_error option) \<Rightarrow> nat \<Rightarrow> 's diff \<Rightarrow> diffCtx
      \<Rightarrow> (ldiff_error, diffCtx) run" where
  "diffLoop E cmp remote ctxErr n d dctx =
     (if toSend dctx = [] then pret dctx
      else (case ctxErr n of
          Some e \<Rightarrow> pthrow e
        | None \<Rightarrow> (case diffRound E cmp remote d dctx of
              Inl e \<Rightarrow> pthrow e
            | Inr dctx' \<Rightarrow> diffLoop E cmp remote ctxErr (n + 1) d dctx')))"

definition startCtx :: diffCtx where
  "startCtx = \<lparr>newIds = [], changedIds = [], theirChangedIds = [], removedIds = [],
     toSend = [\<lparr>rg_From = 0, rg_To = - 1, rg_Elements = False, rg_Limit = 0\<rparr>], prepare = []\<rparr>"

definition Diff ::
    "'s ldiffEnv \<Rightarrow> Remote \<Rightarrow> (nat \<Rightarrow> ldiff_error option) \<Rightarrow> 's diff
      \<Rightarrow> (ldiff_error, string list \<times> string list \<times> string list) run" where
  "Diff E remote ctxErr d =
     pbind (diffLoop E compareElementsEqual remote ctxErr 0 d startCtx) (\<lambda>dctx.
       pret (newIds dctx, changedIds dctx, removedIds dctx))"

definition CompareDiff ::
    "'s ldiffEnv \<Rightarrow> Remote \<Rightarrow> (nat \<Rightarrow> ldiff_error option) \<Rightarrow> 's diff
      \<Rightarrow> (ldiff_error, string list \<times> string list \<times> string list \<times> string list) run" where
  "CompareDiff E remote ctxErr d =
     pbind (diffLoop E compareElementsGreater remote ctxErr 0 d startCtx) (\<lambda>dctx.
       pret (newIds dctx, changedIds dctx, theirChangedIds dctx, removedIds dctx))"

declare diffLoop.simps [code]

end
