(* ===== verification/RangeDivision.thy ===== *)
theory RangeDivision
  imports HashRange
begin

text \<open>
  The division of a hash range: \<open>genTupleRanges\<close> partitions the range it divides, and
  \<open>getBottomRange\<close> computes the part a hash belongs to. The arithmetic on words is related to the
  arithmetic on naturals by \<open>of_nat\<close>, which is a ring homomorphism whether or not a sum wraps.
\<close>

section \<open>Sizes\<close>

text \<open>The number of hashes of a range, at most \<open>2 ^ 64\<close>.\<close>

definition sizeOf :: "u64 \<Rightarrow> u64 \<Rightarrow> nat" where
  "sizeOf from to = unat (to - from) + 1"

definition validFactor :: "nat \<Rightarrow> bool" where
  "validFactor df \<longleftrightarrow> 2 \<le> df \<and> df < 2 ^ 64"

lemma unat_lt_64 [simp]: "unat (x :: u64) < 2 ^ 64"
proof -
  have "unat x < 2 ^ LENGTH(64)"
    by (rule unsigned_less)
  then show ?thesis
    by simp
qed

lemma unat_of_nat_64: "n < 2 ^ 64 \<Longrightarrow> unat (of_nat n :: u64) = n"
  by (simp add: unat_of_nat)

lemma word_plus_one: "x + 1 = (of_nat (unat x + 1) :: u64)"
  by simp

lemma unat_max_64: "unat (- 1 :: u64) = 2 ^ 64 - 1"
  by (simp add: unsigned_minus_1_eq_mask mask_eq_exp_minus_1)

lemma sizeOf_le: "sizeOf from to \<le> 2 ^ 64"
  unfolding sizeOf_def using unat_lt_64[of "to - from"] by linarith

lemma sizeOf_to: "from \<le> to \<Longrightarrow> unat from + sizeOf from to = unat to + 1"
  by (simp add: sizeOf_def unat_sub word_le_nat_alt)

lemma pred_div_mod:
  fixes s df :: nat
  assumes "0 < s" and "0 < df"
  shows "((s - 1) mod df + 1) mod df = s mod df"
    and "s mod df = 0 \<Longrightarrow> (s - 1) div df + 1 = s div df"
    and "s mod df \<noteq> 0 \<Longrightarrow> (s - 1) div df = s div df"
proof -
  obtain t where t: "s = Suc t"
    using assms(1) by (cases s) auto
  show "((s - 1) mod df + 1) mod df = s mod df"
    by (simp add: t mod_Suc_eq)
  show "s mod df = 0 \<Longrightarrow> (s - 1) div df + 1 = s div df" and "s mod df \<noteq> 0 \<Longrightarrow> (s - 1) div df = s div df"
    by (simp_all add: t div_Suc)
qed

lemma unat_alignOf:
  assumes "validFactor df"
  shows "unat (alignOf from to df) = sizeOf from to mod df"
proof -
  let ?d = "of_nat df :: u64"
  have d: "unat ?d = df" "df \<noteq> 0" "df < 2 ^ 64"
    using assms by (simp_all add: validFactor_def unat_of_nat_64)
  have "unat ((to - from) mod ?d) = (sizeOf from to - 1) mod df"
    by (simp add: unat_mod_distrib d(1) sizeOf_def)
  then have "(to - from) mod ?d + 1 = of_nat ((sizeOf from to - 1) mod df + 1)"
    by (simp only: word_plus_one)
  moreover have "(sizeOf from to - 1) mod df + 1 < 2 ^ 64"
    using mod_less_divisor[of df "sizeOf from to - 1"] d by linarith
  ultimately have "unat ((to - from) mod ?d + 1) = (sizeOf from to - 1) mod df + 1"
    by (simp only: unat_of_nat_64)
  then show ?thesis
    using pred_div_mod(1)[of "sizeOf from to" df] d
    by (simp add: alignOf_def Let_def unat_mod_distrib sizeOf_def)
qed

lemma unat_perRangeOf:
  assumes "validFactor df"
  shows "unat (perRangeOf from to df) = sizeOf from to div df"
proof -
  let ?d = "of_nat df :: u64" and ?s = "sizeOf from to"
  have d: "unat ?d = df" "0 < df" "2 \<le> df"
    using assms by (simp_all add: validFactor_def unat_of_nat_64)
  have s: "0 < ?s"
    by (simp add: sizeOf_def)
  have q: "unat ((to - from) div ?d) = (?s - 1) div df"
    by (simp add: unat_div_distrib d(1) sizeOf_def)
  have "?s div df \<le> ?s div 2"
    using d by (simp add: div_le_mono2)
  also have "?s div 2 \<le> 2 ^ 64 div 2"
    using sizeOf_le by (rule div_le_mono)
  finally have small: "?s div df < 2 ^ 64"
    by simp
  show ?thesis
  proof (cases "?s mod df = 0")
    case True
    have "(to - from) div ?d + 1 = of_nat ((?s - 1) div df + 1)"
      using q by (simp only: word_plus_one)
    also have "\<dots> = of_nat (?s div df)"
      using pred_div_mod(2)[OF s d(2) True] by simp
    finally show ?thesis
      using True small unat_alignOf[OF assms, of "from" to]
      by (simp add: perRangeOf_def Let_def unat_of_nat_64 unat_0_iff[symmetric])
  next
    case False
    then show ?thesis
      using q pred_div_mod(3)[OF s d(2) False] unat_alignOf[OF assms, of "from" to]
      by (simp add: perRangeOf_def Let_def unat_0_iff[symmetric])
  qed
qed

section \<open>The division on naturals\<close>

fun natTuples :: "nat \<Rightarrow> nat \<Rightarrow> nat \<Rightarrow> nat \<Rightarrow> (nat \<times> nat) list" where
  "natTuples 0 align perRange j = []"
| "natTuples (Suc n) align perRange j =
     (let per = (if n = 0 then perRange + align else perRange)
      in (j, j + per - 1) # natTuples n align per (j + per))"

definition wordTuple :: "nat \<times> nat \<Rightarrow> rangeTuple" where
  "wordTuple t = (of_nat (fst t), of_nat (snd t))"

lemma tupleLoop_nat:
  "0 < p \<Longrightarrow> tupleLoop n (of_nat a) (of_nat p) (of_nat j) = map wordTuple (natTuples n a p j)"
proof (induction n arbitrary: p j)
  case (Suc n)
  let ?per = "if n = 0 then p + a else p"
  have "0 < ?per"
    using Suc.prems by simp
  then have "(of_nat (j + ?per - 1) :: u64) = of_nat j + of_nat ?per - 1"
    by (simp add: of_nat_diff)
  moreover note Suc.IH[OF \<open>0 < ?per\<close>, of "j + ?per"]
  ultimately show ?case
    by (cases "n = 0") (simp_all add: Let_def wordTuple_def)
qed simp

lemma natTuples_length [simp]: "length (natTuples n a p j) = n"
  by (induction n arbitrary: p j) (simp_all add: Let_def)

lemma natTuples_cover:
  "0 < p \<Longrightarrow> 0 < n \<Longrightarrow>
   (\<exists>t \<in> set (natTuples n a p j). fst t \<le> x \<and> x \<le> snd t) \<longleftrightarrow> j \<le> x \<and> x < j + n * p + a"
proof (induction n arbitrary: j)
  case (Suc n)
  show ?case
  proof (cases "n = 0")
    case True
    with Suc.prems show ?thesis
      by auto
  next
    case False
    then have "(\<exists>t \<in> set (natTuples (Suc n) a p j). fst t \<le> x \<and> x \<le> snd t)
        \<longleftrightarrow> (j \<le> x \<and> x \<le> j + p - 1) \<or> (j + p \<le> x \<and> x < j + p + n * p + a)"
      using Suc.IH[OF Suc.prems(1), of "j + p"] by (simp add: Let_def)
    then show ?thesis
      using Suc.prems by auto
  qed
qed simp

lemma natTuples_bounds:
  "0 < p \<Longrightarrow> t \<in> set (natTuples n a p j) \<Longrightarrow> j \<le> fst t \<and> fst t \<le> snd t \<and> snd t < j + n * p + a"
proof (induction n arbitrary: j)
  case (Suc n)
  show ?case
  proof (cases "n = 0")
    case False
    with Suc.prems consider "t = (j, j + p - 1)" | "t \<in> set (natTuples n a p (j + p))"
      by (auto simp: Let_def)
    then show ?thesis
      using Suc.IH[OF Suc.prems(1), of "j + p"] Suc.prems(1) by cases auto
  qed (use Suc.prems in auto)
qed simp

lemma natTuples_apart:
  "0 < p \<Longrightarrow> sorted_wrt (\<lambda>s t. snd s < fst t) (natTuples n a p j)"
proof (induction n arbitrary: j)
  case (Suc n)
  then show ?case
    using natTuples_bounds[OF Suc.prems, of _ n a "j + p"]
    by (cases "n = 0") (fastforce simp: Let_def)+
qed simp

lemma natTuples_nth:
  "0 < p \<Longrightarrow> i < n \<Longrightarrow> natTuples n 0 p j ! i = (j + i * p, j + i * p + p - 1)"
proof (induction n arbitrary: i j)
  case (Suc n)
  then show ?case
    by (cases i) (auto simp: Let_def ac_simps)
qed simp

section \<open>The division of a range\<close>

lemma genTupleRanges_nat:
  assumes "validFactor df" and "df \<le> sizeOf from to"
  shows "genTupleRanges from to df
    = map wordTuple (natTuples df (sizeOf from to mod df) (sizeOf from to div df) (unat from))"
proof -
  have "0 < sizeOf from to div df"
    using assms by (simp add: validFactor_def div_greater_zero_iff)
  from tupleLoop_nat[OF this, of df "sizeOf from to mod df" "unat from"] show ?thesis
    by (simp add: genTupleRanges_def flip: unat_alignOf[OF assms(1)] unat_perRangeOf[OF assms(1)])
qed

definition inTuple :: "u64 \<Rightarrow> rangeTuple \<Rightarrow> bool" where
  "inTuple x t \<longleftrightarrow> fst t \<le> x \<and> x \<le> snd t"

lemma wordTuple_in:
  "fst t < 2 ^ 64 \<Longrightarrow> snd t < 2 ^ 64 \<Longrightarrow> inTuple x (wordTuple t) \<longleftrightarrow> fst t \<le> unat x \<and> unat x \<le> snd t"
  by (simp add: inTuple_def wordTuple_def word_le_nat_alt unat_of_nat_64)

lemma genTupleRanges_partition:
  assumes "validFactor df" and "from \<le> to" and "df \<le> sizeOf from to"
  shows "length (genTupleRanges from to df) = df"
    and "(\<exists>t \<in> set (genTupleRanges from to df). inTuple x t) \<longleftrightarrow> from \<le> x \<and> x \<le> to"
    and "t \<in> set (genTupleRanges from to df) \<Longrightarrow> from \<le> fst t \<and> fst t \<le> snd t \<and> snd t \<le> to"
    and "sorted_wrt (\<lambda>s t. snd s < fst t) (genTupleRanges from to df)"
proof -
  let ?s = "sizeOf from to" and ?T = "natTuples df (sizeOf from to mod df) (sizeOf from to div df) (unat from)"
  note gen = genTupleRanges_nat[OF assms(1,3)]
  have p: "0 < ?s div df" and df: "0 < df"
    using assms by (simp_all add: validFactor_def div_greater_zero_iff)
  have end_to: "unat from + df * (?s div df) + ?s mod df = unat to + 1"
    using sizeOf_to[OF assms(2)] by simp
  have b: "unat from \<le> fst t \<and> fst t \<le> snd t \<and> snd t \<le> unat to \<and> fst t < 2 ^ 64 \<and> snd t < 2 ^ 64"
    if "t \<in> set ?T" for t
    using natTuples_bounds[OF p that] end_to unat_lt_64[of to] by linarith
  show "length (genTupleRanges from to df) = df"
    by (simp add: gen)
  have "(\<exists>t \<in> set (genTupleRanges from to df). inTuple x t) \<longleftrightarrow> (\<exists>t \<in> set ?T. fst t \<le> unat x \<and> unat x \<le> snd t)"
    using b by (auto simp: gen wordTuple_in)
  also have "\<dots> \<longleftrightarrow> from \<le> x \<and> x \<le> to"
    unfolding natTuples_cover[OF p df] end_to by (auto simp: word_le_nat_alt)
  finally show "(\<exists>t \<in> set (genTupleRanges from to df). inTuple x t) \<longleftrightarrow> from \<le> x \<and> x \<le> to" .
  show "from \<le> fst t \<and> fst t \<le> snd t \<and> snd t \<le> to" if "t \<in> set (genTupleRanges from to df)"
    using b that by (auto simp: gen wordTuple_def word_le_nat_alt unat_of_nat_64)
  show "sorted_wrt (\<lambda>s t. snd s < fst t) (genTupleRanges from to df)"
    unfolding gen sorted_wrt_map
  proof (rule sorted_wrt_mono_rel[OF _ natTuples_apart[OF p]])
    fix s t
    assume "s \<in> set ?T" "t \<in> set ?T" "snd s < fst t"
    then show "snd (wordTuple s) < fst (wordTuple t)"
      using b by (simp add: wordTuple_def word_less_nat_alt unat_of_nat_64)
  qed
qed

lemma natTuples_size: "0 < p \<Longrightarrow> t \<in> set (natTuples n a p j) \<Longrightarrow> snd t + 1 - fst t \<le> p + a"
proof (induction n arbitrary: j)
  case (Suc n)
  show ?case
  proof (cases "n = 0")
    case False
    with Suc.prems consider "t = (j, j + p - 1)" | "t \<in> set (natTuples n a p (j + p))"
      by (auto simp: Let_def)
    then show ?thesis
      using Suc.IH[OF Suc.prems(1), of "j + p"] Suc.prems(1) by cases auto
  qed (use Suc.prems in auto)
qed simp

lemma genTupleRanges_smaller:
  assumes "validFactor df" and "from \<le> to" and "df \<le> sizeOf from to"
    and "t \<in> set (genTupleRanges from to df)"
  shows "sizeOf (fst t) (snd t) < sizeOf from to"
proof -
  let ?s = "sizeOf from to" and ?T = "natTuples df (sizeOf from to mod df) (sizeOf from to div df) (unat from)"
  have p: "0 < ?s div df"
    using assms by (simp add: validFactor_def div_greater_zero_iff)
  from assms(4) obtain u where u: "u \<in> set ?T" "t = wordTuple u"
    unfolding genTupleRanges_nat[OF assms(1,3)] by auto
  have "unat from + df * (?s div df) + ?s mod df = unat to + 1"
    using sizeOf_to[OF assms(2)] by simp
  with natTuples_bounds[OF p u(1)] unat_lt_64[of to] have b: "fst u \<le> snd u" "snd u < 2 ^ 64"
    by linarith+
  then have "sizeOf (fst t) (snd t) = snd u + 1 - fst u"
    by (simp add: u(2) wordTuple_def sizeOf_def unat_sub word_le_nat_alt unat_of_nat_64)
  also have "\<dots> \<le> ?s div df + ?s mod df"
    using natTuples_size[OF p u(1)] .
  also have "1 * (?s div df) < df * (?s div df)"
    using p assms(1) by (intro mult_strict_right_mono) (auto simp: validFactor_def)
  then have "?s div df + ?s mod df < ?s"
    using mult_div_mod_eq[of df ?s] by linarith
  finally show ?thesis .
qed

section \<open>The part a hash belongs to\<close>

lemma bottom_tuple:
  assumes df: "validFactor df" and le: "from \<le> to" and dvd: "df dvd sizeOf from to"
    and x: "from \<le> x" "x \<le> to"
  defines "per \<equiv> perRangeOf from to df"
  defines "b \<equiv> (x - from) div per"
  shows "per \<noteq> 0" and "alignOf from to df = 0"
    and "(from + b * per, from - 1 + (b + 1) * per) \<in> set (genTupleRanges from to df)"
    and "inTuple x (from + b * per, from - 1 + (b + 1) * per)"
proof -
  let ?s = "sizeOf from to" and ?q = "sizeOf from to div df" and ?f = "unat from"
  have "0 < ?s"
    by (simp add: sizeOf_def)
  with dvd have size: "df \<le> ?s" "?s = df * ?q"
    by (auto dest: dvd_imp_le)
  have q: "0 < ?q" and uper: "unat per = ?q"
    using size df by (simp_all add: validFactor_def div_greater_zero_iff per_def unat_perRangeOf)
  show "per \<noteq> 0"
    using q uper by auto
  show "alignOf from to df = 0"
    using unat_alignOf[OF df, of "from" to] dvd by (simp add: unat_0_iff mod_eq_0_iff_dvd)
  have ux: "?f \<le> unat x" "unat x - ?f < ?s"
    using x sizeOf_to[OF le] by (simp_all add: word_le_nat_alt)
  define k where "k = (unat x - ?f) div ?q"
  have "unat b = k"
    using ux x(1) by (simp add: b_def k_def unat_div_distrib uper unat_sub)
  then have b: "b = of_nat k"
    by (simp flip: \<open>unat b = k\<close>)
  have k: "k < df"
    using ux(2) size(2) by (metis k_def less_mult_imp_div_less)
  have per: "per = of_nat ?q" and fr: "from = of_nat ?f"
    using uper by (simp_all flip: uper)
  have nth: "natTuples df 0 ?q ?f ! k = (?f + k * ?q, ?f + k * ?q + ?q - 1)"
    using q k by (rule natTuples_nth)
  have word: "wordTuple (natTuples df 0 ?q ?f ! k) = (from + b * per, from - 1 + (b + 1) * per)"
    using q by (simp add: nth wordTuple_def b per of_nat_diff algebra_simps)
  have gen: "genTupleRanges from to df = map wordTuple (natTuples df 0 ?q ?f)"
    using genTupleRanges_nat[OF df size(1)] dvd by (simp add: mod_eq_0_iff_dvd)
  show "(from + b * per, from - 1 + (b + 1) * per) \<in> set (genTupleRanges from to df)"
    unfolding gen word[symmetric] using k by simp
  have "k * ?q \<le> unat x - ?f" "unat x - ?f < k * ?q + ?q"
    using dividend_less_div_times[OF q, of "unat x - ?f"] by (simp_all add: k_def add.commute)
  moreover have "(k + 1) * ?q \<le> ?s"
    using k size(2) by (metis Suc_eq_plus1 Suc_leI mult_le_mono1)
  then have "?f + k * ?q + ?q \<le> 2 ^ 64"
    using sizeOf_to[OF le] unat_lt_64[of to] by simp
  ultimately show "inTuple x (from + b * per, from - 1 + (b + 1) * per)"
    unfolding word[symmetric] nth using ux(1) q by (subst wordTuple_in) auto
qed

section \<open>Properties\<close>

text \<open>
  C22. \<open>genTupleRanges\<close> partitions a range: for a divide factor of at least two and a range with at
  least as many hashes as that, it gives as many non-empty parts as the factor says, in ascending
  order and pairwise disjoint, and a hash lies in one of them exactly when it lies in the range. This
  holds for every range of the 64-bit space, the whole space included, where \<open>to - from + 1\<close> wraps to
  zero, and whether or not the factor divides the size.
\<close>

theorem range_division_partitions:
  assumes "2 \<le> df" and "df < 2 ^ 64" and "from \<le> to" and "df \<le> unat (to - from) + 1"
  shows "length (genTupleRanges from to df) = df
    \<and> (\<forall>t \<in> set (genTupleRanges from to df). fst t \<le> snd t)
    \<and> sorted_wrt (\<lambda>s t. snd s < fst t) (genTupleRanges from to df)
    \<and> (\<forall>x. (\<exists>t \<in> set (genTupleRanges from to df). fst t \<le> x \<and> x \<le> snd t) \<longleftrightarrow> from \<le> x \<and> x \<le> to)"
proof -
  have "validFactor df" "df \<le> sizeOf from to"
    using assms by (simp_all add: validFactor_def sizeOf_def)
  note part = genTupleRanges_partition[OF this(1) assms(3) this(2)]
  show ?thesis
    using part(1,3,4) part(2)[unfolded inTuple_def] by blast
qed

theorem range_division_partitions_witness:
  "length (genTupleRanges 0 (- 1) 10) = 10
   \<and> (\<exists>t \<in> set (genTupleRanges 0 (- 1) 10). fst t \<le> 12345678901234567890 \<and> 12345678901234567890 \<le> snd t)"
  using range_division_partitions[of 10 0 "- 1"] by (simp add: unat_max_64)

lemma getBottomRange_part:
  assumes "validFactor (h_divideFactor h)" and le: "hr_from (deref h r) \<le> x" "x \<le> hr_to (deref h r)"
    and "h_divideFactor h dvd sizeOf (hr_from (deref h r)) (hr_to (deref h r))"
  shows "\<exists>t. getBottomRange h r x = Inr (mget (h_ranges h) t) \<and> inTuple x t
    \<and> t \<in> set (genTupleRanges (hr_from (deref h r)) (hr_to (deref h r)) (h_divideFactor h))"
proof -
  note bot = bottom_tuple[OF assms(1) order_trans[OF le] assms(4) le]
  let ?f = "hr_from (deref h r)" and ?per = "perRangeOf (hr_from (deref h r)) (hr_to (deref h r)) (h_divideFactor h)"
  let ?b = "(x - ?f) div ?per"
  let ?t = "(?f + ?b * ?per, ?f - 1 + (?b + 1) * ?per)"
  have "getBottomRange h r x = Inr (mget (h_ranges h) ?t)"
    using bot(1,2) by (simp add: getBottomRange_def Let_def)
  with bot(3,4) show ?thesis
    by blast
qed


definition sampleRanges :: hashRanges where
  "sampleRanges = \<lparr>h_heap = [(0, \<lparr>hr_from = 0, hr_to = - 1, hr_parent = None, hr_isDivided = True,
       hr_elements = 0, hr_level = 0, hr_hash = []\<rparr>)],
     h_next = 1, h_ranges = [((0, 9223372036854775807), 1), ((9223372036854775808, - 1), 2)],
     h_topRange = 0, h_dirty = [], h_divideFactor = 2, h_compareThreshold = 1\<rparr>"


text \<open>With a factor that does not divide the size, the part of each bucket, and the buckets beyond the last part.\<close>

lemma natTuples_nth_align:
  "0 < p \<Longrightarrow> i < n \<Longrightarrow>
   natTuples n a p j ! i = (j + i * p, j + i * p + p - 1 + (if i = n - 1 then a else 0))"
proof (induction n arbitrary: i j)
  case (Suc n)
  then show ?case
    by (cases i; cases "n = 0") (auto simp: Let_def ac_simps)
qed simp

definition bucketTuple :: "u64 \<Rightarrow> u64 \<Rightarrow> nat \<Rightarrow> u64 \<Rightarrow> rangeTuple" where
  "bucketTuple from to df x =
     (let per = perRangeOf from to df; b = (x - from) div per
      in (from + b * per,
          if b = of_nat df - 1 then from - 1 + (b + 1) * per + alignOf from to df else from - 1 + (b + 1) * per))"

lemma perRangeOf_pos:
  assumes "validFactor df" and "df \<le> sizeOf from to"
  shows "0 < sizeOf from to div df" and "perRangeOf from to df \<noteq> 0"
proof -
  show q: "0 < sizeOf from to div df"
    using assms by (simp add: validFactor_def div_greater_zero_iff)
  then show "perRangeOf from to df \<noteq> 0"
    using unat_perRangeOf[OF assms(1), of "from" to] by (metis less_numeral_extra(3) unat_0)
qed

lemma bucketTuple_nat:
  fixes "from" to x :: u64
  assumes df: "validFactor df" and size: "df \<le> sizeOf from to"
  defines "q \<equiv> sizeOf from to div df" and "k \<equiv> unat (x - from) div (sizeOf from to div df)"
  shows "bucketTuple from to df x = wordTuple (unat from + k * q,
    unat from + k * q + q - 1 + (if k = df - 1 then sizeOf from to mod df else 0))"
proof -
  let ?per = "perRangeOf from to df" and ?s = "sizeOf from to"
  let ?b = "(x - from) div ?per"
  have q: "0 < q" and uper: "unat ?per = q" and d: "2 \<le> df" "df < 2 ^ 64"
    using perRangeOf_pos[OF df size] df by (simp_all add: validFactor_def unat_perRangeOf q_def)
  have ub: "unat ?b = k"
    by (simp add: k_def unat_div_distrib uper flip: q_def)
  then have b: "?b = of_nat k" and k64: "k < 2 ^ 64"
    using unat_lt_64[of ?b] by (simp_all flip: ub)
  have per: "?per = of_nat q" and al: "alignOf from to df = of_nat (?s mod df)"
    by (simp_all flip: uper unat_alignOf[OF df, of "from" to])
  have "of_nat df - 1 = (of_nat (df - 1) :: u64)"
    using d by (simp add: of_nat_diff)
  then have last: "?b = of_nat df - 1 \<longleftrightarrow> k = df - 1"
    using unat_of_nat_64[of "df - 1"] k64 ub d b by auto
  show ?thesis
    using q unfolding bucketTuple_def Let_def last unfolding b
    unfolding per al by (simp add: wordTuple_def of_nat_diff algebra_simps)
qed

text \<open>The bucket of a hash and the nat division behind it.\<close>

lemma bucket_bounds:
  fixes "from" to x :: u64 and q :: nat
  assumes "0 < q" and "from \<le> x" and "x \<le> to"
  defines "k \<equiv> unat (x - from) div q"
  shows "unat from + k * q \<le> unat x" and "unat x < unat from + k * q + q"
proof -
  have "unat (x - from) = unat x - unat from" and le: "unat from \<le> unat x"
    using assms(2) by (simp_all add: word_le_nat_alt unat_sub)
  moreover have "k * q \<le> unat (x - from)" "unat (x - from) < k * q + q"
    using dividend_less_div_times[OF assms(1), of "unat (x - from)"] by (simp_all add: k_def add.commute)
  ultimately show "unat from + k * q \<le> unat x" and "unat x < unat from + k * q + q"
    by linarith+
qed

lemma bucket_part:
  assumes df: "validFactor df" and size: "df \<le> sizeOf from to" and x: "from \<le> x" "x \<le> to"
    and small: "unat (x - from) < df * (sizeOf from to div df)"
  shows "bucketTuple from to df x \<in> set (genTupleRanges from to df)" and "inTuple x (bucketTuple from to df x)"
proof -
  let ?q = "sizeOf from to div df" and ?f = "unat from"
  let ?T = "natTuples df (sizeOf from to mod df) ?q ?f" and ?k = "unat (x - from) div ?q"
  note q = perRangeOf_pos(1)[OF df size]
  have k: "?k < df"
    using small by (simp add: less_mult_imp_div_less)
  note nth = natTuples_nth_align[OF q k, of "sizeOf from to mod df" ?f]
  have t: "bucketTuple from to df x = wordTuple (?T ! ?k)"
    unfolding nth by (rule bucketTuple_nat[OF df size])
  have mem: "?T ! ?k \<in> set ?T"
    using k by simp
  then show "bucketTuple from to df x \<in> set (genTupleRanges from to df)"
    unfolding t genTupleRanges_nat[OF df size] by simp
  have "?f + df * ?q + sizeOf from to mod df = unat to + 1"
    using sizeOf_to[OF order_trans[OF x]] by simp
  then have "snd (?T ! ?k) < 2 ^ 64" "fst (?T ! ?k) < 2 ^ 64"
    using natTuples_bounds[OF q mem] unat_lt_64[of to] by linarith+
  moreover have "fst (?T ! ?k) \<le> unat x \<and> unat x \<le> snd (?T ! ?k)"
    unfolding nth using bucket_bounds[OF q x] by auto
  ultimately show "inTuple x (bucketTuple from to df x)"
    unfolding t by (subst wordTuple_in)
qed

lemma bucket_miss:
  assumes df: "validFactor df" and size: "df \<le> sizeOf from to" and x: "from \<le> x" "x \<le> to"
    and big: "df * (sizeOf from to div df) \<le> unat (x - from)"
  shows "bucketTuple from to df x \<notin> set (genTupleRanges from to df)"
proof
  let ?q = "sizeOf from to div df" and ?f = "unat from"
  let ?T = "natTuples df (sizeOf from to mod df) ?q ?f" and ?k = "unat (x - from) div ?q"
  note q = perRangeOf_pos(1)[OF df size]
  assume "bucketTuple from to df x \<in> set (genTupleRanges from to df)"
  then obtain u where u: "u \<in> set ?T" "bucketTuple from to df x = wordTuple u"
    unfolding genTupleRanges_nat[OF df size] by auto
  from u(1) obtain i where i: "i < df" "u = ?T ! i"
    by (auto simp: in_set_conv_nth)
  have "df \<le> ?k"
    using big q by (simp add: less_eq_div_iff_mult_less_eq)
  then have less: "i * ?q < ?k * ?q"
    using i(1) q by simp
  have "?f + ?k * ?q < 2 ^ 64"
    using bucket_bounds(1)[OF q x] unat_lt_64[of x] by linarith
  with less have "?f + i * ?q < 2 ^ 64" "?f + ?k * ?q < 2 ^ 64"
    by linarith+
  moreover have "fst (bucketTuple from to df x) = of_nat (?f + ?k * ?q)" "fst (wordTuple u) = of_nat (?f + i * ?q)"
    by (simp_all only: bucketTuple_nat[OF df size] wordTuple_def fst_conv i(2) natTuples_nth_align[OF q i(1)])
  ultimately have "?f + ?k * ?q = ?f + i * ?q"
    using u(2) unat_of_nat_64[of "?f + ?k * ?q"] unat_of_nat_64[of "?f + i * ?q"] by metis
  with less show False
    by simp
qed

text \<open>
  C24. Which hashes are sent to a part, for every factor: of a range with \<open>s\<close> hashes that is divided by
  \<open>df\<close>, \<open>getBottomRange\<close> looks up the bounds of the part that contains the hash for the first
  \<open>df * (s div df)\<close> hashes of the range, and for each of the remaining \<open>s mod df\<close> hashes the bounds of
  something that is not a part. So exactly when the factor does not divide the size there are hashes
  whose lookup misses: for them \<open>addElement\<close> dereferences nil, although the factor is one that \<open>New\<close>
  allows.
\<close>

theorem bottom_range_misses:
  assumes "2 \<le> h_divideFactor h" and "h_divideFactor h < 2 ^ 64"
    and "hr_from (deref h r) \<le> x" and "x \<le> hr_to (deref h r)"
    and "h_divideFactor h \<le> unat (hr_to (deref h r) - hr_from (deref h r)) + 1"
  shows "\<exists>t. getBottomRange h r x = Inr (mget (h_ranges h) t)
    \<and> (if unat (x - hr_from (deref h r))
            < h_divideFactor h * ((unat (hr_to (deref h r) - hr_from (deref h r)) + 1) div h_divideFactor h)
       then t \<in> set (genTupleRanges (hr_from (deref h r)) (hr_to (deref h r)) (h_divideFactor h))
         \<and> fst t \<le> x \<and> x \<le> snd t
       else t \<notin> set (genTupleRanges (hr_from (deref h r)) (hr_to (deref h r)) (h_divideFactor h)))"
proof -
  let ?f = "hr_from (deref h r)" and ?to = "hr_to (deref h r)" and ?df = "h_divideFactor h"
  have df: "validFactor ?df" and size: "?df \<le> sizeOf ?f ?to"
    using assms by (simp_all add: validFactor_def sizeOf_def)
  have "getBottomRange h r x = Inr (mget (h_ranges h) (bucketTuple ?f ?to ?df x))"
    using perRangeOf_pos(2)[OF df size] by (simp add: getBottomRange_def bucketTuple_def Let_def)
  with bucket_part[OF df size assms(3,4)] bucket_miss[OF df size assms(3,4)] show ?thesis
    by (intro exI[of _ "bucketTuple ?f ?to ?df x"]) (auto simp: sizeOf_def inTuple_def not_less)
qed

definition fiveHashes :: hashRanges where
  "fiveHashes = sampleRanges\<lparr>h_heap := [(0, (deref sampleRanges 0)\<lparr>hr_to := 4\<rparr>)],
     h_ranges := [((0, 1), 1), ((2, 4), 2)]\<rparr>"

theorem bottom_range_misses_witness:
  "(\<exists>t. getBottomRange fiveHashes 0 3 = Inr (mget (h_ranges fiveHashes) t) \<and> t \<in> {(0, 1), (2, 4)} \<and> fst t \<le> 3 \<and> 3 \<le> snd t)
   \<and> (\<exists>t. getBottomRange fiveHashes 0 4 = Inr (mget (h_ranges fiveHashes) t) \<and> t \<notin> {(0, 1), (2, 4)})
   \<and> descend 1 4 0 fiveHashes = pthrow LdPanicNilDereference"
proof (intro conjI)
  have five: "hr_from (deref fiveHashes 0) = 0" "hr_to (deref fiveHashes 0) = 4" "h_divideFactor fiveHashes = 2"
    "set (genTupleRanges 0 4 2) = {(0, 1), (2, 4)}" "unat (4 :: u64) = 4" "unat (3 :: u64) = 3"
    by code_simp+
  show "\<exists>t. getBottomRange fiveHashes 0 3 = Inr (mget (h_ranges fiveHashes) t) \<and> t \<in> {(0, 1), (2, 4)} \<and> fst t \<le> 3 \<and> 3 \<le> snd t"
    using bottom_range_misses[of fiveHashes 0 3] by (simp add: five)
  show "\<exists>t. getBottomRange fiveHashes 0 4 = Inr (mget (h_ranges fiveHashes) t) \<and> t \<notin> {(0, 1), (2, 4)}"
    using bottom_range_misses[of fiveHashes 0 4] by (simp add: five)
  show "descend 1 4 0 fiveHashes = pthrow LdPanicNilDereference"
    by code_simp
qed

end
