(* ===== verification/LdiffProtocol.thy ===== *)
theory LdiffProtocol
  imports Ldiff RangeDivision
begin

text \<open>
  The protocol that compares two containers. What the client needs of a provider of ranges is the
  locale \<open>range_provider\<close>; the client's loop is analysed once against it: which ids it reports, and
  that it ends.
\<close>

section \<open>Contents\<close>

text \<open>The head of an id in a set of elements, and the elements of a range.\<close>

definition headOf :: "Element list \<Rightarrow> string \<Rightarrow> string option" where
  "headOf els i = map_option e_Head (find (\<lambda>e. e_Id e = i) els)"

definition inRange :: "Range \<Rightarrow> u64 \<Rightarrow> bool" where
  "inRange r x \<longleftrightarrow> rg_From r \<le> x \<and> x \<le> rg_To r"

definition isFull :: "RangeResult \<Rightarrow> bool" where
  "isFull rr \<longleftrightarrow> int (length (rr_Elements rr)) = rr_Count rr"

text \<open>The elements \<open>xs\<close> are exactly those of the content that lie in the range.\<close>

definition exactOn :: "(string \<Rightarrow> u64) \<Rightarrow> (string \<Rightarrow> string option) \<Rightarrow> Range \<Rightarrow> Element list \<Rightarrow> bool" where
  "exactOn hashId content r xs \<longleftrightarrow> distinct (map e_Id xs)
     \<and> (\<forall>i. headOf xs i = (if inRange r (hashId i) then content i else None))"

lemma headOf_Nil [simp]: "headOf [] i = None"
  by (simp add: headOf_def)

lemma headOf_Cons [simp]: "headOf (e # els) i = (if e_Id e = i then Some (e_Head e) else headOf els i)"
  by (simp add: headOf_def)

lemma headOf_None: "headOf els i = None \<longleftrightarrow> i \<notin> e_Id ` set els"
  by (induction els) auto

lemma headOf_Some:
  "distinct (map e_Id els) \<Longrightarrow> headOf els i = Some h \<longleftrightarrow> (\<exists>e \<in> set els. e_Id e = i \<and> e_Head e = h)"
  by (induction els) (auto simp: image_iff)

lemma headOf_mem: "distinct (map e_Id els) \<Longrightarrow> e \<in> set els \<Longrightarrow> headOf els (e_Id e) = Some (e_Head e)"
  by (auto simp: headOf_Some)

lemma toMap_headOf:
  assumes "distinct (map e_Id els)"
  shows "mget (toMap els) i = headOf els i"
proof -
  have "mget (fold (\<lambda>el. mput (e_Id el) (e_Head el)) els m) i
      = (case headOf els i of None \<Rightarrow> mget m i | Some h \<Rightarrow> Some h)" for m
    using assms by (induction els arbitrary: m) (auto simp flip: headOf_None split: option.split)
  then show ?thesis
    by (simp add: toMap_def split: option.split)
qed

section \<open>What the comparison of elements reports\<close>

datatype verdict = VNew | VChanged | VTheirs | VRemoved

definition reported :: "diffCtx \<Rightarrow> verdict \<Rightarrow> string set" where
  "reported dctx v = (case v of VNew \<Rightarrow> set (newIds dctx) | VChanged \<Rightarrow> set (changedIds dctx)
     | VTheirs \<Rightarrow> set (theirChangedIds dctx) | VRemoved \<Rightarrow> set (removedIds dctx))"

text \<open>The verdict on an id, from its head here and its head there, for each of the two comparisons.\<close>

fun equalVerdict :: "verdict \<Rightarrow> string option \<Rightarrow> string option \<Rightarrow> bool" where
  "equalVerdict VNew None (Some _) = True"
| "equalVerdict VChanged (Some h) (Some h') = (h \<noteq> h')"
| "equalVerdict VRemoved (Some _) None = True"
| "equalVerdict _ _ _ = False"

fun greaterVerdict :: "verdict \<Rightarrow> string option \<Rightarrow> string option \<Rightarrow> bool" where
  "greaterVerdict VNew None (Some _) = True"
| "greaterVerdict VChanged (Some h) (Some h') = (h' < h)"
| "greaterVerdict VTheirs (Some h) (Some h') = (h < h')"
| "greaterVerdict VRemoved (Some _) None = True"
| "greaterVerdict _ _ _ = False"

text \<open>A comparison function reports the verdicts on the elements it is given, and sends nothing.\<close>

definition compares :: "compareFunc \<Rightarrow> (verdict \<Rightarrow> string option \<Rightarrow> string option \<Rightarrow> bool) \<Rightarrow> bool" where
  "compares cmp verdict \<longleftrightarrow>
     (\<forall>dctx my other. distinct (map e_Id my) \<longrightarrow> distinct (map e_Id other) \<longrightarrow>
        toSend (cmp dctx my other) = toSend dctx \<and> prepare (cmp dctx my other) = prepare dctx
        \<and> (\<forall>v. reported (cmp dctx my other) v
             = reported dctx v \<union> {i. verdict v (headOf my i) (headOf other i)}))
     \<and> (\<forall>v x y. verdict v x y \<longrightarrow> x \<noteq> y) \<and> (\<forall>v x. verdict v x None \<longrightarrow> v = VRemoved)"

lemma compares_self: "compares cmp verdict \<Longrightarrow> \<not> verdict v x x"
  unfolding compares_def by blast

lemma compares_None: "compares cmp verdict \<Longrightarrow> verdict v x None \<Longrightarrow> v = VRemoved"
  unfolding compares_def by blast

lemma compares_reported:
  "compares cmp verdict \<Longrightarrow> distinct (map e_Id my) \<Longrightarrow> distinct (map e_Id other) \<Longrightarrow>
   toSend (cmp dctx my other) = toSend dctx \<and> prepare (cmp dctx my other) = prepare dctx
   \<and> reported (cmp dctx my other) v = reported dctx v \<union> {i. verdict v (headOf my i) (headOf other i)}"
  unfolding compares_def by blast

lemma ids_where:
  "distinct (map e_Id els) \<Longrightarrow>
   e_Id ` {e \<in> set els. Q (e_Id e) (e_Head e)} = {i. \<exists>h. headOf els i = Some h \<and> Q i h}"
  by (auto simp: headOf_Some)

lemma equalVerdict_iff:
  "equalVerdict v x y \<longleftrightarrow> (case v of VNew \<Rightarrow> x = None \<and> y \<noteq> None | VChanged \<Rightarrow> x \<noteq> None \<and> y \<noteq> None \<and> x \<noteq> y
     | VTheirs \<Rightarrow> False | VRemoved \<Rightarrow> x \<noteq> None \<and> y = None)"
  by (cases v; cases x; cases y) auto

lemma greaterVerdict_iff:
  "greaterVerdict v x y \<longleftrightarrow> (case v of VNew \<Rightarrow> x = None \<and> y \<noteq> None
     | VChanged \<Rightarrow> \<exists>h h'. x = Some h \<and> y = Some h' \<and> h' < h
     | VTheirs \<Rightarrow> \<exists>h h'. x = Some h \<and> y = Some h' \<and> h < h' | VRemoved \<Rightarrow> x \<noteq> None \<and> y = None)"
  by (cases v; cases x; cases y) auto

lemma compares_equal: "compares compareElementsEqual equalVerdict"
  unfolding compares_def
proof (intro conjI allI impI)
  fix dctx v and my other :: "Element list"
  assume d: "distinct (map e_Id my)" "distinct (map e_Id other)"
  show "reported (compareElementsEqual dctx my other) v
      = reported dctx v \<union> {i. equalVerdict v (headOf my i) (headOf other i)}"
    using ids_where[OF d(2), of "\<lambda>i h. headOf my i = None"]
      ids_where[OF d(1), of "\<lambda>i h. headOf other i \<noteq> None \<and> headOf other i \<noteq> Some h"]
      ids_where[OF d(1), of "\<lambda>i h. headOf other i = None"]
    by (cases v) (auto simp: reported_def compareElementsEqual_def Let_def toMap_headOf d equalVerdict_iff)
qed (auto simp: compareElementsEqual_def Let_def equalVerdict_iff split: verdict.splits)

lemma findGreater_iff:
  "fst (findGreater els e) \<longleftrightarrow> headOf els (e_Id e) \<noteq> None"
  "findGreater els e = (True, False, True) \<longleftrightarrow> (\<exists>h. headOf els (e_Id e) = Some h \<and> e_Head e < h)"
  "findGreater els e = (True, False, False) \<longleftrightarrow> (\<exists>h. headOf els (e_Id e) = Some h \<and> h < e_Head e)"
  by (auto simp: findGreater_def headOf_def split: option.split)

lemma compares_greater: "compares compareElementsGreater greaterVerdict"
  unfolding compares_def
proof (intro conjI allI impI)
  fix dctx v and my other :: "Element list"
  assume d: "distinct (map e_Id my)" "distinct (map e_Id other)"
  show "reported (compareElementsGreater dctx my other) v
      = reported dctx v \<union> {i. greaterVerdict v (headOf my i) (headOf other i)}"
    using ids_where[OF d(2), of "\<lambda>i h. headOf my i = None"]
      ids_where[OF d(1), of "\<lambda>i h. \<exists>h'. headOf other i = Some h' \<and> h' < h"]
      ids_where[OF d(1), of "\<lambda>i h. \<exists>h'. headOf other i = Some h' \<and> h < h'"]
      ids_where[OF d(1), of "\<lambda>i h. headOf other i = None"]
    by (cases v) (auto simp: reported_def compareElementsGreater_def findGreater_iff greaterVerdict_iff)
qed (auto simp: compareElementsGreater_def greaterVerdict_iff split: verdict.splits)

section \<open>The contract of a provider of ranges\<close>

definition answersExactly ::
    "(string \<Rightarrow> u64) \<Rightarrow> (string \<Rightarrow> string option) \<Rightarrow> (Range \<Rightarrow> RangeResult) \<Rightarrow> bool" where
  "answersExactly hashId content f \<longleftrightarrow>
     (\<forall>r. isFull (f r) \<longrightarrow> exactOn hashId content r (rr_Elements (f r)))
     \<and> (\<forall>r. rg_Elements r \<longrightarrow> isFull (f r))"

definition childReq :: "rangeTuple \<Rightarrow> Range" where
  "childReq t = \<lparr>rg_From = fst t, rg_To = snd t, rg_Elements = False, rg_Limit = 0\<rparr>"

abbreviation topReq :: Range where
  "topReq \<equiv> childReq (0, - 1)"

definition emptyOn :: "(string \<Rightarrow> u64) \<Rightarrow> (string \<Rightarrow> string option) \<Rightarrow> Range \<Rightarrow> bool" where
  "emptyOn hashId content r \<longleftrightarrow> (\<forall>i. inRange r (hashId i) \<longrightarrow> content i = None)"

text \<open>
  A provider answers a request with all elements of the range or with a summary. It gives the
  elements when asked for them. A summary with more elements than the threshold means that the range
  is divided: it can be divided, and the hash of a part of it is nil only if the part is empty.
\<close>

locale range_provider =
  fixes hashId :: "string \<Rightarrow> u64"
    and df :: nat
    and th :: int
    and answer :: "'st \<Rightarrow> Range \<Rightarrow> RangeResult"
    and content :: "'st \<Rightarrow> string \<Rightarrow> string option"
    and inv :: "'st \<Rightarrow> bool"
  assumes factor: "inv s \<Longrightarrow> validFactor df"
    and exact: "inv s \<Longrightarrow> answersExactly hashId (content s) (answer s)"
    and summary_empty: "inv s \<Longrightarrow> \<not> isFull (answer s r) \<Longrightarrow> rr_Elements (answer s r) = []"
    and hash_flag: "inv s \<Longrightarrow> rr_Hash (answer s (r\<lparr>rg_Elements := True\<rparr>)) = rr_Hash (answer s r)"
    and top_hash: "inv s \<Longrightarrow> rr_Hash (answer s topReq) \<noteq> []"
    and divided_size: "inv s \<Longrightarrow> \<not> isFull (answer s r) \<Longrightarrow> th < rr_Count (answer s r) \<Longrightarrow>
      rg_From r \<le> rg_To r \<and> df \<le> sizeOf (rg_From r) (rg_To r)"
    and child_hash: "inv s \<Longrightarrow> \<not> isFull (answer s r) \<Longrightarrow> th < rr_Count (answer s r) \<Longrightarrow>
      t \<in> set (genTupleRanges (rg_From r) (rg_To r) df) \<Longrightarrow> rr_Hash (answer s (childReq t)) = [] \<Longrightarrow>
      emptyOn hashId (content s) (childReq t)"
begin

definition good :: "'st \<Rightarrow> Range \<Rightarrow> bool" where
  "good s r \<longleftrightarrow> (rr_Hash (answer s r) = [] \<longrightarrow> emptyOn hashId (content s) r)"

text \<open>The ids of a range that deserve a verdict.\<close>

definition wanted ::
    "(verdict \<Rightarrow> string option \<Rightarrow> string option \<Rightarrow> bool) \<Rightarrow> (string \<Rightarrow> string option) \<Rightarrow> 'st \<Rightarrow> verdict
      \<Rightarrow> Range \<Rightarrow> string set" where
  "wanted verdict mine s v r = {i. inRange r (hashId i) \<and> verdict v (mine i) (content s i)}"

definition weight :: "Range \<Rightarrow> nat" where
  "weight r = (if rg_Elements r then 0 else sizeOf (rg_From r) (rg_To r))"

text \<open>The client: its comparison, its own answers, and no collision between hashes that are not nil.\<close>

definition client ::
    "'b ldiffEnv \<Rightarrow> compareFunc \<Rightarrow> (verdict \<Rightarrow> string option \<Rightarrow> string option \<Rightarrow> bool)
      \<Rightarrow> (string \<Rightarrow> string option) \<Rightarrow> 'b diff \<Rightarrow> 'st \<Rightarrow> bool" where
  "client E cmp verdict mine d s \<longleftrightarrow> inv s \<and> compares cmp verdict
     \<and> answersExactly hashId mine (getRange E d)
     \<and> d_divideFactor d = df \<and> d_compareThreshold d = th
     \<and> (\<forall>r. rr_Hash (getRange E d r) = rr_Hash (answer s r) \<longrightarrow> rr_Hash (answer s r) \<noteq> [] \<longrightarrow>
          (\<forall>i. inRange r (hashId i) \<longrightarrow> mine i = content s i))"

lemma full_compare:
  assumes "client E cmp verdict mine d s"
    and "exactOn hashId mine r my" and "exactOn hashId (content s) r other"
  shows "reported (cmp dctx my other) v = reported dctx v \<union> wanted verdict mine s v r
    \<and> toSend (cmp dctx my other) = toSend dctx \<and> prepare (cmp dctx my other) = prepare dctx"
proof -
  have c: "compares cmp verdict"
    using assms(1) by (simp add: client_def)
  have "{i. verdict v (headOf my i) (headOf other i)} = wanted verdict mine s v r"
    using assms(2,3) compares_self[OF c] by (auto simp: wanted_def exactOn_def)
  with assms(2,3) compares_reported[OF c] show ?thesis
    by (simp add: exactOn_def)
qed

lemma wanted_split:
  assumes inv: "inv s" and "\<not> isFull (answer s r)" "th < rr_Count (answer s r)"
  shows "wanted verdict mine s v r = (\<Union>t \<in> set (genTupleRanges (rg_From r) (rg_To r) df). wanted verdict mine s v (childReq t))"
proof -
  note size = divided_size[OF assms]
  note part = genTupleRanges_partition(2)[OF factor[OF inv], of "rg_From r" "rg_To r"]
  show ?thesis
    using part size unfolding wanted_def inRange_def inTuple_def childReq_def by auto
qed

lemma child_weight:
  assumes inv: "inv s" and "\<not> isFull (answer s r)" "th < rr_Count (answer s r)"
    and t: "t \<in> set (genTupleRanges (rg_From r) (rg_To r) df)" and "\<not> rg_Elements r"
  shows "weight (childReq t) < weight r"
  using genTupleRanges_smaller[OF factor[OF inv] _ _ t] divided_size[OF assms(1-3)] assms(5)
  by (simp add: weight_def childReq_def)

text \<open>The four ways a comparison of results can go.\<close>

lemma compareResults_cases:
  assumes cl: "client E cmp verdict mine d s"
    and run: "dctx' = compareResults E cmp d r (getRange E d r) (answer s r) dctx"
  obtains (eq) "rr_Hash (getRange E d r) = rr_Hash (answer s r)" "dctx' = dctx"
    | (full) xs where "dctx' = cmp dctx xs (rr_Elements (answer s r))" "exactOn hashId mine r xs"
        "exactOn hashId (content s) r (rr_Elements (answer s r))"
    | (ask) "dctx' = dctx\<lparr>prepare := prepare dctx @ [r\<lparr>rg_Elements := True\<rparr>]\<rparr>" "\<not> rg_Elements r"
    | (divide) "dctx' = dctx\<lparr>prepare := prepare dctx @ map childReq (genTupleRanges (rg_From r) (rg_To r) df)\<rparr>"
        "\<not> isFull (answer s r)" "th < rr_Count (answer s r)" "\<not> rg_Elements r"
proof (cases "rr_Hash (getRange E d r) = rr_Hash (answer s r)")
  case True
  then show thesis
    by (rule eq) (simp add: run compareResults_def True)
next
  case ne: False
  let ?m = "getRange E d r" and ?o = "answer s r" and ?e = "r\<lparr>rg_Elements := True\<rparr>"
  have inv: "inv s" and mine: "answersExactly hashId mine (getRange E d)"
    and d: "d_divideFactor d = df" "d_compareThreshold d = th"
    using cl by (simp_all add: client_def)
  note other = exact[OF inv]
  show thesis
  proof (cases "isFull ?o")
    case True
    then have o: "exactOn hashId (content s) r (rr_Elements ?o)"
      using other by (simp add: answersExactly_def)
    have "exactOn hashId mine ?e (rr_Elements (getRange E d ?e))"
      using mine by (simp add: answersExactly_def)
    then have e: "exactOn hashId mine r (rr_Elements (getRange E d ?e))"
      by (simp add: exactOn_def inRange_def)
    show thesis
      using full[OF _ _ o, of "if isFull ?m then rr_Elements ?m else rr_Elements (getRange E d ?e)"] ne True e mine
      by (simp add: run compareResults_def isFull_def answersExactly_def)
  next
    case o: False
    then have nel: "\<not> rg_Elements r"
      using other by (auto simp: answersExactly_def)
    show thesis
    proof (cases "rr_Count ?o \<le> th \<or> isFull ?m")
      case True
      with ne o summary_empty[OF inv o] show thesis
        by (intro ask[OF _ nel]) (simp add: run compareResults_def isFull_def d)
    next
      case False
      with ne o summary_empty[OF inv o] show thesis
        by (intro divide[OF _ o _ nel]) (simp_all add: run compareResults_def isFull_def d childReq_def)
    qed
  qed
qed

text \<open>Equal hashes hide nothing but removed ids.\<close>

lemma equal_hash_wanted:
  assumes cl: "client E cmp verdict mine d s" and g: "good s r"
    and eq: "rr_Hash (getRange E d r) = rr_Hash (answer s r)" and v: "v \<noteq> VRemoved"
  shows "wanted verdict mine s v r = {}"
proof -
  have cmp: "compares cmp verdict"
    using cl by (simp add: client_def)
  have "\<not> verdict v (mine i) (content s i)" if i: "inRange r (hashId i)" for i
  proof (cases "rr_Hash (answer s r) = []")
    case True
    with g i have "content s i = None"
      by (simp add: good_def emptyOn_def)
    with compares_None[OF cmp] v show ?thesis
      by auto
  next
    case False
    with cl eq i have "mine i = content s i"
      unfolding client_def by blast
    with compares_self[OF cmp] show ?thesis
      by simp
  qed
  then show ?thesis
    by (auto simp: wanted_def)
qed

text \<open>
  \<open>accounts dctx rs dctx' qs\<close>: what \<open>dctx'\<close> reports together with what the requests \<open>qs\<close> will find
  is what \<open>dctx\<close> reports together with what the requests \<open>rs\<close> have to find; for removed ids it is
  at most that.
\<close>

definition wantedIn where
  "wantedIn verdict mine s v rs = (\<Union>r \<in> set rs. wanted verdict mine s v r)"

definition accounts where
  "accounts verdict mine s dctx rs dctx' qs \<longleftrightarrow>
     (\<forall>v. reported dctx' v \<union> wantedIn verdict mine s v qs \<subseteq> reported dctx v \<union> wantedIn verdict mine s v rs)
     \<and> (\<forall>v. v \<noteq> VRemoved \<longrightarrow>
          reported dctx v \<union> wantedIn verdict mine s v rs \<subseteq> reported dctx' v \<union> wantedIn verdict mine s v qs)"

lemma wantedIn_simps [simp]:
  "wantedIn verdict mine s v [] = {}"
  "wantedIn verdict mine s v (r # rs) = wanted verdict mine s v r \<union> wantedIn verdict mine s v rs"
  "wantedIn verdict mine s v (rs @ qs) = wantedIn verdict mine s v rs \<union> wantedIn verdict mine s v qs"
  by (auto simp: wantedIn_def)

lemma accounts_trans:
  assumes "accounts verdict mine s dctx rs dctx1 qs" and "\<And>v. reported dctx1 v = reported dctx2 v"
    and "accounts verdict mine s dctx2 qs dctx' qs'"
  shows "accounts verdict mine s dctx rs dctx' qs'"
  unfolding accounts_def
proof (intro conjI allI impI)
  fix v
  show "reported dctx' v \<union> wantedIn verdict mine s v qs' \<subseteq> reported dctx v \<union> wantedIn verdict mine s v rs"
    using assms(1,3)[unfolded accounts_def, THEN conjunct1, THEN spec, of v] assms(2)[of v] by auto
  assume "v \<noteq> VRemoved"
  then show "reported dctx v \<union> wantedIn verdict mine s v rs \<subseteq> reported dctx' v \<union> wantedIn verdict mine s v qs'"
    using assms(1,3)[unfolded accounts_def, THEN conjunct2, THEN spec, of v] assms(2)[of v] by auto
qed

lemma accountsI:
  assumes "\<And>v. reported dctx' v = reported dctx v \<union> A v"
    and "\<And>v. A v \<union> wantedIn verdict mine s v qs = wanted verdict mine s v r"
  shows "accounts verdict mine s dctx [r] dctx' qs"
  unfolding accounts_def assms(1) using assms(2) by auto

lemma reported_prepare [simp]: "reported (dctx\<lparr>prepare := p\<rparr>) v = reported dctx v"
  by (cases v) (simp_all add: reported_def)

lemma compareResults_step:
  assumes cl: "client E cmp verdict mine d s" and g: "good s r"
    and run: "dctx' = compareResults E cmp d r (getRange E d r) (answer s r) dctx"
  shows "\<exists>qs. prepare dctx' = prepare dctx @ qs \<and> toSend dctx' = toSend dctx
    \<and> (\<forall>q \<in> set qs. good s q \<and> weight q < weight r) \<and> accounts verdict mine s dctx [r] dctx' qs"
proof -
  have inv: "inv s"
    using cl by (simp add: client_def)
  from cl run show ?thesis
  proof (cases rule: compareResults_cases)
    case eq
    with equal_hash_wanted[OF cl g] have "accounts verdict mine s dctx [r] dctx' []"
      by (auto simp: accounts_def)
    with eq show ?thesis
      by (intro exI[of _ "[]"]) simp
  next
    case (full xs)
    note c = full_compare[OF cl full(2,3), of dctx]
    then have "accounts verdict mine s dctx [r] dctx' []"
      by (intro accountsI[of _ _ "\<lambda>v. wanted verdict mine s v r"]) (simp_all add: full(1))
    with c full(1) show ?thesis
      by (intro exI[of _ "[]"]) simp
  next
    case ask
    let ?e = "r\<lparr>rg_Elements := True\<rparr>"
    have "good s ?e"
      using g by (simp add: good_def hash_flag[OF inv] emptyOn_def inRange_def)
    moreover have "weight ?e < weight r"
      using ask(2) by (simp add: weight_def sizeOf_def)
    moreover have "accounts verdict mine s dctx [r] dctx' [?e]"
      by (rule accountsI[of _ _ "\<lambda>_. {}"]) (simp_all add: ask(1) wanted_def inRange_def)
    ultimately show ?thesis
      using ask(1) by (intro exI[of _ "[?e]"]) simp
  next
    case divide
    let ?qs = "map childReq (genTupleRanges (rg_From r) (rg_To r) df)"
    have "good s q \<and> weight q < weight r" if "q \<in> set ?qs" for q
      using that child_hash[OF inv divide(2,3)] child_weight[OF inv divide(2,3) _ divide(4)]
      by (auto simp: good_def)
    moreover have "accounts verdict mine s dctx [r] dctx' ?qs"
      using wanted_split[OF inv divide(2,3)]
      by (intro accountsI[of _ _ "\<lambda>_. {}"]) (simp_all add: divide(1) wantedIn_def)
    ultimately show ?thesis
      using divide(1) by (intro exI[of _ ?qs]) simp
  qed
qed

lemma accounts_append:
  assumes "accounts verdict mine s dctx [r] dctx1 qs" and "accounts verdict mine s dctx1 rs dctx' qs'"
  shows "accounts verdict mine s dctx (r # rs) dctx' (qs @ qs')"
  unfolding accounts_def
proof (intro conjI allI impI)
  fix v
  show "reported dctx' v \<union> wantedIn verdict mine s v (qs @ qs')
      \<subseteq> reported dctx v \<union> wantedIn verdict mine s v (r # rs)"
    using assms[unfolded accounts_def, THEN conjunct1, THEN spec, of v] by auto
  assume "v \<noteq> VRemoved"
  then show "reported dctx v \<union> wantedIn verdict mine s v (r # rs)
      \<subseteq> reported dctx' v \<union> wantedIn verdict mine s v (qs @ qs')"
    using assms[unfolded accounts_def, THEN conjunct2, THEN spec, of v] by auto
qed

lemma compareAll_step:
  assumes cl: "client E cmp verdict mine d s"
  shows "(\<And>r. r \<in> set rs \<Longrightarrow> good s r) \<Longrightarrow>
    dctx' = compareAll E cmp d rs (map (getRange E d) rs) (map (answer s) rs) dctx \<Longrightarrow>
    \<exists>qs. prepare dctx' = prepare dctx @ qs
    \<and> (\<forall>q \<in> set qs. good s q \<and> (\<exists>r \<in> set rs. weight q < weight r)) \<and> accounts verdict mine s dctx rs dctx' qs"
proof (induction rs arbitrary: dctx)
  case Nil
  then show ?case
    by (intro exI[of _ "[]"]) (simp add: accounts_def)
next
  case (Cons r rs)
  define dctx1 where "dctx1 = compareResults E cmp d r (getRange E d r) (answer s r) dctx"
  obtain qs where qs: "prepare dctx1 = prepare dctx @ qs" "\<forall>q \<in> set qs. good s q \<and> weight q < weight r"
    "accounts verdict mine s dctx [r] dctx1 qs"
    using compareResults_step[OF cl Cons.prems(1) dctx1_def] by auto
  obtain qs' where qs': "prepare dctx' = prepare dctx1 @ qs'"
    "\<forall>q \<in> set qs'. good s q \<and> (\<exists>r \<in> set rs. weight q < weight r)" "accounts verdict mine s dctx1 rs dctx' qs'"
    using Cons.IH[of dctx1] Cons.prems by (auto simp: dctx1_def)
  from accounts_append[OF qs(3) qs'(3)] qs qs' show ?case
    by (intro exI[of _ "qs @ qs'"]) auto
qed

text \<open>The loop ends, with a result that accounts for all requests it started with.\<close>

lemma diffLoop_result:
  assumes cl: "client E cmp verdict mine d s"
  shows "(\<And>r. r \<in> set (toSend dctx) \<Longrightarrow> good s r \<and> weight r < b) \<Longrightarrow> prepare dctx = [] \<Longrightarrow>
    \<exists>dctx'. diffLoop E cmp (\<lambda>rs. Inr (map (answer s) rs)) (\<lambda>_. None) n d dctx = pret dctx'
      \<and> accounts verdict mine s dctx (toSend dctx) dctx' []"
proof (induction b arbitrary: dctx n)
  case 0
  then have "toSend dctx = []"
    by (cases "toSend dctx") auto
  then show ?case
    by (subst diffLoop.simps) (simp add: accounts_def)
next
  case (Suc b)
  let ?rs = "toSend dctx"
  define d1 where "d1 = compareAll E cmp d ?rs (map (getRange E d) ?rs) (map (answer s) ?rs) dctx"
  define d2 where "d2 = d1\<lparr>toSend := prepare d1, prepare := []\<rparr>"
  obtain qs where qs: "prepare d1 = qs" "\<forall>q \<in> set qs. good s q \<and> (\<exists>r \<in> set ?rs. weight q < weight r)"
    "accounts verdict mine s dctx ?rs d1 qs"
    using compareAll_step[OF cl _ d1_def] Suc.prems by auto
  have same: "reported d2 v = reported d1 v" for v
    by (cases v) (simp_all add: d2_def reported_def)
  have "weight q < b" if "q \<in> set qs" for q
    using qs(2) Suc.prems(1) that by fastforce
  with qs have "good s r \<and> weight r < b" if "r \<in> set (toSend d2)" for r
    using that by (simp add: d2_def)
  from Suc.IH[of d2 "n + 1", OF this] obtain d3 where
    d3: "diffLoop E cmp (\<lambda>rs. Inr (map (answer s) rs)) (\<lambda>_. None) (n + 1) d d2 = pret d3"
      "accounts verdict mine s d2 qs d3 []"
    by (auto simp: d2_def qs(1))
  have "diffRound E cmp (\<lambda>rs. Inr (map (answer s) rs)) d dctx = Inr d2"
    by (simp add: diffRound_def Ranges_def Let_def d2_def d1_def)
  then have "diffLoop E cmp (\<lambda>rs. Inr (map (answer s) rs)) (\<lambda>_. None) n d dctx
      = (if ?rs = [] then pret dctx else pret d3)"
    using d3(1) by (subst diffLoop.simps) simp
  moreover have "accounts verdict mine s dctx ?rs d3 []"
    using qs(3) same[symmetric] d3(2) by (rule accounts_trans)
  moreover have "accounts verdict mine s dctx ?rs dctx []" if "?rs = []"
    using that by (simp add: accounts_def)
  ultimately show ?case
    by auto
qed

lemma diff_result:
  assumes cl: "client E cmp verdict mine d s"
  shows "\<exists>dctx'. diffLoop E cmp (\<lambda>rs. Inr (map (answer s) rs)) (\<lambda>_. None) 0 d startCtx = pret dctx'
    \<and> (\<forall>v. v \<noteq> VRemoved \<longrightarrow> reported dctx' v = {i. verdict v (mine i) (content s i)})
    \<and> reported dctx' VRemoved \<subseteq> {i. verdict VRemoved (mine i) (content s i)}"
proof -
  have start: "toSend startCtx = [topReq]" "prepare startCtx = []" "reported startCtx v = {}" for v
    by (cases v; simp add: startCtx_def childReq_def reported_def)+
  have "good s topReq"
    using top_hash cl by (simp add: good_def client_def)
  with start obtain dctx' where
    "diffLoop E cmp (\<lambda>rs. Inr (map (answer s) rs)) (\<lambda>_. None) 0 d startCtx = pret dctx'"
    and acc: "accounts verdict mine s startCtx [topReq] dctx' []"
    using diffLoop_result[OF cl, where n = 0 and dctx = startCtx and b = "Suc (weight topReq)"] by auto
  moreover have "wanted verdict mine s v topReq = {i. verdict v (mine i) (content s i)}" for v
    by (simp add: wanted_def inRange_def childReq_def)
  ultimately show ?thesis
    using acc by (intro exI[of _ dctx']) (auto simp: accounts_def start)
qed

end

end
