(* ===== verification/RangeCells.thy ===== *)
theory RangeCells
  imports RangeDivision
begin

text \<open>
  The ranges of the tree when the divide factor is a power of two, \<open>2 ^ k\<close>: a range at level \<open>l\<close> is
  an aligned block of \<open>2 ^ (64 - k * l)\<close> hashes. Two such blocks are nested or disjoint, and dividing
  one gives exactly the blocks of the next level inside it.
\<close>

definition cellSize :: "nat \<Rightarrow> nat \<Rightarrow> nat" where
  "cellSize k l = 2 ^ (64 - k * l)"

definition cellAt :: "nat \<Rightarrow> nat \<Rightarrow> rangeTuple \<Rightarrow> bool" where
  "cellAt k l t \<longleftrightarrow> k * l \<le> 64 \<and> fst t \<le> snd t \<and> sizeOf (fst t) (snd t) = cellSize k l
     \<and> cellSize k l dvd unat (fst t)"

definition inside :: "rangeTuple \<Rightarrow> rangeTuple \<Rightarrow> bool" where
  "inside s t \<longleftrightarrow> fst t \<le> fst s \<and> snd s \<le> snd t"

lemma inside_refl [simp]: "inside t t"
  by (simp add: inside_def)

lemma inside_trans [trans]: "inside r s \<Longrightarrow> inside s t \<Longrightarrow> inside r t"
  unfolding inside_def by auto

lemma inside_mem: "inside s t \<Longrightarrow> inTuple x s \<Longrightarrow> inTuple x t"
  unfolding inside_def inTuple_def by auto

lemma cellSize_pos [simp]: "0 < cellSize k l"
  by (simp add: cellSize_def)

lemma cellSize_neq [simp]: "cellSize k l \<noteq> 0"
  by (simp add: cellSize_def)

lemma cellSize_top: "cellSize k l \<le> cellSize k 0"
  unfolding cellSize_def by (intro power_increasing) simp_all

lemma cell_bounds:
  assumes "cellAt k l t"
  shows "unat (snd t) + 1 = unat (fst t) + cellSize k l"
  using assms sizeOf_to[of "fst t" "snd t"] by (simp add: cellAt_def)

lemma cell_mem:
  assumes "cellAt k l t"
  shows "inTuple x t \<longleftrightarrow> unat x div cellSize k l = unat (fst t) div cellSize k l"
proof -
  obtain q where q: "unat (fst t) = cellSize k l * q"
    using assms by (auto simp: cellAt_def)
  have "inTuple x t \<longleftrightarrow> cellSize k l * q \<le> unat x \<and> unat x < cellSize k l * q + cellSize k l"
    using cell_bounds[OF assms] by (auto simp: inTuple_def word_le_nat_alt q)
  also have "\<dots> \<longleftrightarrow> unat x div cellSize k l = q"
    by (metis cellSize_pos div_nat_eqI dividend_less_times_div mult.commute mult_Suc_right add.commute
        times_div_less_eq_dividend)
  finally show ?thesis
    by (simp add: q)
qed

lemma cell_fst_mem: "cellAt k l t \<Longrightarrow> inTuple (fst t) t"
  by (simp add: cellAt_def inTuple_def)

lemma cell_unique:
  assumes "cellAt k l s" and "cellAt k l t" and "inTuple x s" and "inTuple x t"
  shows "s = t"
proof -
  have "unat (fst s) div cellSize k l = unat (fst t) div cellSize k l"
    using assms by (simp add: cell_mem)
  moreover have "cellSize k l dvd unat (fst s)" "cellSize k l dvd unat (fst t)"
    using assms by (simp_all add: cellAt_def)
  ultimately have "unat (fst s) = unat (fst t)"
    by (metis dvd_div_mult_self)
  with cell_bounds[OF assms(1)] cell_bounds[OF assms(2)] show ?thesis
    by (simp add: prod_eq_iff word_unat_eq_iff)
qed

lemma cell_nested:
  assumes "cellAt k l t" and "cellAt k l' s" and "l \<le> l'" and "inTuple x t" and "inTuple x s"
  shows "inside s t"
proof -
  have kl: "k * l' \<le> 64"
    using assms(2) by (simp add: cellAt_def)
  then have "64 - k * l = (64 - k * l') + k * (l' - l)"
    using assms(3) by (simp add: algebra_simps diff_mult_distrib2)
  then have size: "cellSize k l = cellSize k l' * 2 ^ (k * (l' - l))"
    by (simp add: cellSize_def power_add)
  have "inTuple y t" if "inTuple y s" for y
    using assms that by (simp add: cell_mem size div_mult2_eq)
  moreover have "inTuple (fst s) s" "inTuple (snd s) s"
    using assms(2) by (simp_all add: cellAt_def inTuple_def)
  ultimately show ?thesis
    by (auto simp: inside_def inTuple_def)
qed

section \<open>Dividing a cell\<close>

lemma power_factor: "0 < k \<Longrightarrow> k < 64 \<Longrightarrow> validFactor (2 ^ k)"
proof -
  assume "0 < k" "k < 64"
  then have "(2 :: nat) ^ 1 \<le> 2 ^ k" "(2 :: nat) ^ k < 2 ^ 64"
    by (simp_all only: power_increasing_iff power_strict_increasing_iff one_less_numeral_iff semiring_norm)
  then show ?thesis
    by (simp add: validFactor_def)
qed

lemma cell_divides:
  assumes "cellAt k l t" and "k * Suc l \<le> 64"
  shows "cellSize k l = 2 ^ k * cellSize k (Suc l)" and "2 ^ k dvd sizeOf (fst t) (snd t)"
proof -
  have "64 - k * l = k + (64 - k * Suc l)"
    using assms(2) by simp
  then show "cellSize k l = 2 ^ k * cellSize k (Suc l)"
    by (simp add: cellSize_def power_add)
  then show "2 ^ k dvd sizeOf (fst t) (snd t)"
    using assms(1) by (simp add: cellAt_def)
qed

lemma gen_cell:
  assumes k: "0 < k" "k < 64" and t: "cellAt k l t" and l: "k * Suc l \<le> 64"
    and c: "c \<in> set (genTupleRanges (fst t) (snd t) (2 ^ k))"
  shows "cellAt k (Suc l) c" and "inside c t"
proof -
  let ?q = "cellSize k (Suc l)" and ?f = "unat (fst t)"
  note d = cell_divides[OF t l]
  have size: "sizeOf (fst t) (snd t) = 2 ^ k * ?q"
    using t d by (simp add: cellAt_def)
  then have "2 ^ k \<le> sizeOf (fst t) (snd t)"
    by (simp add: Suc_leI)
  from c[unfolded genTupleRanges_nat[OF power_factor[OF k] this]] obtain i where i: "i < 2 ^ k"
    and ci: "c = wordTuple (natTuples (2 ^ k) 0 ?q ?f ! i)"
    by (auto simp: size in_set_conv_nth)
  have nth: "natTuples (2 ^ k) 0 ?q ?f ! i = (?f + i * ?q, ?f + i * ?q + ?q - 1)"
    using i by (intro natTuples_nth) simp_all
  have "Suc i * ?q \<le> 2 ^ k * ?q"
    using i by (intro mult_le_mono1) simp
  then have le: "?f + i * ?q + ?q \<le> unat (snd t) + 1"
    using cell_bounds[OF t] d(1) by simp
  with unat_lt_64[of "snd t"] have lt: "?f + i * ?q < 2 ^ 64" "?f + i * ?q + ?q - 1 < 2 ^ 64"
    using cellSize_pos[of k "Suc l"] by linarith+
  then have u: "unat (fst c) = ?f + i * ?q" "unat (snd c) = ?f + i * ?q + ?q - 1"
    by (simp_all only: ci nth wordTuple_def fst_conv snd_conv unat_of_nat_64)
  have "?q dvd ?f"
    using t d(1) by (auto simp: cellAt_def)
  moreover have cle: "fst c \<le> snd c"
    using u cellSize_pos[of k "Suc l"] unfolding word_le_nat_alt by linarith
  then have "sizeOf (fst c) (snd c) = ?q"
    using sizeOf_to[OF cle] u cellSize_pos[of k "Suc l"] by linarith
  ultimately show "cellAt k (Suc l) c"
    using l u cle by (simp add: cellAt_def)
  show "inside c t"
    using u le cellSize_pos[of k "Suc l"] unfolding inside_def word_le_nat_alt by linarith
qed

lemma gen_mem:
  assumes k: "0 < k" "k < 64" and t: "cellAt k l t" and l: "k * Suc l \<le> 64"
    and c: "cellAt k (Suc l) c" and x: "inTuple x c" "inTuple x t"
  shows "c \<in> set (genTupleRanges (fst t) (snd t) (2 ^ k))"
proof -
  have "fst t \<le> snd t"
    using t by (simp add: cellAt_def)
  from bottom_tuple[OF power_factor[OF k] this cell_divides(2)[OF t l], of x] x(2)
  obtain c' where c': "c' \<in> set (genTupleRanges (fst t) (snd t) (2 ^ k))" "inTuple x c'"
    unfolding inTuple_def by blast
  with gen_cell(1)[OF k t l c'(1)] c x have "c' = c"
    by (auto intro: cell_unique)
  with c' show ?thesis
    by simp
qed

lemma gen_distinct:
  assumes k: "0 < k" "k < 64" and t: "cellAt k l t" and l: "k * Suc l \<le> 64"
  shows "distinct (genTupleRanges (fst t) (snd t) (2 ^ k))"
proof -
  have le: "fst t \<le> snd t" and size: "2 ^ k \<le> sizeOf (fst t) (snd t)"
    using t cell_divides[OF t l] by (simp_all add: cellAt_def Suc_leI)
  note part = genTupleRanges_partition[OF power_factor[OF k] le size]
  have "sorted_wrt (\<noteq>) (genTupleRanges (fst t) (snd t) (2 ^ k))"
    using part(3) by (intro sorted_wrt_mono_rel[OF _ part(4)]) fastforce
  then show ?thesis
    by (simp add: distinct_conv_nth sorted_wrt_iff_nth_less) (metis linorder_neqE_nat)
qed

lemma gen_nonempty:
  assumes k: "0 < k" "k < 64" and t: "cellAt k l t" and l: "k * Suc l \<le> 64"
  shows "genTupleRanges (fst t) (snd t) (2 ^ k) \<noteq> []"
proof -
  have le: "fst t \<le> snd t" and size: "2 ^ k \<le> sizeOf (fst t) (snd t)"
    using t cell_divides[OF t l] by (simp_all add: cellAt_def Suc_leI)
  from genTupleRanges_partition(1)[OF power_factor[OF k] le size] show ?thesis
    by auto
qed

text \<open>A cell has one parent.\<close>

lemma gen_parent_unique:
  assumes k: "0 < k" "k < 64" and "cellAt k l s" "k * Suc l \<le> 64" "c \<in> set (genTupleRanges (fst s) (snd s) (2 ^ k))"
    and "cellAt k l' t" "k * Suc l' \<le> 64" "c \<in> set (genTupleRanges (fst t) (snd t) (2 ^ k))"
  shows "s = t"
proof -
  note cs = gen_cell[OF k assms(3,4,5)] and ct = gen_cell[OF k assms(6,7,8)]
  have "cellSize k (Suc l) = cellSize k (Suc l')"
    using cs(1) ct(1) by (simp add: cellAt_def)
  then have "64 - k * Suc l = 64 - k * Suc l'"
    by (simp add: cellSize_def)
  with assms(4,7) have "k * Suc l = k * Suc l'"
    by linarith
  with k(1) have "l = l'"
    by simp
  moreover have "inTuple (fst c) s" "inTuple (fst c) t"
    using inside_mem[OF cs(2)] inside_mem[OF ct(2)] cell_fst_mem[OF cs(1)] by simp_all
  ultimately show ?thesis
    using assms(3,6) by (auto intro: cell_unique)
qed

lemma top_cell: "cellAt k 0 (0, - 1)"
  by (simp add: cellAt_def sizeOf_def cellSize_def unat_max_64)

end
