(* ===== verification/RangeTree.thy ===== *)
theory RangeTree
  imports RangeCells
begin

text \<open>
  The invariant of the range tree and that growing the tree and recalculating its hashes keep it, for
  a divide factor \<open>2 ^ k\<close>. The code's loops return under it: the recursion of \<open>makeBottomRanges\<close>, the
  descent to a leaf and the loop of \<open>recalculateHashes\<close>.
\<close>

declare split_paired_All [simp del] split_paired_Ex [simp del]

section \<open>The heap\<close>

abbreviation children :: "nat \<Rightarrow> rangeTuple \<Rightarrow> rangeTuple list" where
  "children k t \<equiv> genTupleRanges (fst t) (snd t) (2 ^ k)"

lemma deref_upd: "deref (updRange r f h) r' = (if r' = r then f (deref h r) else deref h r')"
  by (simp add: deref_def updRange_def)

lemma updRange_sel [simp]:
  "h_next (updRange r f h) = h_next h" "h_ranges (updRange r f h) = h_ranges h"
  "h_topRange (updRange r f h) = h_topRange h" "h_dirty (updRange r f h) = h_dirty h"
  "h_divideFactor (updRange r f h) = h_divideFactor h"
  "h_compareThreshold (updRange r f h) = h_compareThreshold h"
  by (simp_all add: updRange_def)

lemma dirty_sel [simp]:
  "h_next (addDirty r h) = h_next h" "h_ranges (addDirty r h) = h_ranges h"
  "h_topRange (addDirty r h) = h_topRange h" "h_divideFactor (addDirty r h) = h_divideFactor h"
  "h_compareThreshold (addDirty r h) = h_compareThreshold h" "deref (addDirty r h) = deref h"
  "h_next (delDirty r h) = h_next h" "h_ranges (delDirty r h) = h_ranges h"
  "h_topRange (delDirty r h) = h_topRange h" "h_divideFactor (delDirty r h) = h_divideFactor h"
  "h_compareThreshold (delDirty r h) = h_compareThreshold h" "deref (delDirty r h) = deref h"
  by (simp_all add: addDirty_def delDirty_def deref_def fun_eq_iff)

definition isDirty :: "hashRanges \<Rightarrow> ref \<Rightarrow> bool" where
  "isDirty h r \<longleftrightarrow> mget (h_dirty h) r \<noteq> None"

lemma isDirty_simps [simp]:
  "isDirty (addDirty r h) x \<longleftrightarrow> x = r \<or> isDirty h x"
  "isDirty (delDirty r h) x \<longleftrightarrow> x \<noteq> r \<and> isDirty h x"
  "isDirty (updRange r f h) x \<longleftrightarrow> isDirty h x"
  by (auto simp: isDirty_def addDirty_def delDirty_def updRange_def)

section \<open>The invariant\<close>

text \<open>
  The shape: the ranges of the map are cells that know their bounds; the parts of a divided range
  are in the map, or on the stack of those still to be made; every range but the top one is a part
  of its parent, which is divided. Dirty ranges are in the map.
\<close>

definition placed :: "nat \<Rightarrow> hashRanges \<Rightarrow> rangeTuple \<Rightarrow> ref \<Rightarrow> bool" where
  "placed k h t r \<longleftrightarrow> r < h_next h \<and> hr_from (deref h r) = fst t \<and> hr_to (deref h r) = snd t
     \<and> (\<exists>l. cellAt k l t \<and> (hr_isDivided (deref h r) \<longrightarrow> k * Suc l \<le> 64))"

definition rooted :: "nat \<Rightarrow> hashRanges \<Rightarrow> rangeTuple \<Rightarrow> ref \<Rightarrow> bool" where
  "rooted k h t r \<longleftrightarrow>
     (if t = (0, - 1) then hr_parent (deref h r) = None \<and> hr_isDivided (deref h r)
      else (\<exists>p tp. hr_parent (deref h r) = Some p \<and> mget (h_ranges h) tp = Some p
              \<and> hr_isDivided (deref h p) \<and> t \<in> set (children k tp)))"

definition parted :: "nat \<Rightarrow> (rangeTuple \<times> ref) list \<Rightarrow> hashRanges \<Rightarrow> rangeTuple \<Rightarrow> ref \<Rightarrow> bool" where
  "parted k stack h t r \<longleftrightarrow> (hr_isDivided (deref h r) \<longrightarrow>
     (\<forall>c \<in> set (children k t). (c, r) \<in> set stack
        \<or> (\<exists>r'. mget (h_ranges h) c = Some r' \<and> hr_parent (deref h r') = Some r)))"

definition pending :: "nat \<Rightarrow> hashRanges \<Rightarrow> rangeTuple \<times> ref \<Rightarrow> bool" where
  "pending k h cr \<longleftrightarrow> mget (h_ranges h) (fst cr) = None
     \<and> (\<exists>t. mget (h_ranges h) t = Some (snd cr) \<and> hr_isDivided (deref h (snd cr)) \<and> fst cr \<in> set (children k t))"

definition shape :: "nat \<Rightarrow> (rangeTuple \<times> ref) list \<Rightarrow> hashRanges \<Rightarrow> bool" where
  "shape k stack h \<longleftrightarrow> h_divideFactor h = 2 ^ k \<and> mget (h_ranges h) (0, - 1) = Some (h_topRange h)
     \<and> (\<forall>t r. mget (h_ranges h) t = Some r \<longrightarrow> placed k h t r \<and> rooted k h t r \<and> parted k stack h t r)
     \<and> list_all (pending k h) stack \<and> distinct (map fst stack)
     \<and> (\<forall>x. isDirty h x \<longrightarrow> (\<exists>t. mget (h_ranges h) t = Some x))"

text \<open>
  The counters: never below the number of elements; at most the threshold in a range that is not
  divided, and there at most the number of elements set so far, \<open>hits\<close>.
\<close>

definition hits :: "'s ldiffEnv \<Rightarrow> Element list \<Rightarrow> rangeTuple \<Rightarrow> nat" where
  "hits E els t = length (filter (\<lambda>e. inTuple (xxhash E (e_Id e)) t) els)"

definition elCount :: "'s ldiffEnv \<Rightarrow> 's \<Rightarrow> rangeTuple \<Rightarrow> int" where
  "elCount E sl t = int (length (elementsIn E sl (fst t) (snd t)))"

definition counted :: "'s ldiffEnv \<Rightarrow> 's \<Rightarrow> Element list \<Rightarrow> hashRanges \<Rightarrow> bool" where
  "counted E sl B h \<longleftrightarrow> (\<forall>t r. mget (h_ranges h) t = Some r \<longrightarrow> elCount E sl t \<le> hr_elements (deref h r)
     \<and> (hr_isDivided (deref h r) \<or>
        hr_elements (deref h r) \<le> h_compareThreshold h \<and> hr_elements (deref h r) \<le> int (hits E B t)))"

text \<open>The hashes: a range has the hash its content gives it, or a range inside it is dirty.\<close>

definition covered :: "hashRanges \<Rightarrow> rangeTuple \<Rightarrow> bool" where
  "covered h t \<longleftrightarrow> (\<exists>s x. mget (h_ranges h) s = Some x \<and> isDirty h x \<and> inside s t)"

definition hashOf :: "hashRanges \<Rightarrow> rangeTuple \<Rightarrow> bytes" where
  "hashOf h t = hr_hash (deref h (the (mget (h_ranges h) t)))"

definition hash_ok :: "'s ldiffEnv \<Rightarrow> 's \<Rightarrow> nat \<Rightarrow> hashRanges \<Rightarrow> rangeTuple \<Rightarrow> ref \<Rightarrow> bool" where
  "hash_ok E sl k h t r \<longleftrightarrow>
     (if hr_isDivided (deref h r)
      then (\<forall>c \<in> set (children k t). mget (h_ranges h) c \<noteq> None)
        \<and> hr_hash (deref h r) = blake3 E (concat (map (hashOf h) (children k t)))
      else calcElementsHash E sl (fst t) (snd t) = (hr_hash (deref h r), hr_elements (deref h r)))"

definition hashed :: "'s ldiffEnv \<Rightarrow> 's \<Rightarrow> nat \<Rightarrow> hashRanges \<Rightarrow> bool" where
  "hashed E sl k h \<longleftrightarrow>
     (\<forall>t r. mget (h_ranges h) t = Some r \<longrightarrow> hash_ok E sl k h t r \<or> covered h t)"

definition tree_inv ::
    "'s ldiffEnv \<Rightarrow> 's \<Rightarrow> nat \<Rightarrow> Element list \<Rightarrow> (rangeTuple \<times> ref) list \<Rightarrow> hashRanges \<Rightarrow> bool" where
  "tree_inv E sl k B stack h \<longleftrightarrow> shape k stack h \<and> counted E sl B h \<and> hashed E sl k h"

text \<open>No more elements than the threshold share a range that cannot be divided.\<close>

definition spread :: "'s ldiffEnv \<Rightarrow> nat \<Rightarrow> int \<Rightarrow> Element list \<Rightarrow> bool" where
  "spread E k th els \<longleftrightarrow> (\<forall>t. sizeOf (fst t) (snd t) < 2 ^ k \<longrightarrow> int (hits E els t) \<le> th)"

text \<open>What later steps keep of the ranges that are already there.\<close>

definition grows :: "hashRanges \<Rightarrow> hashRanges \<Rightarrow> bool" where
  "grows h h' \<longleftrightarrow> h_topRange h' = h_topRange h \<and> h_compareThreshold h' = h_compareThreshold h
     \<and> (\<forall>t r. mget (h_ranges h) t = Some r \<longrightarrow> mget (h_ranges h') t = Some r
          \<and> hr_parent (deref h' r) = hr_parent (deref h r))
     \<and> (\<forall>t. covered h t \<longrightarrow> covered h' t)"

lemma grows_refl [simp]: "grows h h"
  by (simp add: grows_def)

lemma grows_trans: "grows h h1 \<Longrightarrow> grows h1 h2 \<Longrightarrow> grows h h2"
  unfolding grows_def by metis

lemma shapeD:
  assumes "shape k stack h"
  shows "h_divideFactor h = 2 ^ k" and "mget (h_ranges h) (0, - 1) = Some (h_topRange h)"
    and "mget (h_ranges h) t = Some r \<Longrightarrow> placed k h t r"
    and "mget (h_ranges h) t = Some r \<Longrightarrow> rooted k h t r"
    and "mget (h_ranges h) t = Some r \<Longrightarrow> parted k stack h t r"
    and "list_all (pending k h) stack" and "distinct (map fst stack)"
    and "isDirty h x \<Longrightarrow> \<exists>t. mget (h_ranges h) t = Some x"
  using assms by (auto simp: shape_def)

lemma placed_inj:
  "placed k h t r \<Longrightarrow> placed k h s r \<Longrightarrow> s = t"
  by (auto simp: placed_def prod_eq_iff)

lemma shape_inj:
  assumes "shape k stack h" "mget (h_ranges h) t = Some r" "mget (h_ranges h) s = Some r"
  shows "s = t"
  using shapeD(3)[OF assms(1)] assms(2,3) by (blast intro: placed_inj)

section \<open>Making a range\<close>

text \<open>
  One range was made: \<open>h'\<close> is the heap after the range \<open>nd\<close> for the first entry of the stack was
  allocated and put in the map; if it is too big it is divided, marked dirty in place of its parent,
  and its parts are on the new stack.
\<close>

definition made_range ::
    "'s ldiffEnv \<Rightarrow> 's \<Rightarrow> nat \<Rightarrow> Element list \<Rightarrow> rangeTuple \<Rightarrow> ref \<Rightarrow> (rangeTuple \<times> ref) list
      \<Rightarrow> hashRanges \<Rightarrow> hashRanges \<Rightarrow> hashRange \<Rightarrow> bool" where
  "made_range E sl k B c p rest h h' nd \<longleftrightarrow> 0 < k \<and> k < 64
     \<and> tree_inv E sl k B ((c, p) # rest) h
     \<and> spread E k (h_compareThreshold h) B
     \<and> (\<forall>t. elCount E sl t \<le> int (hits E B t))
     \<and> (\<forall>x. deref h' x = (if x = h_next h then nd else deref h x))
     \<and> (\<forall>t. mget (h_ranges h') t = (if t = c then Some (h_next h) else mget (h_ranges h) t))
     \<and> (h_next h' = h_next h + 1 \<and> h_topRange h' = h_topRange h
        \<and> h_divideFactor h' = h_divideFactor h \<and> h_compareThreshold h' = h_compareThreshold h)
     \<and> (\<forall>x. isDirty h' x \<longleftrightarrow>
          (if hr_isDivided nd then x = h_next h \<or> x \<noteq> p \<and> isDirty h x else isDirty h x))
     \<and> (hr_from nd = fst c \<and> hr_to nd = snd c \<and> hr_parent nd = Some p
        \<and> calcElementsHash E sl (fst c) (snd c) = (hr_hash nd, hr_elements nd)
        \<and> (hr_isDivided nd \<longleftrightarrow> hr_elements nd > h_compareThreshold h))"

definition newStack ::
    "nat \<Rightarrow> rangeTuple \<Rightarrow> (rangeTuple \<times> ref) list \<Rightarrow> hashRange \<Rightarrow> hashRanges \<Rightarrow> (rangeTuple \<times> ref) list" where
  "newStack k c rest nd h =
     (if hr_isDivided nd then map (\<lambda>t. (t, h_next h)) (children k c) @ rest else rest)"

lemma madeD:
  assumes "made_range E sl k B c p rest h h' nd"
  shows made_k: "0 < k" "k < 64"
    and made_inv: "tree_inv E sl k B ((c, p) # rest) h"
    and made_spread: "spread E k (h_compareThreshold h) B"
    and made_cnt: "\<And>t. elCount E sl t \<le> int (hits E B t)"
    and made_deref: "\<And>x. deref h' x = (if x = h_next h then nd else deref h x)"
    and made_ranges: "\<And>t. mget (h_ranges h') t = (if t = c then Some (h_next h) else mget (h_ranges h) t)"
    and made_same: "h_next h' = h_next h + 1" "h_topRange h' = h_topRange h"
      "h_divideFactor h' = h_divideFactor h" "h_compareThreshold h' = h_compareThreshold h"
    and made_dirty: "\<And>x. isDirty h' x \<longleftrightarrow>
      (if hr_isDivided nd then x = h_next h \<or> x \<noteq> p \<and> isDirty h x else isDirty h x)"
    and made_node: "hr_from nd = fst c" "hr_to nd = snd c" "hr_parent nd = Some p"
      "calcElementsHash E sl (fst c) (snd c) = (hr_hash nd, hr_elements nd)"
      "hr_isDivided nd \<longleftrightarrow> hr_elements nd > h_compareThreshold h"
  using assms unfolding made_range_def by blast+

lemma made_shape:
  assumes M: "made_range E sl k B c p rest h h' nd"
  shows "shape k ((c, p) # rest) h"
  using made_inv[OF M] by (simp add: tree_inv_def)

lemma made_elements:
  assumes M: "made_range E sl k B c p rest h h' nd"
  shows "hr_elements nd = elCount E sl c"
  using made_node(4)[OF M] by (simp add: calcElementsHash_def elCount_def Let_def)

lemma made_new:
  assumes M: "made_range E sl k B c p rest h h' nd"
  shows "mget (h_ranges h) c = None"
  using shapeD(6)[OF made_shape[OF M]] by (simp add: pending_def)

lemma made_old_ref:
  assumes M: "made_range E sl k B c p rest h h' nd"
  shows "mget (h_ranges h) t = Some r \<Longrightarrow> r \<noteq> h_next h \<and> t \<noteq> c"
  using shapeD(3)[OF made_shape[OF M], of t r] made_new[OF M] by (auto simp: placed_def)

lemma made_old:
  assumes M: "made_range E sl k B c p rest h h' nd"
  shows "mget (h_ranges h) t = Some r \<Longrightarrow> mget (h_ranges h') t = Some r \<and> deref h' r = deref h r"
  using made_old_ref[OF M, of t r] by (simp add: made_ranges[OF M] made_deref[OF M])

lemma made_parent:
  assumes M: "made_range E sl k B c p rest h h' nd"
  obtains tp l where "mget (h_ranges h) tp = Some p" "hr_isDivided (deref h p)" "c \<in> set (children k tp)"
    "cellAt k l tp" "k * Suc l \<le> 64" "cellAt k (Suc l) c" "inside c tp"
proof -
  obtain tp where tp: "mget (h_ranges h) tp = Some p" "hr_isDivided (deref h p)" "c \<in> set (children k tp)"
    using shapeD(6)[OF made_shape[OF M]] by (auto simp: pending_def)
  with shapeD(3)[OF made_shape[OF M] tp(1)] obtain l where "cellAt k l tp" "k * Suc l \<le> 64"
    by (auto simp: placed_def)
  with tp gen_cell[OF made_k[OF M] this tp(3)] that show thesis
    by blast
qed

lemma made_level:
  assumes M: "made_range E sl k B c p rest h h' nd" and "hr_isDivided nd" and "cellAt k l c"
  shows "k * Suc l \<le> 64"
proof -
  have "h_compareThreshold h < int (hits E B c)"
    using assms(2) made_node(5)[OF M] made_elements[OF M] made_cnt[OF M, of c] by simp
  then have "\<not> sizeOf (fst c) (snd c) < 2 ^ k"
    using made_spread[OF M, unfolded spread_def, THEN spec, of c] by auto
  then have "k \<le> 64 - k * l"
    using assms(3) by (simp add: cellAt_def cellSize_def)
  with made_k(1)[OF M] show ?thesis
    by simp
qed

lemma made_parts:
  assumes M: "made_range E sl k B c p rest h h' nd" and "hr_isDivided nd" and cc: "cc \<in> set (children k c)"
  shows "cc \<noteq> c" and "mget (h_ranges h) cc = None" and "cc \<notin> fst ` set rest"
proof -
  obtain l where l: "cellAt k l c"
    by (rule made_parent[OF M])
  note kl = made_level[OF M assms(2) l]
  note cell = gen_cell[OF made_k[OF M] l kl cc]
  have size: "cellSize k (Suc l) < cellSize k l"
    using cell_divides(1)[OF l kl] one_less_power[of "2 :: nat" k] made_k[OF M] by simp
  then show "cc \<noteq> c"
    using cell(1) l by (auto simp: cellAt_def)
  have noparent: "mget (h_ranges h) t = None" if "cc \<in> set (children k t)" "cellAt k l' t" "k * Suc l' \<le> 64" for t l'
    using gen_parent_unique[OF made_k[OF M] l kl cc that(2,3,1)] made_new[OF M] by simp
  have "cellSize k (Suc l) < cellSize k 0"
    using size cellSize_top by (rule less_le_trans)
  then have top: "cc \<noteq> (0, - 1)"
    using cell(1) top_cell[of k] by (auto simp: cellAt_def)
  show "mget (h_ranges h) cc = None"
  proof (rule ccontr)
    assume "mget (h_ranges h) cc \<noteq> None"
    then obtain r where "mget (h_ranges h) cc = Some r"
      by auto
    from shapeD(4)[OF made_shape[OF M] this] top obtain q tq where
      "mget (h_ranges h) tq = Some q" "hr_isDivided (deref h q)" "cc \<in> set (children k tq)"
      by (auto simp: rooted_def)
    moreover from this shapeD(3)[OF made_shape[OF M] this(1)] obtain l' where "cellAt k l' tq" "k * Suc l' \<le> 64"
      by (auto simp: placed_def)
    ultimately show False
      using noparent by fastforce
  qed
  show "cc \<notin> fst ` set rest"
  proof
    assume "cc \<in> fst ` set rest"
    then obtain r where "pending k h (cc, r)"
      using shapeD(6)[OF made_shape[OF M]] by (auto simp: list_all_iff)
    then obtain t where "mget (h_ranges h) t = Some r" "hr_isDivided (deref h r)" "cc \<in> set (children k t)"
      by (auto simp: pending_def)
    moreover from this shapeD(3)[OF made_shape[OF M] this(1)] obtain l' where "cellAt k l' t" "k * Suc l' \<le> 64"
      by (auto simp: placed_def)
    ultimately show False
      using noparent by fastforce
  qed
qed

lemma made_placed:
  assumes M: "made_range E sl k B c p rest h h' nd"
  shows "mget (h_ranges h') t = Some r \<Longrightarrow> placed k h' t r"
proof (cases "t = c")
  case True
  obtain l where "cellAt k l c"
    by (rule made_parent[OF M])
  moreover assume "mget (h_ranges h') t = Some r"
  ultimately show ?thesis
    using True made_level[OF M] by (auto simp: placed_def made_ranges[OF M] made_deref[OF M] made_same[OF M] made_node[OF M])
next
  case False
  moreover assume "mget (h_ranges h') t = Some r"
  ultimately have "mget (h_ranges h) t = Some r"
    by (simp add: made_ranges[OF M])
  from shapeD(3)[OF made_shape[OF M] this] made_old[OF M this] show ?thesis
    by (auto simp: placed_def made_same[OF M])
qed

lemma made_rooted:
  assumes M: "made_range E sl k B c p rest h h' nd"
  shows "mget (h_ranges h') t = Some r \<Longrightarrow> rooted k h' t r"
proof (cases "t = c")
  case True
  obtain tp where "mget (h_ranges h) tp = Some p" "hr_isDivided (deref h p)" "c \<in> set (children k tp)"
    by (rule made_parent[OF M])
  with made_old[OF M this(1)] have tp: "mget (h_ranges h') tp = Some p" "hr_isDivided (deref h' p)" "c \<in> set (children k tp)"
    by simp_all
  have "c \<noteq> (0, - 1)"
    using shapeD(2)[OF made_shape[OF M]] made_new[OF M] by auto
  moreover assume "mget (h_ranges h') t = Some r"
  then have "r = (h_next h)"
    using True by (simp add: made_ranges[OF M])
  ultimately show ?thesis
    using True tp by (auto simp: rooted_def made_deref[OF M] made_node[OF M])
next
  case False
  moreover assume "mget (h_ranges h') t = Some r"
  ultimately have r: "mget (h_ranges h) t = Some r"
    by (simp add: made_ranges[OF M])
  note root = shapeD(4)[OF made_shape[OF M] r]
  show ?thesis
  proof (cases "t = (0, - 1)")
    case True
    with root made_old[OF M r] show ?thesis
      by (simp add: rooted_def)
  next
    case False
    with root obtain q tq where "hr_parent (deref h r) = Some q" "mget (h_ranges h) tq = Some q"
      "hr_isDivided (deref h q)" "t \<in> set (children k tq)"
      by (auto simp: rooted_def)
    with made_old[OF M r] made_old[OF M this(2)] False show ?thesis
      by (auto simp: rooted_def)
  qed
qed

lemma made_parted:
  assumes M: "made_range E sl k B c p rest h h' nd"
  shows "mget (h_ranges h') t = Some r \<Longrightarrow> parted k (newStack k c rest nd h) h' t r"
proof (cases "t = c")
  case True
  moreover assume "mget (h_ranges h') t = Some r"
  ultimately show ?thesis
    by (auto simp: parted_def made_ranges[OF M] made_deref[OF M] newStack_def split: if_split_asm)
next
  case False
  moreover assume "mget (h_ranges h') t = Some r"
  ultimately have r: "mget (h_ranges h) t = Some r"
    by (simp add: made_ranges[OF M])
  show ?thesis
    unfolding parted_def
  proof (intro impI ballI)
    fix cc
    assume "hr_isDivided (deref h' r)" and cc: "cc \<in> set (children k t)"
    then have "hr_isDivided (deref h r)"
      using made_old[OF M r] by simp
    with shapeD(5)[OF made_shape[OF M] r] cc consider "(cc, r) = (c, p)" | "(cc, r) \<in> set rest"
      | r' where "mget (h_ranges h) cc = Some r'" "hr_parent (deref h r') = Some r"
      by (auto simp: parted_def)
    then show "(cc, r) \<in> set (newStack k c rest nd h) \<or> (\<exists>r'. mget (h_ranges h') cc = Some r' \<and> hr_parent (deref h' r') = Some r)"
    proof cases
      case 3
      with made_old[OF M 3(1)] show ?thesis
        by auto
    qed (auto simp: made_ranges[OF M] made_deref[OF M] made_node[OF M] newStack_def)
  qed
qed

lemma made_pending:
  assumes M: "made_range E sl k B c p rest h h' nd"
  shows "list_all (pending k h') (newStack k c rest nd h)" and "distinct (map fst (newStack k c rest nd h))"
proof -
  have dist: "c \<notin> fst ` set rest" "distinct (map fst rest)"
    using shapeD(7)[OF made_shape[OF M]] by simp_all
  have old: "pending k h' cr" if "cr \<in> set rest" for cr
  proof -
    have "pending k h cr" "fst cr \<noteq> c"
      using shapeD(6)[OF made_shape[OF M]] that dist(1) by (auto simp: list_all_iff)
    then show ?thesis
      unfolding pending_def using made_old[OF M] by (metis made_ranges[OF M])
  qed
  have new: "pending k h' (cc, (h_next h))" if "hr_isDivided nd" "cc \<in> set (children k c)" for cc
    using made_parts[OF M that] that by (auto simp: pending_def made_ranges[OF M] made_deref[OF M] intro!: exI[of _ c])
  show "list_all (pending k h') (newStack k c rest nd h)"
    using old new by (auto simp: list_all_iff newStack_def)
  obtain l where l: "cellAt k l c"
    by (rule made_parent[OF M])
  show "distinct (map fst (newStack k c rest nd h))"
    using dist(2) made_parts(3)[OF M] gen_distinct[OF made_k[OF M] l made_level[OF M _ l]]
    by (auto simp: comp_def newStack_def)
qed

lemma made_shape_inv:
  assumes M: "made_range E sl k B c p rest h h' nd"
  shows "shape k (newStack k c rest nd h) h'"
  unfolding shape_def
proof (intro conjI allI impI)
  show "mget (h_ranges h') (0, - 1) = Some (h_topRange h')"
    using made_old[OF M shapeD(2)[OF made_shape[OF M]]] by (simp add: made_same[OF M])
  show "\<exists>t. mget (h_ranges h') t = Some x" if "isDirty h' x" for x
  proof (cases "x = (h_next h)")
    case True
    then show ?thesis
      by (auto simp: made_ranges[OF M])
  next
    case False
    with that have "isDirty h x"
      by (simp add: made_dirty[OF M] split: if_split_asm)
    with shapeD(8)[OF made_shape[OF M]] made_old[OF M] show ?thesis
      by blast
  qed
qed (use made_placed[OF M] made_rooted[OF M] made_parted[OF M] made_pending[OF M] shapeD(1)[OF made_shape[OF M]] made_same[OF M] in \<open>auto\<close>)

lemma made_counted:
  assumes M: "made_range E sl k B c p rest h h' nd"
  shows "counted E sl B h'"
  unfolding counted_def
proof (intro allI impI)
  fix t r
  assume r: "mget (h_ranges h') t = Some r"
  show "elCount E sl t \<le> hr_elements (deref h' r) \<and> (hr_isDivided (deref h' r)
      \<or> hr_elements (deref h' r) \<le> h_compareThreshold h' \<and> hr_elements (deref h' r) \<le> int (hits E B t))"
  proof (cases "t = c")
    case True
    then show ?thesis
      using r made_elements[OF M] made_cnt[OF M, of c] made_node(5)[OF M] by (auto simp: made_ranges[OF M] made_deref[OF M] made_same[OF M])
  next
    case False
    then have "mget (h_ranges h) t = Some r"
      using r by (simp add: made_ranges[OF M])
    then show ?thesis
      using made_inv[OF M] made_old[OF M, of t r] by (simp add: tree_inv_def counted_def made_same[OF M])
  qed
qed

lemma made_covered:
  assumes M: "made_range E sl k B c p rest h h' nd"
  shows "covered h t \<Longrightarrow> covered h' t"
proof -
  assume "covered h t"
  then obtain s x where x: "mget (h_ranges h) s = Some x" "isDirty h x" "inside s t"
    by (auto simp: covered_def)
  obtain tp where tp: "mget (h_ranges h) tp = Some p" "inside c tp"
    by (rule made_parent[OF M])
  show ?thesis
  proof (cases "hr_isDivided nd \<and> x = p")
    case True
    then have "s = tp"
      using shape_inj[OF made_shape[OF M], of s x tp] x(1) tp(1) by simp
    then have "inside c t"
      using tp(2) x(3) inside_trans by blast
    with True show ?thesis
      unfolding covered_def by (intro exI[of _ c] exI[of _ "h_next h"]) (simp add: made_ranges[OF M] made_dirty[OF M])
  next
    case False
    with x made_old[OF M x(1)] show ?thesis
      unfolding covered_def by (intro exI[of _ s] exI[of _ x]) (auto simp: made_dirty[OF M])
  qed
qed

lemma made_hashed:
  assumes M: "made_range E sl k B c p rest h h' nd"
  shows "hashed E sl k h'"
  unfolding hashed_def
proof (intro allI impI)
  fix t r
  assume r: "mget (h_ranges h') t = Some r"
  show "hash_ok E sl k h' t r \<or> covered h' t"
  proof (cases "t = c")
    case True
    then have rn: "r = (h_next h)"
      using r by (simp add: made_ranges[OF M])
    show ?thesis
    proof (cases "hr_isDivided nd")
      case True
      have "covered h' c"
        unfolding covered_def by (intro exI[of _ c] exI[of _ "h_next h"]) (simp add: made_ranges[OF M] made_dirty[OF M] True)
      with \<open>t = c\<close> show ?thesis
        by simp
    next
      case False
      then have "hash_ok E sl k h' c (h_next h)"
        by (simp add: hash_ok_def made_deref[OF M] made_node[OF M])
      with \<open>t = c\<close> rn show ?thesis
        by simp
    qed
  next
    case False
    then have r0: "mget (h_ranges h) t = Some r"
      using r by (simp add: made_ranges[OF M])
    have "hash_ok E sl k h' t r" if ok: "hash_ok E sl k h t r"
    proof (cases "hr_isDivided (deref h r)")
      case True
      with ok have all: "\<And>cc. cc \<in> set (children k t) \<Longrightarrow> mget (h_ranges h) cc \<noteq> None"
        by (simp add: hash_ok_def)
      then have "hashOf h' cc = hashOf h cc" if "cc \<in> set (children k t)" for cc
        using that made_old[OF M, of cc] by (fastforce simp: hashOf_def)
      then have eq: "map (hashOf h') (children k t) = map (hashOf h) (children k t)"
        by simp
      have "\<forall>cc \<in> set (children k t). mget (h_ranges h') cc \<noteq> None"
        using all made_old[OF M] by fastforce
      with True ok made_old[OF M r0] show ?thesis
        unfolding hash_ok_def eq by simp
    next
      case False
      with ok made_old[OF M r0] show ?thesis
        by (simp add: hash_ok_def)
    qed
    with made_inv[OF M] r0 made_covered[OF M] show ?thesis
      unfolding tree_inv_def hashed_def by blast
  qed
qed

lemma made_tree_inv:
  assumes M: "made_range E sl k B c p rest h h' nd"
  shows "tree_inv E sl k B (newStack k c rest nd h) h'"
  using made_shape_inv[OF M] made_counted[OF M] made_hashed[OF M] by (simp add: tree_inv_def)

lemma made_grows:
  assumes M: "made_range E sl k B c p rest h h' nd"
  shows "grows h h'"
  using made_old[OF M] made_covered[OF M] by (simp add: grows_def made_same[OF M])

section \<open>Dividing until no range is too big\<close>

text \<open>The number of ranges that dividing a range of a size can make at most, itself included.\<close>

function work :: "nat \<Rightarrow> nat \<Rightarrow> nat" where
  "work k s = (if k = 0 \<or> s < 2 ^ k then 1 else 1 + 2 ^ k * work k (s div 2 ^ k))"
  by pat_completeness auto
termination
proof (relation "measure snd")
  fix k s :: nat
  assume "\<not> (k = 0 \<or> s < 2 ^ k)"
  moreover from this have "(1 :: nat) < 2 ^ k"
    using one_less_power[of "2 :: nat" k] by simp
  moreover from calculation have "0 < s"
    by linarith
  ultimately show "((k, s div 2 ^ k), (k, s)) \<in> measure snd"
    by simp
qed simp

declare work.simps [simp del]

lemma work_pos [simp]: "0 < work k s"
  by (subst work.simps) simp

definition stackWork :: "nat \<Rightarrow> (rangeTuple \<times> ref) list \<Rightarrow> nat" where
  "stackWork k stack = sum_list (map (\<lambda>cr. work k (sizeOf (fst (fst cr)) (snd (fst cr)))) stack)"

lemma stackWork_decreases:
  assumes M: "made_range E sl k B c p rest h h' nd"
  shows "stackWork k (newStack k c rest nd h) < stackWork k ((c, p) # rest)"
proof (cases "hr_isDivided nd")
  case True
  obtain l where l: "cellAt k l c"
    by (rule made_parent[OF M])
  note kl = made_level[OF M True l] and k = made_k[OF M]
  let ?q = "cellSize k (Suc l)"
  have size: "sizeOf (fst c) (snd c) = 2 ^ k * ?q"
    using l cell_divides(1)[OF l kl] by (simp add: cellAt_def)
  have "sizeOf (fst cc) (snd cc) = ?q" if "cc \<in> set (children k c)" for cc
    using gen_cell(1)[OF k l kl that] by (simp add: cellAt_def)
  then have "map (\<lambda>cc. work k (sizeOf (fst cc) (snd cc))) (children k c) = map (\<lambda>_. work k ?q) (children k c)"
    by simp
  moreover have "length (children k c) = 2 ^ k"
    using genTupleRanges_partition(1)[OF power_factor[OF k], of "fst c" "snd c"] l size
    by (simp add: cellAt_def Suc_leI)
  ultimately have "stackWork k (newStack k c rest nd h) = 2 ^ k * work k ?q + stackWork k rest"
    by (simp add: stackWork_def newStack_def True comp_def sum_list_triv del: map_eq_conv)
  moreover have "work k (2 ^ k * ?q) = 1 + 2 ^ k * work k ?q"
    using k cellSize_pos[of k "Suc l"] by (subst work.simps) (simp add: not_less Suc_leI)
  ultimately show ?thesis
    by (simp add: stackWork_def size)
qed (simp add: newStack_def stackWork_def)

lemma makeRange_made:
  assumes k: "0 < k" "k < 64" and inv: "tree_inv E sl k B ((c, p) # rest) h"
    and "spread E k (h_compareThreshold h) B" and "\<And>t. elCount E sl t \<le> int (hits E B t)"
  shows "\<exists>h' nd. made_range E sl k B c p rest h h' nd
    \<and> makeBottoms E sl ((c, p) # rest) h = makeBottoms E sl (newStack k c rest nd h) h'"
proof -
  obtain hash els where ce: "calcElementsHash E sl (fst c) (snd c) = (hash, els)"
    by force
  define nd0 where "nd0 = \<lparr>hr_from = fst c, hr_to = snd c, hr_parent = Some p, hr_isDivided = False,
    hr_elements = els, hr_level = hr_level (deref h p) + 1, hr_hash = hash\<rparr>"
  define h1 where "h1 = h\<lparr>h_heap := mput (h_next h) nd0 (h_heap h), h_next := h_next h + 1\<rparr>"
  define h2 where "h2 = h1\<lparr>h_ranges := mput c (h_next h) (h_ranges h1)\<rparr>"
  define big where "big \<longleftrightarrow> els > h_compareThreshold h"
  define nd where "nd = nd0\<lparr>hr_isDivided := big\<rparr>"
  define h' where "h' = (if big then updRange (h_next h) (\<lambda>r. r\<lparr>hr_isDivided := True\<rparr>)
      (addDirty (h_next h) (delDirty p h2)) else h2)"
  have d2: "deref h2 x = (if x = h_next h then nd0 else deref h x)" for x
    by (simp add: h2_def h1_def deref_def)
  have df: "h_divideFactor h = 2 ^ k"
    using inv by (simp add: tree_inv_def shape_def)
  have "made_range E sl k B c p rest h h' nd"
    unfolding made_range_def
  proof (intro conjI allI)
    show "deref h' x = (if x = h_next h then nd else deref h x)" for x
      by (simp add: h'_def nd_def deref_upd d2) (simp add: nd0_def)
    show "isDirty h' x \<longleftrightarrow> (if hr_isDivided nd then x = h_next h \<or> x \<noteq> p \<and> isDirty h x else isDirty h x)" for x
      by (simp add: h'_def nd_def) (simp add: isDirty_def h2_def h1_def)
  qed (use assms ce in \<open>simp_all add: h'_def h2_def h1_def nd_def nd0_def big_def\<close>)
  moreover have "makeBottoms E sl ((c, p) # rest) h = makeBottoms E sl (newStack k c rest nd h) h'"
  proof -
    have "makeRange E sl c p h = (h_next h, h1)"
      by (simp add: makeRange_def ce nd0_def h1_def)
    moreover have "hr_elements (deref h2 (h_next h)) = els"
      unfolding d2 by (simp add: nd0_def)
    moreover have "h_compareThreshold h1 = h_compareThreshold h" "h_divideFactor h2 = 2 ^ k"
      by (simp_all add: h2_def h1_def df)
    ultimately show ?thesis
      by (subst makeBottoms.simps)
        (simp add: Let_def newStack_def h'_def nd_def big_def flip: h2_def)
  qed
  ultimately show ?thesis
    by blast
qed

lemma makeBottoms_inv:
  assumes k: "0 < k" "k < 64" and spr: "spread E k th B" and cnt: "\<And>t. elCount E sl t \<le> int (hits E B t)"
  shows "tree_inv E sl k B stack h \<Longrightarrow> h_compareThreshold h = th \<Longrightarrow>
    \<exists>h'. makeBottoms E sl stack h = Some h' \<and> tree_inv E sl k B [] h' \<and> grows h h'"
proof (induction "stackWork k stack" arbitrary: stack h rule: less_induct)
  case less
  show ?case
  proof (cases stack)
    case Nil
    with less.prems show ?thesis
      by (subst makeBottoms.simps) simp
  next
    case (Cons cr rest)
    obtain c p where st: "stack = (c, p) # rest"
      using Cons by (cases cr) simp
    obtain h1 nd where M: "made_range E sl k B c p rest h h1 nd"
      and step: "makeBottoms E sl stack h = makeBottoms E sl (newStack k c rest nd h) h1"
      using makeRange_made[OF k, of E sl B c p rest h] less.prems spr cnt unfolding st by auto
    have "stackWork k (newStack k c rest nd h) < stackWork k stack"
      using stackWork_decreases[OF M] by (simp add: st)
    from less.hyps[OF this made_tree_inv[OF M]] made_same(4)[OF M] less.prems(2) obtain h'
      where "makeBottoms E sl (newStack k c rest nd h) h1 = Some h'" "tree_inv E sl k B [] h'" "grows h1 h'"
      by auto
    with step made_grows[OF M] show ?thesis
      by (auto intro: grows_trans)
  qed
qed

end
