(* ===== verification/RangeAdd.thy ===== *)
theory RangeAdd
  imports RangeTree
begin

text \<open>
  Adding an element keeps the invariant of the range tree: the descent counts the element in exactly
  the ranges that contain its hash and ends in the one that is not divided, which is divided further
  if it grew too big.
\<close>

section \<open>Levels\<close>

lemma level_unique:
  assumes "0 < k" and "cellAt k l t" and "cellAt k l' t"
  shows "l = l'"
proof -
  have "cellSize k l = cellSize k l'" and le: "k * l \<le> 64" "k * l' \<le> 64"
    using assms(2,3) by (simp_all add: cellAt_def)
  then have "64 - k * l = 64 - k * l'"
    by (simp add: cellSize_def)
  with le have "k * l = k * l'"
    by linarith
  with assms(1) show ?thesis
    by simp
qed

lemma range_cell:
  assumes "shape k stack h" and "mget (h_ranges h) t = Some r"
  obtains l where "cellAt k l t" and "hr_isDivided (deref h r) \<Longrightarrow> k * Suc l \<le> 64"
    and "hr_from (deref h r) = fst t" and "hr_to (deref h r) = snd t"
  using shapeD(3)[OF assms] by (auto simp: placed_def)

lemma range_parent:
  assumes k: "0 < k" "k < 64" and sh: "shape k stack h" and s: "mget (h_ranges h) s = Some q"
    and l: "cellAt k l s" and ne: "s \<noteq> (0, - 1)"
  obtains p tp l' where "hr_parent (deref h q) = Some p" "mget (h_ranges h) tp = Some p"
    "hr_isDivided (deref h p)" "s \<in> set (children k tp)" "l = Suc l'" "cellAt k l' tp" "k * Suc l' \<le> 64"
    "inside s tp"
proof -
  obtain p tp where p: "hr_parent (deref h q) = Some p" "mget (h_ranges h) tp = Some p"
    "hr_isDivided (deref h p)" "s \<in> set (children k tp)"
    using shapeD(4)[OF sh s] ne by (auto simp: rooted_def)
  obtain l' where l': "cellAt k l' tp" "k * Suc l' \<le> 64"
    using range_cell[OF sh p(2)] p(3) by blast
  note c = gen_cell[OF k l' p(4)]
  show thesis
    using that[OF p level_unique[OF k(1) l c(1)] l' c(2)] .
qed

text \<open>A range that strictly contains another range of the map is divided.\<close>

lemma outer_divided:
  assumes k: "0 < k" "k < 64" and sh: "shape k stack h"
    and t: "mget (h_ranges h) t = Some r" "cellAt k l t" "inTuple x t"
  shows "mget (h_ranges h) s = Some q \<Longrightarrow> cellAt k ls s \<Longrightarrow> l < ls \<Longrightarrow> inTuple x s \<Longrightarrow> hr_isDivided (deref h r)"
proof (induction ls arbitrary: s q)
  case (Suc ls)
  have ne: "s \<noteq> (0, - 1)"
    using level_unique[OF k(1) Suc.prems(2)] top_cell[of k] by auto
  obtain p tp l' where p: "mget (h_ranges h) tp = Some p" "hr_isDivided (deref h p)" "Suc ls = Suc l'"
    "cellAt k l' tp" "inside s tp"
    using range_parent[OF k sh Suc.prems(1,2) ne] by metis
  have x: "inTuple x tp"
    using inside_mem[OF p(5) Suc.prems(4)] .
  show ?case
  proof (cases "l = ls")
    case True
    then have "t = tp"
      using cell_unique[OF t(2) _ t(3) x] p(3,4) by simp
    with p t show ?thesis
      by simp
  next
    case False
    then show ?thesis
      using Suc.IH[OF p(1) _ _ x] p(3,4) Suc.prems(3) by simp
  qed
qed simp

lemma leaf_inside:
  assumes k: "0 < k" "k < 64" and sh: "shape k stack h"
    and t: "mget (h_ranges h) t = Some r" "inTuple x t" "\<not> hr_isDivided (deref h r)"
    and s: "mget (h_ranges h) s = Some q" "inTuple x s"
  shows "inside t s"
proof -
  obtain l where l: "cellAt k l t"
    using range_cell[OF sh t(1)] by blast
  obtain ls where ls: "cellAt k ls s"
    using range_cell[OF sh s(1)] by blast
  have "ls \<le> l"
    using outer_divided[OF k sh t(1) l t(2) s(1) ls _ s(2)] t(3) by fastforce
  with cell_nested[OF ls l _ s(2) t(2)] show ?thesis
    by simp
qed

section \<open>Counting\<close>

text \<open>\<open>h'\<close> is \<open>h\<close> with \<open>d\<close> added to the counters of the ranges in \<open>S\<close>.\<close>

definition bumped :: "int \<Rightarrow> (rangeTuple \<Rightarrow> bool) \<Rightarrow> hashRanges \<Rightarrow> hashRanges \<Rightarrow> bool" where
  "bumped d S h h' \<longleftrightarrow> h_next h' = h_next h \<and> h_ranges h' = h_ranges h \<and> h_topRange h' = h_topRange h
     \<and> h_dirty h' = h_dirty h \<and> h_divideFactor h' = h_divideFactor h
     \<and> h_compareThreshold h' = h_compareThreshold h
     \<and> (\<forall>r. deref h' r = (deref h r)\<lparr>hr_elements := hr_elements (deref h' r)\<rparr>)
     \<and> (\<forall>t r. mget (h_ranges h) t = Some r \<longrightarrow>
          hr_elements (deref h' r) = hr_elements (deref h r) + (if S t then d else 0))"

lemma bumped_sel:
  assumes "bumped d S h h'"
  shows "h_next h' = h_next h" "h_ranges h' = h_ranges h" "h_topRange h' = h_topRange h"
    "h_dirty h' = h_dirty h" "h_divideFactor h' = h_divideFactor h"
    "h_compareThreshold h' = h_compareThreshold h" "isDirty h' x = isDirty h x"
  using assms by (simp_all add: bumped_def isDirty_def)

lemma bumped_deref:
  assumes "bumped d S h h'"
  shows "hr_from (deref h' r) = hr_from (deref h r)" "hr_to (deref h' r) = hr_to (deref h r)"
    "hr_parent (deref h' r) = hr_parent (deref h r)" "hr_isDivided (deref h' r) = hr_isDivided (deref h r)"
    "hr_hash (deref h' r) = hr_hash (deref h r)"
proof -
  have eq: "deref h' r = (deref h r)\<lparr>hr_elements := hr_elements (deref h' r)\<rparr>"
    using assms unfolding bumped_def by blast
  show "hr_from (deref h' r) = hr_from (deref h r)" "hr_to (deref h' r) = hr_to (deref h r)"
    "hr_parent (deref h' r) = hr_parent (deref h r)" "hr_isDivided (deref h' r) = hr_isDivided (deref h r)"
    "hr_hash (deref h' r) = hr_hash (deref h r)"
    by (subst eq, simp)+
qed

lemma bumped_elements:
  "bumped d S h h' \<Longrightarrow> mget (h_ranges h) t = Some r \<Longrightarrow>
   hr_elements (deref h' r) = hr_elements (deref h r) + (if S t then d else 0)"
  unfolding bumped_def by blast

lemmas bumped_same = bumped_sel bumped_deref

lemma bumped_shape: "bumped d S h h' \<Longrightarrow> shape k stack h' \<longleftrightarrow> shape k stack h"
proof -
  assume b: "bumped d S h h'"
  have "placed k h' = placed k h" "rooted k h' = rooted k h" "parted k stack h' = parted k stack h"
    "pending k h' = pending k h"
    by (simp_all add: fun_eq_iff placed_def rooted_def parted_def pending_def bumped_same[OF b])
  then show ?thesis
    by (simp add: shape_def bumped_same[OF b])
qed

lemma bumped_trans:
  assumes "bumped d S h h1" and "bumped d S' h1 h2" and "\<And>t. \<not> (S t \<and> S' t)"
  shows "bumped d (\<lambda>t. S t \<or> S' t) h h2"
  unfolding bumped_def
proof (intro conjI allI impI)
  fix r
  show "deref h2 r = (deref h r)\<lparr>hr_elements := hr_elements (deref h2 r)\<rparr>"
    using assms(1,2) unfolding bumped_def by (metis hashRange.surjective hashRange.update_convs(5))
next
  fix t r
  assume "mget (h_ranges h) t = Some r"
  then show "hr_elements (deref h2 r) = hr_elements (deref h r) + (if S t \<or> S' t then d else 0)"
    using bumped_elements[OF assms(1)] bumped_elements[OF assms(2)] bumped_sel(2)[OF assms(1)] assms(3)[of t]
    by auto
qed (simp_all add: bumped_sel[OF assms(1)] bumped_sel[OF assms(2)])

lemma bump_one:
  assumes sh: "shape k stack h" and t: "mget (h_ranges h) t = Some r"
  shows "bumped d (\<lambda>s. s = t) h (updRange r (\<lambda>rng. rng\<lparr>hr_elements := hr_elements rng + d\<rparr>) h)"
proof -
  have "(q = r) = (s = t)" if "mget (h_ranges h) s = Some q" for s q
    using shape_inj[OF sh t, of s] t that by (cases "q = r") auto
  with t show ?thesis
    by (simp add: bumped_def deref_upd)
qed

lemma bumped_cong: "bumped d S h h' \<Longrightarrow> (\<And>t r. mget (h_ranges h) t = Some r \<Longrightarrow> S t = S' t) \<Longrightarrow> bumped d S' h h'"
  unfolding bumped_def by auto

section \<open>The descent\<close>

lemma next_range:
  assumes k: "0 < k" "k < 64" and sh: "shape k [] h" and t: "mget (h_ranges h) t = Some r"
    and l: "cellAt k l t" and div: "hr_isDivided (deref h r)" and x: "inTuple x t"
  obtains c r' where "getBottomRange h r x = Inr (Some r')" "mget (h_ranges h) c = Some r'"
    "cellAt k (Suc l) c" "inTuple x c" "c \<in> set (children k t)" "inside c t"
proof -
  obtain l' where l': "cellAt k l' t" "hr_isDivided (deref h r) \<Longrightarrow> k * Suc l' \<le> 64"
    and b: "hr_from (deref h r) = fst t" "hr_to (deref h r) = snd t"
    using range_cell[OF sh t] by blast
  have kl: "k * Suc l \<le> 64"
    using level_unique[OF k(1) l l'(1)] l'(2)[OF div] by simp
  note df = shapeD(1)[OF sh]
  obtain c where c: "getBottomRange h r x = Inr (mget (h_ranges h) c)" "inTuple x c" "c \<in> set (children k t)"
    using getBottomRange_part[of h r x] power_factor[OF k] cell_divides(2)[OF l kl] x
    by (auto simp: df b inTuple_def)
  moreover from this shapeD(5)[OF sh t] div obtain r' where "mget (h_ranges h) c = Some r'"
    by (auto simp: parted_def)
  ultimately show thesis
    using that gen_cell[OF k l kl c(3)] by simp
qed

text \<open>
  The descent from a range returns; it counts the hash in the ranges strictly inside that contain it,
  and it ends in the smallest one.
\<close>

lemma descend_result:
  assumes k: "0 < k" "k < 64"
  shows "shape k [] h \<Longrightarrow> mget (h_ranges h) t = Some r \<Longrightarrow> cellAt k l t \<Longrightarrow> inTuple x t \<Longrightarrow>
    \<exists>r' t' h'. descend d x r h = pret (r', h') \<and> mget (h_ranges h) t' = Some r' \<and> inTuple x t'
      \<and> \<not> hr_isDivided (deref h r') \<and> bumped d (\<lambda>s. inTuple x s \<and> inside s t \<and> s \<noteq> t) h h'"
proof (induction "64 - l" arbitrary: h t r l rule: less_induct)
  case less
  note sh = less.prems(1) and t = less.prems(2) and l = less.prems(3) and x = less.prems(4)
  show ?case
  proof (cases "hr_isDivided (deref h r)")
    case False
    have "\<not> (inTuple x s \<and> inside s t \<and> s \<noteq> t)" if "mget (h_ranges h) s = Some q" for s q
      using leaf_inside[OF k sh t x False that] by (auto simp: inside_def prod_eq_iff)
    then have "bumped d (\<lambda>s. inTuple x s \<and> inside s t \<and> s \<noteq> t) h h"
      by (auto simp: bumped_def)
    with False t x show ?thesis
      by (subst descend.simps) auto
  next
    case True
    obtain c r1 where c: "getBottomRange h r x = Inr (Some r1)" "mget (h_ranges h) c = Some r1"
      "cellAt k (Suc l) c" "inTuple x c" "c \<in> set (children k t)" "inside c t"
      using next_range[OF k sh t l True x] by blast
    define h1 where "h1 = updRange r1 (\<lambda>rng. rng\<lparr>hr_elements := hr_elements rng + d\<rparr>) h"
    have b1: "bumped d (\<lambda>s. s = c) h h1"
      unfolding h1_def by (rule bump_one[OF sh c(2)])
    have "k * Suc l \<le> 64"
      using c(3) by (simp add: cellAt_def)
    then have lt: "64 - Suc l < 64 - l"
      using k by (cases k) (simp_all add: algebra_simps)
    obtain r' t' h' where ih: "descend d x r1 h1 = pret (r', h')" "mget (h_ranges h) t' = Some r'" "inTuple x t'"
      "\<not> hr_isDivided (deref h r')" "bumped d (\<lambda>s. inTuple x s \<and> inside s c \<and> s \<noteq> c) h1 h'"
      using less.hyps[OF lt, of h1 c r1] bumped_shape[OF b1] sh c by (auto simp: bumped_same[OF b1])
    have ne: "c \<noteq> t"
      using level_unique[OF k(1) c(3), of l] l by fastforce
    have part: "s = c \<or> inTuple x s \<and> inside s c \<and> s \<noteq> c \<longleftrightarrow> inTuple x s \<and> inside s t \<and> s \<noteq> t"
      if s: "mget (h_ranges h) s = Some q" for s q
    proof -
      obtain ls where ls: "cellAt k ls s"
        using range_cell[OF sh s] by blast
      have "inside s c" if st: "inTuple x s" "inside s t" "s \<noteq> t"
      proof -
        have "l < ls"
        proof (rule ccontr)
          assume "\<not> l < ls"
          then have "inside t s"
            using cell_nested[OF ls l _ st(1) x] by simp
          with st(2,3) show False
            by (auto simp: inside_def prod_eq_iff)
        qed
        then show ?thesis
          using cell_nested[OF c(3) ls _ c(4) st(1)] by simp
      qed
      moreover have "inside s c \<Longrightarrow> s \<noteq> c \<Longrightarrow> s \<noteq> t"
        using c(6) by (auto simp: inside_def prod_eq_iff)
      ultimately show ?thesis
        using c(4,6) ne inside_trans by blast
    qed
    have "bumped d (\<lambda>s. inTuple x s \<and> inside s t \<and> s \<noteq> t) h h'"
      using bumped_trans[OF b1 ih(5)] by (rule bumped_cong) (use part in auto)
    with ih c(1) True show ?thesis
      by (subst descend.simps) (auto simp: h1_def)
  qed
qed

section \<open>Marking the leaf\<close>

text \<open>The container changed only in the ranges that contain \<open>x\<close>, and by one element at most.\<close>

definition adds :: "'s ldiffEnv \<Rightarrow> 's \<Rightarrow> 's \<Rightarrow> u64 \<Rightarrow> bool" where
  "adds E sl sl' x \<longleftrightarrow> (\<forall>t. (\<not> inTuple x t \<longrightarrow> elementsIn E sl' (fst t) (snd t) = elementsIn E sl (fst t) (snd t))
     \<and> elCount E sl' t \<le> elCount E sl t + (if inTuple x t then 1 else 0))"

lemma addsD:
  assumes "adds E sl sl' x"
  shows "\<not> inTuple x t \<Longrightarrow> calcElementsHash E sl' (fst t) (snd t) = calcElementsHash E sl (fst t) (snd t)"
    and "elCount E sl' t \<le> elCount E sl t + (if inTuple x t then 1 else 0)"
  using assms[unfolded adds_def, THEN spec, of t] by (simp_all add: calcElementsHash_def)

lemma hits_snoc: "hits E (B @ [e]) t = hits E B t + (if inTuple (xxhash E (e_Id e)) t then 1 else 0)"
  by (simp add: hits_def)

text \<open>
  After the descent: \<open>h2\<close> is \<open>h\<close> with the hash counted in every range that contains it and the leaf
  \<open>r\<close> with bounds \<open>t\<close> marked dirty.
\<close>

definition marked ::
    "'s ldiffEnv \<Rightarrow> 's \<Rightarrow> 's \<Rightarrow> nat \<Rightarrow> Element list \<Rightarrow> Element \<Rightarrow> rangeTuple \<Rightarrow> ref \<Rightarrow> hashRanges \<Rightarrow> hashRanges \<Rightarrow> bool" where
  "marked E sl sl' k B e t r h h2 \<longleftrightarrow> 0 < k \<and> k < 64 \<and> tree_inv E sl k B [] h \<and> adds E sl sl' (xxhash E (e_Id e))
     \<and> mget (h_ranges h) t = Some r \<and> inTuple (xxhash E (e_Id e)) t \<and> \<not> hr_isDivided (deref h r)
     \<and> (\<exists>h1. bumped 1 (inTuple (xxhash E (e_Id e))) h h1 \<and> h2 = addDirty r h1)"

lemma markedD:
  assumes "marked E sl sl' k B e t r h h2"
  shows marked_k: "0 < k" "k < 64" and marked_inv: "tree_inv E sl k B [] h"
    and marked_shape: "shape k [] h"
    and marked_adds: "adds E sl sl' (xxhash E (e_Id e))"
    and marked_leaf: "mget (h_ranges h) t = Some r" "inTuple (xxhash E (e_Id e)) t"
      "\<not> hr_isDivided (deref h r)"
  using assms by (auto simp: marked_def tree_inv_def)

lemma marked_same:
  assumes "marked E sl sl' k B e t r h h2"
  shows "h_next h2 = h_next h" "h_ranges h2 = h_ranges h" "h_topRange h2 = h_topRange h"
    "h_divideFactor h2 = h_divideFactor h" "h_compareThreshold h2 = h_compareThreshold h"
    "isDirty h2 q \<longleftrightarrow> q = r \<or> isDirty h q"
    "hr_from (deref h2 q) = hr_from (deref h q)" "hr_to (deref h2 q) = hr_to (deref h q)"
    "hr_parent (deref h2 q) = hr_parent (deref h q)" "hr_isDivided (deref h2 q) = hr_isDivided (deref h q)"
    "hr_hash (deref h2 q) = hr_hash (deref h q)"
  using assms by (auto simp: marked_def bumped_same)

lemma marked_elements:
  assumes "marked E sl sl' k B e t r h h2" and "mget (h_ranges h) s = Some q"
  shows "hr_elements (deref h2 q) = hr_elements (deref h q) + (if inTuple (xxhash E (e_Id e)) s then 1 else 0)"
  using assms bumped_elements by (fastforce simp: marked_def)

lemma marked_shape':
  assumes M: "marked E sl sl' k B e t r h h2"
  shows "shape k [] h2"
proof -
  have "placed k h2 = placed k h" "rooted k h2 = rooted k h" "parted k [] h2 = parted k [] h"
    by (simp_all add: fun_eq_iff placed_def rooted_def parted_def marked_same[OF M])
  moreover have "\<exists>t. mget (h_ranges h) t = Some q" if "isDirty h2 q" for q
    using that shapeD(8)[OF marked_shape[OF M]] marked_leaf(1)[OF M] by (auto simp: marked_same[OF M])
  ultimately show ?thesis
    using marked_shape[OF M] by (simp add: shape_def marked_same[OF M])
qed

lemma marked_covered:
  assumes M: "marked E sl sl' k B e t r h h2" and s: "mget (h_ranges h) s = Some q" "inTuple (xxhash E (e_Id e)) s"
  shows "covered h2 s"
proof -
  have "inside t s"
    using leaf_inside[OF marked_k[OF M] marked_shape[OF M] marked_leaf(1,2,3)[OF M] s] .
  then show ?thesis
    unfolding covered_def
    by (intro exI[of _ t] exI[of _ r]) (simp add: marked_same[OF M] marked_leaf[OF M])
qed

lemma marked_hashed:
  assumes M: "marked E sl sl' k B e t r h h2"
  shows "hashed E sl' k h2"
  unfolding hashed_def
proof (intro allI impI)
  fix s q
  assume "mget (h_ranges h2) s = Some q"
  then have s: "mget (h_ranges h) s = Some q"
    by (simp add: marked_same[OF M])
  show "hash_ok E sl' k h2 s q \<or> covered h2 s"
  proof (cases "inTuple (xxhash E (e_Id e)) s")
    case False
    have "hashOf h2 = hashOf h"
      by (simp add: fun_eq_iff hashOf_def marked_same[OF M])
    then have "hash_ok E sl' k h2 s q = hash_ok E sl k h s q"
      using False marked_elements[OF M s] addsD(1)[OF marked_adds[OF M] False]
      by (simp add: hash_ok_def marked_same[OF M])
    moreover have "covered h s \<Longrightarrow> covered h2 s"
      by (auto simp: covered_def marked_same[OF M])
    ultimately show ?thesis
      using marked_inv[OF M] s unfolding tree_inv_def hashed_def by blast
  qed (use marked_covered[OF M s] in simp)
qed

lemma marked_counted:
  assumes M: "marked E sl sl' k B e t r h h2" and s: "mget (h_ranges h) s = Some q"
  shows "elCount E sl' s \<le> hr_elements (deref h2 q)"
    and "hr_isDivided (deref h q) \<or> hr_elements (deref h2 q) \<le> int (hits E (B @ [e]) s)
      \<and> (hr_elements (deref h2 q) \<le> h_compareThreshold h \<or> s = t)"
proof -
  have c: "elCount E sl s \<le> hr_elements (deref h q)"
    "hr_isDivided (deref h q) \<or> hr_elements (deref h q) \<le> h_compareThreshold h
      \<and> hr_elements (deref h q) \<le> int (hits E B s)"
    using marked_inv[OF M] s by (auto simp: tree_inv_def counted_def)
  show "elCount E sl' s \<le> hr_elements (deref h2 q)"
    using c(1) addsD(2)[OF marked_adds[OF M], of s] by (simp add: marked_elements[OF M s])
  have "s = t" if leaf: "\<not> hr_isDivided (deref h q)" and x: "inTuple (xxhash E (e_Id e)) s"
  proof -
    have "inside s t" "inside t s"
      using leaf_inside[OF marked_k[OF M] marked_shape[OF M] s x leaf marked_leaf(1,2)[OF M]]
        leaf_inside[OF marked_k[OF M] marked_shape[OF M] marked_leaf[OF M] s x] by simp_all
    then show ?thesis
      by (auto simp: inside_def prod_eq_iff)
  qed
  with c(2) show "hr_isDivided (deref h q) \<or> hr_elements (deref h2 q) \<le> int (hits E (B @ [e]) s)
      \<and> (hr_elements (deref h2 q) \<le> h_compareThreshold h \<or> s = t)"
    by (auto simp: marked_elements[OF M s] hits_snoc)
qed

lemma marked_tree_inv:
  assumes M: "marked E sl sl' k B e t r h h2" and "hr_elements (deref h2 r) \<le> h_compareThreshold h"
  shows "tree_inv E sl' k (B @ [e]) [] h2"
proof -
  have "counted E sl' (B @ [e]) h2"
    unfolding counted_def
  proof (intro allI impI)
    fix s q
    assume "mget (h_ranges h2) s = Some q"
    then have s: "mget (h_ranges h) s = Some q"
      by (simp add: marked_same[OF M])
    have "q = r" if "s = t"
      using that s marked_leaf(1)[OF M] by simp
    with marked_counted[OF M s] assms(2) show "elCount E sl' s \<le> hr_elements (deref h2 q)
        \<and> (hr_isDivided (deref h2 q) \<or> hr_elements (deref h2 q) \<le> h_compareThreshold h2
           \<and> hr_elements (deref h2 q) \<le> int (hits E (B @ [e]) s))"
      by (auto simp: marked_same[OF M])
  qed
  with marked_shape'[OF M] marked_hashed[OF M] show ?thesis
    by (simp add: tree_inv_def)
qed

section \<open>Dividing the leaf\<close>

abbreviation setDivided :: "ref \<Rightarrow> hashRanges \<Rightarrow> hashRanges" where
  "setDivided r h \<equiv> updRange r (\<lambda>rng. rng\<lparr>hr_isDivided := True\<rparr>) h"

lemma setDivided_deref:
  "hr_from (deref (setDivided r h) q) = hr_from (deref h q)" "hr_to (deref (setDivided r h) q) = hr_to (deref h q)"
  "hr_parent (deref (setDivided r h) q) = hr_parent (deref h q)"
  "hr_elements (deref (setDivided r h) q) = hr_elements (deref h q)"
  "hr_hash (deref (setDivided r h) q) = hr_hash (deref h q)"
  "hr_isDivided (deref (setDivided r h) q) \<longleftrightarrow> q = r \<or> hr_isDivided (deref h q)"
  by (simp_all add: deref_upd)

lemma leaf_no_parts:
  assumes k: "0 < k" "k < 64" and sh: "shape k [] h" and t: "mget (h_ranges h) t = Some r" "cellAt k l t" "k * Suc l \<le> 64"
    and leaf: "\<not> hr_isDivided (deref h r)" and c: "c \<in> set (children k t)"
  shows "mget (h_ranges h) c = None"
proof (rule ccontr)
  assume "mget (h_ranges h) c \<noteq> None"
  then obtain q where q: "mget (h_ranges h) c = Some q"
    by auto
  note cell = gen_cell[OF k t(2,3) c]
  have "hr_isDivided (deref h r)"
    by (rule outer_divided[OF k sh t(1,2) _ q cell(1)])
      (use cell_fst_mem[OF cell(1)] inside_mem[OF cell(2)] in auto)
  with leaf show False
    by simp
qed

lemma divided_shape:
  assumes k: "0 < k" "k < 64" and sh: "shape k [] h" and t: "mget (h_ranges h) t = Some r" "cellAt k l t" "k * Suc l \<le> 64"
    and leaf: "\<not> hr_isDivided (deref h r)"
  shows "shape k (map (\<lambda>c. (c, r)) (children k t)) (setDivided r h)"
proof -
  let ?st = "map (\<lambda>c. (c, r)) (children k t)" and ?h = "setDivided r h"
  note same = setDivided_deref[of r h]
  have "placed k ?h s q \<and> rooted k ?h s q \<and> parted k ?st ?h s q" if s: "mget (h_ranges h) s = Some q" for s q
  proof (intro conjI)
    have st: "s = t" if "q = r"
      using shape_inj[OF sh t(1)] s that by simp
    show "placed k ?h s q"
      using shapeD(3)[OF sh s] t(2,3) st by (auto simp: placed_def same)
    show "rooted k ?h s q"
      using shapeD(4)[OF sh s] unfolding rooted_def same by (cases "s = (0, - 1)") (simp, simp, blast)
    show "parted k ?st ?h s q"
    proof (cases "q = r")
      case True
      then show ?thesis
        using st by (auto simp: parted_def)
    next
      case False
      then show ?thesis
        using shapeD(5)[OF sh s] by (simp add: parted_def same)
    qed
  qed
  moreover have "list_all (pending k ?h) ?st"
    using leaf_no_parts[OF k sh t leaf] t(1) by (auto simp: list_all_iff pending_def same)
  moreover have "distinct (map fst ?st)"
    using gen_distinct[OF k t(2,3)] by (simp add: comp_def)
  ultimately show ?thesis
    using sh by (simp add: shape_def)
qed

lemma divided_tree_inv:
  assumes M: "marked E sl sl' k B e t r h h2" and spr: "spread E k (h_compareThreshold h) (B @ [e])"
    and big: "hr_elements (deref h2 r) > h_compareThreshold h"
  shows "tree_inv E sl' k (B @ [e]) (map (\<lambda>c. (c, r)) (children k t)) (setDivided r h2)"
proof -
  note same = setDivided_deref[of r h2] and k = marked_k[OF M] and sh2 = marked_shape'[OF M]
  have t2: "mget (h_ranges h2) t = Some r" and leaf2: "\<not> hr_isDivided (deref h2 r)"
    using marked_leaf[OF M] by (simp_all add: marked_same[OF M])
  obtain l where l: "cellAt k l t"
    using range_cell[OF sh2 t2] by blast
  have "h_compareThreshold h < int (hits E (B @ [e]) t)"
    using marked_counted(2)[OF M marked_leaf(1)[OF M]] marked_leaf(3)[OF M] big by auto
  then have "\<not> sizeOf (fst t) (snd t) < 2 ^ k"
    using spr[unfolded spread_def, THEN spec, of t] by auto
  then have "k \<le> 64 - k * l"
    using l by (simp add: cellAt_def cellSize_def)
  then have kl: "k * Suc l \<le> 64"
    using k by simp
  have "counted E sl' (B @ [e]) (setDivided r h2)"
    unfolding counted_def
  proof (intro allI impI)
    fix s q
    assume "mget (h_ranges (setDivided r h2)) s = Some q"
    then have s: "mget (h_ranges h) s = Some q"
      by (simp add: marked_same[OF M])
    have "q = r" if "s = t"
      using that s marked_leaf(1)[OF M] by simp
    with marked_counted[OF M s] show "elCount E sl' s \<le> hr_elements (deref (setDivided r h2) q)
        \<and> (hr_isDivided (deref (setDivided r h2) q) \<or>
           hr_elements (deref (setDivided r h2) q) \<le> h_compareThreshold (setDivided r h2)
           \<and> hr_elements (deref (setDivided r h2) q) \<le> int (hits E (B @ [e]) s))"
      by (auto simp: same marked_same[OF M])
  qed
  moreover have "hashed E sl' k (setDivided r h2)"
    unfolding hashed_def
  proof (intro allI impI)
    fix s q
    assume s: "mget (h_ranges (setDivided r h2)) s = Some q"
    have cov: "covered (setDivided r h2) s = covered h2 s"
      by (simp add: covered_def)
    have "hashOf (setDivided r h2) = hashOf h2"
      by (simp add: fun_eq_iff hashOf_def same)
    then have "hash_ok E sl' k (setDivided r h2) s q = hash_ok E sl' k h2 s q" if "q \<noteq> r"
      using that by (simp add: hash_ok_def same)
    moreover have "covered h2 s" if "q = r"
      using that s by (auto simp: covered_def marked_same[OF M] intro!: exI[of _ s])
    ultimately show "hash_ok E sl' k (setDivided r h2) s q \<or> covered (setDivided r h2) s"
      using marked_hashed[OF M] s cov unfolding hashed_def updRange_sel by metis
  qed
  ultimately show ?thesis
    using divided_shape[OF k sh2 t2 l kl leaf2] by (simp add: tree_inv_def)
qed

section \<open>Clearing the mark of the parent\<close>

lemma delDirty_tree_inv:
  assumes inv: "tree_inv E sl k B [] h" and p: "mget (h_ranges h) tp = Some p"
    and c: "covered h t" "inside t tp" "t \<noteq> tp"
  shows "tree_inv E sl k B [] (delDirty p h)"
proof -
  have sh: "shape k [] h"
    using inv by (simp add: tree_inv_def)
  obtain s0 x0 where x0: "mget (h_ranges h) s0 = Some x0" "isDirty h x0" "inside s0 t"
    using c(1) by (auto simp: covered_def)
  have "s0 \<noteq> tp"
    using x0(3) c(2,3) by (auto simp: inside_def prod_eq_iff)
  then have ne: "x0 \<noteq> p"
    using shape_inj[OF sh p, of s0] x0(1) by auto
  have cov: "covered (delDirty p h) s" if cs: "covered h s" for s
  proof -
    obtain s1 x1 where x1: "mget (h_ranges h) s1 = Some x1" "isDirty h x1" "inside s1 s"
      using cs by (auto simp: covered_def)
    show ?thesis
    proof (cases "x1 = p")
      case True
      then have "s1 = tp"
        using shape_inj[OF sh p] x1(1) by simp
      then have "inside s0 s"
        using x0(3) c(2) x1(3) inside_trans by blast
      with x0 ne show ?thesis
        unfolding covered_def by (intro exI[of _ s0] exI[of _ x0]) simp
    next
      case False
      with x1 show ?thesis
        unfolding covered_def by (intro exI[of _ s1] exI[of _ x1]) simp
    qed
  qed
  have "placed k (delDirty p h) = placed k h" "rooted k (delDirty p h) = rooted k h"
    "parted k [] (delDirty p h) = parted k [] h"
    by (simp_all add: fun_eq_iff placed_def rooted_def parted_def)
  then have "shape k [] (delDirty p h)"
    using sh by (auto simp: shape_def)
  moreover have "counted E sl B (delDirty p h)"
    using inv by (simp add: tree_inv_def counted_def)
  moreover have "hashOf (delDirty p h) = hashOf h"
    by (simp add: fun_eq_iff hashOf_def)
  then have "hash_ok E sl k (delDirty p h) s q = hash_ok E sl k h s q" for s q
    by (simp add: hash_ok_def)
  then have "hashed E sl k (delDirty p h)"
    using inv cov unfolding tree_inv_def hashed_def dirty_sel by blast
  ultimately show ?thesis
    by (simp add: tree_inv_def)
qed

section \<open>Adding an element\<close>

lemma top_mem [simp]: "inTuple x (0, - 1)" "inside s (0, - 1)"
  by (simp_all add: inTuple_def inside_def)

lemma descend_marked:
  assumes k: "0 < k" "k < 64" and inv: "tree_inv E sl k B [] h" and ad: "adds E sl sl' (xxhash E (e_Id e))"
  shows "\<exists>t r h1. descend 1 (xxhash E (e_Id e)) (h_topRange h) (enterTop 1 h) = pret (r, h1)
    \<and> marked E sl sl' k B e t r h (addDirty r h1)"
proof -
  let ?x = "xxhash E (e_Id e)"
  have sh: "shape k [] h"
    using inv by (simp add: tree_inv_def)
  note top = shapeD(2)[OF sh]
  have b0: "bumped 1 (\<lambda>s. s = (0, - 1)) h (enterTop 1 h)"
    unfolding enterTop_def by (rule bump_one[OF sh top])
  have "shape k [] (enterTop 1 h)" "mget (h_ranges (enterTop 1 h)) (0, - 1) = Some (h_topRange h)"
    using sh top by (simp_all add: bumped_shape[OF b0] bumped_same[OF b0])
  from descend_result[OF k this top_cell top_mem(1), of 1 ?x] obtain r t h1
    where d: "descend 1 ?x (h_topRange h) (enterTop 1 h) = pret (r, h1)" "mget (h_ranges h) t = Some r"
      "inTuple ?x t" "\<not> hr_isDivided (deref h r)"
      "bumped 1 (\<lambda>s. inTuple ?x s \<and> inside s (0, - 1) \<and> s \<noteq> (0, - 1)) (enterTop 1 h) h1"
    by (auto simp: bumped_same[OF b0])
  have "bumped 1 (inTuple ?x) h h1"
    by (rule bumped_cong[OF bumped_trans[OF b0 d(5)]]) auto
  with d k inv ad show ?thesis
    by (auto simp: marked_def)
qed

lemma parent_cleared:
  assumes k: "0 < k" "k < 64" and inv: "tree_inv E sl k B [] h" and t: "mget (h_ranges h) t = Some r" "covered h t"
  shows "tree_inv E sl k B [] (case hr_parent (deref h r) of None \<Rightarrow> h | Some p \<Rightarrow> delDirty p h)"
proof (cases "t = (0, - 1)")
  case True
  have "rooted k h t r"
    using inv shapeD(4)[OF _ t(1)] unfolding tree_inv_def by blast
  with True inv show ?thesis
    by (simp add: rooted_def)
next
  case False
  have sh: "shape k [] h"
    using inv by (simp add: tree_inv_def)
  obtain l where l: "cellAt k l t"
    using range_cell[OF sh t(1)] by blast
  obtain p tp l' where p: "hr_parent (deref h r) = Some p" "mget (h_ranges h) tp = Some p" "l = Suc l'"
    "cellAt k l' tp" "inside t tp"
    using range_parent[OF k sh t(1) l False] by metis
  have "t \<noteq> tp"
    using level_unique[OF k(1) l, of l'] p(3,4) by auto
  with delDirty_tree_inv[OF inv p(2) t(2) p(5)] p(1) show ?thesis
    by simp
qed

lemma addElement_inv:
  assumes k: "0 < k" "k < 64" and inv: "tree_inv E sl k B [] h" and ad: "adds E sl sl' (xxhash E (e_Id e))"
    and spr: "spread E k (h_compareThreshold h) (B @ [e])"
    and cnt: "\<And>t. elCount E sl' t \<le> int (hits E (B @ [e]) t)"
  shows "\<exists>h'. addElement E sl' (xxhash E (e_Id e)) h = pret h' \<and> tree_inv E sl' k (B @ [e]) [] h'
    \<and> h_compareThreshold h' = h_compareThreshold h"
proof -
  obtain t r h1 where d: "descend 1 (xxhash E (e_Id e)) (h_topRange h) (enterTop 1 h) = pret (r, h1)"
    and M: "marked E sl sl' k B e t r h (addDirty r h1)"
    using descend_marked[OF k inv ad] by blast
  define h2 where "h2 = addDirty r h1"
  note M2 = M[folded h2_def]
  have th: "h_compareThreshold h2 = h_compareThreshold h" and df: "h_divideFactor h2 = 2 ^ k"
    and t2: "mget (h_ranges h2) t = Some r"
    and bounds: "hr_from (deref (setDivided r h2) r) = fst t" "hr_to (deref (setDivided r h2) r) = snd t"
    using shapeD(1,3)[OF marked_shape[OF M2]] marked_leaf(1)[OF M2]
    by (simp_all add: marked_same[OF M2] setDivided_deref placed_def)
  have cov: "covered h2 t"
    using marked_covered[OF M2 marked_leaf(1,2)[OF M2]] .
  obtain h3 where h3: "(if hr_elements (deref h2 r) > h_compareThreshold h2
        then makeBottomRanges E sl' r (setDivided r h2) else Some h2) = Some h3"
    and inv3: "tree_inv E sl' k (B @ [e]) [] h3" and gr: "h_compareThreshold h3 = h_compareThreshold h"
      "mget (h_ranges h3) t = Some r" "covered h3 t"
  proof (cases "hr_elements (deref h2 r) > h_compareThreshold h2")
    case True
    note inv2 = divided_tree_inv[OF M2 spr True[unfolded th]]
    have spr2: "spread E k (h_compareThreshold (setDivided r h2)) (B @ [e])"
      using spr th by simp
    obtain h3 where h3: "makeBottoms E sl' (map (\<lambda>c. (c, r)) (children k t)) (setDivided r h2) = Some h3"
      "tree_inv E sl' k (B @ [e]) [] h3" "grows (setDivided r h2) h3"
      using makeBottoms_inv[OF k spr2 cnt inv2 refl] by blast
    have "covered (setDivided r h2) t"
      using cov by (simp add: covered_def)
    with h3(3) t2 th have "h_compareThreshold h3 = h_compareThreshold h" "mget (h_ranges h3) t = Some r" "covered h3 t"
      unfolding grows_def by auto
    with h3 True show thesis
      using that by (simp add: makeBottomRanges_def bounds df)
  next
    case False
    with th have "tree_inv E sl' k (B @ [e]) [] h2"
      using marked_tree_inv[OF M2] by simp
    with that False th t2 cov show thesis
      by simp
  qed
  note final = parent_cleared[OF k inv3 gr(2,3)]
  have "addElement E sl' (xxhash E (e_Id e)) h
      = pret (case hr_parent (deref h3 r) of None \<Rightarrow> h3 | Some parent \<Rightarrow> delDirty parent h3)"
    unfolding addElement_def d pbind_simps prod.case Let_def h2_def[symmetric] h3 option.case ..
  with final gr(1) show ?thesis
    by (cases "hr_parent (deref h3 r)") simp_all
qed

end
