(* ===== verification/RangeHash.thy ===== *)
theory RangeHash
  imports RangeAdd
begin

text \<open>
  Recalculating the hashes: each step makes one range right and passes its mark to the parent, each
  pass moves the marks one level up, so that \<open>recalculateHashes\<close> returns, and at the end every range
  has the hash of its content.
\<close>

section \<open>One step\<close>

text \<open>What a step leaves alone.\<close>

definition sameRanges :: "hashRanges \<Rightarrow> hashRanges \<Rightarrow> bool" where
  "sameRanges h h' \<longleftrightarrow> h_next h' = h_next h \<and> h_ranges h' = h_ranges h \<and> h_topRange h' = h_topRange h
     \<and> h_divideFactor h' = h_divideFactor h \<and> h_compareThreshold h' = h_compareThreshold h
     \<and> (\<forall>q. hr_from (deref h' q) = hr_from (deref h q) \<and> hr_to (deref h' q) = hr_to (deref h q)
          \<and> hr_parent (deref h' q) = hr_parent (deref h q) \<and> hr_isDivided (deref h' q) = hr_isDivided (deref h q))"

lemma sameRanges_refl [simp]: "sameRanges h h"
  by (simp add: sameRanges_def)

lemma sameRanges_trans: "sameRanges h h1 \<Longrightarrow> sameRanges h1 h2 \<Longrightarrow> sameRanges h h2"
  by (simp add: sameRanges_def)

lemma sameD:
  assumes "sameRanges h h'"
  shows "h_next h' = h_next h" "h_ranges h' = h_ranges h" "h_topRange h' = h_topRange h"
    "h_divideFactor h' = h_divideFactor h" "h_compareThreshold h' = h_compareThreshold h"
    "hr_from (deref h' q) = hr_from (deref h q)" "hr_to (deref h' q) = hr_to (deref h q)"
    "hr_parent (deref h' q) = hr_parent (deref h q)" "hr_isDivided (deref h' q) = hr_isDivided (deref h q)"
  using assms by (simp_all add: sameRanges_def)

lemma same_shape:
  assumes s: "sameRanges h h'" and "shape k [] h" and "\<And>x. isDirty h' x \<Longrightarrow> \<exists>t. mget (h_ranges h) t = Some x"
  shows "shape k [] h'"
proof -
  have "placed k h' = placed k h" "rooted k h' = rooted k h" "parted k [] h' = parted k [] h"
    by (simp_all add: fun_eq_iff placed_def rooted_def parted_def sameD[OF s])
  with assms(2,3) show ?thesis
    by (simp add: shape_def sameD[OF s])
qed

text \<open>
  The range \<open>r\<close> with bounds \<open>t\<close> got the right hash, its mark went to its parent, and nothing else
  changed.
\<close>

definition rehashed ::
    "'s ldiffEnv \<Rightarrow> 's \<Rightarrow> nat \<Rightarrow> Element list \<Rightarrow> rangeTuple \<Rightarrow> ref \<Rightarrow> hashRanges \<Rightarrow> hashRanges \<Rightarrow> bool" where
  "rehashed E sl k B t r h h' \<longleftrightarrow> 0 < k \<and> k < 64 \<and> tree_inv E sl k B [] h \<and> mget (h_ranges h) t = Some r
     \<and> sameRanges h h' \<and> (\<forall>q. q \<noteq> r \<longrightarrow> deref h' q = deref h q)
     \<and> (\<forall>x. isDirty h' x \<longleftrightarrow> hr_parent (deref h r) = Some x \<or> x \<noteq> r \<and> isDirty h x)
     \<and> (if hr_isDivided (deref h r)
        then hr_elements (deref h' r) = hr_elements (deref h r)
          \<and> hr_hash (deref h' r) = blake3 E (concat (map (hashOf h) (children k t)))
        else calcElementsHash E sl (fst t) (snd t) = (hr_hash (deref h' r), hr_elements (deref h' r)))"

lemma rehashedD:
  assumes "rehashed E sl k B t r h h'"
  shows re_k: "0 < k" "k < 64" and re_inv: "tree_inv E sl k B [] h" and re_shape: "shape k [] h"
    and re_range: "mget (h_ranges h) t = Some r" and re_same: "sameRanges h h'"
    and re_other: "\<And>q. q \<noteq> r \<Longrightarrow> deref h' q = deref h q"
    and re_dirty: "\<And>x. isDirty h' x \<longleftrightarrow> hr_parent (deref h r) = Some x \<or> x \<noteq> r \<and> isDirty h x"
    and re_node: "if hr_isDivided (deref h r)
        then hr_elements (deref h' r) = hr_elements (deref h r)
          \<and> hr_hash (deref h' r) = blake3 E (concat (map (hashOf h) (children k t)))
        else calcElementsHash E sl (fst t) (snd t) = (hr_hash (deref h' r), hr_elements (deref h' r))"
  using assms unfolding rehashed_def tree_inv_def by blast+

lemma re_shape':
  assumes R: "rehashed E sl k B t r h h'"
  shows "shape k [] h'"
proof (rule same_shape[OF re_same[OF R] re_shape[OF R]])
  fix x
  assume "isDirty h' x"
  then consider "hr_parent (deref h r) = Some x" | "isDirty h x"
    using re_dirty[OF R] by auto
  then show "\<exists>t. mget (h_ranges h) t = Some x"
  proof cases
    case 1
    with shapeD(4)[OF re_shape[OF R] re_range[OF R]] show ?thesis
      by (auto simp: rooted_def split: if_split_asm)
  next
    case 2
    then show ?thesis
      using shapeD(8)[OF re_shape[OF R]] by blast
  qed
qed

lemma re_counted:
  assumes R: "rehashed E sl k B t r h h'"
  shows "counted E sl B h'"
  unfolding counted_def
proof (intro allI impI)
  fix s q
  assume "mget (h_ranges h') s = Some q"
  then have s: "mget (h_ranges h) s = Some q"
    by (simp add: sameD[OF re_same[OF R]])
  have old: "elCount E sl s \<le> hr_elements (deref h q) \<and> (hr_isDivided (deref h q) \<or>
      hr_elements (deref h q) \<le> h_compareThreshold h \<and> hr_elements (deref h q) \<le> int (hits E B s))"
    using re_inv[OF R] s unfolding tree_inv_def counted_def by blast
  have "hr_elements (deref h' q) = (if hr_isDivided (deref h q) then hr_elements (deref h q) else elCount E sl s)"
    if "q = r"
  proof -
    have "s = t"
      using shape_inj[OF re_shape[OF R] re_range[OF R], of s] s that by simp
    with that re_node[OF R] show ?thesis
      by (simp add: calcElementsHash_def elCount_def Let_def split: if_split_asm)
  qed
  moreover have "hr_elements (deref h' q) = hr_elements (deref h q)" if "q \<noteq> r"
    using re_other[OF R that] by simp
  ultimately show "elCount E sl s \<le> hr_elements (deref h' q) \<and> (hr_isDivided (deref h' q) \<or>
      hr_elements (deref h' q) \<le> h_compareThreshold h' \<and> hr_elements (deref h' q) \<le> int (hits E B s))"
    using old by (cases "q = r") (auto simp: sameD[OF re_same[OF R]])
qed

lemma re_hashOf:
  assumes R: "rehashed E sl k B t r h h'" and "c \<noteq> t" and "mget (h_ranges h) c \<noteq> None"
  shows "hashOf h' c = hashOf h c"
proof -
  obtain q where q: "mget (h_ranges h) c = Some q"
    using assms(3) by auto
  have "q \<noteq> r"
    using shape_inj[OF re_shape[OF R] re_range[OF R], of c] q assms(2) by auto
  then show ?thesis
    using q re_other[OF R] by (simp add: hashOf_def sameD[OF re_same[OF R]])
qed

lemma parts_present:
  assumes "shape k [] h" and "mget (h_ranges h) t = Some r" and "hr_isDivided (deref h r)"
  shows "\<forall>c \<in> set (children k t). mget (h_ranges h) c \<noteq> None"
  using shapeD(5)[OF assms(1,2)] assms(3) by (auto simp: parted_def)

lemma hash_ok_moves:
  assumes R: "rehashed E sl k B t r h h'" and s: "mget (h_ranges h) s = Some q" and ne: "q \<noteq> r"
    and "hash_ok E sl k h s q" and notin: "hr_isDivided (deref h q) \<Longrightarrow> t \<notin> set (children k s)"
  shows "hash_ok E sl k h' s q"
proof (cases "hr_isDivided (deref h q)")
  case True
  have "hashOf h' c = hashOf h c" if "c \<in> set (children k s)" for c
    using re_hashOf[OF R, of c] parts_present[OF re_shape[OF R] s True] notin[OF True] that by blast
  then have eq: "map (hashOf h') (children k s) = map (hashOf h) (children k s)"
    by simp
  show ?thesis
    using assms(4) True re_other[OF R ne] unfolding hash_ok_def eq by (simp add: sameD[OF re_same[OF R]])
next
  case False
  then show ?thesis
    using assms(4) re_other[OF R ne] by (simp add: hash_ok_def)
qed

lemma re_ok:
  assumes R: "rehashed E sl k B t r h h'"
  shows "hash_ok E sl k h' t r"
proof (cases "hr_isDivided (deref h r)")
  case True
  note k = re_k[OF R] and parts = parts_present[OF re_shape[OF R] re_range[OF R] True]
  obtain l where l: "cellAt k l t" "k * Suc l \<le> 64"
    using range_cell[OF re_shape[OF R] re_range[OF R]] True by blast
  have "hashOf h' c = hashOf h c" if c: "c \<in> set (children k t)" for c
  proof (rule re_hashOf[OF R])
    show "c \<noteq> t"
      using level_unique[OF k(1) gen_cell(1)[OF k l c], of l] l(1) by auto
    show "mget (h_ranges h) c \<noteq> None"
      using parts c by blast
  qed
  then have eq: "map (hashOf h') (children k t) = map (hashOf h) (children k t)"
    by simp
  from True parts re_node[OF R] show ?thesis
    unfolding hash_ok_def eq by (simp add: sameD[OF re_same[OF R]])
next
  case False
  with re_node[OF R] show ?thesis
    by (simp add: hash_ok_def sameD[OF re_same[OF R]])
qed

text \<open>The parent of the range covers everything that strictly contains the range.\<close>

lemma parent_covers:
  assumes R: "rehashed E sl k B t r h h'" and s: "mget (h_ranges h) s = Some q" and i: "inside t s" "s \<noteq> t"
  shows "covered h' s"
proof -
  note k = re_k[OF R] and sh = re_shape[OF R]
  obtain l where l: "cellAt k l t"
    using range_cell[OF sh re_range[OF R]] by blast
  obtain ls where ls: "cellAt k ls s"
    using range_cell[OF sh s] by blast
  have ft: "inTuple (fst t) t" "inTuple (fst t) s"
    using cell_fst_mem[OF l] inside_mem[OF i(1)] by auto
  have lt: "ls < l"
  proof (rule ccontr)
    assume "\<not> ls < l"
    then have "inside s t"
      using cell_nested[OF l ls _ ft] by simp
    with i show False
      by (auto simp: inside_def prod_eq_iff)
  qed
  then have "t \<noteq> (0, - 1)"
    using level_unique[OF k(1) l, of 0] top_cell[of k] by auto
  then obtain p tp l' where p: "hr_parent (deref h r) = Some p" "mget (h_ranges h) tp = Some p" "l = Suc l'"
    "cellAt k l' tp" "inside t tp"
    using range_parent[OF k sh re_range[OF R] l] by metis
  have "inside tp s"
    using cell_nested[OF ls p(4) _ ft(2)] inside_mem[OF p(5) ft(1)] lt p(3) by simp
  with p(1,2) show ?thesis
    unfolding covered_def
    by (intro exI[of _ tp] exI[of _ p]) (simp add: sameD[OF re_same[OF R]] re_dirty[OF R])
qed

lemma re_hashed:
  assumes R: "rehashed E sl k B t r h h'"
  shows "hashed E sl k h'"
  unfolding hashed_def
proof (intro allI impI)
  fix s q
  assume "mget (h_ranges h') s = Some q"
  then have s: "mget (h_ranges h) s = Some q"
    by (simp add: sameD[OF re_same[OF R]])
  note k = re_k[OF R] and sh = re_shape[OF R]
  show "hash_ok E sl k h' s q \<or> covered h' s"
  proof (cases "s = t")
    case True
    then show ?thesis
      using re_ok[OF R] s re_range[OF R] by simp
  next
    case False
    then have ne: "q \<noteq> r"
      using shape_inj[OF sh re_range[OF R], of s] s by auto
    show ?thesis
    proof (cases "inside t s")
      case True
      then show ?thesis
        using parent_covers[OF R s] False by simp
    next
      case notin: False
      have "t \<notin> set (children k s)" if dv: "hr_isDivided (deref h q)"
      proof
        obtain ls where ls: "cellAt k ls s" "k * Suc ls \<le> 64"
          using range_cell[OF sh s] dv by blast
        assume "t \<in> set (children k s)"
        with gen_cell(2)[OF k ls] notin show False
          by blast
      qed
      then have "hash_ok E sl k h' s q" if "hash_ok E sl k h s q"
        using hash_ok_moves[OF R s ne that] by blast
      moreover have "covered h' s" if c: "covered h s"
      proof -
        obtain s1 x1 where x1: "mget (h_ranges h) s1 = Some x1" "isDirty h x1" "inside s1 s"
          using c by (auto simp: covered_def)
        have "x1 \<noteq> r"
          using shape_inj[OF sh re_range[OF R], of s1] x1(1,3) notin by auto
        with x1 show ?thesis
          unfolding covered_def
          by (intro exI[of _ s1] exI[of _ x1]) (simp add: sameD[OF re_same[OF R]] re_dirty[OF R])
      qed
      ultimately show ?thesis
        using re_inv[OF R] s unfolding tree_inv_def hashed_def by blast
    qed
  qed
qed

lemma re_tree_inv:
  assumes R: "rehashed E sl k B t r h h'"
  shows "tree_inv E sl k B [] h'"
  using re_shape'[OF R] re_counted[OF R] re_hashed[OF R] by (simp add: tree_inv_def)

lemma children_hashes:
  assumes sh: "shape k [] h" and t: "mget (h_ranges h) t = Some r" and "hr_isDivided (deref h r)"
  shows "calcDividedHash E h r = Inr (blake3 E (concat (map (hashOf h) (children k t))))"
proof -
  have "childHash h c = Inr (hashOf h c)" if "c \<in> set (children k t)" for c
    using parts_present[OF assms] that by (auto simp: childHash_def hashOf_def)
  then have "rmap (childHash h) (children k t) = Inr (map (hashOf h) (children k t))"
    by (simp add: rmap_Inr_iff)
  moreover have "hr_from (deref h r) = fst t" "hr_to (deref h r) = snd t"
    using shapeD(3)[OF sh t] by (simp_all add: placed_def)
  ultimately show ?thesis
    by (simp add: calcDividedHash_def shapeD(1)[OF sh])
qed

lemma recalcOne_rehashed:
  assumes k: "0 < k" "k < 64" and inv: "tree_inv E sl k B [] h" and t: "mget (h_ranges h) t = Some r"
  shows "\<exists>h'. recalcOne E sl r h = Inr h' \<and> rehashed E sl k B t r h h'"
proof -
  have sh: "shape k [] h"
    using inv by (simp add: tree_inv_def)
  have b: "hr_from (deref h r) = fst t" "hr_to (deref h r) = snd t"
    using shapeD(3)[OF sh t] by (simp_all add: placed_def)
  obtain hash els where ce: "calcElementsHash E sl (fst t) (snd t) = (hash, els)"
    by force
  define h1 where "h1 = updRange r (if hr_isDivided (deref h r)
    then (\<lambda>rng. rng\<lparr>hr_hash := blake3 E (concat (map (hashOf h) (children k t)))\<rparr>)
    else (\<lambda>rng. rng\<lparr>hr_hash := hash, hr_elements := els\<rparr>)) h"
  define h' where "h' = (case hr_parent (deref h1 r) of
      None \<Rightarrow> delDirty r h1 | Some parent \<Rightarrow> addDirty parent (delDirty r h1))"
  have "recalcOne E sl r h = Inr h'"
    unfolding h'_def h1_def using children_hashes[OF sh t, of E]
    by (cases "hr_isDivided (deref h r)") (simp_all add: recalcOne_def b ce)
  moreover have par: "hr_parent (deref h1 r) = hr_parent (deref h r)"
    by (simp add: h1_def deref_upd)
  have h1: "sameRanges h h1" "\<And>q. q \<noteq> r \<Longrightarrow> deref h1 q = deref h q" "isDirty h1 x = isDirty h x" for x
    by (simp_all add: sameRanges_def h1_def deref_upd)
  have "rehashed E sl k B t r h h'"
    unfolding rehashed_def
  proof (intro conjI allI impI)
    have "sameRanges h1 h'"
      by (simp add: h'_def sameRanges_def split: option.split)
    with h1(1) show "sameRanges h h'"
      by (rule sameRanges_trans)
    show "deref h' q = deref h q" if "q \<noteq> r" for q
      using h1(2)[OF that] by (simp add: h'_def split: option.split)
    show "isDirty h' x \<longleftrightarrow> hr_parent (deref h r) = Some x \<or> x \<noteq> r \<and> isDirty h x" for x
      by (auto simp: h'_def par h1(3) split: option.split)
    have "deref h' r = deref h1 r"
      by (simp add: h'_def split: option.split)
    then show "if hr_isDivided (deref h r)
        then hr_elements (deref h' r) = hr_elements (deref h r)
          \<and> hr_hash (deref h' r) = blake3 E (concat (map (hashOf h) (children k t)))
        else calcElementsHash E sl (fst t) (snd t) = (hr_hash (deref h' r), hr_elements (deref h' r))"
      by (simp add: h1_def deref_upd ce)
  qed (use k inv t in simp_all)
  ultimately show ?thesis
    by blast
qed

section \<open>One pass\<close>

lemma recalc_list:
  assumes k: "0 < k" "k < 64"
  shows "tree_inv E sl k B [] h \<Longrightarrow> (\<And>r. r \<in> set xs \<Longrightarrow> \<exists>t. mget (h_ranges h) t = Some r) \<Longrightarrow>
    \<exists>h'. rfold (recalcOne E sl) xs h = Inr h' \<and> tree_inv E sl k B [] h' \<and> sameRanges h h'
      \<and> (\<forall>x. isDirty h' x \<longrightarrow> isDirty h x \<and> x \<notin> set xs \<or> (\<exists>r \<in> set xs. hr_parent (deref h r) = Some x))"
proof (induction xs arbitrary: h)
  case (Cons r xs)
  obtain t where "mget (h_ranges h) t = Some r"
    using Cons.prems(2)[OF list.set_intros(1)] by blast
  from recalcOne_rehashed[OF k Cons.prems(1) this] obtain h1 where
    h1: "recalcOne E sl r h = Inr h1" and R: "rehashed E sl k B t r h h1"
    by blast
  obtain h' where h': "rfold (recalcOne E sl) xs h1 = Inr h'" "tree_inv E sl k B [] h'" "sameRanges h1 h'"
    "\<forall>x. isDirty h' x \<longrightarrow> isDirty h1 x \<and> x \<notin> set xs \<or> (\<exists>r \<in> set xs. hr_parent (deref h1 r) = Some x)"
    using Cons.IH[OF re_tree_inv[OF R]] Cons.prems(2) by (auto simp: sameD[OF re_same[OF R]])
  have "isDirty h x \<and> x \<notin> set (r # xs) \<or> (\<exists>r' \<in> set (r # xs). hr_parent (deref h r') = Some x)"
    if "isDirty h' x" for x
    using h'(4)[THEN spec, of x] that by (auto simp: sameD[OF re_same[OF R]] re_dirty[OF R])
  with h1 h' re_same[OF R] show ?case
    using sameRanges_trans by auto
qed simp

section \<open>The loop\<close>

definition dirtyBelow :: "nat \<Rightarrow> nat \<Rightarrow> hashRanges \<Rightarrow> bool" where
  "dirtyBelow k n h \<longleftrightarrow> (\<forall>x. isDirty h x \<longrightarrow> (\<exists>t l. mget (h_ranges h) t = Some x \<and> cellAt k l t \<and> l < n))"

lemma isDirty_key: "isDirty h x \<longleftrightarrow> x \<in> set (mkeys (h_dirty h))"
  by (simp add: isDirty_def map_of_eq_None_iff)

lemma recalcRound_moves_up:
  assumes k: "0 < k" "k < 64" and inv: "tree_inv E sl k B [] h" and below: "dirtyBelow k (Suc n) h"
  shows "\<exists>h'. recalcRound E sl h = Inr h' \<and> tree_inv E sl k B [] h' \<and> sameRanges h h' \<and> dirtyBelow k n h'"
proof -
  have sh: "shape k [] h"
    using inv by (simp add: tree_inv_def)
  define xs where "xs = sort_key (\<lambda>r. hr_level (deref h r)) (mkeys (h_dirty h))"
  have xs: "x \<in> set xs \<longleftrightarrow> isDirty h x" for x
    by (simp add: xs_def isDirty_key)
  obtain h' where h': "rfold (recalcOne E sl) xs h = Inr h'" "tree_inv E sl k B [] h'" "sameRanges h h'"
    "\<forall>x. isDirty h' x \<longrightarrow> isDirty h x \<and> x \<notin> set xs \<or> (\<exists>r \<in> set xs. hr_parent (deref h r) = Some x)"
    using recalc_list[OF k inv, of xs] shapeD(8)[OF sh] xs by auto
  have "dirtyBelow k n h'"
    unfolding dirtyBelow_def
  proof (intro allI impI)
    fix x
    assume "isDirty h' x"
    with h'(4) xs obtain r where r: "isDirty h r" "hr_parent (deref h r) = Some x"
      by blast
    from below r(1) obtain t l where t: "mget (h_ranges h) t = Some r" "cellAt k l t" "l < Suc n"
      unfolding dirtyBelow_def by blast
    have "t \<noteq> (0, - 1)"
      using shapeD(4)[OF sh t(1)] r(2) by (auto simp: rooted_def)
    from range_parent[OF k sh t(1,2) this] r(2) obtain tp l' where
      "mget (h_ranges h) tp = Some x" "l = Suc l'" "cellAt k l' tp"
      by (metis option.inject)
    with t(3) show "\<exists>t l. mget (h_ranges h') t = Some x \<and> cellAt k l t \<and> l < n"
      by (auto simp: sameD[OF h'(3)])
  qed
  with h' show ?thesis
    by (auto simp: recalcRound_def xs_def)
qed

lemma recalculateHashes_below:
  assumes k: "0 < k" "k < 64"
  shows "tree_inv E sl k B [] h \<Longrightarrow> dirtyBelow k n h \<Longrightarrow>
    \<exists>h'. recalculateHashes E sl h = pret h' \<and> tree_inv E sl k B [] h' \<and> sameRanges h h' \<and> h_dirty h' = []"
proof (induction n arbitrary: h)
  case 0
  have "h_dirty h = []"
  proof (rule ccontr)
    assume "h_dirty h \<noteq> []"
    then obtain x where "isDirty h x"
      by (cases "h_dirty h") (auto simp: isDirty_key)
    with 0 show False
      by (auto simp: dirtyBelow_def)
  qed
  with 0 show ?case
    by (subst recalculateHashes.simps) simp
next
  case (Suc n)
  show ?case
  proof (cases "h_dirty h = []")
    case True
    with Suc.prems show ?thesis
      by (subst recalculateHashes.simps) simp
  next
    case False
    obtain h1 where h1: "recalcRound E sl h = Inr h1" "tree_inv E sl k B [] h1" "sameRanges h h1" "dirtyBelow k n h1"
      using recalcRound_moves_up[OF k Suc.prems] by blast
    from Suc.IH[OF h1(2,4)] h1(1,3) False show ?thesis
      by (subst recalculateHashes.simps) (auto intro: sameRanges_trans)
  qed
qed

text \<open>\<open>recalculateHashes\<close> returns; nothing is dirty then and every range has the hash of its content.\<close>

lemma recalculateHashes_settles:
  assumes k: "0 < k" "k < 64" and inv: "tree_inv E sl k B [] h"
  shows "\<exists>h'. recalculateHashes E sl h = pret h' \<and> tree_inv E sl k B [] h' \<and> sameRanges h h' \<and> h_dirty h' = []"
proof (rule recalculateHashes_below[OF k inv])
  show "dirtyBelow k 65 h"
    unfolding dirtyBelow_def
  proof (intro allI impI)
    fix x
    assume "isDirty h x"
    have sh: "shape k [] h"
      using inv by (simp add: tree_inv_def)
    from shapeD(8)[OF this \<open>isDirty h x\<close>] obtain t where t: "mget (h_ranges h) t = Some x"
      by blast
    obtain l where l: "cellAt k l t"
      using range_cell[OF sh t] by blast
    then have "l < 65"
      using k(1) by (cases k) (simp_all add: cellAt_def)
    with t l show "\<exists>t l. mget (h_ranges h) t = Some x \<and> cellAt k l t \<and> l < 65"
      by blast
  qed
qed

lemma settled_hash_ok:
  assumes "tree_inv E sl k B [] h" and "h_dirty h = []" and "mget (h_ranges h) t = Some r"
  shows "hash_ok E sl k h t r"
proof -
  have "\<not> covered h t"
    using assms(2) by (simp add: covered_def isDirty_def)
  with assms(1,3) show ?thesis
    unfolding tree_inv_def hashed_def by blast
qed

end
