(* ===== verification/LdiffContainer.thy ===== *)
theory LdiffContainer
  imports LdiffProtocol RangeHash
begin

declare split_paired_All [simp del] split_paired_Ex [simp del]

text \<open>
  The container of the list diff over its skip list: what the operations do to the elements, and that
  building a container and setting elements return with the range tree in order.
\<close>

section \<open>The skip list\<close>

text \<open>
  The elements of the list in order. A list of this package holds elements with the hash of their id,
  and no empty id.
\<close>

abbreviation view :: "'s ldiffEnv \<Rightarrow> 's \<Rightarrow> element list" where
  "view E sl \<equiv> slFrontNext E sl"

definition keyed :: "'s ldiffEnv \<Rightarrow> element \<Rightarrow> bool" where
  "keyed E el \<longleftrightarrow> el_hash el = xxhash E (e_Id (el_Element el)) \<and> e_Id (el_Element el) \<noteq> []"

definition sl_ok :: "'s ldiffEnv \<Rightarrow> 's \<Rightarrow> bool" where
  "sl_ok E sl \<longleftrightarrow> sorted_wrt (\<lambda>a b. Compare a b < 0) (view E sl) \<and> (\<forall>el \<in> set (view E sl). keyed E el)"

text \<open>
  What the code relies on: a skip list keeps its keys in the order of its comparison, \<open>Find\<close> gives
  the first key that is not below the one searched, and a hash is never empty.
\<close>

definition env_ok :: "'s ldiffEnv \<Rightarrow> bool" where
  "env_ok E \<longleftrightarrow> view E (slNew E) = [] \<and> (\<forall>b. blake3 E b \<noteq> [])
     \<and> (\<forall>sl el. sl_ok E sl \<longrightarrow> keyed E el \<longrightarrow>
          view E (fst (slRemoveKey E el sl)) = filter (\<lambda>x. Compare x el \<noteq> 0) (view E sl)
          \<and> ((\<forall>x \<in> set (view E sl). Compare x el \<noteq> 0) \<longrightarrow>
             view E (slSetKey E el sl) =
               filter (\<lambda>x. Compare x el < 0) (view E sl) @ el # filter (\<lambda>x. 0 < Compare x el) (view E sl)))
     \<and> (\<forall>sl h. sl_ok E sl \<longrightarrow>
          slFindNext E sl \<lparr>el_Element = \<lparr>e_Id = [], e_Head = []\<rparr>, el_hash = h\<rparr>
            = dropWhile (\<lambda>x. Compare x \<lparr>el_Element = \<lparr>e_Id = [], e_Head = []\<rparr>, el_hash = h\<rparr> < 0) (view E sl))"

lemma env_okD:
  assumes "env_ok E"
  shows "view E (slNew E) = []" and "blake3 E b \<noteq> []"
    and "sl_ok E sl \<Longrightarrow> keyed E el \<Longrightarrow>
      view E (fst (slRemoveKey E el sl)) = filter (\<lambda>x. Compare x el \<noteq> 0) (view E sl)"
    and "sl_ok E sl \<Longrightarrow> keyed E el \<Longrightarrow> (\<forall>x \<in> set (view E sl). Compare x el \<noteq> 0) \<Longrightarrow>
      view E (slSetKey E el sl) =
        filter (\<lambda>x. Compare x el < 0) (view E sl) @ el # filter (\<lambda>x. 0 < Compare x el) (view E sl)"
    and "sl_ok E sl \<Longrightarrow> slFindNext E sl \<lparr>el_Element = \<lparr>e_Id = [], e_Head = []\<rparr>, el_hash = h\<rparr>
      = dropWhile (\<lambda>x. Compare x \<lparr>el_Element = \<lparr>e_Id = [], e_Head = []\<rparr>, el_hash = h\<rparr> < 0) (view E sl)"
  using assms unfolding env_ok_def by blast+

section \<open>The order\<close>

definition keyLess :: "element \<Rightarrow> element \<Rightarrow> bool" where
  "keyLess a b \<longleftrightarrow> el_hash a < el_hash b \<or> el_hash a = el_hash b \<and> e_Id (el_Element a) < e_Id (el_Element b)"

lemma keyLess_trans: "keyLess a b \<Longrightarrow> keyLess b c \<Longrightarrow> keyLess a c"
  by (auto simp: keyLess_def)

lemma Compare_keyLess:
  assumes "keyed E a" and "keyed E b"
  shows "Compare a b < 0 \<longleftrightarrow> keyLess a b" and "0 < Compare a b \<longleftrightarrow> keyLess b a"
    and "Compare a b = 0 \<longleftrightarrow> e_Id (el_Element a) = e_Id (el_Element b)"
  using assms by (auto simp: Compare_def keyLess_def keyed_def)

lemma Compare_same_hash: "keyed E a \<Longrightarrow> keyed E b \<Longrightarrow> Compare a b = 0 \<Longrightarrow> el_hash a = el_hash b"
  using Compare_keyLess(3)[of E a b] by (simp add: keyed_def)

lemma Compare_total: "Compare a b < 0 \<or> Compare a b = 0 \<or> 0 < Compare a b"
  by linarith

lemma sl_okD:
  assumes "sl_ok E sl"
  shows "sorted_wrt keyLess (view E sl)" and "el \<in> set (view E sl) \<Longrightarrow> keyed E el"
proof -
  have k: "\<forall>el \<in> set (view E sl). keyed E el"
    using assms by (simp add: sl_ok_def)
  show "sorted_wrt keyLess (view E sl)"
    by (rule sorted_wrt_mono_rel[of _ "\<lambda>a b. Compare a b < 0"])
      (use assms k Compare_keyLess(1)[of E] in \<open>auto simp: sl_ok_def\<close>)
  show "el \<in> set (view E sl) \<Longrightarrow> keyed E el"
    using k by blast
qed

lemma sl_okI:
  assumes "sorted_wrt keyLess (view E sl)" and "\<And>el. el \<in> set (view E sl) \<Longrightarrow> keyed E el"
  shows "sl_ok E sl"
proof -
  have "sorted_wrt (\<lambda>a b. Compare a b < 0) (view E sl)"
    by (rule sorted_wrt_mono_rel[OF _ assms(1)]) (use assms(2) Compare_keyLess(1) in blast)
  with assms(2) show ?thesis
    by (simp add: sl_ok_def)
qed

lemma sorted_parts:
  assumes "sorted_wrt keyLess xs" and "\<And>x. x \<in> set xs \<Longrightarrow> keyed E x" and el: "keyed E el"
  shows "xs = filter (\<lambda>x. Compare x el < 0) xs @ filter (\<lambda>x. Compare x el = 0) xs @ filter (\<lambda>x. 0 < Compare x el) xs"
  using assms(1,2)
proof (induction xs)
  case (Cons x xs)
  have above: "0 < Compare y el" if "y \<in> set xs" "0 \<le> Compare x el" for y
  proof -
    have y: "keyLess x y" "keyed E y" "keyed E x"
      using Cons.prems that(1) by auto
    from that(2) consider "0 < Compare x el" | "Compare x el = 0"
      by linarith
    then have "keyLess el y"
    proof cases
      case 1
      then show ?thesis
        using Compare_keyLess(2)[OF y(3) el] y(1) keyLess_trans by blast
    next
      case 2
      then have "el_hash x = el_hash el" "e_Id (el_Element x) = e_Id (el_Element el)"
        using Compare_keyLess(3)[OF y(3) el] Compare_same_hash[OF y(3) el] by auto
      with y(1) show ?thesis
        by (simp add: keyLess_def)
    qed
    then show ?thesis
      using Compare_keyLess(2)[OF y(2) el] by simp
  qed
  have ih: "xs = filter (\<lambda>x. Compare x el < 0) xs @ filter (\<lambda>x. Compare x el = 0) xs @ filter (\<lambda>x. 0 < Compare x el) xs"
    using Cons by simp
  show ?case
  proof (cases "Compare x el < 0")
    case True
    with ih show ?thesis
      by simp
  next
    case False
    then have "filter (\<lambda>x. Compare x el < 0) xs = []" "filter (\<lambda>x. Compare x el = 0) xs = []"
      "filter (\<lambda>x. 0 < Compare x el) xs = xs"
      using above by (force simp: filter_empty_conv filter_id_conv)+
    with False show ?thesis
      by simp
  qed
qed simp

section \<open>The elements of a range\<close>

lemma takeWhile_sorted:
  "sorted_wrt (\<lambda>a b. f a \<le> f b) xs \<Longrightarrow> takeWhile (\<lambda>x. f x \<le> (c :: 'b :: linorder)) xs = filter (\<lambda>x. f x \<le> c) xs"
  by (induction xs) (auto simp: filter_empty_conv empty_filter_conv, meson order_trans)

lemma dropWhile_sorted:
  "sorted_wrt (\<lambda>a b. f a \<le> f b) xs \<Longrightarrow> dropWhile (\<lambda>x. f x < (c :: 'b :: linorder)) xs = filter (\<lambda>x. c \<le> f x) xs"
proof (induction xs)
  case (Cons x xs)
  show ?case
  proof (cases "f x < c")
    case False
    then have "filter (\<lambda>x. c \<le> f x) (x # xs) = x # xs"
      using Cons.prems by (intro filter_True) auto
    with False show ?thesis
      by simp
  qed (use Cons in simp)
qed simp

lemma view_sorted: "sl_ok E sl \<Longrightarrow> sorted_wrt (\<lambda>a b. el_hash a \<le> el_hash b) (view E sl)"
  by (rule sorted_wrt_mono_rel[OF _ sl_okD(1)]) (auto simp: keyLess_def)

lemma elementsIn_view:
  assumes E: "env_ok E" and sl: "sl_ok E sl"
  shows "elementsIn E sl from to = map el_Element (filter (\<lambda>x. inTuple (el_hash x) (from, to)) (view E sl))"
proof -
  let ?key = "\<lparr>el_Element = \<lparr>e_Id = [], e_Head = []\<rparr>, el_hash = from\<rparr>"
  have less: "Compare x ?key < 0 \<longleftrightarrow> el_hash x < from" if "x \<in> set (view E sl)" for x
    using sl_okD(2)[OF sl that] by (cases "e_Id (el_Element x)") (auto simp: Compare_def keyed_def)
  have "dropWhile (\<lambda>x. Compare x ?key < 0) (view E sl) = dropWhile (\<lambda>x. el_hash x < from) (view E sl)"
    using less by (rule dropWhile_cong[OF refl])
  also have "\<dots> = filter (\<lambda>x. from \<le> el_hash x) (view E sl)"
    by (rule dropWhile_sorted[OF view_sorted[OF sl]])
  finally have "slFindNext E sl ?key = filter (\<lambda>x. from \<le> el_hash x) (view E sl)"
    using env_okD(5)[OF E sl] by simp
  moreover have "sorted_wrt (\<lambda>a b. el_hash a \<le> el_hash b) (filter (\<lambda>x. from \<le> el_hash x) (view E sl))"
    using view_sorted[OF sl] by (rule sorted_wrt_filter)
  ultimately show ?thesis
    by (simp add: elementsIn_def takeWhile_sorted inTuple_def conj_commute)
qed

lemma elCount_hits:
  assumes "env_ok E" and "sl_ok E sl"
  shows "elCount E sl t = int (hits E (map el_Element (view E sl)) t)"
proof -
  have "filter (\<lambda>x. inTuple (el_hash x) t) (view E sl)
      = filter (\<lambda>x. inTuple (xxhash E (e_Id (el_Element x))) t) (view E sl)"
    using sl_okD(2)[OF assms(2)] by (auto simp: keyed_def intro: filter_cong)
  then show ?thesis
    by (simp add: elCount_def hits_def elementsIn_view[OF assms] filter_map comp_def)
qed

lemma view_ids_distinct:
  assumes sl: "sl_ok E sl"
  shows "distinct (map (\<lambda>x. e_Id (el_Element x)) (view E sl))"
proof -
  have "sorted_wrt (\<lambda>a b. e_Id (el_Element a) \<noteq> e_Id (el_Element b)) (view E sl)"
    by (rule sorted_wrt_mono_rel[OF _ sl_okD(1)[OF sl]])
      (use sl_okD(2)[OF sl] in \<open>fastforce simp: keyLess_def keyed_def\<close>)
  then have "sorted_wrt (\<noteq>) (map (\<lambda>x. e_Id (el_Element x)) (view E sl))"
    by (simp add: sorted_wrt_map)
  then show ?thesis
    by (simp add: distinct_conv_nth sorted_wrt_iff_nth_less) (metis linorder_neqE_nat)
qed

section \<open>Setting one element\<close>

definition setSl :: "'s ldiffEnv \<Rightarrow> Element \<Rightarrow> 's \<Rightarrow> 's" where
  "setSl E e sl = slSetKey E (keyOf E e) (fst (slRemoveKey E (keyOf E e) sl))"

lemma keyed_keyOf: "e_Id e \<noteq> [] \<Longrightarrow> keyed E (keyOf E e)"
  by (simp add: keyed_def keyOf_def)

lemma removed_ok:
  assumes E: "env_ok E" and sl: "sl_ok E sl" and el: "keyed E el"
  shows "sl_ok E (fst (slRemoveKey E el sl))"
  using sl_okD[OF sl] by (intro sl_okI) (simp_all add: env_okD(3)[OF E sl el] sorted_wrt_filter)

lemma view_setSl:
  assumes E: "env_ok E" and sl: "sl_ok E sl" and id: "e_Id e \<noteq> []"
  shows "view E (setSl E e sl) = filter (\<lambda>x. Compare x (keyOf E e) < 0) (view E sl)
    @ keyOf E e # filter (\<lambda>x. 0 < Compare x (keyOf E e)) (view E sl)"
proof -
  note el = keyed_keyOf[OF id, of E]
  note removed = env_okD(3)[OF E sl el]
  have "\<forall>x \<in> set (view E (fst (slRemoveKey E (keyOf E e) sl))). Compare x (keyOf E e) \<noteq> 0"
    by (simp add: removed)
  from env_okD(4)[OF E removed_ok[OF E sl el] el this] show ?thesis
    unfolding setSl_def by (simp add: removed) (metis (mono_tags, lifting) filter_cong less_irrefl)
qed

lemma setSl_ok:
  assumes E: "env_ok E" and sl: "sl_ok E sl" and id: "e_Id e \<noteq> []"
  shows "sl_ok E (setSl E e sl)"
proof (rule sl_okI)
  note el = keyed_keyOf[OF id, of E] and keys = sl_okD(2)[OF sl] and v = view_setSl[OF assms]
  show "keyed E x" if "x \<in> set (view E (setSl E e sl))" for x
    using that keys el by (auto simp: v)
  have lo: "keyLess x (keyOf E e)" if "x \<in> set (view E sl)" "Compare x (keyOf E e) < 0" for x
    using Compare_keyLess(1)[OF keys[OF that(1)] el] that by simp
  have hi: "keyLess (keyOf E e) x" if "x \<in> set (view E sl)" "0 < Compare x (keyOf E e)" for x
    using Compare_keyLess(2)[OF keys[OF that(1)] el] that by simp
  show "sorted_wrt keyLess (view E (setSl E e sl))"
    using sl_okD(1)[OF sl] lo hi keyLess_trans unfolding v
    by (simp add: sorted_wrt_append sorted_wrt_filter) blast
qed

lemma set_adds:
  assumes E: "env_ok E" and sl: "sl_ok E sl" and id: "e_Id e \<noteq> []"
  shows "adds E sl (setSl E e sl) (xxhash E (e_Id e))"
  unfolding adds_def
proof (intro allI)
  fix t
  let ?el = "keyOf E e" and ?P = "\<lambda>x. inTuple (el_hash x) t"
  note el = keyed_keyOf[OF id, of E] and keys = sl_okD(2)[OF sl]
  note parts = sorted_parts[OF sl_okD(1)[OF sl] keys el]
  let ?lo = "filter (\<lambda>x. Compare x ?el < 0) (view E sl)" and ?hi = "filter (\<lambda>x. 0 < Compare x ?el) (view E sl)"
  let ?eq = "filter (\<lambda>x. Compare x ?el = 0) (view E sl)"
  have el_hash: "el_hash ?el = xxhash E (e_Id e)"
    by (simp add: keyOf_def)
  have same: "el_hash x = xxhash E (e_Id e)" if "x \<in> set ?eq" for x
    using that Compare_same_hash[OF keys el, of x] by (simp add: el_hash)
  have old: "filter ?P (view E sl) = filter ?P ?lo @ filter ?P ?eq @ filter ?P ?hi"
    unfolding filter_append[symmetric] by (rule arg_cong[OF parts])
  have new: "filter ?P (view E (setSl E e sl)) = filter ?P ?lo @ (if inTuple (xxhash E (e_Id e)) t then [?el] else []) @ filter ?P ?hi"
    by (simp add: view_setSl[OF assms] el_hash)
  have "filter ?P (view E (setSl E e sl)) = filter ?P (view E sl)" if "\<not> inTuple (xxhash E (e_Id e)) t"
  proof -
    have "filter ?P ?eq = []"
      using same that by (auto simp: filter_empty_conv)
    then show ?thesis
      unfolding old new using that by simp
  qed
  moreover have "int (length (filter ?P (view E (setSl E e sl))))
      \<le> int (length (filter ?P (view E sl))) + (if inTuple (xxhash E (e_Id e)) t then 1 else 0)"
    unfolding old new by simp
  ultimately show "(\<not> inTuple (xxhash E (e_Id e)) t \<longrightarrow>
        elementsIn E (setSl E e sl) (fst t) (snd t) = elementsIn E sl (fst t) (snd t))
      \<and> elCount E (setSl E e sl) t \<le> elCount E sl t + (if inTuple (xxhash E (e_Id e)) t then 1 else 0)"
    by (simp add: elCount_def elementsIn_view[OF E sl] elementsIn_view[OF E setSl_ok[OF assms]])
qed

lemma elements_distinct: "sl_ok E sl \<Longrightarrow> distinct (map e_Id (map el_Element (view E sl)))"
  using view_ids_distinct[of E sl] by (simp add: comp_def)

lemma set_headOf:
  assumes E: "env_ok E" and sl: "sl_ok E sl" and id: "e_Id e \<noteq> []"
  shows "headOf (map el_Element (view E (setSl E e sl))) i
    = (if i = e_Id e then Some (e_Head e) else headOf (map el_Element (view E sl)) i)"
proof -
  note el = keyed_keyOf[OF id, of E] and keys = sl_okD(2)[OF sl]
  have eq: "Compare x (keyOf E e) = 0 \<longleftrightarrow> e_Id (el_Element x) = e_Id e" if "x \<in> set (view E sl)" for x
    using Compare_keyLess(3)[OF keys[OF that] el] by (simp add: keyOf_def)
  have mem: "x \<in> set (view E (setSl E e sl)) \<longleftrightarrow> x = keyOf E e \<or> x \<in> set (view E sl) \<and> e_Id (el_Element x) \<noteq> e_Id e" for x
    using eq[of x] by (auto simp: view_setSl[OF assms])
  note new = elements_distinct[OF setSl_ok[OF assms]] and old = elements_distinct[OF sl]
  show ?thesis
  proof (cases "i = e_Id e")
    case True
    have "e \<in> set (map el_Element (view E (setSl E e sl)))"
      using mem[of "keyOf E e"] by (force simp: keyOf_def)
    with headOf_mem[OF new] True show ?thesis
      by simp
  next
    case False
    have "headOf (map el_Element (view E (setSl E e sl))) i = Some h \<longleftrightarrow> headOf (map el_Element (view E sl)) i = Some h" for h
      unfolding headOf_Some[OF new] headOf_Some[OF old] using False by (auto simp: mem keyOf_def)
    then show ?thesis
      using False by (metis not_Some_eq)
  qed
qed

section \<open>Well-formed containers\<close>

definition diff_wf :: "'s ldiffEnv \<Rightarrow> nat \<Rightarrow> 's diff \<Rightarrow> bool" where
  "diff_wf E k d \<longleftrightarrow> 0 < k \<and> k < 64 \<and> sl_ok E (d_sl d) \<and> d_divideFactor d = 2 ^ k
     \<and> h_compareThreshold (d_ranges d) = d_compareThreshold d \<and> 1 \<le> d_compareThreshold d
     \<and> tree_inv E (d_sl d) k (Elements E d) [] (d_ranges d) \<and> h_dirty (d_ranges d) = []"

lemma spread_prefix:
  assumes "spread E k th (xs @ ys)"
  shows "spread E k th xs"
  unfolding spread_def
proof (intro allI impI)
  fix t :: rangeTuple
  assume "sizeOf (fst t) (snd t) < 2 ^ k"
  with assms have "int (hits E (xs @ ys) t) \<le> th"
    unfolding spread_def by blast
  then show "int (hits E xs t) \<le> th"
    by (simp add: hits_def)
qed

lemma settled_rebase:
  assumes inv: "tree_inv E sl k B [] h" and clean: "h_dirty h = []"
    and cnt: "\<And>t. elCount E sl t \<le> int (hits E B' t)"
  shows "tree_inv E sl k B' [] h"
proof -
  have "hr_elements (deref h r) = elCount E sl t" if r: "mget (h_ranges h) t = Some r" "\<not> hr_isDivided (deref h r)" for t r
    using settled_hash_ok[OF inv clean r(1)] r(2)
    by (simp add: hash_ok_def calcElementsHash_def elCount_def Let_def)
  then have "counted E sl B' h"
    using inv cnt unfolding tree_inv_def counted_def by metis
  with inv show ?thesis
    by (simp add: tree_inv_def)
qed

text \<open>One element of a batch; \<open>B\<close> are the elements the container may have counted so far.\<close>

definition batching :: "'s ldiffEnv \<Rightarrow> nat \<Rightarrow> Element list \<Rightarrow> 's diff \<Rightarrow> bool" where
  "batching E k B d \<longleftrightarrow> 0 < k \<and> k < 64 \<and> sl_ok E (d_sl d) \<and> d_divideFactor d = 2 ^ k
     \<and> h_compareThreshold (d_ranges d) = d_compareThreshold d \<and> 1 \<le> d_compareThreshold d
     \<and> tree_inv E (d_sl d) k B [] (d_ranges d) \<and> (\<forall>t. elCount E (d_sl d) t \<le> int (hits E B t))"

lemma setOne_batching:
  assumes E: "env_ok E" and d: "batching E k B d" and id: "e_Id e \<noteq> []"
    and spr: "spread E k (d_compareThreshold d) (B @ [e])"
  shows "\<exists>d'. setOne E e d = pret d' \<and> batching E k (B @ [e]) d' \<and> d_compareThreshold d' = d_compareThreshold d
    \<and> d_sl d' = setSl E e (d_sl d)"
proof -
  have k: "0 < k" "k < 64" and sl: "sl_ok E (d_sl d)" and inv: "tree_inv E (d_sl d) k B [] (d_ranges d)"
    and th: "h_compareThreshold (d_ranges d) = d_compareThreshold d"
    and cnt0: "\<And>t. elCount E (d_sl d) t \<le> int (hits E B t)"
    using d by (simp_all add: batching_def)
  note ad = set_adds[OF E sl id]
  have cnt: "elCount E (setSl E e (d_sl d)) t \<le> int (hits E (B @ [e]) t)" for t
    using addsD(2)[OF ad, of t] cnt0[of t] by (simp add: hits_snoc split: if_split_asm)
  obtain h' where h': "addElement E (setSl E e (d_sl d)) (xxhash E (e_Id e)) (d_ranges d) = pret h'"
    "tree_inv E (setSl E e (d_sl d)) k (B @ [e]) [] h'" "h_compareThreshold h' = h_compareThreshold (d_ranges d)"
    using addElement_inv[OF k inv ad _ cnt] spr th by auto
  have "setOne E e d = pret (d\<lparr>d_sl := setSl E e (d_sl d), d_ranges := h'\<rparr>)"
    using h'(1) by (simp add: setOne_def Let_def setSl_def keyOf_def)
  with h' d cnt setSl_ok[OF E sl id] show ?thesis
    by (simp add: batching_def)
qed

lemma setAll_batching:
  assumes E: "env_ok E"
  shows "batching E k B d \<Longrightarrow> (\<forall>e \<in> set es. e_Id e \<noteq> []) \<Longrightarrow> spread E k (d_compareThreshold d) (B @ es) \<Longrightarrow>
    \<exists>d'. setAll E es d = pret d' \<and> batching E k (B @ es) d' \<and> d_compareThreshold d' = d_compareThreshold d
      \<and> d_sl d' = fold (setSl E) es (d_sl d)"
proof (induction es arbitrary: B d)
  case (Cons e es)
  have "spread E k (d_compareThreshold d) (B @ [e])"
    using Cons.prems(3) spread_prefix[of E k _ "B @ [e]" es] by simp
  from setOne_batching[OF E Cons.prems(1) _ this] Cons.prems(2) obtain d1 where
    d1: "setOne E e d = pret d1" "batching E k (B @ [e]) d1" "d_compareThreshold d1 = d_compareThreshold d"
      "d_sl d1 = setSl E e (d_sl d)"
    by auto
  from Cons.IH[OF d1(2)] Cons.prems(2,3) d1 show ?case
    by auto
qed simp

text \<open>The head of an id after a batch: the last one set, or the one it had.\<close>

lemma setAll_headOf:
  assumes E: "env_ok E"
  shows "sl_ok E sl \<Longrightarrow> (\<forall>e \<in> set es. e_Id e \<noteq> []) \<Longrightarrow>
    headOf (map el_Element (view E (fold (setSl E) es sl))) i
      = (case headOf (rev es) i of Some h \<Rightarrow> Some h | None \<Rightarrow> headOf (map el_Element (view E sl)) i)"
proof (induction es arbitrary: sl)
  case (Cons e es)
  have app: "headOf (xs @ [e]) i = (case headOf xs i of Some h \<Rightarrow> Some h | None \<Rightarrow> if e_Id e = i then Some (e_Head e) else None)" for xs
    by (induction xs) auto
  have "sl_ok E (setSl E e sl)"
    using setSl_ok[OF E Cons.prems(1)] Cons.prems(2) by simp
  with Cons show ?case
    by (auto simp: app set_headOf[OF E] split: option.split)
qed simp

lemma SetElements_settles:
  assumes E: "env_ok E" and d: "diff_wf E k d" and ids: "\<forall>e \<in> set es. e_Id e \<noteq> []"
    and spr: "spread E k (d_compareThreshold d) (Elements E d @ es)"
  shows "\<exists>d'. SetElements E es d = pret d' \<and> diff_wf E k d' \<and> d_compareThreshold d' = d_compareThreshold d
    \<and> (\<forall>i. headOf (Elements E d') i = (case headOf (rev es) i of Some h \<Rightarrow> Some h | None \<Rightarrow> headOf (Elements E d) i))"
proof -
  have sl: "sl_ok E (d_sl d)"
    using d by (simp add: diff_wf_def)
  have "batching E k (Elements E d) d"
    using d elCount_hits[OF E sl] by (simp add: diff_wf_def batching_def Elements_def)
  from setAll_batching[OF E this ids spr] obtain d1 where
    d1: "setAll E es d = pret d1" "batching E k (Elements E d @ es) d1" "d_compareThreshold d1 = d_compareThreshold d"
      "d_sl d1 = fold (setSl E) es (d_sl d)"
    by blast
  have k: "0 < k" "k < 64" and sl1: "sl_ok E (d_sl d1)"
    using d1(2) by (simp_all add: batching_def)
  obtain h' where h': "recalculateHashes E (d_sl d1) (d_ranges d1) = pret h'"
    "tree_inv E (d_sl d1) k (Elements E d @ es) [] h'" "sameRanges (d_ranges d1) h'" "h_dirty h' = []"
    using recalculateHashes_settles[OF k, of E "d_sl d1"] d1(2) unfolding batching_def by blast
  have "tree_inv E (d_sl d1) k (Elements E (d1\<lparr>d_ranges := h'\<rparr>)) [] h'"
    using settled_rebase[OF h'(2,4)] elCount_hits[OF E sl1] by (simp add: Elements_def)
  then have "diff_wf E k (d1\<lparr>d_ranges := h'\<rparr>)"
    using d1(2) h' sameD(5)[OF h'(3)] by (simp add: diff_wf_def batching_def)
  moreover have "SetElements E es d = pret (d1\<lparr>d_ranges := h'\<rparr>)"
    using d1(1) h'(1) by (simp add: SetElements_def)
  moreover have "headOf (Elements E (d1\<lparr>d_ranges := h'\<rparr>)) i
      = (case headOf (rev es) i of Some h \<Rightarrow> Some h | None \<Rightarrow> headOf (Elements E d) i)" for i
    using setAll_headOf[OF E sl ids, of i] d1(4) unfolding Elements_def by simp
  ultimately show ?thesis
    using d1(3) by (intro exI[of _ "d1\<lparr>d_ranges := h'\<rparr>"]) simp
qed

section \<open>A new container\<close>

definition startRanges :: "nat \<Rightarrow> int \<Rightarrow> hashRanges" where
  "startRanges df th = \<lparr>h_heap = [(0, \<lparr>hr_from = 0, hr_to = - 1, hr_parent = None, hr_isDivided = True,
       hr_elements = 0, hr_level = 0, hr_hash = []\<rparr>)],
     h_next = 1, h_ranges = [((0, - 1), 0)], h_topRange = 0, h_dirty = [],
     h_divideFactor = df, h_compareThreshold = th\<rparr>"

lemma start_deref:
  "deref (startRanges df th) 0 = \<lparr>hr_from = 0, hr_to = - 1, hr_parent = None, hr_isDivided = True,
     hr_elements = 0, hr_level = 0, hr_hash = []\<rparr>"
  by (simp add: deref_def startRanges_def)

lemma start_clean: "\<not> isDirty (startRanges df th) x"
  by (simp add: isDirty_def startRanges_def)

lemma start_shape:
  assumes k: "0 < k" "k < 64"
  shows "shape k (map (\<lambda>c. (c, 0)) (children k (0, - 1))) (addDirty 0 (startRanges (2 ^ k) th))"
proof -
  let ?h = "addDirty 0 (startRanges (2 ^ k) th)" and ?st = "map (\<lambda>c. (c, 0)) (children k (0, - 1))"
  have kl: "k * Suc 0 \<le> 64"
    using k by simp
  have ranges: "mget (h_ranges ?h) t = Some r \<longleftrightarrow> t = (0, - 1) \<and> r = 0" for t r
    by (auto simp: startRanges_def)
  have node: "deref ?h 0 = deref (startRanges (2 ^ k) th) 0"
    by simp
  have "placed k ?h (0, - 1) 0"
    unfolding placed_def node start_deref using top_cell[of k] kl by (auto simp: startRanges_def)
  moreover have "rooted k ?h (0, - 1) 0" "parted k ?st ?h (0, - 1) 0"
    unfolding rooted_def parted_def node start_deref by simp_all
  moreover have "c \<noteq> (0, - 1)" if "c \<in> set (children k (0, - 1))" for c
    using level_unique[OF k(1) gen_cell(1)[OF k top_cell kl that], of 0] top_cell[of k] by auto
  then have "list_all (pending k ?h) ?st"
    unfolding list_all_iff pending_def by (auto simp: startRanges_def node[unfolded startRanges_def] deref_def)
  moreover have "distinct (map fst ?st)"
    using gen_distinct[OF k top_cell kl] by (simp add: comp_def)
  moreover have "isDirty ?h x \<Longrightarrow> x = 0" for x
    by (simp add: start_clean)
  ultimately show ?thesis
    unfolding shape_def using ranges by (auto simp: startRanges_def)
qed

lemma start_tree_inv:
  assumes k: "0 < k" "k < 64" and empty: "\<And>t. elCount E sl t = 0"
  shows "tree_inv E sl k [] (map (\<lambda>c. (c, 0)) (children k (0, - 1))) (addDirty 0 (startRanges (2 ^ k) th))"
proof -
  let ?h = "addDirty 0 (startRanges (2 ^ k) th)"
  have ranges: "mget (h_ranges ?h) t = Some r \<Longrightarrow> t = (0, - 1) \<and> r = 0" for t r
    by (auto simp: startRanges_def split: if_split_asm)
  have "counted E sl [] ?h"
    unfolding counted_def using ranges by (fastforce simp: empty start_deref)
  moreover have "covered ?h (0, - 1)"
    unfolding covered_def
    by (intro exI[of _ "(0, - 1)"] exI[of _ 0]) (simp add: startRanges_def)
  then have "hashed E sl k ?h"
    unfolding hashed_def using ranges by metis
  ultimately show ?thesis
    using start_shape[OF k] by (simp add: tree_inv_def)
qed

lemma makeBottoms_addDirty:
  assumes empty: "\<And>t. elCount E sl t = 0"
  shows "0 \<le> h_compareThreshold h \<Longrightarrow>
    makeBottoms E sl stack (addDirty r h) = map_option (addDirty r) (makeBottoms E sl stack h)"
proof (induction stack arbitrary: h)
  case Nil
  show ?case
    by (subst (1 2) makeBottoms.simps) simp
next
  case (Cons cr stack)
  obtain c p where cr: "cr = (c, p)"
    by (cases cr) simp
  obtain hash where ce: "calcElementsHash E sl (fst c) (snd c) = (hash, 0)"
    using empty[of c] by (simp add: calcElementsHash_def elCount_def Let_def)
  define nd where "nd = \<lparr>hr_from = fst c, hr_to = snd c, hr_parent = Some p, hr_isDivided = False,
    hr_elements = 0, hr_level = hr_level (deref h p) + 1, hr_hash = hash\<rparr>"
  define h2 where "h2 = h\<lparr>h_heap := mput (h_next h) nd (h_heap h), h_next := h_next h + 1,
    h_ranges := mput c (h_next h) (h_ranges h)\<rparr>"
  have th: "0 \<le> h_compareThreshold h2"
    using Cons.prems by (simp add: h2_def)
  have "makeBottoms E sl (cr # stack) (addDirty r h) = makeBottoms E sl stack (addDirty r h2)"
    using Cons.prems unfolding h2_def
    by (cases h) (subst makeBottoms.simps, simp add: cr makeRange_def ce Let_def nd_def deref_def addDirty_def)
  moreover have "makeBottoms E sl (cr # stack) h = makeBottoms E sl stack h2"
    using Cons.prems unfolding h2_def
    by (subst makeBottoms.simps) (simp add: cr makeRange_def ce Let_def nd_def deref_def)
  ultimately show ?case
    using Cons.IH[OF th] by simp
qed

lemma newDiff_settles:
  assumes E: "env_ok E" and k: "0 < k" "k < 64" and th: "1 \<le> th"
  shows "\<exists>d. newDiff E (2 ^ k) th = pret d \<and> diff_wf E k d \<and> d_compareThreshold d = th \<and> Elements E d = []"
proof -
  let ?sl = "slNew E" and ?st = "map (\<lambda>c. (c, 0)) (children k (0, - 1))" and ?h0 = "startRanges (2 ^ k) th"
  have sl: "sl_ok E ?sl"
    using env_okD(1)[OF E] by (simp add: sl_ok_def)
  have empty: "elCount E ?sl t = 0" for t
    using elCount_hits[OF E sl] env_okD(1)[OF E] by (simp add: hits_def)
  have "spread E k th []"
    using th by (simp add: spread_def hits_def)
  from makeBottoms_inv[OF k this _ start_tree_inv[OF k empty]] obtain h1 where
    h1: "makeBottoms E ?sl ?st (addDirty 0 ?h0) = Some h1" "tree_inv E ?sl k [] [] h1" "grows (addDirty 0 ?h0) h1"
    by (auto simp: empty startRanges_def)
  have top: "h_topRange h1 = 0" "h_compareThreshold h1 = th"
    using h1(3) by (simp_all add: grows_def startRanges_def)
  obtain h2 where h2: "makeBottoms E ?sl ?st ?h0 = Some h2" "h1 = addDirty 0 h2"
    using makeBottoms_addDirty[OF empty, of ?h0 ?st 0] h1(1) th by (auto simp: startRanges_def)
  obtain h' where h': "recalculateHashes E ?sl h1 = pret h'" "tree_inv E ?sl k [] [] h'" "sameRanges h1 h'" "h_dirty h' = []"
    using recalculateHashes_settles[OF k h1(2)] by blast
  have df: "nat (2 ^ k) = 2 ^ k" "\<not> (2 :: int) ^ k < 2" "\<not> th < 1"
    using th k self_le_power[of "2 :: int" k] by (simp_all add: nat_power_eq)
  have "newHashRanges E (2 ^ k) th ?sl = Some h2"
    using h2(1) by (simp add: newHashRanges_def makeBottomRanges_def startRanges_def deref_def)
  moreover have "addDirty (h_topRange h2) h2 = h1"
    using top(1) h2(2) by simp
  ultimately have "newDiff E (2 ^ k) th =
      pret \<lparr>d_sl = ?sl, d_divideFactor = 2 ^ k, d_compareThreshold = th, d_ranges = h'\<rparr>"
    using h'(1) by (simp add: newDiff_def df)
  moreover have "Elements E \<lparr>d_sl = ?sl, d_divideFactor = 2 ^ k, d_compareThreshold = th, d_ranges = h'\<rparr> = []"
    using env_okD(1)[OF E] by (simp add: Elements_def)
  ultimately show ?thesis
    using h' k sl th top sameD(5)[OF h'(3)] by (simp add: diff_wf_def)
qed

end
