(* ===== verification/LdiffProperties.thy ===== *)
theory LdiffProperties
  imports LdiffContainer
begin

text \<open>
  A well-formed container keeps the contract of a provider of ranges, so that comparing two
  containers returns and reports the differences; the theorems about the list diff, with a container
  on a list in place of the skip list for concrete runs.
\<close>

declare split_paired_All [simp del] split_paired_Ex [simp del]

section \<open>What a well-formed container answers\<close>

lemma headOf_filter: "headOf (filter (\<lambda>e. Q (e_Id e)) els) i = (if Q i then headOf els i else None)"
  by (induction els) auto

lemma elementsIn_exact:
  assumes E: "env_ok E" and sl: "sl_ok E sl"
  shows "exactOn (xxhash E) (headOf (map el_Element (view E sl))) r (elementsIn E sl (rg_From r) (rg_To r))"
proof -
  have "filter (\<lambda>x. inTuple (el_hash x) (rg_From r, rg_To r)) (view E sl)
      = filter (\<lambda>x. inRange r (xxhash E (e_Id (el_Element x)))) (view E sl)"
    using sl_okD(2)[OF sl] by (intro filter_cong) (auto simp: keyed_def inTuple_def inRange_def)
  then have eq: "elementsIn E sl (rg_From r) (rg_To r)
      = filter (\<lambda>e. inRange r (xxhash E (e_Id e))) (map el_Element (view E sl))"
    by (simp add: elementsIn_view[OF E sl] filter_map comp_def)
  have "distinct (map e_Id (filter (\<lambda>e. inRange r (xxhash E (e_Id e))) (map el_Element (view E sl))))"
    using elements_distinct[OF sl] by (intro distinct_map_filter)
  moreover have "headOf (filter (\<lambda>e. inRange r (xxhash E (e_Id e))) (map el_Element (view E sl))) i
      = (if inRange r (xxhash E i) then headOf (map el_Element (view E sl)) i else None)" for i
    by (rule headOf_filter)
  ultimately show ?thesis
    unfolding exactOn_def eq by simp
qed

lemma wfD:
  assumes "diff_wf E k d"
  shows "0 < k" "k < 64" and "sl_ok E (d_sl d)" and "d_divideFactor d = 2 ^ k"
    and "h_compareThreshold (d_ranges d) = d_compareThreshold d" and "1 \<le> d_compareThreshold d"
    and "tree_inv E (d_sl d) k (Elements E d) [] (d_ranges d)" and "h_dirty (d_ranges d) = []"
    and "shape k [] (d_ranges d)"
  using assms by (simp_all add: diff_wf_def tree_inv_def)

lemma getRange_full: "rg_Elements r \<Longrightarrow> isFull (getRange E d r) \<and> rr_Elements (getRange E d r) = elementsIn E (d_sl d) (rg_From r) (rg_To r)"
  by (simp add: getRange_def fullResult_def Let_def isFull_def split: option.split)

text \<open>An answer gives all elements, or the counter of a range of the map.\<close>

lemma getRange_cases:
  obtains (full) "isFull (getRange E d r)"
      "rr_Elements (getRange E d r) = elementsIn E (d_sl d) (rg_From r) (rg_To r)"
    | (summary) n where "mget (h_ranges (d_ranges d)) (rg_From r, rg_To r) = Some n" "\<not> rg_Elements r"
      "rr_Elements (getRange E d r) = []" "rr_Count (getRange E d r) = hr_elements (deref (d_ranges d) n)"
proof (cases "rg_Elements r")
  case True
  with getRange_full[OF True, of E d] show thesis
    by (intro full) simp_all
next
  case False
  show thesis
  proof (cases "mget (h_ranges (d_ranges d)) (rg_From r, rg_To r)")
    case None
    then show thesis
      by (intro full) (simp_all add: getRange_def getRange_hr_def fullResult_def Let_def isFull_def)
  next
    case (Some n)
    with False show thesis
      by (intro summary[of n]) (simp_all add: getRange_def getRange_hr_def)
  qed
qed

lemma getRange_exact:
  assumes E: "env_ok E" and d: "diff_wf E k d"
  shows "answersExactly (xxhash E) (headOf (Elements E d)) (getRange E d)"
  unfolding answersExactly_def
proof (intro conjI allI impI)
  fix r
  note ex = elementsIn_exact[OF E wfD(3)[OF d], of r, folded Elements_def]
  show "isFull (getRange E d r)" if "rg_Elements r"
    using getRange_full[OF that, of E d] by simp
  show "exactOn (xxhash E) (headOf (Elements E d)) r (rr_Elements (getRange E d r))" if f: "isFull (getRange E d r)"
  proof (cases rule: getRange_cases[of E d r])
    case full
    with ex show ?thesis
      by simp
  next
    case (summary n)
    have "elCount E (d_sl d) (rg_From r, rg_To r) \<le> hr_elements (deref (d_ranges d) n)"
      using wfD(7)[OF d] summary(1) unfolding tree_inv_def counted_def by blast
    moreover have "hr_elements (deref (d_ranges d) n) = 0"
      using f summary by (simp add: isFull_def)
    ultimately have "elementsIn E (d_sl d) (rg_From r) (rg_To r) = []"
      by (simp add: elCount_def)
    with ex summary(3) show ?thesis
      by simp
  qed
qed

lemma empty_exact: "exactOn hashId content r [] \<Longrightarrow> emptyOn hashId content r"
  unfolding exactOn_def emptyOn_def by (metis headOf_Nil)

lemma big_divided:
  assumes d: "diff_wf E k d" and "mget (h_ranges (d_ranges d)) t = Some n"
    and "d_compareThreshold d < hr_elements (deref (d_ranges d) n)"
  shows "hr_isDivided (deref (d_ranges d) n)"
proof -
  have "hr_isDivided (deref (d_ranges d) n) \<or> hr_elements (deref (d_ranges d) n) \<le> h_compareThreshold (d_ranges d)"
    using wfD(7)[OF d] assms(2) unfolding tree_inv_def counted_def by blast
  with assms(3) wfD(5)[OF d] show ?thesis
    by linarith
qed

lemma nil_hash_empty:
  assumes E: "env_ok E" and d: "diff_wf E k d" and t: "mget (h_ranges (d_ranges d)) t = Some n"
    and nil: "hr_hash (deref (d_ranges d) n) = []"
  shows "elementsIn E (d_sl d) (fst t) (snd t) = []"
proof -
  have "hash_ok E (d_sl d) k (d_ranges d) t n"
    using settled_hash_ok[OF wfD(7,8)[OF d] t] .
  then show ?thesis
    using nil env_okD(2)[OF E] by (auto simp: hash_ok_def calcElementsHash_def Let_def split: if_split_asm)
qed

lemma child_nil_empty:
  assumes E: "env_ok E" and d: "diff_wf E k d" and s: "\<not> isFull (getRange E d r)"
    and big: "d_compareThreshold d < rr_Count (getRange E d r)"
    and t: "t \<in> set (genTupleRanges (rg_From r) (rg_To r) (2 ^ k))"
    and nil: "rr_Hash (getRange E d (childReq t)) = []"
  shows "emptyOn (xxhash E) (headOf (Elements E d)) (childReq t)"
proof (cases rule: getRange_cases[of E d r])
  case (summary n)
  have "hr_isDivided (deref (d_ranges d) n)"
    using big_divided[OF d summary(1)] big summary(4) by simp
  with parts_present[OF wfD(9)[OF d] summary(1)] t obtain n' where n': "mget (h_ranges (d_ranges d)) t = Some n'"
    by auto
  with nil have "hr_hash (deref (d_ranges d) n') = []"
    by (simp add: getRange_def getRange_hr_def childReq_def)
  from nil_hash_empty[OF E d n' this] elementsIn_exact[OF E wfD(3)[OF d], of "childReq t"] show ?thesis
    by (intro empty_exact) (simp add: childReq_def Elements_def)
qed (use s in simp)

lemma big_size:
  assumes d: "diff_wf E k d" and s: "\<not> isFull (getRange E d r)"
    and big: "d_compareThreshold d < rr_Count (getRange E d r)"
  shows "rg_From r \<le> rg_To r \<and> 2 ^ k \<le> sizeOf (rg_From r) (rg_To r)"
proof (cases rule: getRange_cases[of E d r])
  case (summary n)
  have "hr_isDivided (deref (d_ranges d) n)"
    using big_divided[OF d summary(1)] big summary(4) by simp
  with range_cell[OF wfD(9)[OF d] summary(1)] obtain l where l: "cellAt k l (rg_From r, rg_To r)" "k * Suc l \<le> 64"
    by metis
  have "2 ^ k \<le> cellSize k l"
    using cell_divides(1)[OF l] by (simp add: Suc_leI)
  with l(1) show ?thesis
    by (simp add: cellAt_def)
qed (use s in simp)

lemma top_hash_set:
  assumes E: "env_ok E" and d: "diff_wf E k d"
  shows "rr_Hash (getRange E d topReq) \<noteq> []"
proof -
  note top = shapeD(2)[OF wfD(9)[OF d]]
  have "hr_isDivided (deref (d_ranges d) (h_topRange (d_ranges d)))"
    using shapeD(4)[OF wfD(9)[OF d] top] by (simp add: rooted_def)
  with settled_hash_ok[OF wfD(7,8)[OF d] top] env_okD(2)[OF E] show ?thesis
    using top by (simp add: hash_ok_def getRange_def getRange_hr_def childReq_def)
qed

interpretation own: range_provider "xxhash E" "2 ^ k" th "getRange E" "\<lambda>d. headOf (Elements E d)"
    "\<lambda>d. env_ok E \<and> diff_wf E k d \<and> d_compareThreshold d = th"
  for E :: "'s ldiffEnv" and k th
proof unfold_locales
  fix d :: "'s diff" and r t
  assume d: "env_ok E \<and> diff_wf E k d \<and> d_compareThreshold d = th"
  then have E: "env_ok E" and wf: "diff_wf E k d" and th: "d_compareThreshold d = th"
    by simp_all
  show "validFactor (2 ^ k)"
    using power_factor[OF wfD(1,2)[OF wf]] .
  show "answersExactly (xxhash E) (headOf (Elements E d)) (getRange E d)"
    using getRange_exact[OF E wf] .
  show "rr_Elements (getRange E d r) = []" if "\<not> isFull (getRange E d r)"
    using that by (cases rule: getRange_cases[of E d r]) simp_all
  show "rr_Hash (getRange E d (r\<lparr>rg_Elements := True\<rparr>)) = rr_Hash (getRange E d r)"
    by (simp add: getRange_def fullResult_def Let_def split: option.split)
  show "rr_Hash (getRange E d topReq) \<noteq> []"
    using top_hash_set[OF E wf] .
  show "rg_From r \<le> rg_To r \<and> 2 ^ k \<le> sizeOf (rg_From r) (rg_To r)"
    if "\<not> isFull (getRange E d r)" "th < rr_Count (getRange E d r)"
    using big_size[OF wf that(1)] that(2) th by simp
  show "emptyOn (xxhash E) (headOf (Elements E d)) (childReq t)"
    if "\<not> isFull (getRange E d r)" "th < rr_Count (getRange E d r)"
      "t \<in> set (genTupleRanges (rg_From r) (rg_To r) (2 ^ k))" "rr_Hash (getRange E d (childReq t)) = []"
    using child_nil_empty[OF E wf that(1) _ that(3,4)] that(2) th by simp
qed

section \<open>Concrete containers\<close>

text \<open>A list in the order of \<open>Compare\<close> in place of the skip list, and a hash with a visible preimage.\<close>

definition listEnv :: "(string \<Rightarrow> u64) \<Rightarrow> element list ldiffEnv" where
  "listEnv hash = \<lparr>slNew = [],
     slSetKey = (\<lambda>el xs. filter (\<lambda>x. Compare x el < 0) xs @ el # filter (\<lambda>x. 0 < Compare x el) xs),
     slRemoveKey = (\<lambda>el xs. (filter (\<lambda>x. Compare x el \<noteq> 0) xs, \<exists>x \<in> set xs. Compare x el = 0)),
     slFindNext = (\<lambda>xs el. dropWhile (\<lambda>x. Compare x el < 0) xs),
     slGetKey = (\<lambda>xs el. find (\<lambda>x. Compare x el = 0) xs),
     slFrontNext = (\<lambda>xs. xs), slLen = length, xxhash = hash, blake3 = (\<lambda>b. CHR ''#'' # b)\<rparr>"

lemma listEnv_ok: "env_ok (listEnv hash)"
  by (simp add: env_ok_def listEnv_def)

text \<open>The container with divide factor 2 and threshold 1 after the batches \<open>xss\<close>.\<close>

fun setBatches :: "'s ldiffEnv \<Rightarrow> Element list list \<Rightarrow> (ldiff_error, 's diff) run \<Rightarrow> (ldiff_error, 's diff) run" where
  "setBatches E [] d = d"
| "setBatches E (xs # xss) d = setBatches E xss (pbind d (SetElements E xs))"

definition diffOf :: "(string \<Rightarrow> u64) \<Rightarrow> Element list list \<Rightarrow> element list diff" where
  "diffOf hash xss =
     (case setBatches (listEnv hash) xss (newDiff (listEnv hash) 2 1) of
        Some (Inr d) \<Rightarrow> d
      | _ \<Rightarrow> \<lparr>d_sl = [], d_divideFactor = 0, d_compareThreshold = 0, d_ranges = startRanges 0 0\<rparr>)"

abbreviation elem :: "string \<Rightarrow> string \<Rightarrow> Element" where
  "elem i h \<equiv> \<lparr>e_Id = i, e_Head = h\<rparr>"

definition sampleHash :: "string \<Rightarrow> u64" where
  "sampleHash i = (if i = ''a'' then 0 else if i = ''b'' then 2305843009213693952
     else if i = ''x'' then 4611686018427387904 else - 1)"

definition collisionFree :: "'s ldiffEnv \<Rightarrow> 's diff \<Rightarrow> 's diff \<Rightarrow> bool" where
  "collisionFree E d d' \<longleftrightarrow> (\<forall>r. rr_Hash (getRange E d r) = rr_Hash (getRange E d' r) \<longrightarrow> rr_Hash (getRange E d' r) \<noteq> [] \<longrightarrow>
     (\<forall>i. inRange r (xxhash E i) \<longrightarrow> headOf (Elements E d) i = headOf (Elements E d') i))"

text \<open>Only the ranges of the remote map have a hash, so that a finite check suffices.\<close>

definition collisionCheck :: "'s ldiffEnv \<Rightarrow> 's diff \<Rightarrow> 's diff \<Rightarrow> bool" where
  "collisionCheck E d d' \<longleftrightarrow> list_all (\<lambda>(t, n).
     hr_hash (deref (d_ranges d') n) \<noteq> [] \<and> rr_Hash (getRange E d (childReq t)) = hr_hash (deref (d_ranges d') n) \<longrightarrow>
     elementsIn E (d_sl d) (fst t) (snd t) = elementsIn E (d_sl d') (fst t) (snd t)) (h_ranges (d_ranges d'))"

lemma collisionCheck_free:
  assumes E: "env_ok E" and d: "diff_wf E k d" "diff_wf E k d'" and check: "collisionCheck E d d'"
  shows "collisionFree E d d'"
  unfolding collisionFree_def
proof (intro allI impI)
  fix r i
  assume eq: "rr_Hash (getRange E d r) = rr_Hash (getRange E d' r)" and nn: "rr_Hash (getRange E d' r) \<noteq> []"
    and i: "inRange r (xxhash E i)"
  have hash: "rr_Hash (getRange E x r) = (case mget (h_ranges (d_ranges x)) (rg_From r, rg_To r) of
      None \<Rightarrow> [] | Some n \<Rightarrow> hr_hash (deref (d_ranges x) n))" for x
    by (simp add: getRange_def getRange_hr_def fullResult_def Let_def split: option.split)
  have same: "rr_Hash (getRange E d (childReq (rg_From r, rg_To r))) = rr_Hash (getRange E d r)"
    by (simp add: getRange_def getRange_hr_def fullResult_def childReq_def Let_def split: option.split)
  obtain n where n: "mget (h_ranges (d_ranges d')) (rg_From r, rg_To r) = Some n"
    using nn by (auto simp: hash split: option.split_asm)
  have "((rg_From r, rg_To r), n) \<in> set (h_ranges (d_ranges d'))"
    using n by (rule map_of_SomeD)
  with check eq nn n same have "elementsIn E (d_sl d) (rg_From r) (rg_To r) = elementsIn E (d_sl d') (rg_From r) (rg_To r)"
    unfolding collisionCheck_def list_all_iff by (fastforce simp: hash[of d'])
  moreover have "headOf (elementsIn E (d_sl x) (rg_From r) (rg_To r)) i = headOf (Elements E x) i" if "diff_wf E k x" for x
    using elementsIn_exact[OF E wfD(3)[OF that], of r] i by (simp add: exactOn_def Elements_def)
  ultimately show "headOf (Elements E d) i = headOf (Elements E d') i"
    using d by metis
qed

lemma newDiff_sample: "newDiff E 2 1 = newDiff E (2 ^ 1) 1"
  by simp

lemma diffOf_wf:
  assumes "\<forall>e \<in> set xs. e_Id e \<noteq> []" and "spread (listEnv hash) 1 1 xs"
  shows "diff_wf (listEnv hash) 1 (diffOf hash [xs]) \<and> d_compareThreshold (diffOf hash [xs]) = 1
    \<and> (\<forall>i. headOf (Elements (listEnv hash) (diffOf hash [xs])) i = headOf (rev xs) i)"
proof -
  let ?E = "listEnv hash"
  obtain d0 where d0: "newDiff ?E 2 1 = pret d0" "diff_wf ?E 1 d0" "d_compareThreshold d0 = 1" "Elements ?E d0 = []"
    using newDiff_settles[OF listEnv_ok, of 1 1 hash] unfolding newDiff_sample by auto
  then obtain d1 where d1: "SetElements ?E xs d0 = pret d1" "diff_wf ?E 1 d1" "d_compareThreshold d1 = 1"
    "\<forall>i. headOf (Elements ?E d1) i = (case headOf (rev xs) i of Some h \<Rightarrow> Some h | None \<Rightarrow> headOf (Elements ?E d0) i)"
    using SetElements_settles[OF listEnv_ok d0(2) assms(1)] assms(2) by auto
  have "diffOf hash [xs] = d1"
    by (simp add: diffOf_def d0(1) d1(1))
  with d1 d0(4) show ?thesis
    by (auto split: option.split)
qed

lemma spread_distinct:
  assumes "distinct (map (\<lambda>e. hash (e_Id e)) xs)"
  shows "spread (listEnv hash) 1 1 xs"
  unfolding spread_def
proof (intro allI impI)
  fix t :: rangeTuple
  assume "sizeOf (fst t) (snd t) < 2 ^ 1"
  then have "snd t = fst t"
    by (simp add: sizeOf_def unat_eq_0)
  then have "filter (\<lambda>e. inTuple (hash (e_Id e)) t) xs = filter (\<lambda>e. hash (e_Id e) = fst t) xs"
    by (intro filter_cong) (auto simp: inTuple_def)
  moreover have "length (filter (\<lambda>e. hash (e_Id e) = fst t) xs) \<le> 1"
    using assms by (induction xs) (auto simp: filter_empty_conv image_iff)
  ultimately show "int (hits (listEnv hash) xs t) \<le> 1"
    by (simp add: hits_def listEnv_def)
qed

section \<open>Setting elements\<close>

text \<open>
  C28. Building a container and setting a batch of elements with non-empty ids return, whatever the hashes,
  if the factor is a power of two and no more elements than the threshold fall into a range too small to
  be divided: \<open>New\<close> gives an empty
  container in order, and \<open>Set\<close> takes a container in order to one that holds the last head given for
  each id and the old head of every other id, with every range hash up to date, no range dirty, and counters
  that are at least the numbers of elements (setting an element again counts it again).
\<close>

theorem container_set:
  assumes "env_ok E" and "0 < k" and "k < 64" and "1 \<le> th"
  shows "(\<exists>d. newDiff E (2 ^ k) th = pret d \<and> diff_wf E k d \<and> Elements E d = [])
    \<and> (\<forall>d es. diff_wf E k d \<and> (\<forall>e \<in> set es. e_Id e \<noteq> []) \<and> spread E k (d_compareThreshold d) (Elements E d @ es) \<longrightarrow>
        (\<exists>d'. SetElements E es d = pret d' \<and> diff_wf E k d'
          \<and> (\<forall>i. headOf (Elements E d') i = (case headOf (rev es) i of Some h \<Rightarrow> Some h | None \<Rightarrow> headOf (Elements E d) i))))"
  using newDiff_settles[OF assms] SetElements_settles[OF assms(1)] by blast

theorem container_set_witness:
  "\<exists>d. SetElements (listEnv sampleHash) [elem ''b'' ''2''] (diffOf sampleHash [[elem ''a'' ''1'']]) = pret d
     \<and> headOf (Elements (listEnv sampleHash) d) ''a'' = Some ''1''
     \<and> headOf (Elements (listEnv sampleHash) d) ''b'' = Some ''2''"
proof -
  let ?E = "listEnv sampleHash" and ?d = "diffOf sampleHash [[elem ''a'' ''1'']]"
  have wf: "diff_wf ?E 1 ?d" "d_compareThreshold ?d = 1" "\<forall>i. headOf (Elements ?E ?d) i = headOf (rev [elem ''a'' ''1'']) i"
    using diffOf_wf[of "[elem ''a'' ''1'']" sampleHash] spread_distinct[of sampleHash "[elem ''a'' ''1'']"] by auto
  have els: "Elements ?E ?d = [elem ''a'' ''1'']"
    by code_simp
  have "spread ?E 1 1 [elem ''a'' ''1'', elem ''b'' ''2'']"
    by (rule spread_distinct) (simp add: sampleHash_def)
  then have "\<exists>d'. SetElements ?E [elem ''b'' ''2''] ?d = pret d' \<and> diff_wf ?E 1 d'
      \<and> (\<forall>i. headOf (Elements ?E d') i = (case headOf (rev [elem ''b'' ''2'']) i of Some h \<Rightarrow> Some h | None \<Rightarrow> headOf (Elements ?E ?d) i))"
    using container_set[OF listEnv_ok, of 1 1 sampleHash, THEN conjunct2, rule_format, of ?d "[elem ''b'' ''2'']"] wf els by simp
  then show ?thesis
    unfolding els by auto
qed

section \<open>Comparing two containers\<close>

lemma own_client:
  assumes "env_ok E" and "diff_wf E k d" and "diff_wf E k d'" and "d_compareThreshold d' = d_compareThreshold d"
    and "collisionFree E d d'" and "compares cmp verdict"
  shows "own.client E k (d_compareThreshold d) E cmp verdict (headOf (Elements E d)) d d'"
  unfolding own.client_def using assms getRange_exact[OF assms(1,2)] wfD(4)[OF assms(2)]
  by (simp add: collisionFree_def)

lemma own_remote: "(\<lambda>rs. Inr (map (getRange E d') rs)) = Ranges E d'"
  by (simp add: Ranges_def fun_eq_iff)

text \<open>
  C27. Comparing two containers in order that divide by the same power of two and have the same threshold
  returns after finitely many rounds. If equal range hashes that are not
  nil mean equal content, the ids reported as new are exactly those only the remote container has,
  the ids reported as changed exactly those with different heads, and only ids the remote container
  does not have are reported as removed.
\<close>

theorem diff_finds_differences:
  assumes "env_ok E" and "diff_wf E k d" and "diff_wf E k d'" and "d_compareThreshold d' = d_compareThreshold d"
    and "collisionFree E d d'"
  shows "\<exists>new changed removed. Diff E (Ranges E d') (\<lambda>_. None) d = pret (new, changed, removed)
    \<and> set new = {i. headOf (Elements E d) i = None \<and> headOf (Elements E d') i \<noteq> None}
    \<and> set changed = {i. headOf (Elements E d) i \<noteq> None \<and> headOf (Elements E d') i \<noteq> None
        \<and> headOf (Elements E d) i \<noteq> headOf (Elements E d') i}
    \<and> set removed \<subseteq> {i. headOf (Elements E d) i \<noteq> None \<and> headOf (Elements E d') i = None}"
proof -
  from own.diff_result[OF own_client[OF assms compares_equal]] obtain dctx where
    run: "diffLoop E compareElementsEqual (Ranges E d') (\<lambda>_. None) 0 d startCtx = pret dctx"
    and rep: "\<forall>v. v \<noteq> VRemoved \<longrightarrow> reported dctx v = {i. equalVerdict v (headOf (Elements E d) i) (headOf (Elements E d') i)}"
      "reported dctx VRemoved \<subseteq> {i. equalVerdict VRemoved (headOf (Elements E d) i) (headOf (Elements E d') i)}"
    unfolding own_remote by blast
  show ?thesis
    using run rep(2) rep(1)[THEN spec, of VNew] rep(1)[THEN spec, of VChanged]
    by (simp add: Diff_def reported_def equalVerdict_iff)
qed

text \<open>
  C29. Under the conditions of the comparison by equality, the comparison by order of heads returns and sorts the ids with different heads by who has the
  greater head: those with the greater head here are reported as changed, those with the greater head
  there as changed by the remote; new and removed ids are reported as by \<open>Diff\<close>.
\<close>

theorem compare_diff_sides:
  assumes "env_ok E" and "diff_wf E k d" and "diff_wf E k d'" and "d_compareThreshold d' = d_compareThreshold d"
    and "collisionFree E d d'"
  shows "\<exists>new ours theirs removed. CompareDiff E (Ranges E d') (\<lambda>_. None) d = pret (new, ours, theirs, removed)
    \<and> set new = {i. headOf (Elements E d) i = None \<and> headOf (Elements E d') i \<noteq> None}
    \<and> set ours = {i. \<exists>h h'. headOf (Elements E d) i = Some h \<and> headOf (Elements E d') i = Some h' \<and> h' < h}
    \<and> set theirs = {i. \<exists>h h'. headOf (Elements E d) i = Some h \<and> headOf (Elements E d') i = Some h' \<and> h < h'}
    \<and> set removed \<subseteq> {i. headOf (Elements E d) i \<noteq> None \<and> headOf (Elements E d') i = None}"
proof -
  from own.diff_result[OF own_client[OF assms compares_greater]] obtain dctx where
    run: "diffLoop E compareElementsGreater (Ranges E d') (\<lambda>_. None) 0 d startCtx = pret dctx"
    and rep: "\<forall>v. v \<noteq> VRemoved \<longrightarrow> reported dctx v = {i. greaterVerdict v (headOf (Elements E d) i) (headOf (Elements E d') i)}"
      "reported dctx VRemoved \<subseteq> {i. greaterVerdict VRemoved (headOf (Elements E d) i) (headOf (Elements E d') i)}"
    unfolding own_remote by blast
  show ?thesis
    using run rep(2) rep(1)[THEN spec, of VNew] rep(1)[THEN spec, of VChanged] rep(1)[THEN spec, of VTheirs]
    by (simp add: CompareDiff_def reported_def greaterVerdict_iff)
qed

text \<open>The two containers of the witnesses.\<close>

definition localSample :: "element list diff" where
  "localSample = diffOf sampleHash [[elem ''a'' ''1'']]"

definition remoteSample :: "element list diff" where
  "remoteSample = diffOf sampleHash [[elem ''a'' ''2'', elem ''b'' ''1'']]"

lemma localSample_wf:
  "diff_wf (listEnv sampleHash) 1 localSample" "d_compareThreshold localSample = 1"
  "headOf (Elements (listEnv sampleHash) localSample) i = (if i = ''a'' then Some ''1'' else None)"
  using diffOf_wf[of "[elem ''a'' ''1'']" sampleHash] spread_distinct[of sampleHash "[elem ''a'' ''1'']"]
  by (auto simp: localSample_def)

lemma remoteSample_wf:
  "diff_wf (listEnv sampleHash) 1 remoteSample" "d_compareThreshold remoteSample = 1"
  "headOf (Elements (listEnv sampleHash) remoteSample) i = (if i = ''a'' then Some ''2'' else if i = ''b'' then Some ''1'' else None)"
  using diffOf_wf[of "[elem ''a'' ''2'', elem ''b'' ''1'']" sampleHash]
    spread_distinct[of sampleHash "[elem ''a'' ''2'', elem ''b'' ''1'']"]
  by (auto simp: remoteSample_def sampleHash_def)

lemma sample_free: "collisionFree (listEnv sampleHash) localSample remoteSample"
proof (rule collisionCheck_free[OF listEnv_ok localSample_wf(1) remoteSample_wf(1)])
  show "collisionCheck (listEnv sampleHash) localSample remoteSample"
    by code_simp
qed

lemmas sample_heads = localSample_wf(3) remoteSample_wf(3)

theorem diff_finds_differences_witness:
  "\<exists>new changed removed.
     Diff (listEnv sampleHash) (Ranges (listEnv sampleHash) remoteSample) (\<lambda>_. None) localSample = pret (new, changed, removed)
     \<and> set new = {''b''} \<and> set changed = {''a''} \<and> removed = []"
proof -
  let ?E = "listEnv sampleHash"
  have th: "d_compareThreshold remoteSample = d_compareThreshold localSample"
    by (simp add: localSample_wf(2) remoteSample_wf(2))
  from diff_finds_differences[OF listEnv_ok localSample_wf(1) remoteSample_wf(1) th sample_free] obtain new changed removed where
    run: "Diff ?E (Ranges ?E remoteSample) (\<lambda>_. None) localSample = pret (new, changed, removed)"
    and s: "set new = {i. headOf (Elements ?E localSample) i = None \<and> headOf (Elements ?E remoteSample) i \<noteq> None}"
      "set changed = {i. headOf (Elements ?E localSample) i \<noteq> None \<and> headOf (Elements ?E remoteSample) i \<noteq> None
        \<and> headOf (Elements ?E localSample) i \<noteq> headOf (Elements ?E remoteSample) i}"
      "set removed \<subseteq> {i. headOf (Elements ?E localSample) i \<noteq> None \<and> headOf (Elements ?E remoteSample) i = None}"
    by blast
  have "set new = {''b''}" "set changed = {''a''}" "set removed = {}"
    using s by (auto simp: sample_heads split: if_split_asm)
  with run show ?thesis
    by simp
qed

theorem compare_diff_sides_witness:
  "\<exists>new ours theirs removed.
     CompareDiff (listEnv sampleHash) (Ranges (listEnv sampleHash) remoteSample) (\<lambda>_. None) localSample = pret (new, ours, theirs, removed)
     \<and> set new = {''b''} \<and> ours = [] \<and> set theirs = {''a''}"
proof -
  let ?E = "listEnv sampleHash"
  have th: "d_compareThreshold remoteSample = d_compareThreshold localSample"
    by (simp add: localSample_wf(2) remoteSample_wf(2))
  from compare_diff_sides[OF listEnv_ok localSample_wf(1) remoteSample_wf(1) th sample_free] obtain new ours theirs removed where
    run: "CompareDiff ?E (Ranges ?E remoteSample) (\<lambda>_. None) localSample = pret (new, ours, theirs, removed)"
    and s: "set new = {i. headOf (Elements ?E localSample) i = None \<and> headOf (Elements ?E remoteSample) i \<noteq> None}"
      "set ours = {i. \<exists>h h'. headOf (Elements ?E localSample) i = Some h \<and> headOf (Elements ?E remoteSample) i = Some h' \<and> h' < h}"
      "set theirs = {i. \<exists>h h'. headOf (Elements ?E localSample) i = Some h \<and> headOf (Elements ?E remoteSample) i = Some h' \<and> h < h'}"
    by blast
  have "set new = {''b''}" "set ours = {}" "set theirs = {''a''}"
    using s by (auto simp: sample_heads split: if_split_asm)
  with run show ?thesis
    by simp
qed

text \<open>
  An example of a container whose hash depends on its history: with threshold 1, setting the only
  element of a range a second time leaves the elements as they are, but the counter of the range goes
  over the threshold, the range is divided, and the hash of the container changes.
\<close>

lemma repeated_set_changes_hash:
  "Elements (listEnv sampleHash) (diffOf sampleHash [[elem ''a'' ''1''], [elem ''a'' ''1'']])
     = Elements (listEnv sampleHash) (diffOf sampleHash [[elem ''a'' ''1'']])
   \<and> rawHash (diffOf sampleHash [[elem ''a'' ''1''], [elem ''a'' ''1'']]) \<noteq> rawHash (diffOf sampleHash [[elem ''a'' ''1'']])"
  by code_simp

end
