(* ===== verification/LdiffRemoved.thy ===== *)
theory LdiffRemoved
  imports LdiffProperties
begin

text \<open>
  Which removed ids a comparison misses. A range that the remote container has divided and the local
  one has not is compared part by part, and for its parts the local side has no ranges and answers
  with nil hashes. A part without elements at the remote has the nil hash too, so that the elements
  that the local side has there are taken to be the same.
\<close>

declare split_paired_All [simp del] split_paired_Ex [simp del]

section \<open>A range the remote has divided and the local side has not\<close>

definition tupleOf :: "Range \<Rightarrow> rangeTuple" where
  "tupleOf r = (rg_From r, rg_To r)"

lemma tupleOf_sel [simp]:
  "tupleOf (childReq t) = t" "tupleOf (r\<lparr>rg_Elements := b\<rparr>) = tupleOf r" "fst (tupleOf r) = rg_From r" "snd (tupleOf r) = rg_To r"
  by (simp_all add: tupleOf_def childReq_def)

lemma inRange_tupleOf: "inRange r x \<longleftrightarrow> inTuple x (tupleOf r)"
  by (simp add: inRange_def inTuple_def)

definition inBoth :: "'s diff \<Rightarrow> 's diff \<Rightarrow> rangeTuple \<Rightarrow> bool" where
  "inBoth d d' s \<longleftrightarrow> mget (h_ranges (d_ranges d)) s \<noteq> None \<and> mget (h_ranges (d_ranges d')) s \<noteq> None"

definition hides :: "'s ldiffEnv \<Rightarrow> nat \<Rightarrow> 's diff \<Rightarrow> 's diff \<Rightarrow> rangeTuple \<Rightarrow> rangeTuple \<Rightarrow> string \<Rightarrow> bool" where
  "hides E k d d' t c i \<longleftrightarrow> env_ok E \<and> diff_wf E k d \<and> diff_wf E k d' \<and> d_compareThreshold d' = d_compareThreshold d
     \<and> inBoth d d' t \<and> \<not> hr_isDivided (deref (d_ranges d) (the (mget (h_ranges (d_ranges d)) t)))
     \<and> d_compareThreshold d < elCount E (d_sl d') t
     \<and> c \<in> set (children k t) \<and> rr_Hash (getRange E d' (childReq c)) = []
     \<and> inTuple (xxhash E i) c \<and> i \<in> set (Ids E d)"

lemma hidesD:
  assumes "hides E k d d' t c i"
  shows "env_ok E" "diff_wf E k d" "diff_wf E k d'" "d_compareThreshold d' = d_compareThreshold d" "inBoth d d' t"
    and "\<not> hr_isDivided (deref (d_ranges d) (the (mget (h_ranges (d_ranges d)) t)))"
    and "d_compareThreshold d < elCount E (d_sl d') t" "c \<in> set (children k t)"
    and "rr_Hash (getRange E d' (childReq c)) = []" "inTuple (xxhash E i) c" "i \<in> set (Ids E d)"
  using assms by (simp_all add: hides_def)

lemma elCount_inside:
  assumes "env_ok E" and "sl_ok E sl" and "inside s t"
  shows "elCount E sl s \<le> elCount E sl t"
proof -
  have "length (filter (\<lambda>x. inTuple (el_hash x) s) els) \<le> length (filter (\<lambda>x. inTuple (el_hash x) t) els)" for els
    using inside_mem[OF assms(3)] by (induction els) auto
  then show ?thesis
    by (simp add: elCount_def elementsIn_view[OF assms(1,2)])
qed

lemma counter_bound:
  assumes "diff_wf E k d" and "mget (h_ranges (d_ranges d)) s = Some n"
  shows "elCount E (d_sl d) s \<le> hr_elements (deref (d_ranges d) n)"
  using wfD(7)[OF assms(1)] assms(2) unfolding tree_inv_def counted_def by blast

lemma own_elements:
  assumes "env_ok E" and "diff_wf E k d" and "i \<in> set (Ids E d)" and "inTuple (xxhash E i) s"
  shows "0 < elCount E (d_sl d) s"
proof -
  obtain x where x: "x \<in> set (view E (d_sl d))" "e_Id (el_Element x) = i"
    using assms(3) by (auto simp: Ids_def)
  then have "el_hash x = xxhash E i"
    using sl_okD(2)[OF wfD(3)[OF assms(2)]] by (auto simp: keyed_def)
  with x assms(4) have "x \<in> set (filter (\<lambda>x. inTuple (el_hash x) s) (view E (d_sl d)))"
    by simp
  then have "filter (\<lambda>x. inTuple (el_hash x) s) (view E (d_sl d)) \<noteq> []"
    by (metis empty_iff list.set(1))
  then show ?thesis
    by (simp add: elCount_def elementsIn_view[OF assms(1) wfD(3)[OF assms(2)]])
qed

text \<open>The cell of the hidden id below a range around the one that hides it.\<close>

lemma hides_cells:
  assumes H: "hides E k d d' t c i"
  obtains l where "cellAt k l t" "k * Suc l \<le> 64" "cellAt k (Suc l) c" "inTuple (xxhash E i) t"
proof -
  note wf = wfD[OF hidesD(3)[OF H]]
  obtain n where n: "mget (h_ranges (d_ranges d')) t = Some n"
    using hidesD(5)[OF H] by (auto simp: inBoth_def)
  have "hr_isDivided (deref (d_ranges d') n)"
    using big_divided[OF hidesD(3)[OF H] n] counter_bound[OF hidesD(3)[OF H] n] hidesD(4,7)[OF H] by simp
  then obtain l where l: "cellAt k l t" "k * Suc l \<le> 64"
    using range_cell[OF wf(9) n] by metis
  note c = gen_cell[OF wf(1,2) l hidesD(8)[OF H]]
  show thesis
    using that[OF l c(1) inside_mem[OF c(2) hidesD(10)[OF H]]] .
qed

text \<open>The requests that can contain the hidden id: ranges around the one that hides it, and the part.\<close>

definition onPath :: "'s ldiffEnv \<Rightarrow> 's diff \<Rightarrow> 's diff \<Rightarrow> rangeTuple \<Rightarrow> rangeTuple \<Rightarrow> string \<Rightarrow> Range \<Rightarrow> bool" where
  "onPath E d d' t c i r \<longleftrightarrow> (inRange r (xxhash E i) \<longrightarrow>
     \<not> rg_Elements r \<and> (inBoth d d' (tupleOf r) \<and> inside t (tupleOf r) \<or> tupleOf r = c))"

lemma strictly_around:
  assumes k: "0 < k" "k < 64" and sh: "shape k [] h" and s: "mget (h_ranges h) s = Some n" "inside t s" "s \<noteq> t"
    and t: "mget (h_ranges h) t = Some n'" "cellAt k l t" "inTuple x t"
    and q: "q \<in> set (children k s)" "inTuple x q"
  shows "mget (h_ranges h) q \<noteq> None \<and> inside t q"
proof -
  obtain ls where ls: "cellAt k ls s" "hr_isDivided (deref h n) \<Longrightarrow> k * Suc ls \<le> 64"
    using range_cell[OF sh s(1)] by metis
  have xs: "inTuple x s"
    using inside_mem[OF s(2) t(3)] .
  have less: "ls < l"
  proof (rule ccontr)
    assume "\<not> ls < l"
    then have "inside s t"
      using cell_nested[OF t(2) ls(1) _ t(3) xs] by simp
    with s(2,3) show False
      by (auto simp: inside_def prod_eq_iff)
  qed
  have div: "hr_isDivided (deref h n)"
    using outer_divided[OF k sh s(1) ls(1) xs t(1,2) less t(3)] .
  have "cellAt k (Suc ls) q"
    using gen_cell(1)[OF k ls(1) ls(2)[OF div] q(1)] .
  then have "inside t q"
    using cell_nested[OF _ t(2) _ q(2) t(3)] less by simp
  with parts_present[OF sh s(1) div] q(1) show ?thesis
    by blast
qed

lemma part_onPath:
  assumes H: "hides E k d d' t c i" and s: "inBoth d d' s" "inside t s" and q: "q \<in> set (children k s)"
  shows "onPath E d d' t c i (childReq q)"
  unfolding onPath_def inRange_tupleOf tupleOf_sel
proof (intro impI conjI)
  assume x: "inTuple (xxhash E i) q"
  obtain l where l: "cellAt k l t" "k * Suc l \<le> 64" "cellAt k (Suc l) c" "inTuple (xxhash E i) t"
    using hides_cells[OF H] .
  note wf = wfD[OF hidesD(2)[OF H]] and wf' = wfD[OF hidesD(3)[OF H]]
  show "\<not> rg_Elements (childReq q)"
    by (simp add: childReq_def)
  show "inBoth d d' q \<and> inside t q \<or> q = c"
  proof (cases "s = t")
    case True
    then have "cellAt k (Suc l) q"
      using gen_cell(1)[OF wf(1,2) l(1,2)] q by simp
    then show ?thesis
      using cell_unique[OF _ l(3) x hidesD(10)[OF H]] by simp
  next
    case False
    then show ?thesis
      using strictly_around[OF wf(1,2) wf(9) _ s(2) _ _ l(1,4) q x] strictly_around[OF wf(1,2) wf'(9) _ s(2) _ _ l(1,4) q x]
        s(1) hidesD(5)[OF H] by (auto simp: inBoth_def)
  qed
qed

section \<open>One comparison\<close>

text \<open>The id is not reported as removed, and the requests left stay on the path.\<close>

definition missing :: "'s ldiffEnv \<Rightarrow> 's diff \<Rightarrow> 's diff \<Rightarrow> rangeTuple \<Rightarrow> rangeTuple \<Rightarrow> string \<Rightarrow> diffCtx \<Rightarrow> bool" where
  "missing E d d' t c i dctx \<longleftrightarrow> i \<notin> set (removedIds dctx) \<and> (\<forall>r \<in> set (prepare dctx). onPath E d d' t c i r)"

lemma part_hash_nil:
  assumes H: "hides E k d d' t c i" and r: "tupleOf r = c"
  shows "rr_Hash (getRange E d r) = rr_Hash (getRange E d' r)"
proof -
  note wf = wfD[OF hidesD(2)[OF H]]
  obtain l where l: "cellAt k l t" "k * Suc l \<le> 64"
    using hides_cells[OF H] .
  obtain n where n: "mget (h_ranges (d_ranges d)) t = Some n"
    using hidesD(5)[OF H] by (auto simp: inBoth_def)
  have "mget (h_ranges (d_ranges d)) c = None"
    using leaf_no_parts[OF wf(1,2,9) n l _ hidesD(8)[OF H]] hidesD(6)[OF H] n by simp
  then have "rr_Hash (getRange E d r) = []"
    using r by (auto simp: getRange_def getRange_hr_def fullResult_def Let_def tupleOf_def)
  moreover have "rr_Hash (getRange E d' r) = rr_Hash (getRange E d' (childReq c))"
    using r by (auto simp: getRange_def getRange_hr_def fullResult_def Let_def tupleOf_def childReq_def split: option.split)
  ultimately show ?thesis
    using hidesD(9)[OF H] by simp
qed

text \<open>A range that both have is divided, unless the hashes are equal.\<close>

lemma around_divided:
  assumes H: "hides E k d d' t c i" and r: "\<not> rg_Elements r" "inBoth d d' (tupleOf r)" "inside t (tupleOf r)"
    and ne: "rr_Hash (getRange E d r) \<noteq> rr_Hash (getRange E d' r)"
  shows "compareResults E cmp d r (getRange E d r) (getRange E d' r) dctx
    = dctx\<lparr>prepare := prepare dctx @ map childReq (children k (tupleOf r))\<rparr>"
proof -
  obtain n n' where n: "mget (h_ranges (d_ranges d)) (tupleOf r) = Some n" "mget (h_ranges (d_ranges d')) (tupleOf r) = Some n'"
    using r(2) by (auto simp: inBoth_def)
  obtain l where "inTuple (xxhash E i) t"
    using hides_cells[OF H] .
  then have "0 < elCount E (d_sl d) (tupleOf r)"
    using own_elements[OF hidesD(1,2,11)[OF H]] inside_mem[OF r(3)] by simp
  then have my: "rr_Elements (getRange E d r) = []" "0 < rr_Count (getRange E d r)"
    using counter_bound[OF hidesD(2)[OF H] n(1)] n(1) r(1) by (simp_all add: getRange_def getRange_hr_def tupleOf_def)
  have "d_compareThreshold d < elCount E (d_sl d') (tupleOf r)"
    using elCount_inside[OF hidesD(1)[OF H] wfD(3)[OF hidesD(3)[OF H]] r(3)] hidesD(7)[OF H] by simp
  then have other: "rr_Elements (getRange E d' r) = []" "d_compareThreshold d < rr_Count (getRange E d' r)"
    using counter_bound[OF hidesD(3)[OF H] n(2)] n(2) r(1) by (simp_all add: getRange_def getRange_hr_def tupleOf_def)
  then show ?thesis
    using my ne wfD(6)[OF hidesD(2)[OF H]] wfD(4)[OF hidesD(2)[OF H]] by (simp add: compareResults_def childReq_def)
qed

lemma exactOn_ids: "exactOn hashId content r els \<Longrightarrow> \<not> inRange r (hashId i) \<Longrightarrow> i \<notin> e_Id ` set els"
  by (simp add: exactOn_def flip: headOf_None)

lemma compareResults_misses:
  assumes H: "hides E k d d' t c i" and free: "collisionFree E d d'" and r: "onPath E d d' t c i r"
    and m: "missing E d d' t c i dctx"
  shows "missing E d d' t c i (compareResults E compareElementsEqual d r (getRange E d r) (getRange E d' r) dctx)"
    (is "missing E d d' t c i ?dctx'")
proof (cases "inRange r (xxhash E i)")
  case True
  then consider "rr_Hash (getRange E d r) = rr_Hash (getRange E d' r)"
    | "rr_Hash (getRange E d r) \<noteq> rr_Hash (getRange E d' r)" "\<not> rg_Elements r" "inBoth d d' (tupleOf r)" "inside t (tupleOf r)"
    using r part_hash_nil[OF H] by (auto simp: onPath_def)
  then show ?thesis
  proof cases
    case 1
    then show ?thesis
      using m by (simp add: compareResults_def)
  next
    case 2
    then show ?thesis
      using m part_onPath[OF H 2(3,4)] by (auto simp: missing_def around_divided[OF H 2(2,3,4,1)])
  qed
next
  case out: False
  let ?th = "d_compareThreshold d"
  have inv: "env_ok E \<and> diff_wf E k d' \<and> d_compareThreshold d' = ?th"
    using hidesD[OF H] by simp
  note cl = own_client[OF hidesD(1-4)[OF H] free compares_equal]
  obtain dctx' where run: "dctx' = ?dctx'"
    by simp
  from cl run have "missing E d d' t c i dctx'"
  proof (cases rule: own.compareResults_cases)
    case eq
    then show ?thesis
      using m by simp
  next
    case (full xs)
    then show ?thesis
      using m exactOn_ids[OF full(2) out] unfolding full(1)
      by (auto simp: missing_def compareElementsEqual_def Let_def)
  next
    case ask
    then show ?thesis
      using m out by (auto simp: missing_def onPath_def inRange_tupleOf)
  next
    case divide
    have "\<not> inRange (childReq q) (xxhash E i)" if "q \<in> set (children k (tupleOf r))" for q
      using genTupleRanges_partition(2)[OF own.factor[OF inv], of "rg_From r" "rg_To r" "xxhash E i"]
        own.divided_size[OF inv divide(2,3)] that out by (auto simp: inRange_def inTuple_def childReq_def)
    then show ?thesis
      using m divide(1) by (auto simp: missing_def onPath_def)
  qed
  then show ?thesis
    by (simp only: run)
qed

section \<open>The whole comparison\<close>

lemma compareAll_misses:
  assumes H: "hides E k d d' t c i" and free: "collisionFree E d d'"
  shows "(\<forall>r \<in> set rs. onPath E d d' t c i r) \<Longrightarrow> missing E d d' t c i dctx \<Longrightarrow>
    missing E d d' t c i (compareAll E compareElementsEqual d rs (map (getRange E d) rs) (map (getRange E d') rs) dctx)"
proof (induction rs arbitrary: dctx)
  case (Cons r rs)
  then show ?case
    using compareResults_misses[OF H free, of r dctx] by simp
qed simp

lemma diffRound_misses:
  assumes H: "hides E k d d' t c i" and free: "collisionFree E d d'"
    and "i \<notin> set (removedIds dctx)" "\<forall>r \<in> set (toSend dctx). onPath E d d' t c i r" "prepare dctx = []"
    and "diffRound E compareElementsEqual (Ranges E d') d dctx = Inr dctx'"
  shows "i \<notin> set (removedIds dctx') \<and> (\<forall>r \<in> set (toSend dctx'). onPath E d d' t c i r) \<and> prepare dctx' = []"
proof -
  define all where "all = compareAll E compareElementsEqual d (toSend dctx) (map (getRange E d) (toSend dctx))
    (map (getRange E d') (toSend dctx)) dctx"
  have "missing E d d' t c i dctx"
    using assms(3,5) by (simp add: missing_def)
  then have "missing E d d' t c i all"
    unfolding all_def by (rule compareAll_misses[OF H free assms(4)])
  moreover have "dctx' = all\<lparr>toSend := prepare all, prepare := []\<rparr>"
    using assms(6) by (simp add: diffRound_def Ranges_def Let_def all_def)
  ultimately show ?thesis
    by (simp add: missing_def)
qed

definition stillMissing where
  "stillMissing E d d' t c i dctx \<longleftrightarrow>
     i \<notin> set (removedIds dctx) \<and> (\<forall>r \<in> set (toSend dctx). onPath E d d' t c i r) \<and> prepare dctx = []"

lemma diffLoop_misses:
  assumes H: "hides E k d d' t c i" and free: "collisionFree E d d'"
    and run: "diffLoop E compareElementsEqual (Ranges E d') (\<lambda>_. None) n d dctx = Some res"
    and "stillMissing E d d' t c i dctx"
  shows "res = Inr dctx' \<Longrightarrow> i \<notin> set (removedIds dctx')"
proof -
  let ?P = "\<lambda>E0 cmp remote (ctx :: nat \<Rightarrow> ldiff_error option) (n0 :: nat) d0 dctx0 (res :: ldiff_error + diffCtx). E0 = E \<longrightarrow> cmp = compareElementsEqual \<longrightarrow> remote = Ranges E d' \<longrightarrow>
    ctx = (\<lambda>_. None) \<longrightarrow> d0 = d \<longrightarrow> stillMissing E d d' t c i dctx0 \<longrightarrow>
    (\<forall>dctx'. res = Inr dctx' \<longrightarrow> i \<notin> set (removedIds dctx'))"
  have "?P E compareElementsEqual (Ranges E d') (\<lambda>_. None) n d dctx res"
  proof (rule diffLoop.raw_induct[OF _ run, where P = ?P], intro impI allI)
    fix loop E0 cmp remote ctx n0 d0 dctx0 res dctx'
    assume IH: "\<And>E0 cmp remote ctx n0 d0 dctx0 res. loop E0 cmp remote ctx n0 d0 dctx0 = Some res \<Longrightarrow>
        ?P E0 cmp remote ctx n0 d0 dctx0 res"
      and body: "(if toSend dctx0 = [] then pret dctx0
        else case ctx n0 of
            None \<Rightarrow> (case diffRound E0 cmp remote d0 dctx0 of Inl e \<Rightarrow> pthrow e
              | Inr dctx1 \<Rightarrow> loop E0 cmp remote ctx (n0 + 1) d0 dctx1)
          | Some e \<Rightarrow> pthrow e) = Some res"
      and eqs: "E0 = E" "cmp = compareElementsEqual" "remote = Ranges E d'" "ctx = (\<lambda>_. None)" "d0 = d"
        "stillMissing E d d' t c i dctx0" "res = Inr dctx'"
    show "i \<notin> set (removedIds dctx')"
    proof (cases "toSend dctx0 = []")
      case True
      then show ?thesis
        using body eqs by (simp add: stillMissing_def)
    next
      case False
      then obtain dctx1 where d1: "diffRound E compareElementsEqual (Ranges E d') d dctx0 = Inr dctx1"
        "loop E compareElementsEqual (Ranges E d') (\<lambda>_. None) (n0 + 1) d dctx1 = Some res"
        using body eqs by (cases "diffRound E compareElementsEqual (Ranges E d') d dctx0") auto
      have "stillMissing E d d' t c i dctx1"
        using diffRound_misses[OF H free _ _ _ d1(1)] eqs(6) by (simp add: stillMissing_def)
      then show ?thesis
        using IH[OF d1(2)] eqs(7) by simp
    qed
  qed
  then show "res = Inr dctx' \<Longrightarrow> i \<notin> set (removedIds dctx')"
    using assms(4) by simp
qed

lemma hidden_not_there:
  assumes H: "hides E k d d' t c i"
  shows "i \<notin> set (Ids E d')"
proof
  assume i: "i \<in> set (Ids E d')"
  note wf' = wfD[OF hidesD(3)[OF H]]
  obtain n where n: "mget (h_ranges (d_ranges d')) t = Some n"
    using hidesD(5)[OF H] by (auto simp: inBoth_def)
  have "hr_isDivided (deref (d_ranges d') n)"
    using big_divided[OF hidesD(3)[OF H] n] counter_bound[OF hidesD(3)[OF H] n] hidesD(4,7)[OF H] by simp
  then obtain m where m: "mget (h_ranges (d_ranges d')) c = Some m"
    using parts_present[OF wf'(9) n] hidesD(8)[OF H] by blast
  then have "elementsIn E (d_sl d') (fst c) (snd c) = []"
    using nil_hash_empty[OF hidesD(1,3)[OF H] m] hidesD(9)[OF H] by (simp add: getRange_def getRange_hr_def childReq_def)
  with own_elements[OF hidesD(1,3)[OF H] i hidesD(10)[OF H]] show False
    by (simp add: elCount_def)
qed

text \<open>
  C30. Removed ids can be missed, and this is when: let a range \<open>t\<close> be undivided in the local container
  and hold more elements than the threshold in the remote one, and let the remote answer a part \<open>c\<close> of
  \<open>t\<close> with the nil hash of a range without elements. Then no id that the local container has in \<open>c\<close> is
  reported as removed, although the remote container has none of them: the local side has no range for
  \<open>c\<close> and answers with a nil hash too, and equal hashes end the comparison. In the witness the local
  container holds only \<open>x\<close>, and the remote one \<open>a\<close> and \<open>b\<close> in the other half of the same range.
\<close>

theorem removed_id_missed:
  assumes "env_ok E" and "diff_wf E k d" and "diff_wf E k d'" and "d_compareThreshold d' = d_compareThreshold d"
    and "collisionFree E d d'"
    and "mget (h_ranges (d_ranges d)) t = Some n" and "\<not> hr_isDivided (deref (d_ranges d) n)"
    and "mget (h_ranges (d_ranges d')) t = Some n'"
    and "d_compareThreshold d < int (length (elementsIn E (d_sl d') (fst t) (snd t)))"
    and "c \<in> set (genTupleRanges (fst t) (snd t) (2 ^ k))"
    and "rr_Hash (getRange E d' \<lparr>rg_From = fst c, rg_To = snd c, rg_Elements = False, rg_Limit = 0\<rparr>) = []"
    and "fst c \<le> xxhash E i" and "xxhash E i \<le> snd c" and "i \<in> set (Ids E d)"
  shows "\<exists>new changed removed. Diff E (Ranges E d') (\<lambda>_. None) d = pret (new, changed, removed)
    \<and> i \<notin> set removed \<and> i \<notin> set (Ids E d')"
proof -
  have H: "hides E k d d' t c i"
    using assms unfolding hides_def inBoth_def elCount_def inTuple_def childReq_def by simp
  obtain dctx where run: "diffLoop E compareElementsEqual (Ranges E d') (\<lambda>_. None) 0 d startCtx = pret dctx"
    using own.diff_result[OF own_client[OF assms(1-5) compares_equal]] unfolding own_remote by blast
  have "inBoth d d' (0, - 1)"
    using shapeD(2)[OF wfD(9)[OF assms(2)]] shapeD(2)[OF wfD(9)[OF assms(3)]] by (simp add: inBoth_def)
  then have "stillMissing E d d' t c i startCtx"
    by (simp add: stillMissing_def startCtx_def onPath_def tupleOf_def)
  from diffLoop_misses[OF H assms(5) run this] have "i \<notin> set (removedIds dctx)"
    by simp
  moreover have "i \<notin> set (Ids E d')"
    using hidden_not_there[OF H] .
  ultimately show ?thesis
    using run by (simp add: Diff_def)
qed

theorem removed_id_missed_witness:
  "\<exists>new changed removed. Diff (listEnv sampleHash)
       (Ranges (listEnv sampleHash) (diffOf sampleHash [[elem ''a'' ''1'', elem ''b'' ''1'']])) (\<lambda>_. None)
       (diffOf sampleHash [[elem ''x'' ''1'']]) = pret (new, changed, removed)
     \<and> ''x'' \<notin> set removed \<and> ''x'' \<notin> set (Ids (listEnv sampleHash) (diffOf sampleHash [[elem ''a'' ''1'', elem ''b'' ''1'']]))"
proof -
  let ?E = "listEnv sampleHash" and ?d = "diffOf sampleHash [[elem ''x'' ''1'']]"
    and ?d' = "diffOf sampleHash [[elem ''a'' ''1'', elem ''b'' ''1'']]"
  have wf: "diff_wf ?E 1 ?d" "d_compareThreshold ?d = 1"
    using diffOf_wf[of "[elem ''x'' ''1'']" sampleHash] spread_distinct[of sampleHash "[elem ''x'' ''1'']"] by auto
  have wf': "diff_wf ?E 1 ?d'" "d_compareThreshold ?d' = 1"
    using diffOf_wf[of "[elem ''a'' ''1'', elem ''b'' ''1'']" sampleHash]
      spread_distinct[of sampleHash "[elem ''a'' ''1'', elem ''b'' ''1'']"] by (auto simp: sampleHash_def)
  have "collisionCheck ?E ?d ?d'"
    by code_simp
  note free = collisionCheck_free[OF listEnv_ok wf(1) wf'(1) this]
  show ?thesis
  proof (rule removed_id_missed[OF listEnv_ok wf(1) wf'(1) _ free])
    show "d_compareThreshold ?d' = d_compareThreshold ?d"
      using wf wf' by simp
    show "mget (h_ranges (d_ranges ?d)) (0, 9223372036854775807) = Some 1" "\<not> hr_isDivided (deref (d_ranges ?d) 1)"
      "mget (h_ranges (d_ranges ?d')) (0, 9223372036854775807) = Some 1"
      by code_simp+
    show "d_compareThreshold ?d < int (length (elementsIn ?E (d_sl ?d')
        (fst (0, 9223372036854775807 :: u64)) (snd (0 :: u64, 9223372036854775807))))"
      by code_simp
    show "(4611686018427387904, 9223372036854775807) \<in> set (genTupleRanges (fst (0, 9223372036854775807 :: u64))
        (snd (0 :: u64, 9223372036854775807)) (2 ^ 1))"
      by code_simp
    show "rr_Hash (getRange ?E ?d' \<lparr>rg_From = fst (4611686018427387904, 9223372036854775807 :: u64),
        rg_To = snd (4611686018427387904 :: u64, 9223372036854775807), rg_Elements = False, rg_Limit = 0\<rparr>) = []"
      by code_simp
    show "fst (4611686018427387904, 9223372036854775807 :: u64) \<le> xxhash ?E ''x''"
      "xxhash ?E ''x'' \<le> snd (4611686018427387904 :: u64, 9223372036854775807)" "''x'' \<in> set (Ids ?E ?d)"
      by code_simp+
  qed
qed

end
