(* ===== verification/ObjTree.thy ===== *)
theory ObjTree
  imports Prelude
begin

text \<open>
  The tree of changes of an object (\<open>tree.go\<close>, \<open>treeiterator.go\<close>, \<open>treereduce.go\<close> of
  \<open>commonspace/object/tree/objecttree\<close>): a graph of changes, each pointing to the changes it follows,
  with one order of iteration that all replicas agree on.

  A pointer to a change is the id of that change, looked up in \<open>t_mem\<close>, the changes in memory; the maps
  \<open>attached\<close> and \<open>unAttached\<close> hold such pointers. A change that leaves the maps stays in memory. The
  marks \<open>visited\<close> and \<open>branchesFinished\<close> that a traversal sets on the changes and takes back are lists
  of ids local to the traversal.

  Order ids come from the library \<open>lexid\<close>, a parameter.
\<close>

section \<open>Data\<close>

datatype tree_error = ErrChangeAlreadyExists | ErrChangeIsNotAttached | ErrNotANewHead
  | TreePanicNilDereference | TreePanicIndexOutOfRange | TreePanicOrderId

datatype Mode = ModeAppend | ModeRebuild | ModeNothing

record Change =
  ch_Next :: "string list"
  ch_PreviousIds :: "string list"
  ch_Previous :: "string list"
  ch_AclHeadId :: string
  ch_Id :: string
  ch_SnapshotId :: string
  ch_Identity :: string
  ch_IsSnapshot :: bool
  ch_IsDerived :: bool
  ch_OrderId :: string
  ch_SnapshotCounter :: int

record Tree =
  t_root :: "string option"
  t_headIds :: "string list"
  t_lastIteratedHeadId :: string
  t_mem :: "(string, Change) gomap"
  t_attached :: "(string, unit) gomap"
  t_unAttached :: "(string, unit) gomap"
  t_waitList :: "(string, string list) gomap"
  t_invalidChanges :: "(string, unit) gomap"
  t_possibleRoots :: "string list"
  t_addedBuf :: "string list"
  t_duplicateEvents :: int

record lexid =
  lx_Next :: "string \<Rightarrow> string"
  lx_NextBefore :: "string \<Rightarrow> string \<Rightarrow> string option"

definition emptyTree :: Tree where
  "emptyTree = \<lparr>t_root = None, t_headIds = [], t_lastIteratedHeadId = [], t_mem = [], t_attached = [],
     t_unAttached = [], t_waitList = [], t_invalidChanges = [], t_possibleRoots = [], t_addedBuf = [],
     t_duplicateEvents = 0\<rparr>"

text \<open>Following a pointer and writing through it.\<close>

definition nilChange :: Change where
  "nilChange = \<lparr>ch_Next = [], ch_PreviousIds = [], ch_Previous = [], ch_AclHeadId = [], ch_Id = [],
     ch_SnapshotId = [], ch_Identity = [], ch_IsSnapshot = False, ch_IsDerived = False, ch_OrderId = [],
     ch_SnapshotCounter = 0\<rparr>"

definition chOf :: "Tree \<Rightarrow> string \<Rightarrow> Change" where
  "chOf t i = (case mget (t_mem t) i of Some c \<Rightarrow> c | None \<Rightarrow> nilChange)"

definition updCh :: "string \<Rightarrow> (Change \<Rightarrow> Change) \<Rightarrow> Tree \<Rightarrow> Tree" where
  "updCh i f t = t\<lparr>t_mem := mput i (f (chOf t i)) (t_mem t)\<rparr>"

definition isAttached :: "Tree \<Rightarrow> string \<Rightarrow> bool" where
  "isAttached t i \<longleftrightarrow> mget (t_attached t) i \<noteq> None"

definition isUnAttached :: "Tree \<Rightarrow> string \<Rightarrow> bool" where
  "isUnAttached t i \<longleftrightarrow> mget (t_unAttached t) i \<noteq> None"

definition RootId :: "Tree \<Rightarrow> string" where
  "RootId t = (case t_root t of Some r \<Rightarrow> r | None \<Rightarrow> [])"

definition LenTree :: "Tree \<Rightarrow> nat" where
  "LenTree t = length (t_attached t)"

definition clearUnattached :: "Tree \<Rightarrow> Tree" where
  "clearUnattached t = t\<lparr>t_unAttached := []\<rparr>"

section \<open>Iteration\<close>

text \<open>
  The loop of \<open>topSort\<close>: the top of the stack is the head of \<open>stack\<close>, \<open>finished\<close> are the changes with
  \<open>branchesFinished\<close> set. \<open>None\<close> would be a loop that does not end.
\<close>

partial_function (option) topSortLoop ::
    "(string \<Rightarrow> string list) \<Rightarrow> string list \<Rightarrow> string list \<Rightarrow> string list \<Rightarrow> string list \<Rightarrow> string list option" where
  "topSortLoop next stack visited finished resBuf =
     (case stack of
        [] \<Rightarrow> Some resBuf
      | ch # rest \<Rightarrow>
          if ch \<in> set finished
          then topSortLoop next rest visited (removeAll ch finished) (resBuf @ [ch])
          else if ch \<in> set visited
          then topSortLoop next rest visited finished resBuf
          else topSortLoop next
            (rev (filter (\<lambda>n. n \<notin> set (ch # visited)) (next ch)) @ ch # rest)
            (ch # visited) (ch # finished) resBuf)"

definition nextOf :: "Tree \<Rightarrow> string \<Rightarrow> string list" where
  "nextOf t i = ch_Next (chOf t i)"

definition topSort :: "Tree \<Rightarrow> string \<Rightarrow> string list option" where
  "topSort t start = topSortLoop (nextOf t) [start] [] [] []"

definition makeIterBuffer :: "Tree \<Rightarrow> string option \<Rightarrow> string list option" where
  "makeIterBuffer t start = (case start of None \<Rightarrow> Some [] | Some s \<Rightarrow> topSort t s)"

text \<open>The changes in the order in which \<open>iterate\<close> passes them to its callback.\<close>

definition iterateOrder :: "Tree \<Rightarrow> string option \<Rightarrow> string list option" where
  "iterateOrder t start = map_option rev (makeIterBuffer t start)"

text \<open>\<open>iterateSkip\<close> from the root: the callback sees the changes from \<open>skipBefore\<close> on.\<close>

definition iterateSkip :: "Tree \<Rightarrow> string \<Rightarrow> string list option" where
  "iterateSkip t skipBefore = map_option (dropWhile (\<lambda>c. c \<noteq> skipBefore)) (iterateOrder t (t_root t))"

text \<open>The walks along \<open>Previous\<close> and \<open>Next\<close>; the result is \<open>visitedBuf\<close>.\<close>

partial_function (option) dfsLoop ::
    "(string \<Rightarrow> string list) \<Rightarrow> string list \<Rightarrow> string list \<Rightarrow> string list option" where
  "dfsLoop next stack visited =
     (case stack of
        [] \<Rightarrow> Some visited
      | ch # rest \<Rightarrow>
          if ch \<in> set visited then dfsLoop next rest visited
          else dfsLoop next (rev (filter (\<lambda>n. n \<notin> set (visited @ [ch])) (next ch)) @ rest) (visited @ [ch]))"

definition dfsNext :: "Tree \<Rightarrow> string list \<Rightarrow> string list option" where
  "dfsNext t stack = dfsLoop (nextOf t) (rev stack) []"

definition dfsPrev :: "Tree \<Rightarrow> string list \<Rightarrow> string list \<Rightarrow> string list option" where
  "dfsPrev t stack breakpoints =
     dfsLoop (\<lambda>i. ch_Previous (chOf t i)) (rev stack) (filter (isAttached t) breakpoints)"

declare topSortLoop.simps [code] dfsLoop.simps [code]

section \<open>Order ids and heads\<close>

text \<open>The inner loop that fills a gap between two order ids.\<close>

fun fillBetween :: "lexid \<Rightarrow> string \<Rightarrow> string \<Rightarrow> string list \<Rightarrow> Tree \<Rightarrow> tree_error + Tree" where
  "fillBetween L prev before [] t = Inr t"
| "fillBetween L prev before (i # is) t =
     (case lx_NextBefore L prev before of
        None \<Rightarrow> Inl TreePanicOrderId
      | Some o' \<Rightarrow> fillBetween L o' before is (updCh i (\<lambda>c. c\<lparr>ch_OrderId := o'\<rparr>) t))"

text \<open>The loop for the changes after the last one with an order id.\<close>

fun fillNext :: "lexid \<Rightarrow> string \<Rightarrow> string list \<Rightarrow> Tree \<Rightarrow> Tree" where
  "fillNext L prev [] t = t"
| "fillNext L prev (i # is) t =
     fillNext L (lx_Next L prev) is (updCh i (\<lambda>c. c\<lparr>ch_OrderId := lx_Next L prev\<rparr>) t)"

text \<open>\<open>gap\<close> are the changes seen since the last order id \<open>prev\<close>.\<close>

fun orderLoop :: "lexid \<Rightarrow> string \<Rightarrow> string list \<Rightarrow> string list \<Rightarrow> Tree \<Rightarrow> tree_error + Tree" where
  "orderLoop L prev gap [] t = Inr (fillNext L prev gap t)"
| "orderLoop L prev gap (i # is) t =
     (if ch_OrderId (chOf t i) = [] then orderLoop L prev (gap @ [i]) is t
      else rbind (fillBetween L prev (ch_OrderId (chOf t i)) gap t)
        (orderLoop L (ch_OrderId (chOf t i)) [] is))"

definition updateHeads :: "lexid \<Rightarrow> Tree \<Rightarrow> (tree_error, Tree) run" where
  "updateHeads L t =
     (case iterateOrder t (t_root t) of
        None \<Rightarrow> None
      | Some [] \<Rightarrow> pthrow TreePanicIndexOutOfRange
      | Some (r # is) \<Rightarrow>
          (let newHeadIds = filter (\<lambda>i. nextOf t i = []) (r # is)
           in if newHeadIds = [] then pthrow TreePanicIndexOutOfRange
              else (case orderLoop L (ch_OrderId (chOf t r)) [] is t of
                  Inl e \<Rightarrow> pthrow e
                | Inr t' \<Rightarrow> pret (t'\<lparr>t_headIds := sort newHeadIds, t_lastIteratedHeadId := last newHeadIds\<rparr>))))"

section \<open>Attaching changes\<close>

definition insertIdx :: "string \<Rightarrow> string list \<Rightarrow> nat" where
  "insertIdx i ns = (let idx = length (takeWhile (\<lambda>el. el < i) ns) in if idx < length ns then idx else 0)"

definition insertNext :: "string \<Rightarrow> string list \<Rightarrow> string list" where
  "insertNext i ns =
     (if ns = [] \<or> last ns \<le> i then ns @ [i]
      else take (insertIdx i ns) ns @ i # drop (insertIdx i ns) ns)"

definition addToPrev :: "string \<Rightarrow> string \<Rightarrow> Tree \<Rightarrow> Tree" where
  "addToPrev i prev t =
     updCh prev (\<lambda>p. p\<lparr>ch_Next := insertNext i (ch_Next p)\<rparr>)
       (updCh i (\<lambda>c. c\<lparr>ch_Previous := ch_Previous c @ [prev]\<rparr>) t)"

definition addToWait :: "string \<Rightarrow> string \<Rightarrow> Tree \<Rightarrow> Tree" where
  "addToWait i pid t =
     t\<lparr>t_waitList := mput pid ((case mget (t_waitList t) pid of Some ws \<Rightarrow> ws | None \<Rightarrow> []) @ [i]) (t_waitList t)\<rparr>"

definition canAttachOrRemove :: "Change \<Rightarrow> bool \<Rightarrow> Tree \<Rightarrow> (bool \<times> bool) \<times> Tree" where
  "canAttachOrRemove c wait t =
     (let missing = filter (\<lambda>pid. \<not> isAttached t pid) (ch_PreviousIds c);
          t' = (if wait then fold (addToWait (ch_Id c)) missing t else t)
      in if missing \<noteq> [] then ((False, False), t')
         else if \<not> isAttached t (ch_SnapshotId c) then ((False, True), t')
         else ((True, False), t'))"

text \<open>\<open>attach\<close> up to its wait list.\<close>

definition attachOne :: "string \<Rightarrow> bool \<Rightarrow> Tree \<Rightarrow> Tree" where
  "attachOne i newEl t =
     (let t = t\<lparr>t_attached := mput i () (t_attached t), t_addedBuf := t_addedBuf t @ [i]\<rparr>;
          t = (if newEl then t else t\<lparr>t_unAttached := mdel i (t_unAttached t)\<rparr>);
          t = (if ch_SnapshotCounter (chOf t i) = 0
               then updCh i (\<lambda>c. c\<lparr>ch_SnapshotCounter := ch_SnapshotCounter (chOf t (ch_SnapshotId c)) + 1\<rparr>)
                 (t\<lparr>t_possibleRoots := t_possibleRoots t @ [i]\<rparr>)
               else t)
      in fold (addToPrev i) (ch_PreviousIds (chOf t i)) t)"

text \<open>
  The recursion of \<open>attach\<close> through the wait lists: \<open>Check wid\<close> is one turn of the loop over the waiting
  changes, \<open>Drop i\<close> the \<open>delete\<close> after that loop.
\<close>

datatype attachTask = Check string | Drop string

definition waiting :: "string \<Rightarrow> Tree \<Rightarrow> attachTask list" where
  "waiting i t = (case mget (t_waitList t) i of None \<Rightarrow> [] | Some waitIds \<Rightarrow> map Check waitIds @ [Drop i])"

lemma t_unAttached_updCh [simp]: "t_unAttached (updCh i f t) = t_unAttached t"
  by (simp add: updCh_def)

lemma t_unAttached_addToPrev [simp]: "t_unAttached (fold (addToPrev i) ps t) = t_unAttached t"
  by (induction ps arbitrary: t) (simp_all add: addToPrev_def)

lemma attachOne_unAttached: "t_unAttached (attachOne i False t) = mdel i (t_unAttached t)"
  by (simp add: attachOne_def Let_def)

lemma canAttach_unAttached [simp]: "t_unAttached (snd (canAttachOrRemove c w t)) = t_unAttached t"
proof -
  have "t_unAttached (fold (addToWait i) ps t) = t_unAttached t" for i ps
    by (induction ps arbitrary: t) (simp_all add: addToWait_def)
  then show ?thesis
    by (simp add: canAttachOrRemove_def Let_def)
qed

lemma length_delete_less: "mget m k \<noteq> None \<Longrightarrow> length (mdel k m) < length m"
  by (induction m) (auto simp: less_Suc_eq_le length_delete_le)

function attachRun :: "attachTask list \<Rightarrow> Tree \<Rightarrow> Tree" where
  "attachRun [] t = t"
| "attachRun (Drop i # tasks) t = attachRun tasks (t\<lparr>t_waitList := mdel i (t_waitList t)\<rparr>)"
| "attachRun (Check wid # tasks) t =
     (if \<not> isUnAttached t wid then attachRun tasks t
      else if fst (fst (canAttachOrRemove (chOf t wid) False t))
        then attachRun (waiting wid (attachOne wid False t) @ tasks) (attachOne wid False t)
      else if snd (fst (canAttachOrRemove (chOf t wid) False t))
        then attachRun tasks (t\<lparr>t_unAttached := mdel wid (t_unAttached t)\<rparr>)
      else attachRun tasks t)"
  by pat_completeness auto
termination
proof (relation "inv_image (less_than <*lex*> less_than) (\<lambda>(tasks, t). (length (t_unAttached t), length tasks))")
  show "((waiting wid (attachOne wid False t) @ tasks, attachOne wid False t), Check wid # tasks, t)
      \<in> inv_image (less_than <*lex*> less_than) (\<lambda>(tasks, t). (length (t_unAttached t), length tasks))"
    if "\<not> \<not> isUnAttached t wid" for wid tasks t
    using that length_delete_less[of "t_unAttached t" wid]
    by (simp add: attachOne_unAttached isUnAttached_def)
  show "((tasks, t\<lparr>t_unAttached := mdel wid (t_unAttached t)\<rparr>), Check wid # tasks, t)
      \<in> inv_image (less_than <*lex*> less_than) (\<lambda>(tasks, t). (length (t_unAttached t), length tasks))"
    if "\<not> \<not> isUnAttached t wid" for wid tasks t
    using that length_delete_less[of "t_unAttached t" wid] by (simp add: isUnAttached_def)
qed auto

definition attach :: "string \<Rightarrow> bool \<Rightarrow> Tree \<Rightarrow> Tree" where
  "attach i newEl t = attachRun (waiting i (attachOne i newEl t)) (attachOne i newEl t)"

text \<open>\<open>add\<close>: the first change becomes the root; any other is attached, dropped or left waiting.\<close>

definition add :: "lexid \<Rightarrow> Change \<Rightarrow> Tree \<Rightarrow> bool \<times> Tree" where
  "add L c t =
     (case t_root t of
        None \<Rightarrow>
          (let c = (if ch_OrderId c = [] then c\<lparr>ch_OrderId := lx_Next L []\<rparr> else c)
           in (True, t\<lparr>t_root := Some (ch_Id c), t_lastIteratedHeadId := ch_Id c,
                 t_mem := mput (ch_Id c) c (t_mem t), t_attached := [(ch_Id c, ())], t_unAttached := [],
                 t_waitList := [], t_invalidChanges := [], t_possibleRoots := [],
                 t_addedBuf := t_addedBuf t @ [ch_Id c]\<rparr>))
      | Some _ \<Rightarrow>
          (let c = (if length (ch_PreviousIds c) > 1 then c\<lparr>ch_PreviousIds := sort (ch_PreviousIds c)\<rparr> else c)
           in case canAttachOrRemove c True t of
                ((attach', remove), t) \<Rightarrow>
                  let m = t\<lparr>t_mem := mput (ch_Id c) c (t_mem t)\<rparr>
                  in if attach' then (True, attach (ch_Id c) True m)
                     else if \<not> remove then (False, m\<lparr>t_unAttached := mput (ch_Id c) () (t_unAttached m)\<rparr>)
                     else (False, t)))"

text \<open>
  The loop over the changes to add. The flags say which of the changes were not ignored: the changes
  passed in are new objects, so that an ignored one is never the one in the tree.
\<close>

fun addLoop :: "lexid \<Rightarrow> Change list \<Rightarrow> Tree \<Rightarrow> bool list \<times> Tree" where
  "addLoop L [] t = ([], t)"
| "addLoop L (c # cs) t =
     (if isAttached t (ch_Id c) \<or> isUnAttached t (ch_Id c)
      then (case addLoop L cs t of (flags, t) \<Rightarrow> (False # flags, t))
      else (case addLoop L cs (snd (add L c t)) of (flags, t) \<Rightarrow> (True # flags, t)))"

definition AddFast :: "lexid \<Rightarrow> Change list \<Rightarrow> Tree \<Rightarrow> (tree_error, string list \<times> Tree) run" where
  "AddFast L changes t =
     (if changes = [] then pret ([], t)
      else pbind (updateHeads L (snd (addLoop L changes (t\<lparr>t_addedBuf := []\<rparr>)))) (\<lambda>t.
        pret (t_addedBuf t, clearUnattached t)))"

text \<open>A change in the tree was not reached from the last head: its mark, read after the walk, is not set.\<close>

definition notVisited :: "Tree \<Rightarrow> string list \<Rightarrow> Change \<times> bool \<Rightarrow> bool" where
  "notVisited t visited cf \<longleftrightarrow>
     isAttached t (ch_Id (fst cf)) \<and> \<not> (snd cf \<and> ch_Id (fst cf) \<in> set visited)"

definition Add :: "lexid \<Rightarrow> Change list \<Rightarrow> Tree \<Rightarrow> (tree_error, (Mode \<times> string list) \<times> Tree) run" where
  "Add L changes t =
     (let lastIterated = t_lastIteratedHeadId t; empty = LenTree t = 0
      in case addLoop L changes (t\<lparr>t_addedBuf := []\<rparr>) of (flags, t1) \<Rightarrow>
         if t_addedBuf t1 = [] then pret ((ModeNothing, []), clearUnattached t1)
         else pbind (updateHeads L t1) (\<lambda>t2.
           if empty then pret ((ModeRebuild, t_addedBuf t2), clearUnattached t2)
           else if \<not> isAttached t2 lastIterated then pthrow TreePanicNilDereference
           else (case dfsNext t2 [lastIterated] of
               None \<Rightarrow> None
             | Some visited \<Rightarrow>
                 pret ((if list_ex (notVisited t2 visited) (zip changes flags) then ModeRebuild else ModeAppend,
                        t_addedBuf t2), clearUnattached t2))))"

text \<open>An error of \<open>AddMergedHead\<close> leaves the tree as far as it was changed.\<close>

definition mergedHeadErr :: "Tree \<Rightarrow> string \<Rightarrow> string \<Rightarrow> tree_error option" where
  "mergedHeadErr t i prevHead =
     (if \<not> isAttached t prevHead then Some TreePanicNilDereference
      else if nextOf t prevHead \<noteq> [i] then Some ErrNotANewHead
      else None)"

definition AddMergedHead :: "lexid \<Rightarrow> Change \<Rightarrow> Tree \<Rightarrow> tree_error option \<times> Tree" where
  "AddMergedHead L c t =
     (if isAttached t (ch_Id c) \<or> isUnAttached t (ch_Id c) then (Some ErrChangeAlreadyExists, t)
      else (case add L c t of (attached, t') \<Rightarrow>
        if \<not> attached then (Some ErrChangeIsNotAttached, t')
        else (case first_err (mergedHeadErr t' (ch_Id c)) (t_headIds t') of
            Some e \<Rightarrow> (Some e, t')
          | None \<Rightarrow> (None, t'\<lparr>t_headIds := [ch_Id c], t_lastIteratedHeadId := ch_Id c\<rparr>))))"

section \<open>Reading the tree\<close>

definition GetChange :: "Tree \<Rightarrow> string \<Rightarrow> Change option" where
  "GetChange t i = (if isAttached t i then Some (chOf t i) else None)"

definition Heads :: "Tree \<Rightarrow> string list" where
  "Heads t = t_headIds t"

definition HeadsChanges :: "Tree \<Rightarrow> Change option list" where
  "HeadsChanges t = map (GetChange t) (t_headIds t)"

definition GetDuplicateEvents :: "Tree \<Rightarrow> int" where
  "GetDuplicateEvents t = t_duplicateEvents t"

definition ResetDuplicateEvents :: "Tree \<Rightarrow> Tree" where
  "ResetDuplicateEvents t = t\<lparr>t_duplicateEvents := 0\<rparr>"

text \<open>With an id that is not attached the callback never sees a change.\<close>

definition IterateSkip :: "Tree \<Rightarrow> string \<Rightarrow> string list option" where
  "IterateSkip t startId =
     (if isAttached t startId then iterateSkip t startId else map_option (\<lambda>_. []) (iterateOrder t (t_root t)))"

text \<open>The number of parallel branches at each change.\<close>

fun branchLevels :: "Tree \<Rightarrow> int \<Rightarrow> string list \<Rightarrow> (string \<times> int) list" where
  "branchLevels t bc [] = []"
| "branchLevels t bc (i # is) =
     (let pl = int (length (ch_PreviousIds (chOf t i)));
          bl = (if pl > 1 then bc - (pl - 1) else bc);
          nl = int (length (nextOf t i))
      in (i, bl) # branchLevels t (if nl > 1 then bl + (nl - 1) else bl) is)"

definition IterateBranching :: "Tree \<Rightarrow> string \<Rightarrow> (string \<times> int) list option" where
  "IterateBranching t startId =
     map_option (branchLevels t 0) (iterateOrder t (if isAttached t startId then Some startId else None))"

definition TreeString :: "Tree \<Rightarrow> string option" where
  "TreeString t = map_option (\<lambda>is. concat (map (\<lambda>i. i @ (if length (nextOf t i) > 1 then ''-<''
     else if length (nextOf t i) > 0 then ''->'' else ''-|'')) is)) (IterateSkip t (RootId t))"

section \<open>Removing changes\<close>

text \<open>Taking a change out of the \<open>Next\<close> of a change before it.\<close>

definition removeFromPrev :: "string \<Rightarrow> string \<Rightarrow> Tree \<Rightarrow> Tree" where
  "removeFromPrev cur prev t =
     (if isAttached t prev then updCh prev (\<lambda>p. p\<lparr>ch_Next := remove1 cur (ch_Next p)\<rparr>) t else t)"

partial_function (option) removeLoop_tree :: "string list \<Rightarrow> Tree \<Rightarrow> (tree_error, Tree) run" where
  "removeLoop_tree stack t =
     (case stack of
        [] \<Rightarrow> pret t
      | cur # rest \<Rightarrow>
          if mget (t_invalidChanges t) cur \<noteq> None then removeLoop_tree rest t
          else (let t = t\<lparr>t_invalidChanges := mput cur () (t_invalidChanges t)\<rparr>
            in if isUnAttached t cur
               then removeLoop_tree (rev (nextOf t cur) @ rest) (t\<lparr>t_unAttached := mdel cur (t_unAttached t)\<rparr>)
               else if isAttached t cur
               then (let next = nextOf t cur;
                         t = fold (removeFromPrev cur) (ch_PreviousIds (chOf t cur)) t
                     in removeLoop_tree (rev next @ rest) (t\<lparr>t_attached := mdel cur (t_attached t)\<rparr>))
               else pthrow TreePanicNilDereference))"

definition RemoveInvalidChange :: "lexid \<Rightarrow> string \<Rightarrow> Tree \<Rightarrow> (tree_error, Tree) run" where
  "RemoveInvalidChange L i t = pbind (removeLoop_tree [i] t) (updateHeads L)"

definition keepVisitedNext :: "string list \<Rightarrow> string \<Rightarrow> Tree \<Rightarrow> Tree" where
  "keepVisitedNext visited i = updCh i (\<lambda>c. c\<lparr>ch_Next := filter (\<lambda>n. n \<in> set visited) (ch_Next c)\<rparr>)"

definition LeaveOnlyBefore :: "lexid \<Rightarrow> string list \<Rightarrow> Tree \<Rightarrow> (tree_error, Tree) run" where
  "LeaveOnlyBefore L proposedHeads t =
     (case dfsPrev t (filter (isAttached t) proposedHeads) [] of
        None \<Rightarrow> None
      | Some visited \<Rightarrow>
          updateHeads L (fold (keepVisitedNext visited) visited
            (t\<lparr>t_attached := filter (\<lambda>e. fst e \<in> set visited) (t_attached t)\<rparr>)))"

section \<open>Reducing the tree\<close>

definition clearPossibleRoots :: "Tree \<Rightarrow> Tree" where
  "clearPossibleRoots t = t\<lparr>t_possibleRoots := []\<rparr>"

definition makeRootAndRemove :: "string \<Rightarrow> Tree \<Rightarrow> (tree_error, Tree) run" where
  "makeRootAndRemove start t =
     (if t_root t = Some start then pret t
      else if \<not> list_all (isAttached t) (ch_PreviousIds (chOf t start)) then pthrow TreePanicNilDereference
      else (case dfsPrev t (ch_PreviousIds (chOf t start)) [] of
          None \<Rightarrow> None
        | Some changes \<Rightarrow>
            pret (t\<lparr>t_attached := fold mdel changes (t_attached t), t_unAttached := [], t_root := Some start\<rparr>)))"

text \<open>The snapshots from the first head up to the root; the change looked up last is dereferenced for the log.\<close>

partial_function (option) snapshotPath :: "Tree \<Rightarrow> string \<Rightarrow> string list \<Rightarrow> (tree_error, string list) run" where
  "snapshotPath t cur path =
     (if t_root t = Some cur then pret (path @ [cur])
      else if isAttached t (ch_SnapshotId (chOf t cur))
      then snapshotPath t (ch_SnapshotId (chOf t cur)) (path @ [cur])
      else pthrow TreePanicNilDereference)"

text \<open>The first snapshot of another head that lies on the path.\<close>

partial_function (option) meetPath :: "Tree \<Rightarrow> string list \<Rightarrow> string \<Rightarrow> (tree_error, nat) run" where
  "meetPath t path cur =
     (if cur \<in> set path then pret (length (takeWhile (\<lambda>c. c \<noteq> cur) path))
      else if isAttached t (ch_SnapshotId (chOf t cur))
      then meetPath t path (ch_SnapshotId (chOf t cur))
      else pthrow TreePanicNilDereference)"

text \<open>\<open>None\<close> as the index: the snapshot of a head is not in the tree, and \<open>reduceTree\<close> gives up.\<close>

fun maxMeet :: "Tree \<Rightarrow> string list \<Rightarrow> nat \<Rightarrow> string list \<Rightarrow> (tree_error, nat option) run" where
  "maxMeet t path maxIdx [] = pret (Some maxIdx)"
| "maxMeet t path maxIdx (h # hs) =
     (if \<not> isAttached t h then pthrow TreePanicNilDereference
      else if \<not> isAttached t (ch_SnapshotId (chOf t h)) then pret None
      else pbind (meetPath t path (ch_SnapshotId (chOf t h))) (\<lambda>idx.
        maxMeet t path (max maxIdx idx) hs))"

text \<open>
  The result has the flag, the changes whose mark \<open>visited\<close> the call leaves set, and the tree. The
  marks stay set when the snapshot of a head other than the first is not found.
\<close>

definition reduceTree :: "Tree \<Rightarrow> (tree_error, (bool \<times> string list) \<times> Tree) run" where
  "reduceTree t =
     (if t_possibleRoots t = [] then pret ((False, []), t)
      else (case t_headIds t of
        [] \<Rightarrow> pthrow TreePanicIndexOutOfRange
      | firstHead # heads \<Rightarrow>
          if \<not> isAttached t firstHead then pthrow TreePanicNilDereference
          else if ch_IsSnapshot (chOf t firstHead) \<and> heads = []
          then pbind (makeRootAndRemove firstHead (clearPossibleRoots t)) (\<lambda>t. pret ((True, []), t))
          else if \<not> isAttached t (ch_SnapshotId (chOf t firstHead)) then pret ((False, []), t)
          else if heads = []
          then pbind (makeRootAndRemove (ch_SnapshotId (chOf t firstHead)) (clearPossibleRoots t)) (\<lambda>t. pret ((True, []), t))
          else pbind (snapshotPath t (ch_SnapshotId (chOf t firstHead)) []) (\<lambda>path.
            pbind (maxMeet t path 0 heads) (\<lambda>maxIdx.
              case maxIdx of
                None \<Rightarrow> pret ((False, path), t)
              | Some idx \<Rightarrow> pbind (makeRootAndRemove (path ! idx) (clearPossibleRoots t)) (\<lambda>t. pret ((True, []), t))))))"

declare removeLoop_tree.simps [code] snapshotPath.simps [code] meetPath.simps [code]

end
