(* ===== verification/TreeOrder.thy ===== *)
theory TreeOrder
  imports ObjTree
begin

text \<open>
  The order of iteration: \<open>topSort\<close> returns on a graph without cycles and lists the changes that can be
  reached, each after all its successors; the order of the old changes does not change when a change
  that nothing follows is added.
\<close>

section \<open>The loop as steps\<close>

type_synonym tsConf = "string list \<times> string list \<times> string list \<times> string list"

inductive tsStep :: "(string \<Rightarrow> string list) \<Rightarrow> tsConf \<Rightarrow> tsConf \<Rightarrow> bool" for nx where
  finish: "ch \<in> set fin \<Longrightarrow> tsStep nx (ch # rest, vis, fin, res) (rest, vis, removeAll ch fin, res @ [ch])"
| skip: "ch \<notin> set fin \<Longrightarrow> ch \<in> set vis \<Longrightarrow> tsStep nx (ch # rest, vis, fin, res) (rest, vis, fin, res)"
| visit: "ch \<notin> set fin \<Longrightarrow> ch \<notin> set vis \<Longrightarrow> tsStep nx (ch # rest, vis, fin, res)
    (rev (filter (\<lambda>n. n \<notin> set (ch # vis)) (nx ch)) @ ch # rest, ch # vis, ch # fin, res)"

inductive_cases tsStepE: "tsStep nx (st, vis, fin, res) c'"

abbreviation tsLoop :: "(string \<Rightarrow> string list) \<Rightarrow> tsConf \<Rightarrow> string list option" where
  "tsLoop nx c \<equiv> topSortLoop nx (fst c) (fst (snd c)) (fst (snd (snd c))) (snd (snd (snd c)))"

lemma tsStep_loop: "tsStep nx c c' \<Longrightarrow> tsLoop nx c = tsLoop nx c'"
  by (induction rule: tsStep.induct) (subst topSortLoop.simps, simp)+

lemma tsStep_progress:
  assumes "st \<noteq> []"
  shows "\<exists>c'. tsStep nx (st, vis, fin, res) c'"
proof -
  obtain ch rest where "st = ch # rest"
    using assms by (cases st) auto
  then show ?thesis
    by (metis tsStep.intros)
qed

definition inV :: "string set \<Rightarrow> tsConf \<Rightarrow> bool" where
  "inV V c \<longleftrightarrow> set (fst c) \<subseteq> V"

definition closedIn :: "(string \<Rightarrow> string list) \<Rightarrow> string set \<Rightarrow> bool" where
  "closedIn nx V \<longleftrightarrow> finite V \<and> (\<forall>v \<in> V. set (nx v) \<subseteq> V)"

lemma tsStep_inV: "tsStep nx c c' \<Longrightarrow> closedIn nx V \<Longrightarrow> inV V c \<Longrightarrow> inV V c'"
  by (induction rule: tsStep.induct) (auto simp: inV_def closedIn_def)

lemma tsStep_decreases:
  assumes "tsStep nx c c'" and "closedIn nx V" and "inV V c"
  shows "((card (V - set (fst (snd c'))), length (fst c')), (card (V - set (fst (snd c))), length (fst c)))
    \<in> less_than <*lex*> less_than"
  using assms
proof (induction rule: tsStep.induct)
  case (visit ch fin vis rest res)
  then have "V - set (ch # vis) \<subset> V - set vis"
    by (auto simp: inV_def)
  with visit.prems show ?case
    by (simp add: closedIn_def psubset_card_mono)
qed auto

text \<open>On a finite graph the loop returns, and its run is a sequence of steps.\<close>

lemma tsRun:
  assumes "closedIn nx V"
  shows "inV V c \<Longrightarrow> \<exists>vis fin res. (tsStep nx)\<^sup>*\<^sup>* c ([], vis, fin, res) \<and> tsLoop nx c = Some res"
proof (induction "(card (V - set (fst (snd c))), length (fst c))" arbitrary: c rule: wf_induct_rule[OF wf_lex_prod[OF wf_less_than wf_less_than]])
  case 1
  obtain st vis fin res where c: "c = (st, vis, fin, res)"
    by (cases c) auto
  show ?case
  proof (cases "st = []")
    case True
    have "topSortLoop nx [] vis fin res = Some res"
      by (subst topSortLoop.simps) simp
    with True show ?thesis
      by (intro exI[of _ vis] exI[of _ fin] exI[of _ res]) (simp add: c)
  next
    case False
    then obtain c' where s: "tsStep nx c c'"
      using tsStep_progress c by blast
    from "1.hyps"[OF tsStep_decreases[OF s assms "1.prems"] tsStep_inV[OF s assms "1.prems"]]
    show ?thesis
      using s tsStep_loop[OF s] by (metis converse_rtranclp_into_rtranclp)
  qed
qed

lemma tsRun_unique:
  assumes "(tsStep nx)\<^sup>*\<^sup>* c ([], vis, fin, res)"
  shows "tsLoop nx c = Some res"
proof -
  have "tsLoop nx c = tsLoop nx ([], vis, fin, res)"
    using assms by (induction rule: converse_rtranclp_induct) (auto dest: tsStep_loop)
  also have "\<dots> = Some res"
    by (subst topSortLoop.simps) simp
  finally show ?thesis .
qed

lemma rtranclp_invariant:
  assumes "r\<^sup>*\<^sup>* c c'" and "P c" and "\<And>a b. r a b \<Longrightarrow> P a \<Longrightarrow> P b"
  shows "P c'"
  using assms(1,2) by (induction rule: rtranclp_induct) (auto intro: assms(3))

section \<open>The result is a topological order\<close>

definition ranked :: "(string \<Rightarrow> string list) \<Rightarrow> (string \<Rightarrow> nat) \<Rightarrow> string set \<Rightarrow> bool" where
  "ranked nx \<rho> V \<longleftrightarrow> (\<forall>v \<in> V. \<forall>w \<in> set (nx v). \<rho> v < \<rho> w)"

text \<open>Every element comes after its successors.\<close>

definition topo :: "(string \<Rightarrow> string list) \<Rightarrow> string list \<Rightarrow> bool" where
  "topo nx xs \<longleftrightarrow> (\<forall>j < length xs. set (nx (xs ! j)) \<subseteq> set (take j xs))"

lemma topo_Nil [simp]: "topo nx []"
  by (simp add: topo_def)

lemma topo_snoc: "topo nx (xs @ [x]) \<longleftrightarrow> topo nx xs \<and> set (nx x) \<subseteq> set xs"
  unfolding topo_def by (fastforce simp: nth_append less_Suc_eq)

definition tsInv :: "(string \<Rightarrow> string list) \<Rightarrow> (string \<Rightarrow> nat) \<Rightarrow> string set \<Rightarrow> string \<Rightarrow> tsConf \<Rightarrow> bool" where
  "tsInv nx \<rho> V start c \<longleftrightarrow> (case c of (st, vis, fin, res) \<Rightarrow>
     set st \<subseteq> V \<and> set vis = set fin \<union> set res \<and> set fin \<inter> set res = {} \<and> distinct res \<and> topo nx res
     \<and> (\<forall>g \<in> set fin. g \<in> set st
          \<and> (\<forall>v \<in> set (nx g). v \<in> set res \<or> v \<in> set (takeWhile (\<lambda>x. x \<noteq> g) st))
          \<and> (\<forall>v \<in> set (takeWhile (\<lambda>x. x \<noteq> g) st). \<rho> g < \<rho> v))
     \<and> (if st = [] then res \<noteq> [] \<and> last res = start
        else last st = start \<and> start \<notin> set (butlast st) \<and> start \<notin> set res \<and> (start \<in> set fin \<or> st = [start])))"

lemma takeWhile_append_notin: "g \<notin> set xs \<Longrightarrow> takeWhile (\<lambda>x. x \<noteq> g) (xs @ ys) = xs @ takeWhile (\<lambda>x. x \<noteq> g) ys"
  by (induction xs) auto

lemma tsInv_finish:
  assumes "tsInv nx \<rho> V start (ch # rest, vis, fin, res)" and fin: "ch \<in> set fin"
  shows "tsInv nx \<rho> V start (rest, vis, removeAll ch fin, res @ [ch])"
proof -
  note I = assms(1)[unfolded tsInv_def prod.case]
  have succ: "set (nx ch) \<subseteq> set res"
    using I fin by auto
  have gray: "g \<in> set rest \<and> (\<forall>v \<in> set (nx g). v \<in> set (res @ [ch]) \<or> v \<in> set (takeWhile (\<lambda>x. x \<noteq> g) rest))
      \<and> (\<forall>v \<in> set (takeWhile (\<lambda>x. x \<noteq> g) rest). \<rho> g < \<rho> v)" if "g \<in> set fin" "g \<noteq> ch" for g
    using I that by auto
  have last: "if rest = [] then ch = start
      else last rest = start \<and> start \<notin> set (butlast rest) \<and> start \<noteq> ch \<and> start \<in> set fin"
    using I fin by (auto split: if_split_asm)
  have "ch \<notin> set res"
    using I fin by blast
  with I succ gray last fin show ?thesis
    unfolding tsInv_def prod.case by (auto simp: topo_snoc split: if_split_asm)
qed

lemma tsInv_skip:
  assumes "tsInv nx \<rho> V start (ch # rest, vis, fin, res)" and "ch \<notin> set fin" and "ch \<in> set vis"
  shows "tsInv nx \<rho> V start (rest, vis, fin, res)"
proof -
  note I = assms(1)[unfolded tsInv_def prod.case]
  have ch: "ch \<in> set res"
    using I assms(2,3) by blast
  have "g \<in> set rest \<and> (\<forall>v \<in> set (nx g). v \<in> set res \<or> v \<in> set (takeWhile (\<lambda>x. x \<noteq> g) rest))
      \<and> (\<forall>v \<in> set (takeWhile (\<lambda>x. x \<noteq> g) rest). \<rho> g < \<rho> v)" if "g \<in> set fin" for g
    using I that ch assms(2) by auto
  moreover have "rest \<noteq> [] \<and> last rest = start \<and> start \<notin> set (butlast rest) \<and> start \<in> set fin"
    using I ch by (auto split: if_split_asm)
  ultimately show ?thesis
    unfolding tsInv_def prod.case using I by auto
qed

lemma tsInv_visit:
  assumes "tsInv nx \<rho> V start (ch # rest, vis, fin, res)" and nv: "ch \<notin> set fin" "ch \<notin> set vis"
    and cl: "closedIn nx V" and rk: "ranked nx \<rho> V"
  shows "tsInv nx \<rho> V start (rev (filter (\<lambda>n. n \<notin> set (ch # vis)) (nx ch)) @ ch # rest, ch # vis, ch # fin, res)"
proof -
  note I = assms(1)[unfolded tsInv_def prod.case]
  let ?new = "rev (filter (\<lambda>n. n \<notin> set (ch # vis)) (nx ch))"
  have chV: "ch \<in> V"
    using I by simp
  have new: "set ?new = {n \<in> set (nx ch). n \<noteq> ch \<and> n \<notin> set vis}"
    by auto
  have above: "\<rho> g < \<rho> ch" if "g \<in> set fin" for g
    using I that nv(1) by auto
  have nexts: "n \<in> set res \<or> n \<in> set ?new" if n: "n \<in> set (nx ch)" for n
  proof (cases "n \<in> set vis")
    case True
    have "n \<notin> set fin"
      using above[of n] rk chV n unfolding ranked_def by fastforce
    with True I show ?thesis
      by blast
  next
    case False
    have "n \<noteq> ch"
      using rk chV n unfolding ranked_def by fastforce
    with False n show ?thesis
      by (simp add: new)
  qed
  have rkn: "\<rho> ch < \<rho> n" if "n \<in> set ?new" for n
    using that rk chV unfolding new ranked_def by blast
  have own: "takeWhile (\<lambda>x. x \<noteq> ch) (?new @ ch # rest) = ?new"
    using takeWhile_append_notin[of ch ?new "ch # rest"] by (simp add: new)
  have others: "g \<in> set rest \<and> (\<forall>v \<in> set (nx g). v \<in> set res \<or> v \<in> set (takeWhile (\<lambda>x. x \<noteq> g) (?new @ ch # rest)))
      \<and> (\<forall>v \<in> set (takeWhile (\<lambda>x. x \<noteq> g) (?new @ ch # rest)). \<rho> g < \<rho> v)" if g: "g \<in> set fin" for g
  proof -
    have "g \<notin> set ?new" "g \<noteq> ch"
      using I g nv(1) unfolding new by auto
    then have tw: "takeWhile (\<lambda>x. x \<noteq> g) (?new @ ch # rest) = ?new @ ch # takeWhile (\<lambda>x. x \<noteq> g) rest"
      using takeWhile_append_notin[of g ?new "ch # rest"] by simp
    have "\<rho> g < \<rho> n" if "n \<in> set ?new" for n
      using above[OF g] rkn[OF that] by simp
    with I g \<open>g \<noteq> ch\<close> show ?thesis
      unfolding tw by auto
  qed
  have newV: "set ?new \<subseteq> V"
    using cl chV unfolding new closedIn_def by blast
  have bottom: "last (?new @ ch # rest) = start \<and> start \<notin> set (butlast (?new @ ch # rest)) \<and> start \<in> set (ch # fin)"
  proof -
    have s: "last (ch # rest) = start" "start \<notin> set (butlast (ch # rest))" "start \<in> set fin \<or> ch # rest = [start]"
      using I by auto
    have "start \<notin> set ?new"
      using s(3) I unfolding new by auto
    with s show ?thesis
      by (auto simp: butlast_append)
  qed
  have gray: "g \<in> set (?new @ ch # rest)
      \<and> (\<forall>v \<in> set (nx g). v \<in> set res \<or> v \<in> set (takeWhile (\<lambda>x. x \<noteq> g) (?new @ ch # rest)))
      \<and> (\<forall>v \<in> set (takeWhile (\<lambda>x. x \<noteq> g) (?new @ ch # rest)). \<rho> g < \<rho> v)" if "g \<in> set (ch # fin)" for g
  proof (cases "g = ch")
    case True
    show ?thesis
      unfolding True own using nexts rkn by simp
  next
    case False
    with others[of g] that show ?thesis
      by simp
  qed
  have vis: "set (ch # vis) = set (ch # fin) \<union> set res" "set (ch # fin) \<inter> set res = {}" "distinct res" "topo nx res"
    using I nv by auto
  have st: "start \<notin> set res" "set (?new @ ch # rest) \<subseteq> V" "?new @ ch # rest \<noteq> []"
    using I newV by auto
  show ?thesis
    unfolding tsInv_def prod.case
  proof (intro conjI)
    show "if ?new @ ch # rest = [] then res \<noteq> [] \<and> last res = start
        else last (?new @ ch # rest) = start \<and> start \<notin> set (butlast (?new @ ch # rest)) \<and> start \<notin> set res
          \<and> (start \<in> set (ch # fin) \<or> ?new @ ch # rest = [start])"
      unfolding if_not_P[OF st(3)] using bottom st(1) by blast
    show "\<forall>g \<in> set (ch # fin). g \<in> set (?new @ ch # rest)
        \<and> (\<forall>v \<in> set (nx g). v \<in> set res \<or> v \<in> set (takeWhile (\<lambda>x. x \<noteq> g) (?new @ ch # rest)))
        \<and> (\<forall>v \<in> set (takeWhile (\<lambda>x. x \<noteq> g) (?new @ ch # rest)). \<rho> g < \<rho> v)"
      by (intro ballI gray)
  qed (fact st(2) vis)+
qed

lemma tsInv_step:
  assumes "closedIn nx V" and "ranked nx \<rho> V"
  shows "tsStep nx c c' \<Longrightarrow> tsInv nx \<rho> V start c \<Longrightarrow> tsInv nx \<rho> V start c'"
proof (induction rule: tsStep.induct)
  case finish
  then show ?case
    by (rule tsInv_finish[rotated])
next
  case skip
  from tsInv_skip[OF skip.prems skip.hyps] show ?case .
next
  case visit
  from tsInv_visit[OF visit.prems visit.hyps assms] show ?case .
qed

text \<open>Only what can be reached is on the stack.\<close>

definition reach :: "(string \<Rightarrow> string list) \<Rightarrow> string \<Rightarrow> string set" where
  "reach nx s = {v. (s, v) \<in> {(a, b). b \<in> set (nx a)}\<^sup>*}"

lemma reach_step: "a \<in> reach nx s \<Longrightarrow> b \<in> set (nx a) \<Longrightarrow> b \<in> reach nx s"
  unfolding reach_def by (auto intro: rtrancl_into_rtrancl)

lemma reach_refl [simp]: "s \<in> reach nx s"
  by (simp add: reach_def)

lemma reach_least:
  assumes "s \<in> X" and "\<And>a. a \<in> X \<Longrightarrow> set (nx a) \<subseteq> X"
  shows "reach nx s \<subseteq> X"
proof
  fix v
  assume "v \<in> reach nx s"
  then have "(s, v) \<in> {(a, b). b \<in> set (nx a)}\<^sup>*"
    by (simp add: reach_def)
  then show "v \<in> X"
    by (induction rule: rtrancl_induct) (use assms in auto)
qed

definition tsReached :: "(string \<Rightarrow> string list) \<Rightarrow> string \<Rightarrow> tsConf \<Rightarrow> bool" where
  "tsReached nx s c \<longleftrightarrow> (case c of (st, vis, fin, res) \<Rightarrow> set st \<union> set res \<subseteq> reach nx s)"

lemma tsReach_step: "tsStep nx c c' \<Longrightarrow> tsReached nx s c \<Longrightarrow> tsReached nx s c'"
  by (induction rule: tsStep.induct) (auto simp: tsReached_def intro: reach_step)

lemma topo_closed: "topo nx res \<Longrightarrow> a \<in> set res \<Longrightarrow> set (nx a) \<subseteq> set res"
  unfolding topo_def by (metis in_set_conv_nth set_take_subset subset_trans)

lemma topSortLoop_topo:
  assumes "closedIn nx V" and "ranked nx \<rho> V" and "s \<in> V"
  shows "\<exists>res. topSortLoop nx [s] [] [] [] = Some res \<and> distinct res \<and> topo nx res \<and> set res = reach nx s
    \<and> res \<noteq> [] \<and> last res = s"
proof -
  obtain vis fin res where run: "(tsStep nx)\<^sup>*\<^sup>* ([s], [], [], []) ([], vis, fin, res)"
    and loop: "topSortLoop nx [s] [] [] [] = Some res"
    using tsRun[OF assms(1), of "([s], [], [], [])"] assms(3) by (auto simp: inV_def)
  have start: "tsInv nx \<rho> V s ([s], [], [], [])"
    using assms(3) by (simp add: tsInv_def)
  have "tsInv nx \<rho> V s ([], vis, fin, res)"
    by (rule rtranclp_invariant[where P = "tsInv nx \<rho> V s", OF run start]) (rule tsInv_step[OF assms(1,2)])
  then have res: "distinct res" "topo nx res" "res \<noteq> []" "last res = s"
    by (auto simp: tsInv_def)
  have "tsReached nx s ([], vis, fin, res)"
    by (rule rtranclp_invariant[where P = "tsReached nx s", OF run]) (simp add: tsReached_def, rule tsReach_step)
  then have "set res \<subseteq> reach nx s"
    by (simp add: tsReached_def)
  moreover have "reach nx s \<subseteq> set res"
    by (rule reach_least) (use res topo_closed[OF res(2)] in auto)
  ultimately show ?thesis
    using loop res by auto
qed

section \<open>Adding a change that nothing follows\<close>

text \<open>A configuration of the larger graph and the one of the smaller graph it stands for.\<close>

definition withoutLeaf :: "string \<Rightarrow> tsConf \<Rightarrow> tsConf \<Rightarrow> bool" where
  "withoutLeaf d c' c \<longleftrightarrow> (case c' of (st', vis', fin', res') \<Rightarrow> case c of (st, vis, fin, res) \<Rightarrow>
     st = filter (\<lambda>x. x \<noteq> d) st' \<and> set vis = set vis' - {d} \<and> set fin = set fin' - {d}
     \<and> res = filter (\<lambda>x. x \<noteq> d) res')"

lemma leaf_step:
  assumes leaf: "nx' d = []" and same: "\<And>v. v \<in> V \<Longrightarrow> filter (\<lambda>x. x \<noteq> d) (nx' v) = nx v"
  shows "tsStep nx' c1 c2 \<Longrightarrow> inV (insert d V) c1 \<Longrightarrow> withoutLeaf d c1 c \<Longrightarrow>
    \<exists>c''. (tsStep nx)\<^sup>*\<^sup>* c c'' \<and> withoutLeaf d c2 c''"
proof (induction rule: tsStep.induct)
  case (finish ch fin' rest vis' res')
  obtain st vis fin res where c: "c = (st, vis, fin, res)"
    by (cases c) auto
  show ?case
  proof (cases "ch = d")
    case True
    with finish.prems show ?thesis
      by (intro exI[of _ c]) (auto simp: withoutLeaf_def c)
  next
    case False
    with finish c have "c = (ch # filter (\<lambda>x. x \<noteq> d) rest, vis, fin, res)" "ch \<in> set fin"
      by (auto simp: withoutLeaf_def)
    then have "tsStep nx c (filter (\<lambda>x. x \<noteq> d) rest, vis, removeAll ch fin, res @ [ch])"
      by (simp add: tsStep.finish)
    moreover have "withoutLeaf d (rest, vis', removeAll ch fin', res' @ [ch])
        (filter (\<lambda>x. x \<noteq> d) rest, vis, removeAll ch fin, res @ [ch])"
      using finish.prems False by (auto simp: withoutLeaf_def c)
    ultimately show ?thesis
      by blast
  qed
next
  case (skip ch fin' vis' rest res')
  obtain st vis fin res where c: "c = (st, vis, fin, res)"
    by (cases c) auto
  show ?case
  proof (cases "ch = d")
    case True
    with skip.prems show ?thesis
      by (intro exI[of _ c]) (auto simp: withoutLeaf_def c)
  next
    case False
    with skip c have "c = (ch # filter (\<lambda>x. x \<noteq> d) rest, vis, fin, res)" "ch \<notin> set fin" "ch \<in> set vis"
      by (auto simp: withoutLeaf_def)
    then have "tsStep nx c (filter (\<lambda>x. x \<noteq> d) rest, vis, fin, res)"
      by (simp add: tsStep.skip)
    moreover have "withoutLeaf d (rest, vis', fin', res') (filter (\<lambda>x. x \<noteq> d) rest, vis, fin, res)"
      using skip.prems by (auto simp: withoutLeaf_def c)
    ultimately show ?thesis
      by blast
  qed
next
  case (visit ch fin' vis' rest res')
  obtain st vis fin res where c: "c = (st, vis, fin, res)"
    by (cases c) auto
  show ?case
  proof (cases "ch = d")
    case True
    with visit.prems leaf show ?thesis
      by (intro exI[of _ c]) (auto simp: withoutLeaf_def c)
  next
    case False
    then have "ch \<in> V"
      using visit.prems by (simp add: inV_def)
    let ?new = "rev (filter (\<lambda>n. n \<notin> set (ch # vis)) (nx ch))"
    have rel: "set vis = set vis' - {d}" "set fin = set fin' - {d}" "res = filter (\<lambda>x. x \<noteq> d) res'"
      "st = ch # filter (\<lambda>x. x \<noteq> d) rest"
      using visit.prems False by (auto simp: withoutLeaf_def c)
    then have "tsStep nx c (?new @ ch # filter (\<lambda>x. x \<noteq> d) rest, ch # vis, ch # fin, res)"
      unfolding c rel(4) using visit.hyps by (intro tsStep.visit) auto
    moreover have "filter (\<lambda>x. x \<noteq> d) (rev (filter (\<lambda>n. n \<notin> set (ch # vis')) (nx' ch))) = ?new"
      unfolding same[OF \<open>ch \<in> V\<close>, symmetric] rev_filter[symmetric] filter_filter
      using rel(1) by (auto intro: filter_cong)
    then have "withoutLeaf d (rev (filter (\<lambda>n. n \<notin> set (ch # vis')) (nx' ch)) @ ch # rest, ch # vis', ch # fin', res')
        (?new @ ch # filter (\<lambda>x. x \<noteq> d) rest, ch # vis, ch # fin, res)"
      using rel False by (auto simp: withoutLeaf_def)
    ultimately show ?thesis
      by blast
  qed
qed

lemma leaf_steps:
  assumes leaf: "nx' d = []" and same: "\<And>v. v \<in> V \<Longrightarrow> filter (\<lambda>x. x \<noteq> d) (nx' v) = nx v"
    and cl: "closedIn nx' (insert d V)"
  shows "(tsStep nx')\<^sup>*\<^sup>* c1 c2 \<Longrightarrow> inV (insert d V) c1 \<Longrightarrow> withoutLeaf d c1 c \<Longrightarrow>
    \<exists>c''. (tsStep nx)\<^sup>*\<^sup>* c c'' \<and> withoutLeaf d c2 c''"
proof (induction arbitrary: c rule: converse_rtranclp_induct)
  case base
  then show ?case
    by blast
next
  case (step c1 c3)
  from leaf_step[OF leaf same step.hyps(1) step.prems] obtain c4 where
    c4: "(tsStep nx)\<^sup>*\<^sup>* c c4" "withoutLeaf d c3 c4"
    by blast
  from step.IH[OF tsStep_inV[OF step.hyps(1) cl step.prems(1)] c4(2)] c4(1) show ?case
    by (meson rtranclp_trans)
qed

text \<open>The new change takes its place, and the others keep their order.\<close>

lemma topSortLoop_leaf:
  assumes leaf: "nx' d = []" and same: "\<And>v. v \<in> V \<Longrightarrow> filter (\<lambda>x. x \<noteq> d) (nx' v) = nx v"
    and cl: "closedIn nx' (insert d V)" and s: "s \<in> V" "d \<notin> V"
    and res': "topSortLoop nx' [s] [] [] [] = Some res'"
  shows "topSortLoop nx [s] [] [] [] = Some (filter (\<lambda>x. x \<noteq> d) res')"
proof -
  have inV: "inV (insert d V) ([s], [], [], [])"
    using s by (simp add: inV_def)
  obtain vis fin where run: "(tsStep nx')\<^sup>*\<^sup>* ([s], [], [], []) ([], vis, fin, res')"
    using tsRun[OF cl inV] res' by auto
  have start: "withoutLeaf d ([s], [], [], []) ([s], [], [], [])"
    using s by (auto simp: withoutLeaf_def)
  from leaf_steps[OF leaf same cl run inV start] obtain vis2 fin2 where
    "(tsStep nx)\<^sup>*\<^sup>* ([s], [], [], []) ([], vis2, fin2, filter (\<lambda>x. x \<noteq> d) res')"
    by (auto simp: withoutLeaf_def)
  from tsRun_unique[OF this] show ?thesis
    by simp
qed

text \<open>Only the successors of changes that can be reached matter.\<close>

lemma topSortLoop_cong:
  assumes "closedIn nx V" and "\<And>v. v \<in> V \<Longrightarrow> nx' v = nx v" and "s \<in> V"
  shows "topSortLoop nx' [s] [] [] [] = topSortLoop nx [s] [] [] []"
proof -
  have step: "tsStep nx' c c'" if "tsStep nx c c'" "inV V c" for c c'
    using that
  proof (induction rule: tsStep.induct)
    case (visit ch fin vis rest res)
    then have "nx ch = nx' ch"
      using assms(2) by (simp add: inV_def)
    then show ?case
      using visit.hyps tsStep.visit[of ch fin vis nx'] by simp
  qed (auto intro: tsStep.intros)
  have steps: "(tsStep nx)\<^sup>*\<^sup>* c c' \<Longrightarrow> inV V c \<Longrightarrow> (tsStep nx')\<^sup>*\<^sup>* c c'" for c c'
  proof (induction rule: converse_rtranclp_induct)
    case (step c c1)
    with \<open>\<And>c c'. tsStep nx c c' \<Longrightarrow> inV V c \<Longrightarrow> tsStep nx' c c'\<close> tsStep_inV[OF step.hyps(1) assms(1) step.prems]
    show ?case
      by (meson converse_rtranclp_into_rtranclp)
  qed simp
  have inV: "inV V ([s], [], [], [])"
    using assms(3) by (simp add: inV_def)
  obtain vis fin res where "(tsStep nx)\<^sup>*\<^sup>* ([s], [], [], []) ([], vis, fin, res)"
    "topSortLoop nx [s] [] [] [] = Some res"
    using tsRun[OF assms(1) inV] by auto
  with tsRun_unique[OF steps[OF this(1) inV]] show ?thesis
    by simp
qed

section \<open>The walk along \<open>Next\<close>\<close>

text \<open>\<open>dfsLoop\<close> on a finite graph returns what can be reached from the stack or was visited before.\<close>

lemma dfsLoop_result:
  assumes cl: "closedIn nx V"
  shows "set stack \<subseteq> V \<Longrightarrow> set vis \<subseteq> V \<Longrightarrow> (\<forall>v \<in> set vis. set (nx v) \<subseteq> set vis \<union> set stack) \<Longrightarrow>
    \<exists>res. dfsLoop nx stack vis = Some res \<and> set vis \<union> set stack \<subseteq> set res
      \<and> (\<forall>v \<in> set res. set (nx v) \<subseteq> set res)
      \<and> (\<forall>X. set vis \<union> set stack \<subseteq> X \<longrightarrow> (\<forall>v \<in> X. set (nx v) \<subseteq> X) \<longrightarrow> set res \<subseteq> X)"
proof (induction "(card (V - set vis), length stack)" arbitrary: stack vis
    rule: wf_induct_rule[OF wf_lex_prod[OF wf_less_than wf_less_than]])
  case 1
  show ?case
  proof (cases stack)
    case Nil
    with "1.prems" show ?thesis
      by (subst dfsLoop.simps) auto
  next
    case (Cons ch rest)
    show ?thesis
    proof (cases "ch \<in> set vis")
      case True
      have "\<exists>res. dfsLoop nx rest vis = Some res \<and> set vis \<union> set rest \<subseteq> set res
          \<and> (\<forall>v \<in> set res. set (nx v) \<subseteq> set res)
          \<and> (\<forall>X. set vis \<union> set rest \<subseteq> X \<longrightarrow> (\<forall>v \<in> X. set (nx v) \<subseteq> X) \<longrightarrow> set res \<subseteq> X)"
        by (rule "1.hyps") (use "1.prems" Cons True in auto)
      with Cons True show ?thesis
        by (subst dfsLoop.simps) (auto simp: insert_absorb)
    next
      case False
      let ?new = "rev (filter (\<lambda>n. n \<notin> set (vis @ [ch])) (nx ch))"
      have ch: "ch \<in> V" "set (nx ch) \<subseteq> V"
        using "1.prems" Cons cl by (auto simp: closedIn_def)
      have "card (V - set (vis @ [ch])) < card (V - set vis)"
        using cl ch False by (intro psubset_card_mono) (auto simp: closedIn_def)
      then have "\<exists>res. dfsLoop nx (?new @ rest) (vis @ [ch]) = Some res
          \<and> set (vis @ [ch]) \<union> set (?new @ rest) \<subseteq> set res \<and> (\<forall>v \<in> set res. set (nx v) \<subseteq> set res)
          \<and> (\<forall>X. set (vis @ [ch]) \<union> set (?new @ rest) \<subseteq> X \<longrightarrow> (\<forall>v \<in> X. set (nx v) \<subseteq> X) \<longrightarrow> set res \<subseteq> X)"
        by (intro "1.hyps") (use "1.prems" Cons ch in auto)
      then obtain res where res: "dfsLoop nx (?new @ rest) (vis @ [ch]) = Some res"
        "set (vis @ [ch]) \<union> set (?new @ rest) \<subseteq> set res" "\<forall>v \<in> set res. set (nx v) \<subseteq> set res"
        "\<And>X. set (vis @ [ch]) \<union> set (?new @ rest) \<subseteq> X \<Longrightarrow> (\<forall>v \<in> X. set (nx v) \<subseteq> X) \<Longrightarrow> set res \<subseteq> X"
        by blast
      have "dfsLoop nx stack vis = Some res"
        using res(1) Cons False by (subst dfsLoop.simps) simp
      moreover have "set res \<subseteq> X" if "set vis \<union> set stack \<subseteq> X" "\<forall>v \<in> X. set (nx v) \<subseteq> X" for X
        using that Cons by (intro res(4)) auto
      ultimately show ?thesis
        using res(2,3) Cons by (intro exI[of _ res]) auto
    qed
  qed
qed

lemma dfsLoop_reach:
  assumes "closedIn nx V" and "s \<in> V"
  shows "\<exists>res. dfsLoop nx [s] [] = Some res \<and> set res = reach nx s"
proof -
  obtain res where res: "dfsLoop nx [s] [] = Some res" "s \<in> set res" "\<forall>v \<in> set res. set (nx v) \<subseteq> set res"
    "\<And>X. s \<in> X \<Longrightarrow> (\<forall>v \<in> X. set (nx v) \<subseteq> X) \<Longrightarrow> set res \<subseteq> X"
    using dfsLoop_result[OF assms(1), of "[s]" "[]"] assms(2) by auto
  have "reach nx s \<subseteq> set res"
    by (rule reach_least) (use res in auto)
  moreover have "set res \<subseteq> reach nx s"
    by (rule res(4)) (auto intro: reach_step)
  ultimately show ?thesis
    using res(1) by auto
qed

end
