(* ===== verification/TreeAttach.thy ===== *)
theory TreeAttach
  imports TreeOrder
begin

text \<open>
  Attaching changes: the invariant of the graph of attached changes, that each attached change extends
  it by a leaf, and that the wait lists attach exactly the changes whose previous changes are there.
\<close>

section \<open>The graph\<close>

definition atts :: "Tree \<Rightarrow> string set" where
  "atts t = {i. isAttached t i}"

abbreviation prevs :: "Tree \<Rightarrow> string \<Rightarrow> string list" where
  "prevs t i \<equiv> ch_PreviousIds (chOf t i)"

definition kids :: "Tree \<Rightarrow> string \<Rightarrow> string \<Rightarrow> string set" where
  "kids t r i = {c \<in> atts t - {r}. i \<in> set (prevs t c)}"

text \<open>
  The invariant: apart from the root, an attached change has previous changes and they are attached;
  \<open>Next\<close> lists the attached changes that name the change, in the order of their ids; there is no cycle.
\<close>

definition graph_ok :: "Tree \<Rightarrow> string \<Rightarrow> bool" where
  "graph_ok t r \<longleftrightarrow> t_root t = Some r \<and> r \<in> atts t
     \<and> (\<forall>c \<in> atts t. ch_Id (chOf t c) = c \<and> nextOf t c = sorted_list_of_set (kids t r c))
     \<and> (\<forall>c \<in> atts t - {r}. prevs t c \<noteq> [] \<and> distinct (prevs t c) \<and> set (prevs t c) \<subseteq> atts t)
     \<and> (\<exists>\<rho> :: string \<Rightarrow> nat. \<forall>c \<in> atts t - {r}. \<forall>p \<in> set (prevs t c). \<rho> p < \<rho> c)"

lemma finite_atts [simp]: "finite (atts t)"
proof -
  have "atts t = fst ` set (t_attached t)"
    by (auto simp: atts_def isAttached_def map_of_eq_None_iff)
  then show ?thesis
    by simp
qed

lemma finite_kids [simp]: "finite (kids t r i)"
  by (rule finite_subset[of _ "atts t"]) (auto simp: kids_def)

lemma graph_okD:
  assumes "graph_ok t r"
  shows "t_root t = Some r" and "r \<in> atts t" and "c \<in> atts t \<Longrightarrow> nextOf t c = sorted_list_of_set (kids t r c)"
    and "c \<in> atts t \<Longrightarrow> ch_Id (chOf t c) = c"
    and "c \<in> atts t \<Longrightarrow> c \<noteq> r \<Longrightarrow> prevs t c \<noteq> [] \<and> distinct (prevs t c) \<and> set (prevs t c) \<subseteq> atts t"
  using assms by (auto simp: graph_ok_def)

lemma graph_closed:
  assumes "graph_ok t r"
  shows "closedIn (nextOf t) (atts t)"
  unfolding closedIn_def using graph_okD(3)[OF assms] by (auto simp: kids_def)

lemma graph_ranked:
  assumes "graph_ok t r"
  shows "\<exists>\<rho>. ranked (nextOf t) \<rho> (atts t) \<and> (\<forall>c \<in> atts t - {r}. \<forall>p \<in> set (prevs t c). \<rho> p < \<rho> c)"
proof -
  from assms obtain \<rho> :: "string \<Rightarrow> nat" where \<rho>: "\<forall>c \<in> atts t - {r}. \<forall>p \<in> set (prevs t c). \<rho> p < \<rho> c"
    by (auto simp: graph_ok_def)
  then have "ranked (nextOf t) \<rho> (atts t)"
    unfolding ranked_def using graph_okD(3)[OF assms] by (auto simp: kids_def)
  with \<rho> show ?thesis
    by blast
qed

text \<open>Every attached change can be reached from the root.\<close>

lemma graph_reach:
  assumes g: "graph_ok t r"
  shows "reach (nextOf t) r = atts t"
proof
  show "reach (nextOf t) r \<subseteq> atts t"
    by (rule reach_least) (use graph_okD(2)[OF g] graph_closed[OF g] in \<open>auto simp: closedIn_def\<close>)
  obtain \<rho> where "ranked (nextOf t) \<rho> (atts t)"
    and \<rho>: "\<forall>c \<in> atts t - {r}. \<forall>p \<in> set (prevs t c). \<rho> p < \<rho> c"
    using graph_ranked[OF g] by blast
  have "c \<in> reach (nextOf t) r" if "c \<in> atts t" for c
    using that
  proof (induction "\<rho> c" arbitrary: c rule: less_induct)
    case less
    show ?case
    proof (cases "c = r")
      case False
      note c = graph_okD(5)[OF g less.prems False]
      then obtain p where p: "p \<in> set (prevs t c)"
        by (cases "prevs t c") auto
      with c less.hyps \<rho> less.prems False have "p \<in> reach (nextOf t) r" "p \<in> atts t"
        by auto
      moreover have "c \<in> set (nextOf t p)"
        using graph_okD(3)[OF g \<open>p \<in> atts t\<close>] less.prems False p by (simp add: kids_def)
      ultimately show ?thesis
        by (auto intro: reach_step)
    qed simp
  qed
  then show "atts t \<subseteq> reach (nextOf t) r"
    by blast
qed

text \<open>The order of iteration.\<close>

definition ord :: "Tree \<Rightarrow> string list" where
  "ord t = (case iterateOrder t (t_root t) of Some xs \<Rightarrow> xs | None \<Rightarrow> [])"

lemma graph_sorts:
  assumes g: "graph_ok t r"
  shows "topSort t r = Some (rev (ord t))" and "iterateOrder t (t_root t) = Some (ord t)"
    and "distinct (ord t)" and "set (ord t) = atts t" and "ord t \<noteq> []" and "hd (ord t) = r"
    and "topo (nextOf t) (rev (ord t))"
proof -
  obtain \<rho> where \<rho>: "ranked (nextOf t) \<rho> (atts t)"
    using graph_ranked[OF g] by blast
  obtain res where res: "topSort t r = Some res" "distinct res" "topo (nextOf t) res"
    "set res = atts t" "res \<noteq> []" "last res = r"
    using topSortLoop_topo[OF graph_closed[OF g] \<rho> graph_okD(2)[OF g]] graph_reach[OF g]
    by (auto simp: topSort_def)
  have it: "iterateOrder t (t_root t) = Some (rev res)"
    using res(1) graph_okD(1)[OF g] by (simp add: iterateOrder_def makeIterBuffer_def)
  then have ord: "ord t = rev res"
    by (simp add: ord_def)
  show "topSort t r = Some (rev (ord t))" "iterateOrder t (t_root t) = Some (ord t)"
    "distinct (ord t)" "set (ord t) = atts t" "ord t \<noteq> []" "hd (ord t) = r"
    "topo (nextOf t) (rev (ord t))"
    using res it by (simp_all add: ord hd_rev)
qed

section \<open>Attaching one change\<close>

lemma chOf_updCh: "chOf (updCh i f t) j = (if j = i then f (chOf t i) else chOf t j)"
  by (simp add: chOf_def updCh_def)

lemma updCh_sel [simp]:
  "t_root (updCh i f t) = t_root t" "t_attached (updCh i f t) = t_attached t"
  "t_waitList (updCh i f t) = t_waitList t" "t_addedBuf (updCh i f t) = t_addedBuf t"
  "t_headIds (updCh i f t) = t_headIds t" "t_lastIteratedHeadId (updCh i f t) = t_lastIteratedHeadId t"
  "t_possibleRoots (updCh i f t) = t_possibleRoots t" "t_invalidChanges (updCh i f t) = t_invalidChanges t"
  by (simp_all add: updCh_def)

lemma addToPrev_sel [simp]:
  "t_root (addToPrev i p t) = t_root t" "t_attached (addToPrev i p t) = t_attached t"
  "t_waitList (addToPrev i p t) = t_waitList t" "t_addedBuf (addToPrev i p t) = t_addedBuf t"
  "t_headIds (addToPrev i p t) = t_headIds t" "t_lastIteratedHeadId (addToPrev i p t) = t_lastIteratedHeadId t"
  by (simp_all add: addToPrev_def)

lemma fold_addToPrev:
  assumes "i \<notin> set ps" and "distinct ps"
  shows "chOf (fold (addToPrev i) ps t) j =
    (if j = i then (chOf t i)\<lparr>ch_Previous := ch_Previous (chOf t i) @ ps\<rparr>
     else if j \<in> set ps then (chOf t j)\<lparr>ch_Next := insertNext i (ch_Next (chOf t j))\<rparr>
     else chOf t j)"
    and "t_root (fold (addToPrev i) ps t) = t_root t" "t_attached (fold (addToPrev i) ps t) = t_attached t"
    "t_waitList (fold (addToPrev i) ps t) = t_waitList t" "t_addedBuf (fold (addToPrev i) ps t) = t_addedBuf t"
    "t_headIds (fold (addToPrev i) ps t) = t_headIds t"
    "t_lastIteratedHeadId (fold (addToPrev i) ps t) = t_lastIteratedHeadId t"
  using assms by (induction ps arbitrary: t) (auto simp: addToPrev_def chOf_updCh)

text \<open>The change with the pointers that attaching leaves alone; the tree with it attached.\<close>

definition attaches :: "Tree \<Rightarrow> string \<Rightarrow> Tree \<Rightarrow> bool" where
  "attaches t i t' \<longleftrightarrow> t_root t' = t_root t \<and> (\<forall>j. isAttached t' j \<longleftrightarrow> j = i \<or> isAttached t j)
     \<and> t_waitList t' = t_waitList t \<and> t_addedBuf t' = t_addedBuf t @ [i]
     \<and> t_headIds t' = t_headIds t \<and> t_lastIteratedHeadId t' = t_lastIteratedHeadId t
     \<and> (\<forall>j. nextOf t' j = (if j \<noteq> i \<and> j \<in> set (prevs t i) then insertNext i (nextOf t j) else nextOf t j)
          \<and> prevs t' j = prevs t j \<and> ch_Id (chOf t' j) = ch_Id (chOf t j)
          \<and> ch_SnapshotId (chOf t' j) = ch_SnapshotId (chOf t j) \<and> ch_OrderId (chOf t' j) = ch_OrderId (chOf t j))"

lemma attachOne_attaches:
  assumes "i \<notin> set (prevs t i)" and "distinct (prevs t i)"
  shows "attaches t i (attachOne i newEl t)"
    and "t_unAttached (attachOne i newEl t) = (if newEl then t_unAttached t else mdel i (t_unAttached t))"
proof -
  define t1 where "t1 = (let t = t\<lparr>t_attached := mput i () (t_attached t), t_addedBuf := t_addedBuf t @ [i]\<rparr>;
    t = (if newEl then t else t\<lparr>t_unAttached := mdel i (t_unAttached t)\<rparr>)
    in (if ch_SnapshotCounter (chOf t i) = 0
        then updCh i (\<lambda>c. c\<lparr>ch_SnapshotCounter := ch_SnapshotCounter (chOf t (ch_SnapshotId c)) + 1\<rparr>)
          (t\<lparr>t_possibleRoots := t_possibleRoots t @ [i]\<rparr>)
        else t))"
  have chs: "\<exists>n. chOf t1 j = (chOf t j)\<lparr>ch_SnapshotCounter := n\<rparr>" for j
    by (simp add: t1_def Let_def chOf_def updCh_def)
      (metis Change.surjective Change.update_convs(11))
  have same: "prevs t1 j = prevs t j" "nextOf t1 j = nextOf t j" "ch_Id (chOf t1 j) = ch_Id (chOf t j)"
    "ch_SnapshotId (chOf t1 j) = ch_SnapshotId (chOf t j)" "ch_OrderId (chOf t1 j) = ch_OrderId (chOf t j)" for j
  proof -
    obtain n where "chOf t1 j = (chOf t j)\<lparr>ch_SnapshotCounter := n\<rparr>"
      using chs by blast
    then show "prevs t1 j = prevs t j" "nextOf t1 j = nextOf t j" "ch_Id (chOf t1 j) = ch_Id (chOf t j)"
      "ch_SnapshotId (chOf t1 j) = ch_SnapshotId (chOf t j)" "ch_OrderId (chOf t1 j) = ch_OrderId (chOf t j)"
      by (simp_all add: nextOf_def)
  qed
  have t1: "t_root t1 = t_root t" "t_attached t1 = mput i () (t_attached t)" "t_waitList t1 = t_waitList t"
    "t_addedBuf t1 = t_addedBuf t @ [i]" "t_headIds t1 = t_headIds t"
    "t_lastIteratedHeadId t1 = t_lastIteratedHeadId t"
    "t_unAttached t1 = (if newEl then t_unAttached t else mdel i (t_unAttached t))"
    by (simp_all add: t1_def Let_def)
  have eq: "attachOne i newEl t = fold (addToPrev i) (prevs t i) t1"
    using same(1)[of i] by (simp add: attachOne_def t1_def Let_def)
  note f = fold_addToPrev[OF assms, of t1]
  show "attaches t i (attachOne i newEl t)"
    unfolding attaches_def eq using same t1 by (auto simp: f nextOf_def isAttached_def)
  show "t_unAttached (attachOne i newEl t) = (if newEl then t_unAttached t else mdel i (t_unAttached t))"
    unfolding eq using t1 by simp
qed

text \<open>Inserting into a sorted list of ids.\<close>

lemma sorted_le_last: "sorted xs \<Longrightarrow> x \<in> set xs \<Longrightarrow> x \<le> last (xs :: string list)"
  by (induction xs) auto

lemma insertNext_sorted:
  assumes "sorted ns" and "distinct ns" and "i \<notin> set ns"
  shows "sorted (insertNext i ns) \<and> distinct (insertNext i ns) \<and> set (insertNext i ns) = insert i (set ns)
    \<and> filter (\<lambda>x. x \<noteq> i) (insertNext i ns) = ns"
proof (cases "ns = [] \<or> last ns \<le> i")
  case True
  then have "x \<le> i" if "x \<in> set ns" for x
    using sorted_le_last[OF assms(1) that] that by fastforce
  with True assms show ?thesis
    by (auto simp: insertNext_def sorted_append filter_id_conv)
next
  case False
  then have "\<not> last ns < i" "ns \<noteq> []"
    by auto
  then have "\<not> (\<forall>x \<in> set ns. x < i)"
    by (meson last_in_set)
  then have lt: "length (takeWhile (\<lambda>x. x < i) ns) < length ns"
    by (metis length_takeWhile_le nat_less_le takeWhile_eq_all_conv takeWhile_eq_take take_all)
  then have eq: "insertNext i ns = takeWhile (\<lambda>x. x < i) ns @ i # dropWhile (\<lambda>x. x < i) ns"
    using False by (simp add: insertNext_def insertIdx_def Let_def takeWhile_eq_take[symmetric] dropWhile_eq_drop[symmetric])
  have split: "takeWhile (\<lambda>x. x < i) ns @ dropWhile (\<lambda>x. x < i) ns = ns"
    by (rule takeWhile_dropWhile_id)
  have hi: "i \<le> x" if "x \<in> set (dropWhile (\<lambda>x. x < i) ns)" for x
    using assms(1) that by (induction ns) (auto split: if_split_asm)
  have lo: "x < i" if "x \<in> set (takeWhile (\<lambda>x. x < i) ns)" for x
    using that by (rule set_takeWhileD[THEN conjunct2])
  obtain a b where ab: "insertNext i ns = a @ i # b" "ns = a @ b" "\<forall>x \<in> set a. x < i" "\<forall>x \<in> set b. i \<le> x"
    using eq split hi lo by metis
  with assms have "filter (\<lambda>x. x \<noteq> i) a = a" "filter (\<lambda>x. x \<noteq> i) b = b"
    by (auto simp: filter_id_conv)
  with ab assms show ?thesis
    by (auto simp: sorted_append less_imp_le)
qed

section \<open>A new leaf\<close>

lemma attaches_atts: "attaches t i t' \<Longrightarrow> atts t' = insert i (atts t)"
  by (auto simp: attaches_def atts_def)

lemma attaches_kids:
  assumes "attaches t i t'" and "i \<noteq> r" and "i \<notin> atts t"
  shows "kids t' r j = (if j \<in> set (prevs t i) then insert i (kids t r j) else kids t r j)"
  using assms attaches_atts[OF assms(1)] by (auto simp: kids_def attaches_def)

text \<open>What a change must be like to be attached.\<close>

definition attachable :: "Tree \<Rightarrow> string \<Rightarrow> bool" where
  "attachable t i \<longleftrightarrow> i \<notin> atts t \<and> ch_Id (chOf t i) = i \<and> nextOf t i = []
     \<and> prevs t i \<noteq> [] \<and> distinct (prevs t i) \<and> set (prevs t i) \<subseteq> atts t"

lemma attaches_next:
  assumes g: "graph_ok t r" and a: "attaches t i t'" and i: "attachable t i" and j: "j \<in> atts t"
  shows "nextOf t' j = sorted_list_of_set (kids t' r j) \<and> filter (\<lambda>x. x \<noteq> i) (nextOf t' j) = nextOf t j"
proof -
  have ir: "i \<noteq> r" "i \<notin> atts t" "i \<noteq> j"
    using i j graph_okD(2)[OF g] by (auto simp: attachable_def)
  have ni: "i \<notin> kids t r j"
    using ir by (simp add: kids_def)
  note n = graph_okD(3)[OF g j]
  note ins = insertNext_sorted[of "sorted_list_of_set (kids t r j)" i]
  show ?thesis
  proof (cases "j \<in> set (prevs t i)")
    case True
    then have "nextOf t' j = insertNext i (nextOf t j)"
      using a ir by (simp add: attaches_def)
    moreover have "insertNext i (nextOf t j) = sorted_list_of_set (insert i (kids t r j))"
      by (rule sorted_distinct_set_unique) (use ins ni in \<open>simp_all add: n set_insort_key sorted_insort distinct_insort\<close>)
    ultimately show ?thesis
      using ins ni True by (simp add: n attaches_kids[OF a ir(1,2)])
  next
    case False
    then have "nextOf t' j = nextOf t j"
      using a by (simp add: attaches_def)
    moreover have "filter (\<lambda>x. x \<noteq> i) (nextOf t j) = nextOf t j"
      using ni by (auto simp: n filter_id_conv)
    ultimately show ?thesis
      using False by (simp add: n attaches_kids[OF a ir(1,2)])
  qed
qed

lemma attaches_graph:
  assumes g: "graph_ok t r" and a: "attaches t i t'" and i: "attachable t i"
  shows "graph_ok t' r"
proof -
  note atts = attaches_atts[OF a]
  have ir: "i \<noteq> r" "i \<notin> atts t"
    using i graph_okD(2)[OF g] by (auto simp: attachable_def)
  have same: "prevs t' j = prevs t j" "ch_Id (chOf t' j) = ch_Id (chOf t j)" "t_root t' = t_root t" for j
    using a by (simp_all add: attaches_def)
  have own: "nextOf t' i = []" "kids t' r i = {}"
  proof -
    show "nextOf t' i = []"
      using a i by (simp add: attaches_def attachable_def)
    have "i \<notin> set (prevs t c)" if "c \<in> atts t" "c \<noteq> r" for c
      using graph_okD(5)[OF g that] ir by auto
    moreover have "i \<notin> set (prevs t i)"
      using i by (auto simp: attachable_def)
    ultimately show "kids t' r i = {}"
      by (auto simp: kids_def atts same)
  qed
  obtain \<rho> :: "string \<Rightarrow> nat" where \<rho>: "\<forall>c \<in> atts t - {r}. \<forall>p \<in> set (prevs t c). \<rho> p < \<rho> c"
    using graph_ranked[OF g] by blast
  define \<rho>' where "\<rho>' = \<rho>(i := Suc (Max (\<rho> ` atts t)))"
  have "\<rho>' p < \<rho>' c" if "c \<in> atts t' - {r}" "p \<in> set (prevs t' c)" for c p
  proof (cases "c = i")
    case True
    then have "p \<in> atts t"
      using that i by (auto simp: same attachable_def)
    then have "p \<noteq> i" "\<rho> p \<le> Max (\<rho> ` atts t)"
      using ir by auto
    with True show ?thesis
      by (simp add: \<rho>'_def)
  next
    case False
    then have c: "c \<in> atts t" "c \<noteq> r"
      using that(1) by (auto simp: atts)
    then have "p \<noteq> i"
      using graph_okD(5)[OF g c] that(2) ir by (auto simp: same)
    with False c that(2) \<rho> show ?thesis
      by (simp add: \<rho>'_def same)
  qed
  then have rank: "\<exists>\<rho> :: string \<Rightarrow> nat. \<forall>c \<in> atts t' - {r}. \<forall>p \<in> set (prevs t' c). \<rho> p < \<rho> c"
    by blast
  have nodes: "ch_Id (chOf t' c) = c \<and> nextOf t' c = sorted_list_of_set (kids t' r c)" if "c \<in> atts t'" for c
    using that own i attaches_next[OF g a i, of c] graph_okD(4)[OF g, of c]
    by (auto simp: atts same attachable_def)
  have "prevs t' c \<noteq> [] \<and> distinct (prevs t' c) \<and> set (prevs t' c) \<subseteq> atts t'" if "c \<in> atts t'" "c \<noteq> r" for c
    using that i graph_okD(5)[OF g, of c] by (auto simp: atts same attachable_def)
  with rank nodes graph_okD(1,2)[OF g] show ?thesis
    unfolding graph_ok_def by (simp add: same atts)
qed

text \<open>The old changes keep their order.\<close>

lemma attaches_ord:
  assumes g: "graph_ok t r" and a: "attaches t i t'" and i: "attachable t i"
  shows "filter (\<lambda>x. x \<noteq> i) (ord t') = ord t"
proof -
  note g' = attaches_graph[OF assms] and atts = attaches_atts[OF a]
  have "topSortLoop (nextOf t) [r] [] [] [] = Some (filter (\<lambda>x. x \<noteq> i) (rev (ord t')))"
  proof (rule topSortLoop_leaf[where V = "atts t" and nx' = "nextOf t'"])
    show "nextOf t' i = []"
      using a i by (simp add: attaches_def attachable_def)
    show "closedIn (nextOf t') (insert i (atts t))"
      using graph_closed[OF g'] by (simp add: atts)
    show "topSortLoop (nextOf t') [r] [] [] [] = Some (rev (ord t'))"
      using graph_sorts(1)[OF g'] by (simp add: topSort_def)
    show "filter (\<lambda>x. x \<noteq> i) (nextOf t' v) = nextOf t v" if "v \<in> atts t" for v
      using attaches_next[OF g a i that] by blast
  qed (use graph_okD(2)[OF g] i in \<open>auto simp: attachable_def\<close>)
  with graph_sorts(1)[OF g] show ?thesis
    by (simp add: topSort_def rev_filter[symmetric])
qed

end
