(* ===== verification/TreeWait.thy ===== *)
theory TreeWait
  imports TreeAttach
begin

text \<open>
  The wait lists: a change is attached as soon as all its previous changes are, so that a batch
  attaches the same changes in whatever order it comes.
\<close>

section \<open>Growing a tree\<close>

text \<open>\<open>t'\<close> has the changes of \<open>t\<close> in their order, and more.\<close>

definition grown :: "string \<Rightarrow> Tree \<Rightarrow> Tree \<Rightarrow> bool" where
  "grown r t t' \<longleftrightarrow> graph_ok t' r \<and> atts t \<subseteq> atts t' \<and> filter (\<lambda>x. x \<in> atts t) (ord t') = ord t
     \<and> (\<forall>j \<in> atts t. prevs t' j = prevs t j \<and> ch_SnapshotId (chOf t' j) = ch_SnapshotId (chOf t j)
          \<and> ch_OrderId (chOf t' j) = ch_OrderId (chOf t j))
     \<and> t_headIds t' = t_headIds t \<and> t_lastIteratedHeadId t' = t_lastIteratedHeadId t
     \<and> (\<exists>new. t_addedBuf t' = t_addedBuf t @ new \<and> set new = atts t' - atts t)"

lemma grown_refl:
  assumes "graph_ok t r"
  shows "grown r t t"
proof -
  have "filter (\<lambda>x. x \<in> atts t) (ord t) = ord t"
    using graph_sorts(4)[OF assms] by (auto simp: filter_id_conv)
  with assms show ?thesis
    by (simp add: grown_def)
qed

lemma grown_trans:
  assumes "grown r t t1" and "grown r t1 t2"
  shows "grown r t t2"
proof -
  have sub: "atts t \<subseteq> atts t1" "atts t1 \<subseteq> atts t2"
    using assms by (simp_all add: grown_def)
  have "filter (\<lambda>x. x \<in> atts t) (ord t2) = filter (\<lambda>x. x \<in> atts t) (filter (\<lambda>x. x \<in> atts t1) (ord t2))"
    using sub by (auto simp: filter_filter intro: filter_cong)
  also have "\<dots> = ord t"
    using assms by (simp add: grown_def)
  finally have "filter (\<lambda>x. x \<in> atts t) (ord t2) = ord t" .
  moreover obtain new1 new2 where "t_addedBuf t1 = t_addedBuf t @ new1" "set new1 = atts t1 - atts t"
    "t_addedBuf t2 = t_addedBuf t1 @ new2" "set new2 = atts t2 - atts t1"
    using assms by (auto simp: grown_def)
  then have "t_addedBuf t2 = t_addedBuf t @ (new1 @ new2)" "set (new1 @ new2) = atts t2 - atts t"
    using sub by auto
  then have "\<exists>new. t_addedBuf t2 = t_addedBuf t @ new \<and> set new = atts t2 - atts t"
    by blast
  moreover have "prevs t2 j = prevs t j \<and> ch_SnapshotId (chOf t2 j) = ch_SnapshotId (chOf t j)
      \<and> ch_OrderId (chOf t2 j) = ch_OrderId (chOf t j)" if "j \<in> atts t" for j
    using assms that sub by (auto simp: grown_def)
  ultimately show ?thesis
    using assms sub by (auto simp: grown_def)
qed

lemma attaches_grown:
  assumes g: "graph_ok t r" and a: "attaches t i t'" and i: "attachable t i"
  shows "grown r t t'"
proof -
  note g' = attaches_graph[OF assms] and atts = attaches_atts[OF a]
  have "filter (\<lambda>x. x \<in> atts t) (ord t') = filter (\<lambda>x. x \<noteq> i) (ord t')"
    using graph_sorts(4)[OF g'] i by (auto simp: atts attachable_def intro: filter_cong)
  with attaches_ord[OF assms] have "filter (\<lambda>x. x \<in> atts t) (ord t') = ord t"
    by simp
  moreover have "t_addedBuf t' = t_addedBuf t @ [i]" "set [i] = atts t' - atts t"
    using a i by (auto simp: attaches_def atts attachable_def)
  then have "\<exists>new. t_addedBuf t' = t_addedBuf t @ new \<and> set new = atts t' - atts t"
    by blast
  ultimately show ?thesis
    using a g' by (auto simp: grown_def atts attaches_def)
qed

lemma graph_ok_cong:
  assumes "t_root t' = t_root t" and "atts t' = atts t"
    and "\<And>j. j \<in> atts t \<Longrightarrow> nextOf t' j = nextOf t j \<and> prevs t' j = prevs t j \<and> ch_Id (chOf t' j) = ch_Id (chOf t j)"
  shows "graph_ok t' r = graph_ok t r"
proof -
  have kids: "kids t' r j = kids t r j" for j
    using assms(2,3) by (auto simp: kids_def)
  show ?thesis
    unfolding graph_ok_def assms(1,2) kids by (simp add: assms(3) cong: ball_cong_simp)
qed

lemma ord_cong:
  assumes g: "graph_ok t r" and "t_root t' = t_root t" and "\<And>j. j \<in> atts t \<Longrightarrow> nextOf t' j = nextOf t j"
  shows "ord t' = ord t"
proof -
  have "topSortLoop (nextOf t') [r] [] [] [] = topSortLoop (nextOf t) [r] [] [] []"
    using topSortLoop_cong[OF graph_closed[OF g] assms(3) graph_okD(2)[OF g]] .
  then show ?thesis
    using assms(2) graph_okD(1)[OF g] by (simp add: ord_def iterateOrder_def makeIterBuffer_def topSort_def)
qed

text \<open>Changes of the tree that neither the graph nor the order sees.\<close>

lemma grown_cong:
  assumes g: "graph_ok t r" and "t_root t' = t_root t" and "atts t' = atts t"
    and "\<And>j. j \<in> atts t \<Longrightarrow> chOf t' j = chOf t j"
    and "t_headIds t' = t_headIds t" "t_lastIteratedHeadId t' = t_lastIteratedHeadId t" "t_addedBuf t' = t_addedBuf t"
  shows "grown r t t'"
proof -
  have "graph_ok t' r"
    using graph_ok_cong[of t' t r] assms by (auto simp: nextOf_def)
  moreover have "ord t' = ord t"
    using ord_cong[OF g assms(2)] assms(4) by (simp add: nextOf_def)
  ultimately show ?thesis
    using grown_refl[OF g] assms by (simp add: grown_def)
qed

section \<open>Waiting changes\<close>

definition waitSet :: "Tree \<Rightarrow> string \<Rightarrow> string set" where
  "waitSet t p = (case mget (t_waitList t) p of None \<Rightarrow> {} | Some ws \<Rightarrow> set ws)"

text \<open>
  A change that waits is on the list of each previous change that is missing; if none is missing, it
  is about to be checked.
\<close>

definition waitsFor :: "Tree \<Rightarrow> attachTask list \<Rightarrow> string \<Rightarrow> bool" where
  "waitsFor t tasks u \<longleftrightarrow> u \<notin> atts t \<and> ch_Id (chOf t u) = u \<and> nextOf t u = [] \<and> prevs t u \<noteq> [] \<and> distinct (prevs t u)
     \<and> (\<forall>p \<in> set (prevs t u) - atts t. u \<in> waitSet t p)
     \<and> (set (prevs t u) \<subseteq> atts t \<longrightarrow> Check u \<in> set tasks)"

text \<open>
  The state within a batch: \<open>A\<close> are the changes attached before it, \<open>P\<close> and \<open>S\<close> the previous changes and
  the snapshot of each change of the batch; these have no order id yet.
\<close>

definition batch :: "string \<Rightarrow> string set \<Rightarrow> (string \<Rightarrow> string list) \<Rightarrow> (string \<Rightarrow> string) \<Rightarrow> attachTask list \<Rightarrow> Tree \<Rightarrow> bool" where
  "batch r A P S tasks t \<longleftrightarrow> graph_ok t r \<and> A \<subseteq> atts t \<and> r \<in> A
     \<and> (\<forall>u. isUnAttached t u \<longrightarrow> waitsFor t tasks u)
     \<and> (\<forall>i. Drop i \<in> set tasks \<longrightarrow> i \<in> atts t)
     \<and> (\<forall>u. u \<in> atts t - A \<or> isUnAttached t u \<longrightarrow>
          prevs t u = P u \<and> ch_SnapshotId (chOf t u) = S u \<and> ch_OrderId (chOf t u) = [])"

text \<open>The snapshot of a change is found wherever its previous changes are.\<close>

definition snapsInside :: "string set \<Rightarrow> string set \<Rightarrow> (string \<Rightarrow> string list) \<Rightarrow> (string \<Rightarrow> string) \<Rightarrow> bool" where
  "snapsInside A B P S \<longleftrightarrow> (\<forall>X. A \<subseteq> X \<longrightarrow> (\<forall>x \<in> X - A. set (P x) \<subseteq> X) \<longrightarrow> (\<forall>u \<in> B. set (P u) \<subseteq> X \<longrightarrow> S u \<in> X))"

lemma batchD:
  assumes "batch r A P S tasks t"
  shows "graph_ok t r" and "A \<subseteq> atts t" and "r \<in> A" and "isUnAttached t u \<Longrightarrow> waitsFor t tasks u"
    and "u \<in> atts t - A \<Longrightarrow> prevs t u = P u \<and> ch_SnapshotId (chOf t u) = S u \<and> ch_OrderId (chOf t u) = []"
    and "isUnAttached t u \<Longrightarrow> prevs t u = P u \<and> ch_SnapshotId (chOf t u) = S u \<and> ch_OrderId (chOf t u) = []"
    and "Drop i \<in> set tasks \<Longrightarrow> i \<in> atts t"
  using assms unfolding batch_def by blast+

lemma batch_snapshot:
  assumes b: "batch r A P S tasks t" and s: "snapsInside A B P S" and u: "u \<in> B" "set (P u) \<subseteq> atts t"
  shows "S u \<in> atts t"
proof -
  have "set (P x) \<subseteq> atts t" if "x \<in> atts t - A" for x
    using that batchD(3)[OF b] batchD(5)[OF b that] graph_okD(5)[OF batchD(1)[OF b], of x] by auto
  then show ?thesis
    using s batchD(2)[OF b] u unfolding snapsInside_def by blast
qed

lemma isAttached_atts: "isAttached t i \<longleftrightarrow> i \<in> atts t"
  by (simp add: atts_def)

lemma canAttach_iff:
  "fst (canAttachOrRemove c w t) = (set (ch_PreviousIds c) \<subseteq> atts t \<and> ch_SnapshotId c \<in> atts t,
     set (ch_PreviousIds c) \<subseteq> atts t \<and> ch_SnapshotId c \<notin> atts t)"
  by (auto simp: canAttachOrRemove_def Let_def isAttached_atts filter_empty_conv)

text \<open>One change attached within a batch: those that wait for it are checked.\<close>

lemma batch_attach:
  assumes b: "batch r A P S tasks t" and i: "attachable t i" and p: "prevs t i = P i" "ch_SnapshotId (chOf t i) = S i" "ch_OrderId (chOf t i) = []"
    and t': "attaches t i t'" and un: "\<And>u. isUnAttached t' u \<longleftrightarrow> u \<noteq> i \<and> isUnAttached t u"
  shows "batch r A P S (waiting i t' @ tasks) t'"
proof -
  note g = batchD(1)[OF b] and atts = attaches_atts[OF t']
  have same: "prevs t' j = prevs t j" "ch_Id (chOf t' j) = ch_Id (chOf t j)"
    "ch_SnapshotId (chOf t' j) = ch_SnapshotId (chOf t j)"
    "ch_OrderId (chOf t' j) = ch_OrderId (chOf t j)" "t_waitList t' = t_waitList t" for j
    using t' by (simp_all add: attaches_def)
  have "waitsFor t' (waiting i t' @ tasks) u" if "isUnAttached t' u" for u
  proof -
    have u: "u \<noteq> i" "waitsFor t tasks u"
      using that un batchD(4)[OF b] by auto
    have "u \<notin> set (prevs t i)"
      using u i by (auto simp: waitsFor_def attachable_def)
    then have nx: "nextOf t' u = nextOf t u"
      using t' by (simp add: attaches_def)
    have ws: "waitSet t' p = waitSet t p" for p
      by (simp add: waitSet_def same)
    have "Check u \<in> set (waiting i t' @ tasks)" if all: "set (prevs t' u) \<subseteq> atts t'"
    proof (cases "i \<in> set (prevs t u)")
      case True
      then have "u \<in> waitSet t i"
        using u i by (auto simp: waitsFor_def attachable_def)
      then have "Check u \<in> set (waiting i t')"
        by (auto simp: waiting_def waitSet_def same split: option.splits)
      then show ?thesis
        by simp
    next
      case False
      then have "set (prevs t u) \<subseteq> atts t"
        using all by (auto simp: same atts)
      then show ?thesis
        using u by (simp add: waitsFor_def)
    qed
    with u nx ws show ?thesis
      by (auto simp: waitsFor_def same atts)
  qed
  moreover have "j \<in> atts t'" if "Drop j \<in> set (waiting i t' @ tasks)" for j
    using that batchD(7)[OF b, of j] by (auto simp: waiting_def atts split: option.splits)
  moreover have "prevs t' u = P u \<and> ch_SnapshotId (chOf t' u) = S u \<and> ch_OrderId (chOf t' u) = []"
    if "u \<in> atts t' - A \<or> isUnAttached t' u" for u
    using that p un batchD(5,6)[OF b, of u] by (auto simp: same atts)
  ultimately show ?thesis
    using attaches_graph[OF g t' i] batchD(2,3)[OF b] unfolding batch_def by (auto simp: atts)
qed

text \<open>What a run of the tasks leaves: every change of the batch that can be attached is.\<close>

definition settled :: "string \<Rightarrow> string set \<Rightarrow> (string \<Rightarrow> string list) \<Rightarrow> (string \<Rightarrow> string) \<Rightarrow> Tree \<Rightarrow> Tree \<Rightarrow> bool" where
  "settled r A P S t t' \<longleftrightarrow> batch r A P S [] t' \<and> grown r t t'
     \<and> (\<forall>u. u \<in> atts t' \<or> isUnAttached t' u \<longleftrightarrow> u \<in> atts t \<or> isUnAttached t u)"

lemma settled_trans: "grown r t t1 \<Longrightarrow> (\<forall>u. u \<in> atts t1 \<or> isUnAttached t1 u \<longleftrightarrow> u \<in> atts t \<or> isUnAttached t u)
    \<Longrightarrow> settled r A P S t1 t2 \<Longrightarrow> settled r A P S t t2"
  unfolding settled_def using grown_trans by blast

lemma isUnAttached_cong: "t_unAttached t' = t_unAttached t \<Longrightarrow> isUnAttached t' u = isUnAttached t u"
  by (simp add: isUnAttached_def)

lemma batch_drop:
  assumes b: "batch r A P S (Drop i # tasks) t"
  shows "batch r A P S tasks (t\<lparr>t_waitList := mdel i (t_waitList t)\<rparr>)"
proof -
  let ?t = "t\<lparr>t_waitList := mdel i (t_waitList t)\<rparr>"
  have same: "chOf ?t j = chOf t j" "nextOf ?t j = nextOf t j" "isUnAttached ?t j = isUnAttached t j"
    "atts ?t = atts t" for j
    by (simp_all add: chOf_def nextOf_def isUnAttached_def atts_def isAttached_def)
  have i: "i \<in> atts t"
    using batchD(7)[OF b] by simp
  have ws: "waitSet ?t p = waitSet t p" if "p \<notin> atts t" for p
    using that i by (auto simp: waitSet_def delete_conv)
  have "waitsFor ?t tasks u" if "isUnAttached t u" for u
    using batchD(4)[OF b that] by (simp add: waitsFor_def same ws cong: ball_cong_simp)
  moreover have "graph_ok ?t r"
    using graph_ok_cong[of ?t t r] batchD(1)[OF b] by (simp add: same)
  ultimately show ?thesis
    using b unfolding batch_def same by auto
qed

text \<open>A check that is done, or that finds a previous change missing, can be forgotten.\<close>

lemma batch_checked:
  assumes b: "batch r A P S (ts @ Check u # tasks) t" and u: "\<not> (isUnAttached t u \<and> set (prevs t u) \<subseteq> atts t)"
  shows "batch r A P S (ts @ tasks) t"
proof -
  have "waitsFor t (ts @ tasks) v" if "isUnAttached t v" for v
  proof (cases "v = u")
    case False
    then show ?thesis
      using batchD(4)[OF b that] by (simp add: waitsFor_def)
  next
    case True
    then have "\<not> set (prevs t v) \<subseteq> atts t"
      using u that by simp
    then show ?thesis
      using batchD(4)[OF b that] by (simp add: waitsFor_def)
  qed
  with b show ?thesis
    unfolding batch_def by simp
qed

lemma attachRun_settles:
  assumes "batch r A P S tasks t" and "snapsInside A B P S" and "\<forall>u. isUnAttached t u \<longrightarrow> u \<in> B"
  shows "settled r A P S t (attachRun tasks t)"
  using assms
proof (induction tasks t rule: attachRun.induct)
  case (1 t)
  then show ?case
    using grown_refl[OF batchD(1)] by (auto simp: settled_def)
next
  case (2 i tasks t)
  let ?t = "t\<lparr>t_waitList := mdel i (t_waitList t)\<rparr>"
  have "grown r t ?t"
    using grown_cong[OF batchD(1)[OF 2(2)], of ?t] by (simp add: chOf_def atts_def isAttached_def)
  moreover have "atts ?t = atts t" "isUnAttached ?t u = isUnAttached t u" for u
    by (simp_all add: isUnAttached_def atts_def isAttached_def)
  ultimately show ?case
    using settled_trans[of r t ?t] 2(1)[OF batch_drop[OF 2(2)] 2(3)] 2(4) by simp
next
  case (3 u tasks t)
  note b = 3(5)
  show ?case
  proof (cases "isUnAttached t u \<and> set (prevs t u) \<subseteq> atts t")
    case False
    then have "batch r A P S tasks t"
      using batch_checked[of r A P S "[]" u tasks t] b by simp
    moreover have "attachRun (Check u # tasks) t = attachRun tasks t"
      using False by (auto simp: canAttach_iff)
    ultimately show ?thesis
      using 3 False by (auto simp: canAttach_iff)
  next
    case True
    note P = batchD(6)[OF b conjunct1[OF True]] and w = batchD(4)[OF b conjunct1[OF True]]
    have "S u \<in> atts t"
      using batch_snapshot[OF b 3(6), of u] 3(7) True P by simp
    then have can: "fst (fst (canAttachOrRemove (chOf t u) False t))"
      using P True by (simp add: canAttach_iff)
    have i: "attachable t u"
      using w True by (simp add: waitsFor_def attachable_def)
    let ?t = "attachOne u False t"
    have "u \<notin> set (prevs t u)" "distinct (prevs t u)"
      using i by (auto simp: attachable_def)
    note at = attachOne_attaches[OF this, of False]
    have un: "isUnAttached ?t v \<longleftrightarrow> v \<noteq> u \<and> isUnAttached t v" for v
      by (auto simp: isUnAttached_def at(2) delete_conv)
    have b1: "batch r A P S (waiting u ?t @ Check u # tasks) ?t"
      by (rule batch_attach[OF b i _ _ _ at(1)]) (use P un in auto)
    then have "batch r A P S (waiting u ?t @ tasks) ?t"
      using batch_checked[OF b1] un by simp
    then have "settled r A P S ?t (attachRun (waiting u ?t @ tasks) ?t)"
      using 3(2)[OF _ can _ 3(6)] True un 3(7) by simp
    moreover have "attachRun (Check u # tasks) t = attachRun (waiting u ?t @ tasks) ?t"
      using True can by simp
    ultimately show ?thesis
      using settled_trans[OF attaches_grown[OF batchD(1)[OF b] at(1) i]] attaches_atts[OF at(1)] un True
      by (metis insert_iff)
  qed
qed

section \<open>Adding changes\<close>

definition goodCh :: "(string \<Rightarrow> string list) \<Rightarrow> (string \<Rightarrow> string) \<Rightarrow> Change \<Rightarrow> bool" where
  "goodCh P S c \<longleftrightarrow> ch_Next c = [] \<and> ch_OrderId c = [] \<and> ch_PreviousIds c \<noteq> [] \<and> distinct (ch_PreviousIds c)
     \<and> P (ch_Id c) = sort (ch_PreviousIds c) \<and> S (ch_Id c) = ch_SnapshotId c"

lemma fold_addToWait:
  "waitSet (fold (addToWait i) ps t) p = waitSet t p \<union> (if p \<in> set ps then {i} else {})"
  "fold (addToWait i) ps t = t\<lparr>t_waitList := t_waitList (fold (addToWait i) ps t)\<rparr>"
proof -
  show "waitSet (fold (addToWait i) ps t) p = waitSet t p \<union> (if p \<in> set ps then {i} else {})"
    by (induction ps arbitrary: t) (auto simp: addToWait_def waitSet_def split: option.splits)
  show "fold (addToWait i) ps t = t\<lparr>t_waitList := t_waitList (fold (addToWait i) ps t)\<rparr>"
  proof (induction ps arbitrary: t)
    case (Cons q ps)
    define w where "w = t_waitList (addToWait i q t)"
    have w: "addToWait i q t = t\<lparr>t_waitList := w\<rparr>"
      by (simp add: addToWait_def w_def)
    have "fold (addToWait i) (q # ps) t = fold (addToWait i) ps (t\<lparr>t_waitList := w\<rparr>)"
      by (simp add: w)
    also have "\<dots> = t\<lparr>t_waitList := w, t_waitList := t_waitList (fold (addToWait i) ps (t\<lparr>t_waitList := w\<rparr>))\<rparr>"
      by (rule Cons)
    finally show ?case
      by (simp add: w)
  qed simp
qed

text \<open>A new object for a change that the tree does not know.\<close>

lemma batch_fresh:
  assumes b: "batch r A P S [] t" and new: "i \<notin> atts t" "\<not> isUnAttached t i"
    and t': "t_root t' = t_root t" "t_attached t' = t_attached t" "t_mem t' = mput i c (t_mem t)"
      "t_headIds t' = t_headIds t" "t_lastIteratedHeadId t' = t_lastIteratedHeadId t" "t_addedBuf t' = t_addedBuf t"
    and ws: "\<And>p. waitSet t p \<subseteq> waitSet t' p"
    and un: "\<And>u. isUnAttached t' u \<longleftrightarrow> isUnAttached t u \<or> u = i \<and> w"
    and w: "w \<Longrightarrow> waitsFor t' [] i \<and> ch_PreviousIds c = P i \<and> ch_SnapshotId c = S i \<and> ch_OrderId c = []"
  shows "batch r A P S [] t'" and "grown r t t'"
proof -
  have ch: "chOf t' j = (if j = i then c else chOf t j)" for j
    using t' by (simp add: chOf_def)
  have atts: "atts t' = atts t"
    using t' by (simp add: atts_def isAttached_def)
  have old: "chOf t' j = chOf t j" if "j \<in> atts t \<or> isUnAttached t j" for j
    using that new by (auto simp: ch)
  show g: "grown r t t'"
    by (rule grown_cong[OF batchD(1)[OF b]]) (use t' atts old in auto)
  have "waitsFor t' [] u" if "isUnAttached t u" for u
  proof -
    have "waitsFor t [] u" "chOf t' u = chOf t u"
      using batchD(4)[OF b that] old that by auto
    then show ?thesis
      using ws unfolding waitsFor_def nextOf_def atts by auto
  qed
  moreover have "prevs t' u = P u \<and> ch_SnapshotId (chOf t' u) = S u \<and> ch_OrderId (chOf t' u) = []"
    if "u \<in> atts t - A \<or> isUnAttached t u" for u
    using that old[of u] batchD(5,6)[OF b, of u] by auto
  moreover have "graph_ok t' r"
    using g by (simp add: grown_def)
  ultimately show "batch r A P S [] t'"
    using batchD(2,3)[OF b] w ch[of i] unfolding batch_def atts by (auto simp: un)
qed

text \<open>What adding the changes with ids \<open>N\<close> does.\<close>

definition added :: "string \<Rightarrow> string set \<Rightarrow> (string \<Rightarrow> string list) \<Rightarrow> (string \<Rightarrow> string) \<Rightarrow> string set \<Rightarrow> Tree \<Rightarrow> Tree \<Rightarrow> bool" where
  "added r A P S N t t' \<longleftrightarrow> batch r A P S [] t' \<and> grown r t t'
     \<and> (\<forall>u. u \<in> atts t' \<or> isUnAttached t' u \<longleftrightarrow> u \<in> atts t \<or> isUnAttached t u \<or> u \<in> N)"

lemma added_trans: "added r A P S N t t1 \<Longrightarrow> added r A P S N' t1 t2 \<Longrightarrow> added r A P S (N \<union> N') t t2"
  unfolding added_def using grown_trans by blast

lemma added_un:
  assumes "added r A P S N t t'" and "isUnAttached t' u"
  shows "isUnAttached t u \<or> u \<in> N"
proof -
  have "u \<notin> atts t'" "atts t \<subseteq> atts t'"
    using assms batchD(4)[of r A P S "[]" t' u] by (auto simp: added_def waitsFor_def grown_def)
  then show ?thesis
    using assms unfolding added_def by blast
qed

lemma sort_short: "\<not> 1 < length xs \<Longrightarrow> sort xs = xs"
  by (cases xs; cases "tl xs") auto

lemma add_some:
  fixes c :: Change and t :: Tree
  assumes "t_root t = Some r"
  defines "ps \<equiv> sort (ch_PreviousIds c)"
  defines "c' \<equiv> c\<lparr>ch_PreviousIds := ps\<rparr>"
  defines "m \<equiv> (fold (addToWait (ch_Id c)) (filter (\<lambda>p. p \<notin> atts t) ps) t)\<lparr>t_mem := mput (ch_Id c) c' (t_mem t)\<rparr>"
  shows "set ps \<subseteq> atts t \<Longrightarrow> ch_SnapshotId c \<in> atts t \<Longrightarrow> add L c t = (True, attach (ch_Id c) True m)"
    and "\<not> set ps \<subseteq> atts t \<Longrightarrow> add L c t = (False, m\<lparr>t_unAttached := mput (ch_Id c) () (t_unAttached m)\<rparr>)"
proof -
  have c': "(if length (ch_PreviousIds c) > 1 then c\<lparr>ch_PreviousIds := sort (ch_PreviousIds c)\<rparr> else c) = c'"
    by (simp add: c'_def ps_def sort_short)
  have id: "ch_Id c' = ch_Id c" "ch_SnapshotId c' = ch_SnapshotId c" "ch_PreviousIds c' = ps"
    by (simp_all add: c'_def)
  have snd: "snd (canAttachOrRemove c' True t) = fold (addToWait (ch_Id c)) (filter (\<lambda>p. p \<notin> atts t) ps) t"
    by (simp add: canAttachOrRemove_def Let_def isAttached_atts c'_def)
  have "t_mem (snd (canAttachOrRemove c' True t)) = t_mem t"
    unfolding snd by (subst fold_addToWait(2)) simp
  then have m: "snd (canAttachOrRemove c' True t)\<lparr>t_mem := mput (ch_Id c') c' (t_mem (snd (canAttachOrRemove c' True t)))\<rparr> = m"
    by (simp add: m_def snd id)
  have un: "t_unAttached m = t_unAttached t"
    unfolding m_def by (subst fold_addToWait(2)) simp
  note f = canAttach_iff[of c' True t]
  show "add L c t = (True, attach (ch_Id c) True m)" if "set ps \<subseteq> atts t" "ch_SnapshotId c \<in> atts t"
    unfolding add_def c' Let_def using m f that by (simp add: assms(1) split_beta id un)
  show "add L c t = (False, m\<lparr>t_unAttached := mput (ch_Id c) () (t_unAttached m)\<rparr>)" if "\<not> set ps \<subseteq> atts t"
    unfolding add_def c' Let_def using m f that by (simp add: assms(1) split_beta id un)
qed

lemma add_added:
  assumes b: "batch r A P S [] t" and s: "snapsInside A B P S" and B: "\<forall>u. isUnAttached t u \<longrightarrow> u \<in> B"
    and c: "goodCh P S c" "ch_Id c \<in> B" and new: "ch_Id c \<notin> atts t" "\<not> isUnAttached t (ch_Id c)"
  shows "added r A P S {ch_Id c} t (snd (add L c t))"
proof -
  let ?i = "ch_Id c"
  let ?c = "c\<lparr>ch_PreviousIds := P ?i\<rparr>"
  define ws where "ws = filter (\<lambda>p. p \<notin> atts t) (P ?i)"
  define m where "m = (fold (addToWait ?i) ws t)\<lparr>t_mem := mput ?i ?c (t_mem t)\<rparr>"
  have P: "sort (ch_PreviousIds c) = P ?i" "P ?i \<noteq> []" "distinct (P ?i)"
    using c(1) set_sort[of "\<lambda>x. x" "ch_PreviousIds c"] by (auto simp: goodCh_def simp del: set_sort)
  note add = add_some[OF graph_okD(1)[OF batchD(1)[OF b]], of c L, unfolded P(1), folded ws_def, folded m_def]
  have sel: "t_root m = t_root t" "t_attached m = t_attached t" "t_mem m = mput ?i ?c (t_mem t)"
    "t_headIds m = t_headIds t" "t_lastIteratedHeadId m = t_lastIteratedHeadId t" "t_addedBuf m = t_addedBuf t"
    "t_unAttached m = t_unAttached t"
    unfolding m_def by (subst fold_addToWait(2), simp)+
  have ch: "chOf m j = (if j = ?i then ?c else chOf t j)" "atts m = atts t" for j
    using sel by (simp_all add: chOf_def atts_def isAttached_def)
  have wait: "waitSet m p = waitSet t p \<union> (if p \<in> set (P ?i) - atts t then {?i} else {})" for p
    using fold_addToWait(1)[of ?i ws t p] by (simp add: m_def waitSet_def ws_def)
  have basic: "?i \<notin> atts t \<and> ch_Id ?c = ?i \<and> ch_Next ?c = []"
    using c new by (simp add: goodCh_def)
  show ?thesis
  proof (cases "set (P ?i) \<subseteq> atts t")
    case True
    have snap: "ch_SnapshotId c \<in> atts t"
      using batch_snapshot[OF b s c(2) True] c(1) by (simp add: goodCh_def)
    have m: "batch r A P S [] m" "grown r t m"
      using batch_fresh[OF b new, of m ?c False] sel wait by (auto simp: isUnAttached_def)
    have i: "attachable m ?i"
      using basic P True by (simp add: attachable_def ch nextOf_def)
    then have "?i \<notin> set (prevs m ?i)" "distinct (prevs m ?i)"
      by (auto simp: attachable_def)
    note at = attachOne_attaches[OF this, of True]
    have un: "isUnAttached (attachOne ?i True m) v \<longleftrightarrow> v \<noteq> ?i \<and> isUnAttached m v" for v
      using new by (auto simp: isUnAttached_def at(2) sel)
    have "batch r A P S (waiting ?i (attachOne ?i True m)) (attachOne ?i True m)"
      using batch_attach[OF m(1) i _ _ _ at(1) un] c(1) by (simp add: ch goodCh_def)
    then have "settled r A P S (attachOne ?i True m) (attach ?i True m)"
      unfolding attach_def by (rule attachRun_settles[OF _ s]) (use B un sel in \<open>auto simp: isUnAttached_def\<close>)
    moreover have "grown r t (attachOne ?i True m)"
      using grown_trans[OF m(2) attaches_grown[OF batchD(1)[OF m(1)] at(1) i]] .
    ultimately show ?thesis
      unfolding add(1)[OF True snap] added_def settled_def
      using grown_trans un attaches_atts[OF at(1)] by (auto simp: ch isUnAttached_cong[OF sel(7)])
  next
    case False
    let ?t = "m\<lparr>t_unAttached := mput ?i () (t_unAttached m)\<rparr>"
    have same: "chOf ?t j = chOf m j" "nextOf ?t j = nextOf m j" "atts ?t = atts t" "waitSet ?t j = waitSet m j" for j
      using ch by (simp_all add: chOf_def nextOf_def atts_def isAttached_def waitSet_def)
    have un: "isUnAttached ?t u \<longleftrightarrow> isUnAttached t u \<or> u = ?i \<and> True" for u
      by (auto simp: isUnAttached_def sel)
    have "waitsFor ?t [] ?i"
      unfolding waitsFor_def same wait using basic P False by (auto simp: ch nextOf_def)
    then have "batch r A P S [] ?t" "grown r t ?t"
      using batch_fresh[OF b new, of ?t ?c True, OF _ _ _ _ _ _ _ un] sel wait c(1) same by (auto simp: goodCh_def)
    then show ?thesis
      unfolding add(2)[OF False] added_def using un by (auto simp: same)
  qed
qed

lemma addLoop_added:
  assumes "batch r A P S [] t" and "snapsInside A B P S" and "\<forall>u. isUnAttached t u \<longrightarrow> u \<in> B"
    and "list_all (goodCh P S) cs" and "ch_Id ` set cs \<subseteq> B"
  shows "added r A P S (ch_Id ` set cs) t (snd (addLoop L cs t))"
  using assms
proof (induction cs arbitrary: t)
  case Nil
  then show ?case
    using grown_refl[OF batchD(1)[OF Nil(1)]] by (simp add: added_def)
next
  case (Cons c cs)
  show ?case
  proof (cases "isAttached t (ch_Id c) \<or> isUnAttached t (ch_Id c)")
    case True
    then have "added r A P S {ch_Id c} t t"
      using grown_refl[OF batchD(1)] Cons.prems(1) by (auto simp: added_def isAttached_atts)
    moreover have "added r A P S (ch_Id ` set cs) t (snd (addLoop L cs t))"
      using Cons by simp
    ultimately have "added r A P S ({ch_Id c} \<union> ch_Id ` set cs) t (snd (addLoop L cs t))"
      by (rule added_trans)
    then show ?thesis
      using True by (simp add: split_beta)
  next
    case False
    then have a: "added r A P S {ch_Id c} t (snd (add L c t))"
      using add_added[OF Cons.prems(1-3)] Cons.prems(4,5) by (simp add: isAttached_atts)
    have "\<forall>u. isUnAttached (snd (add L c t)) u \<longrightarrow> u \<in> B"
      using added_un[OF a] Cons.prems(3,5) by auto
    moreover have "batch r A P S [] (snd (add L c t))"
      using a by (simp add: added_def)
    ultimately have "added r A P S (ch_Id ` set cs) (snd (add L c t)) (snd (addLoop L cs (snd (add L c t))))"
      using Cons by simp
    from added_trans[OF a this] show ?thesis
      using False by (simp add: split_beta)
  qed
qed

end
