(* ===== verification/TreeHeads.thy ===== *)
theory TreeHeads
  imports TreeWait
begin

text \<open>
  Order ids: \<open>updateHeads\<close> gives every change an order id so that the ids increase along the iteration and
  the ids given before are kept. The generator of order ids is the package \<open>lexid\<close>; what is used of it
  is \<open>lexid_ok\<close>.
\<close>

section \<open>The generator of order ids\<close>

text \<open>
  On the strings that the generator makes (\<open>valid\<close>): \<open>Next\<close> is larger than its argument, \<open>NextBefore\<close> lies
  between its arguments, and no order id is the empty string.
\<close>

definition lexid_ok :: "lexid \<Rightarrow> (string \<Rightarrow> bool) \<Rightarrow> bool" where
  "lexid_ok L valid \<longleftrightarrow> \<not> valid [] \<and> valid (lx_Next L [])
     \<and> (\<forall>p. valid p \<longrightarrow> valid (lx_Next L p) \<and> p < lx_Next L p)
     \<and> (\<forall>p b. valid p \<and> valid b \<and> p < b \<longrightarrow>
          (\<exists>x. lx_NextBefore L p b = Some x \<and> valid x \<and> p < x \<and> x < b))"

abbreviation oid :: "Tree \<Rightarrow> string \<Rightarrow> string" where
  "oid t i \<equiv> ch_OrderId (chOf t i)"

section \<open>Filling order ids\<close>

text \<open>Only the order ids of the changes \<open>X\<close> differ, and only where there was none.\<close>

definition onlyIds :: "string set \<Rightarrow> Tree \<Rightarrow> Tree \<Rightarrow> bool" where
  "onlyIds X t t' \<longleftrightarrow> (\<exists>m. t' = t\<lparr>t_mem := m\<rparr>)
     \<and> (\<forall>j. (\<exists>o'. chOf t' j = (chOf t j)\<lparr>ch_OrderId := o'\<rparr>)
          \<and> (j \<notin> X \<or> oid t j \<noteq> [] \<longrightarrow> chOf t' j = chOf t j))"

lemma onlyIds_refl [simp]: "onlyIds X t t"
  unfolding onlyIds_def by (metis Change.surjective Change.update_convs(10) Tree.surjective Tree.update_convs(4))

lemma onlyIds_trans:
  assumes "onlyIds X t t1" and "onlyIds Y t1 t2"
  shows "onlyIds (X \<union> Y) t t2"
proof -
  have "\<exists>o'. chOf t2 j = (chOf t j)\<lparr>ch_OrderId := o'\<rparr>" for j
  proof -
    obtain o1 o2 where "chOf t1 j = (chOf t j)\<lparr>ch_OrderId := o1\<rparr>" "chOf t2 j = (chOf t1 j)\<lparr>ch_OrderId := o2\<rparr>"
      using assms unfolding onlyIds_def by blast
    then have "chOf t2 j = (chOf t j)\<lparr>ch_OrderId := o2\<rparr>"
      by simp
    then show ?thesis
      by blast
  qed
  moreover have "chOf t2 j = chOf t j" if "j \<notin> X \<union> Y \<or> oid t j \<noteq> []" for j
  proof -
    have "chOf t1 j = chOf t j"
      using assms(1) that unfolding onlyIds_def by blast
    moreover from this have "chOf t2 j = chOf t1 j"
      using assms(2) that unfolding onlyIds_def by (metis UnCI)
    ultimately show ?thesis
      by simp
  qed
  moreover have "\<exists>m. t2 = t\<lparr>t_mem := m\<rparr>"
  proof -
    obtain m1 m2 where "t1 = t\<lparr>t_mem := m1\<rparr>" "t2 = t1\<lparr>t_mem := m2\<rparr>"
      using assms unfolding onlyIds_def by blast
    then have "t2 = t\<lparr>t_mem := m2\<rparr>"
      by simp
    then show ?thesis
      by blast
  qed
  ultimately show ?thesis
    unfolding onlyIds_def by blast
qed

lemma onlyIds_one:
  assumes "oid t i = []"
  shows "onlyIds {i} t (updCh i (\<lambda>c. c\<lparr>ch_OrderId := o'\<rparr>) t)"
proof -
  have "\<exists>x. chOf (updCh i (\<lambda>c. c\<lparr>ch_OrderId := o'\<rparr>) t) j = (chOf t j)\<lparr>ch_OrderId := x\<rparr>" for j
    by (rule exI[of _ "if j = i then o' else oid t j"]) (simp add: chOf_updCh)
  moreover have "\<exists>m. updCh i (\<lambda>c. c\<lparr>ch_OrderId := o'\<rparr>) t = t\<lparr>t_mem := m\<rparr>"
    unfolding updCh_def by blast
  moreover have "chOf (updCh i (\<lambda>c. c\<lparr>ch_OrderId := o'\<rparr>) t) j = chOf t j" if "j \<notin> {i} \<or> oid t j \<noteq> []" for j
    using that assms by (auto simp: chOf_updCh)
  ultimately show ?thesis
    unfolding onlyIds_def by blast
qed

lemma onlyIds_eq: "onlyIds X t t' \<Longrightarrow> j \<notin> X \<or> oid t j \<noteq> [] \<Longrightarrow> chOf t' j = chOf t j"
  unfolding onlyIds_def by blast

lemma onlyIds_graph:
  assumes "onlyIds X t t'" and g: "graph_ok t r"
  shows "graph_ok t' r" and "atts t' = atts t" and "ord t' = ord t" and "nextOf t' j = nextOf t j"
    and "prevs t' j = prevs t j" and "ch_SnapshotId (chOf t' j) = ch_SnapshotId (chOf t j)"
proof -
  obtain m where t': "t' = t\<lparr>t_mem := m\<rparr>"
    using assms unfolding onlyIds_def by blast
  have ch: "nextOf t' j = nextOf t j" "prevs t' j = prevs t j" "ch_Id (chOf t' j) = ch_Id (chOf t j)"
    "ch_SnapshotId (chOf t' j) = ch_SnapshotId (chOf t j)" for j
  proof -
    obtain o' where "chOf t' j = (chOf t j)\<lparr>ch_OrderId := o'\<rparr>"
      using assms unfolding onlyIds_def by blast
    then show "nextOf t' j = nextOf t j" "prevs t' j = prevs t j" "ch_Id (chOf t' j) = ch_Id (chOf t j)"
      "ch_SnapshotId (chOf t' j) = ch_SnapshotId (chOf t j)"
      by (simp_all add: nextOf_def)
  qed
  show atts: "atts t' = atts t"
    by (simp add: t' atts_def isAttached_def)
  show "nextOf t' j = nextOf t j" "prevs t' j = prevs t j" "ch_SnapshotId (chOf t' j) = ch_SnapshotId (chOf t j)"
    by (fact ch)+
  show "graph_ok t' r"
    using graph_ok_cong[of t' t r] g ch atts by (simp add: t')
  show "ord t' = ord t"
    using ord_cong[OF g, of t'] ch(1) by (simp add: t')
qed

text \<open>The ids along a list, after a lower bound.\<close>

definition increasing :: "(string \<Rightarrow> bool) \<Rightarrow> Tree \<Rightarrow> string \<Rightarrow> string list \<Rightarrow> bool" where
  "increasing valid t prev xs \<longleftrightarrow> sorted_wrt (<) (prev # map (oid t) xs) \<and> (\<forall>i \<in> set xs. valid (oid t i))"

lemma increasing_Cons: "increasing valid t prev (i # xs) \<longleftrightarrow>
    valid (oid t i) \<and> prev < oid t i \<and> increasing valid t (oid t i) xs"
  unfolding increasing_def by (auto dest: order.strict_trans)

lemma increasing_Nil [simp]: "increasing valid t prev []"
  by (simp add: increasing_def)

lemma increasing_cong: "(\<And>i. i \<in> set xs \<Longrightarrow> oid t' i = oid t i) \<Longrightarrow> increasing valid t' prev xs = increasing valid t prev xs"
  by (induction xs arbitrary: prev) (simp_all add: increasing_Cons)

lemma fillNext_ids:
  assumes L: "lexid_ok L valid" and "valid prev" and "distinct xs" and "\<forall>i \<in> set xs. oid t i = []"
  shows "onlyIds (set xs) t (fillNext L prev xs t) \<and> increasing valid (fillNext L prev xs t) prev xs"
  using assms(2-)
proof (induction xs arbitrary: prev t)
  case (Cons i xs)
  let ?o = "lx_Next L prev"
  let ?t = "updCh i (\<lambda>c. c\<lparr>ch_OrderId := ?o\<rparr>) t"
  have o: "valid ?o" "prev < ?o"
    using L Cons.prems(1) by (auto simp: lexid_ok_def)
  have IH: "onlyIds (set xs) ?t (fillNext L ?o xs ?t)" "increasing valid (fillNext L ?o xs ?t) ?o xs"
    using Cons.IH[OF o(1), of ?t] Cons.prems by (auto simp: chOf_updCh)
  have "onlyIds ({i} \<union> set xs) t (fillNext L ?o xs ?t)"
    using onlyIds_trans[OF onlyIds_one IH(1)] Cons.prems by simp
  moreover have "oid (fillNext L ?o xs ?t) i = ?o"
    using onlyIds_eq[OF IH(1), of i] Cons.prems by (simp add: chOf_updCh)
  ultimately show ?case
    using IH o by (simp add: increasing_Cons)
qed simp

lemma fillBetween_ids:
  assumes L: "lexid_ok L valid" and "valid prev" "valid b" "prev < b" and "distinct xs" and "\<forall>i \<in> set xs. oid t i = []"
  shows "\<exists>t'. fillBetween L prev b xs t = Inr t' \<and> onlyIds (set xs) t t' \<and> increasing valid t' prev xs
    \<and> (\<forall>i \<in> set xs. oid t' i < b)"
  using assms(2-)
proof (induction xs arbitrary: prev t)
  case (Cons i xs)
  obtain o' where o: "lx_NextBefore L prev b = Some o'" "valid o'" "prev < o'" "o' < b"
    using L Cons.prems(1-3) unfolding lexid_ok_def by blast
  let ?t = "updCh i (\<lambda>c. c\<lparr>ch_OrderId := o'\<rparr>) t"
  have "distinct xs" "\<forall>j \<in> set xs. oid ?t j = []"
    using Cons.prems(4,5) by (auto simp: chOf_updCh)
  then obtain t' where t': "fillBetween L o' b xs ?t = Inr t'" "onlyIds (set xs) ?t t'" "increasing valid t' o' xs"
    "\<forall>i \<in> set xs. oid t' i < b"
    using Cons.IH[OF o(2) Cons.prems(2) o(4), of ?t] by blast
  have "onlyIds ({i} \<union> set xs) t t'"
    using onlyIds_trans[OF onlyIds_one t'(2)] Cons.prems by simp
  moreover have "oid t' i = o'"
    using onlyIds_eq[OF t'(2), of i] Cons.prems by (simp add: chOf_updCh)
  ultimately show ?case
    using t' o by (simp add: increasing_Cons)
qed simp

lemma increasing_append: "increasing valid t prev xs \<Longrightarrow> \<forall>j \<in> set xs. oid t j < oid t i \<Longrightarrow> prev < oid t i \<Longrightarrow>
    valid (oid t i) \<Longrightarrow> increasing valid t (oid t i) ys \<Longrightarrow> increasing valid t prev (xs @ i # ys)"
  by (induction xs arbitrary: prev) (simp_all add: increasing_Cons)

lemma orderLoop_ids:
  assumes L: "lexid_ok L valid" and "valid prev" and "distinct (gap @ is)" and "\<forall>i \<in> set gap. oid t i = []"
    and "increasing valid t prev (filter (\<lambda>i. oid t i \<noteq> []) is)"
  shows "\<exists>t'. orderLoop L prev gap is t = Inr t' \<and> onlyIds (set (gap @ is)) t t' \<and> increasing valid t' prev (gap @ is)"
  using assms(2-)
proof (induction "is" arbitrary: prev gap t)
  case Nil
  then show ?case
    using fillNext_ids[OF L] by simp
next
  case (Cons i "is")
  show ?case
  proof (cases "oid t i = []")
    case True
    then show ?thesis
      using Cons.IH[of prev "gap @ [i]" t] Cons.prems by simp
  next
    case False
    let ?o = "oid t i"
    have i: "valid ?o" "prev < ?o" and old: "increasing valid t ?o (filter (\<lambda>i. oid t i \<noteq> []) is)"
      using Cons.prems(4) False by (simp_all add: increasing_Cons)
    obtain t1 where t1: "fillBetween L prev ?o gap t = Inr t1" "onlyIds (set gap) t t1" "increasing valid t1 prev gap"
      "\<forall>j \<in> set gap. oid t1 j < ?o"
      using fillBetween_ids[OF L Cons.prems(1) i, of gap t] Cons.prems by auto
    have same': "oid t1 j = oid t j" if "j \<in> set (i # is)" for j
    proof -
      have "j \<notin> set gap"
        using that Cons.prems(2) by auto
      then show ?thesis
        using onlyIds_eq[OF t1(2), of j] by simp
    qed
    have "filter (\<lambda>i. oid t1 i \<noteq> []) is = filter (\<lambda>i. oid t i \<noteq> []) is"
      using same' by (auto intro: filter_cong)
    then have "increasing valid t1 ?o (filter (\<lambda>i. oid t1 i \<noteq> []) is)"
      using old increasing_cong[of "filter (\<lambda>i. oid t i \<noteq> []) is" t1 t] same' by simp
    then obtain t2 where t2: "orderLoop L ?o [] is t1 = Inr t2" "onlyIds (set is) t1 t2" "increasing valid t2 ?o is"
      using Cons.IH[OF i(1), of "[]" t1] Cons.prems(2) by auto
    have "orderLoop L prev gap (i # is) t = Inr t2"
      using False t1(1) t2(1) by simp
    moreover have "onlyIds (set (gap @ i # is)) t t2"
      using onlyIds_trans[OF onlyIds_trans[OF t1(2) t2(2)] onlyIds_refl[of "{i}"]] by (simp add: insert_commute Un_commute)
    moreover have keep: "oid t2 j = oid t1 j" if "j \<in> set (gap @ [i])" for j
    proof -
      have "j \<notin> set is"
        using that Cons.prems(2) by auto
      then show ?thesis
        using onlyIds_eq[OF t2(2), of j] by simp
    qed
    then have "increasing valid t2 prev gap" "oid t2 i = ?o" "\<forall>j \<in> set gap. oid t2 j < oid t2 i"
      using t1(3,4) increasing_cong[of gap t2 t1] same'[of i] by auto
    then have "increasing valid t2 prev (gap @ i # is)"
      using increasing_append[of valid t2 prev gap i "is"] i t2(3) by simp
    ultimately show ?thesis
      by blast
  qed
qed

section \<open>Heads\<close>

text \<open>A tree between two calls: every change has its order id, and the heads are those of the graph.\<close>

definition tree_ok :: "(string \<Rightarrow> bool) \<Rightarrow> Tree \<Rightarrow> string \<Rightarrow> bool" where
  "tree_ok valid t r \<longleftrightarrow> graph_ok t r \<and> valid (oid t r) \<and> increasing valid t (oid t r) (tl (ord t))
     \<and> t_headIds t = sort (filter (\<lambda>i. nextOf t i = []) (ord t)) \<and> t_lastIteratedHeadId t = last (ord t)
     \<and> t_unAttached t = []"

lemma ord_Cons:
  assumes "graph_ok t r"
  shows "ord t = r # tl (ord t)" and "nextOf t (last (ord t)) = []"
proof -
  show r: "ord t = r # tl (ord t)"
    using graph_sorts(5,6)[OF assms] by (cases "ord t") auto
  have "topo (nextOf t) (rev (ord t))" "rev (ord t) ! 0 = last (ord t)" "0 < length (rev (ord t))"
    using graph_sorts(5,7)[OF assms] by (auto simp: rev_nth last_conv_nth)
  then show "nextOf t (last (ord t)) = []"
    unfolding topo_def by (metis set_empty subset_empty take_0)
qed

lemma clearUnattached_same [simp]:
  "chOf (clearUnattached t) j = chOf t j" "nextOf (clearUnattached t) j = nextOf t j"
  "atts (clearUnattached t) = atts t" "graph_ok (clearUnattached t) r = graph_ok t r"
  "ord (clearUnattached t) = ord t"
proof -
  show ch: "chOf (clearUnattached t) j = chOf t j" "nextOf (clearUnattached t) j = nextOf t j"
    "atts (clearUnattached t) = atts t" for j
    by (simp_all add: clearUnattached_def atts_def isAttached_def chOf_def nextOf_def)
  have root: "t_root (clearUnattached t) = t_root t"
    by (simp add: clearUnattached_def)
  show "graph_ok (clearUnattached t) r = graph_ok t r"
    using graph_ok_cong[of "clearUnattached t" t r] ch root by simp
  have "nextOf (clearUnattached t) = nextOf t"
    using ch(2) by blast
  then show "ord (clearUnattached t) = ord t"
    by (simp add: ord_def iterateOrder_def makeIterBuffer_def topSort_def root split: option.split)
qed

lemma clearUnattached_sel [simp]:
  "t_headIds (clearUnattached t) = t_headIds t" "t_unAttached (clearUnattached t) = []"
  "t_lastIteratedHeadId (clearUnattached t) = t_lastIteratedHeadId t" "t_addedBuf (clearUnattached t) = t_addedBuf t"
  by (simp_all add: clearUnattached_def)

lemma last_filter: "xs \<noteq> [] \<Longrightarrow> Q (last xs) \<Longrightarrow> filter Q xs \<noteq> [] \<and> last (filter Q xs) = last xs"
  by (induction xs rule: rev_induct) auto

lemma updateHeads_ok:
  assumes L: "lexid_ok L valid" and g: "graph_ok t r" and r: "valid (oid t r)"
    and old: "increasing valid t (oid t r) (filter (\<lambda>i. oid t i \<noteq> []) (tl (ord t)))" and un: "t_unAttached t = u"
  shows "\<exists>t'. updateHeads L t = Some (Inr t') \<and> tree_ok valid (clearUnattached t') r \<and> atts t' = atts t \<and> ord t' = ord t
    \<and> t_addedBuf t' = t_addedBuf t \<and> (\<forall>j. nextOf t' j = nextOf t j \<and> prevs t' j = prevs t j
      \<and> ch_SnapshotId (chOf t' j) = ch_SnapshotId (chOf t j) \<and> (oid t j \<noteq> [] \<longrightarrow> oid t' j = oid t j))"
proof -
  let ?heads = "filter (\<lambda>i. nextOf t i = []) (ord t)"
  note o = ord_Cons[OF g]
  have "distinct (tl (ord t))"
    using graph_sorts(3)[OF g] by (rule distinct_tl)
  then obtain t1 where t1: "orderLoop L (oid t r) [] (tl (ord t)) t = Inr t1" "onlyIds (set (tl (ord t))) t t1"
    "increasing valid t1 (oid t r) (tl (ord t))"
    using orderLoop_ids[OF L r, of "[]" "tl (ord t)" t] old by auto
  note same = onlyIds_graph[OF t1(2) g]
  obtain m where m: "t1 = t\<lparr>t_mem := m\<rparr>"
    using t1(2) unfolding onlyIds_def by blast
  have keep: "oid t1 j = oid t j" if "oid t j \<noteq> []" for j
    using onlyIds_eq[OF t1(2), of j] that by simp
  define t2 where "t2 = t1\<lparr>t_headIds := sort ?heads, t_lastIteratedHeadId := last ?heads\<rparr>"
  have ch: "chOf t2 j = chOf t1 j" "nextOf t2 j = nextOf t1 j" "atts t2 = atts t1" for j
    by (simp_all add: t2_def chOf_def nextOf_def atts_def isAttached_def)
  have heads: "?heads \<noteq> []" "last ?heads = last (ord t)"
    using last_filter[of "ord t"] graph_sorts(5)[OF g] o(2) by auto
  have "updateHeads L t = Some (Inr t2)"
    using graph_sorts(2)[OF g] o(1) t1(1) heads(1) unfolding updateHeads_def t2_def
    by (auto simp: Let_def split: list.splits)
  moreover have "graph_ok t2 r" "ord t2 = ord t"
    using graph_ok_cong[of t2 t1 r] ord_cong[OF same(1), of t2] same ch by (simp_all add: t2_def)
  moreover have "valid (oid t r)" "oid t r \<noteq> []"
    using r L by (auto simp: lexid_ok_def)
  moreover have "increasing valid t2 (oid t2 r) (tl (ord t))"
    using t1(3) increasing_cong[of "tl (ord t)" t2 t1] ch(1) keep[of r] calculation(5) by simp
  moreover have inc: "increasing valid (clearUnattached t2) p xs = increasing valid t2 p xs" for p xs
    by (rule increasing_cong) simp
  moreover have "oid t2 r = oid t r"
    using ch(1) keep[OF calculation(5)] by simp
  moreover have "t_headIds (clearUnattached t2) = sort ?heads"
    "t_lastIteratedHeadId (clearUnattached t2) = last (ord t)" "t_unAttached (clearUnattached t2) = []"
    using heads(2) by (simp_all add: t2_def)
  moreover have "filter (\<lambda>i. nextOf (clearUnattached t2) i = []) (ord t) = ?heads"
    by (simp add: ch(2) same(4))
  ultimately have "tree_ok valid (clearUnattached t2) r"
    unfolding tree_ok_def inc by simp
  moreover have "t_addedBuf t2 = t_addedBuf t"
    by (simp add: t2_def m)
  ultimately show ?thesis
    using \<open>updateHeads L t = Some (Inr t2)\<close> \<open>ord t2 = ord t\<close> ch same keep by auto
qed

end
