(* ===== verification/TreeProperties.thy ===== *)
theory TreeProperties
  imports TreeHeads
begin

text \<open>
  The object tree as its callers see it: what \<open>Add\<close> returns, that a change once iterated keeps its place and its
  order id, that \<open>Append\<close> means appending, and that the order does not depend on how the changes came.
\<close>

section \<open>Batches\<close>

text \<open>The previous changes and the snapshot of the changes of a batch.\<close>

definition batchPrevs :: "Change list \<Rightarrow> string \<Rightarrow> string list" where
  "batchPrevs cs i = (case find (\<lambda>c. ch_Id c = i) cs of Some c \<Rightarrow> sort (ch_PreviousIds c) | None \<Rightarrow> [])"

definition batchSnap :: "Change list \<Rightarrow> string \<Rightarrow> string" where
  "batchSnap cs i = (case find (\<lambda>c. ch_Id c = i) cs of Some c \<Rightarrow> ch_SnapshotId c | None \<Rightarrow> [])"

text \<open>A batch of new changes, as they are unmarshalled: no links, no order id, no repeated previous change.\<close>

definition newChange :: "Change \<Rightarrow> bool" where
  "newChange c \<longleftrightarrow> ch_Next c = [] \<and> ch_OrderId c = [] \<and> ch_PreviousIds c \<noteq> [] \<and> distinct (ch_PreviousIds c)"

definition newBatch :: "string set \<Rightarrow> Change list \<Rightarrow> bool" where
  "newBatch A cs \<longleftrightarrow> distinct (map ch_Id cs) \<and> (\<forall>c \<in> set cs. newChange c)
     \<and> snapsInside A (ch_Id ` set cs) (batchPrevs cs) (batchSnap cs)"

text \<open>The changes that can be attached: all their previous changes are, or can be.\<close>

inductive_set attachClosure :: "string set \<Rightarrow> string set \<Rightarrow> (string \<Rightarrow> string list) \<Rightarrow> string set"
  for A B :: "string set" and P :: "string \<Rightarrow> string list" where
  there: "i \<in> A \<Longrightarrow> i \<in> attachClosure A B P"
| attach: "i \<in> B \<Longrightarrow> \<forall>p \<in> set (P i). p \<in> attachClosure A B P \<Longrightarrow> i \<in> attachClosure A B P"

lemma attachClosure_new: "i \<in> attachClosure A B P \<Longrightarrow> i \<notin> A \<Longrightarrow> i \<in> B"
  by (auto elim: attachClosure.cases)

lemma find_id:
  assumes "distinct (map ch_Id cs)" and "c \<in> set cs"
  shows "find (\<lambda>d. ch_Id d = ch_Id c) cs = Some c"
  using assms by (induction cs) auto

lemma batchPrevs_set:
  assumes "distinct (map ch_Id cs)" and "distinct (map ch_Id cs')" and "set cs = set cs'"
  shows "batchPrevs cs i = batchPrevs cs' i"
proof (cases "i \<in> ch_Id ` set cs")
  case True
  then obtain c where "c \<in> set cs" "i = ch_Id c"
    by blast
  then show ?thesis
    using find_id[of cs c] find_id[of cs' c] assms by (simp add: batchPrevs_def)
next
  case False
  then have "find (\<lambda>c. ch_Id c = i) cs = None" "find (\<lambda>c. ch_Id c = i) cs' = None"
    using assms(3) by (auto simp: find_None_iff)
  then show ?thesis
    by (simp add: batchPrevs_def)
qed

lemma newBatch_good: "newBatch A cs \<Longrightarrow> list_all (goodCh (batchPrevs cs) (batchSnap cs)) cs"
  by (auto simp: newBatch_def list_all_iff goodCh_def newChange_def batchPrevs_def batchSnap_def find_id)

lemma batch_closure:
  assumes b: "batch r A P S [] t" and all: "\<And>u. u \<in> atts t \<or> isUnAttached t u \<longleftrightarrow> u \<in> A \<or> u \<in> N"
  shows "atts t = attachClosure A N P"
proof
  obtain \<rho> where \<rho>: "\<forall>c \<in> atts t - {r}. \<forall>p \<in> set (prevs t c). \<rho> p < (\<rho> c :: nat)"
    using graph_ranked[OF batchD(1)[OF b]] by blast
  have "u \<in> attachClosure A N P" if "u \<in> atts t" for u
    using that
  proof (induction "\<rho> u" arbitrary: u rule: less_induct)
    case less
    show ?case
    proof (cases "u \<in> A")
      case False
      then have u: "u \<noteq> r" "u \<in> N" "prevs t u = P u"
        using batchD(3,5)[OF b] all[of u] less.prems by auto
      then have "set (P u) \<subseteq> atts t"
        using graph_okD(5)[OF batchD(1)[OF b] less.prems] by simp
      then show ?thesis
        using less \<rho> u by (intro attachClosure.attach) auto
    qed (rule attachClosure.there)
  qed
  then show "atts t \<subseteq> attachClosure A N P"
    by blast
  show "attachClosure A N P \<subseteq> atts t"
  proof
    fix u
    assume "u \<in> attachClosure A N P"
    then show "u \<in> atts t"
    proof induction
      case (there i)
      then show ?case
        using batchD(2)[OF b] by blast
    next
      case (attach i)
      then have "set (P i) \<subseteq> atts t" "i \<in> atts t \<or> isUnAttached t i"
        using all by auto
      then show ?case
        using batchD(4,6)[OF b, of i] by (auto simp: waitsFor_def)
    qed
  qed
qed

section \<open>The result of \<open>Add\<close>\<close>

lemma tree_okD:
  assumes "tree_ok valid t r"
  shows "graph_ok t r" and "valid (oid t r)" and "increasing valid t (oid t r) (tl (ord t))"
    and "i \<in> atts t \<Longrightarrow> valid (oid t i)" and "t_lastIteratedHeadId t = last (ord t)"
    and "t_headIds t = sort (filter (\<lambda>i. nextOf t i = []) (ord t))" and "\<not> isUnAttached t u"
proof -
  show g: "graph_ok t r" "valid (oid t r)" "increasing valid t (oid t r) (tl (ord t))"
    "t_lastIteratedHeadId t = last (ord t)" "t_headIds t = sort (filter (\<lambda>i. nextOf t i = []) (ord t))"
    "\<not> isUnAttached t u"
    using assms by (auto simp: tree_ok_def isUnAttached_def)
  have "set (ord t) = insert r (set (tl (ord t)))"
    by (subst ord_Cons(1)[OF g(1)]) simp
  then show "valid (oid t i)" if "i \<in> atts t"
    using that g graph_sorts(4)[OF g(1)] by (auto simp: increasing_def)
qed

text \<open>Before the heads are computed: the changes with an order id are those that were there.\<close>

lemma added_ids:
  assumes ok: "tree_ok valid t r" and L: "lexid_ok L valid" and b: "batch r (atts t) P S [] t1" and g: "grown r t t1"
  shows "filter (\<lambda>i. oid t1 i \<noteq> []) (tl (ord t1)) = tl (ord t)" and "valid (oid t1 r)"
    and "increasing valid t1 (oid t1 r) (filter (\<lambda>i. oid t1 i \<noteq> []) (tl (ord t1)))"
proof -
  note gt = tree_okD(1)[OF ok] and g1 = batchD(1)[OF b]
  have same: "oid t1 i = oid t i" if "i \<in> atts t" for i
    using g that by (simp add: grown_def)
  have iff: "oid t1 i \<noteq> [] \<longleftrightarrow> i \<in> atts t" if "i \<in> atts t1" for i
    using that same[of i] tree_okD(4)[OF ok, of i] batchD(5)[OF b, of i] L by (auto simp: lexid_ok_def)
  have "filter (\<lambda>i. oid t1 i \<noteq> []) (ord t1) = filter (\<lambda>i. i \<in> atts t) (ord t1)"
    using iff graph_sorts(4)[OF g1] by (intro filter_cong) auto
  then have "filter (\<lambda>i. oid t1 i \<noteq> []) (r # tl (ord t1)) = r # tl (ord t)"
    using g ord_Cons(1)[OF gt] ord_Cons(1)[OF g1] by (simp add: grown_def)
  then show fil: "filter (\<lambda>i. oid t1 i \<noteq> []) (tl (ord t1)) = tl (ord t)"
    using iff[of r] graph_okD(2)[OF g1] graph_okD(2)[OF gt] by simp
  have r: "oid t1 r = oid t r"
    using same graph_okD(2)[OF gt] by simp
  then show "valid (oid t1 r)"
    using tree_okD(2)[OF ok] by simp
  have "i \<in> atts t" if "i \<in> set (tl (ord t))" for i
    using that ord_Cons(1)[OF gt] graph_sorts(4)[OF gt] by (metis list.set_intros(2))
  then have "increasing valid t1 (oid t r) (tl (ord t)) = increasing valid t (oid t r) (tl (ord t))"
    using same by (intro increasing_cong) simp
  then show "increasing valid t1 (oid t1 r) (filter (\<lambda>i. oid t1 i \<noteq> []) (tl (ord t1)))"
    using tree_okD(3)[OF ok] by (simp add: fil r)
qed

text \<open>Nothing was attached: the tree is as it was.\<close>

lemma added_none:
  assumes ok: "tree_ok valid t r" and g: "grown r t t1" and none: "atts t1 = atts t"
  shows "tree_ok valid (clearUnattached t1) r" and "ord t1 = ord t"
proof -
  note gt = tree_okD(1)[OF ok]
  have g1: "graph_ok t1 r"
    using g by (simp add: grown_def)
  have same: "prevs t1 i = prevs t i" "oid t1 i = oid t i" if "i \<in> atts t" for i
    using g that by (simp_all add: grown_def)
  have "filter (\<lambda>x. x \<in> atts t) (ord t1) = ord t1"
    using graph_sorts(4)[OF g1] none by (auto simp: filter_id_conv)
  then show ord: "ord t1 = ord t"
    using g by (simp add: grown_def)
  have "kids t1 r i = kids t r i" for i
    using same none by (auto simp: kids_def)
  then have nx: "nextOf t1 i = nextOf t i" if "i \<in> atts t" for i
    using that graph_okD(3)[OF gt] graph_okD(3)[OF g1] none by simp
  have "filter (\<lambda>i. nextOf t1 i = []) (ord t) = filter (\<lambda>i. nextOf t i = []) (ord t)"
    using nx graph_sorts(4)[OF gt] by (intro filter_cong) auto
  moreover have "i \<in> atts t" if "i \<in> set (tl (ord t))" for i
    using that ord_Cons(1)[OF gt] graph_sorts(4)[OF gt] by (metis list.set_intros(2))
  then have "increasing valid (clearUnattached t1) (oid t r) (tl (ord t))"
    using tree_okD(3)[OF ok] increasing_cong[of "tl (ord t)" "clearUnattached t1" t] same by simp
  ultimately show "tree_ok valid (clearUnattached t1) r"
    using ok g g1 ord same(2)[OF graph_okD(2)[OF gt]]
    by (simp add: tree_ok_def grown_def)
qed

text \<open>
  The tree after \<open>Add\<close>, compared with the one before it: which changes are attached, and that those that were
  there keep their order and their order ids.
\<close>

definition extends :: "(string \<Rightarrow> bool) \<Rightarrow> string \<Rightarrow> Change list \<Rightarrow> Tree \<Rightarrow> Tree \<Rightarrow> bool" where
  "extends valid r cs t t' \<longleftrightarrow> tree_ok valid t' r
     \<and> atts t' = attachClosure (atts t) (ch_Id ` set cs) (batchPrevs cs)
     \<and> filter (\<lambda>x. x \<in> atts t) (ord t') = ord t
     \<and> (\<forall>i \<in> atts t. prevs t' i = prevs t i \<and> oid t' i = oid t i)
     \<and> (\<forall>i \<in> atts t' - atts t. prevs t' i = batchPrevs cs i)"

lemma addLoop_result:
  assumes ok: "tree_ok valid t r" and new: "newBatch (atts t) cs"
    and al: "addLoop L cs (t\<lparr>t_addedBuf := []\<rparr>) = (flags, t1)"
  shows "batch r (atts t) (batchPrevs cs) (batchSnap cs) [] t1" and "grown r (t\<lparr>t_addedBuf := []\<rparr>) t1"
    and "atts t1 = attachClosure (atts t) (ch_Id ` set cs) (batchPrevs cs)"
    and "set (t_addedBuf t1) = atts t1 - atts t" and "atts (t\<lparr>t_addedBuf := []\<rparr>) = atts t"
    and "ord (t\<lparr>t_addedBuf := []\<rparr>) = ord t" and "tree_ok valid (t\<lparr>t_addedBuf := []\<rparr>) r"
proof -
  let ?t = "t\<lparr>t_addedBuf := []\<rparr>"
  note gt = tree_okD(1)[OF ok]
  show atts: "atts ?t = atts t"
    by (simp add: atts_def isAttached_def)
  have ch: "chOf ?t i = chOf t i" "nextOf ?t i = nextOf t i" "isUnAttached ?t i = isUnAttached t i" for i
    by (simp_all add: chOf_def nextOf_def isUnAttached_def)
  have g: "graph_ok ?t r"
    using graph_ok_cong[of ?t t r] gt atts ch by simp
  show ord: "ord ?t = ord t"
    using ord_cong[OF gt, of ?t] ch by simp
  show "tree_ok valid ?t r"
    using ok g ord ch increasing_cong[of "tl (ord t)" ?t t] by (simp add: tree_ok_def)
  have b: "batch r (atts t) (batchPrevs cs) (batchSnap cs) [] ?t"
    using g tree_okD(7)[OF ok] graph_okD(2)[OF gt] atts ch by (simp add: batch_def)
  have "added r (atts t) (batchPrevs cs) (batchSnap cs) (ch_Id ` set cs) ?t (snd (addLoop L cs ?t))"
    by (rule addLoop_added[OF b])
      (use new newBatch_good[OF new] tree_okD(7)[OF ok] ch in \<open>auto simp: newBatch_def\<close>)
  then have a: "batch r (atts t) (batchPrevs cs) (batchSnap cs) [] t1" "grown r ?t t1"
    "u \<in> atts t1 \<or> isUnAttached t1 u \<longleftrightarrow> u \<in> atts t \<or> u \<in> ch_Id ` set cs" for u
    using tree_okD(7)[OF ok] by (simp_all add: added_def atts ch al)
  show "batch r (atts t) (batchPrevs cs) (batchSnap cs) [] t1" "grown r ?t t1"
    by (fact a)+
  show "atts t1 = attachClosure (atts t) (ch_Id ` set cs) (batchPrevs cs)"
    using batch_closure[OF a(1) a(3)] .
  show "set (t_addedBuf t1) = atts t1 - atts t"
    using a(2) by (auto simp: grown_def atts)
qed

text \<open>From the last head on: what the walk of \<open>Add\<close> sees.\<close>

definition follows :: "Tree \<Rightarrow> string \<Rightarrow> string set \<Rightarrow> bool" where
  "follows t l X \<longleftrightarrow> X \<subseteq> reach (nextOf t) l"

lemma length_addLoop: "length (fst (addLoop L cs t)) = length cs"
  by (induction cs arbitrary: t) (auto simp: split_beta)

lemma notVisited_none:
  assumes "\<not> list_ex (notVisited t vis) (zip cs flags)" and "length flags = length cs"
    and "c \<in> set cs" and "ch_Id c \<in> atts t"
  shows "ch_Id c \<in> set vis"
proof -
  obtain j where "j < length cs" "cs ! j = c"
    using assms(3) by (auto simp: in_set_conv_nth)
  then have "(c, flags ! j) \<in> set (zip cs flags)"
    using assms(2) by (auto simp: set_zip)
  then show ?thesis
    using assms(1,4) by (auto simp: list_ex_iff notVisited_def isAttached_atts)
qed

lemma append_follows:
  assumes "\<not> list_ex (notVisited t vis) (zip cs flags)" and "length flags = length cs"
    and "set vis = reach (nextOf t) l" and "atts t = attachClosure A (ch_Id ` set cs) P"
  shows "follows t l (atts t - A)"
proof -
  have "i \<in> set vis" if "i \<in> atts t - A" for i
  proof -
    have "i \<in> ch_Id ` set cs"
      using that attachClosure_new unfolding assms(4) by blast
    then show ?thesis
      using notVisited_none[OF assms(1,2)] that by auto
  qed
  then show ?thesis
    using assms(3) by (auto simp: follows_def)
qed

lemma Add_result:
  assumes L: "lexid_ok L valid" and ok: "tree_ok valid t r" and new: "newBatch (atts t) cs"
  shows "\<exists>mode buf t'. Add L cs t = Some (Inr ((mode, buf), t')) \<and> extends valid r cs t t'
    \<and> set buf = atts t' - atts t \<and> (mode = ModeNothing \<longleftrightarrow> buf = [])
    \<and> (mode = ModeAppend \<longrightarrow> follows t' (last (ord t)) (atts t' - atts t))"
proof -
  obtain flags t1 where al: "addLoop L cs (t\<lparr>t_addedBuf := []\<rparr>) = (flags, t1)"
    by (cases "addLoop L cs (t\<lparr>t_addedBuf := []\<rparr>)")
  note res = addLoop_result[OF ok new al]
  note b = res(1) and g = res(2) and g1 = batchD(1)[OF res(1)]
  have keep: "prevs t1 i = prevs t i \<and> oid t1 i = oid t i" if "i \<in> atts t" for i
    using g that by (auto simp: grown_def res(5) chOf_def)
  have fil: "filter (\<lambda>x. x \<in> atts t) (ord t1) = ord t"
    using g by (simp add: grown_def res(5,6))
  show ?thesis
  proof (cases "t_addedBuf t1 = []")
    case True
    then have none: "atts t1 = atts (t\<lparr>t_addedBuf := []\<rparr>)"
      using res(4,5) g by (auto simp: grown_def)
    note n = added_none[OF res(7) g none]
    have "Add L cs t = Some (Inr ((ModeNothing, []), clearUnattached t1))"
      using True by (simp add: Add_def al Let_def)
    moreover have "extends valid r cs t (clearUnattached t1)"
      unfolding extends_def using n(1) res(3) fil keep batchD(5)[OF b] by simp
    moreover have "atts (clearUnattached t1) - atts t = {}"
      using none res(5) by simp
    ultimately show ?thesis
      by (intro exI[of _ ModeNothing] exI[of _ "[]"] exI[of _ "clearUnattached t1"]) simp
  next
    case False
    have sub: "grown r (t\<lparr>t_addedBuf := []\<rparr>) t1" "batch r (atts (t\<lparr>t_addedBuf := []\<rparr>)) (batchPrevs cs) (batchSnap cs) [] t1"
      using g b res(5) by simp_all
    note ids = added_ids[OF res(7) L sub(2,1)]
    obtain t2 where t2: "updateHeads L t1 = Some (Inr t2)" "tree_ok valid (clearUnattached t2) r" "atts t2 = atts t1"
      "ord t2 = ord t1" "t_addedBuf t2 = t_addedBuf t1" "\<forall>j. nextOf t2 j = nextOf t1 j \<and> prevs t2 j = prevs t1 j
        \<and> (oid t1 j \<noteq> [] \<longrightarrow> oid t2 j = oid t1 j)"
      using updateHeads_ok[OF L g1 ids(2,3) refl] by blast
    let ?l = "last (ord t)"
    have "oid t2 i = oid t i" if "i \<in> atts t" for i
    proof -
      have "oid t1 i \<noteq> []"
        using keep[OF that] tree_okD(4)[OF ok that] L by (auto simp: lexid_ok_def)
      then show ?thesis
        using t2(6) keep[OF that] by simp
    qed
    then have ext: "extends valid r cs t (clearUnattached t2)"
      unfolding extends_def using t2 res(3) fil keep batchD(5)[OF b] by simp
    have g2: "graph_ok t2 r"
      using tree_okD(1)[OF t2(2)] by simp
    have "?l \<in> atts t2"
      using graph_sorts(4,5)[OF tree_okD(1)[OF ok]] g t2(3) by (auto simp: grown_def res(5))
    then obtain vis where vis: "dfsNext t2 [?l] = Some vis" "set vis = reach (nextOf t2) ?l"
      using dfsLoop_reach[OF graph_closed[OF g2]] by (auto simp: dfsNext_def)
    define mode where "mode = (if list_ex (notVisited t2 vis) (zip cs flags) then ModeRebuild else ModeAppend)"
    have "LenTree t \<noteq> 0"
      using graph_okD(2)[OF tree_okD(1)[OF ok]] by (auto simp: LenTree_def atts_def isAttached_def)
    then have "Add L cs t = Some (Inr ((mode, t_addedBuf t2), clearUnattached t2))"
      using False t2(1) vis(1) \<open>?l \<in> atts t2\<close> tree_okD(5)[OF ok]
      by (simp add: Add_def al Let_def isAttached_atts mode_def)
    moreover have "follows t2 ?l (atts t2 - atts t)" if "mode = ModeAppend"
    proof -
      have "\<not> list_ex (notVisited t2 vis) (zip cs flags)" "length flags = length cs"
        using that length_addLoop[of L cs "t\<lparr>t_addedBuf := []\<rparr>"] al by (auto simp: mode_def split: if_splits)
      then show ?thesis
        using append_follows vis(2) t2(3) res(3) by metis
    qed
    moreover have "mode \<noteq> ModeNothing"
      by (simp add: mode_def)
    ultimately show ?thesis
      using ext False t2(3,5) res(4) by (intro exI[of _ mode] exI[of _ "t_addedBuf t2"] exI[of _ "clearUnattached t2"])
        (simp add: follows_def reach_def)
  qed
qed

section \<open>The order\<close>

text \<open>The order depends only on the changes, not on how they came into the tree.\<close>

lemma same_graph:
  assumes g: "graph_ok t r" and g': "graph_ok t' r" and atts: "atts t' = atts t"
    and prevs: "\<And>i. i \<in> atts t - {r} \<Longrightarrow> set (prevs t' i) = set (prevs t i)"
  shows "ord t' = ord t" and "filter (\<lambda>i. nextOf t' i = []) (ord t') = filter (\<lambda>i. nextOf t i = []) (ord t)"
proof -
  have "kids t' r i = kids t r i" for i
    using prevs by (auto simp: kids_def atts)
  then have nx: "nextOf t' i = nextOf t i" if "i \<in> atts t" for i
    using that graph_okD(3)[OF g] graph_okD(3)[OF g'] atts by simp
  show ord: "ord t' = ord t"
    using ord_cong[OF g _ nx] graph_okD(1)[OF g] graph_okD(1)[OF g'] by simp
  show "filter (\<lambda>i. nextOf t' i = []) (ord t') = filter (\<lambda>i. nextOf t i = []) (ord t)"
    unfolding ord using nx graph_sorts(4)[OF g] by (intro filter_cong) auto
qed

lemma prevs_before:
  assumes g: "graph_ok t r" and j: "j < length (ord t)" "0 < j"
  shows "set (prevs t (ord t ! j)) \<subseteq> set (take j (ord t))"
proof
  fix p
  let ?xs = "ord t" and ?i = "ord t ! j"
  assume p: "p \<in> set (prevs t ?i)"
  have d: "distinct ?xs" and i: "?i \<in> atts t"
    using graph_sorts(3,4)[OF g] j(1) nth_mem[of j ?xs] by auto
  have "?i \<noteq> r"
    using d j graph_sorts(5,6)[OF g] by (metis hd_conv_nth length_greater_0_conv nth_eq_iff_index_eq less_numeral_extra(3))
  then have "p \<in> atts t" "?i \<in> set (nextOf t p)"
    using graph_okD(5)[OF g i] graph_okD(3)[OF g, of p] p i by (auto simp: kids_def)
  then obtain k where k: "k < length ?xs" "?xs ! k = p"
    using graph_sorts(4)[OF g] by (metis in_set_conv_nth)
  let ?m = "length ?xs - Suc k"
  have "rev ?xs ! ?m = p" "?m < length (rev ?xs)"
    using k by (simp_all add: rev_nth)
  then have "set (nextOf t p) \<subseteq> set (take ?m (rev ?xs))"
    using graph_sorts(7)[OF g] unfolding topo_def by metis
  then have "?i \<in> set (drop (Suc k) ?xs)"
    using \<open>?i \<in> set (nextOf t p)\<close> k by (auto simp: take_rev)
  then obtain q where "q < length ?xs - Suc k" "?xs ! (Suc k + q) = ?i"
    by (auto simp: in_set_conv_nth)
  then have "k < j"
    using d j nth_eq_iff_index_eq[OF d, of "Suc k + q" j] by auto
  then show "p \<in> set (take j ?xs)"
    using k j(1) by (auto simp: in_set_conv_nth intro!: exI[of _ k])
qed

text \<open>If every new element follows the last old one, the old ones are a prefix.\<close>

lemma filter_prefix:
  assumes "filter Q (a @ l # b) = ys" and "distinct (a @ l # b)" and "\<forall>x \<in> set a. Q x" and "last ys = l" and "Q l"
  shows "a @ l # b = ys @ b"
proof -
  have a: "filter Q a = a"
    using assms(3) by (simp add: filter_id_conv)
  then have ys: "ys = a @ l # filter Q b"
    using assms(1,5) by simp
  have "filter Q b = []"
  proof (rule ccontr)
    assume "filter Q b \<noteq> []"
    then have "last ys \<in> set b"
      using ys by (metis filter_is_subset last_ConsR last_appendR last_in_set list.distinct(1) subsetD)
    then show False
      using assms(2,4) by simp
  qed
  with ys show ?thesis
    by simp
qed

lemma topo_prefix: "topo nx (xs @ ys) \<Longrightarrow> topo nx xs"
  by (induction ys rule: rev_induct) (simp_all add: topo_snoc flip: append_assoc)

lemma follows_prefix:
  assumes g: "graph_ok t' r" and fil: "filter (\<lambda>x. x \<in> A) (ord t') = ys" and l: "last ys = l" "ys \<noteq> []"
    and f: "follows t' l (atts t' - A)"
  shows "\<exists>new. ord t' = ys @ new"
proof -
  have "l \<in> set (filter (\<lambda>x. x \<in> A) (ord t'))"
    using l fil last_in_set by metis
  then have "l \<in> set (ord t')" "l \<in> A"
    by auto
  then obtain a b where ab: "ord t' = a @ l # b"
    by (meson split_list)
  note d = graph_sorts(3)[OF g, unfolded ab]
  have cl: "set (nextOf t' v) \<subseteq> insert l (set b)" if "v \<in> insert l (set b)" for v
  proof -
    have "topo (nextOf t') ((rev b @ [l]) @ rev a)"
      using graph_sorts(7)[OF g] by (simp add: ab)
    then show ?thesis
      using topo_closed[OF topo_prefix, of "nextOf t'" "rev b @ [l]" "rev a" v] that by auto
  qed
  have "reach (nextOf t') l \<subseteq> insert l (set b)"
    by (rule reach_least) (use cl in auto)
  then have "x \<in> A" if "x \<in> set a" for x
    using f d that graph_sorts(4)[OF g] ab unfolding follows_def by auto
  then show ?thesis
    using filter_prefix[of "\<lambda>x. x \<in> A" a l b ys] fil d l \<open>l \<in> A\<close> ab by auto
qed

section \<open>A new tree\<close>

text \<open>The tree that \<open>Add\<close> makes of its first change.\<close>

definition rootTree :: "lexid \<Rightarrow> Change \<Rightarrow> Tree" where
  "rootTree L c = emptyTree\<lparr>t_root := Some (ch_Id c), t_headIds := [ch_Id c], t_lastIteratedHeadId := ch_Id c,
     t_mem := [(ch_Id c, c\<lparr>ch_OrderId := lx_Next L []\<rparr>)], t_attached := [(ch_Id c, ())], t_addedBuf := [ch_Id c]\<rparr>"

lemma rootTree_nextOf: "ch_Next c = [] \<Longrightarrow> nextOf (rootTree L c) i = []"
  by (simp add: nextOf_def chOf_def rootTree_def nilChange_def)

lemma rootTree_order:
  assumes "nextOf t i = []" and "t_root t = Some i"
  shows "iterateOrder t (t_root t) = Some [i]" and "ord t = [i]"
proof -
  have "topSortLoop (nextOf t) [i] [] [] [] = Some [i]"
    using assms by (simp add: topSortLoop.simps)
  then show "iterateOrder t (t_root t) = Some [i]" "ord t = [i]"
    using assms by (simp_all add: ord_def iterateOrder_def makeIterBuffer_def topSort_def)
qed

lemma rootTree_ok:
  assumes "lexid_ok L valid" and "ch_Next c = []"
  shows "tree_ok valid (rootTree L c) (ch_Id c)" and "atts (rootTree L c) = {ch_Id c}"
    and "ord (rootTree L c) = [ch_Id c]"
proof -
  let ?t = "rootTree L c"
  have root: "t_root ?t = Some (ch_Id c)"
    by (simp add: rootTree_def)
  show atts: "atts ?t = {ch_Id c}"
    by (auto simp: atts_def isAttached_def rootTree_def)
  show ord: "ord ?t = [ch_Id c]"
    using rootTree_order(2)[OF rootTree_nextOf[OF assms(2)] root] .
  have "kids ?t (ch_Id c) i = {}" for i
    by (auto simp: kids_def atts)
  then have "graph_ok ?t (ch_Id c)"
    using rootTree_nextOf[OF assms(2)] atts by (simp add: graph_ok_def root) (simp add: chOf_def rootTree_def)
  moreover have "oid ?t (ch_Id c) = lx_Next L []"
    by (simp add: chOf_def rootTree_def)
  ultimately show "tree_ok valid ?t (ch_Id c)"
    using assms rootTree_nextOf[OF assms(2)] ord by (simp add: tree_ok_def lexid_ok_def)
      (simp add: rootTree_def emptyTree_def)
qed

lemma Add_root:
  assumes "ch_Next c = []" and "ch_OrderId c = []"
  shows "Add L [c] emptyTree = Some (Inr ((ModeRebuild, [ch_Id c]), rootTree L c))"
proof -
  let ?t = "(rootTree L c)\<lparr>t_headIds := []\<rparr>"
  have al: "addLoop L [c] (emptyTree\<lparr>t_addedBuf := []\<rparr>) = ([True], ?t)"
    using assms by (simp add: add_def emptyTree_def isAttached_def isUnAttached_def rootTree_def)
  have nx: "nextOf ?t (ch_Id c) = []" "t_root ?t = Some (ch_Id c)"
    using rootTree_nextOf[OF assms(1), of L "ch_Id c"] by (simp_all add: nextOf_def chOf_def rootTree_def)
  have "updateHeads L ?t = Some (Inr (rootTree L c))"
    unfolding updateHeads_def rootTree_order(1)[OF nx] using nx(1) by (simp add: Let_def rootTree_def emptyTree_def)
  then show ?thesis
    unfolding Add_def al by (simp add: LenTree_def emptyTree_def Let_def) (simp add: rootTree_def emptyTree_def clearUnattached_def)
qed

section \<open>A generator of order ids\<close>

text \<open>Order ids over two letters that end in the larger one.\<close>

definition sampleLexid :: lexid where
  "sampleLexid = \<lparr>lx_Next = \<lambda>p. p @ ''B'',
     lx_NextBefore = \<lambda>p b. Some (p @ replicate (length b) (CHR ''A'') @ ''B'')\<rparr>"

definition sampleValid :: "string \<Rightarrow> bool" where
  "sampleValid s \<longleftrightarrow> s \<noteq> [] \<and> set s \<subseteq> {CHR ''A'', CHR ''B''} \<and> last s = CHR ''B''"

lemma AB_less: "CHR ''A'' < CHR ''B''"
  by (simp add: less_char_def)

lemma below_valid:
  assumes "b \<noteq> []" and "set b \<subseteq> {CHR ''A'', CHR ''B''}" and "last b = CHR ''B''" and "length b \<le> n"
  shows "replicate n (CHR ''A'') @ ''B'' < b"
  using assms
proof (induction b arbitrary: n)
  case (Cons x b)
  then obtain m where n: "n = Suc m" "length b \<le> m"
    by (cases n) auto
  show ?case
  proof (cases "x = CHR ''B''")
    case True
    then show ?thesis
      using AB_less n by simp
  next
    case False
    then have "b \<noteq> []" "x = CHR ''A''"
      using Cons.prems by (cases b; auto)+
    then show ?thesis
      using Cons.IH[of m] Cons.prems n by simp
  qed
qed simp

lemma between_valid:
  assumes "p < b" and "b \<noteq> []" and "set b \<subseteq> {CHR ''A'', CHR ''B''}" and "last b = CHR ''B''" and "length b \<le> n"
  shows "p @ replicate n (CHR ''A'') @ ''B'' < b"
  using assms
proof (induction p arbitrary: b)
  case Nil
  then show ?case
    using below_valid by simp
next
  case (Cons x p)
  then obtain y b' where b: "b = y # b'"
    by (cases b) auto
  show ?case
  proof (cases "x < y")
    case False
    then have "x = y" "p < b'"
      using Cons.prems(1) b by auto
    moreover from this have "b' \<noteq> []"
      by auto
    ultimately show ?thesis
      using Cons.IH[of b'] Cons.prems b by simp
  qed (simp add: b)
qed

lemma less_append: "s \<noteq> [] \<Longrightarrow> (p :: string) < p @ s"
  by (induction p) (cases s; simp)+

lemma sampleLexid_ok: "lexid_ok sampleLexid sampleValid"
  unfolding lexid_ok_def sampleLexid_def sampleValid_def
  using between_valid less_append by auto

section \<open>Properties\<close>

definition sampleChange :: "string \<Rightarrow> string list \<Rightarrow> Change" where
  "sampleChange i ps = nilChange\<lparr>ch_Id := i, ch_PreviousIds := ps, ch_SnapshotId := ''r''\<rparr>"

lemma returned: "map_option (map_sum id fst) x = Some (Inr a) \<Longrightarrow> \<exists>t. x = Some (Inr (a, t))"
  by (cases x; cases "the x") auto

definition sampleTree :: Tree where
  "sampleTree = rootTree sampleLexid (sampleChange ''r'' [])"

definition sampleBatch :: "Change list" where
  "sampleBatch = [sampleChange ''c'' [''b'', ''a''], sampleChange ''a'' [''r''], sampleChange ''b'' [''r'']]"

lemma sampleTree_ok: "tree_ok sampleValid sampleTree ''r''" "atts sampleTree = {''r''}" "ord sampleTree = [''r'']"
  using rootTree_ok[OF sampleLexid_ok, of "sampleChange ''r'' []"]
  by (simp_all add: sampleTree_def sampleChange_def nilChange_def)

lemma sampleBatch_new: "newBatch {''r''} sampleBatch" "newBatch {''r''} (rev sampleBatch)"
  "newBatch {''r''} [sampleChange ''a'' [''r'']]"
  by (auto simp: newBatch_def sampleBatch_def sampleChange_def nilChange_def newChange_def snapsInside_def batchSnap_def)

text \<open>
  C8. The iteration of a well-formed tree ends and visits every attached change exactly once, the root first and
  every change after all its previous changes, and the order ids increase along it.\<close>

theorem iterate_topological:
  assumes "tree_ok valid t r"
  shows "\<exists>xs. iterateOrder t (t_root t) = Some xs \<and> distinct xs \<and> set xs = {i. isAttached t i} \<and> xs ! 0 = r
    \<and> (\<forall>j. 0 < j \<and> j < length xs \<longrightarrow> set (ch_PreviousIds (chOf t (xs ! j))) \<subseteq> set (take j xs))
    \<and> sorted_wrt (<) (map (\<lambda>i. ch_OrderId (chOf t i)) xs)"
proof -
  note g = tree_okD(1)[OF assms]
  have "sorted_wrt (<) (map (oid t) (r # tl (ord t)))"
    using tree_okD(3)[OF assms] by (simp add: increasing_def)
  then have "sorted_wrt (<) (map (oid t) (ord t))"
    by (subst ord_Cons(1)[OF g])
  moreover have "ord t ! 0 = r"
    by (subst ord_Cons(1)[OF g]) simp
  ultimately show ?thesis
    using graph_sorts(2-4)[OF g] prevs_before[OF g] by (auto simp: atts_def)
qed

theorem iterate_topological_witness:
  "iterateOrder sampleTree (t_root sampleTree) = Some [''r'']
    \<and> (\<exists>xs. iterateOrder sampleTree (t_root sampleTree) = Some xs \<and> set xs = {i. isAttached sampleTree i})"
  using iterate_topological[OF sampleTree_ok(1)] graph_sorts(2)[OF tree_okD(1)[OF sampleTree_ok(1)]] sampleTree_ok(3)
  by auto

text \<open>
  C5. Adding a batch to a well-formed tree returns, keeps the tree well-formed, and attaches exactly the changes
  whose previous changes are in the tree or can be attached themselves, in whatever order the batch lists
  them; the result names exactly the changes that were attached. The batch is as it is unmarshalled: distinct ids, no
  links or order ids, and the snapshot of a change is one that the tree or the batch has before it.\<close>

theorem Add_attaches:
  assumes "lexid_ok L valid" and "tree_ok valid t r" and "newBatch {i. isAttached t i} cs"
  shows "\<exists>mode added t'. Add L cs t = Some (Inr ((mode, added), t')) \<and> tree_ok valid t' r
    \<and> {i. isAttached t' i} = attachClosure {i. isAttached t i} (ch_Id ` set cs) (batchPrevs cs)
    \<and> set added = {i. isAttached t' i} - {i. isAttached t i} \<and> (mode = ModeNothing \<longleftrightarrow> added = [])"
  using Add_result[OF assms(1,2), of cs] assms(3) unfolding extends_def atts_def by metis

theorem Add_attaches_witness:
  "\<exists>mode added t'. Add sampleLexid sampleBatch sampleTree = Some (Inr ((mode, added), t')) \<and> tree_ok sampleValid t' ''r''
    \<and> {i. isAttached t' i} = attachClosure {''r''} (ch_Id ` set sampleBatch) (batchPrevs sampleBatch)"
  using Add_attaches[OF sampleLexid_ok sampleTree_ok(1), of sampleBatch] sampleBatch_new(1) sampleTree_ok(2)
  unfolding atts_def by metis

text \<open>
  C6. Adding changes never reorders the changes that were there: without the new changes the new iteration is the
  old one, and every old change keeps its order id.\<close>

theorem Add_keeps_order:
  assumes "lexid_ok L valid" and "tree_ok valid t r" and "newBatch {i. isAttached t i} cs"
    and "Add L cs t = Some (Inr (res, t'))"
  shows "\<exists>xs xs'. iterateOrder t (t_root t) = Some xs \<and> iterateOrder t' (t_root t') = Some xs'
    \<and> filter (isAttached t) xs' = xs \<and> (\<forall>i. isAttached t i \<longrightarrow> ch_OrderId (chOf t' i) = ch_OrderId (chOf t i))"
proof -
  have e: "extends valid r cs t t'"
    using Add_result[OF assms(1,2), of cs] assms(3,4) unfolding atts_def by auto
  then have "graph_ok t' r"
    by (simp add: extends_def tree_ok_def)
  with e show ?thesis
    using graph_sorts(2)[OF tree_okD(1)[OF assms(2)]] graph_sorts(2)[of t' r] by (simp add: extends_def atts_def)
qed

theorem Add_keeps_order_witness:
  "\<exists>res t' xs'. Add sampleLexid sampleBatch sampleTree = Some (Inr (res, t')) \<and> iterateOrder t' (t_root t') = Some xs'
    \<and> filter (isAttached sampleTree) xs' = [''r'']"
proof -
  note new = sampleBatch_new(1)[folded sampleTree_ok(2), unfolded atts_def]
  obtain res t' where r: "Add sampleLexid sampleBatch sampleTree = Some (Inr (res, t'))"
    using Add_result[OF sampleLexid_ok sampleTree_ok(1), of sampleBatch] sampleBatch_new(1) sampleTree_ok(2) by auto
  show ?thesis
    using Add_keeps_order[OF sampleLexid_ok sampleTree_ok(1) new r] r
      graph_sorts(2)[OF tree_okD(1)[OF sampleTree_ok(1)]] sampleTree_ok(3) by auto
qed

text \<open>
  C7. When \<open>Add\<close> answers \<open>Append\<close>, the new iteration is the old one followed by the changes it returned, and an
  iteration that starts at the head that was iterated last passes that head and then exactly those.\<close>

theorem Add_append:
  assumes "lexid_ok L valid" and "tree_ok valid t r" and "newBatch {i. isAttached t i} cs"
    and "Add L cs t = Some (Inr ((ModeAppend, buf), t'))"
  shows "\<exists>xs new. iterateOrder t (t_root t) = Some xs \<and> iterateOrder t' (t_root t') = Some (xs @ new)
    \<and> set new = set buf \<and> iterateSkip t' (t_lastIteratedHeadId t) = Some (t_lastIteratedHeadId t # new)"
proof -
  have e: "extends valid r cs t t'" "set buf = atts t' - atts t" "follows t' (last (ord t)) (atts t' - atts t)"
    using Add_result[OF assms(1,2), of cs] assms(3,4) unfolding atts_def by auto
  note g = tree_okD(1)[OF assms(2)] and l = tree_okD(5)[OF assms(2)]
  have g': "graph_ok t' r" and fil: "filter (\<lambda>x. x \<in> atts t) (ord t') = ord t"
    using e(1) by (simp_all add: extends_def tree_ok_def)
  obtain new where new: "ord t' = ord t @ new"
    using follows_prefix[OF g' fil refl graph_sorts(5)[OF g] e(3)] by blast
  then have "set new = set buf"
    using graph_sorts(3,4)[OF g'] graph_sorts(4)[OF g] e(2) by auto
  moreover have "dropWhile (\<lambda>c. c \<noteq> last (ord t)) (ord t @ new) = last (ord t) # new"
  proof -
    have b: "ord t = butlast (ord t) @ [last (ord t)]"
      using graph_sorts(5)[OF g] by simp
    then have "last (ord t) \<notin> set (butlast (ord t))"
      using graph_sorts(3)[OF g] by (metis distinct_append disjoint_iff list.set_intros(1))
    then have "dropWhile (\<lambda>c. c \<noteq> last (ord t)) ((butlast (ord t) @ [last (ord t)]) @ new) = last (ord t) # new"
      by (simp add: dropWhile_append3 dropWhile_append)
    then show ?thesis
      by (simp flip: b)
  qed
  ultimately show ?thesis
    using graph_sorts(2)[OF g] graph_sorts(2)[OF g'] new l by (auto simp: iterateSkip_def)
qed

theorem Add_append_witness:
  "\<exists>t' new. Add sampleLexid [sampleChange ''a'' [''r'']] sampleTree = Some (Inr ((ModeAppend, [''a'']), t'))
    \<and> iterateSkip t' (t_lastIteratedHeadId sampleTree) = Some (t_lastIteratedHeadId sampleTree # new) \<and> set new = {''a''}"
proof -
  have "map_option (map_sum id fst) (Add sampleLexid [sampleChange ''a'' [''r'']] sampleTree)
      = Some (Inr (ModeAppend, [''a'']))"
    by code_simp
  from returned[OF this]
  obtain t' where run: "Add sampleLexid [sampleChange ''a'' [''r'']] sampleTree = Some (Inr ((ModeAppend, [''a'']), t'))" ..
  note new = sampleBatch_new(3)[folded sampleTree_ok(2), unfolded atts_def]
  show ?thesis
    using Add_append[OF sampleLexid_ok sampleTree_ok(1) new run] run by auto
qed

text \<open>
  C4. Two replicas whose trees hold the same changes and that receive the same new changes, each in its own order
  and with its own generator of order ids, hold the same changes again, iterate them in the same order and
  have the same heads.\<close>

theorem Add_converges:
  assumes "lexid_ok L1 valid1" and "lexid_ok L2 valid2" and "tree_ok valid1 t1 r" and "tree_ok valid2 t2 r"
    and same: "\<forall>i. isAttached t1 i = isAttached t2 i"
      "\<forall>i. isAttached t1 i \<and> i \<noteq> r \<longrightarrow> ch_PreviousIds (chOf t1 i) = ch_PreviousIds (chOf t2 i)"
    and new: "newBatch {i. isAttached t1 i} cs1" "newBatch {i. isAttached t2 i} cs2" "set cs1 = set cs2"
  shows "\<exists>res1 res2 t1' t2'. Add L1 cs1 t1 = Some (Inr (res1, t1')) \<and> Add L2 cs2 t2 = Some (Inr (res2, t2'))
    \<and> (\<forall>i. isAttached t1' i = isAttached t2' i)
    \<and> iterateOrder t1' (t_root t1') = iterateOrder t2' (t_root t2') \<and> t_headIds t1' = t_headIds t2'"
proof -
  have atts: "atts t1 = atts t2"
    using same(1) by (simp add: atts_def)
  obtain m1 b1 t1' where r1: "Add L1 cs1 t1 = Some (Inr ((m1, b1), t1'))" "extends valid1 r cs1 t1 t1'"
    using Add_result[OF assms(1,3), of cs1] new(1) unfolding atts_def by blast
  obtain m2 b2 t2' where r2: "Add L2 cs2 t2 = Some (Inr ((m2, b2), t2'))" "extends valid2 r cs2 t2 t2'"
    using Add_result[OF assms(2,4), of cs2] new(2) unfolding atts_def by blast
  have bp: "batchPrevs cs1 i = batchPrevs cs2 i" for i
    using batchPrevs_set[of cs1 cs2 i] new by (simp add: newBatch_def)
  then have atts': "atts t2' = atts t1'"
    using r1(2) r2(2) atts new(3) by (simp add: extends_def bp[abs_def] ext)
  have "prevs t2' i = prevs t1' i" if "i \<in> atts t1' - {r}" for i
  proof (cases "i \<in> atts t1")
    case True
    then show ?thesis
      using r1(2) r2(2) atts same(2) that by (auto simp: extends_def isAttached_atts)
  next
    case False
    then show ?thesis
      using r1(2) r2(2) atts atts' that bp by (auto simp: extends_def)
  qed
  note ord = same_graph[OF _ _ atts' arg_cong[where f = set, OF this], of r]
  have ok: "tree_ok valid1 t1' r" "tree_ok valid2 t2' r"
    using r1(2) r2(2) by (simp_all add: extends_def)
  note g = tree_okD(1)[OF ok(1)] tree_okD(1)[OF ok(2)]
  have "ord t2' = ord t1'" "t_headIds t2' = t_headIds t1'"
    using ord[OF g] tree_okD(6)[OF ok(1)] tree_okD(6)[OF ok(2)] by simp_all
  then show ?thesis
    using r1(1) r2(1) graph_sorts(2)[OF g(1)] graph_sorts(2)[OF g(2)] atts' by (auto simp: atts_def set_eq_iff)
qed

theorem Add_converges_witness:
  "\<exists>res1 res2 t1' t2'. Add sampleLexid sampleBatch sampleTree = Some (Inr (res1, t1'))
    \<and> Add sampleLexid (rev sampleBatch) sampleTree = Some (Inr (res2, t2'))
    \<and> iterateOrder t1' (t_root t1') = iterateOrder t2' (t_root t2') \<and> t_headIds t1' = t_headIds t2'"
proof -
  note new = sampleBatch_new[folded sampleTree_ok(2), unfolded atts_def]
  show ?thesis
    using Add_converges[OF sampleLexid_ok sampleLexid_ok sampleTree_ok(1) sampleTree_ok(1) _ _ new(1,2)] by auto
qed

end
