(* ===== verification/PubTopic.thy ===== *)
theory PubTopic
  imports Prelude
begin

text \<open>
  Topics and subscription patterns of the pubsub service (\<open>commonspace/pubsub/topic.go\<close>).
\<close>

datatype pubsub_error = ErrUnexpected | ErrNotAMember | ErrNotResponsible | ErrRateLimited | ErrTooManyTopics
  | ErrInvalidMessage | ErrTopicNotOwned | ErrInvalidTopic | ErrCrypto

definition maxTopicLen :: nat where
  "maxTopicLen = 256"

definition maxSegments :: nat where
  "maxSegments = 16"

abbreviation slash :: char where
  "slash \<equiv> CHR ''/''"

abbreviation wildcardOne :: string where
  "wildcardOne \<equiv> ''*''"

abbreviation wildcardTail :: string where
  "wildcardTail \<equiv> ''>''"

abbreviation accNamespace :: string where
  "accNamespace \<equiv> ''acc''"

section \<open>Splitting\<close>

definition IndexByte :: "string \<Rightarrow> char \<Rightarrow> nat option" where
  "IndexByte s c = (let idx = length (takeWhile (\<lambda>x. x \<noteq> c) s) in if idx < length s then Some idx else None)"

text \<open>The loop with \<open>n\<close> segments to go; when none is left, the rest is one more segment.\<close>

fun splitFrom :: "nat \<Rightarrow> string \<Rightarrow> string list" where
  "splitFrom 0 rest = [rest]"
| "splitFrom (Suc n) rest =
     (case IndexByte rest slash of
        None \<Rightarrow> [rest]
      | Some idx \<Rightarrow> take idx rest # splitFrom n (drop (idx + 1) rest))"

definition splitTopic :: "string \<Rightarrow> string list" where
  "splitTopic topic = splitFrom maxSegments topic"

section \<open>Validation\<close>

definition ContainsAny :: "string \<Rightarrow> string \<Rightarrow> bool" where
  "ContainsAny s chars \<longleftrightarrow> list_ex (\<lambda>c. c \<in> set chars) s"

definition validateSegments :: "string \<Rightarrow> string list \<Rightarrow> pubsub_error option" where
  "validateSegments topic segs =
     (if length topic = 0 \<or> length topic > maxTopicLen then Some ErrInvalidTopic
      else if length segs > maxSegments then Some ErrInvalidTopic
      else first_err (\<lambda>s. if s = [] then Some ErrInvalidTopic else None) segs)"

definition ValidateTopic :: "string \<Rightarrow> pubsub_error option" where
  "ValidateTopic topic =
     (let segs = splitTopic topic
      in case validateSegments topic segs of
           Some e \<Rightarrow> Some e
         | None \<Rightarrow> first_err (\<lambda>s. if ContainsAny s ''*>'' then Some ErrInvalidTopic else None) segs)"

definition patternSegErr :: "nat \<Rightarrow> nat \<times> string \<Rightarrow> pubsub_error option" where
  "patternSegErr n = (\<lambda>(i, s).
     if s = wildcardOne then None
     else if s = wildcardTail then (if Suc i \<noteq> n then Some ErrInvalidTopic else None)
     else if ContainsAny s ''*>'' then Some ErrInvalidTopic else None)"

definition ValidatePattern :: "string \<Rightarrow> pubsub_error option" where
  "ValidatePattern pattern =
     (let segs = splitTopic pattern
      in case validateSegments pattern segs of
           Some e \<Rightarrow> Some e
         | None \<Rightarrow> first_err (patternSegErr (length segs)) (enumerate 0 segs))"

definition validateSpaceId :: "string \<Rightarrow> pubsub_error option" where
  "validateSpaceId spaceId =
     (if spaceId = [] \<or> IndexByte spaceId slash \<noteq> None then Some ErrInvalidTopic else None)"

text \<open>The account that alone may publish to the topic; the empty string if there is none.\<close>

definition TopicOwner :: "string \<Rightarrow> string" where
  "TopicOwner topic =
     (let segs = splitTopic topic
      in if length segs < 2 \<or> segs ! 0 \<noteq> accNamespace then [] else segs ! (length segs - 1))"

section \<open>Segments and topics\<close>

fun joinSegs :: "string list \<Rightarrow> string" where
  "joinSegs [] = []"
| "joinSegs [s] = s"
| "joinSegs (s # t # ss) = s @ slash # joinSegs (t # ss)"

lemma joinSegs_Cons: "ss \<noteq> [] \<Longrightarrow> joinSegs (s # ss) = s @ slash # joinSegs ss"
  by (cases ss) auto

lemma takeWhile_short: "length (takeWhile P xs) < length xs \<Longrightarrow> \<exists>y ys. xs = takeWhile P xs @ y # ys \<and> \<not> P y"
  by (induction xs) auto

lemma IndexByte_Some:
  "IndexByte s c = Some i \<longleftrightarrow> i < length s \<and> c \<notin> set (take i s) \<and> s ! i = c"
proof
  assume "IndexByte s c = Some i"
  then have i: "i = length (takeWhile (\<lambda>x. x \<noteq> c) s)" "i < length s"
    by (auto simp: IndexByte_def Let_def split: if_splits)
  obtain y ys where s: "s = takeWhile (\<lambda>x. x \<noteq> c) s @ y # ys" "y = c"
    using takeWhile_short[of "\<lambda>x. x \<noteq> c" s] i by auto
  have "take i s = takeWhile (\<lambda>x. x \<noteq> c) s" "s ! i = c"
    unfolding i(1) by (metis takeWhile_eq_take) (metis s append_eq_conv_conj nth_append_length)
  then show "i < length s \<and> c \<notin> set (take i s) \<and> s ! i = c"
    using i by (auto dest: set_takeWhileD)
next
  assume a: "i < length s \<and> c \<notin> set (take i s) \<and> s ! i = c"
  then have "takeWhile (\<lambda>x. x \<noteq> c) s = take i s"
    by (subst id_take_nth_drop[of i s]) (auto simp: takeWhile_append2 takeWhile_tail in_set_conv_nth)
  then show "IndexByte s c = Some i"
    using a by (simp add: IndexByte_def)
qed

lemma IndexByte_None: "IndexByte s c = None \<longleftrightarrow> c \<notin> set s"
proof -
  have "length (takeWhile (\<lambda>x. x \<noteq> c) s) < length s \<longleftrightarrow> c \<in> set s"
    by (induction s) auto
  then show ?thesis
    by (auto simp: IndexByte_def Let_def)
qed

lemma splitFrom_nonempty [simp]: "splitFrom n s \<noteq> []"
  by (cases n) (auto split: option.splits)

lemma splitTopic_nonempty [simp]: "splitTopic s \<noteq> []"
  by (simp add: splitTopic_def)

lemma join_splitFrom: "joinSegs (splitFrom n s) = s"
proof (induction n s rule: splitFrom.induct)
  case (2 n rest)
  show ?case
  proof (cases "IndexByte rest slash")
    case (Some idx)
    then have "idx < length rest" "rest ! idx = slash"
      by (simp_all add: IndexByte_Some)
    then have "rest = take idx rest @ slash # drop (idx + 1) rest"
      using id_take_nth_drop[of idx rest] by simp
    then show ?thesis
      using 2[OF Some] Some by (simp add: joinSegs_Cons)
  qed simp
qed simp

lemma split_joinSegs:
  "ss \<noteq> [] \<Longrightarrow> \<forall>s \<in> set ss. slash \<notin> set s \<Longrightarrow> length ss \<le> n \<Longrightarrow> splitFrom n (joinSegs ss) = ss"
proof (induction ss arbitrary: n rule: joinSegs.induct)
  case (2 s)
  then show ?case
    by (cases n) (simp_all add: IndexByte_None[THEN iffD2])
next
  case (3 s t ss)
  then obtain m where n: "n = Suc m" "length (t # ss) \<le> m"
    by (cases n) auto
  have "IndexByte (s @ slash # joinSegs (t # ss)) slash = Some (length s)"
    using 3 by (simp add: IndexByte_Some)
  then show ?case
    using 3 n by simp
qed simp

lemma splitFrom_length: "length (splitFrom n s) \<le> Suc n"
  by (induction n s rule: splitFrom.induct) (auto split: option.splits)

text \<open>A topic that splits into few enough segments has no separator left in them.\<close>

lemma splitFrom_segs: "length (splitFrom n s) \<le> n \<Longrightarrow> \<forall>x \<in> set (splitFrom n s). slash \<notin> set x"
proof (induction n s rule: splitFrom.induct)
  case (2 n rest)
  show ?case
  proof (cases "IndexByte rest slash")
    case None
    then have "slash \<notin> set rest"
      by (simp add: IndexByte_None)
    then show ?thesis
      using None by simp
  next
    case (Some idx)
    then have "slash \<notin> set (take idx rest)"
      by (simp add: IndexByte_Some)
    then show ?thesis
      using 2(1)[OF Some] 2(2) Some by simp
  qed
qed simp

lemma splitTopic_inj: "splitTopic s = splitTopic t \<longleftrightarrow> s = t"
  by (metis join_splitFrom splitTopic_def)

section \<open>What validation accepts\<close>

abbreviation noWildcard :: "string \<Rightarrow> bool" where
  "noWildcard s \<equiv> CHR ''*'' \<notin> set s \<and> CHR ''>'' \<notin> set s"

definition topicSegs :: "string list \<Rightarrow> bool" where
  "topicSegs ss \<longleftrightarrow> ss \<noteq> [] \<and> length ss \<le> maxSegments \<and> (\<forall>s \<in> set ss. s \<noteq> [] \<and> slash \<notin> set s \<and> noWildcard s)"

definition patternSegs :: "string list \<Rightarrow> bool" where
  "patternSegs ss \<longleftrightarrow> ss \<noteq> [] \<and> length ss \<le> maxSegments
     \<and> (\<forall>s \<in> set ss. s \<noteq> [] \<and> slash \<notin> set s \<and> (s = wildcardOne \<or> s = wildcardTail \<or> noWildcard s))
     \<and> wildcardTail \<notin> set (butlast ss)"

lemma ContainsAny_wildcard: "ContainsAny s ''*>'' \<longleftrightarrow> \<not> noWildcard s"
  by (auto simp: ContainsAny_def list_ex_iff)

lemma validateSegments_None: "validateSegments t (splitTopic t) = None \<longleftrightarrow>
    length t \<le> maxTopicLen \<and> length (splitTopic t) \<le> maxSegments \<and> (\<forall>s \<in> set (splitTopic t). s \<noteq> [])"
proof -
  have "splitTopic [] = [[]]"
    by (simp add: splitTopic_def maxSegments_def numeral_eq_Suc IndexByte_def)
  then show ?thesis
    by (auto simp: validateSegments_def first_err_None)
qed

lemma splitTopic_noslash: "length (splitTopic t) \<le> maxSegments \<Longrightarrow> s \<in> set (splitTopic t) \<Longrightarrow> slash \<notin> set s"
  using splitFrom_segs[of maxSegments t] by (simp add: splitTopic_def)

lemma ValidateTopic_iff: "ValidateTopic t = None \<longleftrightarrow> length t \<le> maxTopicLen \<and> topicSegs (splitTopic t)"
proof -
  have "ValidateTopic t = None \<longleftrightarrow> validateSegments t (splitTopic t) = None \<and> (\<forall>s \<in> set (splitTopic t). noWildcard s)"
    by (simp add: ValidateTopic_def Let_def ContainsAny_wildcard split: option.splits)
  then show ?thesis
    using splitTopic_noslash[of t] unfolding validateSegments_None topicSegs_def by auto
qed

lemma ball_enumerate: "(\<forall>x \<in> set (enumerate 0 ss). Q x) \<longleftrightarrow> (\<forall>i < length ss. Q (i, ss ! i))"
proof -
  have "set (enumerate 0 ss) = (\<lambda>i. (i, ss ! i)) ` {..<length ss}"
    by (auto simp: in_set_enumerate_eq image_iff)
  then show ?thesis
    by auto
qed

lemma only_last: "(\<forall>i < length xs. xs ! i = w \<longrightarrow> Suc i = length xs) \<longleftrightarrow> w \<notin> set (butlast xs)"
proof (cases xs rule: rev_cases)
  case (snoc ys y)
  have "(\<forall>i < Suc (length ys). (ys @ [y]) ! i = w \<longrightarrow> i = length ys) \<longleftrightarrow> (\<forall>i < length ys. ys ! i \<noteq> w)"
    by (auto simp: less_Suc_eq nth_append)
  then show ?thesis
    using snoc by (auto simp: in_set_conv_nth)
qed simp

lemma patternSegErr_one: "patternSegErr n (i, s) = None \<longleftrightarrow>
    (s = wildcardOne \<or> s = wildcardTail \<or> noWildcard s) \<and> (s = wildcardTail \<longrightarrow> Suc i = n)"
  by (auto simp: patternSegErr_def ContainsAny_wildcard)

lemma patternSegErr_None: "first_err (patternSegErr (length ss)) (enumerate 0 ss) = None \<longleftrightarrow>
    (\<forall>s \<in> set ss. s = wildcardOne \<or> s = wildcardTail \<or> noWildcard s) \<and> wildcardTail \<notin> set (butlast ss)"
proof -
  have "first_err (patternSegErr (length ss)) (enumerate 0 ss) = None \<longleftrightarrow>
      (\<forall>i < length ss. (ss ! i = wildcardOne \<or> ss ! i = wildcardTail \<or> noWildcard (ss ! i))
        \<and> (ss ! i = wildcardTail \<longrightarrow> Suc i = length ss))"
    by (simp add: ball_enumerate patternSegErr_one)
  also have "\<dots> \<longleftrightarrow> (\<forall>s \<in> set ss. s = wildcardOne \<or> s = wildcardTail \<or> noWildcard s)
      \<and> (\<forall>i < length ss. ss ! i = wildcardTail \<longrightarrow> Suc i = length ss)"
    unfolding all_set_conv_all_nth by blast
  also have "(\<forall>i < length ss. ss ! i = wildcardTail \<longrightarrow> Suc i = length ss) \<longleftrightarrow> wildcardTail \<notin> set (butlast ss)"
    by (rule only_last)
  finally show ?thesis .
qed

lemma ValidatePattern_iff: "ValidatePattern t = None \<longleftrightarrow> length t \<le> maxTopicLen \<and> patternSegs (splitTopic t)"
proof -
  have "ValidatePattern t = None \<longleftrightarrow> validateSegments t (splitTopic t) = None
      \<and> first_err (patternSegErr (length (splitTopic t))) (enumerate 0 (splitTopic t)) = None"
    by (simp add: ValidatePattern_def Let_def split: option.splits)
  then show ?thesis
    using splitTopic_noslash[of t] unfolding validateSegments_None patternSegErr_None patternSegs_def by auto
qed

lemma validateSpaceId_iff: "validateSpaceId s = None \<longleftrightarrow> s \<noteq> [] \<and> slash \<notin> set s"
  by (auto simp: validateSpaceId_def IndexByte_None)

end
