(* ===== verification/PubTrie.thy ===== *)
theory PubTrie
  imports PubTopic
begin

text \<open>
  The trie of subscription patterns (\<open>commonspace/pubsub/trie.go\<close>), and that it refines a multiset of
  patterns: one occurrence per subscriber.

  The levels and nodes form a tree that nothing else points into, so that they are a datatype and an
  update through a pointer is an update of the path.
\<close>

section \<open>The trie\<close>

datatype trieLevel = Level (lv_nodes: "(string \<times> trieNode) list") (lv_pwc: "trieNode option") (lv_fwc: "trieNode option")
  and trieNode = Node (nd_next: "trieLevel option") (nd_pattern: string) (nd_refs: int)

record patternTrie =
  pt_root :: trieLevel
  pt_size :: int

definition emptyLevel :: trieLevel where
  "emptyLevel = Level [] None None"

definition newPatternTrie :: patternTrie where
  "newPatternTrie = \<lparr>pt_root = emptyLevel, pt_size = 0\<rparr>"

definition trieLen :: "patternTrie \<Rightarrow> int" where
  "trieLen t = pt_size t"

definition child :: "trieLevel \<Rightarrow> string \<Rightarrow> trieNode option" where
  "child l seg = (if seg = wildcardOne then lv_pwc l else if seg = wildcardTail then lv_fwc l else mget (lv_nodes l) seg)"

definition literal :: "trieLevel \<Rightarrow> string \<Rightarrow> trieNode option" where
  "literal l seg = mget (lv_nodes l) seg"

definition setChild :: "string \<Rightarrow> trieNode \<Rightarrow> trieLevel \<Rightarrow> trieLevel" where
  "setChild seg n l =
     (if seg = wildcardOne then Level (lv_nodes l) (Some n) (lv_fwc l)
      else if seg = wildcardTail then Level (lv_nodes l) (lv_pwc l) (Some n)
      else Level (mput seg n (lv_nodes l)) (lv_pwc l) (lv_fwc l))"

definition deleteChild :: "string \<Rightarrow> trieLevel \<Rightarrow> trieLevel" where
  "deleteChild seg l =
     (if seg = wildcardOne then Level (lv_nodes l) None (lv_fwc l)
      else if seg = wildcardTail then Level (lv_nodes l) (lv_pwc l) None
      else Level (mdel seg (lv_nodes l)) (lv_pwc l) (lv_fwc l))"

definition levelEmpty :: "trieLevel \<Rightarrow> bool" where
  "levelEmpty l \<longleftrightarrow> lv_nodes l = [] \<and> lv_pwc l = None \<and> lv_fwc l = None"

section \<open>Operations\<close>

definition nodeOf :: "trieLevel \<Rightarrow> string \<Rightarrow> trieNode" where
  "nodeOf l seg = (case child l seg of Some n \<Rightarrow> n | None \<Rightarrow> Node None [] 0)"

definition nextLevel :: "trieNode \<Rightarrow> trieLevel" where
  "nextLevel n = (case nd_next n of Some l \<Rightarrow> l | None \<Rightarrow> emptyLevel)"

text \<open>\<open>Add\<close> below a level; the flag says that the pattern is new. A list of segments is never empty.\<close>

fun addSegs :: "string \<Rightarrow> string list \<Rightarrow> trieLevel \<Rightarrow> bool \<times> trieLevel" where
  "addSegs pattern [] l = (False, l)"
| "addSegs pattern (seg # segs) l =
     (let n = nodeOf l seg
      in if segs = []
         then (nd_refs n + 1 = 1, setChild seg (Node (Some (nextLevel n)) pattern (nd_refs n + 1)) l)
         else (case addSegs pattern segs (nextLevel n) of (new, l') \<Rightarrow>
           (new, setChild seg (Node (Some l') (nd_pattern n) (nd_refs n)) l)))"

definition trieAdd :: "string \<Rightarrow> patternTrie \<Rightarrow> bool \<times> patternTrie" where
  "trieAdd pattern t =
     (case addSegs pattern (splitTopic pattern) (pt_root t) of (new, l) \<Rightarrow>
        (new, t\<lparr>pt_root := l, pt_size := (if new then pt_size t + 1 else pt_size t)\<rparr>))"

text \<open>The end of \<open>remove\<close>: a node without subscribers and without children goes.\<close>

definition pruneChild :: "string \<Rightarrow> trieNode \<Rightarrow> trieLevel \<Rightarrow> trieLevel" where
  "pruneChild seg n l =
     (if nd_refs n = 0 \<and> (case nd_next n of None \<Rightarrow> True | Some l' \<Rightarrow> levelEmpty l') then deleteChild seg l
      else setChild seg n l)"

fun removeSegs :: "string list \<Rightarrow> trieLevel \<Rightarrow> bool \<times> trieLevel" where
  "removeSegs [] l = (False, l)"
| "removeSegs (seg # segs) l =
     (case child l seg of
        None \<Rightarrow> (False, l)
      | Some n \<Rightarrow>
          if segs = [] then
            (if nd_refs n = 0 then (False, l)
             else if nd_refs n - 1 > 0 then (False, setChild seg (Node (nd_next n) (nd_pattern n) (nd_refs n - 1)) l)
             else (True, pruneChild seg (Node (nd_next n) [] (nd_refs n - 1)) l))
          else (case nd_next n of
              None \<Rightarrow> (False, l)
            | Some l1 \<Rightarrow> (case removeSegs segs l1 of (removed, l2) \<Rightarrow>
                (removed, pruneChild seg (Node (Some l2) (nd_pattern n) (nd_refs n)) l))))"

definition trieRemove :: "string \<Rightarrow> patternTrie \<Rightarrow> bool \<times> patternTrie" where
  "trieRemove pattern t =
     (case removeSegs (splitTopic pattern) (pt_root t) of (removed, l) \<Rightarrow>
        (removed, t\<lparr>pt_root := l, pt_size := (if removed then pt_size t - 1 else pt_size t)\<rparr>))"

text \<open>\<open>matchNode\<close> is the step into a node; \<open>matchLevel\<close> is called for the levels below.\<close>

fun matchLevel :: "trieLevel option \<Rightarrow> string list \<Rightarrow> string list \<Rightarrow> string list"
  and matchNode :: "trieNode \<Rightarrow> string list \<Rightarrow> string list \<Rightarrow> string list" where
  "matchLevel l [] dst = dst"
| "matchLevel None (seg # rest) dst = dst"
| "matchLevel (Some l) (seg # rest) dst =
     (let dst = (case lv_fwc l of Some n \<Rightarrow> if nd_refs n > 0 then dst @ [nd_pattern n] else dst | None \<Rightarrow> dst);
          dst = (case lv_pwc l of Some n \<Rightarrow> matchNode n rest dst | None \<Rightarrow> dst)
      in case literal l seg of Some n \<Rightarrow> matchNode n rest dst | None \<Rightarrow> dst)"
| "matchNode n [] dst = (if nd_refs n > 0 then dst @ [nd_pattern n] else dst)"
| "matchNode n (seg # rest) dst = matchLevel (nd_next n) (seg # rest) dst"

definition trieMatch :: "patternTrie \<Rightarrow> string \<Rightarrow> string list" where
  "trieMatch t topic = matchLevel (Some (pt_root t)) (splitTopic topic) []"

section \<open>What the trie stands for\<close>

text \<open>When a pattern matches a topic.\<close>

fun matches :: "string list \<Rightarrow> string list \<Rightarrow> bool" where
  "matches [] [] = True"
| "matches [] (t # ts) = False"
| "matches (p # ps) [] = False"
| "matches (p # ps) (t # ts) = (if p = wildcardTail then ps = [] else (p = wildcardOne \<or> p = t) \<and> matches ps ts)"

text \<open>The subscribers of the pattern at the end of a path, and the pattern if there are any.\<close>

fun viewLevel :: "trieLevel option \<Rightarrow> string list \<Rightarrow> int \<times> string"
  and viewNode :: "trieNode \<Rightarrow> string list \<Rightarrow> int \<times> string" where
  "viewLevel l [] = (0, [])"
| "viewLevel None (s # ss) = (0, [])"
| "viewLevel (Some l) (s # ss) = (case child l s of None \<Rightarrow> (0, []) | Some n \<Rightarrow> viewNode n ss)"
| "viewNode n [] = (nd_refs n, if nd_refs n = 0 then [] else nd_pattern n)"
| "viewNode n (s # ss) = viewLevel (nd_next n) (s # ss)"

lemma child_setChild [simp]: "child (setChild seg n l) s = (if s = seg then Some n else child l s)"
  by (simp add: child_def setChild_def)

lemma child_deleteChild [simp]: "child (deleteChild seg l) s = (if s = seg then None else child l s)"
  by (simp add: child_def deleteChild_def)

lemma view_empty [simp]: "viewLevel None ss = (0, [])" "viewLevel (Some emptyLevel) ss = (0, [])"
  by (cases ss; simp add: child_def emptyLevel_def)+

lemma view_levelEmpty: "levelEmpty l \<Longrightarrow> viewLevel (Some l) ss = (0, [])"
  by (cases ss) (simp_all add: child_def levelEmpty_def)

lemma view_nodeOf: "viewLevel (Some l) (s # ss) = viewNode (nodeOf l s) ss"
  by (cases ss) (auto simp: nodeOf_def split: option.splits)

lemma view_nextLevel: "viewLevel (Some (nextLevel n)) ss = viewLevel (nd_next n) ss"
  by (auto simp: nextLevel_def split: option.splits)

lemma viewNode_more: "ss \<noteq> [] \<Longrightarrow> viewNode n ss = viewLevel (nd_next n) ss"
  by (cases ss) auto

text \<open>A level changes as its child at one segment does.\<close>

lemma view_setChild: "viewLevel (Some (setChild seg n l)) (s # ss) = (if s = seg then viewNode n ss else viewLevel (Some l) (s # ss))"
  by simp

declare viewLevel.simps(3) [simp del]

lemma view_replace:
  assumes "\<And>r. viewNode n r = (if r = segs then x else viewNode (nodeOf l seg) r)"
  shows "viewLevel (Some (setChild seg n l)) ss = (if ss = seg # segs then x else viewLevel (Some l) ss)"
proof (cases ss)
  case (Cons s r)
  then show ?thesis
    using assms[of r] view_nodeOf[of l seg r] view_setChild[of seg n l s r] by auto
qed simp

lemma view_pruneChild: "viewLevel (Some (pruneChild seg n l)) ss = viewLevel (Some (setChild seg n l)) ss"
proof (cases "nd_refs n = 0 \<and> (case nd_next n of None \<Rightarrow> True | Some l' \<Rightarrow> levelEmpty l')")
  case True
  then have "viewNode n r = (0, [])" for r
    by (cases r) (auto simp: view_levelEmpty split: option.splits)
  then show ?thesis
    using True by (cases ss) (auto simp: pruneChild_def viewLevel.simps(3))
qed (auto simp: pruneChild_def)

lemma add_view:
  "segs \<noteq> [] \<Longrightarrow> fst (viewLevel (Some l) segs) \<ge> 0 \<Longrightarrow>
    fst (addSegs p segs l) = (fst (viewLevel (Some l) segs) = 0)
    \<and> viewLevel (Some (snd (addSegs p segs l))) ss
      = (if ss = segs then (fst (viewLevel (Some l) segs) + 1, p) else viewLevel (Some l) ss)"
proof (induction segs arbitrary: l ss)
  case (Cons seg segs)
  let ?n = "nodeOf l seg"
  show ?case
  proof (cases "segs = []")
    case True
    have refs: "fst (viewLevel (Some l) [seg]) = nd_refs ?n"
      by (simp add: view_nodeOf)
    let ?n' = "Node (Some (nextLevel ?n)) p (nd_refs ?n + 1)"
    have "viewNode ?n' r = (if r = [] then (nd_refs ?n + 1, p) else viewNode ?n r)" for r
      using Cons.prems(2) True refs by (cases r) (simp_all add: view_nextLevel)
    from view_replace[OF this] show ?thesis
      using True refs by (simp add: Let_def)
  next
    case False
    have down: "viewNode ?n r = viewLevel (Some (nextLevel ?n)) r" if "r \<noteq> []" for r
      using that by (simp add: viewNode_more view_nextLevel)
    have old: "viewLevel (Some l) (seg # segs) = viewLevel (Some (nextLevel ?n)) segs"
      using down[OF False] by (simp add: view_nodeOf)
    obtain new l' where a: "addSegs p segs (nextLevel ?n) = (new, l')"
      by (cases "addSegs p segs (nextLevel ?n)")
    note IH = Cons.IH[OF False, of "nextLevel ?n", unfolded a fst_conv snd_conv]
    let ?n' = "Node (Some l') (nd_pattern ?n) (nd_refs ?n)"
    have "viewNode ?n' r = (if r = segs then (fst (viewLevel (Some l) (seg # segs)) + 1, p) else viewNode ?n r)" for r
      using IH Cons.prems(2) False old by (cases r) (simp_all add: view_nextLevel)
    from view_replace[OF this] show ?thesis
      using IH Cons.prems(2) False old a by (simp add: Let_def)
  qed
qed simp

lemma remove_view:
  "segs \<noteq> [] \<Longrightarrow> fst (viewLevel (Some l) segs) \<ge> 0 \<Longrightarrow>
    fst (removeSegs segs l) = (fst (viewLevel (Some l) segs) = 1)
    \<and> viewLevel (Some (snd (removeSegs segs l))) ss
      = (if ss = segs \<and> fst (viewLevel (Some l) segs) = 1 then (0, [])
         else if ss = segs \<and> fst (viewLevel (Some l) segs) > 1
         then (fst (viewLevel (Some l) segs) - 1, snd (viewLevel (Some l) segs))
         else viewLevel (Some l) ss)"
proof (induction segs arbitrary: l ss)
  case (Cons seg segs)
  show ?case
  proof (cases "child l seg")
    case (Some n)
    then have n: "nodeOf l seg = n"
      by (simp add: nodeOf_def)
    show ?thesis
    proof (cases "segs = []")
      case True
      have refs: "viewLevel (Some l) [seg] = (nd_refs n, if nd_refs n = 0 then [] else nd_pattern n)"
        using n by (simp add: view_nodeOf)
      have dec: "viewNode (Node (nd_next n) q (nd_refs n - 1)) r
          = (if r = [] then (nd_refs n - 1, if nd_refs n = 1 then [] else q) else viewNode (nodeOf l seg) r)" for q r
        using n by (cases r) simp_all
      have last: "viewLevel (Some (setChild seg (Node (nd_next n) [] 0) l)) ss
          = (if ss = [seg] then (0, []) else viewLevel (Some l) ss)" if "nd_refs n = 1"
        using view_replace[OF dec, of "[]" ss] that by simp
      show ?thesis
        using True Some refs Cons.prems(2) view_replace[OF dec] last by (auto simp: view_pruneChild)
    next
      case False
      show ?thesis
      proof (cases "nd_next n")
        case None
        then have "viewLevel (Some l) (seg # segs) = (0, [])"
          using n False by (simp add: view_nodeOf viewNode_more)
        then show ?thesis
          using None Some False by (simp)
      next
        case nx: (Some l1)
        have old: "viewLevel (Some l) (seg # r) = viewLevel (Some l1) r" if "r \<noteq> []" for r
          using that n nx by (simp add: view_nodeOf viewNode_more)
        obtain b l2 where a: "removeSegs segs l1 = (b, l2)"
          by (cases "removeSegs segs l1")
        note IH = Cons.IH[OF False, of l1, unfolded a fst_conv snd_conv]
        let ?n' = "Node (Some l2) (nd_pattern n) (nd_refs n)"
        have "viewNode ?n' r = (if r = segs then viewLevel (Some l2) segs else viewNode (nodeOf l seg) r)" for r
          using IH Cons.prems(2) False old[OF False] n nx by (cases r) auto
        from view_replace[OF this] show ?thesis
          using IH Cons.prems(2) False old[OF False] a Some nx by (simp add: view_pruneChild)
      qed
    qed
  qed (simp add: viewLevel.simps(3))
qed simp

section \<open>Matching\<close>

text \<open>Every pattern with subscribers is found at its own path.\<close>

definition pathsOk :: "string list \<Rightarrow> trieLevel option \<Rightarrow> bool" where
  "pathsOk pre l \<longleftrightarrow> (\<forall>ss. fst (viewLevel l ss) \<ge> 0
     \<and> (fst (viewLevel l ss) > 0 \<longrightarrow> splitTopic (snd (viewLevel l ss)) = pre @ ss))"

definition nodeOk :: "string list \<Rightarrow> trieNode \<Rightarrow> bool" where
  "nodeOk pre n \<longleftrightarrow> (\<forall>ss. fst (viewNode n ss) \<ge> 0
     \<and> (fst (viewNode n ss) > 0 \<longrightarrow> splitTopic (snd (viewNode n ss)) = pre @ ss))"

definition found :: "(string list \<Rightarrow> int \<times> string) \<Rightarrow> string list \<Rightarrow> string set" where
  "found v ts = {snd (v ps) |ps. fst (v ps) > 0 \<and> matches ps ts}"

lemma match_append:
  "(\<forall>l dst. matchLevel l ts dst = dst @ matchLevel l ts []) \<and> (\<forall>n dst. matchNode n ts dst = dst @ matchNode n ts [])"
proof (induction ts)
  case (Cons t ts)
  define f where "f n = matchNode n ts []" for n
  have node: "matchNode n ts d = d @ f n" for n d
    using Cons unfolding f_def by blast
  have level: "matchLevel l (t # ts) dst = dst @ matchLevel l (t # ts) []" for l dst
    by (cases l) (simp_all add: Let_def node split: option.split)
  show ?case
    unfolding matchNode.simps using level by (intro conjI allI)
qed simp

definition below :: "trieNode option \<Rightarrow> string list \<Rightarrow> string list" where
  "below n ts = (case n of Some n \<Rightarrow> matchNode n ts [] | None \<Rightarrow> [])"

lemma matchLevel_parts:
  assumes "noWildcard t"
  shows "matchLevel (Some l) (t # ts) [] = below (child l wildcardTail) [] @ below (child l wildcardOne) ts @ below (child l t) ts"
proof -
  define f where "f n = matchNode n ts []" for n
  have node: "matchNode n ts d = d @ f n" for n d
    using match_append[of ts] unfolding f_def by blast
  have "literal l t = child l t"
    using assms by (auto simp: literal_def child_def)
  then show ?thesis
    by (simp add: below_def Let_def node split: option.split) (simp add: child_def)
qed

lemma child_ok: "pathsOk pre (Some l) \<Longrightarrow> child l s = Some n \<Longrightarrow> nodeOk (pre @ [s]) n"
  unfolding pathsOk_def nodeOk_def by (metis append.assoc append_Cons append_Nil option.simps(5) viewLevel.simps(3))

lemma next_ok: "nodeOk pre n \<Longrightarrow> pathsOk pre (nd_next n)"
  unfolding pathsOk_def nodeOk_def
  by (metis fst_conv less_irrefl order_refl viewLevel.simps(1) viewNode.simps(2) neq_Nil_conv)

lemma found_path: "nodeOk pre n \<Longrightarrow> x \<in> found (viewNode n) ts \<Longrightarrow> \<exists>ps. splitTopic x = pre @ ps"
  by (auto simp: found_def nodeOk_def)

lemma found_level:
  assumes "noWildcard t"
  shows "found (viewLevel (Some l)) (t # ts) =
    (case child l wildcardTail of Some n \<Rightarrow> found (viewNode n) [] | None \<Rightarrow> {})
    \<union> (case child l wildcardOne of Some n \<Rightarrow> found (viewNode n) ts | None \<Rightarrow> {})
    \<union> (case child l t of Some n \<Rightarrow> found (viewNode n) ts | None \<Rightarrow> {})" (is "_ = ?r")
proof
  show "found (viewLevel (Some l)) (t # ts) \<subseteq> ?r"
  proof
    fix x
    assume "x \<in> found (viewLevel (Some l)) (t # ts)"
    then obtain ps where ps: "x = snd (viewLevel (Some l) ps)" "fst (viewLevel (Some l) ps) > 0" "matches ps (t # ts)"
      by (auto simp: found_def)
    then obtain p qs where "ps = p # qs"
      by (cases ps) auto
    moreover from this ps obtain n where n: "child l p = Some n" "x = snd (viewNode n qs)" "fst (viewNode n qs) > 0"
      by (auto simp: viewLevel.simps(3) split: option.splits)
    moreover have in_found: "x \<in> found (viewNode n) rs" if "matches qs rs" for rs
      using n that by (auto simp: found_def)
    ultimately show "x \<in> ?r"
      using ps(3) in_found[of "[]"] in_found[of ts] by (auto split: if_splits)
  qed
  have up: "x \<in> found (viewLevel (Some l)) (t # ts)"
    if "child l p = Some n" "x \<in> found (viewNode n) qs" "\<And>ps. matches ps qs \<Longrightarrow> matches (p # ps) (t # ts)" for x p n qs
  proof -
    from that(2) obtain ps where "x = snd (viewNode n ps)" "fst (viewNode n ps) > 0" "matches ps qs"
      by (auto simp: found_def)
    then have "x = snd (viewLevel (Some l) (p # ps))" "fst (viewLevel (Some l) (p # ps)) > 0" "matches (p # ps) (t # ts)"
      using that by (simp_all add: viewLevel.simps(3))
    then show ?thesis
      unfolding found_def by blast
  qed
  have "matches (wildcardTail # ps) (t # ts)" if "matches ps []" for ps
    using that by (cases ps) auto
  moreover have "matches (t # ps) (t # ts)" if "matches ps ts" for ps
    using that assms by auto
  ultimately show "?r \<subseteq> found (viewLevel (Some l)) (t # ts)"
    using up[of wildcardTail _ _ "[]"] up[of wildcardOne _ _ ts] up[of t _ _ ts] by (auto split: option.splits)
qed

lemma matches_Nil [simp]: "matches ps [] \<longleftrightarrow> ps = []"
  by (cases ps) auto

definition nodeMatches :: "string list \<Rightarrow> bool" where
  "nodeMatches ts \<longleftrightarrow> (\<forall>n pre. nodeOk pre n \<longrightarrow> set (matchNode n ts []) = found (viewNode n) ts \<and> distinct (matchNode n ts []))"

lemma nodeMatches_Nil: "nodeMatches []"
  unfolding nodeMatches_def found_def by auto

lemma below_ok:
  assumes m: "nodeMatches ts" and ok: "pathsOk pre (Some l)"
  shows "set (below (child l s) ts) = (case child l s of Some n \<Rightarrow> found (viewNode n) ts | None \<Rightarrow> {})"
    and "distinct (below (child l s) ts)" and "x \<in> set (below (child l s) ts) \<Longrightarrow> splitTopic x ! length pre = s"
proof -
  have "set (below (child l s) ts) = (case child l s of Some n \<Rightarrow> found (viewNode n) ts | None \<Rightarrow> {})
    \<and> distinct (below (child l s) ts) \<and> (x \<in> set (below (child l s) ts) \<longrightarrow> splitTopic x ! length pre = s)"
  proof (cases "child l s")
    case (Some n)
    note n = child_ok[OF ok Some]
    have "set (matchNode n ts []) = found (viewNode n) ts" "distinct (matchNode n ts [])"
      using m n unfolding nodeMatches_def by blast+
    then show ?thesis
      using Some found_path[OF n, of x ts] by (auto simp: below_def)
  qed (simp add: below_def)
  then show "set (below (child l s) ts) = (case child l s of Some n \<Rightarrow> found (viewNode n) ts | None \<Rightarrow> {})"
    "distinct (below (child l s) ts)" "x \<in> set (below (child l s) ts) \<Longrightarrow> splitTopic x ! length pre = s"
    by blast+
qed

lemma level_matches:
  assumes m: "nodeMatches ts" and ok: "pathsOk pre l" and t: "noWildcard t"
  shows "set (matchLevel l (t # ts) []) = found (viewLevel l) (t # ts) \<and> distinct (matchLevel l (t # ts) [])"
proof (cases l)
  case None
  then show ?thesis
    by (simp add: found_def)
next
  case (Some l')
  have ne: "t \<noteq> wildcardTail" "t \<noteq> wildcardOne" "wildcardTail \<noteq> wildcardOne"
    using t by auto
  note b = below_ok[OF m ok[unfolded Some]] and b0 = below_ok[OF nodeMatches_Nil ok[unfolded Some], where s = wildcardTail]
  have "set (below (child l' wildcardTail) []) \<inter> set (below (child l' wildcardOne) ts) = {}"
    "set (below (child l' wildcardTail) []) \<inter> set (below (child l' t) ts) = {}"
    "set (below (child l' wildcardOne) ts) \<inter> set (below (child l' t) ts) = {}"
    using b0(3) b(3)[where s = wildcardOne] b(3)[where s = t] ne by (metis disjoint_iff)+
  then have "distinct (matchLevel l (t # ts) [])"
    unfolding Some matchLevel_parts[OF t] using b0(2) b(2) by auto
  moreover have "set (matchLevel l (t # ts) []) = found (viewLevel l) (t # ts)"
    unfolding Some matchLevel_parts[OF t] found_level[OF t] using b0(1) b(1)[where s = wildcardOne] b(1)[where s = t] by auto
  ultimately show ?thesis
    by blast
qed

lemma all_nodeMatches: "list_all noWildcard ts \<Longrightarrow> nodeMatches ts"
proof (induction ts)
  case (Cons t ts)
  then have m: "nodeMatches ts" and t: "noWildcard t"
    by simp_all
  have "found (viewNode n) (t # ts) = found (viewLevel (nd_next n)) (t # ts)" for n
  proof -
    have "viewNode n ps = viewLevel (nd_next n) ps" if "matches ps (t # ts)" for ps
      using that by (cases ps) auto
    then show ?thesis
      unfolding found_def by (metis (mono_tags, lifting))
  qed
  then show ?case
    unfolding nodeMatches_def matchNode.simps using level_matches[OF m _ t] next_ok by metis
qed (rule nodeMatches_Nil)

section \<open>The multiset of patterns\<close>

text \<open>\<open>t\<close> holds the patterns \<open>M\<close>, each as often as it was added.\<close>

definition trieHolds :: "patternTrie \<Rightarrow> string multiset \<Rightarrow> bool" where
  "trieHolds t M \<longleftrightarrow> pathsOk [] (Some (pt_root t)) \<and> (\<forall>p. fst (viewLevel (Some (pt_root t)) (splitTopic p)) = int (count M p))
     \<and> pt_size t = int (card (set_mset M))"

lemma trieHolds_new: "trieHolds newPatternTrie {#}"
  by (simp add: trieHolds_def newPatternTrie_def pathsOk_def)

lemma trieHolds_add:
  assumes "trieHolds t M"
  shows "trieHolds (snd (trieAdd p t)) (add_mset p M)" and "fst (trieAdd p t) \<longleftrightarrow> p \<notin># M"
proof -
  let ?l = "pt_root t"
  have nn: "fst (viewLevel (Some ?l) (splitTopic p)) \<ge> 0"
    using assms by (simp add: trieHolds_def)
  note v = add_view[OF splitTopic_nonempty nn, of p]
  have cnt: "fst (viewLevel (Some ?l) (splitTopic q)) = int (count M q)" for q
    using assms by (simp add: trieHolds_def)
  show new: "fst (trieAdd p t) \<longleftrightarrow> p \<notin># M"
    using v cnt[of p] by (simp add: trieAdd_def split_beta count_eq_zero_iff)
  have root: "pt_root (snd (trieAdd p t)) = snd (addSegs p (splitTopic p) ?l)"
    by (simp add: trieAdd_def split_beta)
  have "pathsOk [] (Some (pt_root (snd (trieAdd p t))))"
    using assms v unfolding pathsOk_def root trieHolds_def by auto
  moreover have "fst (viewLevel (Some (pt_root (snd (trieAdd p t)))) (splitTopic q)) = int (count (add_mset p M) q)" for q
    using v cnt unfolding root by (auto simp: splitTopic_inj)
  moreover have "pt_size (snd (trieAdd p t)) = int (card (set_mset (add_mset p M)))"
    using assms new by (auto simp: trieAdd_def split_beta trieHolds_def card_insert_if)
  ultimately show "trieHolds (snd (trieAdd p t)) (add_mset p M)"
    by (simp add: trieHolds_def)
qed

lemma trieHolds_remove:
  assumes "trieHolds t M"
  shows "trieHolds (snd (trieRemove p t)) (M - {#p#})" and "fst (trieRemove p t) \<longleftrightarrow> count M p = 1"
proof -
  let ?l = "pt_root t"
  have nn: "fst (viewLevel (Some ?l) (splitTopic p)) \<ge> 0"
    using assms by (simp add: trieHolds_def)
  note v = remove_view[OF splitTopic_nonempty nn]
  have cnt: "fst (viewLevel (Some ?l) (splitTopic q)) = int (count M q)" for q
    using assms by (simp add: trieHolds_def)
  show gone: "fst (trieRemove p t) \<longleftrightarrow> count M p = 1"
    using v cnt[of p] by (simp add: trieRemove_def split_beta)
  have root: "pt_root (snd (trieRemove p t)) = snd (removeSegs (splitTopic p) ?l)"
    by (simp add: trieRemove_def split_beta)
  have "pathsOk [] (Some ?l)"
    using assms by (simp add: trieHolds_def)
  then have paths: "pathsOk [] (Some (pt_root (snd (trieRemove p t))))"
    using v unfolding pathsOk_def root by auto
  have counts: "fst (viewLevel (Some (pt_root (snd (trieRemove p t)))) (splitTopic q)) = int (count (M - {#p#}) q)" for q
    using v cnt unfolding root by (auto simp: splitTopic_inj)
  have "set_mset (M - {#p#}) = (if count M p = 1 then set_mset M - {p} else set_mset M)"
    by (auto simp: in_diff_count simp flip: count_greater_zero_iff split: if_splits)
  moreover have "int (card (set_mset M - {p})) = int (card (set_mset M)) - 1" if "count M p = 1"
  proof -
    have "p \<in># M"
      using that by (simp flip: count_greater_zero_iff)
    then show ?thesis
      using card_Suc_Diff1[of "set_mset M" p] by simp
  qed
  ultimately have "pt_size (snd (trieRemove p t)) = int (card (set_mset (M - {#p#})))"
    using assms gone by (auto simp: trieRemove_def split_beta trieHolds_def)
  with paths counts show "trieHolds (snd (trieRemove p t)) (M - {#p#})"
    by (simp add: trieHolds_def)
qed

lemma trieHolds_match:
  assumes h: "trieHolds t M" and topic: "list_all noWildcard (splitTopic topic)"
  shows "distinct (trieMatch t topic)"
    and "set (trieMatch t topic) = {p \<in> set_mset M. matches (splitTopic p) (splitTopic topic)}"
proof -
  obtain s ts where st: "splitTopic topic = s # ts"
    using splitTopic_nonempty by (metis neq_Nil_conv)
  have ok: "pathsOk [] (Some (pt_root t))"
    using h by (simp add: trieHolds_def)
  have "nodeMatches ts" "noWildcard s"
    using topic st all_nodeMatches[of ts] by simp_all
  note m = level_matches[OF this(1) ok this(2), folded st]
  show "distinct (trieMatch t topic)"
    using m by (simp add: trieMatch_def)
  let ?v = "viewLevel (Some (pt_root t))"
  have cnt: "fst (?v (splitTopic p)) = int (count M p)" for p
    using h by (simp add: trieHolds_def)
  have path: "splitTopic (snd (?v ps)) = ps" if "fst (?v ps) > 0" for ps
    using ok that by (simp add: pathsOk_def)
  have "snd (?v (splitTopic p)) = p" if "p \<in># M" for p
    using path[of "splitTopic p"] cnt[of p] that by (simp add: splitTopic_inj)
  moreover have "snd (?v ps) \<in># M \<and> splitTopic (snd (?v ps)) = ps" if "fst (?v ps) > 0" for ps
    using path[OF that] cnt[of "snd (?v ps)"] that by (simp flip: count_greater_zero_iff)
  ultimately have "found ?v (splitTopic topic) = {p \<in> set_mset M. matches (splitTopic p) (splitTopic topic)}"
    using cnt unfolding found_def by (auto 0 3 intro!: exI[of _ "splitTopic _"])
  then show "set (trieMatch t topic) = {p \<in> set_mset M. matches (splitTopic p) (splitTopic topic)}"
    using m by (simp add: trieMatch_def)
qed

end
