(* ===== verification/PubMessage.thy ===== *)
theory PubMessage
  imports PubTopic
begin

text \<open>
  Messages of the pubsub service: what their signature covers (\<open>commonspace/pubsub/sign.go\<close>), the cache
  against duplicates (\<open>dedup.go\<close>) and the limit on the rate of a peer (\<open>ratelimit.go\<close>).

  The keys and the token bucket of \<open>golang.org/x/time/rate\<close> are parameters; the clock is an argument.
\<close>

section \<open>Messages and signatures\<close>

record Publish =
  pb_SpaceId :: string
  pb_Topic :: string
  pb_MsgId :: bytes
  pb_KeyId :: string
  pb_Payload :: bytes
  pb_Identity :: bytes
  pb_Signature :: bytes
  pb_TimestampMilli :: int
  pb_Relayed :: bool

text \<open>Keys: a private key and its public key, with their encodings.\<close>

record ('k, 'p) keyOps =
  ko_GetPublic :: "'k \<Rightarrow> 'p"
  ko_Marshall :: "'p \<Rightarrow> bytes option"
  ko_Unmarshal :: "bytes \<Rightarrow> 'p option"
  ko_Sign :: "'k \<Rightarrow> bytes \<Rightarrow> bytes option"
  ko_Verify :: "'p \<Rightarrow> bytes \<Rightarrow> bytes \<Rightarrow> bool option"
  ko_Account :: "'p \<Rightarrow> string"

definition signPrefix :: string where
  "signPrefix = ''anysync:pubsub:v1''"

definition lenPrefixed :: "bytes \<Rightarrow> bytes" where
  "lenPrefixed f = leBytes 4 (length f) @ f"

definition publishSignData :: "Publish \<Rightarrow> bytes" where
  "publishSignData p =
     signPrefix @ concat (map lenPrefixed [pb_SpaceId p, pb_Topic p, pb_MsgId p, pb_KeyId p])
       @ leBytes 8 (nat (pb_TimestampMilli p mod 2 ^ 64)) @ pb_Payload p"

definition signPublish :: "('k, 'p) keyOps \<Rightarrow> 'k \<Rightarrow> Publish \<Rightarrow> pubsub_error + Publish" where
  "signPublish K key p =
     rbind (of_opt ErrCrypto (ko_Marshall K (ko_GetPublic K key))) (\<lambda>identity.
       let p = p\<lparr>pb_Identity := identity\<rparr>
       in rbind (of_opt ErrCrypto (ko_Sign K key (publishSignData p))) (\<lambda>sig. Inr (p\<lparr>pb_Signature := sig\<rparr>)))"

definition identityOf :: "('k, 'p) keyOps \<Rightarrow> Publish \<Rightarrow> pubsub_error + 'p" where
  "identityOf K p = of_opt ErrCrypto (ko_Unmarshal K (pb_Identity p))"

definition verifySignature :: "('k, 'p) keyOps \<Rightarrow> 'p \<Rightarrow> Publish \<Rightarrow> pubsub_error option" where
  "verifySignature K pubKey p =
     (case ko_Verify K pubKey (publishSignData p) (pb_Signature p) of
        None \<Rightarrow> Some ErrCrypto
      | Some ok \<Rightarrow> if \<not> ok then Some ErrInvalidMessage else None)"

definition verifyPublish :: "('k, 'p) keyOps \<Rightarrow> Publish \<Rightarrow> pubsub_error + 'p" where
  "verifyPublish K p =
     rbind (identityOf K p) (\<lambda>pubKey. guard_err (verifySignature K pubKey p) (Inr pubKey))"

section \<open>The signed bytes determine the message\<close>

text \<open>Reading the fields back: a length, then as many bytes.\<close>

definition readField :: "bytes \<Rightarrow> bytes \<times> bytes" where
  "readField bs = (let n = leValue (take 4 bs) in (take n (drop 4 bs), drop n (drop 4 bs)))"

lemma readField_lenPrefixed: "length f < 256 ^ 4 \<Longrightarrow> readField (lenPrefixed f @ rest) = (f, rest)"
  by (simp add: readField_def lenPrefixed_def leValue_leBytes Let_def del: power_numeral)

definition asInt64 :: "int \<Rightarrow> int" where
  "asInt64 v = (if v < 2 ^ 63 then v else v - 2 ^ 64)"

definition signedFields :: "bytes \<Rightarrow> string \<times> string \<times> bytes \<times> string \<times> int \<times> bytes" where
  "signedFields bs =
     (case readField (drop (length signPrefix) bs) of (spaceId, bs) \<Rightarrow>
      case readField bs of (topic, bs) \<Rightarrow>
      case readField bs of (msgId, bs) \<Rightarrow>
      case readField bs of (keyId, bs) \<Rightarrow>
        (spaceId, topic, msgId, keyId, asInt64 (int (leValue (take 8 bs))), drop 8 bs))"

text \<open>What fits the encoding: lengths below \<open>2 ^ 32\<close> and a timestamp of 64 bits.\<close>

definition encodable :: "Publish \<Rightarrow> bool" where
  "encodable p \<longleftrightarrow> length (pb_SpaceId p) < 2 ^ 32 \<and> length (pb_Topic p) < 2 ^ 32 \<and> length (pb_MsgId p) < 2 ^ 32
     \<and> length (pb_KeyId p) < 2 ^ 32 \<and> - (2 ^ 63) \<le> pb_TimestampMilli p \<and> pb_TimestampMilli p < 2 ^ 63"

lemma signed_wrap:
  assumes "- (2 ^ 63) \<le> (x :: int)" and "x < 2 ^ 63"
  shows "asInt64 (x mod 2 ^ 64) = x"
proof (cases "x \<ge> 0")
  case True
  then show ?thesis
    using assms by (simp add: asInt64_def)
next
  case False
  then have "(x + 2 ^ 64) mod 2 ^ 64 = x + 2 ^ 64"
    using assms by (intro mod_pos_pos_trivial) auto
  then show ?thesis
    using assms False by (simp add: asInt64_def)
qed

text \<open>
  C36. The bytes that a signature covers are unambiguous: from them every signed field can be read back, so that two
  messages with the same signed bytes have the same space, topic, message id, key id, timestamp and payload.\<close>

theorem sign_data_unambiguous:
  assumes "encodable p"
  shows "signedFields (publishSignData p) =
    (pb_SpaceId p, pb_Topic p, pb_MsgId p, pb_KeyId p, pb_TimestampMilli p, pb_Payload p)"
proof -
  have len: "length (pb_SpaceId p) < 256 ^ 4" "length (pb_Topic p) < 256 ^ 4" "length (pb_MsgId p) < 256 ^ 4"
    "length (pb_KeyId p) < 256 ^ 4"
    using assms by (simp_all add: encodable_def)
  define v where "v = leBytes 8 (nat (pb_TimestampMilli p mod 2 ^ 64))"
  have v: "length v = 8" "int (leValue v) = pb_TimestampMilli p mod 2 ^ 64"
    by (simp_all add: v_def leValue_leBytes)
  have data: "publishSignData p = signPrefix @ lenPrefixed (pb_SpaceId p) @ lenPrefixed (pb_Topic p)
      @ lenPrefixed (pb_MsgId p) @ lenPrefixed (pb_KeyId p) @ v @ pb_Payload p"
    by (simp add: publishSignData_def v_def)
  have "asInt64 (int (leValue v)) = pb_TimestampMilli p"
    unfolding v(2) using assms by (intro signed_wrap) (simp_all add: encodable_def)
  then show ?thesis
    unfolding signedFields_def data
    by (simp add: readField_lenPrefixed[OF len(1)] readField_lenPrefixed[OF len(2)] readField_lenPrefixed[OF len(3)]
        readField_lenPrefixed[OF len(4)] v(1))
qed

definition samplePublish :: Publish where
  "samplePublish = \<lparr>pb_SpaceId = ''s'', pb_Topic = ''a/b'', pb_MsgId = ''m'', pb_KeyId = [], pb_Payload = ''x'',
     pb_Identity = [], pb_Signature = [], pb_TimestampMilli = - 5, pb_Relayed = False\<rparr>"

theorem sign_data_unambiguous_witness:
  "encodable samplePublish \<and> signedFields (publishSignData samplePublish) = (''s'', ''a/b'', ''m'', [], - 5, ''x'')"
proof -
  have e: "encodable samplePublish"
    by (simp add: encodable_def samplePublish_def)
  from sign_data_unambiguous[OF this] show ?thesis
    using e by (simp add: samplePublish_def)
qed

text \<open>A signed message verifies.\<close>

definition keyOps_ok :: "('k, 'p) keyOps \<Rightarrow> bool" where
  "keyOps_ok K \<longleftrightarrow> (\<forall>pub b. ko_Marshall K pub = Some b \<longrightarrow> ko_Unmarshal K b = Some pub)
     \<and> (\<forall>key d sig. ko_Sign K key d = Some sig \<longrightarrow> ko_Verify K (ko_GetPublic K key) d sig = Some True)"

lemma publishSignData_identity [simp]:
  "publishSignData (p\<lparr>pb_Identity := i\<rparr>) = publishSignData p" "publishSignData (p\<lparr>pb_Signature := g\<rparr>) = publishSignData p"
  "publishSignData (p\<lparr>pb_Relayed := b\<rparr>) = publishSignData p"
  by (simp_all add: publishSignData_def)

lemma sign_verifies: "keyOps_ok K \<Longrightarrow> signPublish K key p = Inr p' \<Longrightarrow> verifyPublish K p' = Inr (ko_GetPublic K key)"
  by (auto simp: keyOps_ok_def signPublish_def verifyPublish_def identityOf_def verifySignature_def Let_def result_simps)

section \<open>Duplicates\<close>

definition msgIdLen :: nat where
  "msgIdLen = 16"

datatype dedup_error = DedupPanicIndexOutOfRange

record msgIdDedup =
  dd_set :: "(bytes, unit) gomap"
  dd_ring :: "bytes list"
  dd_pos :: nat
  dd_full :: bool

definition zeroId :: bytes where
  "zeroId = replicate msgIdLen (char_of (0 :: nat))"

definition newMsgIdDedup :: "nat \<Rightarrow> msgIdDedup" where
  "newMsgIdDedup size' = \<lparr>dd_set = [], dd_ring = replicate size' zeroId, dd_pos = 0, dd_full = False\<rparr>"

definition seen :: "bytes \<Rightarrow> msgIdDedup \<Rightarrow> dedup_error + (bool \<times> msgIdDedup)" where
  "seen key d =
     (if length key \<noteq> msgIdLen then Inr (False, d)
      else if mget (dd_set d) key \<noteq> None then Inr (True, d)
      else if dd_pos d \<ge> length (dd_ring d) then Inl DedupPanicIndexOutOfRange
      else
        (let set' = (if dd_full d then mdel (dd_ring d ! dd_pos d) (dd_set d) else dd_set d);
             d = d\<lparr>dd_ring := (dd_ring d)[dd_pos d := key], dd_set := mput key () set', dd_pos := dd_pos d + 1\<rparr>
         in Inr (False, if dd_pos d = length (dd_ring d) then d\<lparr>dd_pos := 0, dd_full := True\<rparr> else d)))"

text \<open>The ids in the cache, the oldest first.\<close>

definition dedupQueue :: "msgIdDedup \<Rightarrow> bytes list" where
  "dedupQueue d = (if dd_full d then drop (dd_pos d) (dd_ring d) else []) @ take (dd_pos d) (dd_ring d)"

definition dedup_ok :: "nat \<Rightarrow> msgIdDedup \<Rightarrow> bool" where
  "dedup_ok n d \<longleftrightarrow> length (dd_ring d) = n \<and> dd_pos d < n \<and> distinct (dedupQueue d)
     \<and> {k. mget (dd_set d) k \<noteq> None} = set (dedupQueue d)"

definition fifoPush :: "nat \<Rightarrow> bytes \<Rightarrow> bytes list \<Rightarrow> bytes list" where
  "fifoPush n key q = (if length q = n then tl q else q) @ [key]"

lemma newMsgIdDedup_ok: "0 < n \<Longrightarrow> dedup_ok n (newMsgIdDedup n) \<and> dedupQueue (newMsgIdDedup n) = []"
  by (simp add: dedup_ok_def newMsgIdDedup_def dedupQueue_def)

lemma fifoPush_distinct: "distinct q \<Longrightarrow> key \<notin> set q \<Longrightarrow> distinct (fifoPush n key q)"
  by (cases q) (auto simp: fifoPush_def)

lemma seen_ok:
  assumes ok: "dedup_ok n d" and key: "length key = msgIdLen"
  shows "\<exists>d'. seen key d = Inr (key \<in> set (dedupQueue d), d') \<and> dedup_ok n d'
    \<and> dedupQueue d' = (if key \<in> set (dedupQueue d) then dedupQueue d else fifoPush n key (dedupQueue d))"
proof (cases "key \<in> set (dedupQueue d)")
  case True
  then have "mget (dd_set d) key \<noteq> None"
    using ok unfolding dedup_ok_def by blast
  then show ?thesis
    using True ok key by (simp add: seen_def)
next
  case False
  then have new: "mget (dd_set d) key = None"
    using ok unfolding dedup_ok_def by blast
  let ?r = "dd_ring d" and ?p = "dd_pos d"
  have len: "length ?r = n" "?p < n"
    using ok by (simp_all add: dedup_ok_def)
  define set' where "set' = (if dd_full d then mdel (?r ! ?p) (dd_set d) else dd_set d)"
  define d1 where "d1 = d\<lparr>dd_ring := ?r[?p := key], dd_set := mput key () set', dd_pos := ?p + 1\<rparr>"
  define d' where "d' = (if ?p + 1 = n then d1\<lparr>dd_pos := 0, dd_full := True\<rparr> else d1)"
  have res: "seen key d = Inr (False, d')"
    using key new len by (simp add: seen_def Let_def set'_def d1_def d'_def)
  have up: "take (?p + 1) (?r[?p := key]) = take ?p ?r @ [key]" "drop (?p + 1) (?r[?p := key]) = drop (?p + 1) ?r"
    using len by (simp_all add: take_Suc_conv_app_nth drop_update_cancel)
  have dr: "drop ?p ?r = ?r ! ?p # drop (?p + 1) ?r"
    using len by (simp add: Cons_nth_drop_Suc)
  have all: "?r[?p := key] = take ?p ?r @ [key]" if "?p + 1 = n"
  proof -
    have "take (?p + 1) (?r[?p := key]) = ?r[?p := key]"
      by (rule take_all) (simp add: len(1) that[symmetric])
    then show ?thesis
      using up(1) by metis
  qed
  have q: "dedupQueue d = (if dd_full d then ?r ! ?p # drop (?p + 1) ?r @ take ?p ?r else take ?p ?r)"
    using dr by (simp add: dedupQueue_def)
  have push: "fifoPush n key (dedupQueue d) = (if dd_full d then drop (?p + 1) ?r @ take ?p ?r else take ?p ?r) @ [key]"
    using len by (simp add: q fifoPush_def)
  have queue: "dedupQueue d' = fifoPush n key (dedupQueue d)"
    unfolding push using up all len by (auto simp: dedupQueue_def d'_def d1_def)
  have d: "distinct (dedupQueue d)" and S: "{k. mget (dd_set d) k \<noteq> None} = set (dedupQueue d)"
    using ok by (simp_all add: dedup_ok_def)
  have "{k. mget set' k \<noteq> None} = (if dd_full d then {k. mget (dd_set d) k \<noteq> None} - {?r ! ?p} else {k. mget (dd_set d) k \<noteq> None})"
    by (auto simp: set'_def split: if_splits)
  also have "\<dots> = set (if dd_full d then drop (?p + 1) ?r @ take ?p ?r else take ?p ?r)"
  proof (cases "dd_full d")
    case True
    then have dq: "dedupQueue d = ?r ! ?p # (drop (?p + 1) ?r @ take ?p ?r)"
      using q by (simp only: if_True)
    have "?r ! ?p \<notin> set (drop (?p + 1) ?r @ take ?p ?r)"
      using d unfolding dq distinct.simps(2) by (rule conjunct1)
    then show ?thesis
      using True unfolding S dq by (simp only: if_True list.simps(15)) (rule Diff_insert_absorb)
  qed (simp only: S q if_False)
  finally have old: "{k. mget set' k \<noteq> None} = set (if dd_full d then drop (?p + 1) ?r @ take ?p ?r else take ?p ?r)" .
  have "dd_set d' = mput key () set'"
    by (simp add: d'_def d1_def)
  then have "{k. mget (dd_set d') k \<noteq> None} = insert key {k. mget set' k \<noteq> None}"
    by auto
  also have "\<dots> = set (fifoPush n key (dedupQueue d))"
    unfolding old push set_append by (simp only: list.set Un_insert_right Un_empty_right)
  finally have "{k. mget (dd_set d') k \<noteq> None} = set (fifoPush n key (dedupQueue d))" .
  moreover have "distinct (fifoPush n key (dedupQueue d))"
    using d False by (rule fifoPush_distinct)
  moreover have "length (dd_ring d') = n" "dd_pos d' < n"
    using len by (auto simp: d'_def d1_def)
  ultimately have "dedup_ok n d'"
    unfolding dedup_ok_def queue by blast
  then show ?thesis
    using res queue False by simp
qed

text \<open>A sequence of messages, and what it should answer: whether an id is among the last \<open>n\<close> that were new.\<close>

fun seenAll :: "bytes list \<Rightarrow> msgIdDedup \<Rightarrow> dedup_error + (bool list \<times> msgIdDedup)" where
  "seenAll [] d = Inr ([], d)"
| "seenAll (k # ks) d = rbind (seen k d) (\<lambda>(b, d). rbind (seenAll ks d) (\<lambda>(bs, d). Inr (b # bs, d)))"

definition lastN :: "nat \<Rightarrow> 'a list \<Rightarrow> 'a list" where
  "lastN n xs = drop (length xs - n) xs"

fun windowAnswers :: "nat \<Rightarrow> bytes list \<Rightarrow> bytes list \<Rightarrow> bool list" where
  "windowAnswers n acc [] = []"
| "windowAnswers n acc (k # ks) =
     (if k \<in> set (lastN n acc) then True # windowAnswers n acc ks else False # windowAnswers n (acc @ [k]) ks)"

lemma lastN_snoc: "0 < n \<Longrightarrow> fifoPush n k (lastN n acc) = lastN n (acc @ [k])"
proof -
  assume n: "0 < n"
  show ?thesis
  proof (cases "n \<le> length acc")
    case True
    then have "Suc (length acc) - n = Suc (length acc - n)"
      by simp
    then show ?thesis
      using True n by (simp add: fifoPush_def lastN_def drop_Suc tl_drop)
  qed (use n in \<open>simp add: fifoPush_def lastN_def\<close>)
qed

lemma seenAll_window:
  assumes "0 < n" and "dedup_ok n d" and "dedupQueue d = lastN n acc" and "\<forall>k \<in> set ks. length k = msgIdLen"
  shows "\<exists>d'. seenAll ks d = Inr (windowAnswers n acc ks, d') \<and> dedup_ok n d'"
  using assms(2-)
proof (induction ks arbitrary: d acc)
  case (Cons k ks)
  obtain d1 where d1: "seen k d = Inr (k \<in> set (dedupQueue d), d1)" "dedup_ok n d1"
    "dedupQueue d1 = (if k \<in> set (dedupQueue d) then dedupQueue d else fifoPush n k (dedupQueue d))"
    using seen_ok[OF Cons.prems(1), of k] Cons.prems(3) by auto
  show ?case
  proof (cases "k \<in> set (lastN n acc)")
    case True
    then show ?thesis
      using Cons.IH[OF d1(2), of acc] Cons.prems d1 by auto
  next
    case False
    then show ?thesis
      using Cons.IH[OF d1(2), of "acc @ [k]"] Cons.prems d1 lastN_snoc[OF assms(1), of k acc] by auto
  qed
qed simp

text \<open>
  C37. The duplicate cache of size \<open>n > 0\<close> never fails and answers for every sequence of message ids whether the id is
  one of the last \<open>n\<close> ids that were new; it never holds more than \<open>n\<close> ids.\<close>

theorem dedup_window:
  assumes "0 < n" and "\<forall>k \<in> set ids. length k = msgIdLen"
  shows "\<exists>d. seenAll ids (newMsgIdDedup n) = Inr (windowAnswers n [] ids, d)
    \<and> card {k. mget (dd_set d) k \<noteq> None} \<le> n"
proof -
  obtain d where d: "seenAll ids (newMsgIdDedup n) = Inr (windowAnswers n [] ids, d)" "dedup_ok n d"
    using seenAll_window[OF assms(1), of "newMsgIdDedup n" "[]" ids] newMsgIdDedup_ok[OF assms(1)] assms(2)
    by (auto simp: lastN_def)
  have "length (dedupQueue d) \<le> n"
    using d(2) by (auto simp: dedup_ok_def dedupQueue_def)
  moreover have "{k. mget (dd_set d) k \<noteq> None} = set (dedupQueue d)"
    using d(2) by (simp add: dedup_ok_def)
  ultimately have "card {k. mget (dd_set d) k \<noteq> None} \<le> n"
    using card_length[of "dedupQueue d"] by simp
  then show ?thesis
    using d(1) by blast
qed

theorem dedup_window_witness:
  "\<exists>d. seenAll [replicate 16 CHR ''a'', replicate 16 CHR ''b'', replicate 16 CHR ''a''] (newMsgIdDedup 1)
      = Inr ([False, False, False], d)
    \<and> card {k. mget (dd_set d) k \<noteq> None} \<le> 1"
proof -
  let ?ids = "[replicate 16 CHR ''a'', replicate 16 CHR ''b'', replicate 16 CHR ''a'']"
  have "windowAnswers 1 [] ?ids = [False, False, False]"
    by (simp add: lastN_def numeral_eq_Suc)
  then show ?thesis
    using dedup_window[of 1 ?ids] by (simp add: msgIdLen_def del: windowAnswers.simps)
qed

section \<open>Rate limits\<close>

record 'l limiterOps =
  lo_New :: 'l
  lo_Allow :: "int \<Rightarrow> 'l \<Rightarrow> bool \<times> 'l"

record 'l peerRateLimiter =
  rl_peers :: "(string, 'l \<times> int) gomap"
  rl_lastGC :: int

definition rateLimiterIdleTimeout :: int where
  "rateLimiterIdleTimeout = 60 * 10 ^ 9"

definition newPeerRateLimiter :: "int \<Rightarrow> 'l peerRateLimiter" where
  "newPeerRateLimiter now = \<lparr>rl_peers = [], rl_lastGC = now\<rparr>"

definition allow :: "'l limiterOps \<Rightarrow> int \<Rightarrow> string \<Rightarrow> 'l peerRateLimiter \<Rightarrow> bool \<times> 'l peerRateLimiter" where
  "allow O' now peerId r =
     (let r = (if now - rl_lastGC r > rateLimiterIdleTimeout
               then r\<lparr>rl_peers := filter (\<lambda>(_, _, used). \<not> now - used > rateLimiterIdleTimeout) (rl_peers r), rl_lastGC := now\<rparr>
               else r);
          lim = (case mget (rl_peers r) peerId of Some (l, _) \<Rightarrow> l | None \<Rightarrow> lo_New O')
      in case lo_Allow O' now lim of (ok, lim) \<Rightarrow> (ok, r\<lparr>rl_peers := mput peerId (lim, now) (rl_peers r)\<rparr>))"

end
