(* ===== verification/StreamPool.thy ===== *)
theory StreamPool
  imports Prelude
begin

text \<open>
  The pool of streams (\<open>net/streampool/streampool.go\<close>, \<open>stream.go\<close>, \<open>streamstat.go\<close>): streams by id, and the
  indexes of stream ids by peer and by tag.

  The write queue of a stream (package \<open>mb\<close>), the interface of messages that take a peer id, the sizes
  of messages and the handler that opens streams are parameters. Every operation runs under the lock of the
  pool, so that it is one step.
\<close>


section \<open>Data\<close>

datatype pool_error = ErrNoPeerId | ErrNoStreamId | ErrStreamNotFound | ErrUnableToConnect | ErrOpenStream
  | ErrQueueFull | FatalNoStream | FatalNoStreamId | PoolPanicNilDereference

record ('q, 'm) queueOps =
  q_New :: "nat \<Rightarrow> 'q"
  q_TryAdd :: "'m \<Rightarrow> 'q \<Rightarrow> 'q option"
  q_Close :: "'q \<Rightarrow> 'q"
  m_SetPeerId :: "string \<Rightarrow> 'm \<Rightarrow> 'm"
  m_Size :: "'m \<Rightarrow> int option"

record streamStat =
  ss_msgCount :: int
  ss_totalSize :: int

record 'q stream =
  st_peerId :: string
  st_closed :: bool
  st_queue :: 'q
  st_stats :: streamStat
  st_tags :: "string list"

record 'q streamPool =
  sp_byPeer :: "(string, u32 list) gomap"
  sp_byTag :: "(string, u32 list) gomap"
  sp_streams :: "(u32, 'q stream) gomap"
  sp_lastStreamId :: u32

definition emptyPool :: "'q streamPool" where
  "emptyPool = \<lparr>sp_byPeer = [], sp_byTag = [], sp_streams = [], sp_lastStreamId = 0\<rparr>"

section \<open>Statistics and writing\<close>

definition AddMessage :: "('q, 'm) queueOps \<Rightarrow> 'm \<Rightarrow> streamStat \<Rightarrow> streamStat" where
  "AddMessage Q msg st =
     (case m_Size Q msg of
        Some n \<Rightarrow> st\<lparr>ss_totalSize := ss_totalSize st + n, ss_msgCount := ss_msgCount st + 1\<rparr>
      | None \<Rightarrow> st\<lparr>ss_msgCount := ss_msgCount st + 1\<rparr>)"

definition RemoveMessage :: "('q, 'm) queueOps \<Rightarrow> 'm \<Rightarrow> streamStat \<Rightarrow> streamStat" where
  "RemoveMessage Q msg st =
     (case m_Size Q msg of
        Some n \<Rightarrow> st\<lparr>ss_totalSize := (if ss_totalSize st \<ge> n then ss_totalSize st - n else 0), ss_msgCount := ss_msgCount st - 1\<rparr>
      | None \<Rightarrow> st\<lparr>ss_msgCount := ss_msgCount st - 1\<rparr>)"

text \<open>\<open>write\<close>: the flag says whether the message was queued.\<close>

definition writeStream :: "('q, 'm) queueOps \<Rightarrow> 'm \<Rightarrow> 'q stream \<Rightarrow> bool \<times> 'q stream" where
  "writeStream Q msg sr =
     (let m = m_SetPeerId Q (st_peerId sr) msg;
          sr = sr\<lparr>st_stats := AddMessage Q m (st_stats sr)\<rparr>
      in case q_TryAdd Q m (st_queue sr) of
           Some q \<Rightarrow> (True, sr\<lparr>st_queue := q\<rparr>)
         | None \<Rightarrow> (False, sr\<lparr>st_stats := RemoveMessage Q m (st_stats sr)\<rparr>))"

definition writeTo :: "('q, 'm) queueOps \<Rightarrow> 'm \<Rightarrow> u32 \<Rightarrow> 'q streamPool \<Rightarrow> pool_error + (bool \<times> 'q streamPool)" where
  "writeTo Q msg streamId s =
     (case mget (sp_streams s) streamId of
        None \<Rightarrow> Inl PoolPanicNilDereference
      | Some sr \<Rightarrow> (case writeStream Q msg sr of (ok, sr) \<Rightarrow>
          Inr (ok, s\<lparr>sp_streams := mput streamId sr (sp_streams s)\<rparr>)))"

section \<open>Indexes\<close>

definition idsOf :: "(string, u32 list) gomap \<Rightarrow> string \<Rightarrow> u32 list" where
  "idsOf m key = (case mget m key of Some ids \<Rightarrow> ids | None \<Rightarrow> [])"

definition addId :: "string \<Rightarrow> u32 \<Rightarrow> (string, u32 list) gomap \<Rightarrow> (string, u32 list) gomap" where
  "addId key streamId m = mput key (idsOf m key @ [streamId]) m"

text \<open>The function \<open>removeStream\<close>; without the id it ends the process.\<close>

definition removeId :: "string \<Rightarrow> u32 \<Rightarrow> (string, u32 list) gomap \<Rightarrow> pool_error + (string, u32 list) gomap" where
  "removeId key streamId m =
     (let ids = idsOf m key
      in if streamId \<notin> set ids then Inl FatalNoStreamId
         else if remove1 streamId ids = [] then Inr (mdel key m)
         else Inr (mput key (remove1 streamId ids) m))"

section \<open>Operations\<close>

definition addStream ::
    "('q, 'm) queueOps \<Rightarrow> string option \<Rightarrow> int \<Rightarrow> string list \<Rightarrow> 'q streamPool \<Rightarrow> pool_error + (u32 \<times> 'q streamPool)" where
  "addStream Q ctxPeerId queueSize tags s =
     (case ctxPeerId of
        None \<Rightarrow> Inl ErrNoPeerId
      | Some peerId \<Rightarrow>
          (let streamId = sp_lastStreamId s + 1;
               queueSize = (if queueSize \<le> 0 then 100 else queueSize);
               st = \<lparr>st_peerId = peerId, st_closed = False, st_queue = q_New Q (nat queueSize),
                     st_stats = \<lparr>ss_msgCount = 0, ss_totalSize = 0\<rparr>, st_tags = tags\<rparr>
           in Inr (streamId, s\<lparr>sp_lastStreamId := streamId, sp_streams := mput streamId st (sp_streams s),
                sp_byPeer := addId peerId streamId (sp_byPeer s),
                sp_byTag := fold (\<lambda>tag. addId tag streamId) tags (sp_byTag s)\<rparr>)))"

definition Streams :: "string list \<Rightarrow> 'q streamPool \<Rightarrow> pool_error + u32 list" where
  "Streams tags s =
     (let ids = concat (map (idsOf (sp_byTag s)) tags)
      in if list_all (\<lambda>i. mget (sp_streams s) i \<noteq> None) ids then Inr ids else Inl PoolPanicNilDereference)"

text \<open>Writing to the first stream that takes the message; the flag says whether one did.\<close>

fun writeFirst :: "('q, 'm) queueOps \<Rightarrow> 'm \<Rightarrow> u32 list \<Rightarrow> 'q streamPool \<Rightarrow> pool_error + (bool \<times> 'q streamPool)" where
  "writeFirst Q msg [] s = Inr (False, s)"
| "writeFirst Q msg (i # is) s =
     rbind (writeTo Q msg i s) (\<lambda>(ok, s). if ok then Inr (True, s) else writeFirst Q msg is s)"

definition SendById :: "('q, 'm) queueOps \<Rightarrow> 'm \<Rightarrow> string list \<Rightarrow> 'q streamPool \<Rightarrow> pool_error + 'q streamPool" where
  "SendById Q msg peerIds s =
     (let ids = concat (map (idsOf (sp_byPeer s)) peerIds)
      in if ids = [] then Inl ErrUnableToConnect else rbind (writeFirst Q msg ids s) (\<lambda>(_, s). Inr s))"

text \<open>The streams of a broadcast: with several tags a stream is taken once.\<close>

definition broadcastIds :: "string list \<Rightarrow> 'q streamPool \<Rightarrow> u32 list" where
  "broadcastIds tags s =
     (let ids = concat (map (idsOf (sp_byTag s)) tags)
      in if length tags > 1 then rev (remdups (rev ids)) else ids)"

fun writeAll :: "('q, 'm) queueOps \<Rightarrow> 'm \<Rightarrow> u32 list \<Rightarrow> 'q streamPool \<Rightarrow> pool_error + 'q streamPool" where
  "writeAll Q msg [] s = Inr s"
| "writeAll Q msg (i # is) s = rbind (writeTo Q msg i s) (\<lambda>(_, s). writeAll Q msg is s)"

definition Broadcast :: "('q, 'm) queueOps \<Rightarrow> 'm \<Rightarrow> string list \<Rightarrow> 'q streamPool \<Rightarrow> pool_error + 'q streamPool" where
  "Broadcast Q msg tags s = writeAll Q msg (broadcastIds tags s) s"

text \<open>The loop of \<open>AddTagsCtx\<close> over the tags: those the stream does not have yet.\<close>

fun newTags :: "string list \<Rightarrow> string list \<Rightarrow> string list" where
  "newTags have [] = []"
| "newTags have (t # ts) = (if t \<in> set have then newTags have ts else t # newTags (have @ [t]) ts)"

definition AddTagsCtx :: "u32 option \<Rightarrow> string list \<Rightarrow> 'q streamPool \<Rightarrow> pool_error + 'q streamPool" where
  "AddTagsCtx ctxStreamId tags s =
     (case ctxStreamId of
        None \<Rightarrow> Inl ErrNoStreamId
      | Some streamId \<Rightarrow>
          (case mget (sp_streams s) streamId of
             None \<Rightarrow> Inl ErrStreamNotFound
           | Some st \<Rightarrow>
               (let new = newTags (st_tags st) tags
                in Inr (s\<lparr>sp_streams := mput streamId (st\<lparr>st_tags := st_tags st @ new\<rparr>) (sp_streams s),
                     sp_byTag := fold (\<lambda>tag. addId tag streamId) new (sp_byTag s)\<rparr>))))"

definition dropTags :: "u32 \<Rightarrow> string list \<Rightarrow> 'q stream \<Rightarrow> 'q streamPool \<Rightarrow> pool_error + 'q streamPool" where
  "dropTags streamId tags st s =
     rbind (rfold (\<lambda>t m. removeId t streamId m) (filter (\<lambda>t. t \<in> set tags) (st_tags st)) (sp_byTag s)) (\<lambda>byTag.
       Inr (s\<lparr>sp_streams := mput streamId (st\<lparr>st_tags := filter (\<lambda>t. t \<notin> set tags) (st_tags st)\<rparr>) (sp_streams s),
              sp_byTag := byTag\<rparr>))"

definition RemoveTagsCtx :: "u32 option \<Rightarrow> string list \<Rightarrow> 'q streamPool \<Rightarrow> pool_error + 'q streamPool" where
  "RemoveTagsCtx ctxStreamId tags s =
     (case ctxStreamId of
        None \<Rightarrow> Inl ErrNoStreamId
      | Some streamId \<Rightarrow>
          (case mget (sp_streams s) streamId of
             None \<Rightarrow> Inl ErrStreamNotFound
           | Some st \<Rightarrow> dropTags streamId tags st s))"

definition RemoveTagsById :: "u32 \<Rightarrow> string list \<Rightarrow> 'q streamPool \<Rightarrow> pool_error + 'q streamPool" where
  "RemoveTagsById streamId tags s =
     (case mget (sp_streams s) streamId of None \<Rightarrow> Inr s | Some st \<Rightarrow> dropTags streamId tags st s)"

text \<open>\<open>removeStream\<close> returns the stream id, peer id and tags that it passes to the close hook.\<close>

definition removeStream :: "u32 \<Rightarrow> 'q streamPool \<Rightarrow> pool_error + ((u32 \<times> string \<times> string list) \<times> 'q streamPool)" where
  "removeStream streamId s =
     (case mget (sp_streams s) streamId of
        None \<Rightarrow> Inl FatalNoStream
      | Some st \<Rightarrow>
          rbind (removeId (st_peerId st) streamId (sp_byPeer s)) (\<lambda>byPeer.
          rbind (rfold (\<lambda>t m. removeId t streamId m) (st_tags st) (sp_byTag s)) (\<lambda>byTag.
            Inr ((streamId, st_peerId st, st_tags st),
              s\<lparr>sp_byPeer := byPeer, sp_byTag := byTag, sp_streams := mdel streamId (sp_streams s)\<rparr>))))"

text \<open>
  \<open>streamClose\<close> of a stream that is in the pool; the mark \<open>closed\<close> makes a second call do nothing, which
  is the case of a stream that is not in the pool any more.
\<close>

definition streamClose :: "u32 \<Rightarrow> 'q streamPool \<Rightarrow> pool_error + ((u32 \<times> string \<times> string list) option \<times> 'q streamPool)" where
  "streamClose streamId s =
     (case mget (sp_streams s) streamId of
        None \<Rightarrow> Inr (None, s)
      | Some st \<Rightarrow> if st_closed st then Inr (None, s)
          else rbind (removeStream streamId s) (\<lambda>(hook, s). Inr (Some hook, s)))"

text \<open>
  \<open>getStreams\<close> with the handler that opens streams, which answers with an error or with the context, the
  tags and the queue size of a stream. An error of \<open>AddStream\<close> is not passed on: the loop starts again. The
  context of the caller is not cancelled meanwhile.
\<close>

type_synonym 'e opener = "string \<Rightarrow> 'e \<Rightarrow> (pool_error + (string option \<times> string list \<times> int)) \<times> 'e"

partial_function (option) getStreams ::
    "('q, 'm) queueOps \<Rightarrow> 'e opener \<Rightarrow> string \<Rightarrow> 'q streamPool \<Rightarrow> 'e
      \<Rightarrow> ((pool_error + u32 list) \<times> 'q streamPool \<times> 'e) option" where
  "getStreams Q open' peerId s e =
     (if idsOf (sp_byPeer s) peerId \<noteq> [] then Some (Inr (idsOf (sp_byPeer s) peerId), s, e)
      else (case open' peerId e of
          (Inl err, e) \<Rightarrow> Some (Inl err, s, e)
        | (Inr (ctxPeerId, tags, queueSize), e) \<Rightarrow>
            (case addStream Q ctxPeerId queueSize tags s of
               Inl _ \<Rightarrow> getStreams Q open' peerId s e
             | Inr (_, s) \<Rightarrow> getStreams Q open' peerId s e)))"

definition sendOne ::
    "('q, 'm) queueOps \<Rightarrow> 'e opener \<Rightarrow> string \<Rightarrow> 'm \<Rightarrow> 'q streamPool \<Rightarrow> 'e
      \<Rightarrow> ((pool_error + (pool_error option \<times> 'q streamPool)) \<times> 'e) option" where
  "sendOne Q open' peerId msg s e =
     (case getStreams Q open' peerId s e of
        None \<Rightarrow> None
      | Some (Inl err, s, e) \<Rightarrow> Some (Inr (Some err, s), e)
      | Some (Inr ids, s, e) \<Rightarrow>
          Some (rbind (writeFirst Q msg ids s) (\<lambda>(ok, s). Inr (if ok then None else Some ErrQueueFull, s)), e))"

declare getStreams.simps [code]

section \<open>The indexes are right\<close>

text \<open>
  The lists of an index hold the ids of the streams, each as often as the stream has the key, and no list is
  empty.
\<close>

definition indexOk :: "('s \<Rightarrow> string list) \<Rightarrow> (u32, 's) gomap \<Rightarrow> (string, u32 list) gomap \<Rightarrow> bool" where
  "indexOk keysOf streams m \<longleftrightarrow> (\<forall>key. mget m key \<noteq> Some []) \<and>
     (\<forall>key i. count_list (idsOf m key) i = (case mget streams i of None \<Rightarrow> 0 | Some st \<Rightarrow> count_list (keysOf st) key))"

definition pool_ok :: "'q streamPool \<Rightarrow> bool" where
  "pool_ok s \<longleftrightarrow> indexOk (\<lambda>st. [st_peerId st]) (sp_streams s) (sp_byPeer s)
     \<and> indexOk st_tags (sp_streams s) (sp_byTag s)"

lemma idsOf_addId: "idsOf (addId key i m) k = (if k = key then idsOf m k @ [i] else idsOf m k)"
  by (simp add: idsOf_def addId_def)

lemma count_addIds: "count_list (idsOf (fold (\<lambda>key. addId key i) ks m) k) j
    = count_list (idsOf m k) j + (if j = i then count_list ks k else 0)"
  by (induction ks arbitrary: m) (auto simp: idsOf_addId)

lemma nonempty_addIds: "(\<forall>key. mget m key \<noteq> Some []) \<Longrightarrow> mget (fold (\<lambda>key. addId key i) ks m) k \<noteq> Some []"
  by (induction ks arbitrary: m) (auto simp: addId_def)

lemma count_list_remove1: "count_list (remove1 x xs) y = (if x = y then count_list xs y - 1 else count_list xs y)"
  by (induction xs) (auto simp: count_list_0_iff[symmetric] Suc_le_eq)

lemma removeId_result:
  assumes "i \<in> set (idsOf m key)" and "\<forall>k. mget m k \<noteq> Some []"
  shows "\<exists>m'. removeId key i m = Inr m' \<and> (\<forall>k. mget m' k \<noteq> Some [])
    \<and> (\<forall>k. idsOf m' k = (if k = key then remove1 i (idsOf m k) else idsOf m k))"
  using assms by (auto simp: removeId_def Let_def idsOf_def)

lemma removeIds_result:
  assumes "\<forall>k. mget m k \<noteq> Some []" and "\<forall>k. count_list ks k \<le> count_list (idsOf m k) i"
  shows "\<exists>m'. rfold (\<lambda>k m. removeId k i m) ks m = Inr m' \<and> (\<forall>k. mget m' k \<noteq> Some [])
    \<and> (\<forall>k j. count_list (idsOf m' k) j = count_list (idsOf m k) j - (if j = i then count_list ks k else 0))"
  using assms
proof (induction ks arbitrary: m)
  case (Cons k ks)
  have "count_list (idsOf m k) i \<noteq> 0"
    using Cons.prems(2)[rule_format, of k] by auto
  then have "i \<in> set (idsOf m k)"
    by (simp add: count_list_0_iff)
  then obtain m1 where m1: "removeId k i m = Inr m1" "\<forall>k. mget m1 k \<noteq> Some []"
    "\<forall>k'. idsOf m1 k' = (if k' = k then remove1 i (idsOf m k') else idsOf m k')"
    using removeId_result Cons.prems(1) by metis
  have "count_list ks k' \<le> count_list (idsOf m1 k') i" for k'
    using Cons.prems(2)[rule_format, of k'] m1(3) by (auto simp: count_list_remove1 split: if_splits)
  then obtain m2 where "rfold (\<lambda>k m. removeId k i m) ks m1 = Inr m2" "\<forall>k. mget m2 k \<noteq> Some []"
    "\<forall>k j. count_list (idsOf m2 k) j = count_list (idsOf m1 k) j - (if j = i then count_list ks k else 0)"
    using Cons.IH[OF m1(2)] by blast
  with m1 show ?case
    by (auto simp: count_list_remove1)
qed simp

lemma indexOk_add:
  assumes "indexOk f streams m" and "mget streams i = None"
  shows "indexOk f (mput i st streams) (fold (\<lambda>key. addId key i) (f st) m)"
  using assms nonempty_addIds[of m] by (auto simp: indexOk_def count_addIds)

lemma indexOk_more:
  assumes "indexOk f streams m" and "mget streams i = Some st" and "f st' = f st @ ks"
  shows "indexOk f (mput i st' streams) (fold (\<lambda>key. addId key i) ks m)"
  using assms nonempty_addIds[of m] by (auto simp: indexOk_def count_addIds)

lemma indexOk_same:
  assumes "indexOk f streams m" and "mget streams i = Some st" and "f st' = f st"
  shows "indexOk f (mput i st' streams) m"
  using indexOk_more[OF assms(1,2), of st' "[]"] assms(3) by simp

lemma count_filter: "count_list (filter P xs) x = (if P x then count_list xs x else 0)"
  by (induction xs) auto

lemma indexOk_drop:
  assumes ok: "indexOk f streams m" and st: "mget streams i = Some st" and st': "f st' = filter (\<lambda>k. k \<notin> set ks) (f st)"
  shows "\<exists>m'. rfold (\<lambda>k m. removeId k i m) (filter (\<lambda>k. k \<in> set ks) (f st)) m = Inr m'
    \<and> indexOk f (mput i st' streams) m'"
proof -
  have c: "count_list (idsOf m k) j = (case mget streams j of None \<Rightarrow> 0 | Some st \<Rightarrow> count_list (f st) k)" for k j
    using ok by (simp add: indexOk_def)
  have pre: "\<forall>k. mget m k \<noteq> Some []" "\<forall>k. count_list (filter (\<lambda>k. k \<in> set ks) (f st)) k \<le> count_list (idsOf m k) i"
    using ok st c by (simp_all add: indexOk_def count_filter)
  obtain m' where m': "rfold (\<lambda>k m. removeId k i m) (filter (\<lambda>k. k \<in> set ks) (f st)) m = Inr m'"
    "\<forall>k. mget m' k \<noteq> Some []"
    "\<forall>k j. count_list (idsOf m' k) j = count_list (idsOf m k) j
      - (if j = i then count_list (filter (\<lambda>k. k \<in> set ks) (f st)) k else 0)"
    using removeIds_result[OF pre] by blast
  then have "indexOk f (mput i st' streams) m'"
    using st st' c by (auto simp: indexOk_def count_filter)
  with m'(1) show ?thesis
    by blast
qed

lemma indexOk_remove:
  assumes ok: "indexOk f streams m" and st: "mget streams i = Some st"
  shows "\<exists>m'. rfold (\<lambda>k m. removeId k i m) (f st) m = Inr m' \<and> indexOk f (mdel i streams) m'"
proof -
  have c: "count_list (idsOf m k) j = (case mget streams j of None \<Rightarrow> 0 | Some st \<Rightarrow> count_list (f st) k)" for k j
    using ok by (simp add: indexOk_def)
  have pre: "\<forall>k. mget m k \<noteq> Some []" "\<forall>k. count_list (f st) k \<le> count_list (idsOf m k) i"
    using ok st c by (simp_all add: indexOk_def)
  obtain m' where m': "rfold (\<lambda>k m. removeId k i m) (f st) m = Inr m'" "\<forall>k. mget m' k \<noteq> Some []"
    "\<forall>k j. count_list (idsOf m' k) j = count_list (idsOf m k) j - (if j = i then count_list (f st) k else 0)"
    using removeIds_result[OF pre] by blast
  then have "indexOk f (mdel i streams) m'"
    using st c by (auto simp: indexOk_def)
  with m'(1) show ?thesis
    by blast
qed

lemma indexOk_ids:
  assumes "indexOk f streams m"
  shows "i \<in> set (idsOf m key) \<longleftrightarrow> (\<exists>st. mget streams i = Some st \<and> key \<in> set (f st))"
proof -
  have "count_list (idsOf m key) i = (case mget streams i of None \<Rightarrow> 0 | Some st \<Rightarrow> count_list (f st) key)"
    using assms by (simp add: indexOk_def)
  then show ?thesis
    using count_list_0_iff[of "idsOf m key" i] count_list_0_iff[of "f (the (mget streams i))" key]
    by (auto split: option.splits)
qed

section \<open>Operations keep them\<close>

lemma pool_ok_empty: "pool_ok emptyPool"
  by (simp add: pool_ok_def emptyPool_def indexOk_def idsOf_def)

text \<open>The id of a new stream is new as long as the counter has not run through all ids.\<close>

lemma addStream_ok:
  assumes ok: "pool_ok s" and fresh: "mget (sp_streams s) (sp_lastStreamId s + 1) = None"
  shows "\<exists>i s'. addStream Q (Some peerId) n tags s = Inr (i, s') \<and> pool_ok s'
    \<and> (\<exists>st. sp_streams s' = mput i st (sp_streams s) \<and> st_peerId st = peerId \<and> st_tags st = tags)"
proof -
  let ?i = "sp_lastStreamId s + 1"
  define st where "st = \<lparr>st_peerId = peerId, st_closed = False, st_queue = q_New Q (nat (if n \<le> 0 then 100 else n)),
    st_stats = \<lparr>ss_msgCount = 0, ss_totalSize = 0\<rparr>, st_tags = tags\<rparr>"
  let ?s = "s\<lparr>sp_lastStreamId := ?i, sp_streams := mput ?i st (sp_streams s), sp_byPeer := addId peerId ?i (sp_byPeer s),
    sp_byTag := fold (\<lambda>tag. addId tag ?i) tags (sp_byTag s)\<rparr>"
  have "addStream Q (Some peerId) n tags s = Inr (?i, ?s)"
    by (simp add: addStream_def Let_def st_def)
  moreover have st: "st_peerId st = peerId" "st_tags st = tags"
    by (simp_all add: st_def)
  have "pool_ok ?s"
    using ok indexOk_add[OF _ fresh, of "\<lambda>st. [st_peerId st]" "sp_byPeer s" st] indexOk_add[OF _ fresh, of st_tags "sp_byTag s" st]
    by (simp add: pool_ok_def st)
  ultimately show ?thesis
    using st by auto
qed

lemma AddTags_ok:
  assumes ok: "pool_ok s" and st: "mget (sp_streams s) i = Some st"
  shows "\<exists>s'. AddTagsCtx (Some i) tags s = Inr s' \<and> pool_ok s'
    \<and> sp_streams s' = mput i (st\<lparr>st_tags := st_tags st @ newTags (st_tags st) tags\<rparr>) (sp_streams s)"
proof -
  let ?new = "newTags (st_tags st) tags"
  let ?st = "st\<lparr>st_tags := st_tags st @ ?new\<rparr>"
  have "indexOk st_tags (mput i ?st (sp_streams s)) (fold (\<lambda>tag. addId tag i) ?new (sp_byTag s))"
    by (rule indexOk_more[OF _ st]) (use ok in \<open>simp_all add: pool_ok_def\<close>)
  moreover have "indexOk (\<lambda>st. [st_peerId st]) (mput i ?st (sp_streams s)) (sp_byPeer s)"
    by (rule indexOk_same[OF _ st]) (use ok in \<open>simp_all add: pool_ok_def\<close>)
  ultimately show ?thesis
    using st by (simp add: AddTagsCtx_def Let_def pool_ok_def)
qed

lemma dropTags_ok:
  assumes ok: "pool_ok s" and st: "mget (sp_streams s) i = Some st"
  shows "\<exists>s'. dropTags i tags st s = Inr s' \<and> pool_ok s'
    \<and> sp_streams s' = mput i (st\<lparr>st_tags := filter (\<lambda>t. t \<notin> set tags) (st_tags st)\<rparr>) (sp_streams s)"
proof -
  let ?st = "st\<lparr>st_tags := filter (\<lambda>t. t \<notin> set tags) (st_tags st)\<rparr>"
  obtain m' where "rfold (\<lambda>k m. removeId k i m) (filter (\<lambda>k. k \<in> set tags) (st_tags st)) (sp_byTag s) = Inr m'"
    "indexOk st_tags (mput i ?st (sp_streams s)) m'"
    using indexOk_drop[of st_tags "sp_streams s" "sp_byTag s" i st ?st tags] ok st by (auto simp: pool_ok_def)
  then show ?thesis
    using ok st indexOk_same[of "\<lambda>st. [st_peerId st]" "sp_streams s" "sp_byPeer s" i st ?st]
    by (auto simp: dropTags_def pool_ok_def)
qed

lemma removeStream_ok:
  assumes ok: "pool_ok s" and st: "mget (sp_streams s) i = Some st"
  shows "\<exists>s'. removeStream i s = Inr ((i, st_peerId st, st_tags st), s') \<and> pool_ok s' \<and> sp_streams s' = mdel i (sp_streams s)"
proof -
  obtain p where "removeId (st_peerId st) i (sp_byPeer s) = Inr p" "indexOk (\<lambda>st. [st_peerId st]) (mdel i (sp_streams s)) p"
    using indexOk_remove[of "\<lambda>st. [st_peerId st]" "sp_streams s" "sp_byPeer s" i st] ok st
    by (auto simp: pool_ok_def result_simps)
  moreover obtain m where "rfold (\<lambda>k m. removeId k i m) (st_tags st) (sp_byTag s) = Inr m"
    "indexOk st_tags (mdel i (sp_streams s)) m"
    using indexOk_remove[of st_tags "sp_streams s" "sp_byTag s" i st] ok st by (auto simp: pool_ok_def)
  ultimately show ?thesis
    using st by (simp add: removeStream_def pool_ok_def)
qed

text \<open>Writing to a stream changes its queue and its statistics.\<close>

lemma writeStream_keys: "st_peerId (snd (writeStream Q msg sr)) = st_peerId sr" "st_tags (snd (writeStream Q msg sr)) = st_tags sr"
  by (simp_all add: writeStream_def Let_def split: option.splits)

lemma writeTo_ok:
  assumes ok: "pool_ok s" and st: "mget (sp_streams s) i = Some st"
  shows "\<exists>b s'. writeTo Q msg i s = Inr (b, s') \<and> pool_ok s'
    \<and> sp_streams s' = mput i (snd (writeStream Q msg st)) (sp_streams s) \<and> sp_byTag s' = sp_byTag s \<and> sp_byPeer s' = sp_byPeer s"
proof -
  let ?st = "snd (writeStream Q msg st)"
  have "pool_ok (s\<lparr>sp_streams := mput i ?st (sp_streams s)\<rparr>)"
    using ok st indexOk_same[of "\<lambda>st. [st_peerId st]" "sp_streams s" "sp_byPeer s" i st ?st]
      indexOk_same[of st_tags "sp_streams s" "sp_byTag s" i st ?st]
    by (simp add: pool_ok_def writeStream_keys)
  then show ?thesis
    using st by (auto simp: writeTo_def split_beta)
qed

lemma writeAll_ok:
  assumes "pool_ok s" and "distinct is" and "\<forall>i \<in> set is. mget (sp_streams s) i \<noteq> None"
  shows "\<exists>s'. writeAll Q msg is s = Inr s' \<and> pool_ok s'
    \<and> (\<forall>i. mget (sp_streams s') i
        = (if i \<in> set is then map_option (\<lambda>st. snd (writeStream Q msg st)) (mget (sp_streams s) i) else mget (sp_streams s) i))"
  using assms
proof (induction "is" arbitrary: s)
  case (Cons i "is")
  then obtain st where st: "mget (sp_streams s) i = Some st"
    by auto
  obtain b s1 where s1: "writeTo Q msg i s = Inr (b, s1)" "pool_ok s1"
    "sp_streams s1 = mput i (snd (writeStream Q msg st)) (sp_streams s)"
    using writeTo_ok[OF Cons.prems(1) st, of Q msg] by blast
  have "distinct is" "\<forall>j \<in> set is. mget (sp_streams s1) j \<noteq> None"
    using Cons.prems(2,3) s1(3) by auto
  then obtain s2 where s2: "writeAll Q msg is s1 = Inr s2" "pool_ok s2"
    "\<forall>j. mget (sp_streams s2) j
        = (if j \<in> set is then map_option (\<lambda>st. snd (writeStream Q msg st)) (mget (sp_streams s1) j) else mget (sp_streams s1) j)"
    using Cons.IH[OF s1(2)] by blast
  have "mget (sp_streams s2) j = (if j \<in> set (i # is) then map_option (\<lambda>st. snd (writeStream Q msg st)) (mget (sp_streams s) j)
      else mget (sp_streams s) j)" for j
    using s2(3) s1(3) st Cons.prems(2) by auto
  then show ?case
    using s1(1) s2(1,2) by simp
qed simp

definition tagsDistinct :: "'q streamPool \<Rightarrow> bool" where
  "tagsDistinct s \<longleftrightarrow> (\<forall>i st. mget (sp_streams s) i = Some st \<longrightarrow> distinct (st_tags st))"

lemma newTags_distinct: "distinct have' \<Longrightarrow> distinct (have' @ newTags have' ts)"
proof (induction have' ts rule: newTags.induct)
  case (2 h t ts)
  then show ?case
    by (cases "t \<in> set h") simp_all
qed simp

lemma newTags_set: "set have' \<union> set (newTags have' ts) = set have' \<union> set ts"
  by (induction have' ts rule: newTags.induct) auto

lemma distinct_count: "(\<forall>x. count_list xs x \<le> 1) \<Longrightarrow> distinct xs"
proof (induction xs)
  case (Cons x xs)
  then have "count_list (x # xs) x \<le> 1" "\<forall>y. count_list xs y \<le> 1"
    by (metis Cons.prems, metis Cons.prems count_list.simps(2) le_Suc_eq add.commute add_leD1)
  then show ?case
    using Cons.IH by (simp add: count_list_0_iff)
qed simp

lemma count_distinct: "distinct xs \<Longrightarrow> count_list xs x \<le> Suc 0"
  by (induction xs) (auto simp: count_list_0_iff)

lemma broadcastIds_ok:
  assumes ok: "pool_ok s" and tags: "tagsDistinct s"
  shows "distinct (broadcastIds tags s)"
    and "i \<in> set (broadcastIds tags s) \<longleftrightarrow> (\<exists>st. mget (sp_streams s) i = Some st \<and> set (st_tags st) \<inter> set tags \<noteq> {})"
proof -
  have ix: "indexOk st_tags (sp_streams s) (sp_byTag s)"
    using ok by (simp add: pool_ok_def)
  have "count_list (idsOf (sp_byTag s) t) j \<le> 1" for t j
    using ix tags by (auto simp: indexOk_def tagsDistinct_def intro: count_distinct split: option.splits)
  then have "distinct (idsOf (sp_byTag s) t)" for t
    by (intro distinct_count allI)
  then show "distinct (broadcastIds tags s)"
    by (cases tags rule: remdups_adj.cases) (simp_all add: broadcastIds_def Let_def)
  show "i \<in> set (broadcastIds tags s) \<longleftrightarrow> (\<exists>st. mget (sp_streams s) i = Some st \<and> set (st_tags st) \<inter> set tags \<noteq> {})"
    using indexOk_ids[OF ix, of i] by (auto simp: broadcastIds_def Let_def)
qed

text \<open>A handler whose streams carry no peer id makes \<open>getStreams\<close> open streams for ever.\<close>

definition neverNamed :: "'e opener \<Rightarrow> string \<Rightarrow> bool" where
  "neverNamed open' peerId \<longleftrightarrow> (\<forall>e. \<exists>tags n e'. open' peerId e = (Inr (None, tags, n), e'))"

lemma getStreams_loops:
  assumes "neverNamed open' peerId" and "idsOf (sp_byPeer s) peerId = []"
  shows "getStreams Q open' peerId s e = None"
proof (rule ccontr)
  assume "getStreams Q open' peerId s e \<noteq> None"
  then obtain y where y: "getStreams Q open' peerId s e = Some y"
    by blast
  have "\<not> (idsOf (sp_byPeer s) peerId = [] \<and> neverNamed open' peerId)"
  proof (rule getStreams.raw_induct[OF _ y, where P = "\<lambda>Q open' p s e y. \<not> (idsOf (sp_byPeer s) p = [] \<and> neverNamed open' p)"],
      goal_cases)
    case (1 getS Q open' p s e y)
    show ?case
    proof
      assume a: "idsOf (sp_byPeer s) p = [] \<and> neverNamed open' p"
      then obtain tags n e' where "open' p e = (Inr (None, tags, n), e')"
        unfolding neverNamed_def by blast
      then have "getS Q open' p s e' = Some y"
        using 1(2) a by (simp add: addStream_def)
      then show False
        using 1(1) a by blast
    qed
  qed
  with assms show False
    by blast
qed

end
