(* ===== verification/PubService.thy ===== *)
theory PubService
  imports PubTrie PubMessage StreamPool
begin

text \<open>
  The pubsub service (\<open>commonspace/pubsub/service.go\<close>, \<open>deps.go\<close>): the interest of remote streams, which a node
  serves, and of local handlers, on top of the stream pool.

  An operation is a step: the code holds a lock over its changes of the state. Where it takes locks one after the
  other (\<open>CloseSpace\<close>, and \<open>handleUnsubscribe\<close>, which drops the tags of the pool after it has released
  \<open>remoteMu\<close>, and \<open>fanout\<close>, which matches and then writes) the sections are one step of the model: until the
  second section has run, a message can still reach a stream that is unsubscribing. The dependencies (membership,
  encryption, relay, keys, the queues of package \<open>mb\<close> and the token bucket) are parameters, the clock and random
  ids are arguments. \<open>Inl\<close> is a panic or the end of the process in the pool.
\<close>

section \<open>Messages, configuration, dependencies\<close>

record Status =
  su_SpaceId :: string
  su_Topics :: "string list"
  su_Code :: pubsub_error
  su_MsgId :: bytes

datatype PubSubMessage = MsgSubscribe string "string list" | MsgUnsubscribe string "string list"
  | MsgPublish Publish | MsgStatus Status

record Config =
  cf_MaxPayloadSize :: int
  cf_MaxPatternsPerStream :: int
  cf_MaxPatternsPerSpace :: int
  cf_DedupSize :: int
  cf_MaxTimestampSkew :: int

text \<open>\<open>withDefaults\<close> for the fields the model reads; the skew is in nanoseconds.\<close>

definition withDefaults :: "Config \<Rightarrow> Config" where
  "withDefaults c =
     (let c = (if cf_MaxPayloadSize c \<le> 0 then c\<lparr>cf_MaxPayloadSize := 64 * 1024\<rparr> else c);
          c = (if cf_MaxPatternsPerStream c \<le> 0 then c\<lparr>cf_MaxPatternsPerStream := 1000\<rparr> else c);
          c = (if cf_MaxPatternsPerSpace c \<le> 0 then c\<lparr>cf_MaxPatternsPerSpace := 100\<rparr> else c);
          c = (if cf_DedupSize c \<le> 0 then c\<lparr>cf_DedupSize := 4096\<rparr> else c)
      in if cf_MaxTimestampSkew c \<le> 0 then c\<lparr>cf_MaxTimestampSkew := 5 * 60 * 10 ^ 9\<rparr> else c)"

record relayOps =
  ry_IsResponsible :: "string \<Rightarrow> bool"
  ry_IsResponsibleNode :: "string \<Rightarrow> string \<Rightarrow> bool"

record cryptoOps =
  cy_Encrypt :: "string \<Rightarrow> bytes \<Rightarrow> (string \<times> bytes) option"
  cy_Decrypt :: "string \<Rightarrow> string \<Rightarrow> bytes \<Rightarrow> bytes option"

record 'p dispatchItem =
  di_patterns :: "string list"
  di_spaceId :: string
  di_topic :: string
  di_identity :: 'p
  di_payload :: bytes

datatype sendTarget = SpacePeers string | OtherResponsiblePeers string

record ('k, 'p, 'q, 'l) deps =
  dp_Membership :: "(string \<Rightarrow> 'p \<Rightarrow> bool) option"
  dp_Crypto :: "cryptoOps option"
  dp_Peers :: bool
  dp_Relay :: "relayOps option"
  dp_Config :: Config
  dp_Keys :: "('k, 'p) keyOps"
  dp_SignKey :: 'k
  dp_Queue :: "('q, PubSubMessage) queueOps"
  dp_Limiter :: "'l limiterOps"
  dp_DispatchAdd :: "'p dispatchItem \<Rightarrow> 'p dispatchItem list \<Rightarrow> 'p dispatchItem list option"
  dp_DialAdd :: "sendTarget \<times> PubSubMessage \<Rightarrow> (sendTarget \<times> PubSubMessage) list \<Rightarrow> (sendTarget \<times> PubSubMessage) list option"

text \<open>What a handler reads from the context of a message.\<close>

record 'p msgCtx =
  cx_StreamId :: "u32 option"
  cx_PubKey :: "'p option"
  cx_Identity :: "bytes option"

section \<open>State\<close>

type_synonym patternSet = "(string, unit) gomap"

record streamInterest =
  si_account :: string
  si_bySpace :: "(string, patternSet) gomap"
  si_total :: int

record 'h localSub =
  lsub_id :: u64
  lsub_h :: 'h

record ('p, 'q, 'h, 'l) service =
  sv_pool :: "'q streamPool"
  sv_remote :: "(string, patternTrie) gomap"
  sv_streams :: "(u32, streamInterest) gomap"
  sv_localTrie :: "(string, patternTrie) gomap"
  sv_localSubs :: "(string, (string, 'h localSub list) gomap) gomap"
  sv_nextSubId :: u64
  sv_localTopic :: "(string, int) gomap"
  sv_dedup :: msgIdDedup
  sv_rate :: "'l peerRateLimiter"
  sv_dispatch :: "'p dispatchItem list"
  sv_dial :: "(sendTarget \<times> PubSubMessage) list"
  sv_resyncNow :: bool

definition initService :: "('k, 'p, 'q, 'l) deps \<Rightarrow> int \<Rightarrow> ('p, 'q, 'h, 'l) service" where
  "initService D now =
     \<lparr>sv_pool = emptyPool, sv_remote = [], sv_streams = [], sv_localTrie = [], sv_localSubs = [], sv_nextSubId = 0,
      sv_localTopic = [], sv_dedup = newMsgIdDedup (nat (cf_DedupSize (dp_Config D))),
      sv_rate = newPeerRateLimiter now, sv_dispatch = [], sv_dial = [], sv_resyncNow = False\<rparr>"

section \<open>Sending\<close>

definition interestTag :: "string \<Rightarrow> string \<Rightarrow> string" where
  "interestTag spaceId pattern = spaceId @ ''/'' @ pattern"

definition wrapPublish :: "Publish \<Rightarrow> PubSubMessage" where
  "wrapPublish p = MsgPublish p"

text \<open>\<open>pool.Send\<close>: a task for the dial queue, or the error of a full queue.\<close>

definition poolSend :: "('k, 'p, 'q, 'l) deps \<Rightarrow> sendTarget \<Rightarrow> PubSubMessage \<Rightarrow> ('p, 'q, 'h, 'l) service
    \<Rightarrow> pubsub_error option \<times> ('p, 'q, 'h, 'l) service" where
  "poolSend D target msg s =
     (case dp_DialAdd D (target, msg) (sv_dial s) of
        Some q \<Rightarrow> (None, s\<lparr>sv_dial := q\<rparr>)
      | None \<Rightarrow> (Some ErrUnexpected, s))"

definition sendInterest :: "('k, 'p, 'q, 'l) deps \<Rightarrow> string \<Rightarrow> string list \<Rightarrow> bool \<Rightarrow> ('p, 'q, 'h, 'l) service
    \<Rightarrow> ('p, 'q, 'h, 'l) service" where
  "sendInterest D spaceId patterns subscribe s =
     (if \<not> dp_Peers D then s
      else snd (poolSend D (SpacePeers spaceId)
        (if subscribe then MsgSubscribe spaceId patterns else MsgUnsubscribe spaceId patterns) s))"

text \<open>A status to a peer without a stream is lost.\<close>

definition sendStatusMsg :: "('k, 'p, 'q, 'l) deps \<Rightarrow> string \<Rightarrow> Status \<Rightarrow> ('p, 'q, 'h, 'l) service
    \<Rightarrow> pool_error + ('p, 'q, 'h, 'l) service" where
  "sendStatusMsg D peerId st s =
     (case SendById (dp_Queue D) (MsgStatus st) [peerId] (sv_pool s) of
        Inr p \<Rightarrow> Inr (s\<lparr>sv_pool := p\<rparr>)
      | Inl e \<Rightarrow> if e = ErrUnableToConnect then Inr s else Inl e)"

definition sendStatus :: "('k, 'p, 'q, 'l) deps \<Rightarrow> string \<Rightarrow> string \<Rightarrow> string list \<Rightarrow> pubsub_error
    \<Rightarrow> ('p, 'q, 'h, 'l) service \<Rightarrow> pool_error + ('p, 'q, 'h, 'l) service" where
  "sendStatus D peerId spaceId topics code = sendStatusMsg D peerId \<lparr>su_SpaceId = spaceId, su_Topics = topics, su_Code = code, su_MsgId = []\<rparr>"

definition sendPubStatus :: "('k, 'p, 'q, 'l) deps \<Rightarrow> string \<Rightarrow> Publish \<Rightarrow> pubsub_error
    \<Rightarrow> ('p, 'q, 'h, 'l) service \<Rightarrow> pool_error + ('p, 'q, 'h, 'l) service" where
  "sendPubStatus D peerId p code =
     sendStatusMsg D peerId \<lparr>su_SpaceId = pb_SpaceId p, su_Topics = [pb_Topic p], su_Code = code, su_MsgId = pb_MsgId p\<rparr>"

section \<open>Local interest\<close>

definition localSubsOf :: "string \<Rightarrow> string \<Rightarrow> ('p, 'q, 'h, 'l) service \<Rightarrow> 'h localSub list" where
  "localSubsOf spaceId pattern s =
     (case mget (sv_localSubs s) spaceId of
        None \<Rightarrow> []
      | Some m \<Rightarrow> (case mget m pattern of None \<Rightarrow> [] | Some subs \<Rightarrow> subs))"

definition localTopicOf :: "string \<Rightarrow> ('p, 'q, 'h, 'l) service \<Rightarrow> int" where
  "localTopicOf spaceId s = (case mget (sv_localTopic s) spaceId of None \<Rightarrow> 0 | Some n \<Rightarrow> n)"

definition localPatterns :: "string \<Rightarrow> ('p, 'q, 'h, 'l) service \<Rightarrow> string list" where
  "localPatterns spaceId s = (case mget (sv_localSubs s) spaceId of None \<Rightarrow> [] | Some m \<Rightarrow> mkeys m)"

text \<open>\<open>Subscribe\<close> returns the id that its closure passes to \<open>unsubscribe\<close>.\<close>

definition Subscribe :: "('k, 'p, 'q, 'l) deps \<Rightarrow> string \<Rightarrow> string \<Rightarrow> 'h \<Rightarrow> ('p, 'q, 'h, 'l) service
    \<Rightarrow> (pubsub_error + u64) \<times> ('p, 'q, 'h, 'l) service" where
  "Subscribe D spaceId pattern h s =
     (case ValidatePattern pattern of
        Some e \<Rightarrow> (Inl e, s)
      | None \<Rightarrow>
          if localTopicOf spaceId s \<ge> cf_MaxPatternsPerSpace (dp_Config D) then (Inl ErrTooManyTopics, s)
          else
            (let s = (if mget (sv_localTrie s) spaceId = None
                      then s\<lparr>sv_localTrie := mput spaceId newPatternTrie (sv_localTrie s),
                             sv_localSubs := mput spaceId [] (sv_localSubs s)\<rparr>
                      else s);
                 trie = the (mget (sv_localTrie s) spaceId);
                 id' = sv_nextSubId s + 1;
                 subs = localSubsOf spaceId pattern s;
                 m = (case mget (sv_localSubs s) spaceId of None \<Rightarrow> [] | Some m \<Rightarrow> m);
                 s = s\<lparr>sv_nextSubId := id',
                       sv_localSubs := mput spaceId (mput pattern (subs @ [\<lparr>lsub_id = id', lsub_h = h\<rparr>]) m) (sv_localSubs s)\<rparr>
             in if subs = []
                then (Inr id', sendInterest D spaceId [pattern] True
                  (s\<lparr>sv_localTrie := mput spaceId (snd (trieAdd pattern trie)) (sv_localTrie s),
                     sv_localTopic := mput spaceId (localTopicOf spaceId s + 1) (sv_localTopic s)\<rparr>))
                else (Inr id', s)))"

definition removeSub :: "u64 \<Rightarrow> 'h localSub list \<Rightarrow> 'h localSub list" where
  "removeSub id' subs =
     takeWhile (\<lambda>sub. lsub_id sub \<noteq> id') subs @ tl (dropWhile (\<lambda>sub. lsub_id sub \<noteq> id') subs)"

definition unsubscribe :: "('k, 'p, 'q, 'l) deps \<Rightarrow> string \<Rightarrow> string \<Rightarrow> u64 \<Rightarrow> ('p, 'q, 'h, 'l) service
    \<Rightarrow> ('p, 'q, 'h, 'l) service" where
  "unsubscribe D spaceId pattern id' s =
     (let subs = removeSub id' (localSubsOf spaceId pattern s);
          m = (case mget (sv_localSubs s) spaceId of None \<Rightarrow> [] | Some m \<Rightarrow> m)
      in if subs = []
         then
           (let s = (if mget (sv_localSubs s) spaceId = None then s
                     else s\<lparr>sv_localSubs := mput spaceId (mdel pattern m) (sv_localSubs s)\<rparr>);
                s = (case mget (sv_localTrie s) spaceId of
                       None \<Rightarrow> s
                     | Some trie \<Rightarrow>
                         (let trie = snd (trieRemove pattern trie);
                              s = s\<lparr>sv_localTrie := mput spaceId trie (sv_localTrie s),
                                    sv_localTopic := mput spaceId (localTopicOf spaceId s - 1) (sv_localTopic s)\<rparr>
                          in if trieLen trie = 0
                             then s\<lparr>sv_localTrie := mdel spaceId (sv_localTrie s), sv_localSubs := mdel spaceId (sv_localSubs s),
                                    sv_localTopic := mdel spaceId (sv_localTopic s)\<rparr>
                             else s))
            in sendInterest D spaceId [pattern] False s)
         else s\<lparr>sv_localSubs := mput spaceId (mput pattern subs m) (sv_localSubs s)\<rparr>)"

definition SyncInterest :: "('k, 'p, 'q, 'l) deps \<Rightarrow> string \<Rightarrow> ('p, 'q, 'h, 'l) service
    \<Rightarrow> pubsub_error option \<times> ('p, 'q, 'h, 'l) service" where
  "SyncInterest D spaceId s =
     (if localPatterns spaceId s = [] \<or> \<not> dp_Peers D then (None, s)
      else poolSend D (SpacePeers spaceId) (MsgSubscribe spaceId (localPatterns spaceId s)) s)"

text \<open>One round of \<open>resyncLoop\<close>: every space with local interest; an error is logged.\<close>

definition resyncRound :: "('k, 'p, 'q, 'l) deps \<Rightarrow> ('p, 'q, 'h, 'l) service \<Rightarrow> ('p, 'q, 'h, 'l) service" where
  "resyncRound D s = fold (\<lambda>spaceId s. snd (SyncInterest D spaceId s)) (mkeys (sv_localSubs s)) (s\<lparr>sv_resyncNow := False\<rparr>)"

definition triggerResync :: "('p, 'q, 'h, 'l) service \<Rightarrow> ('p, 'q, 'h, 'l) service" where
  "triggerResync s = s\<lparr>sv_resyncNow := True\<rparr>"

section \<open>Delivery to local handlers\<close>

definition enqueueLocalMatched :: "('k, 'p, 'q, 'l) deps \<Rightarrow> string list \<Rightarrow> string \<Rightarrow> string \<Rightarrow> 'p \<Rightarrow> bytes
    \<Rightarrow> ('p, 'q, 'h, 'l) service \<Rightarrow> ('p, 'q, 'h, 'l) service" where
  "enqueueLocalMatched D patterns spaceId topic identity payload s =
     (case dp_DispatchAdd D \<lparr>di_patterns = patterns, di_spaceId = spaceId, di_topic = topic, di_identity = identity,
             di_payload = payload\<rparr> (sv_dispatch s) of
        Some q \<Rightarrow> s\<lparr>sv_dispatch := q\<rparr>
      | None \<Rightarrow> s)"

definition localMatch :: "string \<Rightarrow> string \<Rightarrow> ('p, 'q, 'h, 'l) service \<Rightarrow> string list" where
  "localMatch spaceId topic s = (case mget (sv_localTrie s) spaceId of None \<Rightarrow> [] | Some trie \<Rightarrow> trieMatch trie topic)"

definition enqueueLocal :: "('k, 'p, 'q, 'l) deps \<Rightarrow> string \<Rightarrow> string \<Rightarrow> 'p \<Rightarrow> bytes
    \<Rightarrow> ('p, 'q, 'h, 'l) service \<Rightarrow> ('p, 'q, 'h, 'l) service" where
  "enqueueLocal D spaceId topic identity payload s =
     (let patterns = localMatch spaceId topic s
      in if patterns = [] then s else enqueueLocalMatched D patterns spaceId topic identity payload s)"

text \<open>One turn of \<open>dispatchLoop\<close>: the handlers called, with the item.\<close>

definition dispatchStep :: "('p, 'q, 'h, 'l) service \<Rightarrow> ('h list \<times> 'p dispatchItem) option \<times> ('p, 'q, 'h, 'l) service" where
  "dispatchStep s =
     (case sv_dispatch s of
        [] \<Rightarrow> (None, s)
      | item # rest \<Rightarrow>
          (Some (concat (map (\<lambda>pattern. map lsub_h (localSubsOf (di_spaceId item) pattern s)) (di_patterns item)), item),
           s\<lparr>sv_dispatch := rest\<rparr>))"

text \<open>The clock is in nanoseconds; the difference in milliseconds is a 64-bit number and wraps around.\<close>

definition isStale :: "Config \<Rightarrow> int \<Rightarrow> int \<Rightarrow> bool" where
  "isStale c now timestampMilli =
     (if timestampMilli = 0 then False
      else (let skew = cf_MaxTimestampSkew c div 10 ^ 6; delta = asInt64 ((now div 10 ^ 6 - timestampMilli) mod 2 ^ 64)
        in delta > skew \<or> delta < - skew))"

definition Publish' :: "('k, 'p, 'q, 'l) deps \<Rightarrow> int \<Rightarrow> bytes \<Rightarrow> string \<Rightarrow> string \<Rightarrow> bytes \<Rightarrow> ('p, 'q, 'h, 'l) service
    \<Rightarrow> dedup_error + (pubsub_error option \<times> ('p, 'q, 'h, 'l) service)" where
  "Publish' D now msgId spaceId topic payload s =
     (let K = dp_Keys D; pub = ko_GetPublic K (dp_SignKey D)
      in case ValidateTopic topic of
        Some e \<Rightarrow> Inr (Some e, s)
      | None \<Rightarrow>
          if int (length payload) > cf_MaxPayloadSize (dp_Config D) then Inr (Some ErrInvalidMessage, s)
          else if TopicOwner topic \<noteq> [] \<and> TopicOwner topic \<noteq> ko_Account K pub then Inr (Some ErrTopicNotOwned, s)
          else (case (case dp_Crypto D of Some c \<Rightarrow> cy_Encrypt c spaceId payload | None \<Rightarrow> Some ([], payload)) of
              None \<Rightarrow> Inr (Some ErrCrypto, s)
            | Some (keyId, enc) \<Rightarrow>
                (case signPublish K (dp_SignKey D)
                    \<lparr>pb_SpaceId = spaceId, pb_Topic = topic, pb_MsgId = msgId, pb_KeyId = keyId, pb_Payload = enc,
                     pb_Identity = [], pb_Signature = [], pb_TimestampMilli = now div 10 ^ 6, pb_Relayed = False\<rparr> of
                   Inl e \<Rightarrow> Inr (Some e, s)
                 | Inr p \<Rightarrow>
                     rbind (seen (pb_MsgId p) (sv_dedup s)) (\<lambda>(_, d).
                       let s = enqueueLocal D spaceId topic pub payload (s\<lparr>sv_dedup := d\<rparr>)
                       in Inr (if \<not> dp_Peers D then (None, s) else poolSend D (SpacePeers spaceId) (wrapPublish p) s)))))"

text \<open>The receive path of a client.\<close>

definition receivePublish :: "('k, 'p, 'q, 'l) deps \<Rightarrow> int \<Rightarrow> Publish \<Rightarrow> ('p, 'q, 'h, 'l) service
    \<Rightarrow> dedup_error + ('p, 'q, 'h, 'l) service" where
  "receivePublish D now p s =
     (let patterns = localMatch (pb_SpaceId p) (pb_Topic p) s
      in if patterns = [] then Inr s
      else (case identityOf (dp_Keys D) p of
          Inl _ \<Rightarrow> Inr s
        | Inr identity \<Rightarrow>
            if (case dp_Membership D of None \<Rightarrow> False | Some check \<Rightarrow> \<not> check (pb_SpaceId p) identity) then Inr s
            else if TopicOwner (pb_Topic p) \<noteq> [] \<and> ko_Account (dp_Keys D) identity \<noteq> TopicOwner (pb_Topic p) then Inr s
            else if isStale (dp_Config D) now (pb_TimestampMilli p) then Inr s
            else if verifySignature (dp_Keys D) identity p \<noteq> None then Inr s
            else rbind (seen (pb_MsgId p) (sv_dedup s)) (\<lambda>(dup, d).
              let s = s\<lparr>sv_dedup := d\<rparr>
              in Inr (if dup then s
                 else if pb_KeyId p \<noteq> [] then
                   (case dp_Crypto D of
                      None \<Rightarrow> s
                    | Some c \<Rightarrow> (case cy_Decrypt c (pb_SpaceId p) (pb_KeyId p) (pb_Payload p) of
                        None \<Rightarrow> s
                      | Some payload \<Rightarrow> enqueueLocalMatched D patterns (pb_SpaceId p) (pb_Topic p) identity payload s))
                 else enqueueLocalMatched D patterns (pb_SpaceId p) (pb_Topic p) identity (pb_Payload p) s))))"

section \<open>Remote interest\<close>

definition patternsOf :: "string \<Rightarrow> streamInterest \<Rightarrow> patternSet" where
  "patternsOf spaceId strm = (case mget (si_bySpace strm) spaceId of None \<Rightarrow> [] | Some m \<Rightarrow> m)"

text \<open>The flag says whether the pattern was there.\<close>

definition removeStreamPattern :: "string \<Rightarrow> string \<Rightarrow> streamInterest \<times> patternTrie \<Rightarrow> bool \<times> streamInterest \<times> patternTrie" where
  "removeStreamPattern spaceId pattern = (\<lambda>(strm, trie).
     let patterns = patternsOf spaceId strm
     in if mget patterns pattern = None then (False, strm, trie)
        else
          (let patterns = mdel pattern patterns;
               strm = strm\<lparr>si_total := si_total strm - 1,
                           si_bySpace := (if patterns = [] then mdel spaceId (si_bySpace strm)
                                          else mput spaceId patterns (si_bySpace strm))\<rparr>
           in (True, strm, snd (trieRemove pattern trie))))"

fun removePatterns :: "string \<Rightarrow> string list \<Rightarrow> streamInterest \<times> patternTrie \<Rightarrow> string list \<times> streamInterest \<times> patternTrie" where
  "removePatterns spaceId [] st = ([], st)"
| "removePatterns spaceId (p # ps) st =
     (case removeStreamPattern spaceId p st of (removed, st) \<Rightarrow>
      case removePatterns spaceId ps st of (rs, st) \<Rightarrow> (if removed then p # rs else rs, st))"

text \<open>Writing a stream record and a trie back, with \<open>pruneStream\<close> and \<open>pruneSpace\<close>.\<close>

definition pruneStream :: "u32 \<Rightarrow> streamInterest \<Rightarrow> (u32, streamInterest) gomap \<Rightarrow> (u32, streamInterest) gomap" where
  "pruneStream streamId strm streams = (if si_total strm = 0 then mdel streamId streams else mput streamId strm streams)"

definition pruneSpace :: "string \<Rightarrow> patternTrie \<Rightarrow> (string, patternTrie) gomap \<Rightarrow> (string, patternTrie) gomap" where
  "pruneSpace spaceId trie remote = (if trieLen trie = 0 then mdel spaceId remote else mput spaceId trie remote)"

text \<open>The loop of \<open>handleSubscribe\<close>: accepted and rejected patterns, the set, the total and the trie.\<close>

fun subscribeLoop :: "Config \<Rightarrow> string list \<Rightarrow> patternSet \<Rightarrow> int \<Rightarrow> patternTrie
    \<Rightarrow> string list \<times> string list \<times> patternSet \<times> int \<times> patternTrie" where
  "subscribeLoop c [] pats tot trie = ([], [], pats, tot, trie)"
| "subscribeLoop c (p # ps) pats tot trie =
     (if mget pats p \<noteq> None then subscribeLoop c ps pats tot trie
      else if int (length pats) \<ge> cf_MaxPatternsPerSpace c \<or> tot \<ge> cf_MaxPatternsPerStream c
      then ([], p # ps, pats, tot, trie)
      else (case subscribeLoop c ps (mput p () pats) (tot + 1) (snd (trieAdd p trie)) of
          (acc, rest) \<Rightarrow> (p # acc, rest)))"

definition subscribeErr :: "('k, 'p, 'q, 'l) deps \<Rightarrow> 'p msgCtx \<Rightarrow> string \<Rightarrow> string list \<Rightarrow> pubsub_error option" where
  "subscribeErr D cx spaceId topics =
     (case (cx_StreamId cx, cx_PubKey cx) of
        (Some _, Some identity) \<Rightarrow>
          if validateSpaceId spaceId \<noteq> None then Some ErrInvalidTopic
          else if (case dp_Relay D of None \<Rightarrow> False | Some r \<Rightarrow> \<not> ry_IsResponsible r spaceId) then Some ErrNotResponsible
          else if list_ex (\<lambda>p. ValidatePattern p \<noteq> None) topics then Some ErrInvalidTopic
          else if (case dp_Membership D of None \<Rightarrow> False | Some check \<Rightarrow> \<not> check spaceId identity) then Some ErrNotAMember
          else None
      | _ \<Rightarrow> Some ErrInvalidMessage)"

text \<open>
  What \<open>handleSubscribe\<close> does under \<open>remoteMu\<close>, with the patterns it rejects. When the pool does not know the
  stream any more, the accepted patterns are taken back.
\<close>

definition rollbackInterest :: "string \<Rightarrow> u32 \<Rightarrow> string list \<Rightarrow> streamInterest \<Rightarrow> patternTrie \<Rightarrow> ('p, 'q, 'h, 'l) service
    \<Rightarrow> ('p, 'q, 'h, 'l) service" where
  "rollbackInterest spaceId streamId accepted strm trie s =
     (case removePatterns spaceId accepted (strm, trie) of (_, strm, trie) \<Rightarrow>
        s\<lparr>sv_streams := pruneStream streamId strm (sv_streams s), sv_remote := pruneSpace spaceId trie (sv_remote s)\<rparr>)"

definition newInterest :: "string \<Rightarrow> u32 \<Rightarrow> ('p, 'q, 'h, 'l) service \<Rightarrow> streamInterest" where
  "newInterest account streamId s =
     (case mget (sv_streams s) streamId of
        None \<Rightarrow> \<lparr>si_account = account, si_bySpace = [], si_total = 0\<rparr>
      | Some strm \<Rightarrow> strm)"

definition recordInterest :: "Config \<Rightarrow> string \<Rightarrow> u32 \<Rightarrow> string \<Rightarrow> string list \<Rightarrow> ('p, 'q, 'h, 'l) service
    \<Rightarrow> string list \<times> ('p, 'q, 'h, 'l) service" where
  "recordInterest c account streamId spaceId topics s =
     (let trie = (case mget (sv_remote s) spaceId of None \<Rightarrow> newPatternTrie | Some t \<Rightarrow> t);
          strm = newInterest account streamId s
      in case subscribeLoop c topics (patternsOf spaceId strm) (si_total strm) trie of
         (accepted, rejected, pats, tot, trie) \<Rightarrow>
           let strm = strm\<lparr>si_bySpace := mput spaceId pats (si_bySpace strm), si_total := tot\<rparr>;
               s = s\<lparr>sv_remote := mput spaceId trie (sv_remote s), sv_streams := mput streamId strm (sv_streams s)\<rparr>
           in (rejected,
               if accepted = [] then s
               else (case AddTagsCtx (Some streamId) (map (interestTag spaceId) accepted) (sv_pool s) of
                   Inr pool \<Rightarrow> s\<lparr>sv_pool := pool\<rparr>
                 | Inl _ \<Rightarrow> rollbackInterest spaceId streamId accepted strm trie s)))"

definition handleSubscribe :: "('k, 'p, 'q, 'l) deps \<Rightarrow> 'p msgCtx \<Rightarrow> string \<Rightarrow> string \<Rightarrow> string list \<Rightarrow> ('p, 'q, 'h, 'l) service
    \<Rightarrow> pool_error + ('p, 'q, 'h, 'l) service" where
  "handleSubscribe D cx peerId spaceId topics s =
     (case subscribeErr D cx spaceId topics of
        Some code \<Rightarrow> sendStatus D peerId spaceId topics code s
      | None \<Rightarrow>
          (case recordInterest (dp_Config D) (ko_Account (dp_Keys D) (the (cx_PubKey cx))) (the (cx_StreamId cx)) spaceId topics s of
             (rejected, s) \<Rightarrow>
               if rejected = [] then Inr s else sendStatus D peerId spaceId rejected ErrTooManyTopics s))"

text \<open>An error of \<open>RemoveTagsCtx\<close> is logged.\<close>

definition dropPoolTags :: "u32 option \<Rightarrow> string list \<Rightarrow> ('p, 'q, 'h, 'l) service \<Rightarrow> pool_error + ('p, 'q, 'h, 'l) service" where
  "dropPoolTags streamId tags s =
     (case RemoveTagsCtx streamId tags (sv_pool s) of
        Inr pool \<Rightarrow> Inr (s\<lparr>sv_pool := pool\<rparr>)
      | Inl e \<Rightarrow> if e = ErrStreamNotFound \<or> e = ErrNoStreamId then Inr s else Inl e)"

definition handleUnsubscribe :: "'p msgCtx \<Rightarrow> string \<Rightarrow> string list \<Rightarrow> ('p, 'q, 'h, 'l) service
    \<Rightarrow> pool_error + ('p, 'q, 'h, 'l) service" where
  "handleUnsubscribe cx spaceId topics s =
     (case cx_StreamId cx of
        None \<Rightarrow> Inr s
      | Some streamId \<Rightarrow>
          (case (mget (sv_streams s) streamId, mget (sv_remote s) spaceId) of
             (Some strm, Some trie) \<Rightarrow>
               (let patterns = (if topics = [] then mkeys (patternsOf spaceId strm) else topics)
                in case removePatterns spaceId patterns (strm, trie) of
                   (removed, strm, trie) \<Rightarrow>
                     let s = s\<lparr>sv_streams := pruneStream streamId strm (sv_streams s),
                               sv_remote := pruneSpace spaceId trie (sv_remote s)\<rparr>
                     in if removed = [] then Inr s
                        else dropPoolTags (Some streamId) (map (interestTag spaceId) removed) s)
           | _ \<Rightarrow> Inr s))"

text \<open>The hook of the pool when a stream is gone.\<close>

definition dropSpacePatterns :: "string \<times> patternSet \<Rightarrow> (string, patternTrie) gomap \<Rightarrow> (string, patternTrie) gomap" where
  "dropSpacePatterns = (\<lambda>(spaceId, patterns) remote.
     case mget remote spaceId of
       None \<Rightarrow> remote
     | Some trie \<Rightarrow> pruneSpace spaceId (fold (\<lambda>p t. snd (trieRemove p t)) (mkeys patterns) trie) remote)"

definition onStreamClose :: "('k, 'p, 'q, 'l) deps \<Rightarrow> u32 \<Rightarrow> ('p, 'q, 'h, 'l) service \<Rightarrow> ('p, 'q, 'h, 'l) service" where
  "onStreamClose D streamId s =
     (let s = (if dp_Peers D then triggerResync s else s)
      in case mget (sv_streams s) streamId of
           None \<Rightarrow> s
         | Some strm \<Rightarrow> s\<lparr>sv_remote := fold dropSpacePatterns (si_bySpace strm) (sv_remote s),
                          sv_streams := mdel streamId (sv_streams s)\<rparr>)"

text \<open>Taking the interest of one stream in a space away, as \<open>CloseSpace\<close> and \<open>evictSpaceStreams\<close> do.\<close>

definition evictStream :: "string \<Rightarrow> u32 \<times> streamInterest \<Rightarrow> ('p, 'q, 'h, 'l) service \<Rightarrow> pool_error + ('p, 'q, 'h, 'l) service" where
  "evictStream spaceId = (\<lambda>(streamId, strm) s.
     let pats = patternsOf spaceId strm;
         strm = strm\<lparr>si_total := si_total strm - int (length pats), si_bySpace := mdel spaceId (si_bySpace strm)\<rparr>
     in rbind (RemoveTagsById streamId (map (interestTag spaceId) (mkeys pats)) (sv_pool s)) (\<lambda>pool.
       Inr (s\<lparr>sv_pool := pool, sv_streams := pruneStream streamId strm (sv_streams s)\<rparr>)))"

definition dropTrie :: "string \<Rightarrow> string list \<Rightarrow> ('p, 'q, 'h, 'l) service \<Rightarrow> ('p, 'q, 'h, 'l) service" where
  "dropTrie spaceId ps s =
     (case mget (sv_remote s) spaceId of
        None \<Rightarrow> s
      | Some trie \<Rightarrow> s\<lparr>sv_remote := mput spaceId (fold (\<lambda>p t. snd (trieRemove p t)) ps trie) (sv_remote s)\<rparr>)"

definition evictSpaceStreams :: "string \<Rightarrow> (string \<Rightarrow> bool) \<Rightarrow> ('p, 'q, 'h, 'l) service \<Rightarrow> pool_error + ('p, 'q, 'h, 'l) service" where
  "evictSpaceStreams spaceId evict s =
     rbind (rfold (\<lambda>(streamId, strm) s.
         if patternsOf spaceId strm = [] \<or> \<not> evict (si_account strm) then Inr s
         else evictStream spaceId (streamId, strm) (dropTrie spaceId (mkeys (patternsOf spaceId strm)) s)) (sv_streams s) s)
       (\<lambda>s. case mget (sv_remote s) spaceId of
          None \<Rightarrow> Inr s
        | Some trie \<Rightarrow> Inr (s\<lparr>sv_remote := pruneSpace spaceId trie (sv_remote s)\<rparr>))"

definition EvictMember :: "('k, 'p, 'q, 'l) deps \<Rightarrow> string \<Rightarrow> 'p \<Rightarrow> ('p, 'q, 'h, 'l) service \<Rightarrow> pool_error + ('p, 'q, 'h, 'l) service" where
  "EvictMember D spaceId identity = evictSpaceStreams spaceId (\<lambda>a. a = ko_Account (dp_Keys D) identity)"

definition RevalidateMembers :: "string \<Rightarrow> (string \<Rightarrow> bool) \<Rightarrow> ('p, 'q, 'h, 'l) service \<Rightarrow> pool_error + ('p, 'q, 'h, 'l) service" where
  "RevalidateMembers spaceId isMember = evictSpaceStreams spaceId (\<lambda>a. \<not> isMember a)"

definition CloseSpace :: "('k, 'p, 'q, 'l) deps \<Rightarrow> string \<Rightarrow> ('p, 'q, 'h, 'l) service \<Rightarrow> pool_error + ('p, 'q, 'h, 'l) service" where
  "CloseSpace D spaceId s =
     (let patterns = localPatterns spaceId s;
          s = s\<lparr>sv_localTrie := mdel spaceId (sv_localTrie s), sv_localSubs := mdel spaceId (sv_localSubs s),
                sv_localTopic := mdel spaceId (sv_localTopic s)\<rparr>;
          s = (if patterns \<noteq> [] then sendInterest D spaceId patterns False s else s);
          s = s\<lparr>sv_remote := mdel spaceId (sv_remote s)\<rparr>
      in rfold (\<lambda>(streamId, strm) s. if patternsOf spaceId strm = [] then Inr s else evictStream spaceId (streamId, strm) s)
           (sv_streams s) s)"

section \<open>Relaying\<close>

definition remoteMatch :: "string \<Rightarrow> string \<Rightarrow> ('p, 'q, 'h, 'l) service \<Rightarrow> string list" where
  "remoteMatch spaceId topic s = (case mget (sv_remote s) spaceId of None \<Rightarrow> [] | Some trie \<Rightarrow> trieMatch trie topic)"

definition fanout :: "('k, 'p, 'q, 'l) deps \<Rightarrow> Publish \<Rightarrow> ('p, 'q, 'h, 'l) service \<Rightarrow> pool_error + ('p, 'q, 'h, 'l) service" where
  "fanout D p s =
     (let patterns = remoteMatch (pb_SpaceId p) (pb_Topic p) s
      in if patterns = [] then Inr s
         else rbind (Broadcast (dp_Queue D) (wrapPublish p) (map (interestTag (pb_SpaceId p)) patterns) (sv_pool s)) (\<lambda>pool.
           Inr (s\<lparr>sv_pool := pool\<rparr>)))"

definition relayPublish :: "('k, 'p, 'q, 'l) deps \<Rightarrow> int \<Rightarrow> relayOps \<Rightarrow> 'p msgCtx \<Rightarrow> string \<Rightarrow> Publish \<Rightarrow> ('p, 'q, 'h, 'l) service
    \<Rightarrow> pool_error + ('p, 'q, 'h, 'l) service" where
  "relayPublish D now r cx peerId p s =
     (if \<not> ry_IsResponsible r (pb_SpaceId p) then sendPubStatus D peerId p ErrNotResponsible s
      else if pb_Relayed p then
        (if \<not> ry_IsResponsibleNode r (pb_SpaceId p) peerId then Inr s else fanout D p s)
      else if (case cx_Identity cx of None \<Rightarrow> True | Some i \<Rightarrow> i = [] \<or> pb_Identity p = [] \<or> i \<noteq> pb_Identity p)
        then sendPubStatus D peerId p ErrInvalidMessage s
      else if (case dp_Membership D of
          None \<Rightarrow> False
        | Some check \<Rightarrow> (case cx_PubKey cx of None \<Rightarrow> True | Some k \<Rightarrow> \<not> check (pb_SpaceId p) k))
        then sendPubStatus D peerId p ErrNotAMember s
      else if TopicOwner (pb_Topic p) \<noteq> []
          \<and> (case cx_PubKey cx of None \<Rightarrow> True | Some k \<Rightarrow> ko_Account (dp_Keys D) k \<noteq> TopicOwner (pb_Topic p))
        then sendPubStatus D peerId p ErrTopicNotOwned s
      else (case allow (dp_Limiter D) now peerId (sv_rate s) of (ok, rate) \<Rightarrow>
        let s = s\<lparr>sv_rate := rate\<rparr>
        in if \<not> ok then sendPubStatus D peerId p ErrRateLimited s
           else rbind (fanout D p s) (\<lambda>s.
             Inr (snd (poolSend D (OtherResponsiblePeers (pb_SpaceId p)) (wrapPublish (p\<lparr>pb_Relayed := True\<rparr>)) s)))))"

datatype svc_error = PoolErr pool_error | DedupErr dedup_error

definition handlePublish :: "('k, 'p, 'q, 'l) deps \<Rightarrow> int \<Rightarrow> 'p msgCtx \<Rightarrow> string \<Rightarrow> Publish \<Rightarrow> ('p, 'q, 'h, 'l) service
    \<Rightarrow> svc_error + ('p, 'q, 'h, 'l) service" where
  "handlePublish D now cx peerId p s =
     (if length (pb_MsgId p) \<noteq> msgIdLen \<or> int (length (pb_Payload p)) > cf_MaxPayloadSize (dp_Config D)
        then map_sum PoolErr id (sendPubStatus D peerId p ErrInvalidMessage s)
      else if ValidateTopic (pb_Topic p) \<noteq> None then map_sum PoolErr id (sendPubStatus D peerId p ErrInvalidTopic s)
      else (case dp_Relay D of
          Some r \<Rightarrow> map_sum PoolErr id (relayPublish D now r cx peerId p s)
        | None \<Rightarrow> map_sum DedupErr id (receivePublish D now p s)))"

text \<open>A status is passed to the callback of the host.\<close>

definition HandleMessage :: "('k, 'p, 'q, 'l) deps \<Rightarrow> int \<Rightarrow> 'p msgCtx \<Rightarrow> string \<Rightarrow> PubSubMessage \<Rightarrow> ('p, 'q, 'h, 'l) service
    \<Rightarrow> svc_error + (Status option \<times> ('p, 'q, 'h, 'l) service)" where
  "HandleMessage D now cx peerId msg s =
     (case msg of
        MsgSubscribe spaceId topics \<Rightarrow> map_sum PoolErr (Pair None) (handleSubscribe D cx peerId spaceId topics s)
      | MsgUnsubscribe spaceId topics \<Rightarrow> map_sum PoolErr (Pair None) (handleUnsubscribe cx spaceId topics s)
      | MsgPublish p \<Rightarrow> map_sum id (Pair None) (handlePublish D now cx peerId p s)
      | MsgStatus st \<Rightarrow> Inr (Some st, s))"

end
