(* ===== verification/PubInterest.thy ===== *)
theory PubInterest
  imports PubService
begin

text \<open>
  The interest that a node serves: the interface of a store of patterns, the invariant that ties the records of the
  streams, the tries of the spaces and the tags of the pool together, and that every operation keeps it.
\<close>

section \<open>A store of patterns\<close>

text \<open>What the service relies on: a store that holds a multiset of patterns.\<close>

locale pattern_store =
  fixes new :: 't and ins :: "string \<Rightarrow> 't \<Rightarrow> 't" and del :: "string \<Rightarrow> 't \<Rightarrow> 't"
    and find' :: "'t \<Rightarrow> string \<Rightarrow> string list" and len :: "'t \<Rightarrow> int" and holds :: "'t \<Rightarrow> string multiset \<Rightarrow> bool"
  assumes holds_new: "holds new {#}"
    and holds_ins: "holds t M \<Longrightarrow> holds (ins p t) (add_mset p M)"
    and holds_del: "holds t M \<Longrightarrow> holds (del p t) (M - {#p#})"
    and holds_len: "holds t M \<Longrightarrow> len t = int (card (set_mset M))"
    and holds_find: "holds t M \<Longrightarrow> list_all noWildcard (splitTopic topic) \<Longrightarrow>
      set (find' t topic) = {p \<in> set_mset M. matches (splitTopic p) (splitTopic topic)}"
begin

lemma holds_dels: "holds t M \<Longrightarrow> holds (fold del ps t) (M - mset ps)"
proof (induction ps arbitrary: t M)
  case (Cons p ps)
  have "holds (fold del ps (del p t)) (M - {#p#} - mset ps)"
    using Cons.IH[OF holds_del[OF Cons.prems]] .
  then show ?case
    by simp
qed simp

lemma len_zero: "holds t M \<Longrightarrow> len t = 0 \<longleftrightarrow> M = {#}"
  using holds_len[of t M] by auto

end

lemma trieHolds_len: "trieHolds t M \<Longrightarrow> trieLen t = int (card (set_mset M))"
  by (simp add: trieLen_def trieHolds_def)

interpretation trie: pattern_store newPatternTrie "\<lambda>p t. snd (trieAdd p t)" "\<lambda>p t. snd (trieRemove p t)"
  trieMatch trieLen trieHolds
  by unfold_locales (rule trieHolds_new trieHolds_add(1) trieHolds_remove(1) trieHolds_len trieHolds_match(2); assumption)+

section \<open>The invariant\<close>

definition keysOf :: "('a, 'b) gomap \<Rightarrow> 'a set" where
  "keysOf m = {k. mget m k \<noteq> None}"

text \<open>The patterns of one stream in one space, and those of all streams.\<close>

definition strmPats :: "string \<Rightarrow> streamInterest \<Rightarrow> string set" where
  "strmPats sp strm = keysOf (patternsOf sp strm)"

definition pats :: "(u32, streamInterest) gomap \<Rightarrow> u32 \<Rightarrow> string \<Rightarrow> string set" where
  "pats streams i sp = (case mget streams i of None \<Rightarrow> {} | Some strm \<Rightarrow> strmPats sp strm)"

definition interestM :: "(u32, streamInterest) gomap \<Rightarrow> string \<Rightarrow> string multiset" where
  "interestM streams sp = (\<Sum>i \<in> keysOf streams. mset_set (pats streams i sp))"

definition recordOk :: "Config \<Rightarrow> streamInterest \<Rightarrow> bool" where
  "recordOk c strm \<longleftrightarrow> gm_wf (si_bySpace strm)
     \<and> (\<forall>(sp, ps) \<in> set (si_bySpace strm). gm_wf ps \<and> int (length ps) \<le> cf_MaxPatternsPerSpace c \<and> validateSpaceId sp = None)
     \<and> si_total strm = int (sum_list (map (length \<circ> snd) (si_bySpace strm))) \<and> si_total strm \<le> cf_MaxPatternsPerStream c"

definition remoteTrie :: "(string, patternTrie) gomap \<Rightarrow> string \<Rightarrow> patternTrie" where
  "remoteTrie remote sp = (case mget remote sp of None \<Rightarrow> newPatternTrie | Some t \<Rightarrow> t)"

definition tagsOf :: "(u32, streamInterest) gomap \<Rightarrow> u32 \<Rightarrow> string set" where
  "tagsOf streams i = {interestTag sp p |sp p. p \<in> pats streams i sp}"

text \<open>
  The records of the streams and the pool. \<open>pend\<close> are the streams that the pool has removed and whose close hook has
  not run yet; only such a stream and a stream of the pool has patterns.
\<close>

definition streamsOk :: "Config \<Rightarrow> 'q streamPool \<Rightarrow> u32 set \<Rightarrow> (u32, streamInterest) gomap \<Rightarrow> bool" where
  "streamsOk c pool pend streams \<longleftrightarrow> pool_ok pool \<and> tagsDistinct pool \<and> gm_wf streams
     \<and> (\<forall>i strm. mget streams i = Some strm \<longrightarrow>
          recordOk c strm \<and> (si_total strm = 0 \<or> i \<in> keysOf (sp_streams pool) \<or> i \<in> pend))
     \<and> (\<forall>i st. mget (sp_streams pool) i = Some st \<longrightarrow> set (st_tags st) = tagsOf streams i)
     \<and> pend \<inter> keysOf (sp_streams pool) = {}"

definition triesOk :: "(u32, streamInterest) gomap \<Rightarrow> (string, patternTrie) gomap \<Rightarrow> bool" where
  "triesOk streams remote \<longleftrightarrow> (\<forall>sp. trieHolds (remoteTrie remote sp) (interestM streams sp))"

definition svc_ok :: "('k, 'p, 'q, 'l) deps \<Rightarrow> u32 set \<Rightarrow> ('p, 'q, 'h, 'l) service \<Rightarrow> bool" where
  "svc_ok D pend s \<longleftrightarrow> streamsOk (dp_Config D) (sv_pool s) pend (sv_streams s) \<and> triesOk (sv_streams s) (sv_remote s)
     \<and> dedup_ok (nat (cf_DedupSize (dp_Config D))) (sv_dedup s)"

section \<open>Sets and multisets of patterns\<close>

lemma keysOf_set: "keysOf m = set (mkeys m)"
  by (auto simp: keysOf_def map_of_eq_None_iff)

lemma finite_keysOf [simp]: "finite (keysOf m)"
  by (simp add: keysOf_set)

lemma keysOf_put [simp]: "keysOf (mput k v m) = insert k (keysOf m)"
  by (auto simp: keysOf_def)

lemma keysOf_del [simp]: "keysOf (mdel k m) = keysOf m - {k}"
  by (auto simp: keysOf_def)

lemma keysOf_Nil [simp]: "keysOf [] = {}"
  by (simp add: keysOf_def)

lemma finite_pats [simp]: "finite (pats streams i sp)" "finite (strmPats sp strm)"
  by (simp_all add: pats_def strmPats_def split: option.split)

lemma card_keysOf: "gm_wf m \<Longrightarrow> card (keysOf m) = length m"
  unfolding keysOf_set gm_wf_def using distinct_card[of "mkeys m"] by simp

lemma mset_keys: "gm_wf m \<Longrightarrow> mset (mkeys m) = mset_set (keysOf m)"
  unfolding keysOf_set gm_wf_def by (rule mset_set_set[symmetric])

text \<open>The multiset of a space when only one stream changes.\<close>

lemma interestM_super:
  assumes "finite I" and "keysOf streams \<subseteq> I"
  shows "interestM streams sp = (\<Sum>i \<in> I. mset_set (pats streams i sp))"
  unfolding interestM_def
  by (rule sum.mono_neutral_left[OF assms]) (auto simp: pats_def keysOf_def split: option.split)

lemma interestM_change:
  assumes "\<And>j. j \<noteq> i \<Longrightarrow> pats streams' j sp = pats streams j sp"
  shows "interestM streams' sp = interestM streams sp - mset_set (pats streams i sp) + mset_set (pats streams' i sp)"
proof -
  let ?I = "insert i (keysOf streams \<union> keysOf streams')"
  have split: "interestM str sp = mset_set (pats str i sp) + (\<Sum>j \<in> ?I - {i}. mset_set (pats str j sp))"
    if "keysOf str \<subseteq> ?I" for str
    unfolding interestM_super[OF _ that, simplified] by (subst sum.remove[of ?I i]) auto
  have "(\<Sum>j \<in> ?I - {i}. mset_set (pats streams' j sp)) = (\<Sum>j \<in> ?I - {i}. mset_set (pats streams j sp))"
    using assms by (intro sum.cong) auto
  moreover have "keysOf streams \<subseteq> ?I" "keysOf streams' \<subseteq> ?I"
    by auto
  ultimately show ?thesis
    using split[of streams] split[of streams'] by (simp add: add.commute)
qed

lemma interestM_mem: "p \<in># interestM streams sp \<longleftrightarrow> (\<exists>i. p \<in> pats streams i sp)"
proof -
  have "p \<in># interestM streams sp \<longleftrightarrow> (\<exists>i \<in> keysOf streams. p \<in> pats streams i sp)"
    unfolding interestM_def by (simp add: set_mset_sum)
  then show ?thesis
    by (auto simp: pats_def keysOf_def split: option.splits)
qed

lemma interestTag_inj:
  assumes "slash \<notin> set sp" and "slash \<notin> set sp'"
  shows "interestTag sp p = interestTag sp' p' \<longleftrightarrow> sp = sp' \<and> p = p'"
proof
  assume "interestTag sp p = interestTag sp' p'"
  then have eq: "sp @ slash # p = sp' @ slash # p'"
    by (simp add: interestTag_def)
  moreover have "takeWhile (\<lambda>c. c \<noteq> slash) (x @ slash # y) = x" if "slash \<notin> set x" for x y
    using that by (induction x) auto
  ultimately have "sp = sp'"
    using assms by metis
  with eq show "sp = sp' \<and> p = p'"
    by simp
qed simp

section \<open>One stream changes\<close>

lemma pats_put: "pats (mput i strm streams) j sp = (if j = i then strmPats sp strm else pats streams j sp)"
  by (simp add: pats_def)

lemma pats_del: "pats (mdel i streams) j sp = (if j = i then {} else pats streams j sp)"
  by (simp add: pats_def)

lemma tagsOf_cong: "(\<And>sp. pats streams' i sp = pats streams i sp) \<Longrightarrow> tagsOf streams' i = tagsOf streams i"
  by (simp add: tagsOf_def)

lemma recordOk_empty:
  assumes "recordOk c strm" and "si_total strm = 0"
  shows "strmPats sp strm = {}"
proof (cases "mget (si_bySpace strm) sp")
  case (Some ps)
  then have "(sp, ps) \<in> set (si_bySpace strm)"
    by (rule map_of_SomeD)
  moreover have "sum_list (map (length \<circ> snd) (si_bySpace strm)) = 0"
    using assms by (simp add: recordOk_def)
  ultimately have "ps = []"
    by force
  then show ?thesis
    using Some by (simp add: strmPats_def patternsOf_def)
qed (simp add: strmPats_def patternsOf_def)

lemma pats_pruneStream:
  assumes "recordOk c strm"
  shows "pats (pruneStream i strm streams) j sp = (if j = i then strmPats sp strm else pats streams j sp)"
  using recordOk_empty[OF assms] by (simp add: pruneStream_def pats_put pats_del)

lemma remoteTrie_put: "remoteTrie (mput sp t remote) sp' = (if sp' = sp then t else remoteTrie remote sp')"
  by (simp add: remoteTrie_def)

lemma remoteTrie_prune:
  assumes "trieHolds t M"
  shows "trieHolds (remoteTrie (pruneSpace sp t remote) sp) M"
    and "sp' \<noteq> sp \<Longrightarrow> remoteTrie (pruneSpace sp t remote) sp' = remoteTrie remote sp'"
  using assms trie.len_zero[OF assms] trie.holds_new by (auto simp: pruneSpace_def remoteTrie_def)

text \<open>
  The interest of one stream changes: its record is \<open>strm\<close>, which may be dropped when it is empty, the tags of the
  pool follow, and the trie of every space holds the patterns that the stream has now.
\<close>

definition updated :: "u32 \<Rightarrow> streamInterest \<Rightarrow> (u32, streamInterest) gomap \<Rightarrow> (u32, streamInterest) gomap \<Rightarrow> bool" where
  "updated i strm streams streams' \<longleftrightarrow> streams' = mput i strm streams \<or> streams' = pruneStream i strm streams"

lemma pats_updated:
  assumes "updated i strm streams streams'" and "recordOk c strm"
  shows "pats streams' j sp = (if j = i then strmPats sp strm else pats streams j sp)"
  using assms(1) pats_put pats_pruneStream[OF assms(2)] unfolding updated_def by metis

text \<open>The pool when only the tags of one stream may have changed.\<close>

definition retagged :: "u32 \<Rightarrow> string set \<Rightarrow> 'q streamPool \<Rightarrow> 'q streamPool \<Rightarrow> bool" where
  "retagged i tags pool pool' \<longleftrightarrow> pool_ok pool' \<and> tagsDistinct pool' \<and> keysOf (sp_streams pool') = keysOf (sp_streams pool)
     \<and> (\<forall>st. mget (sp_streams pool') i = Some st \<longrightarrow> set (st_tags st) = tags)
     \<and> (\<forall>j. j \<noteq> i \<longrightarrow> mget (sp_streams pool') j = mget (sp_streams pool) j)"

lemma streamsOk_change:
  assumes ok: "streamsOk c pool pend streams" and i: "si_total strm = 0 \<or> i \<in> keysOf (sp_streams pool) \<or> i \<in> pend"
    and rec: "recordOk c strm" and upd: "updated i strm streams streams'"
    and pool': "retagged i {interestTag sp p |sp p. p \<in> strmPats sp strm} pool pool'"
  shows "streamsOk c pool' pend streams'"
proof -
  note pats = pats_updated[OF upd rec]
  have "gm_wf streams'"
    using ok upd by (auto simp: streamsOk_def pruneStream_def updated_def)
  moreover have "recordOk c strm' \<and> (si_total strm' = 0 \<or> j \<in> keysOf (sp_streams pool') \<or> j \<in> pend)"
    if "mget streams' j = Some strm'" for j strm'
  proof -
    have "j = i \<and> strm' = strm \<or> mget streams j = Some strm'"
      using that upd by (auto simp: pruneStream_def updated_def split: if_splits)
    moreover have "recordOk c strm' \<and> (si_total strm' = 0 \<or> j \<in> keysOf (sp_streams pool) \<or> j \<in> pend)"
      if "mget streams j = Some strm'"
      using ok that unfolding streamsOk_def by blast
    moreover have "keysOf (sp_streams pool') = keysOf (sp_streams pool)"
      using pool' by (simp add: retagged_def)
    ultimately show ?thesis
      using rec i by auto
  qed
  moreover have "set (st_tags st) = tagsOf streams' j" if st: "mget (sp_streams pool') j = Some st" for j st
  proof (cases "j = i")
    case True
    then show ?thesis
      using st pats pool' by (simp add: tagsOf_def retagged_def)
  next
    case False
    then show ?thesis
      using ok tagsOf_cong[of streams' j streams] pats pool' st by (auto simp: streamsOk_def retagged_def)
  qed
  moreover have "pool_ok pool'" "tagsDistinct pool'" "pend \<inter> keysOf (sp_streams pool') = {}"
    using pool' ok by (simp_all add: retagged_def streamsOk_def)
  ultimately show ?thesis
    by (simp add: streamsOk_def)
qed

lemma triesOk_change:
  assumes ok: "triesOk streams remote" and rec: "recordOk c strm" and upd: "updated i strm streams streams'"
    and others: "\<And>sp'. sp' \<noteq> sp \<Longrightarrow> remoteTrie remote' sp' = remoteTrie remote sp' \<and> strmPats sp' strm = pats streams i sp'"
    and trie: "trieHolds (remoteTrie remote' sp) (interestM streams sp - mset_set (pats streams i sp) + mset_set (strmPats sp strm))"
  shows "triesOk streams' remote'"
proof -
  note pats = pats_updated[OF upd rec]
  have "trieHolds (remoteTrie remote' sp') (interestM streams' sp')" for sp'
  proof (cases "sp' = sp")
    case True
    then show ?thesis
      using trie interestM_change[of i streams' sp streams] pats by simp
  next
    case False
    then have "pats streams' j sp' = pats streams j sp'" for j
      using pats others by simp
    then have "interestM streams' sp' = interestM streams sp'"
      using interestM_super[of "keysOf streams \<union> keysOf streams'" streams sp']
        interestM_super[of "keysOf streams \<union> keysOf streams'" streams' sp'] by simp
    then show ?thesis
      using ok others[OF False] by (simp add: triesOk_def)
  qed
  then show ?thesis
    by (simp add: triesOk_def)
qed

section \<open>Records\<close>

lemma length_put: "gm_wf m \<Longrightarrow> length (mput k v m) = (if mget m k = None then Suc (length m) else length m)"
  by (induction m) (auto simp: gm_wf_def)

lemma length_del: "gm_wf m \<Longrightarrow> mget m k \<noteq> None \<Longrightarrow> Suc (length (mdel k m)) = length m"
proof (induction m)
  case (Cons a m)
  then have "mget m k = None" if "k = fst a"
    using that by (auto simp: gm_wf_def map_of_eq_None_iff)
  then have "mdel k m = m" if "k = fst a"
    using that by (auto simp: map_of_eq_None_iff intro: AList.delete_idem)
  then show ?case
    using Cons by (cases a) (auto simp: gm_wf_def split: if_splits)
qed simp

lemma set_put: "set (mput k v m) \<subseteq> insert (k, v) (set m)"
  by (induction m) auto

abbreviation recordTotal :: "(string, patternSet) gomap \<Rightarrow> nat" where
  "recordTotal m \<equiv> sum_list (map (length \<circ> snd) m)"

lemma recordTotal_put:
  "recordTotal (mput sp ps m) + (case mget m sp of None \<Rightarrow> 0 | Some ps \<Rightarrow> length ps) = recordTotal m + length ps"
  by (induction m) (auto split: option.splits)

lemma recordTotal_del:
  assumes "gm_wf m"
  shows "recordTotal (mdel sp m) + (case mget m sp of None \<Rightarrow> 0 | Some ps \<Rightarrow> length ps) = recordTotal m"
  using assms
proof (induction m)
  case (Cons a m)
  then have "mdel sp m = m" if "sp = fst a"
    using that by (auto simp: gm_wf_def intro: AList.delete_idem)
  then show ?case
    using Cons by (cases a) (auto simp: gm_wf_def split: option.splits)
qed simp

lemma patternsOf_length: "(case mget (si_bySpace strm) sp of None \<Rightarrow> 0 | Some ps \<Rightarrow> length ps) = length (patternsOf sp strm)"
  by (simp add: patternsOf_def split: option.split)

lemma patternsOf_ok:
  assumes "recordOk c strm"
  shows "gm_wf (patternsOf sp strm)" and "patternsOf sp strm \<noteq> [] \<Longrightarrow> validateSpaceId sp = None"
    and "0 \<le> cf_MaxPatternsPerSpace c \<Longrightarrow> int (length (patternsOf sp strm)) \<le> cf_MaxPatternsPerSpace c"
  using assms map_of_SomeD[of "si_bySpace strm" sp] by (auto simp: recordOk_def patternsOf_def split: option.splits)

lemma recordOk_put:
  assumes rec: "recordOk c strm" and ps: "gm_wf ps" "int (length ps) \<le> cf_MaxPatternsPerSpace c" "validateSpaceId sp = None"
    and tot: "tot = si_total strm - int (length (patternsOf sp strm)) + int (length ps)" "tot \<le> cf_MaxPatternsPerStream c"
  shows "recordOk c (strm\<lparr>si_bySpace := mput sp ps (si_bySpace strm), si_total := tot\<rparr>)"
proof -
  have "int (recordTotal (mput sp ps (si_bySpace strm))) = tot"
    using recordTotal_put[of sp ps "si_bySpace strm"] rec tot(1) by (simp add: patternsOf_length recordOk_def)
  moreover have "set (mput sp ps (si_bySpace strm)) \<subseteq> insert (sp, ps) (set (si_bySpace strm))"
    by (rule set_put)
  ultimately show ?thesis
    using rec ps tot(2) unfolding recordOk_def by fastforce
qed

lemma recordOk_del:
  assumes rec: "recordOk c strm" and tot: "tot = si_total strm - int (length (patternsOf sp strm))"
  shows "recordOk c (strm\<lparr>si_total := tot, si_bySpace := mdel sp (si_bySpace strm)\<rparr>)"
proof -
  have wf: "gm_wf (si_bySpace strm)"
    using rec by (simp add: recordOk_def)
  have "int (recordTotal (mdel sp (si_bySpace strm))) = tot"
    using recordTotal_del[OF wf, of sp] rec tot by (simp add: patternsOf_length recordOk_def)
  moreover have "set (mdel sp (si_bySpace strm)) \<subseteq> set (si_bySpace strm)"
    by (auto simp: AList.delete_eq)
  ultimately show ?thesis
    using rec tot unfolding recordOk_def by fastforce
qed

text \<open>Taking one pattern and a list of patterns of a space away.\<close>

lemma strmPats_simps [simp]:
  "strmPats sp' (strm\<lparr>si_bySpace := mput sp ps m, si_total := n\<rparr>) = (if sp' = sp then keysOf ps else strmPats sp' (strm\<lparr>si_bySpace := m\<rparr>))"
  "strmPats sp' (strm\<lparr>si_total := n, si_bySpace := mput sp ps m\<rparr>) = (if sp' = sp then keysOf ps else strmPats sp' (strm\<lparr>si_bySpace := m\<rparr>))"
  "strmPats sp' (strm\<lparr>si_total := n, si_bySpace := mdel sp m\<rparr>) = (if sp' = sp then {} else strmPats sp' (strm\<lparr>si_bySpace := m\<rparr>))"
  "strmPats sp' (strm\<lparr>si_bySpace := si_bySpace strm\<rparr>) = strmPats sp' strm"
  by (simp_all add: strmPats_def patternsOf_def)

lemma keysOf_empty: "keysOf m = {} \<longleftrightarrow> m = []"
  by (simp add: keysOf_set)

lemma removeStreamPattern_ok:
  assumes rec: "recordOk c strm" and eq: "removeStreamPattern sp p (strm, trie) = (b, strm', trie')"
  shows "recordOk c strm' \<and> b = (p \<in> strmPats sp strm) \<and> strmPats sp strm' = strmPats sp strm - {p}
    \<and> (\<forall>sp'. sp' \<noteq> sp \<longrightarrow> strmPats sp' strm' = strmPats sp' strm) \<and> si_account strm' = si_account strm
    \<and> trie' = (if b then snd (trieRemove p trie) else trie)"
proof (cases "mget (patternsOf sp strm) p")
  case None
  then show ?thesis
    using eq rec by (auto simp: removeStreamPattern_def Let_def strmPats_def keysOf_def)
next
  case (Some u)
  let ?ps = "patternsOf sp strm" and ?ps' = "mdel p (patternsOf sp strm)"
  have wf: "gm_wf ?ps" and ne: "?ps \<noteq> []"
    using patternsOf_ok(1)[OF rec] Some by auto
  have len: "Suc (length ?ps') = length ?ps"
    using length_del[OF wf, of p] Some by simp
  obtain ps0 where ps0: "(sp, ps0) \<in> set (si_bySpace strm)" "ps0 = ?ps"
    using Some map_of_SomeD[of "si_bySpace strm" sp] by (auto simp: patternsOf_def split: option.splits)
  then have caps: "int (length ?ps) \<le> cf_MaxPatternsPerSpace c" "si_total strm \<le> cf_MaxPatternsPerStream c"
    using rec by (auto simp: recordOk_def)
  have strm': "b" "trie' = snd (trieRemove p trie)"
    "strm' = strm\<lparr>si_total := si_total strm - 1, si_bySpace := (if ?ps' = [] then mdel sp (si_bySpace strm) else mput sp ?ps' (si_bySpace strm))\<rparr>"
    using eq Some by (auto simp: removeStreamPattern_def Let_def)
  have "recordOk c strm'"
  proof (cases "?ps' = []")
    case True
    then show ?thesis
      using recordOk_del[OF rec, of "si_total strm - 1" sp] len strm'(3) by simp
  next
    case False
    have swap: "strm\<lparr>si_total := t, si_bySpace := x\<rparr> = strm\<lparr>si_bySpace := x, si_total := t\<rparr>" for t x
      by simp
    have "recordOk c (strm\<lparr>si_bySpace := mput sp ?ps' (si_bySpace strm), si_total := si_total strm - 1\<rparr>)"
      by (rule recordOk_put[OF rec]) (use wf len caps patternsOf_ok(2)[OF rec ne] in auto)
    then show ?thesis
      using False strm'(3) swap by simp
  qed
  moreover have "strmPats sp strm' = strmPats sp strm - {p}"
    using strm'(3) keysOf_empty[of ?ps'] by (simp add: strmPats_def[of sp strm])
  ultimately show ?thesis
    using strm' Some by (simp add: strmPats_def[of sp strm] keysOf_def)
qed

lemma removePatterns_ok:
  assumes "recordOk c strm" and "removePatterns sp ps (strm, trie) = (removed, strm', trie')"
  shows "recordOk c strm' \<and> set removed = strmPats sp strm \<inter> set ps \<and> strmPats sp strm' = strmPats sp strm - set ps
    \<and> (\<forall>sp'. sp' \<noteq> sp \<longrightarrow> strmPats sp' strm' = strmPats sp' strm) \<and> si_account strm' = si_account strm
    \<and> (\<forall>M. trieHolds trie M \<longrightarrow> trieHolds trie' (M - mset_set (strmPats sp strm \<inter> set ps)))"
  using assms
proof (induction ps arbitrary: strm trie removed)
  case (Cons p ps)
  obtain b strm1 trie1 where r1: "removeStreamPattern sp p (strm, trie) = (b, strm1, trie1)"
    by (cases "removeStreamPattern sp p (strm, trie)")
  obtain rs where r2: "removePatterns sp ps (strm1, trie1) = (rs, strm', trie')" "removed = (if b then p # rs else rs)"
    using Cons.prems(2) r1 by (auto split: prod.splits)
  note one = removeStreamPattern_ok[OF Cons.prems(1) r1]
  note IH = Cons.IH[OF _ r2(1)]
  let ?P = "strmPats sp strm"
  have "trieHolds trie' (M - mset_set (?P \<inter> set (p # ps)))" if M: "trieHolds trie M" for M
  proof (cases "p \<in> ?P")
    case True
    then have "trieHolds trie1 (M - {#p#})"
      using one trieHolds_remove(1)[OF M] by simp
    then have "trieHolds trie' (M - {#p#} - mset_set (strmPats sp strm1 \<inter> set ps))"
      using IH one by blast
    moreover have "?P \<inter> set (p # ps) = insert p ((?P - {p}) \<inter> set ps)"
      using True by auto
    ultimately show ?thesis
      using one by simp
  next
    case False
    then have "trie1 = trie" "?P \<inter> set (p # ps) = strmPats sp strm1 \<inter> set ps"
      using one by auto
    then show ?thesis
      using IH one M by metis
  qed
  moreover have "set removed = ?P \<inter> set (p # ps)" "strmPats sp strm' = ?P - set (p # ps)"
    using IH one r2(2) by auto
  ultimately show ?case
    using IH one by auto
qed simp

section \<open>Writing to streams\<close>

definition sameTags :: "'q streamPool \<Rightarrow> 'q streamPool \<Rightarrow> bool" where
  "sameTags pool pool' \<longleftrightarrow> (pool_ok pool \<longrightarrow> pool_ok pool')
     \<and> (\<forall>i. map_option st_tags (mget (sp_streams pool') i) = map_option st_tags (mget (sp_streams pool) i))"

lemma sameTags_trans: "sameTags a b \<Longrightarrow> sameTags b c \<Longrightarrow> sameTags a c"
  by (simp add: sameTags_def)

lemma sameTags_refl [simp]: "sameTags a a"
  by (simp add: sameTags_def)

lemma sameTags_keys: "sameTags pool pool' \<Longrightarrow> keysOf (sp_streams pool') = keysOf (sp_streams pool)"
  unfolding sameTags_def keysOf_def by (metis option.map_disc_iff)

lemma streamsOk_same:
  assumes ok: "streamsOk c pool pend streams" and same: "sameTags pool pool'"
  shows "streamsOk c pool' pend streams"
proof -
  have tags: "\<exists>st'. mget (sp_streams pool) i = Some st' \<and> st_tags st' = st_tags st" if "mget (sp_streams pool') i = Some st" for i st
    using same that unfolding sameTags_def by (metis (no_types, lifting) map_option_eq_Some)
  have "pool_ok pool'"
    using ok same by (simp add: streamsOk_def sameTags_def)
  moreover have "tagsDistinct pool'"
    using ok tags unfolding streamsOk_def tagsDistinct_def by metis
  moreover have "set (st_tags st) = tagsOf streams i" if "mget (sp_streams pool') i = Some st" for i st
    using ok tags[OF that] unfolding streamsOk_def by metis
  ultimately show ?thesis
    using ok unfolding streamsOk_def sameTags_keys[OF same] by blast
qed

lemma writeTo_same:
  assumes ok: "pool_ok s" and i: "i \<in> keysOf (sp_streams s)"
  shows "\<exists>b s'. writeTo Q msg i s = Inr (b, s') \<and> pool_ok s' \<and> sameTags s s'"
proof -
  obtain st where st: "mget (sp_streams s) i = Some st"
    using i by (auto simp: keysOf_def)
  obtain b s' where "writeTo Q msg i s = Inr (b, s')" "pool_ok s'"
    "sp_streams s' = mput i (snd (writeStream Q msg st)) (sp_streams s)"
    using writeTo_ok[OF ok st, of Q msg] by blast
  then show ?thesis
    using st by (simp add: sameTags_def writeStream_keys)
qed

lemma writeFirst_same:
  assumes "pool_ok s" and "set is \<subseteq> keysOf (sp_streams s)"
  shows "\<exists>b s'. writeFirst Q msg is s = Inr (b, s') \<and> sameTags s s'"
  using assms
proof (induction "is" arbitrary: s)
  case (Cons i "is")
  obtain b s1 where s1: "writeTo Q msg i s = Inr (b, s1)" "pool_ok s1" "sameTags s s1"
    using writeTo_same[OF Cons.prems(1)] Cons.prems(2) by fastforce
  have "set is \<subseteq> keysOf (sp_streams s1)"
    using sameTags_keys[OF s1(3)] Cons.prems(2) by simp
  then obtain b2 s2 where "writeFirst Q msg is s1 = Inr (b2, s2)" "sameTags s1 s2"
    using Cons.IH[OF s1(2)] by blast
  with s1 show ?case
    using sameTags_trans by auto
qed (simp, blast)

lemma SendById_same:
  assumes "pool_ok s"
  shows "SendById Q msg peers s = Inl ErrUnableToConnect \<or> (\<exists>s'. SendById Q msg peers s = Inr s' \<and> sameTags s s')"
proof -
  let ?is = "concat (map (idsOf (sp_byPeer s)) peers)"
  have "indexOk (\<lambda>st. [st_peerId st]) (sp_streams s) (sp_byPeer s)"
    using assms by (simp add: pool_ok_def)
  then have "set ?is \<subseteq> keysOf (sp_streams s)"
    using indexOk_ids[of "\<lambda>st. [st_peerId st]" "sp_streams s" "sp_byPeer s"] by (auto simp: keysOf_def)
  then obtain b s' where "writeFirst Q msg ?is s = Inr (b, s')" "sameTags s s'"
    using writeFirst_same[OF assms, of ?is Q msg] by blast
  then show ?thesis
    by (simp add: SendById_def Let_def)
qed

lemma svc_ok_pool:
  assumes "svc_ok D pend s" and "sameTags (sv_pool s) pool"
  shows "svc_ok D pend (s\<lparr>sv_pool := pool\<rparr>)"
  using assms streamsOk_same by (auto simp: svc_ok_def)

lemma sendStatusMsg_ok:
  assumes "svc_ok D pend s"
  shows "\<exists>pool. sendStatusMsg D' peerId st s = Inr (s\<lparr>sv_pool := pool\<rparr>) \<and> sameTags (sv_pool s) pool"
proof -
  have "pool_ok (sv_pool s)"
    using assms by (simp add: svc_ok_def streamsOk_def)
  from SendById_same[OF this, of "dp_Queue D'" "MsgStatus st" "[peerId]"] show ?thesis
  proof
    assume "SendById (dp_Queue D') (MsgStatus st) [peerId] (sv_pool s) = Inl ErrUnableToConnect"
    then have "sendStatusMsg D' peerId st s = Inr (s\<lparr>sv_pool := sv_pool s\<rparr>)"
      by (simp add: sendStatusMsg_def)
    then show ?thesis
      using sameTags_refl by blast
  qed (auto simp: sendStatusMsg_def)
qed

section \<open>Subscribing\<close>

lemma subscribeLoop_ok:
  assumes "subscribeLoop c ps mm tot trie = (acc, rej, mm', tot', trie')" and "gm_wf mm"
    and "int (length mm) \<le> cf_MaxPatternsPerSpace c" and "tot \<le> cf_MaxPatternsPerStream c"
  shows "gm_wf mm' \<and> length mm' = length mm + length acc \<and> int (length mm') \<le> cf_MaxPatternsPerSpace c
    \<and> tot' = tot + int (length acc) \<and> tot' \<le> cf_MaxPatternsPerStream c
    \<and> keysOf mm' = keysOf mm \<union> set acc \<and> keysOf mm \<inter> set acc = {} \<and> distinct acc \<and> set acc \<subseteq> set ps
    \<and> set ps \<subseteq> keysOf mm' \<union> set rej \<and> (\<forall>M. trieHolds trie M \<longrightarrow> trieHolds trie' (M + mset acc))"
  using assms
proof (induction c ps mm tot trie arbitrary: acc rule: subscribeLoop.induct)
  case (2 c p ps mm tot trie)
  consider (old) "mget mm p \<noteq> None" | (full) "mget mm p = None" "int (length mm) \<ge> cf_MaxPatternsPerSpace c \<or> tot \<ge> cf_MaxPatternsPerStream c"
    | (ins) "mget mm p = None" "\<not> (int (length mm) \<ge> cf_MaxPatternsPerSpace c \<or> tot \<ge> cf_MaxPatternsPerStream c)"
    by blast
  then show ?case
  proof cases
    case old
    then have "p \<in> keysOf mm"
      by (simp add: keysOf_def)
    then show ?thesis
      using 2(1)[of acc] 2(3-) old by auto
  next
    case full
    then show ?thesis
      using 2(3-) by auto
  next
    case ins
    then obtain acc1 where acc: "acc = p # acc1"
      "subscribeLoop c ps (mput p () mm) (tot + 1) (snd (trieAdd p trie)) = (acc1, rej, mm', tot', trie')"
      using 2(3) by (auto split: prod.splits)
    have len: "length (mput p () mm) = Suc (length mm)"
      using length_put[OF 2(4), of p "()"] ins(1) by simp
    have np: "p \<notin> keysOf mm"
      using ins(1) by (simp add: keysOf_def)
    have IH: "gm_wf mm' \<and> length mm' = length (mput p () mm) + length acc1 \<and> int (length mm') \<le> cf_MaxPatternsPerSpace c
      \<and> tot' = tot + 1 + int (length acc1) \<and> tot' \<le> cf_MaxPatternsPerStream c
      \<and> keysOf mm' = keysOf (mput p () mm) \<union> set acc1 \<and> keysOf (mput p () mm) \<inter> set acc1 = {} \<and> distinct acc1 \<and> set acc1 \<subseteq> set ps
      \<and> set ps \<subseteq> keysOf mm' \<union> set rej
      \<and> (\<forall>M. trieHolds (snd (trieAdd p trie)) M \<longrightarrow> trieHolds trie' (M + mset acc1))"
      by (rule 2(2)[OF _ _ acc(2)]) (use ins 2(4) len in auto)
    have "trieHolds trie' (M + mset acc)" if "trieHolds trie M" for M
      using IH trieHolds_add(1)[OF that, of p] acc(1) by auto
    with IH show ?thesis
      using acc(1) np len by auto
  qed
qed auto

abbreviation strmTags :: "streamInterest \<Rightarrow> string set" where
  "strmTags strm \<equiv> {interestTag sp p |sp p. p \<in> strmPats sp strm}"

lemma svc_ok_change:
  assumes ok: "svc_ok D pend s" and i: "si_total strm = 0 \<or> i \<in> keysOf (sp_streams (sv_pool s)) \<or> i \<in> pend"
    and rec: "recordOk (dp_Config D) strm" and upd: "updated i strm (sv_streams s) (sv_streams s')"
    and pool: "retagged i (strmTags strm) (sv_pool s) (sv_pool s')" and dedup: "sv_dedup s' = sv_dedup s"
    and others: "\<And>sp'. sp' \<noteq> sp \<Longrightarrow> remoteTrie (sv_remote s') sp' = remoteTrie (sv_remote s) sp'
      \<and> strmPats sp' strm = pats (sv_streams s) i sp'"
    and trie: "trieHolds (remoteTrie (sv_remote s') sp)
      (interestM (sv_streams s) sp - mset_set (pats (sv_streams s) i sp) + mset_set (strmPats sp strm))"
  shows "svc_ok D pend s'"
proof -
  have "streamsOk (dp_Config D) (sv_pool s') pend (sv_streams s')"
    by (rule streamsOk_change[OF _ i rec upd pool]) (use ok in \<open>simp add: svc_ok_def\<close>)
  moreover have "triesOk (sv_streams s') (sv_remote s')"
    by (rule triesOk_change[OF _ rec upd others trie]) (use ok in \<open>simp_all add: svc_ok_def\<close>)
  ultimately show ?thesis
    using ok dedup by (simp add: svc_ok_def)
qed

lemma retagged_refl:
  assumes "streamsOk c pool pend streams" and "\<And>sp. strmPats sp strm = pats streams i sp"
  shows "retagged i (strmTags strm) pool pool"
  using assms by (auto simp: retagged_def streamsOk_def tagsOf_def)

lemma AddTags_retag:
  assumes ok: "pool_ok pool" "tagsDistinct pool" and st: "mget (sp_streams pool) i = Some st"
  shows "\<exists>pool'. AddTagsCtx (Some i) tags pool = Inr pool' \<and> retagged i (set (st_tags st) \<union> set tags) pool pool'"
proof -
  let ?st = "st\<lparr>st_tags := st_tags st @ newTags (st_tags st) tags\<rparr>"
  obtain pool' where p: "AddTagsCtx (Some i) tags pool = Inr pool'" "pool_ok pool'"
    "sp_streams pool' = mput i ?st (sp_streams pool)"
    using AddTags_ok[OF ok(1) st, of tags] by blast
  have "distinct (st_tags ?st)" "set (st_tags ?st) = set (st_tags st) \<union> set tags"
    using newTags_distinct[of "st_tags st" tags] newTags_set[of "st_tags st" tags] ok(2) st by (auto simp: tagsDistinct_def)
  with p ok(2) st show ?thesis
    by (auto simp: retagged_def tagsDistinct_def keysOf_def)
qed

lemma dropTags_retag:
  assumes ok: "pool_ok pool" "tagsDistinct pool" and st: "mget (sp_streams pool) i = Some st"
  shows "\<exists>pool'. dropTags i tags st pool = Inr pool' \<and> retagged i (set (st_tags st) - set tags) pool pool'"
proof -
  obtain pool' where p: "dropTags i tags st pool = Inr pool'" "pool_ok pool'"
    "sp_streams pool' = mput i (st\<lparr>st_tags := filter (\<lambda>t. t \<notin> set tags) (st_tags st)\<rparr>) (sp_streams pool)"
    using dropTags_ok[OF ok(1) st, of tags] by blast
  moreover have "distinct (filter (\<lambda>t. t \<notin> set tags) (st_tags st))"
    using ok(2) st by (simp add: tagsDistinct_def)
  ultimately show ?thesis
    using ok(2) st by (auto simp: retagged_def tagsDistinct_def keysOf_def)
qed

lemma recordOk_total:
  assumes rec: "recordOk c strm" and no: "\<And>sp. strmPats sp strm = {}"
  shows "si_total strm = 0"
proof -
  have "ps = []" if "(sp, ps) \<in> set (si_bySpace strm)" for sp ps
  proof -
    have "mget (si_bySpace strm) sp = Some ps"
      using that rec by (simp add: recordOk_def gm_in_set_iff)
    then show ?thesis
      using no[of sp] keysOf_empty[of ps] by (simp add: strmPats_def patternsOf_def)
  qed
  then have "recordTotal (si_bySpace strm) = 0"
    by auto
  then show ?thesis
    using rec by (simp add: recordOk_def)
qed

end
