(* ===== verification/PubSteps.thy ===== *)
theory PubSteps
  imports PubInterest
begin

text \<open>
  Every operation of the service keeps the invariant of the interest it serves, and none of them ends in a panic of
  the pool: the step relation of the service with the close hooks that have not run yet.
\<close>

section \<open>Subscribe messages\<close>

definition configOk :: "Config \<Rightarrow> bool" where
  "configOk c \<longleftrightarrow> 0 < cf_MaxPatternsPerSpace c \<and> 0 < cf_MaxPatternsPerStream c \<and> 0 < cf_DedupSize c"

lemma withDefaults_ok: "configOk (withDefaults c)"
  by (simp add: configOk_def withDefaults_def Let_def)

lemma svc_okD:
  assumes "svc_ok D pend s"
  shows "pool_ok (sv_pool s)" and "tagsDistinct (sv_pool s)" and "gm_wf (sv_streams s)"
    and "mget (sv_streams s) i = Some strm \<Longrightarrow> recordOk (dp_Config D) strm"
    and "mget (sv_streams s) i = Some strm \<Longrightarrow> si_total strm = 0 \<or> i \<in> keysOf (sp_streams (sv_pool s)) \<or> i \<in> pend"
    and "mget (sp_streams (sv_pool s)) i = Some st \<Longrightarrow> set (st_tags st) = tagsOf (sv_streams s) i"
    and "trieHolds (remoteTrie (sv_remote s) sp) (interestM (sv_streams s) sp)"
    and "streamsOk (dp_Config D) (sv_pool s) pend (sv_streams s)"
    and "pend \<inter> keysOf (sp_streams (sv_pool s)) = {}"
  using assms unfolding svc_ok_def streamsOk_def triesOk_def by blast+

lemma newInterest_ok:
  assumes ok: "svc_ok D pend s" and c: "configOk (dp_Config D)"
  shows "recordOk (dp_Config D) (newInterest a i s)" and "strmPats sp (newInterest a i s) = pats (sv_streams s) i sp"
    and "si_total (newInterest a i s) = 0 \<or> i \<in> keysOf (sp_streams (sv_pool s)) \<or> i \<in> pend"
proof -
  have recordOk_new: "recordOk (dp_Config D) \<lparr>si_account = a, si_bySpace = [], si_total = 0\<rparr>" for a
    using c by (simp add: recordOk_def configOk_def)
  show "recordOk (dp_Config D) (newInterest a i s)"
    "si_total (newInterest a i s) = 0 \<or> i \<in> keysOf (sp_streams (sv_pool s)) \<or> i \<in> pend"
    using svc_okD(4,5)[OF ok] recordOk_new by (auto simp: newInterest_def split: option.split)
  show "strmPats sp (newInterest a i s) = pats (sv_streams s) i sp"
    by (simp add: pats_def newInterest_def strmPats_def patternsOf_def split: option.split)
qed

lemma rollback_ok:
  assumes ok: "svc_ok D pend s" and rec: "recordOk (dp_Config D) strm" and P: "\<And>sp'. strmPats sp' strm = pats (sv_streams s) i sp' \<union> (if sp' = sp then set acc else {})"
    and acc: "distinct acc" "pats (sv_streams s) i sp \<inter> set acc = {}"
    and i: "(\<forall>sp'. pats (sv_streams s) i sp' = {}) \<or> i \<in> keysOf (sp_streams (sv_pool s)) \<or> i \<in> pend"
    and trie: "trieHolds trie (interestM (sv_streams s) sp + mset acc)"
  shows "svc_ok D pend (rollbackInterest sp i acc strm trie
    (s\<lparr>sv_remote := mput sp trie' (sv_remote s), sv_streams := mput i strm' (sv_streams s)\<rparr>))"
proof -
  obtain rm strm2 trie2 where r: "removePatterns sp acc (strm, trie) = (rm, strm2, trie2)"
    by (cases "removePatterns sp acc (strm, trie)")
  note R = removePatterns_ok[OF rec r]
  let ?M = "interestM (sv_streams s) sp" and ?P = "pats (sv_streams s) i sp"
  have P2: "strmPats sp' strm2 = pats (sv_streams s) i sp'" for sp'
    using R P acc(2) by (cases "sp' = sp") auto
  have "strmPats sp strm \<inter> set acc = set acc"
    using P by auto
  then have "trieHolds trie2 (?M + mset acc - mset_set (set acc))"
    using R trie by metis
  then have T2: "trieHolds trie2 ?M"
    using acc(1) by (simp add: mset_set_set)
  let ?s = "s\<lparr>sv_remote := mput sp trie' (sv_remote s), sv_streams := mput i strm' (sv_streams s)\<rparr>"
  show ?thesis
  proof (rule svc_ok_change[OF ok, of strm2 i _ sp])
    show "si_total strm2 = 0 \<or> i \<in> keysOf (sp_streams (sv_pool s)) \<or> i \<in> pend"
      using i recordOk_total[of "dp_Config D" strm2] R P2 by auto
    show "updated i strm2 (sv_streams s) (sv_streams (rollbackInterest sp i acc strm trie ?s))"
      using r by (auto simp: rollbackInterest_def updated_def pruneStream_def AList.delete_update_same)
    show "retagged i (strmTags strm2) (sv_pool s) (sv_pool (rollbackInterest sp i acc strm trie ?s))"
      using retagged_refl[OF svc_okD(8)[OF ok] P2] r by (simp add: rollbackInterest_def)
    show "trieHolds (remoteTrie (sv_remote (rollbackInterest sp i acc strm trie ?s)) sp) (?M - mset_set ?P + mset_set (strmPats sp strm2))"
      using remoteTrie_prune(1)[OF T2] r P2 interestM_change[of i "sv_streams s" sp "sv_streams s"]
      by (simp add: rollbackInterest_def)
  qed (use R P2 r in \<open>auto simp: rollbackInterest_def remoteTrie_prune[OF T2] remoteTrie_put\<close>)
qed

lemma retagged_more:
  assumes ok: "svc_ok D pend s" and i: "mget (sp_streams (sv_pool s)) i = Some st"
    and P: "\<And>sp'. strmPats sp' strm = pats (sv_streams s) i sp' \<union> (if sp' = sp then set acc else {})"
  shows "\<exists>pool. AddTagsCtx (Some i) (map (interestTag sp) acc) (sv_pool s) = Inr pool \<and> retagged i (strmTags strm) (sv_pool s) pool"
proof -
  have mem: "p \<in> strmPats sp' strm \<longleftrightarrow> p \<in> pats (sv_streams s) i sp' \<or> sp' = sp \<and> p \<in> set acc" for p sp'
    by (simp add: P)
  have "set (st_tags st) \<union> set (map (interestTag sp) acc) = strmTags strm"
    unfolding mem svc_okD(6)[OF ok i] tagsOf_def by auto
  then show ?thesis
    using AddTags_retag[OF svc_okD(1,2)[OF ok] i, of "map (interestTag sp) acc"] by simp
qed

lemma recordInterest_ok:
  assumes ok: "svc_ok D pend s" and c: "configOk (dp_Config D)" and sp: "validateSpaceId sp = None"
    and eq: "recordInterest (dp_Config D) a i sp topics s = (rejected, s')"
  shows "svc_ok D pend s'"
proof -
  let ?strm = "newInterest a i s"
  note new = newInterest_ok[OF ok c]
  obtain acc rej ps tot trie where
    loop: "subscribeLoop (dp_Config D) topics (patternsOf sp ?strm) (si_total ?strm) (remoteTrie (sv_remote s) sp) = (acc, rej, ps, tot, trie)"
    by (metis prod_cases5)
  have "si_total ?strm \<le> cf_MaxPatternsPerStream (dp_Config D)"
    using new(1)[of a i] by (simp add: recordOk_def)
  note L = subscribeLoop_ok[OF loop patternsOf_ok(1)[OF new(1)] patternsOf_ok(3)[OF new(1)] this]
  define strm where "strm = ?strm\<lparr>si_bySpace := mput sp ps (si_bySpace ?strm), si_total := tot\<rparr>"
  define s1 where "s1 = s\<lparr>sv_remote := mput sp trie (sv_remote s), sv_streams := mput i strm (sv_streams s)\<rparr>"
  have L': "gm_wf ps" "length ps = length (patternsOf sp ?strm) + length acc" "int (length ps) \<le> cf_MaxPatternsPerSpace (dp_Config D)"
    "tot = si_total ?strm + int (length acc)" "tot \<le> cf_MaxPatternsPerStream (dp_Config D)" "distinct acc"
    "keysOf ps = pats (sv_streams s) i sp \<union> set acc" "pats (sv_streams s) i sp \<inter> set acc = {}"
    "trieHolds trie (interestM (sv_streams s) sp + mset acc)"
    using L c svc_okD(7)[OF ok, of sp] new(2)[of sp a i] by (simp_all add: configOk_def strmPats_def)
  have rec: "recordOk (dp_Config D) strm"
    unfolding strm_def by (rule recordOk_put[OF new(1) L'(1,3) sp]) (use L' in simp_all)
  have P: "strmPats sp' strm = pats (sv_streams s) i sp' \<union> (if sp' = sp then set acc else {})" for sp'
    using new(2)[of sp' a i] L'(7) by (simp add: strm_def)
  have "mset_set (strmPats sp strm) = mset_set (pats (sv_streams s) i sp) + mset acc"
    using P[of sp] L'(6,8) by (simp add: mset_set_Union mset_set_set)
  then have trie: "trieHolds (remoteTrie (sv_remote s1) sp)
      (interestM (sv_streams s) sp - mset_set (pats (sv_streams s) i sp) + mset_set (strmPats sp strm))"
    using L'(9) interestM_change[of i "sv_streams s" sp "sv_streams s"]
    by (simp add: s1_def remoteTrie_put union_assoc[symmetric] del: union_assoc)
  have s': "s' = (if acc = [] then s1 else case AddTagsCtx (Some i) (map (interestTag sp) acc) (sv_pool s) of
      Inr pool \<Rightarrow> s1\<lparr>sv_pool := pool\<rparr> | Inl _ \<Rightarrow> rollbackInterest sp i acc strm trie s1)"
    using eq unfolding recordInterest_def Let_def remoteTrie_def[symmetric] loop s1_def strm_def by auto
  have keep: "svc_ok D pend (s1\<lparr>sv_pool := pool\<rparr>)"
    if "retagged i (strmTags strm) (sv_pool s) pool" "acc = [] \<or> i \<in> keysOf (sp_streams (sv_pool s))" for pool
  proof (rule svc_ok_change[OF ok _ rec, of i _ sp])
    show "si_total strm = 0 \<or> i \<in> keysOf (sp_streams (sv_pool s)) \<or> i \<in> pend"
      using that(2) new(3)[of a i] L'(4) by (auto simp: strm_def)
  qed (use that(1) trie P in \<open>simp_all add: s1_def updated_def remoteTrie_put\<close>)
  have keepS: "svc_ok D pend s1" if "acc = []"
  proof -
    have "retagged i (strmTags strm) (sv_pool s) (sv_pool s)"
      by (rule retagged_refl[OF svc_okD(8)[OF ok]]) (simp add: P that)
    from keep[OF this] that show ?thesis
      by (simp add: s1_def)
  qed
  have roll: "svc_ok D pend (rollbackInterest sp i acc strm trie s1)"
    unfolding s1_def
    by (rule rollback_ok[OF ok rec P L'(6,8) _ L'(9)]) (use new(2)[of _ a i] new(3)[of a i] recordOk_empty[OF new(1)[of a i]] in auto)
  show ?thesis
  proof (cases "mget (sp_streams (sv_pool s)) i")
    case None
    then show ?thesis
      using s' keepS roll by (simp add: AddTagsCtx_def)
  next
    case (Some st)
    then have "i \<in> keysOf (sp_streams (sv_pool s))"
      by (simp add: keysOf_def)
    then show ?thesis
      using s' keepS keep retagged_more[OF ok Some P] by auto
  qed
qed

lemma sendStatus_ok:
  assumes "svc_ok D pend s"
  shows "\<exists>s'. sendStatus D peerId sp topics code s = Inr s' \<and> svc_ok D pend s'"
    and "\<exists>s'. sendPubStatus D peerId p code s = Inr s' \<and> svc_ok D pend s'"
  using sendStatusMsg_ok[OF assms] svc_ok_pool[OF assms] unfolding sendStatus_def sendPubStatus_def by metis+

lemma handleSubscribe_ok:
  assumes ok: "svc_ok D pend s" and c: "configOk (dp_Config D)"
  shows "\<exists>s'. handleSubscribe D cx peerId sp topics s = Inr s' \<and> svc_ok D pend s'"
proof (cases "subscribeErr D cx sp topics")
  case None
  then have sp: "validateSpaceId sp = None"
    by (auto simp: subscribeErr_def split: option.splits if_splits)
  obtain rejected s1 where r: "recordInterest (dp_Config D) (ko_Account (dp_Keys D) (the (cx_PubKey cx))) (the (cx_StreamId cx)) sp topics s = (rejected, s1)"
    by fastforce
  then have "svc_ok D pend s1"
    by (rule recordInterest_ok[OF ok c sp])
  then show ?thesis
    using None r sendStatus_ok(1)[of D pend s1] by (simp add: handleSubscribe_def)
next
  case (Some code)
  then show ?thesis
    using sendStatus_ok(1)[OF ok] by (simp add: handleSubscribe_def)
qed

section \<open>Unsubscribe messages\<close>

lemma strmTags_less:
  assumes ok: "svc_ok D pend s" and sp: "validateSpaceId sp = None"
    and old: "mget (sv_streams s) i = Some strm" and rec: "recordOk (dp_Config D) strm'"
    and P: "strmPats sp strm' = strmPats sp strm - set gone" "\<And>sp'. sp' \<noteq> sp \<Longrightarrow> strmPats sp' strm' = strmPats sp' strm"
  shows "tagsOf (sv_streams s) i - set (map (interestTag sp) gone) = strmTags strm'"
proof -
  have slash: "slash \<notin> set sp'" if "strmPats sp' st \<noteq> {}" "recordOk (dp_Config D) st" for sp' st
    using that patternsOf_ok(2)[of "dp_Config D" st sp'] keysOf_empty[of "patternsOf sp' st"]
    by (auto simp: strmPats_def validateSpaceId_iff)
  have sp': "slash \<notin> set sp"
    using sp by (simp add: validateSpaceId_iff)
  define G where "G = set (map (interestTag sp) gone)"
  have "interestTag sp' p \<notin> G \<longleftrightarrow> sp' \<noteq> sp \<or> p \<notin> set gone" if "p \<in> strmPats sp' strm" for sp' p
  proof -
    have "slash \<notin> set sp'"
      using slash[of sp' strm] that svc_okD(4)[OF ok old] by blast
    then have "interestTag sp' p = interestTag sp q \<longleftrightarrow> sp' = sp \<and> p = q" for q
      by (rule interestTag_inj[OF _ sp'])
    then have "(\<exists>q \<in> set gone. interestTag sp' p = interestTag sp q) \<longleftrightarrow> sp' = sp \<and> p \<in> set gone"
      by simp
    then show ?thesis
      unfolding G_def set_map image_iff by simp
  qed
  moreover have "p \<in> strmPats sp' strm' \<longleftrightarrow> p \<in> strmPats sp' strm \<and> (sp' \<noteq> sp \<or> p \<notin> set gone)" for p sp'
    using P by (cases "sp' = sp") auto
  ultimately have "p \<in> strmPats sp' strm' \<longleftrightarrow> p \<in> strmPats sp' strm \<and> interestTag sp' p \<notin> G" for p sp'
    by metis
  then have "strmTags strm - G = strmTags strm'"
    by auto
  moreover have "tagsOf (sv_streams s) i = strmTags strm"
    using old by (simp add: tagsOf_def pats_def)
  ultimately show ?thesis
    by (simp add: G_def)
qed

lemma interestM_less:
  "interestM streams sp - mset_set (pats streams i sp) + mset_set (pats streams i sp - G)
    = interestM streams sp - mset_set (pats streams i sp \<inter> G)"
proof -
  let ?P = "pats streams i sp"
  have "mset_set ?P = mset_set (?P \<inter> G) + mset_set (?P - G)"
    by (subst mset_set_Union[symmetric]) (auto intro: arg_cong[of _ _ mset_set])
  moreover have "interestM streams sp = interestM streams sp - mset_set ?P + mset_set ?P"
    by (rule interestM_change) simp
  moreover have "M - P + Y = M - X" if "P = X + Y" "M = M - P + P" for M P X Y :: "string multiset"
    using that by (simp add: multiset_eq_iff) (metis add.commute add_diff_cancel_right' diff_diff_left add.assoc)
  ultimately show ?thesis
    by blast
qed

text \<open>A stream gives patterns of one space up: the record and the trie follow, and the pool if it has the stream.\<close>

lemma svc_ok_shrink:
  assumes ok: "svc_ok D pend s" and old: "mget (sv_streams s) i = Some strm" and rec: "recordOk (dp_Config D) strm'"
    and P: "strmPats sp strm' = strmPats sp strm - G" "\<And>sp'. sp' \<noteq> sp \<Longrightarrow> strmPats sp' strm' = strmPats sp' strm"
    and upd: "updated i strm' (sv_streams s) (sv_streams s')"
    and pool: "retagged i (strmTags strm') (sv_pool s) (sv_pool s')" and dedup: "sv_dedup s' = sv_dedup s"
    and others: "\<And>sp'. sp' \<noteq> sp \<Longrightarrow> remoteTrie (sv_remote s') sp' = remoteTrie (sv_remote s) sp'"
    and trie: "trieHolds (remoteTrie (sv_remote s') sp) (interestM (sv_streams s) sp - mset_set (strmPats sp strm \<inter> G))"
  shows "svc_ok D pend s'"
proof (rule svc_ok_change[OF ok _ rec upd pool dedup, of sp])
  have pats: "pats (sv_streams s) i sp' = strmPats sp' strm" for sp'
    using old by (simp add: pats_def)
  show "si_total strm' = 0 \<or> i \<in> keysOf (sp_streams (sv_pool s)) \<or> i \<in> pend"
  proof (rule disjCI)
    assume "\<not> (i \<in> keysOf (sp_streams (sv_pool s)) \<or> i \<in> pend)"
    then have "strmPats sp' strm = {}" for sp'
      using svc_okD(5)[OF ok old] recordOk_empty[OF svc_okD(4)[OF ok old]] by blast
    then have "strmPats sp' strm' = {}" for sp'
      using P by (cases "sp' = sp") auto
    then show "si_total strm' = 0"
      by (rule recordOk_total[OF rec])
  qed
  show "trieHolds (remoteTrie (sv_remote s') sp)
      (interestM (sv_streams s) sp - mset_set (pats (sv_streams s) i sp) + mset_set (strmPats sp strm'))"
    using trie interestM_less[of "sv_streams s" sp i G] P(1) pats by simp
  show "remoteTrie (sv_remote s') sp' = remoteTrie (sv_remote s) sp' \<and> strmPats sp' strm' = pats (sv_streams s) i sp'"
    if "sp' \<noteq> sp" for sp'
    using that others P(2) pats by simp
qed

lemma retagged_less:
  assumes ok: "svc_ok D pend s" and sp: "validateSpaceId sp = None"
    and old: "mget (sv_streams s) i = Some strm" and rec: "recordOk (dp_Config D) strm'"
    and P: "strmPats sp strm' = strmPats sp strm - set gone" "\<And>sp'. sp' \<noteq> sp \<Longrightarrow> strmPats sp' strm' = strmPats sp' strm"
  shows "\<exists>pool. RemoveTagsById i (map (interestTag sp) gone) (sv_pool s) = Inr pool \<and> retagged i (strmTags strm') (sv_pool s) pool
    \<and> (RemoveTagsCtx (Some i) (map (interestTag sp) gone) (sv_pool s) = Inr pool
       \<or> RemoveTagsCtx (Some i) (map (interestTag sp) gone) (sv_pool s) = Inl ErrStreamNotFound \<and> pool = sv_pool s)"
proof (cases "mget (sp_streams (sv_pool s)) i")
  case None
  then show ?thesis
    using svc_okD(1,2)[OF ok] by (simp add: RemoveTagsById_def RemoveTagsCtx_def retagged_def)
next
  case (Some st)
  have tags: "set (st_tags st) - set (map (interestTag sp) gone) = strmTags strm'"
    using strmTags_less[OF ok sp old rec P] svc_okD(6)[OF ok Some] by simp
  show ?thesis
    using dropTags_retag[OF svc_okD(1,2)[OF ok] Some, of "map (interestTag sp) gone"] Some
    unfolding tags by (auto simp: RemoveTagsById_def RemoveTagsCtx_def)
qed

lemma handleUnsubscribe_ok:
  assumes ok: "svc_ok D pend s"
  shows "\<exists>s'. handleUnsubscribe cx sp topics s = Inr s' \<and> svc_ok D pend s'"
proof -
  consider (none) "handleUnsubscribe cx sp topics s = Inr s"
    | (some) i strm trie where "cx_StreamId cx = Some i" "mget (sv_streams s) i = Some strm" "mget (sv_remote s) sp = Some trie"
    by (cases "cx_StreamId cx"; cases "mget (sv_streams s) (the (cx_StreamId cx))"; cases "mget (sv_remote s) sp")
      (simp_all add: handleUnsubscribe_def)
  then show ?thesis
  proof cases
    case (some i strm trie)
    define ps where "ps = (if topics = [] then mkeys (patternsOf sp strm) else topics)"
    obtain rm strm' trie' where r: "removePatterns sp ps (strm, trie) = (rm, strm', trie')"
      by (cases "removePatterns sp ps (strm, trie)")
    define s1 where "s1 = s\<lparr>sv_streams := pruneStream i strm' (sv_streams s), sv_remote := pruneSpace sp trie' (sv_remote s)\<rparr>"
    have eq: "handleUnsubscribe cx sp topics s = (if rm = [] then Inr s1 else dropPoolTags (Some i) (map (interestTag sp) rm) s1)"
      using some r by (simp add: handleUnsubscribe_def ps_def s1_def)
    note rec = svc_okD(4)[OF ok some(2)]
    note R = removePatterns_ok[OF rec r]
    have "trieHolds trie (interestM (sv_streams s) sp)"
      using svc_okD(7)[OF ok, of sp] some(3) by (simp add: remoteTrie_def)
    then have "trieHolds trie' (interestM (sv_streams s) sp - mset_set (strmPats sp strm \<inter> set ps))"
      using R by blast
    moreover have "strmPats sp strm \<inter> set rm = strmPats sp strm \<inter> set ps"
      using R by blast
    ultimately have T: "trieHolds trie' (interestM (sv_streams s) sp - mset_set (strmPats sp strm \<inter> set rm))"
      by simp
    have P: "strmPats sp strm' = strmPats sp strm - set rm" "\<And>sp'. sp' \<noteq> sp \<Longrightarrow> strmPats sp' strm' = strmPats sp' strm"
      using R by auto
    have keep: "svc_ok D pend (s1\<lparr>sv_pool := pool\<rparr>)" if "retagged i (strmTags strm') (sv_pool s) pool" for pool
      by (rule svc_ok_shrink[OF ok some(2) _ P]) (use R that remoteTrie_prune[OF T] in \<open>simp_all add: s1_def updated_def\<close>)
    show ?thesis
    proof (cases "rm = []")
      case True
      have "strmPats sp' strm' = pats (sv_streams s) i sp'" for sp'
        using P True some(2) by (cases "sp' = sp") (auto simp: pats_def)
      then have "svc_ok D pend s1"
        using keep[OF retagged_refl[OF svc_okD(8)[OF ok]]] by (simp add: s1_def)
      then show ?thesis
        using eq True by simp
    next
      case False
      then have "validateSpaceId sp = None"
        using R patternsOf_ok(2)[OF rec, of sp] by (cases "patternsOf sp strm") (auto simp: strmPats_def)
      from retagged_less[OF ok this some(2) _ P] R eq False keep show ?thesis
        by (fastforce simp: dropPoolTags_def s1_def)
    qed
  qed (use ok in auto)
qed

section \<open>A stream opens and closes\<close>

definition openStream :: "('k, 'p, 'q, 'l) deps \<Rightarrow> string \<Rightarrow> int \<Rightarrow> ('p, 'q, 'h, 'l) service \<Rightarrow> pool_error + ('p, 'q, 'h, 'l) service" where
  "openStream D peerId queueSize s =
     rbind (addStream (dp_Queue D) (Some peerId) queueSize [] (sv_pool s)) (\<lambda>(_, pool). Inr (s\<lparr>sv_pool := pool\<rparr>))"

text \<open>The id of a stream is reused only after \<open>2 ^ 32\<close> streams; a step needs an id that is not in use.\<close>

definition freshId :: "u32 set \<Rightarrow> ('p, 'q, 'h, 'l) service \<Rightarrow> bool" where
  "freshId pend s \<longleftrightarrow> (let i = sp_lastStreamId (sv_pool s) + 1
     in mget (sp_streams (sv_pool s)) i = None \<and> i \<notin> pend)"

lemma openStream_ok:
  assumes ok: "svc_ok D pend s" and fresh: "freshId pend s"
  shows "\<exists>s'. openStream D peerId n s = Inr s' \<and> svc_ok D pend s'"
proof -
  define i where "i = sp_lastStreamId (sv_pool s) + 1"
  have fr: "mget (sp_streams (sv_pool s)) i = None" "i \<notin> pend"
    using fresh by (simp_all add: freshId_def i_def Let_def)
  obtain j pool st where p: "addStream (dp_Queue D) (Some peerId) n [] (sv_pool s) = Inr (j, pool)" "pool_ok pool"
    "sp_streams pool = mput j st (sp_streams (sv_pool s))" "st_tags st = []"
    using addStream_ok[OF svc_okD(1)[OF ok], of "dp_Queue D" peerId n "[]"] fr(1) unfolding i_def by blast
  then have j: "j = i"
    by (simp add: addStream_def i_def Let_def)
  have "pats (sv_streams s) i sp = {}" for sp
    using svc_okD(4,5)[OF ok, of i] recordOk_empty fr by (auto simp: pats_def keysOf_def split: option.split)
  then have "tagsOf (sv_streams s) i = {}"
    by (simp add: tagsOf_def)
  then have "streamsOk (dp_Config D) pool pend (sv_streams s)"
    using svc_okD(8)[OF ok] p j fr by (auto simp: streamsOk_def tagsDistinct_def)
  then show ?thesis
    using ok p(1) by (simp add: openStream_def svc_ok_def)
qed

text \<open>The pool removes a stream first, and calls the hook after it has released its lock.\<close>

lemma removeStream_pending:
  assumes ok: "svc_ok D pend s" and i: "i \<in> keysOf (sp_streams (sv_pool s))"
  shows "\<exists>hook pool. removeStream i (sv_pool s) = Inr (hook, pool) \<and> fst hook = i \<and> svc_ok D (insert i pend) (s\<lparr>sv_pool := pool\<rparr>)"
proof -
  obtain st where st: "mget (sp_streams (sv_pool s)) i = Some st"
    using i by (auto simp: keysOf_def)
  obtain pool where p: "removeStream i (sv_pool s) = Inr ((i, st_peerId st, st_tags st), pool)" "pool_ok pool"
    "sp_streams pool = mdel i (sp_streams (sv_pool s))"
    using removeStream_ok[OF svc_okD(1)[OF ok] st] by blast
  have "streamsOk (dp_Config D) pool (insert i pend) (sv_streams s)"
    using svc_okD(8)[OF ok] p by (auto simp: streamsOk_def tagsDistinct_def)
  then show ?thesis
    using ok p(1) by (simp add: svc_ok_def)
qed

lemma trieHolds_dels: "trieHolds t M \<Longrightarrow> trieHolds (fold (\<lambda>p t. snd (trieRemove p t)) ps t) (M - mset ps)"
  by (rule trie.holds_dels)

lemma trieHolds_empty: "trieHolds newPatternTrie M \<Longrightarrow> M = {#}"
  using trie.len_zero[of newPatternTrie M] trieHolds_len[OF trieHolds_new] by simp

lemma dropSpacePatterns_ok:
  assumes "\<And>sp. trieHolds (remoteTrie remote sp) (M sp)"
  shows "trieHolds (remoteTrie (dropSpacePatterns (sp, ps) remote) sp') (if sp' = sp then M sp - mset (mkeys ps) else M sp')"
proof (cases "mget remote sp")
  case None
  then have "M sp = {#}"
    using assms[of sp] trieHolds_empty by (simp add: remoteTrie_def)
  then show ?thesis
    using None assms[of sp'] assms[of sp] by (simp add: dropSpacePatterns_def)
next
  case (Some t)
  then have "trieHolds t (M sp)"
    using assms[of sp] by (simp add: remoteTrie_def)
  note T = remoteTrie_prune[OF trieHolds_dels[OF this]]
  show ?thesis
    using Some T(1)[of sp "mkeys ps"] T(2)[of sp' sp] assms[of sp'] by (simp add: dropSpacePatterns_def)
qed

lemma dropSpaces_ok:
  assumes "\<And>sp. trieHolds (remoteTrie remote sp) (M sp)" and "gm_wf m"
  shows "trieHolds (remoteTrie (fold dropSpacePatterns m remote) sp)
    (M sp - (case mget m sp of None \<Rightarrow> {#} | Some ps \<Rightarrow> mset (mkeys ps)))"
  using assms
proof (induction m arbitrary: remote M)
  case (Cons a m)
  obtain sp0 ps where a: "a = (sp0, ps)"
    by fastforce
  let ?M = "\<lambda>sp. if sp = sp0 then M sp0 - mset (mkeys ps) else M sp"
  have "gm_wf m" and "mget m sp0 = None"
    using Cons.prems(2) a by (auto simp: gm_wf_def map_of_eq_None_iff)
  then show ?case
    using Cons.IH[of "dropSpacePatterns a remote" ?M] dropSpacePatterns_ok[OF Cons.prems(1), of sp0 ps] a
    by (cases "sp = sp0") auto
qed simp

lemma onStreamClose_ok:
  assumes ok: "svc_ok D pend s" and i: "i \<in> pend"
  shows "svc_ok D (pend - {i}) (onStreamClose D i s)"
proof -
  let ?s = "onStreamClose D i s"
  have same: "sv_pool ?s = sv_pool s" "sv_dedup ?s = sv_dedup s" "sv_streams ?s = (if mget (sv_streams s) i = None then sv_streams s else mdel i (sv_streams s))"
    by (simp_all add: onStreamClose_def triggerResync_def split: option.split)
  have pats: "pats (sv_streams ?s) j sp = (if j = i then {} else pats (sv_streams s) j sp)" for j sp
    unfolding same(3) by (auto simp: pats_def)
  have nk: "i \<notin> keysOf (sp_streams (sv_pool s))"
    using svc_okD(9)[OF ok] i by blast
  have tags: "tagsOf (sv_streams ?s) j = tagsOf (sv_streams s) j" if "mget (sp_streams (sv_pool s)) j = Some st" for j st
    using that pats nk by (auto simp: tagsOf_def keysOf_def)
  have rec: "recordOk (dp_Config D) strm \<and> (si_total strm = 0 \<or> j \<in> keysOf (sp_streams (sv_pool s)) \<or> j \<in> pend - {i})"
    if "mget (sv_streams ?s) j = Some strm" for j strm
    using that svc_okD(4,5)[OF ok, of j strm] by (auto simp: same(3) split: if_splits)
  have "gm_wf (sv_streams ?s)"
    using svc_okD(3)[OF ok] by (simp add: same(3))
  then have "streamsOk (dp_Config D) (sv_pool ?s) (pend - {i}) (sv_streams ?s)"
    using svc_okD(1,2,6,9)[OF ok] tags rec unfolding streamsOk_def same(1) by blast
  moreover have "trieHolds (remoteTrie (sv_remote ?s) sp) (interestM (sv_streams ?s) sp)" for sp
  proof -
    have M: "interestM (sv_streams ?s) sp = interestM (sv_streams s) sp - mset_set (pats (sv_streams s) i sp)"
      using interestM_change[of i "sv_streams ?s" sp "sv_streams s"] pats by simp
    show ?thesis
    proof (cases "mget (sv_streams s) i")
      case None
      then show ?thesis
        using svc_okD(7)[OF ok, of sp] by (simp add: onStreamClose_def triggerResync_def)
    next
      case (Some strm)
      have wf: "gm_wf (si_bySpace strm)"
        using svc_okD(4)[OF ok Some] by (simp add: recordOk_def)
      have "(case mget (si_bySpace strm) sp of None \<Rightarrow> {#} | Some ps \<Rightarrow> mset (mkeys ps)) = mset_set (pats (sv_streams s) i sp)"
        using Some mset_keys[OF patternsOf_ok(1)[OF svc_okD(4)[OF ok Some], of sp]]
        by (simp add: pats_def strmPats_def patternsOf_def split: option.splits)
      then show ?thesis
        using dropSpaces_ok[OF svc_okD(7)[OF ok] wf, of sp] M Some by (simp add: onStreamClose_def triggerResync_def)
    qed
  qed
  ultimately show ?thesis
    using ok by (simp add: svc_ok_def triesOk_def same)
qed

end
