(* ===== verification/PubEvict.thy ===== *)
theory PubEvict
  imports PubSteps
begin

text \<open>
  Eviction of members and closing of spaces keep the invariant of the interest, and take exactly the interest of the
  evicted accounts in the space away.
\<close>

section \<open>One stream\<close>

abbreviation withoutSpace :: "string \<Rightarrow> streamInterest \<Rightarrow> streamInterest" where
  "withoutSpace sp strm \<equiv> strm\<lparr>si_total := si_total strm - int (length (patternsOf sp strm)), si_bySpace := mdel sp (si_bySpace strm)\<rparr>"

lemma dropTrie_ok:
  assumes "trieHolds (remoteTrie (sv_remote s) sp) M"
  shows "trieHolds (remoteTrie (sv_remote (dropTrie sp ps s)) sp) (M - mset ps)"
    and "sp' \<noteq> sp \<Longrightarrow> remoteTrie (sv_remote (dropTrie sp ps s)) sp' = remoteTrie (sv_remote s) sp'"
    and "\<exists>r. dropTrie sp ps s = s\<lparr>sv_remote := r\<rparr>"
proof -
  show "trieHolds (remoteTrie (sv_remote (dropTrie sp ps s)) sp) (M - mset ps)"
  proof (cases "mget (sv_remote s) sp")
    case None
    then have "M = {#}"
      using assms trieHolds_empty by (simp add: remoteTrie_def)
    then show ?thesis
      using None assms by (simp add: dropTrie_def)
  next
    case (Some t)
    then show ?thesis
      using assms trieHolds_dels[of t M ps] by (simp add: dropTrie_def remoteTrie_def)
  qed
  show "sp' \<noteq> sp \<Longrightarrow> remoteTrie (sv_remote (dropTrie sp ps s)) sp' = remoteTrie (sv_remote s) sp'"
    by (simp add: dropTrie_def remoteTrie_put split: option.split)
  have "dropTrie sp ps s = s\<lparr>sv_remote := sv_remote (dropTrie sp ps s)\<rparr>"
    by (simp add: dropTrie_def split: option.split)
  then show "\<exists>r. dropTrie sp ps s = s\<lparr>sv_remote := r\<rparr>"
    by blast
qed

lemma evictStream_ok:
  assumes ok: "svc_ok D pend s" and old: "mget (sv_streams s) i = Some strm" and ne: "patternsOf sp strm \<noteq> []"
  shows "\<exists>s'. evictStream sp (i, strm) (dropTrie sp (mkeys (patternsOf sp strm)) s) = Inr s' \<and> svc_ok D pend s'
    \<and> sv_streams s' = pruneStream i (withoutSpace sp strm) (sv_streams s)
    \<and> (\<forall>sp'. sp' \<noteq> sp \<longrightarrow> remoteTrie (sv_remote s') sp' = remoteTrie (sv_remote s) sp')"
proof -
  let ?ps = "mkeys (patternsOf sp strm)" and ?strm = "withoutSpace sp strm"
  note rec = svc_okD(4)[OF ok old]
  have rec': "recordOk (dp_Config D) ?strm"
    by (rule recordOk_del[OF rec refl])
  have ps: "strmPats sp strm = set ?ps"
    by (simp add: strmPats_def keysOf_set)
  have P: "strmPats sp ?strm = strmPats sp strm - set ?ps" "\<And>sp'. sp' \<noteq> sp \<Longrightarrow> strmPats sp' ?strm = strmPats sp' strm"
    unfolding ps by simp_all
  obtain pool where pool: "RemoveTagsById i (map (interestTag sp) ?ps) (sv_pool s) = Inr pool"
    "retagged i (strmTags ?strm) (sv_pool s) pool"
    using retagged_less[OF ok patternsOf_ok(2)[OF rec ne] old rec' P] by blast
  obtain r where r: "dropTrie sp ?ps s = s\<lparr>sv_remote := r\<rparr>"
    using dropTrie_ok(3)[OF svc_okD(7)[OF ok]] by blast
  have T: "trieHolds (remoteTrie r sp) (interestM (sv_streams s) sp - mset ?ps)"
    "\<And>sp'. sp' \<noteq> sp \<Longrightarrow> remoteTrie r sp' = remoteTrie (sv_remote s) sp'"
    using dropTrie_ok(1)[OF svc_okD(7)[OF ok, of sp], of ?ps] dropTrie_ok(2)[OF svc_okD(7)[OF ok, of sp], of _ ?ps] r by simp_all
  have keys: "mset ?ps = mset_set (strmPats sp strm \<inter> set ?ps)"
    using mset_keys[OF patternsOf_ok(1)[OF rec, of sp]] ps by (simp add: strmPats_def)
  define s' where "s' = s\<lparr>sv_remote := r, sv_pool := pool, sv_streams := pruneStream i ?strm (sv_streams s)\<rparr>"
  have "svc_ok D pend s'"
    by (rule svc_ok_shrink[OF ok old rec' P])
      (use pool(2) T keys in \<open>simp_all add: s'_def updated_def\<close>)
  moreover have "evictStream sp (i, strm) (dropTrie sp ?ps s) = Inr s'"
    unfolding r using pool(1) by (simp add: evictStream_def s'_def Let_def)
  ultimately show ?thesis
    using T(2) by (simp add: s'_def)
qed

section \<open>Loops over the streams\<close>

abbreviation evictBody :: "string \<Rightarrow> (string \<Rightarrow> bool) \<Rightarrow> u32 \<times> streamInterest \<Rightarrow> ('p, 'q, 'h, 'l) service
    \<Rightarrow> pool_error + ('p, 'q, 'h, 'l) service" where
  "evictBody spaceId evict \<equiv> (\<lambda>(streamId, strm) s.
     if patternsOf spaceId strm = [] \<or> \<not> evict (si_account strm) then Inr s
     else evictStream spaceId (streamId, strm) (dropTrie spaceId (mkeys (patternsOf spaceId strm)) s))"

definition evicted :: "string \<Rightarrow> (string \<Rightarrow> bool) \<Rightarrow> (u32, streamInterest) gomap \<Rightarrow> u32 \<Rightarrow> string \<Rightarrow> bool" where
  "evicted spaceId evict streams i sp \<longleftrightarrow> sp = spaceId \<and> (\<exists>strm. mget streams i = Some strm \<and> evict (si_account strm))"

lemma evictBody_ok:
  assumes ok: "svc_ok D pend s" and old: "mget (sv_streams s) i = Some strm"
  shows "\<exists>s'. evictBody sp evict (i, strm) s = Inr s' \<and> svc_ok D pend s'
    \<and> (\<forall>j. j \<noteq> i \<longrightarrow> mget (sv_streams s') j = mget (sv_streams s) j)
    \<and> (\<forall>j sp'. pats (sv_streams s') j sp' = (if j = i \<and> sp' = sp \<and> evict (si_account strm) then {} else pats (sv_streams s) j sp'))
    \<and> (\<forall>sp'. sp' \<noteq> sp \<longrightarrow> remoteTrie (sv_remote s') sp' = remoteTrie (sv_remote s) sp')"
proof (cases "patternsOf sp strm = [] \<or> \<not> evict (si_account strm)")
  case True
  then have "pats (sv_streams s) i sp = {}" if "evict (si_account strm)"
    using old that by (simp add: pats_def strmPats_def)
  then show ?thesis
    using True ok by auto
next
  case False
  then obtain s' where s': "evictStream sp (i, strm) (dropTrie sp (mkeys (patternsOf sp strm)) s) = Inr s'" "svc_ok D pend s'"
    "sv_streams s' = pruneStream i (withoutSpace sp strm) (sv_streams s)"
    "\<forall>sp'. sp' \<noteq> sp \<longrightarrow> remoteTrie (sv_remote s') sp' = remoteTrie (sv_remote s) sp'"
    using evictStream_ok[OF ok old] by blast
  have "recordOk (dp_Config D) (withoutSpace sp strm)"
    by (rule recordOk_del[OF svc_okD(4)[OF ok old] refl])
  then have "pats (sv_streams s') j sp' = (if j = i \<and> sp' = sp then {} else pats (sv_streams s) j sp')" for j sp'
    using s'(3) pats_pruneStream[of "dp_Config D" "withoutSpace sp strm" i "sv_streams s"] old by (simp add: pats_def)
  moreover have "mget (sv_streams s') j = mget (sv_streams s) j" if "j \<noteq> i" for j
    using that s'(3) by (simp add: pruneStream_def)
  ultimately show ?thesis
    using s' False by simp
qed

lemma evictLoop_ok:
  assumes "svc_ok D pend s" and "gm_wf l" and "\<And>i strm. (i, strm) \<in> set l \<Longrightarrow> mget (sv_streams s) i = Some strm"
  shows "\<exists>s'. rfold (evictBody sp evict) l s = Inr s' \<and> svc_ok D pend s'
    \<and> (\<forall>j sp'. pats (sv_streams s') j sp' = (if evicted sp evict l j sp' then {} else pats (sv_streams s) j sp'))
    \<and> (\<forall>sp'. sp' \<noteq> sp \<longrightarrow> remoteTrie (sv_remote s') sp' = remoteTrie (sv_remote s) sp')"
  using assms
proof (induction l arbitrary: s)
  case (Cons a l)
  obtain i strm where a: "a = (i, strm)"
    by fastforce
  obtain s1 where s1: "evictBody sp evict (i, strm) s = Inr s1" "svc_ok D pend s1"
    "\<forall>j. j \<noteq> i \<longrightarrow> mget (sv_streams s1) j = mget (sv_streams s) j"
    "\<forall>j sp'. pats (sv_streams s1) j sp' = (if j = i \<and> sp' = sp \<and> evict (si_account strm) then {} else pats (sv_streams s) j sp')"
    "\<forall>sp'. sp' \<noteq> sp \<longrightarrow> remoteTrie (sv_remote s1) sp' = remoteTrie (sv_remote s) sp'"
    using evictBody_ok[OF Cons.prems(1) Cons.prems(3)[of i strm], of sp evict] a by auto
  have wf: "gm_wf l" and i: "mget l i = None" "i \<notin> fst ` set l"
    using Cons.prems(2) a by (auto simp: gm_wf_def map_of_eq_None_iff)
  have "mget (sv_streams s1) j = Some st" if "(j, st) \<in> set l" for j st
    using that Cons.prems(3)[of j st] s1(3) i(2) by force
  then obtain s2 where s2: "rfold (evictBody sp evict) l s1 = Inr s2" "svc_ok D pend s2"
    "\<forall>j sp'. pats (sv_streams s2) j sp' = (if evicted sp evict l j sp' then {} else pats (sv_streams s1) j sp')"
    "\<forall>sp'. sp' \<noteq> sp \<longrightarrow> remoteTrie (sv_remote s2) sp' = remoteTrie (sv_remote s1) sp'"
    using Cons.IH[OF s1(2) wf] by blast
  have "evicted sp evict (a # l) j sp' \<longleftrightarrow> evicted sp evict l j sp' \<or> j = i \<and> sp' = sp \<and> evict (si_account strm)" for j sp'
    using i(1) a by (auto simp: evicted_def)
  then have "pats (sv_streams s2) j sp' = (if evicted sp evict (a # l) j sp' then {} else pats (sv_streams s) j sp')" for j sp'
    using s1(4) s2(3) by presburger
  moreover have "rfold (evictBody sp evict) (a # l) s = Inr s2"
    unfolding rfold.simps a s1(1) using s2(1) by simp
  moreover have "\<forall>sp'. sp' \<noteq> sp \<longrightarrow> remoteTrie (sv_remote s2) sp' = remoteTrie (sv_remote s) sp'"
    using s2(4) s1(5) by simp
  ultimately show ?case
    using s2(2) by (intro exI[of _ s2] conjI allI) blast+
qed (simp add: evicted_def)

lemma streams_current: "svc_ok D pend s \<Longrightarrow> (i, strm) \<in> set (sv_streams s) \<Longrightarrow> mget (sv_streams s) i = Some strm"
  by (simp add: gm_in_set_iff[OF svc_okD(3), symmetric])

lemma evictSpaceStreams_ok:
  assumes ok: "svc_ok D pend s"
  shows "\<exists>s'. evictSpaceStreams sp evict s = Inr s' \<and> svc_ok D pend s'
    \<and> (\<forall>j sp'. pats (sv_streams s') j sp' = (if evicted sp evict (sv_streams s) j sp' then {} else pats (sv_streams s) j sp'))"
proof -
  obtain s1 where s1: "rfold (evictBody sp evict) (sv_streams s) s = Inr s1" "svc_ok D pend s1"
    "\<forall>j sp'. pats (sv_streams s1) j sp' = (if evicted sp evict (sv_streams s) j sp' then {} else pats (sv_streams s) j sp')"
    using evictLoop_ok[OF ok svc_okD(3)[OF ok] streams_current[OF ok], of sp evict] by blast
  show ?thesis
  proof (cases "mget (sv_remote s1) sp")
    case None
    then show ?thesis
      using s1 by (simp add: evictSpaceStreams_def)
  next
    case (Some t)
    define s2 where "s2 = s1\<lparr>sv_remote := pruneSpace sp t (sv_remote s1)\<rparr>"
    have "trieHolds t (interestM (sv_streams s1) sp)"
      using svc_okD(7)[OF s1(2), of sp] Some by (simp add: remoteTrie_def)
    note T = remoteTrie_prune[OF this]
    have "trieHolds (remoteTrie (sv_remote s2) sp') (interestM (sv_streams s2) sp')" for sp'
      using T(1) T(2)[of sp' sp] svc_okD(7)[OF s1(2), of sp'] by (cases "sp' = sp") (simp_all add: s2_def)
    then have "svc_ok D pend s2"
      using s1(2) by (simp add: svc_ok_def triesOk_def s2_def)
    moreover have "evictSpaceStreams sp evict s = Inr s2"
      using s1(1) Some by (simp add: evictSpaceStreams_def s2_def)
    ultimately show ?thesis
      using s1(3) by (simp add: s2_def)
  qed
qed

section \<open>Closing a space\<close>

abbreviation closeBody :: "string \<Rightarrow> u32 \<times> streamInterest \<Rightarrow> ('p, 'q, 'h, 'l) service \<Rightarrow> pool_error + ('p, 'q, 'h, 'l) service" where
  "closeBody spaceId \<equiv> (\<lambda>(streamId, strm) s. if patternsOf spaceId strm = [] then Inr s else evictStream spaceId (streamId, strm) s)"

text \<open>\<open>CloseSpace\<close> has dropped the trie before its loop, which otherwise is that of an eviction of everybody.\<close>

lemma closeBody_evict:
  assumes "evictBody sp (\<lambda>_. True) x s = Inr s'"
  shows "closeBody sp x (s\<lparr>sv_remote := r\<rparr>) = Inr (s'\<lparr>sv_remote := r\<rparr>)"
proof (cases x)
  case (Pair i strm)
  define d where "d = dropTrie sp (mkeys (patternsOf sp strm)) s"
  have "d = s\<lparr>sv_remote := sv_remote d\<rparr>"
    by (simp add: d_def dropTrie_def split: option.split)
  then have "evictStream sp (i, strm) d = Inr s' \<Longrightarrow> evictStream sp (i, strm) (s\<lparr>sv_remote := r\<rparr>) = Inr (s'\<lparr>sv_remote := r\<rparr>)"
    by (cases "RemoveTagsById i (map (interestTag sp) (mkeys (patternsOf sp strm))) (sv_pool s)"; cases s; cases d)
      (auto simp: evictStream_def Let_def)
  then show ?thesis
    using assms Pair by (auto simp: d_def split: if_splits)
qed

lemma closeLoop_evict:
  "rfold (evictBody sp (\<lambda>_. True)) l s = Inr s' \<Longrightarrow> rfold (closeBody sp) l (s\<lparr>sv_remote := r\<rparr>) = Inr (s'\<lparr>sv_remote := r\<rparr>)"
proof (induction l arbitrary: s)
  case (Cons x l)
  obtain s1 where s1: "evictBody sp (\<lambda>_. True) x s = Inr s1" "rfold (evictBody sp (\<lambda>_. True)) l s1 = Inr s'"
    using Cons.prems by (cases "evictBody sp (\<lambda>_. True) x s") auto
  show ?case
    unfolding rfold.simps closeBody_evict[OF s1(1)] using Cons.IH[OF s1(2)] by simp
qed simp

text \<open>The operations on local interest and the queues leave the remote side alone.\<close>

definition sameRemote :: "('p, 'q, 'h, 'l) service \<Rightarrow> ('p, 'q, 'h, 'l) service \<Rightarrow> bool" where
  "sameRemote s s' \<longleftrightarrow> sv_pool s' = sv_pool s \<and> sv_streams s' = sv_streams s \<and> sv_remote s' = sv_remote s \<and> sv_dedup s' = sv_dedup s"

lemma sameRemote_refl [simp]: "sameRemote s s"
  by (simp add: sameRemote_def)

lemma sameRemote_trans: "sameRemote s s1 \<Longrightarrow> sameRemote s1 s2 \<Longrightarrow> sameRemote s s2"
  by (simp add: sameRemote_def)

lemma svc_ok_sameRemote: "svc_ok D pend s \<Longrightarrow> sameRemote s s' \<Longrightarrow> svc_ok D pend s'"
  by (simp add: svc_ok_def sameRemote_def)

lemma poolSend_remote: "sameRemote s (snd (poolSend D target msg s))"
  by (simp add: sameRemote_def poolSend_def split: option.split)

lemma sendInterest_remote: "sameRemote s (sendInterest D sp ps b s)"
  by (simp add: sendInterest_def poolSend_remote)

lemma CloseSpace_ok:
  assumes ok: "svc_ok D pend s"
  shows "\<exists>s'. CloseSpace D' sp s = Inr s' \<and> svc_ok D pend s'
    \<and> (\<forall>j sp'. pats (sv_streams s') j sp' = (if sp' = sp then {} else pats (sv_streams s) j sp'))"
proof -
  define s0 where "s0 = s\<lparr>sv_localTrie := mdel sp (sv_localTrie s), sv_localSubs := mdel sp (sv_localSubs s), sv_localTopic := mdel sp (sv_localTopic s)\<rparr>"
  define s1 where "s1 = (if localPatterns sp s \<noteq> [] then sendInterest D' sp (localPatterns sp s) False s0 else s0)"
  have "sameRemote s s0"
    by (simp add: s0_def sameRemote_def)
  then have same: "sameRemote s s1"
    using sendInterest_remote[of s0 D' sp "localPatterns sp s" False] sameRemote_trans by (auto simp: s1_def)
  then have ok1: "svc_ok D pend s1" and streams: "sv_streams s1 = sv_streams s"
    using svc_ok_sameRemote[OF ok] by (auto simp: sameRemote_def)
  obtain s2 where s2: "rfold (evictBody sp (\<lambda>_. True)) (sv_streams s1) s1 = Inr s2" "svc_ok D pend s2"
    "\<forall>j sp'. pats (sv_streams s2) j sp' = (if evicted sp (\<lambda>_. True) (sv_streams s1) j sp' then {} else pats (sv_streams s1) j sp')"
    "\<forall>sp'. sp' \<noteq> sp \<longrightarrow> remoteTrie (sv_remote s2) sp' = remoteTrie (sv_remote s1) sp'"
    using evictLoop_ok[OF ok1 svc_okD(3)[OF ok1] streams_current[OF ok1], of sp "\<lambda>_. True"] by blast
  define r where "r = mdel sp (sv_remote s1)"
  have run: "CloseSpace D' sp s = Inr (s2\<lparr>sv_remote := r\<rparr>)"
    using closeLoop_evict[OF s2(1), of r] by (simp add: CloseSpace_def Let_def s0_def[symmetric] s1_def[symmetric] r_def)
  have pats: "pats (sv_streams s2) j sp' = (if sp' = sp then {} else pats (sv_streams s) j sp')" for j sp'
    using s2(3) streams by (cases "mget (sv_streams s) j") (auto simp: evicted_def pats_def)
  have "interestM (sv_streams s2) sp = {#}"
    by (simp add: interestM_def pats)
  then have "trieHolds (remoteTrie r sp') (interestM (sv_streams s2) sp')" for sp'
    using svc_okD(7)[OF s2(2), of sp'] s2(4) trieHolds_new by (cases "sp' = sp") (simp_all add: r_def remoteTrie_def)
  then have "svc_ok D pend (s2\<lparr>sv_remote := r\<rparr>)"
    using s2(2) by (simp add: svc_ok_def triesOk_def)
  then show ?thesis
    using run pats by simp
qed

end
