(* ===== verification/PubReach.thy ===== *)
theory PubReach
  imports PubEvict
begin

text \<open>
  Messages that are published: who gets them, and that relaying keeps the invariant. Then the steps of the service and
  the invariant of every reachable state.
\<close>

section \<open>Fan-out\<close>

definition subscribed :: "string \<Rightarrow> string \<Rightarrow> ('p, 'q, 'h, 'l) service \<Rightarrow> u32 \<Rightarrow> bool" where
  "subscribed sp topic s i \<longleftrightarrow> (\<exists>p \<in> pats (sv_streams s) i sp. matches (splitTopic p) (splitTopic topic))"

lemma ValidateTopic_noWildcard: "ValidateTopic t = None \<Longrightarrow> list_all noWildcard (splitTopic t)"
  by (auto simp: ValidateTopic_iff topicSegs_def list_all_iff)

lemma remoteMatch_set:
  assumes ok: "svc_ok D pend s" and t: "ValidateTopic topic = None"
  shows "set (remoteMatch sp topic s) = {p. (\<exists>i. p \<in> pats (sv_streams s) i sp) \<and> matches (splitTopic p) (splitTopic topic)}"
proof -
  have "set (trieMatch (remoteTrie (sv_remote s) sp) topic)
      = {p \<in> set_mset (interestM (sv_streams s) sp). matches (splitTopic p) (splitTopic topic)}"
    by (rule trie.holds_find[OF svc_okD(7)[OF ok] ValidateTopic_noWildcard[OF t]])
  moreover have "remoteMatch sp topic s = (if mget (sv_remote s) sp = None then [] else trieMatch (remoteTrie (sv_remote s) sp) topic)"
    by (simp add: remoteMatch_def remoteTrie_def split: option.split)
  moreover have "interestM (sv_streams s) sp = {#}" if "mget (sv_remote s) sp = None"
    using svc_okD(7)[OF ok, of sp] that trieHolds_empty by (simp add: remoteTrie_def)
  ultimately show ?thesis
    using interestM_mem[of _ "sv_streams s" sp] by auto
qed

lemma pats_slash:
  assumes ok: "svc_ok D pend s" and p: "p \<in> pats (sv_streams s) i sp"
  shows "slash \<notin> set sp"
proof -
  obtain strm where s: "mget (sv_streams s) i = Some strm" "patternsOf sp strm \<noteq> []"
    using p keysOf_Nil by (fastforce simp: pats_def strmPats_def split: option.splits)
  then have "validateSpaceId sp = None"
    using patternsOf_ok(2)[OF svc_okD(4)[OF ok s(1)]] by blast
  then show ?thesis
    by (simp add: validateSpaceId_iff)
qed

lemma tags_subscribed:
  assumes ok: "svc_ok D pend s" and t: "ValidateTopic topic = None" and st: "mget (sp_streams (sv_pool s)) i = Some st"
  shows "set (st_tags st) \<inter> set (map (interestTag sp) (remoteMatch sp topic s)) \<noteq> {} \<longleftrightarrow> subscribed sp topic s i"
proof
  assume "set (st_tags st) \<inter> set (map (interestTag sp) (remoteMatch sp topic s)) \<noteq> {}"
  then obtain sp' p q where x: "interestTag sp q = interestTag sp' p" "p \<in> pats (sv_streams s) i sp'" "q \<in> set (remoteMatch sp topic s)"
    using svc_okD(6)[OF ok st] by (auto simp: tagsOf_def)
  then obtain j where "q \<in> pats (sv_streams s) j sp" "matches (splitTopic q) (splitTopic topic)"
    using remoteMatch_set[OF ok t, of sp] by auto
  moreover from this have "sp = sp' \<and> q = p"
    using x(1) interestTag_inj[OF pats_slash[OF ok, of q j sp] pats_slash[OF ok x(2)], of q p] by blast
  ultimately show "subscribed sp topic s i"
    using x by (auto simp: subscribed_def)
next
  assume "subscribed sp topic s i"
  then obtain p where "p \<in> pats (sv_streams s) i sp" "p \<in> set (remoteMatch sp topic s)"
    using remoteMatch_set[OF ok t, of sp] by (auto simp: subscribed_def)
  then show "set (st_tags st) \<inter> set (map (interestTag sp) (remoteMatch sp topic s)) \<noteq> {}"
    using svc_okD(6)[OF ok st] by (auto simp: tagsOf_def)
qed

lemma fanout_exact:
  assumes ok: "svc_ok D pend s" and t: "ValidateTopic (pb_Topic p) = None"
  shows "\<exists>pool. fanout D p s = Inr (s\<lparr>sv_pool := pool\<rparr>) \<and> sameTags (sv_pool s) pool
    \<and> (\<forall>i. mget (sp_streams pool) i = (if subscribed (pb_SpaceId p) (pb_Topic p) s i
        then map_option (\<lambda>st. snd (writeStream (dp_Queue D) (wrapPublish p) st)) (mget (sp_streams (sv_pool s)) i)
        else mget (sp_streams (sv_pool s)) i))"
proof -
  let ?ps = "remoteMatch (pb_SpaceId p) (pb_Topic p) s"
  let ?tags = "map (interestTag (pb_SpaceId p)) ?ps"
  let ?ids = "broadcastIds ?tags (sv_pool s)"
  have sub: "i \<in> set ?ids \<longleftrightarrow> i \<in> keysOf (sp_streams (sv_pool s)) \<and> subscribed (pb_SpaceId p) (pb_Topic p) s i" for i
    using broadcastIds_ok(2)[OF svc_okD(1,2)[OF ok], of i ?tags] tags_subscribed[OF ok t, of i _ "pb_SpaceId p"]
    by (auto simp: keysOf_def)
  have "\<forall>i \<in> set ?ids. mget (sp_streams (sv_pool s)) i \<noteq> None"
    using sub by (auto simp: keysOf_def)
  then obtain pool where w: "writeAll (dp_Queue D) (wrapPublish p) ?ids (sv_pool s) = Inr pool" "pool_ok pool"
    "\<forall>i. mget (sp_streams pool) i = (if i \<in> set ?ids
        then map_option (\<lambda>st. snd (writeStream (dp_Queue D) (wrapPublish p) st)) (mget (sp_streams (sv_pool s)) i)
        else mget (sp_streams (sv_pool s)) i)"
    using writeAll_ok[OF svc_okD(1)[OF ok] broadcastIds_ok(1)[OF svc_okD(1,2)[OF ok]], of ?tags "dp_Queue D" "wrapPublish p"] by blast
  have run: "fanout D p s = Inr (s\<lparr>sv_pool := pool\<rparr>)"
  proof (cases "?ps = []")
    case True
    then have "pool = sv_pool s"
      using w(1) by (simp add: broadcastIds_def)
    then show ?thesis
      using True by (simp add: fanout_def)
  next
    case False
    then show ?thesis
      using w(1) by (simp add: fanout_def Broadcast_def)
  qed
  moreover have "sameTags (sv_pool s) pool"
    using w(2,3) by (auto simp: sameTags_def option.map_comp o_def writeStream_keys)
  moreover have "mget (sp_streams pool) i = (if subscribed (pb_SpaceId p) (pb_Topic p) s i
        then map_option (\<lambda>st. snd (writeStream (dp_Queue D) (wrapPublish p) st)) (mget (sp_streams (sv_pool s)) i)
        else mget (sp_streams (sv_pool s)) i)" for i
    using w(3) sub[of i] by (auto simp: keysOf_def)
  ultimately show ?thesis
    by blast
qed

section \<open>Messages keep the invariant\<close>

lemma fanout_ok:
  assumes "svc_ok D pend s" and "ValidateTopic (pb_Topic p) = None"
  shows "\<exists>s'. fanout D p s = Inr s' \<and> svc_ok D pend s'"
  using fanout_exact[OF assms] svc_ok_pool[OF assms(1)] by blast

lemma relayPublish_ok:
  assumes ok: "svc_ok D pend s" and t: "ValidateTopic (pb_Topic p) = None"
  shows "\<exists>s'. relayPublish D now r cx peerId p s = Inr s' \<and> svc_ok D pend s'"
proof -
  obtain b rate where a: "allow (dp_Limiter D) now peerId (sv_rate s) = (b, rate)"
    by fastforce
  define s1 where "s1 = s\<lparr>sv_rate := rate\<rparr>"
  have ok1: "svc_ok D pend s1"
    using ok by (simp add: svc_ok_def s1_def)
  obtain s2 where s2: "fanout D p s1 = Inr s2" "svc_ok D pend s2"
    using fanout_ok[OF ok1 t] by blast
  have "svc_ok D pend (snd (poolSend D target msg s2))" for target msg
    by (rule svc_ok_sameRemote[OF s2(2) poolSend_remote])
  then show ?thesis
    using sendStatus_ok(2)[OF ok] sendStatus_ok(2)[OF ok1] fanout_ok[OF ok t] s2(1) ok
    unfolding relayPublish_def a Let_def prod.case s1_def[symmetric] by simp
qed

lemma seen_total:
  assumes "dedup_ok n d"
  shows "\<exists>b d'. seen key d = Inr (b, d') \<and> dedup_ok n d'"
proof (cases "length key = msgIdLen")
  case True
  then show ?thesis
    using seen_ok[OF assms True] by blast
qed (use assms in \<open>auto simp: seen_def\<close>)

lemma svc_ok_dedup:
  assumes "svc_ok D pend s" and "dedup_ok (nat (cf_DedupSize (dp_Config D))) d"
  shows "svc_ok D pend (s\<lparr>sv_dedup := d\<rparr>)"
  using assms by (simp add: svc_ok_def)

lemma enqueue_remote: "sameRemote s (enqueueLocalMatched D ps sp topic k x s)"
  by (simp add: enqueueLocalMatched_def sameRemote_def split: option.split)

lemma svc_ok_enqueue: "svc_ok D pend s \<Longrightarrow> svc_ok D pend (enqueueLocalMatched D' ps sp topic k x s)"
  by (rule svc_ok_sameRemote[OF _ enqueue_remote])

lemma svc_ok_enqueueLocal: "svc_ok D pend s \<Longrightarrow> svc_ok D pend (enqueueLocal D' sp topic k x s)"
  by (simp add: enqueueLocal_def Let_def svc_ok_enqueue)

lemma receivePublish_ok:
  assumes ok: "svc_ok D pend s"
  shows "\<exists>s'. receivePublish D now p s = Inr s' \<and> svc_ok D pend s'"
proof -
  obtain b d where d: "seen (pb_MsgId p) (sv_dedup s) = Inr (b, d)" "dedup_ok (nat (cf_DedupSize (dp_Config D))) d"
    using seen_total[of "nat (cf_DedupSize (dp_Config D))" "sv_dedup s" "pb_MsgId p"] ok by (auto simp: svc_ok_def)
  have ok1: "svc_ok D pend (s\<lparr>sv_dedup := d\<rparr>)"
    by (rule svc_ok_dedup[OF ok d(2)])
  show ?thesis
    unfolding receivePublish_def Let_def d(1)
    using ok ok1 svc_ok_enqueue[OF ok1, of D] by (simp split: sum.split option.split)
qed

lemma handlePublish_ok:
  assumes ok: "svc_ok D pend s"
  shows "\<exists>s'. handlePublish D now cx peerId p s = Inr s' \<and> svc_ok D pend s'"
  using sendStatus_ok(2)[OF ok] receivePublish_ok[OF ok] relayPublish_ok[OF ok]
  unfolding handlePublish_def by (cases "dp_Relay D") (simp_all, (metis map_sum.simps(2) id_apply)+)

lemma HandleMessage_ok:
  assumes ok: "svc_ok D pend s" and c: "configOk (dp_Config D)"
  shows "\<exists>st s'. HandleMessage D now cx peerId msg s = Inr (st, s') \<and> svc_ok D pend s'"
proof (cases msg)
  case (MsgSubscribe sp topics)
  then show ?thesis
    using handleSubscribe_ok[OF ok c, of cx peerId sp topics] by (auto simp: HandleMessage_def)
next
  case (MsgUnsubscribe sp topics)
  then show ?thesis
    using handleUnsubscribe_ok[OF ok, of cx sp topics] by (auto simp: HandleMessage_def)
next
  case (MsgPublish p)
  then show ?thesis
    using handlePublish_ok[OF ok, of now cx peerId p] by (auto simp: HandleMessage_def)
next
  case (MsgStatus st)
  then show ?thesis
    using ok by (simp add: HandleMessage_def)
qed

section \<open>Local operations\<close>

lemma sendInterest_keeps [simp]:
  "sv_pool (sendInterest D sp ps b s) = sv_pool s" "sv_streams (sendInterest D sp ps b s) = sv_streams s"
  "sv_remote (sendInterest D sp ps b s) = sv_remote s" "sv_dedup (sendInterest D sp ps b s) = sv_dedup s"
  using sendInterest_remote[of s D sp ps b] by (simp_all add: sameRemote_def)

lemma Subscribe_remote: "sameRemote s (snd (Subscribe D sp pattern h s))"
  by (simp add: Subscribe_def Let_def sameRemote_def split: option.split)

lemma unsubscribe_remote: "sameRemote s (unsubscribe D sp pattern i s)"
  by (simp add: unsubscribe_def Let_def sameRemote_def split: option.split)

lemma SyncInterest_remote: "sameRemote s (snd (SyncInterest D sp s))"
  by (simp add: SyncInterest_def poolSend_remote)

lemma resyncRound_remote: "sameRemote s (resyncRound D s)"
proof -
  have loop: "sameRemote s0 (fold (\<lambda>sp s. snd (SyncInterest D sp s)) sps s0)" for s0 sps
  proof (induction sps arbitrary: s0)
    case (Cons sp sps)
    show ?case
      using sameRemote_trans[OF SyncInterest_remote[of s0 D sp] Cons.IH] by simp
  qed simp
  have "sameRemote s (s\<lparr>sv_resyncNow := False\<rparr>)"
    by (simp add: sameRemote_def)
  then show ?thesis
    unfolding resyncRound_def by (rule sameRemote_trans[OF _ loop])
qed

lemma dispatchStep_remote: "sameRemote s (snd (dispatchStep s))"
  by (simp add: dispatchStep_def sameRemote_def split: list.split)

lemma Publish_ok:
  fixes s :: "('b, 'c, 'e, 'd) service" and D :: "('a, 'b, 'c, 'd) deps"
  assumes ok: "svc_ok D pend s"
  shows "\<exists>e s'. Publish' D now msgId sp topic payload s = Inr (e, s') \<and> svc_ok D pend s'"
proof -
  have "\<exists>b d. seen k (sv_dedup s) = Inr (b, d) \<and> svc_ok D pend (s\<lparr>sv_dedup := d\<rparr>)" for k
    using seen_total[of "nat (cf_DedupSize (dp_Config D))" "sv_dedup s" k] ok by (auto simp: svc_ok_def)
  then obtain b d where d: "\<And>k. seen k (sv_dedup s) = Inr (b k, d k)" "\<And>k. svc_ok D pend (s\<lparr>sv_dedup := d k\<rparr>)"
    by metis
  define s1 where "s1 = (\<lambda>k. enqueueLocal D sp topic (ko_GetPublic (dp_Keys D) (dp_SignKey D)) payload (s\<lparr>sv_dedup := d k\<rparr>))"
  have ok1: "svc_ok D pend (s1 k)" for k
    unfolding s1_def by (rule svc_ok_enqueueLocal[OF d(2)])
  have ok2: "svc_ok D pend (snd (poolSend D target msg (s1 k)))" for k target msg
    by (rule svc_ok_sameRemote[OF ok1 poolSend_remote])
  define okR where "okR = (\<lambda>r :: dedup_error + (pubsub_error option \<times> ('b, 'c, 'e, 'd) service).
    \<exists>e s'. r = Inr (e, s') \<and> svc_ok D pend s')"
  have okR: "okR (Inr r) \<longleftrightarrow> svc_ok D pend (snd r)" for r
    by (cases r) (simp add: okR_def)
  have "okR (Publish' D now msgId sp topic payload s)"
    unfolding Publish'_def Let_def d(1) rbind_Inr prod.case
    by (simp add: okR ok ok1[unfolded s1_def] ok2[unfolded s1_def] split: option.split sum.split)
  then show ?thesis
    by (simp add: okR_def)
qed

section \<open>Steps\<close>

text \<open>
  A state of the service with the streams whose close hook is still to run. \<open>sent\<close> is a message that the dial queue
  writes to a stream of a peer.
\<close>

inductive svcStep :: "('k, 'p, 'q, 'l) deps \<Rightarrow> ('p, 'q, 'h, 'l) service \<times> u32 set \<Rightarrow> ('p, 'q, 'h, 'l) service \<times> u32 set \<Rightarrow> bool"
  for D where
  opened: "freshId pend s \<Longrightarrow> openStream D peerId n s = Inr s' \<Longrightarrow> svcStep D (s, pend) (s', pend)"
| message: "HandleMessage D now cx peerId msg s = Inr (st, s') \<Longrightarrow> svcStep D (s, pend) (s', pend)"
| closed: "removeStream i (sv_pool s) = Inr (hook, pool) \<Longrightarrow> svcStep D (s, pend) (s\<lparr>sv_pool := pool\<rparr>, insert i pend)"
| hook: "i \<in> pend \<Longrightarrow> svcStep D (s, pend) (onStreamClose D i s, pend - {i})"
| evict: "EvictMember D sp identity s = Inr s' \<Longrightarrow> svcStep D (s, pend) (s', pend)"
| revalidate: "RevalidateMembers sp isMember s = Inr s' \<Longrightarrow> svcStep D (s, pend) (s', pend)"
| closeSpace: "CloseSpace D sp s = Inr s' \<Longrightarrow> svcStep D (s, pend) (s', pend)"
| subscribe: "svcStep D (s, pend) (snd (Subscribe D sp pattern h s), pend)"
| unsubscribe: "svcStep D (s, pend) (unsubscribe D sp pattern subId s, pend)"
| publish: "Publish' D now msgId sp topic payload s = Inr (e, s') \<Longrightarrow> svcStep D (s, pend) (s', pend)"
| resync: "svcStep D (s, pend) (resyncRound D s, pend)"
| dispatch: "svcStep D (s, pend) (snd (dispatchStep s), pend)"
| sent: "writeTo (dp_Queue D) msg i (sv_pool s) = Inr (b, pool) \<Longrightarrow> svcStep D (s, pend) (s\<lparr>sv_pool := pool\<rparr>, pend)"

inductive svcReach :: "('k, 'p, 'q, 'l) deps \<Rightarrow> ('p, 'q, 'h, 'l) service \<times> u32 set \<Rightarrow> bool" for D where
  start: "svcReach D (initService D now, {})"
| step: "svcReach D x \<Longrightarrow> svcStep D x y \<Longrightarrow> svcReach D y"

lemma initService_ok: "configOk (dp_Config D) \<Longrightarrow> svc_ok D {} (initService D now)"
  using pool_ok_empty newMsgIdDedup_ok[of "nat (cf_DedupSize (dp_Config D))"]
  by (simp add: svc_ok_def initService_def streamsOk_def triesOk_def tagsDistinct_def emptyPool_def remoteTrie_def
      interestM_def trieHolds_new configOk_def)

lemma removeStream_known: "removeStream i pool = Inr (hook, pool') \<Longrightarrow> i \<in> keysOf (sp_streams pool)"
  by (auto simp: removeStream_def keysOf_def split: option.splits)

lemma writeTo_known: "writeTo Q msg i pool = Inr (b, pool') \<Longrightarrow> i \<in> keysOf (sp_streams pool)"
  by (auto simp: writeTo_def keysOf_def split: option.splits)

lemma svcStep_ok:
  assumes step: "svcStep D (s, pend) (s', pend')" and ok: "svc_ok D pend s" and c: "configOk (dp_Config D)"
  shows "svc_ok D pend' s'"
  using step
proof cases
  case (opened peerId n)
  then show ?thesis
    using openStream_ok[OF ok, of peerId n] by auto
next
  case (message now cx peerId msg st)
  then show ?thesis
    using HandleMessage_ok[OF ok c, of now cx peerId msg] by auto
next
  case (closed i hook pool)
  then show ?thesis
    using removeStream_pending[OF ok removeStream_known[OF closed(3)]] by auto
next
  case (hook i)
  then show ?thesis
    using onStreamClose_ok[OF ok] by auto
next
  case (evict sp identity)
  then show ?thesis
    using evictSpaceStreams_ok[OF ok, of sp "\<lambda>a. a = ko_Account (dp_Keys D) identity"] by (simp add: EvictMember_def)
next
  case (revalidate sp isMember)
  then show ?thesis
    using evictSpaceStreams_ok[OF ok, of sp "\<lambda>a. \<not> isMember a"] by (simp add: RevalidateMembers_def)
next
  case (closeSpace sp)
  then show ?thesis
    using CloseSpace_ok[OF ok, of D sp] by auto
next
  case (publish now msgId sp topic payload e)
  then show ?thesis
    using Publish_ok[OF ok, of now msgId sp topic payload] by auto
next
  case (sent msg i b pool)
  then show ?thesis
    using writeTo_same[OF svc_okD(1)[OF ok] writeTo_known[OF sent(3)], of "dp_Queue D" msg] svc_ok_pool[OF ok] by auto
qed (simp_all, (rule svc_ok_sameRemote[OF ok], rule Subscribe_remote unsubscribe_remote resyncRound_remote dispatchStep_remote)+)

lemma svcReach_ok:
  assumes "svcReach D x" and c: "configOk (dp_Config D)"
  shows "svc_ok D (snd x) (fst x)"
  using assms(1)
proof induction
  case (start now)
  then show ?case
    using initService_ok[OF c] by simp
next
  case (step x y)
  then show ?case
    using svcStep_ok[OF _ _ c] by (metis prod.collapse)
qed

end
