(* ===== verification/PubProperties.thy ===== *)
theory PubProperties
  imports PubReach
begin

text \<open>
  The properties of the pubsub service, with the run of a small instance: queues are lists of bounded length, a public
  key is the account, and the signature of a message is the message.
\<close>

section \<open>An instance\<close>

definition exQueue :: "(PubSubMessage list, PubSubMessage) queueOps" where
  "exQueue = \<lparr>q_New = (\<lambda>_. []), q_TryAdd = (\<lambda>m q. if length q < 4 then Some (q @ [m]) else None), q_Close = (\<lambda>q. q),
     m_SetPeerId = (\<lambda>_ m. m), m_Size = (\<lambda>_. None)\<rparr>"

definition exKeys :: "(string, string) keyOps" where
  "exKeys = \<lparr>ko_GetPublic = (\<lambda>k. k), ko_Marshall = Some, ko_Unmarshal = Some, ko_Sign = (\<lambda>_ d. Some d),
     ko_Verify = (\<lambda>_ d sig. Some (d = sig)), ko_Account = (\<lambda>p. p)\<rparr>"

definition exDeps :: "relayOps option \<Rightarrow> (string, string, PubSubMessage list, unit) deps" where
  "exDeps relay = \<lparr>dp_Membership = Some (\<lambda>_ p. p \<noteq> ''eve''), dp_Crypto = None, dp_Peers = False, dp_Relay = relay,
     dp_Config = \<lparr>cf_MaxPayloadSize = 8, cf_MaxPatternsPerStream = 2, cf_MaxPatternsPerSpace = 2, cf_DedupSize = 2, cf_MaxTimestampSkew = 10 ^ 9\<rparr>,
     dp_Keys = exKeys, dp_SignKey = ''n'', dp_Queue = exQueue, dp_Limiter = \<lparr>lo_New = (), lo_Allow = (\<lambda>_ l. (True, l))\<rparr>,
     dp_DispatchAdd = (\<lambda>x q. Some (q @ [x])), dp_DialAdd = (\<lambda>x q. Some (q @ [x]))\<rparr>"

type_synonym exService = "(string, PubSubMessage list, unit, unit) service"

definition exCtx :: "u32 \<Rightarrow> string \<Rightarrow> string msgCtx" where
  "exCtx i account = \<lparr>cx_StreamId = Some i, cx_PubKey = Some account, cx_Identity = Some account\<rparr>"

definition exOpened :: exService where
  "exOpened = (case openStream (exDeps None) ''ann'' 4 (initService (exDeps None) 0) of Inr s \<Rightarrow> s | Inl _ \<Rightarrow> initService (exDeps None) 0)"

definition exServed :: exService where
  "exServed = (case HandleMessage (exDeps None) 0 (exCtx 1 ''ann'') ''ann'' (MsgSubscribe ''s'' [''a/*'', ''b'', ''c'']) exOpened of
     Inr (_, s) \<Rightarrow> s | Inl _ \<Rightarrow> exOpened)"

lemma exOpened_run: "openStream (exDeps None) ''ann'' 4 (initService (exDeps None) 0) = Inr exOpened"
  by code_simp

lemma exServed_run:
  "HandleMessage (exDeps None) 0 (exCtx 1 ''ann'') ''ann'' (MsgSubscribe ''s'' [''a/*'', ''b'', ''c'']) exOpened = Inr (None, exServed)"
  by code_simp

lemma exConfig: "configOk (dp_Config (exDeps r))"
  by (simp add: configOk_def exDeps_def)

lemma exReach: "svcReach (exDeps None) (exServed, {})"
proof -
  have "freshId {} (initService (exDeps None) 0 :: exService)"
    by code_simp
  then have "svcStep (exDeps None) (initService (exDeps None) 0, {}) (exOpened, {})"
    using exOpened_run by (rule svcStep.opened)
  moreover have "svcStep (exDeps None) (exOpened, {}) (exServed, {})"
    using exServed_run by (rule svcStep.message)
  ultimately show ?thesis
    using svcReach.start svcReach.step by metis
qed

section \<open>The interest that is served\<close>

text \<open>
  C31. In every reachable state of the service the caps hold for every stream, the recorded total of a stream is the number
  of its patterns, every open stream carries exactly the tags of its patterns, and matching a valid topic against the
  trie of a space gives exactly the patterns of streams that match it.
\<close>

theorem served_interest:
  assumes "svcReach D (s, pend)" and "configOk (dp_Config D)"
  shows "(\<forall>i strm. mget (sv_streams s) i = Some strm \<longrightarrow>
        si_total strm = int (recordTotal (si_bySpace strm)) \<and> si_total strm \<le> cf_MaxPatternsPerStream (dp_Config D)
        \<and> (\<forall>sp. int (card (pats (sv_streams s) i sp)) \<le> cf_MaxPatternsPerSpace (dp_Config D)))
    \<and> (\<forall>i st. mget (sp_streams (sv_pool s)) i = Some st \<longrightarrow> set (st_tags st) = tagsOf (sv_streams s) i)
    \<and> (\<forall>sp topic. ValidateTopic topic = None \<longrightarrow>
        set (remoteMatch sp topic s) = {p. (\<exists>i. p \<in> pats (sv_streams s) i sp) \<and> matches (splitTopic p) (splitTopic topic)})"
proof -
  have ok: "svc_ok D pend s"
    using svcReach_ok[OF assms] by simp
  have "si_total strm = int (recordTotal (si_bySpace strm)) \<and> si_total strm \<le> cf_MaxPatternsPerStream (dp_Config D)
      \<and> (\<forall>sp. int (card (pats (sv_streams s) i sp)) \<le> cf_MaxPatternsPerSpace (dp_Config D))"
    if "mget (sv_streams s) i = Some strm" for i strm
  proof -
    note rec = svc_okD(4)[OF ok that]
    have "card (pats (sv_streams s) i sp) = length (patternsOf sp strm)" for sp
      using that card_keysOf[OF patternsOf_ok(1)[OF rec]] by (simp add: pats_def strmPats_def)
    then show ?thesis
      using rec patternsOf_ok(3)[OF rec] assms(2) by (simp add: recordOk_def configOk_def)
  qed
  then show ?thesis
    using svc_okD(6)[OF ok] remoteMatch_set[OF ok] by blast
qed

theorem served_interest_witness:
  "svcReach (exDeps None) (exServed, {}) \<and> map_option si_total (mget (sv_streams exServed) 1) = Some 2
    \<and> map_option (\<lambda>st. set (st_tags st)) (mget (sp_streams (sv_pool exServed)) 1) = Some (tagsOf (sv_streams exServed) 1)
    \<and> set (remoteMatch ''s'' ''a/x'' exServed)
        = {p. (\<exists>i. p \<in> pats (sv_streams exServed) i ''s'') \<and> matches (splitTopic p) (splitTopic ''a/x'')}"
proof -
  have run: "map_option si_total (mget (sv_streams exServed) 1) = Some 2" "ValidateTopic ''a/x'' = None"
    by code_simp+
  have "map_option st_peerId (mget (sp_streams (sv_pool exServed)) 1) = Some ''ann''"
    by code_simp
  then obtain st where "mget (sp_streams (sv_pool exServed)) 1 = Some st"
    by auto
  then have "map_option (\<lambda>st. set (st_tags st)) (mget (sp_streams (sv_pool exServed)) 1) = Some (tagsOf (sv_streams exServed) 1)"
    using served_interest[OF exReach exConfig] by simp
  then show ?thesis
    using served_interest[OF exReach exConfig] exReach run by blast
qed

text \<open>
  C35. No message ends the process: in every reachable state \<open>HandleMessage\<close> returns, whatever the message, its
  context and its sender, and so do the calls that take interest away. None of them follows a stream id that is not in
  the pool.
\<close>

theorem messages_never_crash:
  assumes "svcReach D (s, pend)" and "configOk (dp_Config D)"
  shows "(\<exists>st s'. HandleMessage D now cx peerId msg s = Inr (st, s') \<and> svcReach D (s', pend))
    \<and> (\<exists>s'. EvictMember D sp identity s = Inr s') \<and> (\<exists>s'. RevalidateMembers sp isMember s = Inr s')
    \<and> (\<exists>s'. CloseSpace D sp s = Inr s')
    \<and> (\<forall>i \<in> keysOf (sp_streams (sv_pool s)). \<exists>hook pool. removeStream i (sv_pool s) = Inr (hook, pool))"
proof -
  have ok: "svc_ok D pend s"
    using svcReach_ok[OF assms] by simp
  obtain st s' where m: "HandleMessage D now cx peerId msg s = Inr (st, s')"
    using HandleMessage_ok[OF ok assms(2), of now cx peerId msg] by blast
  then have "svcReach D (s', pend)"
    using assms(1) svcStep.message svcReach.step by metis
  moreover have "\<exists>s'. evictSpaceStreams sp f s = Inr s'" for f
    using evictSpaceStreams_ok[OF ok] by blast
  moreover have "\<exists>s'. CloseSpace D sp s = Inr s'"
    using CloseSpace_ok[OF ok, of D sp] by blast
  moreover have "\<exists>hook pool. removeStream i (sv_pool s) = Inr (hook, pool)" if "i \<in> keysOf (sp_streams (sv_pool s))" for i
    using removeStream_pending[OF ok that] by blast
  ultimately show ?thesis
    using m by (simp add: EvictMember_def RevalidateMembers_def)
qed

theorem messages_never_crash_witness:
  "\<exists>st s'. HandleMessage (exDeps None) 0 (exCtx 1 ''ann'') ''ann'' (MsgUnsubscribe ''s'' []) exServed = Inr (st, s')
    \<and> svcReach (exDeps None) (s', {})"
  using messages_never_crash[OF exReach exConfig, of 0 "exCtx 1 ''ann''" "''ann''" "MsgUnsubscribe ''s'' []"] by blast

section \<open>Who gets a message\<close>

definition exPublish :: Publish where
  "exPublish = \<lparr>pb_SpaceId = ''s'', pb_Topic = ''a/x'', pb_MsgId = replicate 16 CHR ''m'', pb_KeyId = [], pb_Payload = ''p'',
     pb_Identity = ''ann'', pb_Signature = [], pb_TimestampMilli = 0, pb_Relayed = False\<rparr>"

text \<open>
  C32. Fan-out of a message with a valid topic returns, and writes it once to every open stream that has subscribed to a
  pattern of the space that matches the topic, and to no other stream, however many of its patterns match.
\<close>

theorem fanout_reaches_subscribers:
  assumes "svcReach D (s, pend)" and "configOk (dp_Config D)" and "ValidateTopic (pb_Topic p) = None"
  shows "\<exists>pool. fanout D p s = Inr (s\<lparr>sv_pool := pool\<rparr>)
    \<and> (\<forall>i. mget (sp_streams pool) i = (if subscribed (pb_SpaceId p) (pb_Topic p) s i
        then map_option (\<lambda>st. snd (writeStream (dp_Queue D) (wrapPublish p) st)) (mget (sp_streams (sv_pool s)) i)
        else mget (sp_streams (sv_pool s)) i))"
  using fanout_exact[of D pend s p] svcReach_ok[OF assms(1,2)] assms(3) by auto

theorem fanout_reaches_subscribers_witness:
  "\<exists>pool. fanout (exDeps None) exPublish exServed = Inr (exServed\<lparr>sv_pool := pool\<rparr>)
    \<and> map_option (length \<circ> st_queue) (mget (sp_streams pool) 1) = Some 2"
proof -
  have t: "ValidateTopic (pb_Topic exPublish) = None"
    by code_simp
  have "(case fanout (exDeps None) exPublish exServed of Inr s' \<Rightarrow> map_option (length \<circ> st_queue) (mget (sp_streams (sv_pool s')) 1) | Inl _ \<Rightarrow> None)
      = Some 2"
    by code_simp
  then show ?thesis
    using fanout_reaches_subscribers[OF exReach exConfig t] by auto
qed

text \<open>
  C33. Eviction of a member from a space takes all interest of the streams of the account in that space away and no
  other, so that a message of the space that is fanned out in the state after the eviction is not written to these
  streams; other streams keep their subscriptions.
\<close>

theorem evicted_member_gets_nothing:
  assumes "svcReach D (s, pend)" and "configOk (dp_Config D)"
  shows "\<exists>s'. EvictMember D sp identity s = Inr s' \<and> svcReach D (s', pend)
    \<and> (\<forall>sp' topic i. subscribed sp' topic s' i \<longleftrightarrow> subscribed sp' topic s i \<and>
        \<not> (sp' = sp \<and> map_option si_account (mget (sv_streams s) i) = Some (ko_Account (dp_Keys D) identity)))
    \<and> (\<forall>p i s''. pb_SpaceId p = sp \<longrightarrow> ValidateTopic (pb_Topic p) = None
        \<longrightarrow> map_option si_account (mget (sv_streams s) i) = Some (ko_Account (dp_Keys D) identity) \<longrightarrow> fanout D p s' = Inr s''
        \<longrightarrow> mget (sp_streams (sv_pool s'')) i = mget (sp_streams (sv_pool s')) i)"
proof -
  let ?evict = "\<lambda>a. a = ko_Account (dp_Keys D) identity"
  have ok: "svc_ok D pend s"
    using svcReach_ok[OF assms] by simp
  obtain s' where s': "EvictMember D sp identity s = Inr s'" "svc_ok D pend s'"
    "\<forall>j sp'. pats (sv_streams s') j sp' = (if evicted sp ?evict (sv_streams s) j sp' then {} else pats (sv_streams s) j sp')"
    using evictSpaceStreams_ok[OF ok, of sp ?evict] by (auto simp: EvictMember_def)
  have sub: "subscribed sp' topic s' i \<longleftrightarrow> subscribed sp' topic s i \<and>
      \<not> (sp' = sp \<and> map_option si_account (mget (sv_streams s) i) = Some (ko_Account (dp_Keys D) identity))" for sp' topic i
    using s'(3) by (auto simp: subscribed_def evicted_def)
  have "mget (sp_streams (sv_pool s'')) i = mget (sp_streams (sv_pool s')) i"
    if p: "pb_SpaceId p = sp" "ValidateTopic (pb_Topic p) = None" "fanout D p s' = Inr s''"
      "map_option si_account (mget (sv_streams s) i) = Some (ko_Account (dp_Keys D) identity)" for p i s''
    using fanout_exact[OF s'(2) p(2)] p sub[of sp "pb_Topic p" i] by auto
  moreover have "svcReach D (s', pend)"
    using svcReach.step[OF assms(1) svcStep.evict[OF s'(1)]] .
  ultimately show ?thesis
    using s'(1) sub by blast
qed

theorem evicted_member_gets_nothing_witness:
  "subscribed ''s'' ''b'' exServed 1 \<and> (\<exists>s'. EvictMember (exDeps None) ''s'' ''ann'' exServed = Inr s' \<and> \<not> subscribed ''s'' ''b'' s' 1)"
proof -
  have "mget (sv_streams exServed) 1 \<noteq> None \<and> (case mget (sv_streams exServed) 1 of Some strm \<Rightarrow>
      si_account strm = ''ann'' \<and> mget (patternsOf ''s'' strm) ''b'' = Some () | None \<Rightarrow> False)"
    by code_simp
  moreover have "matches (splitTopic ''b'') (splitTopic ''b'')"
    by code_simp
  ultimately have "subscribed ''s'' ''b'' exServed 1" "map_option si_account (mget (sv_streams exServed) 1) = Some ''ann''"
    by (auto simp: subscribed_def pats_def strmPats_def keysOf_def)
  then show ?thesis
    using evicted_member_gets_nothing[OF exReach exConfig, of "''s''" "''ann''"] by (auto simp: exDeps_def exKeys_def)
qed

section \<open>What a client delivers\<close>

text \<open>The 64-bit difference of the clock and a timestamp may wrap around, but never into the accepted window.\<close>

lemma isStale_iff:
  assumes ts: "- (2 ^ 63) \<le> ts" "ts < 2 ^ 63" and now: "0 \<le> now" "now < 2 ^ 63"
    and skew: "0 \<le> cf_MaxTimestampSkew c" "cf_MaxTimestampSkew c < 2 ^ 63"
  shows "\<not> isStale c now ts \<longleftrightarrow> ts = 0 \<or> \<bar>now div 10 ^ 6 - ts\<bar> \<le> cf_MaxTimestampSkew c div 10 ^ 6"
proof -
  define x where "x = now div 10 ^ 6 - ts"
  define k where "k = cf_MaxTimestampSkew c div 10 ^ 6"
  have b: "0 \<le> now div 10 ^ 6" "now div 10 ^ 6 \<le> 2 ^ 44" "0 \<le> k" "k \<le> 2 ^ 44"
    using now skew by (simp_all add: k_def)
  show ?thesis
  proof (cases "x < 2 ^ 63")
    case True
    then have "asInt64 (x mod 2 ^ 64) = x"
      using b ts by (intro signed_wrap) (auto simp: x_def)
    then show ?thesis
      unfolding isStale_def Let_def x_def[symmetric] k_def[symmetric] by auto
  next
    case False
    have "x mod 2 ^ 64 = x"
      using False b ts by (intro mod_pos_pos_trivial) (auto simp: x_def)
    then have "asInt64 (x mod 2 ^ 64) = x - 2 ^ 64"
      using False by (simp add: asInt64_def)
    moreover have "x - 2 ^ 64 < - k" "\<not> \<bar>x\<bar> \<le> k" "ts \<noteq> 0"
      using False b ts by (auto simp: x_def)
    ultimately show ?thesis
      unfolding isStale_def Let_def x_def[symmetric] k_def[symmetric] by simp
  qed
qed

text \<open>
  C34. A client hands a received message to its handlers only when some local pattern matches the topic, the author is a
  member of the space, owns the topic if it has an owner, has signed exactly this message, the timestamp is absent or
  within the allowed skew, and the message id is not among the remembered ones; what is handed over is the payload, or
  its decryption when a key is named.
\<close>

theorem delivered_only_authentic:
  assumes run: "receivePublish D now p s = Inr s'" and new: "sv_dispatch s' \<noteq> sv_dispatch s"
    and ts: "- (2 ^ 63) \<le> pb_TimestampMilli p" "pb_TimestampMilli p < 2 ^ 63" "0 \<le> now" "now < 2 ^ 63"
    and skew: "0 \<le> cf_MaxTimestampSkew (dp_Config D)" "cf_MaxTimestampSkew (dp_Config D) < 2 ^ 63"
  shows "\<exists>identity d payload. identityOf (dp_Keys D) p = Inr identity
    \<and> localMatch (pb_SpaceId p) (pb_Topic p) s \<noteq> []
    \<and> (\<forall>check. dp_Membership D = Some check \<longrightarrow> check (pb_SpaceId p) identity)
    \<and> (TopicOwner (pb_Topic p) \<noteq> [] \<longrightarrow> ko_Account (dp_Keys D) identity = TopicOwner (pb_Topic p))
    \<and> ko_Verify (dp_Keys D) identity (publishSignData p) (pb_Signature p) = Some True
    \<and> (pb_TimestampMilli p = 0 \<or> \<bar>now div 10 ^ 6 - pb_TimestampMilli p\<bar> \<le> cf_MaxTimestampSkew (dp_Config D) div 10 ^ 6)
    \<and> seen (pb_MsgId p) (sv_dedup s) = Inr (False, d) \<and> sv_dedup s' = d
    \<and> (if pb_KeyId p = [] then payload = pb_Payload p
       else \<exists>c. dp_Crypto D = Some c \<and> cy_Decrypt c (pb_SpaceId p) (pb_KeyId p) (pb_Payload p) = Some payload)
    \<and> dp_DispatchAdd D \<lparr>di_patterns = localMatch (pb_SpaceId p) (pb_Topic p) s, di_spaceId = pb_SpaceId p, di_topic = pb_Topic p,
        di_identity = identity, di_payload = payload\<rparr> (sv_dispatch s) = Some (sv_dispatch s')"
proof -
  let ?ps = "localMatch (pb_SpaceId p) (pb_Topic p) s"
  obtain identity where id: "identityOf (dp_Keys D) p = Inr identity" "?ps \<noteq> []"
    using run new by (auto simp: receivePublish_def Let_def split: sum.splits if_splits)
  have guards: "\<not> (case dp_Membership D of None \<Rightarrow> False | Some check \<Rightarrow> \<not> check (pb_SpaceId p) identity)"
    "\<not> (TopicOwner (pb_Topic p) \<noteq> [] \<and> ko_Account (dp_Keys D) identity \<noteq> TopicOwner (pb_Topic p))"
    "\<not> isStale (dp_Config D) now (pb_TimestampMilli p)" "verifySignature (dp_Keys D) identity p = None"
    using run new id unfolding receivePublish_def Let_def by (auto split: if_splits)
  have rest: "rbind (seen (pb_MsgId p) (sv_dedup s)) (\<lambda>(dup, d). Inr (if dup then s\<lparr>sv_dedup := d\<rparr>
      else if pb_KeyId p \<noteq> [] then (case dp_Crypto D of None \<Rightarrow> s\<lparr>sv_dedup := d\<rparr>
        | Some c \<Rightarrow> (case cy_Decrypt c (pb_SpaceId p) (pb_KeyId p) (pb_Payload p) of None \<Rightarrow> s\<lparr>sv_dedup := d\<rparr>
          | Some payload \<Rightarrow> enqueueLocalMatched D ?ps (pb_SpaceId p) (pb_Topic p) identity payload (s\<lparr>sv_dedup := d\<rparr>)))
      else enqueueLocalMatched D ?ps (pb_SpaceId p) (pb_Topic p) identity (pb_Payload p) (s\<lparr>sv_dedup := d\<rparr>))) = Inr s'"
    using run id guards unfolding receivePublish_def Let_def by simp
  obtain b d where d: "seen (pb_MsgId p) (sv_dedup s) = Inr (b, d)"
    using rest by (cases "seen (pb_MsgId p) (sv_dedup s)") auto
  obtain payload where pl: "\<not> b" "s' = enqueueLocalMatched D ?ps (pb_SpaceId p) (pb_Topic p) identity payload (s\<lparr>sv_dedup := d\<rparr>)"
    "if pb_KeyId p = [] then payload = pb_Payload p
       else \<exists>c. dp_Crypto D = Some c \<and> cy_Decrypt c (pb_SpaceId p) (pb_KeyId p) (pb_Payload p) = Some payload"
    using rest d new by (auto split: if_splits option.splits)
  have q: "dp_DispatchAdd D \<lparr>di_patterns = ?ps, di_spaceId = pb_SpaceId p, di_topic = pb_Topic p, di_identity = identity,
      di_payload = payload\<rparr> (sv_dispatch s) = Some (sv_dispatch s')" "sv_dedup s' = d"
    using pl(2) new by (auto simp: enqueueLocalMatched_def split: option.splits)
  have "ko_Verify (dp_Keys D) identity (publishSignData p) (pb_Signature p) = Some True"
    using guards(4) by (auto simp: verifySignature_def split: option.splits if_splits)
  moreover have "\<forall>check. dp_Membership D = Some check \<longrightarrow> check (pb_SpaceId p) identity"
    using guards(1) by auto
  moreover have "seen (pb_MsgId p) (sv_dedup s) = Inr (False, d)"
    using d pl(1) by simp
  ultimately show ?thesis
    using id guards(2,3) isStale_iff[OF ts skew] pl(3) q by (intro exI[of _ identity] exI[of _ d] exI[of _ payload] conjI) blast+
qed

definition exClient :: exService where
  "exClient = snd (Subscribe (exDeps None) ''s'' ''a/*'' () (initService (exDeps None) 0))"

definition exSigned :: Publish where
  "exSigned = exPublish\<lparr>pb_TimestampMilli := 5, pb_Signature := publishSignData (exPublish\<lparr>pb_TimestampMilli := 5\<rparr>)\<rparr>"

theorem delivered_only_authentic_witness:
  "\<exists>s'. receivePublish (exDeps None) 0 exSigned exClient = Inr s' \<and> sv_dispatch s' \<noteq> sv_dispatch exClient
    \<and> (\<exists>identity. identityOf exKeys exSigned = Inr identity
        \<and> ko_Verify exKeys identity (publishSignData exSigned) (pb_Signature exSigned) = Some True)"
proof -
  have run: "(case receivePublish (exDeps None) 0 exSigned exClient of Inr s' \<Rightarrow> \<not> List.null (sv_dispatch s') | Inl _ \<Rightarrow> False)
      \<and> sv_dispatch exClient = []"
    by code_simp
  then obtain s' where s': "receivePublish (exDeps None) 0 exSigned exClient = Inr s'" "sv_dispatch s' \<noteq> sv_dispatch exClient"
    by (cases "receivePublish (exDeps None) 0 exSigned exClient") (auto simp: List.null_iff)
  have b: "pb_TimestampMilli exSigned = 5" "cf_MaxTimestampSkew (dp_Config (exDeps None)) = 10 ^ 9" "dp_Keys (exDeps None) = exKeys"
    by (simp_all add: exSigned_def exDeps_def)
  show ?thesis
    using delivered_only_authentic[OF s'] s' by (simp add: b) blast
qed

lemma sendInterest_local [simp]:
  "sv_localSubs (sendInterest D sp ps b s) = sv_localSubs s" "sv_localTopic (sendInterest D sp ps b s) = sv_localTopic s"
  by (simp_all add: sendInterest_def poolSend_def split: option.split)

text \<open>
  C38. Calling the function that \<open>Subscribe\<close> returned a second time, while another pattern of the space is subscribed, takes
  one from the counter of patterns although no pattern goes away. The counter that was right then is below the number of
  patterns, and \<open>MaxPatternsPerSpace\<close> does not bound the patterns of the space any more.
\<close>

theorem second_unsubscribe_breaks_count:
  assumes trie: "mget (sv_localTrie s) sp = Some t" "trieHolds t M" and p: "p \<notin># M" "M \<noteq> {#}" "localSubsOf sp p s = []"
    and subs: "mget (sv_localSubs s) sp = Some m" "mget m p = None" and right: "localTopicOf sp s = int (length (localPatterns sp s))"
  shows "localPatterns sp (unsubscribe D sp p subId s) = localPatterns sp s
    \<and> localTopicOf sp (unsubscribe D sp p subId s) = int (length (localPatterns sp (unsubscribe D sp p subId s))) - 1"
proof -
  have "M - {#p#} = M"
    using p(1) by (rule diff_single_trivial)
  then have "trieLen (snd (trieRemove p t)) \<noteq> 0"
    using trie.len_zero[OF trie.holds_del[OF trie(2)]] p(2) by metis
  moreover have "mdel p m = m"
    using subs(2) by (simp add: map_of_eq_None_iff AList.delete_idem)
  ultimately show ?thesis
    using trie p(3) subs right
    by (simp add: unsubscribe_def Let_def removeSub_def localPatterns_def localTopicOf_def)
qed


text \<open>
  The cap of the instance is 2. Two patterns are subscribed, the second is unsubscribed twice, and then two more are
  accepted.
\<close>

definition exTwo :: exService where
  "exTwo = snd (Subscribe (exDeps None) ''s'' ''b'' () exClient)"

definition exOnce :: exService where
  "exOnce = unsubscribe (exDeps None) ''s'' ''b'' 2 exTwo"

definition exTwice :: exService where
  "exTwice = unsubscribe (exDeps None) ''s'' ''b'' 2 exOnce"

theorem second_unsubscribe_breaks_count_witness:
  "localTopicOf ''s'' exTwice = int (length (localPatterns ''s'' exTwice)) - 1
    \<and> length (localPatterns ''s'' (snd (Subscribe (exDeps None) ''s'' ''d'' () (snd (Subscribe (exDeps None) ''s'' ''c'' () exTwice))))) = 3"
proof -
  let ?t = "snd (trieRemove ''b'' (snd (trieAdd ''b'' (snd (trieAdd ''a/*'' newPatternTrie)))))"
  have "mget (sv_localTrie exOnce) ''s'' = Some ?t"
    by code_simp
  moreover have "trieHolds ?t {#''a/*''#}"
    using trie.holds_del[OF trie.holds_ins[OF trie.holds_ins[OF trie.holds_new]], of "''b''" "''b''" "''a/*''"] by simp
  moreover have "localSubsOf ''s'' ''b'' exOnce = []" "localTopicOf ''s'' exOnce = int (length (localPatterns ''s'' exOnce))"
    "mget (sv_localSubs exOnce) ''s'' = Some [(''a/*'', [\<lparr>lsub_id = 1, lsub_h = ()\<rparr>])]"
    by code_simp+
  ultimately have "localTopicOf ''s'' exTwice = int (length (localPatterns ''s'' exTwice)) - 1"
    using second_unsubscribe_breaks_count[where s = exOnce and sp = "''s''" and t = ?t and M = "{#''a/*''#}" and p = "''b''"
      and m = "[(''a/*'', [\<lparr>lsub_id = 1, lsub_h = ()\<rparr>])]" and D = "exDeps None" and subId = 2] by (simp add: exTwice_def)
  moreover have "length (localPatterns ''s'' (snd (Subscribe (exDeps None) ''s'' ''d'' () (snd (Subscribe (exDeps None) ''s'' ''c'' () exTwice))))) = 3"
    by code_simp
  ultimately show ?thesis
    by blast
qed

end
