(* ===== verification/Handshake.thy ===== *)
theory Handshake
  imports Prelude
begin

text \<open>
  The handshakes of a connection (\<open>net/secureservice/handshake\<close>) and the checkers of credentials
  (\<open>net/secureservice/credential.go\<close>).

  A handshake function that reads from and writes to its connection is a \<open>proc\<close>: what it does next, and how it goes on with
  the answer. \<open>WriteP bs k\<close> is \<open>conn.Write(bs)\<close>, \<open>ReadP n k\<close> is \<open>io.ReadFull\<close> of \<open>n\<close> bytes, where \<open>k\<close> gets \<open>None\<close> for an
  error; \<open>CloseP\<close> closes, \<open>AbandonedP\<close> reads the flag of the caller that gave up. The scratch buffer \<open>buf\<close> is not modelled.
  Encoders and decoders of messages are fields of \<open>hsCodec\<close>; a generated \<open>UnmarshalVT\<close> writes into a message that is
  already there, fields that the bytes do not carry stay as they are.
\<close>

section \<open>Messages and errors\<close>

type_synonym enum = "32 word"

datatype 'r proc = Done 'r | WriteP bytes "bool \<Rightarrow> 'r proc" | ReadP nat "bytes option \<Rightarrow> 'r proc" | CloseP "'r proc"
  | AbandonedP "bool \<Rightarrow> 'r proc"

text \<open>The enumeration \<open>Error\<close>, open as in the protocol.\<close>

definition Error_Null :: enum where "Error_Null = 0"
definition Error_Unexpected :: enum where "Error_Unexpected = 1"
definition Error_InvalidCredentials :: enum where "Error_InvalidCredentials = 2"
definition Error_UnexpectedPayload :: enum where "Error_UnexpectedPayload = 3"
definition Error_SkipVerifyNotAllowed :: enum where "Error_SkipVerifyNotAllowed = 4"
definition Error_IncompatibleVersion :: enum where "Error_IncompatibleVersion = 6"
definition Error_IncompatibleProto :: enum where "Error_IncompatibleProto = 7"

lemmas error_codes = Error_Null_def Error_Unexpected_def Error_InvalidCredentials_def Error_UnexpectedPayload_def
  Error_SkipVerifyNotAllowed_def Error_IncompatibleVersion_def Error_IncompatibleProto_def

text \<open>A \<open>HandshakeError\<close> with its two fields, or another error: of the connection, of a decoder, of the context.\<close>

datatype hs_error = HandshakeError "string option" enum | ErrGotUnexpectedMessage | ErrConn | ErrDecode | ErrEncode | ErrContext | ErrVerify

definition ErrUnexpectedPayload :: hs_error where "ErrUnexpectedPayload = HandshakeError None Error_UnexpectedPayload"
definition ErrInvalidCredentials :: hs_error where "ErrInvalidCredentials = HandshakeError None Error_InvalidCredentials"
definition ErrPeerDeclinedCredentials :: hs_error where
  "ErrPeerDeclinedCredentials = HandshakeError (Some ''remote peer declined the credentials'') Error_Null"
definition ErrSkipVerifyNotAllowed :: hs_error where "ErrSkipVerifyNotAllowed = HandshakeError None Error_SkipVerifyNotAllowed"
definition ErrIncompatibleVersion :: hs_error where "ErrIncompatibleVersion = HandshakeError None Error_IncompatibleVersion"
definition ErrIncompatibleProto :: hs_error where "ErrIncompatibleProto = HandshakeError None Error_IncompatibleProto"
definition ErrRemoteIncompatibleProto :: hs_error where
  "ErrRemoteIncompatibleProto = HandshakeError (Some ''remote peer declined the proto'') Error_Null"

lemmas hs_errors = ErrUnexpectedPayload_def ErrInvalidCredentials_def ErrPeerDeclinedCredentials_def ErrSkipVerifyNotAllowed_def
  ErrIncompatibleVersion_def ErrIncompatibleProto_def ErrRemoteIncompatibleProto_def

record Credentials =
  cred_Type :: enum
  cred_Payload :: bytes
  cred_Version :: u32
  cred_ClientVersion :: string

record Proto =
  proto_Proto :: enum
  proto_Encodings :: "enum list"

record Result =
  res_Identity :: bytes
  res_ProtoVersion :: u32
  res_ClientVersion :: string

text \<open>
  The messages of the object that is taken from \<open>handshakePool\<close> and put back; \<open>localAck\<close> is only a place to encode from.
\<close>

record handshake =
  h_remoteCred :: Credentials
  h_remoteProto :: Proto
  h_remoteAck :: enum

record message =
  msg_cred :: "Credentials option"
  msg_proto :: "Proto option"
  msg_ack :: "enum option"

record hsCodec =
  marshalCred :: "Credentials \<Rightarrow> bytes option"
  marshalProto :: "Proto \<Rightarrow> bytes option"
  marshalAck :: "enum \<Rightarrow> bytes option"
  unmarshalCred :: "bytes \<Rightarrow> Credentials \<Rightarrow> Credentials \<times> bool"
  unmarshalProto :: "bytes \<Rightarrow> Proto \<Rightarrow> Proto \<times> bool"
  unmarshalAck :: "bytes \<Rightarrow> enum \<Rightarrow> enum \<times> bool"
  marshalSigned :: "bytes \<Rightarrow> bytes \<Rightarrow> bytes"
  unmarshalSigned :: "bytes \<Rightarrow> (bytes \<times> bytes) option"

section \<open>Reading and writing\<close>

definition headerSize :: nat where "headerSize = 5"
definition msgTypeCred :: char where "msgTypeCred = char_of (1 :: nat)"
definition msgTypeAck :: char where "msgTypeAck = char_of (2 :: nat)"
definition msgTypeProto :: char where "msgTypeProto = char_of (3 :: nat)"
definition sizeLimit :: nat where "sizeLimit = 200 * 1024"

definition newPoolHandshake :: handshake where
  "newPoolHandshake = \<lparr>h_remoteCred = \<lparr>cred_Type = 0, cred_Payload = [], cred_Version = 0, cred_ClientVersion = []\<rparr>,
     h_remoteProto = \<lparr>proto_Proto = 0, proto_Encodings = []\<rparr>, h_remoteAck = 0\<rparr>"

definition release :: "handshake \<Rightarrow> handshake" where
  "release h = h\<lparr>h_remoteAck := 0, h_remoteCred := (h_remoteCred h)\<lparr>cred_Type := 0, cred_Payload := []\<rparr>, h_remoteProto := \<lparr>proto_Proto = 0, proto_Encodings = []\<rparr>\<rparr>"

definition writeData :: "char \<Rightarrow> bytes \<Rightarrow> (hs_error option \<Rightarrow> 'r proc) \<Rightarrow> 'r proc" where
  "writeData tp body k = WriteP (tp # leBytes 4 (length body) @ body) (\<lambda>ok. k (if ok then None else Some ErrConn))"

definition writeMsg :: "char \<Rightarrow> bytes option \<Rightarrow> (hs_error option \<Rightarrow> 'r proc) \<Rightarrow> 'r proc" where
  "writeMsg tp body k = (case body of None \<Rightarrow> k (Some ErrEncode) | Some bs \<Rightarrow> writeData tp bs k)"

definition writeCredentials :: "hsCodec \<Rightarrow> Credentials \<Rightarrow> (hs_error option \<Rightarrow> 'r proc) \<Rightarrow> 'r proc" where
  "writeCredentials M cred = writeMsg msgTypeCred (marshalCred M cred)"

definition writeProto :: "hsCodec \<Rightarrow> Proto \<Rightarrow> (hs_error option \<Rightarrow> 'r proc) \<Rightarrow> 'r proc" where
  "writeProto M p = writeMsg msgTypeProto (marshalProto M p)"

definition writeAck :: "hsCodec \<Rightarrow> enum \<Rightarrow> (hs_error option \<Rightarrow> 'r proc) \<Rightarrow> 'r proc" where
  "writeAck M ackErr = writeMsg msgTypeAck (marshalAck M ackErr)"

definition ackError :: "hs_error \<Rightarrow> enum" where
  "ackError err = (case err of HandshakeError _ e \<Rightarrow> e | _ \<Rightarrow> Error_Unexpected)"

text \<open>\<open>abandonable\<close> says whether the flag is set at all, that is, whether \<open>h.abandoned != nil\<close>.\<close>

definition tryWriteErrAndClose :: "hsCodec \<Rightarrow> bool \<Rightarrow> hs_error \<Rightarrow> 'r proc \<Rightarrow> 'r proc" where
  "tryWriteErrAndClose M abandonable err p =
     (let rest = (if err = ErrUnexpectedPayload then CloseP p else writeAck M (ackError err) (\<lambda>_. CloseP p))
      in if abandonable then AbandonedP (\<lambda>gone. if gone then p else rest) else rest)"

text \<open>Decoding of one message into the object.\<close>

definition decodeMsg :: "hsCodec \<Rightarrow> char \<Rightarrow> bytes \<Rightarrow> handshake \<Rightarrow> (hs_error + message) \<times> handshake" where
  "decodeMsg M tp body h =
     (let none = \<lparr>msg_cred = None, msg_proto = None, msg_ack = None\<rparr>
      in if tp = msgTypeCred then
           (let (c, ok) = unmarshalCred M body (h_remoteCred h)
            in (if ok then Inr (none\<lparr>msg_cred := Some c\<rparr>) else Inl ErrDecode, h\<lparr>h_remoteCred := c\<rparr>))
         else if tp = msgTypeAck then
           (let (a, ok) = unmarshalAck M body (h_remoteAck h)
            in (if ok then Inr (none\<lparr>msg_ack := Some a\<rparr>) else Inl ErrDecode, h\<lparr>h_remoteAck := a\<rparr>))
         else if tp = msgTypeProto then
           (let (p, ok) = unmarshalProto M body (h_remoteProto h)
            in (if ok then Inr (none\<lparr>msg_proto := Some p\<rparr>) else Inl ErrDecode, h\<lparr>h_remoteProto := p\<rparr>))
         else (Inr none, h))"

definition readMsg :: "hsCodec \<Rightarrow> char list \<Rightarrow> handshake \<Rightarrow> (hs_error + message \<Rightarrow> handshake \<Rightarrow> 'r proc) \<Rightarrow> 'r proc" where
  "readMsg M allowedTypes h k = ReadP headerSize (\<lambda>r. case r of
       None \<Rightarrow> k (Inl ErrConn) h
     | Some header \<Rightarrow>
         if hd header \<notin> set allowedTypes then k (Inl ErrUnexpectedPayload) h
         else if leValue (tl header) > sizeLimit then k (Inl ErrGotUnexpectedMessage) h
         else ReadP (leValue (tl header)) (\<lambda>r. case r of
             None \<Rightarrow> k (Inl ErrConn) h
           | Some body \<Rightarrow> (case decodeMsg M (hd header) body h of (m, h) \<Rightarrow> k m h)))"

section \<open>The handshake of credentials\<close>

text \<open>A message of an allowed type has the field of its type, which is what \<open>the\<close> reads below.\<close>

record checker =
  MakeCredentials :: "string \<Rightarrow> Credentials"
  CheckCredential :: "string \<Rightarrow> Credentials \<Rightarrow> hs_error + Result"

text \<open>What a handshake function returns, and the object that goes back to the pool.\<close>

type_synonym 'a hsDone = "(hs_error + 'a) \<times> handshake"

definition ret :: "handshake \<Rightarrow> hs_error + 'a \<Rightarrow> 'a hsDone proc" where
  "ret h r = Done (r, release h)"

definition fail :: "hsCodec \<Rightarrow> bool \<Rightarrow> handshake \<Rightarrow> hs_error \<Rightarrow> 'a hsDone proc" where
  "fail M abandonable h err = tryWriteErrAndClose M abandonable err (ret h (Inl err))"

definition outgoingHandshake :: "hsCodec \<Rightarrow> handshake \<Rightarrow> string \<Rightarrow> checker \<Rightarrow> Result hsDone proc" where
  "outgoingHandshake M h peerId cc =
     writeCredentials M (MakeCredentials cc peerId) (\<lambda>err. case err of Some e \<Rightarrow> fail M False h e | None \<Rightarrow>
     readMsg M [msgTypeAck, msgTypeCred] h (\<lambda>r h. case r of Inl e \<Rightarrow> fail M False h e | Inr msg \<Rightarrow>
     (case msg_ack msg of
        Some e \<Rightarrow> ret h (Inl (if e = Error_InvalidCredentials then ErrPeerDeclinedCredentials else HandshakeError None e))
      | None \<Rightarrow>
     (case CheckCredential cc peerId (the (msg_cred msg)) of Inl e \<Rightarrow> fail M False h e | Inr result \<Rightarrow>
     writeAck M Error_Null (\<lambda>err. case err of Some e \<Rightarrow> fail M False h e | None \<Rightarrow>
     readMsg M [msgTypeAck] h (\<lambda>r h. case r of Inl e \<Rightarrow> fail M False h e | Inr msg \<Rightarrow>
     if the (msg_ack msg) = Error_Null then ret h (Inr result)
     else CloseP (ret h (Inl (HandshakeError None (the (msg_ack msg)))))))))))"

definition incomingHandshake :: "hsCodec \<Rightarrow> handshake \<Rightarrow> string \<Rightarrow> checker \<Rightarrow> Result hsDone proc" where
  "incomingHandshake M h peerId cc =
     readMsg M [msgTypeCred] h (\<lambda>r h. case r of Inl e \<Rightarrow> fail M False h e | Inr msg \<Rightarrow>
     (case CheckCredential cc peerId (the (msg_cred msg)) of Inl e \<Rightarrow> fail M False h e | Inr result \<Rightarrow>
     writeCredentials M (MakeCredentials cc peerId) (\<lambda>err. case err of Some e \<Rightarrow> fail M False h e | None \<Rightarrow>
     readMsg M [msgTypeAck] h (\<lambda>r h. case r of Inl e \<Rightarrow> fail M False h e | Inr msg \<Rightarrow>
     if the (msg_ack msg) \<noteq> Error_Null then
       ret h (Inl (if the (msg_ack msg) = Error_InvalidCredentials then ErrPeerDeclinedCredentials
                   else HandshakeError None (the (msg_ack msg))))
     else writeAck M Error_Null (\<lambda>err. case err of Some e \<Rightarrow> fail M False h e | None \<Rightarrow> ret h (Inr result))))))"

section \<open>The handshake of the protocol\<close>

record ProtoChecker =
  AllowedProtoTypes :: "enum list"
  SupportedEncodings :: "enum list"

definition Encoding_None :: enum where "Encoding_None = 0"

definition noEncodings :: "enum list" where "noEncodings = [Encoding_None]"

definition chooseEncoding :: "enum list \<Rightarrow> enum list \<Rightarrow> enum list" where
  "chooseEncoding remoteEncodings localEncodings =
     (case find (\<lambda>rEnc. rEnc \<in> set localEncodings) remoteEncodings of Some rEnc \<Rightarrow> [rEnc] | None \<Rightarrow> noEncodings)"

definition outgoingProtoHandshake :: "hsCodec \<Rightarrow> handshake \<Rightarrow> Proto \<Rightarrow> Proto hsDone proc" where
  "outgoingProtoHandshake M h proto =
     writeProto M proto (\<lambda>err. case err of Some e \<Rightarrow> fail M True h e | None \<Rightarrow>
     readMsg M [msgTypeAck, msgTypeProto] h (\<lambda>r h. case r of Inl e \<Rightarrow> fail M True h e | Inr msg \<Rightarrow>
     (case msg_ack msg of
        Some e \<Rightarrow> ret h (if e = Error_IncompatibleProto then Inl ErrRemoteIncompatibleProto
           else if e = Error_Null then Inr \<lparr>proto_Proto = proto_Proto proto, proto_Encodings = noEncodings\<rparr>
           else Inl (HandshakeError None e))
      | None \<Rightarrow>
     (case msg_proto msg of
        Some p \<Rightarrow> ret h (Inr p)
      | None \<Rightarrow> ret h (Inl ErrUnexpectedPayload)))))"

text \<open>\<open>pt.AllowedProtoTypes[0]\<close> exists there, the type was found among them.\<close>

definition incomingProtoHandshake :: "hsCodec \<Rightarrow> handshake \<Rightarrow> ProtoChecker \<Rightarrow> Proto hsDone proc" where
  "incomingProtoHandshake M h pt =
     readMsg M [msgTypeProto] h (\<lambda>r h. case r of Inl e \<Rightarrow> fail M False h e | Inr msg \<Rightarrow>
     let p = the (msg_proto msg)
     in if proto_Proto p \<notin> set (AllowedProtoTypes pt) then fail M False h ErrIncompatibleProto
        else if proto_Encodings p = [] then
          writeAck M Error_Null (\<lambda>err. case err of Some e \<Rightarrow> fail M False h e | None \<Rightarrow> ret h (Inr p))
        else
          (let enc = chooseEncoding (proto_Encodings p) (SupportedEncodings pt)
           in writeProto M \<lparr>proto_Proto = hd (AllowedProtoTypes pt), proto_Encodings = enc\<rparr>
             (\<lambda>err. case err of Some e \<Rightarrow> fail M False h e | None \<Rightarrow>
                ret h (Inr \<lparr>proto_Proto = proto_Proto p, proto_Encodings = enc\<rparr>))))"

section \<open>Checkers\<close>

definition CredentialsType_SkipVerify :: enum where "CredentialsType_SkipVerify = 0"
definition CredentialsType_SignedPeerIds :: enum where "CredentialsType_SignedPeerIds = 1"

record hsKeys =
  hk_sign :: "bytes \<Rightarrow> bytes option"
  hk_marshalled :: bytes
  hk_peerId :: string

text \<open>\<open>Verify\<close> of the public key that the bytes encode: \<open>None\<close> if they encode none, then an error or the answer.\<close>

type_synonym verifier = "bytes \<Rightarrow> (bytes \<Rightarrow> bytes \<Rightarrow> bool option) option"

definition badVersion :: "string \<Rightarrow> bool" where
  "badVersion v \<longleftrightarrow> sublist ''middle:v0.36.6'' v"

definition checkVersion :: "u32 list \<Rightarrow> Credentials \<Rightarrow> hs_error option" where
  "checkVersion compatibleVersions cred = (if cred_Version cred \<notin> set compatibleVersions then Some ErrIncompatibleVersion else None)"

definition noVerifyChecker :: "u32 \<Rightarrow> u32 list \<Rightarrow> string \<Rightarrow> checker" where
  "noVerifyChecker protoVersion compatibleVersions clientVersion = \<lparr>
     MakeCredentials = \<lambda>_. \<lparr>cred_Type = CredentialsType_SkipVerify, cred_Payload = [], cred_Version = protoVersion,
       cred_ClientVersion = clientVersion\<rparr>,
     CheckCredential = \<lambda>_ cred. guard_err (checkVersion compatibleVersions cred)
       (if badVersion (cred_ClientVersion cred) then Inl ErrIncompatibleVersion
        else Inr \<lparr>res_Identity = [], res_ProtoVersion = cred_Version cred, res_ClientVersion = cred_ClientVersion cred\<rparr>)\<rparr>"

text \<open>An error of \<open>Sign\<close> is logged, the signature is nil then.\<close>

definition peerSignVerifier :: "hsCodec \<Rightarrow> verifier \<Rightarrow> u32 \<Rightarrow> u32 list \<Rightarrow> string \<Rightarrow> hsKeys \<Rightarrow> checker" where
  "peerSignVerifier M V protoVersion compatibleVersions clientVersion account = \<lparr>
     MakeCredentials = \<lambda>remotePeerId. \<lparr>cred_Type = CredentialsType_SignedPeerIds,
       cred_Payload = marshalSigned M (hk_marshalled account) (case hk_sign account (hk_peerId account @ remotePeerId) of Some s \<Rightarrow> s | None \<Rightarrow> []),
       cred_Version = protoVersion, cred_ClientVersion = clientVersion\<rparr>,
     CheckCredential = \<lambda>remotePeerId cred. guard_err (checkVersion compatibleVersions cred)
       (if cred_Type cred \<noteq> CredentialsType_SignedPeerIds then Inl ErrSkipVerifyNotAllowed
        else
          rbind (of_opt ErrUnexpectedPayload (unmarshalSigned M (cred_Payload cred))) (\<lambda>(identity, sign).
          rbind (of_opt ErrInvalidCredentials (V identity)) (\<lambda>verify.
          rbind (of_opt ErrVerify (verify (remotePeerId @ hk_peerId account) sign)) (\<lambda>ok.
          if \<not> ok then Inl ErrInvalidCredentials
          else if badVersion (cred_ClientVersion cred) then Inl ErrIncompatibleVersion
          else Inr \<lparr>res_Identity = identity, res_ProtoVersion = cred_Version cred, res_ClientVersion = cred_ClientVersion cred\<rparr>))))\<rparr>"

section \<open>The secure service\<close>

record secureService =
  ss_noVerifyChecker :: checker
  ss_peerSignVerifier :: checker
  ss_inboundChecker :: checker

text \<open>The choice of checkers in \<open>Init\<close>; the versions of the configuration must contain the own one, otherwise it fails.\<close>

definition initVersions :: "u32 \<Rightarrow> u32 list \<Rightarrow> u32 list \<Rightarrow> u32 list option" where
  "initVersions protoVersion defaults configured =
     (if configured = [] then Some defaults else if protoVersion \<notin> set configured then None else Some configured)"

definition initCheckers :: "hsCodec \<Rightarrow> verifier \<Rightarrow> u32 \<Rightarrow> u32 list \<Rightarrow> string \<Rightarrow> hsKeys \<Rightarrow> bool \<Rightarrow> bool \<Rightarrow> secureService" where
  "initCheckers M V protoVersion compatibleVersions versionName account requireClientAuth isNode =
     (let no = noVerifyChecker protoVersion compatibleVersions versionName;
          sign = peerSignVerifier M V protoVersion compatibleVersions versionName account
      in \<lparr>ss_noVerifyChecker = no, ss_peerSignVerifier = sign, ss_inboundChecker = (if requireClientAuth \<or> isNode then sign else no)\<rparr>)"

definition inboundCheckerFor :: "secureService \<Rightarrow> bool \<Rightarrow> checker" where
  "inboundCheckerFor s accountCheckAllowed = (if accountCheckAllowed then ss_peerSignVerifier s else ss_inboundChecker s)"

definition outboundCheckerFor :: "secureService \<Rightarrow> bool \<Rightarrow> bool \<Rightarrow> checker" where
  "outboundCheckerFor s accountCheckAllowed peerIsNode =
     (if accountCheckAllowed \<or> peerIsNode then ss_peerSignVerifier s else ss_noVerifyChecker s)"

end
