(* ===== verification/HandshakeNet.thy ===== *)
theory HandshakeNet
  imports Handshake
begin

text \<open>
  Two sides of a connection. Each runs its handshake function in a goroutine while its caller waits for the result or for the
  end of its context, and then closes the connection (\<open>OutgoingHandshake\<close>, \<open>IncomingHandshake\<close>). Bytes arrive in order and
  unchanged, but the connection may break at any point: a write may deliver only a part of its bytes, a read may fail, and
  then later ones do. A read of no bytes does not look at the connection (\<open>io.ReadFull\<close>).
\<close>

record 'a side =
  sd_proc :: "'a hsDone proc"
  sd_out :: bytes
  sd_in :: nat
  sd_writeBroken :: bool
  sd_readBroken :: bool
  sd_ret :: "(hs_error + 'a) option"

definition startSide :: "'a hsDone proc \<Rightarrow> 'a side" where
  "startSide p = \<lparr>sd_proc = p, sd_out = [], sd_in = 0, sd_writeBroken = False, sd_readBroken = False, sd_ret = None\<rparr>"

text \<open>A step of one side, given the bytes that the other has written; the flag says whether it is a fault.\<close>

inductive sideStep :: "bytes \<Rightarrow> bool \<Rightarrow> 'a side \<Rightarrow> 'a side \<Rightarrow> bool" for other where
  writes: "sd_proc s = WriteP bs k \<Longrightarrow> \<not> sd_writeBroken s \<Longrightarrow>
    sideStep other False s (s\<lparr>sd_proc := k True, sd_out := sd_out s @ bs\<rparr>)"
| writeFails: "sd_proc s = WriteP bs k \<Longrightarrow> n < length bs \<Longrightarrow>
    sideStep other True s (s\<lparr>sd_proc := k False, sd_out := sd_out s @ (if sd_writeBroken s then [] else take n bs), sd_writeBroken := True\<rparr>)"
| reads: "sd_proc s = ReadP n k \<Longrightarrow> n = 0 \<or> \<not> sd_readBroken s \<Longrightarrow> sd_in s + n \<le> length other \<Longrightarrow>
    sideStep other False s (s\<lparr>sd_proc := k (Some (take n (drop (sd_in s) other))), sd_in := sd_in s + n\<rparr>)"
| readFails: "sd_proc s = ReadP n k \<Longrightarrow> 0 < n \<Longrightarrow> sideStep other True s (s\<lparr>sd_proc := k None, sd_readBroken := True\<rparr>)"
| closes: "sd_proc s = CloseP p \<Longrightarrow> sideStep other False s (s\<lparr>sd_proc := p, sd_writeBroken := True, sd_readBroken := True\<rparr>)"
| notAbandoned: "sd_proc s = AbandonedP k \<Longrightarrow> sideStep other False s (s\<lparr>sd_proc := k (sd_ret s \<noteq> None)\<rparr>)"
| returns: "sd_proc s = Done (r, h) \<Longrightarrow> sd_ret s = None \<Longrightarrow> sideStep other False s (s\<lparr>sd_ret := Some r\<rparr>)"
| cancelled: "sd_ret s = None \<Longrightarrow>
    sideStep other True s (s\<lparr>sd_ret := Some (Inl ErrContext), sd_writeBroken := True, sd_readBroken := True\<rparr>)"

inductive netStep :: "bool \<Rightarrow> 'a side \<times> 'a side \<Rightarrow> 'a side \<times> 'a side \<Rightarrow> bool" where
  left: "sideStep (sd_out b) f a a' \<Longrightarrow> netStep f (a, b) (a', b)"
| right: "sideStep (sd_out a) f b b' \<Longrightarrow> netStep f (a, b) (a, b')"

text \<open>
  The states that a number of steps reaches from the start of both functions; with \<open>faults = False\<close>, steps that are no faults.
\<close>

inductive netReach :: "bool \<Rightarrow> 'a hsDone proc \<Rightarrow> 'a hsDone proc \<Rightarrow> nat \<Rightarrow> 'a side \<times> 'a side \<Rightarrow> bool" for faults p q where
  start: "netReach faults p q 0 (startSide p, startSide q)"
| step: "netReach faults p q n s \<Longrightarrow> netStep f s s' \<Longrightarrow> f \<longrightarrow> faults \<Longrightarrow> netReach faults p q (Suc n) s'"

section \<open>What one side does on its own\<close>

text \<open>
  \<open>localRun b p inp out b' q\<close>: from \<open>p\<close>, with writing broken or not, the function gets to \<open>q\<close> and has read \<open>inp\<close> and written
  \<open>out\<close> on the way.
\<close>

inductive localRun :: "bool \<Rightarrow> 'r proc \<Rightarrow> bytes \<Rightarrow> bytes \<Rightarrow> bool \<Rightarrow> 'r proc \<Rightarrow> bool" where
  here: "localRun b p [] [] b p"
| broken: "localRun True p inp out b' q \<Longrightarrow> localRun False p inp out b' q"
| wrote: "localRun False (k True) inp out b' q \<Longrightarrow> localRun False (WriteP bs k) inp (bs @ out) b' q"
| wroteNot: "localRun True (k False) inp out b' q \<Longrightarrow> n < length bs \<Longrightarrow>
    localRun b (WriteP bs k) inp ((if b then [] else take n bs) @ out) b' q"
| read: "localRun b (k (Some bs)) inp out b' q \<Longrightarrow> length bs = n \<Longrightarrow> localRun b (ReadP n k) (bs @ inp) out b' q"
| readNot: "localRun b (k None) inp out b' q \<Longrightarrow> localRun b (ReadP n k) inp out b' q"
| closed: "localRun True p inp out b' q \<Longrightarrow> localRun b (CloseP p) inp out b' q"
| asked: "localRun b (k gone) inp out b' q \<Longrightarrow> localRun b (AbandonedP k) inp out b' q"

lemma localRun_broken: "localRun b p inp out b' q \<Longrightarrow> b \<Longrightarrow> out = [] \<and> b'"
  by (induction rule: localRun.induct) auto

lemma localRun_trans:
  "localRun b p inp out b' q \<Longrightarrow> localRun b' q inp2 out2 b'' r \<Longrightarrow> localRun b p (inp @ inp2) (out @ out2) b'' r"
proof (induction arbitrary: rule: localRun.induct)
  case (wroteNot k inp out b' q n bs b)
  then show ?case
    using localRun.wroteNot[of k "inp @ inp2" "out @ out2" b'' r n bs b] by simp
qed (auto intro: localRun.intros localRun.wrote[of _ _ "_ @ _", simplified] localRun.read[of _ _ _ "_ @ _", simplified])

inductive_simps localRun_Done: "localRun b (Done x) inp out b' q"
inductive_simps localRun_Write: "localRun b (WriteP bs k) inp out b' q"
inductive_simps localRun_Read: "localRun b (ReadP n k) inp out b' q"
inductive_simps localRun_Close: "localRun b (CloseP p) inp out b' q"

text \<open>The two sides as a whole: what one reads is the beginning of what the other writes.\<close>

definition sideOk :: "'a hsDone proc \<Rightarrow> 'a side \<Rightarrow> bytes \<Rightarrow> bool" where
  "sideOk p s other \<longleftrightarrow> (\<exists>inp. localRun False p inp (sd_out s) (sd_writeBroken s) (sd_proc s) \<and> prefix inp other
     \<and> (\<not> sd_readBroken s \<longrightarrow> sd_in s = length inp)
     \<and> (\<forall>r. sd_ret s = Some (Inr r) \<longrightarrow> (\<exists>h. sd_proc s = Done (Inr r, h))))"

lemma localRun_step:
  assumes "localRun b p inp out b1 q" and "localRun b1 q inp2 out2 b2 q2" and "out' = out @ out2"
  shows "localRun b p (inp @ inp2) out' b2 q2"
  using localRun_trans[OF assms(1,2)] assms(3) by simp

lemma sideOk_silent:
  assumes "sideOk p s other" and "localRun (sd_writeBroken s) (sd_proc s) [] o2 (sd_writeBroken s') (sd_proc s')"
    and "sd_out s' = sd_out s @ o2" and "\<not> sd_readBroken s' \<Longrightarrow> \<not> sd_readBroken s \<and> sd_in s' = sd_in s"
    and "\<And>r. sd_ret s' = Some (Inr r) \<Longrightarrow> \<exists>h. sd_proc s' = Done (Inr r, h)"
  shows "sideOk p s' other"
proof -
  obtain inp where "localRun False p inp (sd_out s) (sd_writeBroken s) (sd_proc s)" "prefix inp other"
    "\<not> sd_readBroken s \<longrightarrow> sd_in s = length inp"
    using assms(1) by (auto simp: sideOk_def)
  then show ?thesis
    using localRun_step[OF _ assms(2,3)] assms(4,5) unfolding sideOk_def by (intro exI[of _ inp]) auto
qed

lemma sideOk_done: "sideOk p s other \<Longrightarrow> sd_ret s = Some (Inr r) \<Longrightarrow> \<exists>h. sd_proc s = Done (Inr r, h)"
  by (auto simp: sideOk_def)

lemma localRun_broke: "localRun b p [] [] True p"
  by (cases b) (auto intro: localRun.here localRun.broken)

lemma sideStep_ok:
  assumes "sideStep other f s s'" and "sideOk p s other"
  shows "sideOk p s' other"
  using assms(1)
proof cases
  case (reads n k)
  from assms(2) obtain inp where inp: "localRun False p inp (sd_out s) (sd_writeBroken s) (sd_proc s)" "prefix inp other"
    "\<not> sd_readBroken s \<longrightarrow> sd_in s = length inp" and r: "\<forall>r. sd_ret s = Some (Inr r) \<longrightarrow> (\<exists>h. sd_proc s = Done (Inr r, h))"
    by (auto simp: sideOk_def)
  define bs where "bs = take n (drop (sd_in s) other)"
  have bs: "length bs = n" "prefix (inp @ bs) other"
    using reads inp by (auto simp: bs_def prefix_def) (metis append_take_drop_id)+
  have "localRun (sd_writeBroken s) (ReadP n k) (bs @ []) [] (sd_writeBroken s) (k (Some bs))"
    using bs(1) by (intro localRun.read localRun.here)
  then have "localRun False p (inp @ bs) (sd_out s) (sd_writeBroken s) (k (Some bs))"
    using localRun_step[OF inp(1), of bs "[]"] reads by simp
  with bs show ?thesis
    using reads r inp(3) unfolding sideOk_def by (intro exI[of _ "inp @ bs"]) (simp flip: bs_def)
next
  case (writes bs k)
  have "localRun False (WriteP bs k) [] (bs @ []) False (k True)"
    by (rule localRun.wrote[OF localRun.here])
  then show ?thesis
    using writes sideOk_done[OF assms(2)] by (intro sideOk_silent[OF assms(2), of bs]) auto
next
  case (writeFails bs k n)
  have "localRun b (WriteP bs k) [] ((if b then [] else take n bs) @ []) True (k False)" for b
    by (rule localRun.wroteNot[OF localRun.here]) (use writeFails in simp)
  then show ?thesis
    using writeFails sideOk_done[OF assms(2)]
    by (intro sideOk_silent[OF assms(2), of "if sd_writeBroken s then [] else take n bs"]) auto
next
  case (readFails n k)
  have "localRun b (ReadP n k) [] [] b (k None)" for b
    by (rule localRun.readNot[OF localRun.here])
  with readFails show ?thesis
    using sideOk_done[OF assms(2)] by (intro sideOk_silent[OF assms(2), of "[]"]) auto
next
  case (closes q)
  have "localRun b (CloseP q) [] [] True q" for b
    by (rule localRun.closed[OF localRun.here])
  with closes show ?thesis
    using sideOk_done[OF assms(2)] by (intro sideOk_silent[OF assms(2), of "[]"]) auto
next
  case (notAbandoned k)
  have "localRun b (AbandonedP k) [] [] b (k gone)" for b gone
    by (rule localRun.asked[OF localRun.here])
  with notAbandoned show ?thesis
    using sideOk_done[OF assms(2)] by (intro sideOk_silent[OF assms(2), of "[]"]) auto
next
  case (returns r h)
  then show ?thesis
    by (intro sideOk_silent[OF assms(2), of "[]"]) (auto intro: localRun.here)
next
  case cancelled
  then show ?thesis
    by (intro sideOk_silent[OF assms(2), of "[]"]) (auto intro: localRun_broke)
qed

lemma sideStep_out: "sideStep other f s s' \<Longrightarrow> prefix (sd_out s) (sd_out s')"
  by (induction rule: sideStep.induct) auto

lemma sideOk_mono: "sideOk p s other \<Longrightarrow> prefix other other' \<Longrightarrow> sideOk p s other'"
  unfolding sideOk_def by (meson prefix_order.trans)

lemma netReach_ok: "netReach faults p q n (a, b) \<Longrightarrow> sideOk p a (sd_out b) \<and> sideOk q b (sd_out a)"
proof (induction n "(a, b)" arbitrary: a b rule: netReach.induct)
  case start
  then show ?case
    by (auto simp: sideOk_def startSide_def intro: localRun.here)
next
  case (step n s f)
  then show ?case
    by (cases s) (auto elim!: netStep.cases intro: sideStep_ok sideOk_mono dest: sideStep_out)
qed

end
