(* ===== verification/HandshakeRuns.thy ===== *)
theory HandshakeRuns
  imports HandshakeNet
begin

text \<open>
  The handshake of credentials analysed: what each function has read and written when it returns, and what follows for the two
  together.
\<close>

section \<open>Frames\<close>

definition frame :: "char \<Rightarrow> bytes \<Rightarrow> bytes" where
  "frame tp body = tp # leBytes 4 (length body) @ body"

lemma leBytes_leValue: "leBytes (length bs) (leValue bs) = bs"
  by (induction bs) simp_all

lemma frame_read:
  assumes "length header = headerSize" and "leValue (tl header) = length body"
  shows "header @ body = frame (hd header) body"
proof -
  obtain tp sz where "header = tp # sz" "length sz = 4"
    using assms(1) by (cases header) (auto simp: headerSize_def)
  then show ?thesis
    using assms(2) leBytes_leValue[of sz] by (simp add: frame_def)
qed

lemma frame_same:
  assumes "frame tp body @ x = frame tp' body' @ y" and "length body < 256 ^ 4" and "length body' < 256 ^ 4"
  shows "tp = tp' \<and> body = body' \<and> x = y"
proof -
  have eq: "tp = tp'" "leBytes 4 (length body) = leBytes 4 (length body')" "body @ x = body' @ y"
    using assms(1) by (auto simp: frame_def append_eq_append_conv)
  have "length body = length body'"
    using arg_cong[OF eq(2), of leValue] assms(2,3) by (simp add: leValue_leBytes del: power_numeral)
  then show ?thesis
    using eq by simp
qed

lemma frame_prefix:
  assumes "prefix (frame tp body) out" and "prefix out (frame tp' body')" and "length body < 256 ^ 4" and "length body' < 256 ^ 4"
  shows "tp = tp' \<and> body = body' \<and> out = frame tp body"
proof -
  obtain x y where out: "out = frame tp body @ x" "frame tp' body' = out @ y"
    using assms(1,2) by (auto simp: prefix_def)
  then have "frame tp body @ (x @ y) = frame tp' body' @ []"
    by simp
  from frame_same[OF this assms(3,4)] out show ?thesis
    by simp
qed

section \<open>What is relied on\<close>

text \<open>
  A generated encoder leaves out fields with their zero value, and a generated decoder keeps the fields of the message it
  writes into unless the bytes have them.
\<close>

definition mergeCred :: "Credentials \<Rightarrow> Credentials \<Rightarrow> Credentials" where
  "mergeCred old c = \<lparr>cred_Type = (if cred_Type c = 0 then cred_Type old else cred_Type c),
     cred_Payload = (if cred_Payload c = [] then cred_Payload old else cred_Payload c),
     cred_Version = (if cred_Version c = 0 then cred_Version old else cred_Version c),
     cred_ClientVersion = (if cred_ClientVersion c = [] then cred_ClientVersion old else cred_ClientVersion c)\<rparr>"

definition codecLaws :: "hsCodec \<Rightarrow> bool" where
  "codecLaws M \<longleftrightarrow> (\<forall>e. \<exists>bs. marshalAck M e = Some bs \<and> length bs \<le> sizeLimit \<and> unmarshalAck M bs 0 = (e, True))
     \<and> (\<forall>c bs old. marshalCred M c = Some bs \<longrightarrow> length bs < 256 ^ 4 \<and> unmarshalCred M bs old = (mergeCred old c, True))"

lemma codecLaws_ack:
  assumes "codecLaws M"
  obtains bs where "marshalAck M e = Some bs" "length bs \<le> sizeLimit" "unmarshalAck M bs 0 = (e, True)"
  using assms unfolding codecLaws_def by blast

lemma codecLaws_cred:
  "codecLaws M \<Longrightarrow> marshalCred M c = Some bs \<Longrightarrow> length bs < 256 ^ 4 \<and> unmarshalCred M bs old = (mergeCred old c, True)"
  unfolding codecLaws_def by blast

section \<open>Runs of the parts\<close>

definition running :: "'r proc \<Rightarrow> bool" where
  "running q \<longleftrightarrow> (\<forall>x. q \<noteq> Done x)"

lemma localRun_True: "localRun True p inp out b' q \<Longrightarrow> out = []"
  using localRun_broken by blast

lemma run_done:
  assumes "localRun b (Done x) inp out b' q"
  shows "inp = [] \<and> out = [] \<and> q = Done x"
  using assms by (induction b "Done x" inp out b' q rule: localRun.induct) simp_all

lemma run_write:
  assumes "localRun b (WriteP bs k) inp out b' q"
  shows "(inp = [] \<and> out = [] \<and> q = WriteP bs k)
    \<or> (\<not> b \<and> (\<exists>out'. out = bs @ out' \<and> localRun False (k True) inp out' b' q))
    \<or> (\<exists>n < length bs. out = take n bs \<and> localRun True (k False) inp [] b' q)"
  using assms
proof (induction b "WriteP bs k" inp out b' q rule: localRun.induct)
  case (wroteNot inp out b' q n b)
  moreover have "out = []"
    using wroteNot(1) localRun_broken by blast
  ultimately show ?case
    by (cases b) (auto intro: exI[of _ 0])
qed auto

lemma run_close:
  assumes "localRun b (CloseP p) inp out b' q"
  shows "(inp = [] \<and> out = [] \<and> q = CloseP p) \<or> (out = [] \<and> localRun True p inp [] b' q)"
  using assms by (induction b "CloseP p" inp out b' q rule: localRun.induct) (auto dest: localRun_True)

lemma run_read:
  assumes "localRun b (ReadP n k) inp out b' q"
  shows "(inp = [] \<and> out = [] \<and> q = ReadP n k)
    \<or> (\<exists>b1. localRun b1 (k None) inp out b' q)
    \<or> (\<exists>bs inp' b1. inp = bs @ inp' \<and> length bs = n \<and> localRun b1 (k (Some bs)) inp' out b' q)"
  using assms by (induction b "ReadP n k" inp out b' q rule: localRun.induct) blast+

lemma run_writeData:
  assumes "localRun b (writeData tp bs k) inp out b' q"
  shows "(inp = [] \<and> out = [] \<and> running q)
    \<or> (\<exists>out'. out = frame tp bs @ out' \<and> localRun False (k None) inp out' b' q)
    \<or> (\<exists>n < length (frame tp bs). out = take n (frame tp bs) \<and> localRun True (k (Some ErrConn)) inp [] b' q)"
  using run_write[OF assms[unfolded writeData_def frame_def[symmetric]]] by (auto simp: running_def)

text \<open>
  Reading a message: nothing is written before it goes on, and if it goes on with a message, a frame of an allowed type was
  read.
\<close>

definition readErrors :: "hs_error set" where
  "readErrors = {ErrConn, ErrUnexpectedPayload, ErrGotUnexpectedMessage, ErrDecode}"

lemma run_readMsg:
  assumes "localRun b (readMsg M types h k) inp out b' q"
  shows "(out = [] \<and> running q)
    \<or> (\<exists>e h' inp' b1. e \<in> readErrors \<and> localRun b1 (k (Inl e) h') inp' out b' q)
    \<or> (\<exists>tp body inp' b1 m h'. inp = frame tp body @ inp' \<and> tp \<in> set types \<and> length body \<le> sizeLimit
         \<and> decodeMsg M tp body h = (Inr m, h') \<and> localRun b1 (k (Inr m) h') inp' out b' q)"
proof -
  let ?fail = "\<exists>e h' inp' b1. e \<in> readErrors \<and> localRun b1 (k (Inl e) h') inp' out b' q"
  from run_read[OF assms[unfolded readMsg_def]] consider (stuck) "out = []" "running q" | (failed) ?fail
    | (header) header inp1 b1 where "inp = header @ inp1" "length header = headerSize"
      "hd header \<in> set types" "leValue (tl header) \<le> sizeLimit"
      "localRun b1 (ReadP (leValue (tl header)) (\<lambda>r. case r of None \<Rightarrow> k (Inl ErrConn) h
         | Some body \<Rightarrow> (case decodeMsg M (hd header) body h of (m, h) \<Rightarrow> k m h))) inp1 out b' q"
    unfolding readErrors_def by (auto simp: running_def split: if_splits)
  then show ?thesis
  proof cases
    case header
    from run_read[OF header(5)] consider (stuck) "out = []" "running q" | (failed) ?fail
      | (body) body inp2 b2 where "inp1 = body @ inp2" "length body = leValue (tl header)"
        "localRun b2 (case decodeMsg M (hd header) body h of (m, h) \<Rightarrow> k m h) inp2 out b' q"
      unfolding readErrors_def by (auto simp: running_def)
    then show ?thesis
    proof cases
      case body
      obtain m h' where d: "decodeMsg M (hd header) body h = (m, h')"
        by force
      show ?thesis
      proof (cases m)
        case (Inl e)
        then have "e = ErrDecode"
          using d by (auto simp: decodeMsg_def Let_def split: if_splits prod.splits)
        then have "localRun b2 (k (Inl ErrDecode) h') inp2 out b' q" "ErrDecode \<in> readErrors"
          using body(3) d Inl by (simp_all add: readErrors_def)
        then have ?fail
          by blast
        then show ?thesis
          by (rule disjI2[OF disjI1])
      next
        case (Inr m')
        have "inp = frame (hd header) body @ inp2"
          using frame_read[OF header(2), of body] body(1,2) header(1) by simp
        moreover have "localRun b2 (k (Inr m') h') inp2 out b' q"
          using body(3) d Inr by simp
        ultimately show ?thesis
          using header(3,4) body(2) d Inr by (intro disjI2 exI[of _ "hd header"] exI[of _ body] exI[of _ inp2] exI[of _ b2]
              exI[of _ m'] exI[of _ h']) simp
      qed
    qed simp_all
  qed simp_all
qed

lemma msgTypes [simp]: "msgTypeCred \<noteq> msgTypeAck" "msgTypeAck \<noteq> msgTypeCred" "msgTypeCred \<noteq> msgTypeProto" "msgTypeProto \<noteq> msgTypeCred"
  "msgTypeAck \<noteq> msgTypeProto" "msgTypeProto \<noteq> msgTypeAck"
  by (simp_all add: msgTypeCred_def msgTypeAck_def msgTypeProto_def)

lemma decode_cred:
  assumes "decodeMsg M msgTypeCred body h = (Inr m, h')"
  shows "\<exists>c. unmarshalCred M body (h_remoteCred h) = (c, True) \<and> m = \<lparr>msg_cred = Some c, msg_proto = None, msg_ack = None\<rparr>
    \<and> h' = h\<lparr>h_remoteCred := c\<rparr>"
  using assms by (auto simp: decodeMsg_def Let_def split: prod.splits if_splits)

lemma decode_ack:
  assumes "decodeMsg M msgTypeAck body h = (Inr m, h')"
  shows "\<exists>e. unmarshalAck M body (h_remoteAck h) = (e, True) \<and> m = \<lparr>msg_cred = None, msg_proto = None, msg_ack = Some e\<rparr>
    \<and> h' = h\<lparr>h_remoteAck := e\<rparr>"
  using assms by (auto simp: decodeMsg_def Let_def split: prod.splits if_splits)

text \<open>A failing function writes at most the acknowledgement of its error, and does not return a result.\<close>

definition noResult :: "'a hsDone proc \<Rightarrow> bool" where
  "noResult q \<longleftrightarrow> (\<forall>r h. q \<noteq> Done (Inr r, h))"

lemma running_noResult: "running q \<Longrightarrow> noResult q"
  by (simp add: running_def noResult_def)

lemma run_fail:
  assumes laws: "codecLaws M" and run: "localRun b (fail M False h err) inp out b' q"
  shows "inp = [] \<and> noResult q \<and> (\<exists>bs. marshalAck M (ackError err) = Some bs \<and> prefix out (frame msgTypeAck bs))"
proof -
  obtain bs where bs: "marshalAck M (ackError err) = Some bs"
    using codecLaws_ack[OF laws] by blast
  have ret: "inp = [] \<and> noResult q \<and> out' = []" if "localRun b1 (CloseP (ret h (Inl err))) inp out' b' q" for b1 out'
    using run_close[OF that] run_done unfolding ret_def noResult_def by fastforce
  show ?thesis
  proof (cases "err = ErrUnexpectedPayload")
    case True
    then show ?thesis
      using run ret[of b out] bs by (simp add: fail_def tryWriteErrAndClose_def)
  next
    case False
    have "localRun b (writeData msgTypeAck bs (\<lambda>_. CloseP (ret h (Inl err)))) inp out b' q"
      using run False bs by (simp add: fail_def tryWriteErrAndClose_def writeAck_def writeMsg_def)
    from run_writeData[OF this] show ?thesis
      using ret running_noResult bs by (auto simp: take_is_prefix)
  qed
qed

definition erring :: "hsCodec \<Rightarrow> bytes \<Rightarrow> bool" where
  "erring M out \<longleftrightarrow> (\<exists>e bs. e \<noteq> Error_Null \<and> marshalAck M e = Some bs \<and> prefix out (frame msgTypeAck bs))"

lemma run_failing:
  assumes "codecLaws M" and "localRun b (fail M False h err) inp out b' q" and "ackError err \<noteq> Error_Null"
  shows "noResult q \<and> erring M out"
  using run_fail[OF assms(1,2)] assms(3) by (auto simp: erring_def)

lemma erring_Nil:
  assumes "codecLaws M"
  shows "erring M []"
proof -
  obtain bs where "marshalAck M 1 = Some bs"
    using codecLaws_ack[OF assms] by blast
  then show ?thesis
    unfolding erring_def by (intro exI[of _ 1] exI[of _ bs]) (simp add: Error_Null_def)
qed

lemma readErrors_ack: "e \<in> readErrors \<Longrightarrow> ackError e \<noteq> Error_Null"
  by (auto simp: readErrors_def ackError_def hs_errors error_codes)

lemma run_sending:
  assumes laws: "codecLaws M"
    and run: "localRun b (writeData tp bs (\<lambda>err. case err of Some e \<Rightarrow> fail M False h e | None \<Rightarrow> P)) inp out b' q"
  shows "(noResult q \<and> prefix out (frame tp bs) \<and> out \<noteq> frame tp bs)
    \<or> (\<exists>out'. out = frame tp bs @ out' \<and> localRun False P inp out' b' q)"
proof -
  have ne: "frame tp bs \<noteq> []"
    by (simp add: frame_def)
  have failed: "noResult q" if "localRun True (fail M False h ErrConn) inp [] b' q"
    using run_fail[OF laws that] by simp
  from run_writeData[OF run] show ?thesis
    using running_noResult[of q] failed ne by (auto simp: take_is_prefix)
qed

lemma run_reading:
  assumes laws: "codecLaws M"
    and run: "localRun b (readMsg M types h (\<lambda>r h. case r of Inl e \<Rightarrow> fail M False h e | Inr msg \<Rightarrow> F msg h)) inp out b' q"
  shows "(noResult q \<and> erring M out)
    \<or> (\<exists>tp body inp' b1 m h'. inp = frame tp body @ inp' \<and> tp \<in> set types \<and> length body \<le> sizeLimit
         \<and> decodeMsg M tp body h = (Inr m, h') \<and> localRun b1 (F m h') inp' out b' q)"
  using run_readMsg[OF run]
proof (elim disjE)
  assume "out = [] \<and> running q"
  then show ?thesis
    using running_noResult erring_Nil[OF laws] by blast
next
  assume "\<exists>e h' inp' b1. e \<in> readErrors \<and> localRun b1 (case Inl e of Inl e \<Rightarrow> fail M False h' e | Inr msg \<Rightarrow> F msg h') inp' out b' q"
  then obtain e h' inp' b1 where e: "e \<in> readErrors" "localRun b1 (fail M False h' e) inp' out b' q"
    by auto
  show ?thesis
    using run_failing[OF laws e(2) readErrors_ack[OF e(1)]] by blast
qed simp

text \<open>The outgoing side: what it has checked when it has acknowledged, and when it returns a result.\<close>

definition properChecker :: "checker \<Rightarrow> bool" where
  "properChecker cc \<longleftrightarrow> (\<forall>i c e. CheckCredential cc i c = Inl e \<longrightarrow> ackError e \<noteq> Error_Null)"

lemma properCheckerD: "properChecker cc \<Longrightarrow> CheckCredential cc i c = Inl e \<Longrightarrow> ackError e \<noteq> Error_Null"
  by (simp add: properChecker_def)

lemma checkers_proper:
  "properChecker (noVerifyChecker v cs n)" "properChecker (peerSignVerifier M V v cs n account)"
  by (auto simp: properChecker_def noVerifyChecker_def peerSignVerifier_def checkVersion_def guard_err_def hs_errors error_codes
      ackError_def of_opt_def split: if_splits option.splits)

lemma outgoing_tail:
  assumes laws: "codecLaws M" and run: "localRun b (writeData msgTypeAck ab (\<lambda>err. case err of Some e \<Rightarrow> fail M False h e | None \<Rightarrow>
     readMsg M [msgTypeAck] h (\<lambda>r h. case r of Inl e \<Rightarrow> fail M False h e | Inr msg \<Rightarrow>
     if the (msg_ack msg) = Error_Null then ret h (Inr result)
     else CloseP (ret h (Inl (HandshakeError None (the (msg_ack msg)))))))) inp out b' (Done (Inr r', h''))"
  shows "r' = result \<and> (\<exists>body. inp = frame msgTypeAck body \<and> length body \<le> sizeLimit
    \<and> unmarshalAck M body (h_remoteAck h) = (Error_Null, True))"
proof -
  have res: "\<not> noResult (Done (Inr r' :: hs_error + _, h''))"
    by (simp add: noResult_def)
  from run_sending[OF laws run] obtain out' where r: "localRun False (readMsg M [msgTypeAck] h
      (\<lambda>r h. case r of Inl e \<Rightarrow> fail M False h e | Inr msg \<Rightarrow> if the (msg_ack msg) = Error_Null then ret h (Inr result)
         else CloseP (ret h (Inl (HandshakeError None (the (msg_ack msg))))))) inp out' b' (Done (Inr r', h''))"
    using res by blast
  from run_reading[OF laws r] obtain body inp' b1 m h' where
    d: "inp = frame msgTypeAck body @ inp'" "length body \<le> sizeLimit" "decodeMsg M msgTypeAck body h = (Inr m, h')"
      "localRun b1 (if the (msg_ack m) = Error_Null then ret h' (Inr result)
         else CloseP (ret h' (Inl (HandshakeError None (the (msg_ack m)))))) inp' out' b' (Done (Inr r', h''))"
    using res by auto
  from decode_ack[OF d(3)] obtain e where e: "unmarshalAck M body (h_remoteAck h) = (e, True)"
    "m = \<lparr>msg_cred = None, msg_proto = None, msg_ack = Some e\<rparr>"
    by blast
  show ?thesis
  proof (cases "e = Error_Null")
    case True
    then have "localRun b1 (Done (Inr result, release h')) inp' out' b' (Done (Inr r' :: hs_error + _, h''))"
      using d(4) e by (simp add: ret_def)
    from run_done[OF this] show ?thesis
      using d e True by auto
  next
    case False
    then have "localRun b1 (CloseP (Done (Inl (HandshakeError None e), release h'))) inp' out' b' (Done (Inr r', h''))"
      using d(4) e by (simp add: ret_def)
    from run_close[OF this] show ?thesis
      by (auto dest: run_done)
  qed
qed

lemma outgoing_run:
  assumes laws: "codecLaws M" and proper: "properChecker cc"
    and cb: "marshalCred M (MakeCredentials cc i) = Some cb" and ab: "marshalAck M Error_Null = Some ab"
    and run: "localRun False (outgoingHandshake M h i cc) inp out b' q"
  shows "(noResult q \<and> prefix out (frame msgTypeCred cb) \<and> out \<noteq> frame msgTypeCred cb)
    \<or> (\<exists>out'. out = frame msgTypeCred cb @ out' \<and>
        ((noResult q \<and> erring M out') \<or>
         (\<exists>body inp' c r. inp = frame msgTypeCred body @ inp' \<and> length body \<le> sizeLimit
            \<and> unmarshalCred M body (h_remoteCred h) = (c, True) \<and> CheckCredential cc i c = Inr r
            \<and> (\<forall>r' h'. q = Done (Inr r', h') \<longrightarrow> r' = r \<and> (\<exists>body'. inp' = frame msgTypeAck body' \<and> length body' \<le> sizeLimit
                  \<and> unmarshalAck M body' (h_remoteAck h) = (Error_Null, True))))))"
proof -
  let ?ack = "\<lambda>result h. writeData msgTypeAck ab (\<lambda>err. case err of Some e \<Rightarrow> fail M False h e | None \<Rightarrow>
     readMsg M [msgTypeAck] h (\<lambda>r h. case r of Inl e \<Rightarrow> fail M False h e | Inr msg \<Rightarrow>
     if the (msg_ack msg) = Error_Null then ret h (Inr result)
     else CloseP (ret h (Inl (HandshakeError None (the (msg_ack msg)))))))"
  let ?F = "\<lambda>msg h. case msg_ack msg of
        Some e \<Rightarrow> ret h (Inl (if e = Error_InvalidCredentials then ErrPeerDeclinedCredentials else HandshakeError None e))
      | None \<Rightarrow> (case CheckCredential cc i (the (msg_cred msg)) of Inl e \<Rightarrow> fail M False h e | Inr result \<Rightarrow> ?ack result h)"
  have eq: "outgoingHandshake M h i cc = writeData msgTypeCred cb (\<lambda>err. case err of Some e \<Rightarrow> fail M False h e | None \<Rightarrow>
     readMsg M [msgTypeAck, msgTypeCred] h (\<lambda>r h. case r of Inl e \<Rightarrow> fail M False h e | Inr msg \<Rightarrow> ?F msg h))"
    unfolding outgoingHandshake_def writeCredentials_def writeAck_def writeMsg_def cb ab option.case by (rule refl)
  from run_sending[OF laws run[unfolded eq]] show ?thesis
  proof (elim disjE exE conjE)
    fix out'
    assume out: "out = frame msgTypeCred cb @ out'"
      and r: "localRun False (readMsg M [msgTypeAck, msgTypeCred] h (\<lambda>r h. case r of Inl e \<Rightarrow> fail M False h e | Inr msg \<Rightarrow> ?F msg h))
        inp out' b' q"
    from run_reading[OF laws r] consider "noResult q \<and> erring M out'"
      | body inp' b1 m h' where "decodeMsg M msgTypeAck body h = (Inr m, h')" "localRun b1 (?F m h') inp' out' b' q"
      | body inp' b1 m h' where "inp = frame msgTypeCred body @ inp'" "length body \<le> sizeLimit"
        "decodeMsg M msgTypeCred body h = (Inr m, h')" "localRun b1 (?F m h') inp' out' b' q"
      by auto
    then show ?thesis
    proof cases
      case 2
      from decode_ack[OF 2(1)] obtain e where "m = \<lparr>msg_cred = None, msg_proto = None, msg_ack = Some e\<rparr>"
        by blast
      then have "noResult q \<and> erring M out'"
        using 2(2) run_done[of b1] erring_Nil[OF laws] by (fastforce simp: ret_def noResult_def)
      then show ?thesis
        using out by blast
    next
      case 3
      from decode_cred[OF 3(3)] obtain c where c: "unmarshalCred M body (h_remoteCred h) = (c, True)"
        "m = \<lparr>msg_cred = Some c, msg_proto = None, msg_ack = None\<rparr>" "h' = h\<lparr>h_remoteCred := c\<rparr>"
        by blast
      show ?thesis
      proof (cases "CheckCredential cc i c")
        case (Inl e)
        then have "localRun b1 (fail M False h' e) inp' out' b' q"
          using 3(4) c by simp
        from run_failing[OF laws this properCheckerD[OF proper Inl]] show ?thesis
          using out by blast
      next
        case (Inr result)
        have last: "localRun b1 (?ack result h') inp' out' b' q"
          using 3(4) unfolding c(2) message.select_convs option.case option.sel Inr sum.case .
        have "r' = result \<and> (\<exists>body'. inp' = frame msgTypeAck body' \<and> length body' \<le> sizeLimit
            \<and> unmarshalAck M body' (h_remoteAck h) = (Error_Null, True))" if "q = Done (Inr r', h'')" for r' h''
          using outgoing_tail[OF laws last[unfolded that]] c(3) by simp
        with 3 c Inr out show ?thesis
          by blast
      qed
    qed (use out in blast)
  qed blast
qed

text \<open>The incoming side: it writes nothing but an error before its check, and its last acknowledgement with its result.\<close>

lemma incoming_tail:
  assumes laws: "codecLaws M" and ab: "marshalAck M Error_Null = Some ab" and run: "localRun b (readMsg M [msgTypeAck] h (\<lambda>r h. case r of Inl e \<Rightarrow> fail M False h e | Inr msg \<Rightarrow>
     if the (msg_ack msg) \<noteq> Error_Null then
       ret h (Inl (if the (msg_ack msg) = Error_InvalidCredentials then ErrPeerDeclinedCredentials
                   else HandshakeError None (the (msg_ack msg))))
     else writeData msgTypeAck ab (\<lambda>err. case err of Some e \<Rightarrow> fail M False h e | None \<Rightarrow> ret h (Inr result)))) inp out b' q"
  shows "(noResult q \<and> (erring M out \<or> (prefix out (frame msgTypeAck ab) \<and> out \<noteq> frame msgTypeAck ab)))
    \<or> (\<exists>body h'. inp = frame msgTypeAck body \<and> length body \<le> sizeLimit \<and> unmarshalAck M body (h_remoteAck h) = (Error_Null, True)
         \<and> q = Done (Inr result, h'))"
proof -
  from run_reading[OF laws run] consider "noResult q \<and> erring M out"
    | body inp' b1 m h' where "inp = frame msgTypeAck body @ inp'" "length body \<le> sizeLimit"
      "decodeMsg M msgTypeAck body h = (Inr m, h')"
      "localRun b1 (if the (msg_ack m) \<noteq> Error_Null then
         ret h' (Inl (if the (msg_ack m) = Error_InvalidCredentials then ErrPeerDeclinedCredentials
                   else HandshakeError None (the (msg_ack m))))
       else writeData msgTypeAck ab (\<lambda>err. case err of Some e \<Rightarrow> fail M False h' e | None \<Rightarrow> ret h' (Inr result))) inp' out b' q"
    by auto
  then show ?thesis
  proof cases
    case 2
    from decode_ack[OF 2(3)] obtain e where e: "unmarshalAck M body (h_remoteAck h) = (e, True)" "msg_ack m = Some e"
      by auto
    show ?thesis
    proof (cases "e = Error_Null")
      case True
      then have "localRun b1 (writeData msgTypeAck ab (\<lambda>err. case err of Some e \<Rightarrow> fail M False h' e | None \<Rightarrow> ret h' (Inr result))) inp' out b' q"
        using 2(4) e by (simp split: if_splits)
      from run_sending[OF laws this] show ?thesis
        using 2 e True by (auto simp: ret_def dest: run_done)
    next
      case False
      then have "noResult q \<and> out = []"
        using 2(4) e by (auto simp: ret_def noResult_def dest: run_done split: if_splits)
      then show ?thesis
        using erring_Nil[OF laws] by simp
    qed
  qed blast
qed

lemma incoming_run:
  assumes laws: "codecLaws M" and cb: "marshalCred M (MakeCredentials cc i) = Some cb" and ab: "marshalAck M Error_Null = Some ab"
    and run: "localRun False (incomingHandshake M h i cc) inp out b' q"
  shows "(noResult q \<and> (\<exists>bs. prefix out (frame msgTypeAck bs) \<and> length bs \<le> sizeLimit))
    \<or> (\<exists>body inp' c r. inp = frame msgTypeCred body @ inp' \<and> length body \<le> sizeLimit
         \<and> unmarshalCred M body (h_remoteCred h) = (c, True) \<and> CheckCredential cc i c = Inr r \<and>
         ((noResult q \<and> prefix out (frame msgTypeCred cb) \<and> out \<noteq> frame msgTypeCred cb) \<or>
          (\<exists>out'. out = frame msgTypeCred cb @ out' \<and>
            ((noResult q \<and> (erring M out' \<or> (prefix out' (frame msgTypeAck ab) \<and> out' \<noteq> frame msgTypeAck ab)))
             \<or> (\<exists>body' h'. inp' = frame msgTypeAck body' \<and> length body' \<le> sizeLimit
                  \<and> unmarshalAck M body' (h_remoteAck h) = (Error_Null, True) \<and> q = Done (Inr r, h'))))))"
proof -
  let ?G = "\<lambda>result h. readMsg M [msgTypeAck] h (\<lambda>r h. case r of Inl e \<Rightarrow> fail M False h e | Inr msg \<Rightarrow>
     if the (msg_ack msg) \<noteq> Error_Null then
       ret h (Inl (if the (msg_ack msg) = Error_InvalidCredentials then ErrPeerDeclinedCredentials
                   else HandshakeError None (the (msg_ack msg))))
     else writeData msgTypeAck ab (\<lambda>err. case err of Some e \<Rightarrow> fail M False h e | None \<Rightarrow> ret h (Inr result)))"
  let ?F = "\<lambda>msg h. case CheckCredential cc i (the (msg_cred msg)) of Inl e \<Rightarrow> fail M False h e | Inr result \<Rightarrow>
     writeData msgTypeCred cb (\<lambda>err. case err of Some e \<Rightarrow> fail M False h e | None \<Rightarrow> ?G result h)"
  have eq: "incomingHandshake M h i cc = readMsg M [msgTypeCred] h (\<lambda>r h. case r of Inl e \<Rightarrow> fail M False h e | Inr msg \<Rightarrow> ?F msg h)"
    unfolding incomingHandshake_def writeCredentials_def writeAck_def writeMsg_def cb ab option.case by (rule refl)
  have ackLen: "length bs \<le> sizeLimit" if "marshalAck M e = Some bs" for e bs
    using codecLaws_ack[OF laws, of e] that by auto
  from run_reading[OF laws run[unfolded eq]] consider "noResult q" "erring M out"
    | body inp' b1 m h' where "inp = frame msgTypeCred body @ inp'" "length body \<le> sizeLimit"
      "decodeMsg M msgTypeCred body h = (Inr m, h')" "localRun b1 (?F m h') inp' out b' q"
    by auto
  then show ?thesis
  proof cases
    case 1
    then show ?thesis
      using ackLen by (auto simp: erring_def)
  next
    case 2
    from decode_cred[OF 2(3)] obtain c where c: "unmarshalCred M body (h_remoteCred h) = (c, True)"
      "m = \<lparr>msg_cred = Some c, msg_proto = None, msg_ack = None\<rparr>" "h' = h\<lparr>h_remoteCred := c\<rparr>"
      by blast
    show ?thesis
    proof (cases "CheckCredential cc i c")
      case (Inl e)
      then have "localRun b1 (fail M False h' e) inp' out b' q"
        using 2(4) c by simp
      from run_fail[OF laws this] obtain bs where "noResult q" "marshalAck M (ackError e) = Some bs" "prefix out (frame msgTypeAck bs)"
        by blast
      then show ?thesis
        using ackLen[of "ackError e" bs] by (intro disjI1 conjI exI[of _ bs])
    next
      case (Inr result)
      have "localRun b1 (writeData msgTypeCred cb (\<lambda>err. case err of Some e \<Rightarrow> fail M False h' e | None \<Rightarrow> ?G result h')) inp' out b' q"
        using 2(4) unfolding c(2) message.select_convs option.sel Inr sum.case .
      from run_sending[OF laws this] consider "noResult q \<and> prefix out (frame msgTypeCred cb) \<and> out \<noteq> frame msgTypeCred cb"
        | out' where "out = frame msgTypeCred cb @ out'" "localRun False (?G result h') inp' out' b' q"
        by blast
      then show ?thesis
      proof cases
        case 1
        with 2(1,2) c(1) Inr show ?thesis
          by (intro disjI2 exI[of _ body] exI[of _ inp'] exI[of _ c] exI[of _ result]) simp
      next
        case (2 out')
        have tail: "(noResult q \<and> (erring M out' \<or> (prefix out' (frame msgTypeAck ab) \<and> out' \<noteq> frame msgTypeAck ab)))
            \<or> (\<exists>body' h'. inp' = frame msgTypeAck body' \<and> length body' \<le> sizeLimit
                 \<and> unmarshalAck M body' (h_remoteAck h) = (Error_Null, True) \<and> q = Done (Inr result, h'))"
          using incoming_tail[OF laws ab 2(2)] c(3) by simp
        note facts = \<open>inp = frame msgTypeCred body @ inp'\<close> \<open>length body \<le> sizeLimit\<close> c(1) Inr 2(1)
        show ?thesis
          by (rule disjI2, rule exI[of _ body], rule exI[of _ inp'], rule exI[of _ c], rule exI[of _ result])
            (simp only: facts, use tail in auto)
      qed
    qed
  qed
qed

end
