(* ===== verification/HandshakeProperties.thy ===== *)
theory HandshakeProperties
  imports HandshakeRuns
begin

text \<open>
  The theorems on the handshake of credentials: success of one side means that both checked the other, two compatible sides
  have a run in which both succeed, and a peer without a version is checked with the version of the one before.
\<close>

section \<open>Success on one side\<close>

lemma sizeLimit_less: "n \<le> sizeLimit \<Longrightarrow> n < 256 ^ 4"
  by (simp add: sizeLimit_def)

lemma frames_prefix:
  assumes "prefix (frame tp body @ x) (frame tp' body' @ y)" and "length body < 256 ^ 4" and "length body' < 256 ^ 4"
  shows "tp = tp' \<and> body = body' \<and> prefix x y"
proof -
  obtain z where "frame tp' body' @ y = frame tp body @ (x @ z)"
    using assms(1) by (auto simp: prefix_def)
  from frame_same[OF this assms(3,2)] show ?thesis
    by auto
qed

lemma erring_not_ok:
  assumes laws: "codecLaws M" and out: "prefix (frame msgTypeAck body) out" "erring M out" and len: "length body \<le> sizeLimit"
    and ok: "unmarshalAck M body 0 = (Error_Null, True)"
  shows False
proof -
  obtain e bs where e: "e \<noteq> Error_Null" "marshalAck M e = Some bs" "prefix out (frame msgTypeAck bs)"
    using out(2) by (auto simp: erring_def)
  obtain bs' where "marshalAck M e = Some bs'" "length bs' \<le> sizeLimit" "unmarshalAck M bs' 0 = (e, True)"
    using codecLaws_ack[OF laws] by blast
  with e have bs: "length bs \<le> sizeLimit" "unmarshalAck M bs 0 = (e, True)"
    by simp_all
  show False
    using frame_prefix[OF out(1) e(3)] sizeLimit_less[OF len] sizeLimit_less[OF bs(1)] bs(2) ok e(1) by simp
qed

lemma cut_not_all:
  assumes "prefix (frame tp body @ x) out" and "prefix out (frame tp' body')" and "out \<noteq> frame tp' body'"
    and "length body < 256 ^ 4" and "length body' < 256 ^ 4"
  shows False
proof -
  have "prefix (frame tp body) out"
    using assms(1) by (meson append_prefixD)
  from frame_prefix[OF this assms(2,4,5)] show False
    using assms(3) by simp
qed

text \<open>What both checks answered, on the messages as the pooled objects make them.\<close>

definition bothChecked :: "handshake \<Rightarrow> handshake \<Rightarrow> string \<Rightarrow> string \<Rightarrow> checker \<Rightarrow> checker \<Rightarrow> Result \<Rightarrow> Result \<Rightarrow> bool" where
  "bothChecked hA hB idA idB ccA ccB rA rB \<longleftrightarrow>
     CheckCredential ccA idB (mergeCred (h_remoteCred hA) (MakeCredentials ccB idA)) = Inr rA
     \<and> CheckCredential ccB idA (mergeCred (h_remoteCred hB) (MakeCredentials ccA idB)) = Inr rB"

lemma outgoing_success:
  assumes laws: "codecLaws M" and ack: "h_remoteAck hA = 0" and proper: "properChecker ccA"
    and ca: "marshalCred M (MakeCredentials ccA idB) = Some ca" and cb: "marshalCred M (MakeCredentials ccB idA) = Some cb"
    and runA: "localRun False (outgoingHandshake M hA idB ccA) inpA outA brA (Done (Inr rA, hA'))" and preA: "prefix inpA outB"
    and runB: "localRun False (incomingHandshake M hB idA ccB) inpB outB brB q" and preB: "prefix inpB outA"
  shows "\<exists>rB hB'. q = Done (Inr rB, hB') \<and> bothChecked hA hB idA idB ccA ccB rA rB"
proof -
  obtain ab where ab: "marshalAck M Error_Null = Some ab" "length ab \<le> sizeLimit"
    using codecLaws_ack[OF laws] by blast
  have res: "\<not> noResult (Done (Inr rA :: hs_error + _, hA'))"
    by (simp add: noResult_def)
  from outgoing_run[OF laws proper ca ab(1) runA] res obtain out' body c body' where
    outA: "outA = frame msgTypeCred ca @ out'" and inpA: "inpA = frame msgTypeCred body @ frame msgTypeAck body'"
    and len: "length body \<le> sizeLimit" "length body' \<le> sizeLimit" and c: "unmarshalCred M body (h_remoteCred hA) = (c, True)"
    and check: "CheckCredential ccA idB c = Inr rA" and null: "unmarshalAck M body' 0 = (Error_Null, True)"
    unfolding ack by auto
  note lens = sizeLimit_less[OF len(1)] sizeLimit_less[OF len(2)] sizeLimit_less[OF ab(2)]
    codecLaws_cred[OF laws ca, THEN conjunct1] codecLaws_cred[OF laws cb, THEN conjunct1]
  have pre: "prefix (frame msgTypeCred body @ frame msgTypeAck body') outB"
    using preA inpA by simp
  from incoming_run[OF laws cb ab(1) runB] consider
      bs where "prefix outB (frame msgTypeAck bs)" "length bs \<le> sizeLimit"
    | "prefix outB (frame msgTypeCred cb)" "outB \<noteq> frame msgTypeCred cb"
    | bodyB inp' c' rB o' where "inpB = frame msgTypeCred bodyB @ inp'" "length bodyB \<le> sizeLimit"
      "unmarshalCred M bodyB (h_remoteCred hB) = (c', True)" "CheckCredential ccB idA c' = Inr rB" "outB = frame msgTypeCred cb @ o'"
      "erring M o' \<or> (prefix o' (frame msgTypeAck ab) \<and> o' \<noteq> frame msgTypeAck ab) \<or> (\<exists>h'. q = Done (Inr rB, h'))"
    by auto
  then show ?thesis
  proof cases
    case (1 bs)
    have "prefix (frame msgTypeCred body) outB"
      using pre by (meson append_prefixD)
    from frame_prefix[OF this 1(1) lens(1) sizeLimit_less[OF 1(2)]] show ?thesis
      by simp
  next
    case 2
    from cut_not_all[OF pre 2 lens(1,5)] show ?thesis ..
  next
    case (3 bodyB inp' c' rB o')
    have b: "body = cb" "prefix (frame msgTypeAck body') o'"
      using frames_prefix[OF pre[unfolded 3(5)] lens(1,5)] by simp_all
    have "bodyB = ca"
      using frames_prefix[OF preB[unfolded 3(1) outA] sizeLimit_less[OF 3(2)] lens(4)] by simp
    then have "bothChecked hA hB idA idB ccA ccB rA rB"
      using c check 3(3,4) b(1) codecLaws_cred[OF laws ca, of "h_remoteCred hB"] codecLaws_cred[OF laws cb, of "h_remoteCred hA"]
      by (simp add: bothChecked_def)
    moreover have "\<not> erring M o'"
      using erring_not_ok[OF laws b(2) _ len(2) null] by blast
    moreover have "\<not> (prefix o' (frame msgTypeAck ab) \<and> o' \<noteq> frame msgTypeAck ab)"
      using cut_not_all[of msgTypeAck body' "[]" o' msgTypeAck ab] b(2) lens(2,3) by auto
    ultimately show ?thesis
      using 3(6) by blast
  qed
qed

lemma incoming_success:
  assumes laws: "codecLaws M" and ack: "h_remoteAck hB = 0" and proper: "properChecker ccA"
    and ca: "marshalCred M (MakeCredentials ccA idB) = Some ca" and cb: "marshalCred M (MakeCredentials ccB idA) = Some cb"
    and runA: "localRun False (outgoingHandshake M hA idB ccA) inpA outA brA q" and preA: "prefix inpA outB"
    and runB: "localRun False (incomingHandshake M hB idA ccB) inpB outB brB (Done (Inr rB, hB'))" and preB: "prefix inpB outA"
  shows "\<exists>rA. bothChecked hA hB idA idB ccA ccB rA rB"
proof -
  obtain ab where ab: "marshalAck M Error_Null = Some ab" "length ab \<le> sizeLimit"
    using codecLaws_ack[OF laws] by blast
  from incoming_run[OF laws cb ab(1) runB] obtain out' body c body' where
    outB: "outB = frame msgTypeCred cb @ out'" and inpB: "inpB = frame msgTypeCred body @ frame msgTypeAck body'"
    and len: "length body \<le> sizeLimit" "length body' \<le> sizeLimit" and c: "unmarshalCred M body (h_remoteCred hB) = (c, True)"
    and check: "CheckCredential ccB idA c = Inr rB" and null: "unmarshalAck M body' 0 = (Error_Null, True)"
    unfolding ack by (auto simp: noResult_def)
  note lens = sizeLimit_less[OF len(1)] sizeLimit_less[OF len(2)]
    codecLaws_cred[OF laws ca, THEN conjunct1] codecLaws_cred[OF laws cb, THEN conjunct1]
  have pre: "prefix (frame msgTypeCred body @ frame msgTypeAck body') outA"
    using preB inpB by simp
  from outgoing_run[OF laws proper ca ab(1) runA] consider
      "prefix outA (frame msgTypeCred ca)" "outA \<noteq> frame msgTypeCred ca"
    | o' where "outA = frame msgTypeCred ca @ o'" "erring M o'"
    | o' bodyA inp' c' rA where "outA = frame msgTypeCred ca @ o'" "inpA = frame msgTypeCred bodyA @ inp'" "length bodyA \<le> sizeLimit"
      "unmarshalCred M bodyA (h_remoteCred hA) = (c', True)" "CheckCredential ccA idB c' = Inr rA"
    by auto
  then show ?thesis
  proof cases
    case 1
    from cut_not_all[OF pre 1 lens(1,3)] show ?thesis ..
  next
    case (2 o')
    have "prefix (frame msgTypeAck body') o'"
      using frames_prefix[OF pre[unfolded 2(1)] lens(1,3)] by simp
    from erring_not_ok[OF laws this 2(2) len(2) null] show ?thesis ..
  next
    case (3 o' bodyA inp' c' rA)
    have "body = ca"
      using frames_prefix[OF pre[unfolded 3(1)] lens(1,3)] by simp
    moreover have "bodyA = cb"
      using frames_prefix[OF preA[unfolded 3(2) outB] sizeLimit_less[OF 3(3)] lens(4)] by simp
    ultimately have "bothChecked hA hB idA idB ccA ccB rA rB"
      using c check 3(4,5) codecLaws_cred[OF laws ca, of "h_remoteCred hB"] codecLaws_cred[OF laws cb, of "h_remoteCred hA"]
      by (simp add: bothChecked_def)
    then show ?thesis ..
  qed
qed

lemma service_proper:
  "properChecker (outboundCheckerFor (initCheckers M V v cs n account auth node) allowed toNode)"
  by (simp add: outboundCheckerFor_def initCheckers_def Let_def checkers_proper)

text \<open>
  C9. A handshake succeeds only for both: in every state that two services can reach over a connection that may break at any
  point and with callers that may give up, if the outgoing side returned a result, both checkers accepted the credentials of
  the other, the result is what the check gave, and the incoming function has completed with its result; if the incoming side
  returned a result, both checkers accepted as well.\<close>

theorem handshake_mutual:
  assumes "codecLaws M" and "h_remoteAck hA = 0" and "h_remoteAck hB = 0"
    and "ccA = outboundCheckerFor (initCheckers M VA vA csA nA accA authA nodeA) allowedA toNode"
    and "ccB = inboundCheckerFor (initCheckers M VB vB csB nB accB authB nodeB) allowedB"
    and "marshalCred M (MakeCredentials ccA idB) \<noteq> None" and "marshalCred M (MakeCredentials ccB idA) \<noteq> None"
    and "netReach True (outgoingHandshake M hA idB ccA) (incomingHandshake M hB idA ccB) n (a, b)"
  shows "(\<forall>rA. sd_ret a = Some (Inr rA) \<longrightarrow>
           (\<exists>rB h. sd_proc b = Done (Inr rB, h) \<and> bothChecked hA hB idA idB ccA ccB rA rB))
    \<and> (\<forall>rB. sd_ret b = Some (Inr rB) \<longrightarrow> (\<exists>rA. bothChecked hA hB idA idB ccA ccB rA rB))"
proof -
  obtain ca cb where cs: "marshalCred M (MakeCredentials ccA idB) = Some ca" "marshalCred M (MakeCredentials ccB idA) = Some cb"
    using assms(6,7) by blast
  have proper: "properChecker ccA"
    using service_proper assms(4) by simp
  from netReach_ok[OF assms(8)] obtain inpA inpB where
    A: "localRun False (outgoingHandshake M hA idB ccA) inpA (sd_out a) (sd_writeBroken a) (sd_proc a)" "prefix inpA (sd_out b)"
      "\<forall>r. sd_ret a = Some (Inr r) \<longrightarrow> (\<exists>h. sd_proc a = Done (Inr r, h))"
    and B: "localRun False (incomingHandshake M hB idA ccB) inpB (sd_out b) (sd_writeBroken b) (sd_proc b)" "prefix inpB (sd_out a)"
      "\<forall>r. sd_ret b = Some (Inr r) \<longrightarrow> (\<exists>h. sd_proc b = Done (Inr r, h))"
    by (auto simp: sideOk_def)
  show ?thesis
  proof (intro conjI allI impI)
    fix rA
    assume "sd_ret a = Some (Inr rA)"
    then obtain h where "sd_proc a = Done (Inr rA, h)"
      using A(3) by blast
    from outgoing_success[OF assms(1,2) proper cs A(1)[unfolded this] A(2) B(1,2)]
    show "\<exists>rB h. sd_proc b = Done (Inr rB, h) \<and> bothChecked hA hB idA idB ccA ccB rA rB" .
  next
    fix rB
    assume "sd_ret b = Some (Inr rB)"
    then obtain h where "sd_proc b = Done (Inr rB, h)"
      using B(3) by blast
    from incoming_success[OF assms(1,3) proper cs A(1,2) B(1)[unfolded this] B(2)]
    show "\<exists>rA. bothChecked hA hB idA idB ccA ccB rA rB" .
  qed
qed

section \<open>A complete run\<close>

text \<open>Steps of one side without faults, while the other side has written \<open>other\<close>.\<close>

definition sideRun :: "bytes \<Rightarrow> 'a side \<Rightarrow> 'a side \<Rightarrow> bool" where
  "sideRun other = (sideStep other False)\<^sup>*\<^sup>*"

lemma sideRun_trans: "sideRun other s s1 \<Longrightarrow> sideRun other s1 s2 \<Longrightarrow> sideRun other s s2"
  unfolding sideRun_def by (rule rtranclp_trans)

lemma reach_left: "netReach f p q n (a, b) \<Longrightarrow> sideRun (sd_out b) a a' \<Longrightarrow> \<exists>n'. netReach f p q n' (a', b)"
  unfolding sideRun_def
proof (rotate_tac, induction rule: rtranclp_induct)
  case (step a1 a2)
  then show ?case
    using netReach.step[OF _ netStep.left] by blast
qed auto

lemma reach_right: "netReach f p q n (a, b) \<Longrightarrow> sideRun (sd_out a) b b' \<Longrightarrow> \<exists>n'. netReach f p q n' (a, b')"
  unfolding sideRun_def
proof (rotate_tac, induction rule: rtranclp_induct)
  case (step b1 b2)
  then show ?case
    using netReach.step[OF _ netStep.right] by blast
qed auto

lemma run_writes:
  assumes "sd_proc s = writeData tp bs k" and "\<not> sd_writeBroken s"
  shows "sideRun other s (s\<lparr>sd_proc := k None, sd_out := sd_out s @ frame tp bs\<rparr>)"
  using sideStep.writes[of s "frame tp bs" "\<lambda>ok. k (if ok then None else Some ErrConn)" other] assms
  by (simp add: writeData_def frame_def sideRun_def r_into_rtranclp)

lemma run_returns:
  assumes "sd_proc s = Done (r, h)" and "sd_ret s = None"
  shows "sideRun other s (s\<lparr>sd_ret := Some r\<rparr>)"
  using sideStep.returns[OF assms] by (simp add: sideRun_def r_into_rtranclp)

lemma run_reads:
  assumes p: "sd_proc s = readMsg M types h k" and ok: "\<not> sd_readBroken s"
    and other: "other = pre @ frame tp body @ post" "sd_in s = length pre"
    and tp: "tp \<in> set types" and len: "length body \<le> sizeLimit" and dec: "decodeMsg M tp body h = (m, h')"
  shows "sideRun other s (s\<lparr>sd_proc := k m h', sd_in := length (pre @ frame tp body)\<rparr>)"
proof -
  let ?body = "\<lambda>tp r. case r of None \<Rightarrow> k (Inl ErrConn) h
    | Some body \<Rightarrow> (case decodeMsg M tp body h of (m, h) \<Rightarrow> k m h)"
  let ?head = "\<lambda>r. case r of None \<Rightarrow> k (Inl ErrConn) h
    | Some header \<Rightarrow> if hd header \<notin> set types then k (Inl ErrUnexpectedPayload) h
        else if leValue (tl header) > sizeLimit then k (Inl ErrGotUnexpectedMessage) h
        else ReadP (leValue (tl header)) (?body (hd header))"
  let ?hdr = "tp # leBytes 4 (length body)"
  have size: "leValue (leBytes 4 (length body)) = length body"
    using len by (simp add: leValue_leBytes sizeLimit_def)
  define s1 where "s1 = s\<lparr>sd_proc := ReadP (length body) (?body tp), sd_in := length pre + 5\<rparr>"
  have hdr: "take 5 (drop (sd_in s) other) = ?hdr" "?head (Some ?hdr) = ReadP (length body) (?body tp)"
    using tp len size by (simp_all add: other frame_def length_leBytes)
  have "sideStep other False s (s\<lparr>sd_proc := ?head (Some (take 5 (drop (sd_in s) other))), sd_in := sd_in s + 5\<rparr>)"
    using p ok other by (intro sideStep.reads) (simp_all add: readMsg_def headerSize_def frame_def length_leBytes)
  then have "sideStep other False s s1"
    unfolding hdr(1) unfolding hdr(2) unfolding s1_def other(2) .
  moreover have body: "take (length body) (drop (sd_in s1) other) = body"
    by (simp add: s1_def other(1) frame_def length_leBytes)
  have "sideStep other False s1 (s1\<lparr>sd_proc := ?body tp (Some (take (length body) (drop (sd_in s1) other))), sd_in := sd_in s1 + length body\<rparr>)"
    using ok by (intro sideStep.reads) (simp_all add: s1_def other frame_def length_leBytes)
  ultimately have "sideRun other s (s1\<lparr>sd_proc := k m h', sd_in := sd_in s1 + length body\<rparr>)"
    unfolding body using dec by (simp add: sideRun_def converse_rtranclp_into_rtranclp r_into_rtranclp)
  moreover have "s1\<lparr>sd_proc := k m h', sd_in := sd_in s1 + length body\<rparr> = s\<lparr>sd_proc := k m h', sd_in := length (pre @ frame tp body)\<rparr>"
    by (simp add: s1_def frame_def length_leBytes)
  ultimately show ?thesis
    by simp
qed

abbreviation credMsg :: "Credentials \<Rightarrow> hs_error + message" where
  "credMsg c \<equiv> Inr \<lparr>msg_cred = Some c, msg_proto = None, msg_ack = None\<rparr>"

abbreviation okMsg :: "hs_error + message" where
  "okMsg \<equiv> Inr \<lparr>msg_cred = None, msg_proto = None, msg_ack = Some Error_Null\<rparr>"

text \<open>The parts of the two functions that run when nothing goes wrong.\<close>

lemma outgoing_parts:
  assumes "marshalCred M (MakeCredentials cc i) = Some ca" and "marshalAck M Error_Null = Some ab"
    and "CheckCredential cc i c = Inr r"
  obtains k F k2 F2 where "outgoingHandshake M h i cc = writeData msgTypeCred ca k" and "k None = readMsg M [msgTypeAck, msgTypeCred] h F"
    and "F (credMsg c) h' = writeData msgTypeAck ab k2" and "k2 None = readMsg M [msgTypeAck] h' F2"
    and "\<And>h''. F2 okMsg h'' = Done (Inr r, release h'')"
proof -
  let ?F2 = "\<lambda>result r h. case r of Inl e \<Rightarrow> fail M False h e | Inr msg \<Rightarrow>
     if the (msg_ack msg) = Error_Null then ret h (Inr result)
     else CloseP (ret h (Inl (HandshakeError None (the (msg_ack msg)))))"
  let ?k2 = "\<lambda>result h err. case err of Some e \<Rightarrow> fail M False h e | None \<Rightarrow> readMsg M [msgTypeAck] h (?F2 result)"
  let ?F = "\<lambda>r h. case r of Inl e \<Rightarrow> fail M False h e | Inr msg \<Rightarrow> (case msg_ack msg of
        Some e \<Rightarrow> ret h (Inl (if e = Error_InvalidCredentials then ErrPeerDeclinedCredentials else HandshakeError None e))
      | None \<Rightarrow> (case CheckCredential cc i (the (msg_cred msg)) of Inl e \<Rightarrow> fail M False h e
          | Inr result \<Rightarrow> writeAck M Error_Null (?k2 result h)))"
  let ?k = "\<lambda>err. case err of Some e \<Rightarrow> fail M False h e | None \<Rightarrow> readMsg M [msgTypeAck, msgTypeCred] h ?F"
  show thesis
  proof (rule that[of ?k ?F "?k2 r h'" "?F2 r"])
    show "outgoingHandshake M h i cc = writeData msgTypeCred ca ?k"
      unfolding outgoingHandshake_def writeCredentials_def writeMsg_def assms(1) option.case by (rule refl)
    have "?F (credMsg c) h' = writeAck M Error_Null (?k2 r h')"
      by (simp only: sum.case message.simps option.case option.sel assms(3))
    then show "?F (credMsg c) h' = writeData msgTypeAck ab (?k2 r h')"
      unfolding writeAck_def writeMsg_def assms(2) option.case .
    show "?F2 r okMsg h'' = Done (Inr r, release h'')" for h''
      by (simp add: ret_def)
  qed (rule option.case)+
qed

lemma incoming_parts:
  assumes "marshalCred M (MakeCredentials cc i) = Some cb" and "marshalAck M Error_Null = Some ab"
    and "CheckCredential cc i c = Inr r"
  obtains F k F2 k2 where "incomingHandshake M h i cc = readMsg M [msgTypeCred] h F"
    and "F (credMsg c) h' = writeData msgTypeCred cb k" and "k None = readMsg M [msgTypeAck] h' F2"
    and "F2 okMsg h'' = writeData msgTypeAck ab k2" and "k2 None = Done (Inr r, release h'')"
proof -
  let ?k2 = "\<lambda>result h err. case err of Some e \<Rightarrow> fail M False h e | None \<Rightarrow> ret h (Inr result)"
  let ?F2 = "\<lambda>result r h. case r of Inl e \<Rightarrow> fail M False h e | Inr msg \<Rightarrow>
     if the (msg_ack msg) \<noteq> Error_Null then
       ret h (Inl (if the (msg_ack msg) = Error_InvalidCredentials then ErrPeerDeclinedCredentials
                   else HandshakeError None (the (msg_ack msg))))
     else writeAck M Error_Null (?k2 result h)"
  let ?k = "\<lambda>result h err. case err of Some e \<Rightarrow> fail M False h e | None \<Rightarrow> readMsg M [msgTypeAck] h (?F2 result)"
  let ?F = "\<lambda>r h. case r of Inl e \<Rightarrow> fail M False h e | Inr msg \<Rightarrow>
     (case CheckCredential cc i (the (msg_cred msg)) of Inl e \<Rightarrow> fail M False h e
      | Inr result \<Rightarrow> writeCredentials M (MakeCredentials cc i) (?k result h))"
  show thesis
  proof (rule that[of ?F "?k r h'" "?F2 r" "?k2 r h''"])
    show "incomingHandshake M h i cc = readMsg M [msgTypeCred] h ?F"
      unfolding incomingHandshake_def by (rule refl)
    have "?F (credMsg c) h' = writeCredentials M (MakeCredentials cc i) (?k r h')"
      by (simp only: sum.case message.simps option.case option.sel assms(3))
    then show "?F (credMsg c) h' = writeData msgTypeCred cb (?k r h')"
      unfolding writeCredentials_def writeMsg_def assms(1) option.case .
    have "?F2 r okMsg h'' = writeAck M Error_Null (?k2 r h'')"
      by (simp only: sum.case message.simps option.sel not_True_eq_False if_False simp_thms)
    then show "?F2 r okMsg h'' = writeData msgTypeAck ab (?k2 r h'')"
      unfolding writeAck_def writeMsg_def assms(2) option.case .
    show "?k2 r h'' None = Done (Inr r, release h'')"
      by (simp add: ret_def)
  qed (rule option.case)
qed

lemma decode_ok:
  "unmarshalCred M body (h_remoteCred h) = (c, True) \<Longrightarrow> decodeMsg M msgTypeCred body h = (credMsg c, h\<lparr>h_remoteCred := c\<rparr>)"
  "unmarshalAck M body (h_remoteAck h) = (Error_Null, True) \<Longrightarrow> decodeMsg M msgTypeAck body h = (okMsg, h\<lparr>h_remoteAck := Error_Null\<rparr>)"
  by (simp_all add: decodeMsg_def msgTypeCred_def msgTypeAck_def)

text \<open>The runs of the two sides, each with all that the other side has written by then.\<close>

lemma outgoing_runs:
  assumes ca: "marshalCred M (MakeCredentials cc i) = Some ca"
    and ab: "marshalAck M Error_Null = Some ab" "length ab \<le> sizeLimit" "unmarshalAck M ab 0 = (Error_Null, True)"
    and ack: "h_remoteAck h = 0" and cb: "length cb \<le> sizeLimit" "unmarshalCred M cb (h_remoteCred h) = (c, True)"
    and check: "CheckCredential cc i c = Inr r"
  obtains a1 a2 a3 where "sideRun [] (startSide (outgoingHandshake M h i cc)) a1" "sd_out a1 = frame msgTypeCred ca"
    "sideRun (frame msgTypeCred cb) a1 a2" "sd_out a2 = frame msgTypeCred ca @ frame msgTypeAck ab"
    "sideRun (frame msgTypeCred cb @ frame msgTypeAck ab) a2 a3" "sd_ret a3 = Some (Inr r)"
proof -
  let ?fa = "frame msgTypeCred ca" and ?fb = "frame msgTypeCred cb" and ?ok = "frame msgTypeAck ab" and ?h = "h\<lparr>h_remoteCred := c\<rparr>"
  have dec: "decodeMsg M msgTypeCred cb h = (credMsg c, ?h)"
    "decodeMsg M msgTypeAck ab ?h = (okMsg, ?h\<lparr>h_remoteAck := Error_Null\<rparr>)"
    using cb ab(3) ack by (simp_all add: decode_ok)
  obtain k F k2 F2 where A: "outgoingHandshake M h i cc = writeData msgTypeCred ca k" "k None = readMsg M [msgTypeAck, msgTypeCred] h F"
    "F (credMsg c) ?h = writeData msgTypeAck ab k2" "k2 None = readMsg M [msgTypeAck] ?h F2"
    "\<And>h''. F2 okMsg h'' = Done (Inr r, release h'')"
    using outgoing_parts[OF ca ab(1) check, of h ?h] by metis
  let ?a0 = "startSide (outgoingHandshake M h i cc)"
  define a1 where "a1 = ?a0\<lparr>sd_proc := k None, sd_out := ?fa\<rparr>"
  define m1 where "m1 = a1\<lparr>sd_proc := F (credMsg c) ?h, sd_in := length ([] @ ?fb)\<rparr>"
  define a2 where "a2 = m1\<lparr>sd_proc := k2 None, sd_out := ?fa @ ?ok\<rparr>"
  define m2 where "m2 = a2\<lparr>sd_proc := F2 okMsg (?h\<lparr>h_remoteAck := Error_Null\<rparr>), sd_in := length (?fb @ ?ok)\<rparr>"
  note defs = startSide_def A(1) a1_def m1_def a2_def m2_def
  have r1: "sideRun [] ?a0 a1"
    using run_writes[of ?a0 msgTypeCred ca k] by (simp add: defs)
  have r2: "sideRun ?fb a1 m1"
    unfolding m1_def using cb(1) dec(1)
    by (intro run_reads[where post = "[]" and types = "[msgTypeAck, msgTypeCred]" and M = M and h = h and k = F]) (simp_all add: defs A(2))
  have r3: "sideRun ?fb m1 a2"
    using run_writes[of m1 msgTypeAck ab k2] by (simp add: defs A(3))
  have r4: "sideRun (?fb @ ?ok) a2 m2"
    unfolding m2_def using ab(2) dec(2)
    by (intro run_reads[where post = "[]" and types = "[msgTypeAck]" and M = M and h = ?h and k = F2]) (simp_all add: defs A(4))
  have r5: "sideRun (?fb @ ?ok) m2 (m2\<lparr>sd_ret := Some (Inr r)\<rparr>)"
    using run_returns[of m2] by (simp add: defs A(5))
  show thesis
    by (rule that[OF r1 _ sideRun_trans[OF r2 r3] _ sideRun_trans[OF r4 r5]]) (simp_all add: defs)
qed

lemma incoming_runs:
  assumes cb: "marshalCred M (MakeCredentials cc i) = Some cb"
    and ab: "marshalAck M Error_Null = Some ab" "length ab \<le> sizeLimit" "unmarshalAck M ab 0 = (Error_Null, True)"
    and ack: "h_remoteAck h = 0" and ca: "length ca \<le> sizeLimit" "unmarshalCred M ca (h_remoteCred h) = (c, True)"
    and check: "CheckCredential cc i c = Inr r"
  obtains b1 b2 where "sideRun (frame msgTypeCred ca) (startSide (incomingHandshake M h i cc)) b1" "sd_out b1 = frame msgTypeCred cb"
    "sideRun (frame msgTypeCred ca @ frame msgTypeAck ab) b1 b2" "sd_out b2 = frame msgTypeCred cb @ frame msgTypeAck ab"
    "sd_ret b2 = Some (Inr r)"
proof -
  let ?fa = "frame msgTypeCred ca" and ?fb = "frame msgTypeCred cb" and ?ok = "frame msgTypeAck ab" and ?h = "h\<lparr>h_remoteCred := c\<rparr>"
  let ?h2 = "?h\<lparr>h_remoteAck := Error_Null\<rparr>"
  have dec: "decodeMsg M msgTypeCred ca h = (credMsg c, ?h)" "decodeMsg M msgTypeAck ab ?h = (okMsg, ?h2)"
    using ca ab(3) ack by (simp_all add: decode_ok)
  obtain G l G2 l2 where B: "incomingHandshake M h i cc = readMsg M [msgTypeCred] h G" "G (credMsg c) ?h = writeData msgTypeCred cb l"
    "l None = readMsg M [msgTypeAck] ?h G2" "G2 okMsg ?h2 = writeData msgTypeAck ab l2" "l2 None = Done (Inr r, release ?h2)"
    using incoming_parts[OF cb ab(1) check, of h ?h ?h2] by metis
  let ?b0 = "startSide (incomingHandshake M h i cc)"
  define m1 where "m1 = ?b0\<lparr>sd_proc := G (credMsg c) ?h, sd_in := length ([] @ ?fa)\<rparr>"
  define b1 where "b1 = m1\<lparr>sd_proc := l None, sd_out := ?fb\<rparr>"
  define m2 where "m2 = b1\<lparr>sd_proc := G2 okMsg ?h2, sd_in := length (?fa @ ?ok)\<rparr>"
  define m3 where "m3 = m2\<lparr>sd_proc := l2 None, sd_out := ?fb @ ?ok\<rparr>"
  note defs = startSide_def B(1) m1_def b1_def m2_def m3_def
  have r1: "sideRun ?fa ?b0 m1"
    unfolding m1_def using ca(1) dec(1)
    by (intro run_reads[where post = "[]" and types = "[msgTypeCred]" and M = M and h = h and k = G]) (simp_all add: startSide_def B(1))
  have r2: "sideRun ?fa m1 b1"
    using run_writes[of m1 msgTypeCred cb l] by (simp add: defs B(2))
  have r3: "sideRun (?fa @ ?ok) b1 m2"
    unfolding m2_def using ab(2) dec(2)
    by (intro run_reads[where post = "[]" and types = "[msgTypeAck]" and M = M and h = ?h and k = G2]) (simp_all add: defs B(3))
  have r4: "sideRun (?fa @ ?ok) m2 m3"
    using run_writes[of m2 msgTypeAck ab l2] by (simp add: defs B(4))
  have r5: "sideRun (?fa @ ?ok) m3 (m3\<lparr>sd_ret := Some (Inr r)\<rparr>)"
    using run_returns[of m3] by (simp add: defs B(5))
  show thesis
    by (rule that[OF sideRun_trans[OF r1 r2] _ sideRun_trans[OF r3 sideRun_trans[OF r4 r5]]]) (simp_all add: defs)
qed

text \<open>Two sides that accept each other have a run without faults in which both return.\<close>

lemma handshake_completes:
  assumes laws: "codecLaws M" and acks: "h_remoteAck hA = 0" "h_remoteAck hB = 0"
    and ca: "marshalCred M (MakeCredentials ccA idB) = Some ca" "length ca \<le> sizeLimit"
    and cb: "marshalCred M (MakeCredentials ccB idA) = Some cb" "length cb \<le> sizeLimit"
    and both: "bothChecked hA hB idA idB ccA ccB rA rB"
  shows "\<exists>n a b. netReach faults (outgoingHandshake M hA idB ccA) (incomingHandshake M hB idA ccB) n (a, b)
    \<and> sd_ret a = Some (Inr rA) \<and> sd_ret b = Some (Inr rB)"
proof -
  let ?p = "outgoingHandshake M hA idB ccA" and ?q = "incomingHandshake M hB idA ccB"
  obtain ab where ab: "marshalAck M Error_Null = Some ab" "length ab \<le> sizeLimit" "unmarshalAck M ab 0 = (Error_Null, True)"
    using codecLaws_ack[OF laws] by blast
  note check = both[unfolded bothChecked_def]
  note um = codecLaws_cred[OF laws ca(1), of "h_remoteCred hB", THEN conjunct2] codecLaws_cred[OF laws cb(1), of "h_remoteCred hA", THEN conjunct2]
  obtain a1 a2 a3 where A: "sideRun [] (startSide ?p) a1" "sd_out a1 = frame msgTypeCred ca"
    "sideRun (frame msgTypeCred cb) a1 a2" "sd_out a2 = frame msgTypeCred ca @ frame msgTypeAck ab"
    "sideRun (frame msgTypeCred cb @ frame msgTypeAck ab) a2 a3" "sd_ret a3 = Some (Inr rA)"
    using outgoing_runs[OF ca(1) ab acks(1) cb(2) um(2) check[THEN conjunct1]] .
  obtain b1 b2 where B: "sideRun (frame msgTypeCred ca) (startSide ?q) b1" "sd_out b1 = frame msgTypeCred cb"
    "sideRun (frame msgTypeCred ca @ frame msgTypeAck ab) b1 b2" "sd_out b2 = frame msgTypeCred cb @ frame msgTypeAck ab"
    "sd_ret b2 = Some (Inr rB)"
    using incoming_runs[OF cb(1) ab acks(2) ca(2) um(1) check[THEN conjunct2]] .
  have "sd_out (startSide ?q) = []"
    by (simp add: startSide_def)
  then obtain n1 where n1: "netReach faults ?p ?q n1 (a1, startSide ?q)"
    using reach_left[OF netReach.start] A(1) by metis
  obtain n2 where n2: "netReach faults ?p ?q n2 (a1, b1)"
    using reach_right[OF n1] A(2) B(1) by metis
  obtain n3 where n3: "netReach faults ?p ?q n3 (a2, b1)"
    using reach_left[OF n2] A(3) B(2) by metis
  obtain n4 where n4: "netReach faults ?p ?q n4 (a2, b2)"
    using reach_right[OF n3] A(4) B(3) by metis
  obtain n5 where n5: "netReach faults ?p ?q n5 (a3, b2)"
    using reach_left[OF n4] A(5) B(4) by metis
  show ?thesis
    using n5 A(6) B(5) by blast
qed

text \<open>
  Two members with keys whose signature of a message is the identity followed by the message; the format of messages knows the two
  credentials that they send.
\<close>

definition sampleKeys :: "string \<Rightarrow> hsKeys" where
  "sampleKeys i = \<lparr>hk_sign = (\<lambda>m. Some (i @ m)), hk_marshalled = i, hk_peerId = ''p'' @ i\<rparr>"

definition sampleVerifier :: verifier where
  "sampleVerifier i = Some (\<lambda>m s. Some (s = i @ m))"

definition sampleCred :: "string \<Rightarrow> string \<Rightarrow> Credentials" where
  "sampleCred i signature = \<lparr>cred_Type = CredentialsType_SignedPeerIds, cred_Payload = i @ signature, cred_Version = 5,
     cred_ClientVersion = ''v1''\<rparr>"

definition sampleCodec :: hsCodec where
  "sampleCodec = \<lparr>marshalCred = (\<lambda>c. if c = sampleCred ''a'' ''apapb'' then Some ''A'' else if c = sampleCred ''b'' ''bpbpa'' then Some ''B'' else None),
     marshalProto = (\<lambda>_. None), marshalAck = (\<lambda>e. Some (leBytes 4 (unat e))),
     unmarshalCred = (\<lambda>bs old. (mergeCred old (if bs = ''A'' then sampleCred ''a'' ''apapb'' else sampleCred ''b'' ''bpbpa''), True)),
     unmarshalProto = (\<lambda>_ p. (p, False)), unmarshalAck = (\<lambda>bs _. (of_nat (leValue bs), True)),
     marshalSigned = (\<lambda>i s. i @ s), unmarshalSigned = (\<lambda>p. if p = [] then None else Some ([hd p], tl p))\<rparr>"

definition sampleService :: "string \<Rightarrow> secureService" where
  "sampleService i = initCheckers sampleCodec sampleVerifier 5 [4, 5] ''v1'' (sampleKeys i) True False"

definition sampleOut :: checker where
  "sampleOut = outboundCheckerFor (sampleService ''a'') True False"

definition sampleIn :: checker where
  "sampleIn = inboundCheckerFor (sampleService ''b'') True"

lemma sampleCodec_laws: "codecLaws sampleCodec"
proof -
  have "leValue (leBytes 4 (unat e)) = unat e" for e :: enum
  proof -
    have "unat e < 2 ^ LENGTH(32)"
      by (rule unsigned_less)
    then show ?thesis
      by (simp add: leValue_leBytes)
  qed
  then show ?thesis
    by (auto simp: codecLaws_def sampleCodec_def sizeLimit_def length_leBytes)
qed

definition sampleResult :: "string \<Rightarrow> Result" where
  "sampleResult i = \<lparr>res_Identity = i, res_ProtoVersion = 5, res_ClientVersion = ''v1''\<rparr>"

lemma sample_checked: "bothChecked newPoolHandshake newPoolHandshake ''pa'' ''pb'' sampleOut sampleIn (sampleResult ''b'') (sampleResult ''a'')"
  by code_simp

theorem handshake_mutual_witness:
  "\<exists>n a b. netReach True (outgoingHandshake sampleCodec newPoolHandshake ''pb'' sampleOut)
       (incomingHandshake sampleCodec newPoolHandshake ''pa'' sampleIn) n (a, b)
     \<and> sd_ret a = Some (Inr (sampleResult ''b''))
     \<and> (\<exists>rB h. sd_proc b = Done (Inr rB, h)
         \<and> bothChecked newPoolHandshake newPoolHandshake ''pa'' ''pb'' sampleOut sampleIn (sampleResult ''b'') rB)"
proof -
  have ack: "h_remoteAck newPoolHandshake = 0"
    by (simp add: newPoolHandshake_def)
  have m: "marshalCred sampleCodec (MakeCredentials sampleOut ''pb'') = Some ''A''" "marshalCred sampleCodec (MakeCredentials sampleIn ''pa'') = Some ''B''"
    by code_simp+
  then obtain n a b where run: "netReach True (outgoingHandshake sampleCodec newPoolHandshake ''pb'' sampleOut)
      (incomingHandshake sampleCodec newPoolHandshake ''pa'' sampleIn) n (a, b)" "sd_ret a = Some (Inr (sampleResult ''b''))"
    using handshake_completes[OF sampleCodec_laws ack ack m(1) _ m(2) _ sample_checked, of True] by (auto simp: sizeLimit_def)
  have "\<exists>rB h. sd_proc b = Done (Inr rB, h)
      \<and> bothChecked newPoolHandshake newPoolHandshake ''pa'' ''pb'' sampleOut sampleIn (sampleResult ''b'') rB"
    using handshake_mutual[OF sampleCodec_laws ack ack sampleOut_def[unfolded sampleService_def] sampleIn_def[unfolded sampleService_def] _ _ run(1)]
      m run(2) by simp
  then show ?thesis
    using run by blast
qed

section \<open>Objects from the pool\<close>

text \<open>
  The credentials that are checked are those of the message where it has them, and otherwise what the object held before. \<open>release\<close>
  leaves the version and the client version in the object, so that a peer that sends no version is checked with the version of the
  peer whose handshake used the object before.
\<close>

lemma stale_version_checked:
  assumes "codecLaws M" and "marshalCred M c = Some bs" and "cred_Version c = 0" and "cred_ClientVersion c = []"
  shows "\<exists>c' h'. decodeMsg M msgTypeCred bs (release h) = (Inr \<lparr>msg_cred = Some c', msg_proto = None, msg_ack = None\<rparr>, h')
    \<and> cred_Version c' = cred_Version (h_remoteCred h) \<and> cred_ClientVersion c' = cred_ClientVersion (h_remoteCred h)"
  using codecLaws_cred[OF assms(1,2), of "h_remoteCred (release h)"] assms(3,4)
  by (simp add: decodeMsg_def mergeCred_def release_def)

end
