(* ===== verification/Spec2Isabelle.thy ===== *)
theory Spec2Isabelle
  imports Prelude AclHistory AclBatch Slices LdiffRemoved TreeProperties PubProperties HandshakeProperties
begin

text \<open>
  Verification of any-sync, the synchronisation layer for local-first spaces. All paths are below \<open>src/\<close>.

  \<^bold>\<open>The program.\<close> A space is shared by accounts. Who may do what is recorded in an access control list, a chain of signed
  records that every node replays (\<open>commonspace/object/acl\<close>). The content of a space is a set of objects, each a graph of
  signed changes that replicas extend independently and that every replica must order in the same way
  (\<open>commonspace/object/tree/objecttree\<close>). Replicas find out which objects differ by comparing hashes over ranges of ids
  (\<open>app/ldiff\<close>). Short-lived messages go to the members that subscribed to a topic (\<open>commonspace/pubsub\<close>) over a pool of
  tagged streams (\<open>net/streampool\<close>). Two peers that connect check each other's credentials first
  (\<open>net/secureservice\<close>). The order of permissions in the list decides which changes of an object and which
  messages are authentic, and the list hands out the keys that the content is encrypted with.

  \<^bold>\<open>Conventions\<close> (\<open>Prelude\<close>). Go strings and byte slices are strings, a Go map is an association list with one entry for
  a key, \<open>uint64\<close> and \<open>uint32\<close> are words, a struct is a record and a pointer into shared structures is an id into an
  explicit store. A function that can fail returns \<open>error + 'a\<close>; a panic (nil dereference, type assertion, index) is an error
  value of its own, so that every early return of the code is a branch of the definition. Ranging over a Go map follows the
  association list where the result does not depend on the order. Where it does, the order is a parameter: the invites of a
  state are searched in the order that the field \<open>rangeRank\<close> of \<open>crypto\<close> gives (\<open>rangeInvites\<close>), which theorems leave
  arbitrary or vary. The removal of a join request (\<open>dropRequestOf\<close>) takes the first request of the account, and the
  invariant says that there is only one. A method that runs under a mutex is one step;
  goroutines are steps that may be taken in any order. Code that is not in the repository or is generated from protocol
  files (cryptography, the wire format, databases, the skip list, the token bucket, queues, the lexid package, clocks and
  random keys) is a record of functions that the definitions take as an argument; what a theorem needs of it is a named
  hypothesis, and its witness gives concrete functions for which it holds.

  \<^bold>\<open>Access control list.\<close>
  \<^item> \<open>AclModels\<close>: the data of \<open>models.go\<close>, of the head of \<open>aclstate.go\<close> and of the messages in \<open>aclrecord.proto\<close>.
  \<^item> \<open>AclValidator\<close>: \<open>validator.go\<close>, one definition for each \<open>Validate\<close> method with the checks in their order. The flags
    \<open>shouldValidate\<close> and \<open>admission\<close> are the three modes of the code.
  \<^item> \<open>AclApply\<close>: the part of \<open>aclstate.go\<close> that changes the state and \<open>onetoone.go\<close>: roots, every kind of content,
    \<open>ApplyRecord\<close>, \<open>Copy\<close>. \<open>AclQueries\<close>: its read operations.
  \<^item> \<open>AclList\<close>: decoding and verification of records (\<open>aclrecordbuilder.go\<close>, \<open>keepidentity.go\<close>, \<open>recordverifier\<close>),
    \<open>list.go\<close>, \<open>aclstatebuilder.go\<close>, \<open>storage.go\<close> and \<open>inmemorystorage.go\<close>.
  \<^item> \<open>AclBuilder\<close>: the other half of \<open>aclrecordbuilder.go\<close>, every \<open>Build\<close> operation with the preflight check.
  \<^item> \<open>AclInvariants\<close> proves an invariant of the state for every content (\<open>acl_inv\<close>), \<open>AclAuthority\<close> who may change whose
    permissions, \<open>AclModes\<close> that a stricter mode accepts less and changes the state in the same way, \<open>AclStorage\<close> the
    contract of a storage (locale \<open>acl_storage\<close>, interpreted on the in-memory one) and that a list rebuilt from its storage is
    the list, \<open>AclHistory\<close> that the past is stable, \<open>AclBuilt\<close> that a rotation of the read key that a manager builds is
    accepted and reaches exactly the members, \<open>AclInvites\<close> what records do to invites and that the order of ranging over
    them is irrelevant when their keys differ, \<open>AclBatch\<close> what a batch does to invites. \<open>AclProperties\<close> collects the theorems
    on states, \<open>AclExamples\<close> holds the example space of their witnesses.

  \<^bold>\<open>Object tree.\<close> \<open>ObjTree\<close> models \<open>tree.go\<close>, \<open>treeiterator.go\<close> and \<open>treereduce.go\<close> with the changes in memory as a store
  and \<open>Next\<close>, \<open>Previous\<close> as ids. \<open>TreeWait\<close>, \<open>TreeAttach\<close> and \<open>TreeHeads\<close> prove the invariant through the wait lists, the
  recursion that attaches and the heads; \<open>TreeOrder\<close> the order of the iteration and the order ids; \<open>TreeProperties\<close> has the
  theorems: replicas converge, adding a batch attaches exactly what has its previous changes, order ids never change.

  \<^bold>\<open>List diff.\<close> \<open>HashRange\<close> is \<open>hashrange.go\<close> with its pointers on a heap, \<open>RangeDivision\<close> the 64-bit arithmetic of the
  division, \<open>RangeTree\<close>, \<open>RangeCells\<close>, \<open>RangeAdd\<close>, \<open>RangeHash\<close> the invariant of the tree, its counters and its hashes.
  \<open>Ldiff\<close> is \<open>diff.go\<close>; \<open>LdiffContainer\<close> shows what the operations of a container do, \<open>LdiffProtocol\<close> analyses the client's
  loop once against the locale \<open>range_provider\<close>, and \<open>LdiffProperties\<close> interprets it on the container: a comparison returns
  and what it reports is right. \<open>LdiffRemoved\<close> shows which removed ids it misses. \<open>Slices\<close> is \<open>util/slice\<close>; it returns the
  answer of \<open>ContainsSorted\<close>, not the arguments that the code sorts in place.

  \<^bold>\<open>Publish and subscribe.\<close> \<open>PubTopic\<close> is \<open>topic.go\<close>, \<open>PubTrie\<close> \<open>trie.go\<close>, \<open>PubMessage\<close> \<open>sign.go\<close>, \<open>dedup.go\<close> and
  \<open>ratelimit.go\<close>, \<open>StreamPool\<close> \<open>net/streampool\<close>, \<open>PubService\<close> \<open>service.go\<close> and \<open>deps.go\<close>. \<open>PubInterest\<close> has the interface of
  a store of patterns (locale \<open>pattern_store\<close>, interpreted on the trie) and the invariant that ties the streams of the pool, the
  patterns recorded for them and the tries together; \<open>PubSteps\<close>, \<open>PubEvict\<close> and \<open>PubReach\<close> show it for every operation and
  for the states that sequences of steps reach (\<open>svcReach\<close>); \<open>PubProperties\<close> concludes who receives a message. The counters of
  a stream's statistics, \<open>int32\<close> and \<open>int64\<close> in the code, are unbounded.

  \<^bold>\<open>Handshake.\<close> \<open>Handshake\<close> is \<open>net/secureservice/handshake\<close>, \<open>credential.go\<close> and the choice of checkers in
  \<open>secureservice.go\<close>; a function that talks to its connection is a process, a datatype of its next action and how it goes on.
  \<open>HandshakeNet\<close> runs two processes against each other in steps (\<open>sideStep\<close>, \<open>netReach\<close>): every write may be cut, every read may
  fail and every caller may give up at any time. It reduces the runs of the two to what each reads and writes (\<open>localRun\<close>),
  which \<open>HandshakeRuns\<close> analyses for both functions. \<open>HandshakeProperties\<close> shows that a side succeeds only if both checks did,
  and that two sides with compatible credentials have a run in which both succeed. That generated encoders and decoders
  agree, with fields that the bytes lack kept, is the hypothesis \<open>codecLaws\<close>. There is no theorem on the handshake of the
  protocol.

  \<^bold>\<open>Loops.\<close> There is no fuel. Loops over slices and maps are folds or recursions on the list, index loops of \<open>Slices\<close> and the
  attaching of changes are functions with a termination proof. A loop that may run forever (\<open>walkPrevIds\<close>, \<open>topSortLoop\<close>,
  \<open>dfsLoop\<close>, \<open>makeBottoms\<close>, \<open>descend\<close>, \<open>recalculateHashes\<close>, \<open>diffLoop\<close>, \<open>removeLoop_tree\<close>, \<open>snapshotPath\<close>, \<open>meetPath\<close>,
  \<open>getStreams\<close>) is a partial function whose value is \<open>None\<close> if it does not return, of type \<open>('e, 'a) run\<close>; theorems on these
  state that a value is returned. \<open>removeLoop_tree\<close>, \<open>snapshotPath\<close>, \<open>meetPath\<close> and \<open>getStreams\<close> are modelled without such a
  theorem; the last indeed need not return when a stream cannot be added.

  \<^bold>\<open>Bugs.\<close> Theorems of the form that something goes wrong state behaviour of the code as it is: a stale join request can
  demote the owner, \<open>AccountsAdd\<close> erases a permission history, a factor that does not divide the range loses buckets, a
  removed id can be missed, a second \<open>unsubscribe\<close> breaks a counter, and invites of one batch overwrite each other. Lemmas
  show three more: the read keys of two invites with one key depend on the order of a map (\<open>shared_invite_key_order\<close>),
  setting an element again can change the hash of a container (\<open>repeated_set_changes_hash\<close>), and credentials without a
  version are checked with the version of an earlier peer (\<open>stale_version_checked\<close>).

  \<^bold>\<open>Not modelled.\<close>
  \<^item> The rest of the object tree (\<open>objecttree.go\<close>, builders, validators, storage): it joins the graph modelled here with a
    database and with decoding of changes. The any-store implementations of all storages are database access.
  \<^item> The wire-level fast path of \<open>keepidentity.go\<close>: it walks the bytes of the generated format. The definitions take it as a
    function; that it agrees with the full decoding is the hypothesis of the theorem on it.
  \<^item> Synchronisation around the modelled parts (\<open>commonspace/sync\<close>, \<open>synctree\<close>, \<open>syncacl\<close>, \<open>headsync\<close>, \<open>settings\<close>,
    \<open>deletionmanager\<close>, \<open>keyvalue\<close>): messages between peers, queues and databases.
  \<^item> Transports, connections and their pools (\<open>net\<close> apart from the stream pool and the handshake), clients of services (\<open>coordinator\<close>,
    \<open>consensus\<close>, \<open>nodeconf\<close>, \<open>paymentservice\<close>, \<open>nameservice\<close>), the component container and object cache (\<open>app\<close>), metrics and
    logging: input and output, timers and goroutines.
  \<^item> \<open>util/crypto\<close>: wrappers of cryptographic libraries, which the model takes as parameters.
  \<^item> Mutexes, and with them interleavings inside an operation. The place where it matters is noted in \<open>PubService\<close>: the
    handler of an unsubscription drops tags after it releases its lock, and the handler of a subscription checks the
    membership before it takes the lock to record the interest; the model joins each to one step.
\<close>

end
